(* ===== verification/Go_Prelude.thy ===== *)
theory Go_Prelude
  imports Main "HOL-Library.Word" "HOL-Library.List_Lexorder" "HOL-Library.Char_ord"
    "HOL-Library.Sublist" "HOL-Library.Multiset"
begin

text \<open>
  What every component of the development shares: the Go integer types as words, the shape of
  a Go method that mutates its receiver and returns an \<open>error\<close>, loops that stop at the first
  error, the string functions of the standard library the sources call (\<open>strings.Split\<close>,
  \<open>strings.Join\<close>, \<open>strconv.FormatUint\<close>, \<open>strconv.ParseUint\<close>), the slice functions
  (\<open>slices.Index\<close>, \<open>slices.Delete\<close>, \<open>sort.SliceStable\<close>) and the iteration over a
  Go map, whose order the language leaves open.

  A Go string is a sequence of bytes, and so is a HOL \<open>string\<close>; the order of strings is
  bytewise and lexicographic in both (theories List\_Lexorder and Char\_ord).
\<close>

section \<open>Types and proof hints\<close>

type_synonym u64 = "64 word"

type_synonym ('e, 's) eff = "'e option \<times> 's"

named_theorems go_eff "running effectful methods"
named_theorems go_str "strings of the standard library"
named_theorems go_wf "well-formedness of component states"

section \<open>Methods that mutate a state and may return an error\<close>

text \<open>
  A method with receiver state \<open>s\<close> that returns \<open>error\<close> is a function from the state to
  the error (\<open>None\<close> for \<open>nil\<close>) and the state the method leaves behind. On an error the
  state is whatever the code had written so far: nothing is rolled back unless the code does so.
\<close>

definition ret :: "'s \<Rightarrow> ('e, 's) eff" where
  "ret s = (None, s)"

definition fail :: "'e \<Rightarrow> 's \<Rightarrow> ('e, 's) eff" where
  "fail e s = (Some e, s)"

definition and_then :: "('e, 's) eff \<Rightarrow> ('s \<Rightarrow> ('e, 's) eff) \<Rightarrow> ('e, 's) eff" where
  "and_then r k = (case r of (None, s) \<Rightarrow> k s | (Some e, s) \<Rightarrow> (Some e, s))"

fun for_each :: "('x \<Rightarrow> 's \<Rightarrow> ('e, 's) eff) \<Rightarrow> 'x list \<Rightarrow> 's \<Rightarrow> ('e, 's) eff" where
  "for_each f [] s = (None, s)"
| "for_each f (x # xs) s =
     (case f x s of (None, s') \<Rightarrow> for_each f xs s' | (Some e, s') \<Rightarrow> (Some e, s'))"

lemma ret_simps [simp]: "fst (ret s) = None" "snd (ret s) = s" "ret s = (None, s')  \<longleftrightarrow> s = s'"
  by (auto simp: ret_def)

lemma fail_simps [simp]: "fst (fail e s) = Some e" "snd (fail e s) = s"
  "fail e s = (None, s') \<longleftrightarrow> False"
  by (auto simp: fail_def)

lemma and_then_ret [simp, go_eff]: "and_then (ret s) k = k s" "and_then (None, s) k = k s"
  by (simp_all add: and_then_def ret_def)

lemma and_then_fail [simp, go_eff]:
  "and_then (fail e s) k = (Some e, s)" "and_then (Some e, s) k = (Some e, s)"
  by (simp_all add: and_then_def fail_def)

lemma and_then_None:
  "and_then r k = (None, t) \<longleftrightarrow> (\<exists>s. r = (None, s) \<and> k s = (None, t))"
  by (auto simp: and_then_def split: prod.splits option.splits)

lemma fst_and_then_None:
  "fst (and_then r k) = None \<longleftrightarrow> fst r = None \<and> fst (k (snd r)) = None"
  by (auto simp: and_then_def split: prod.splits option.splits)

lemma and_then_cases:
  assumes "and_then r k = (eo, t)"
  obtains (ok) s where "r = (None, s)" "k s = (eo, t)"
    | (err) e where "r = (Some e, t)" "eo = Some e"
  using assms by (auto simp: and_then_def split: prod.splits option.splits)

lemma and_then_inv:
  "\<lbrakk>P (snd r); \<And>s. r = (None, s) \<Longrightarrow> P s \<Longrightarrow> P (snd (k s))\<rbrakk> \<Longrightarrow> P (snd (and_then r k))"
  by (auto simp: and_then_def split: prod.splits option.splits)

lemma for_each_inv:
  "\<lbrakk>P s; \<And>x s. x \<in> set xs \<Longrightarrow> P s \<Longrightarrow> P (snd (f x s))\<rbrakk> \<Longrightarrow> P (snd (for_each f xs s))"
proof (induction xs arbitrary: s)
  case Nil
  then show ?case by simp
next
  case (Cons x xs)
  obtain eo t where step: "f x s = (eo, t)" by (cases "f x s")
  with Cons.prems(1) Cons.prems(2) [of x s] have "P t" by simp
  with Cons.IH [of t] Cons.prems(2) step show ?case
    by (cases eo) auto
qed

lemma for_each_append:
  "for_each f (xs @ ys) s = and_then (for_each f xs s) (for_each f ys)"
  by (induction xs arbitrary: s) (auto simp: and_then_def split: prod.splits option.splits)

lemma for_each_total:
  "(\<And>x s. x \<in> set xs \<Longrightarrow> f x s = (None, g x s)) \<Longrightarrow> for_each f xs s = (None, fold g xs s)"
  by (induction xs arbitrary: s) auto

text \<open>A loop over strings that are parsed first.\<close>

lemma for_each_parsed:
  assumes "\<forall>x \<in> set xs. parse x = Inr (g x)"
  shows "for_each (\<lambda>x s. case parse x of Inl e \<Rightarrow> fail e s | Inr y \<Rightarrow> f y s) xs s = for_each f (map g xs) s"
  using assms by (induction xs arbitrary: s) (auto split: prod.splits option.splits)

text \<open>A method of a field of the receiver.\<close>

definition on_field ::
  "('s \<Rightarrow> 'f) \<Rightarrow> ('f \<Rightarrow> 's \<Rightarrow> 's) \<Rightarrow> ('f \<Rightarrow> ('e, 'f) eff) \<Rightarrow> 's \<Rightarrow> ('e, 's) eff" where
  "on_field get put f s = (case f (get s) of (e, t) \<Rightarrow> (e, put t s))"

lemma for_each_cong [fundef_cong]:
  "\<lbrakk>xs = ys; s = t; \<And>x u. x \<in> set ys \<Longrightarrow> f x u = g x u\<rbrakk> \<Longrightarrow> for_each f xs s = for_each g ys t"
proof (induction ys arbitrary: xs s t)
  case Nil
  then show ?case by simp
next
  case (Cons y ys)
  then show ?case by (auto split: prod.splits option.splits)
qed

section \<open>Slices\<close>

text \<open>\<open>slices.IndexFunc\<close>, \<open>slices.Index\<close>: the Go value \<open>-1\<close> is \<open>None\<close>.\<close>

fun index_where :: "('a \<Rightarrow> bool) \<Rightarrow> 'a list \<Rightarrow> nat option" where
  "index_where p [] = None"
| "index_where p (x # xs) = (if p x then Some 0 else map_option Suc (index_where p xs))"

lemma index_where_None: "index_where p xs = None \<longleftrightarrow> (\<forall>x \<in> set xs. \<not> p x)"
  by (induction xs) auto

lemma index_where_Some:
  "index_where p xs = Some i \<longleftrightarrow> i < length xs \<and> p (xs ! i) \<and> (\<forall>j < i. \<not> p (xs ! j))"
proof (induction xs arbitrary: i)
  case Nil
  then show ?case by simp
next
  case (Cons x xs)
  show ?case
  proof (cases i)
    case 0
    then show ?thesis using Cons by auto
  next
    case (Suc k)
    have "(\<forall>j < Suc k. \<not> p ((x # xs) ! j)) \<longleftrightarrow> \<not> p x \<and> (\<forall>j < k. \<not> p (xs ! j))"
      by (auto simp: less_Suc_eq_0_disj)
    with Suc show ?thesis using Cons by auto
  qed
qed

lemma index_where_find: "find p xs = map_option (\<lambda>i. xs ! i) (index_where p xs)"
  by (induction xs) (auto simp: option.map_comp comp_def)

lemma find_sound:
  assumes "find p xs = Some x"
  shows "p x" and "x \<in> set xs"
  using assms by (induction xs) (auto split: if_splits)

lemma index_where_split:
  "index_where p xs = Some i \<Longrightarrow>
   xs = take i xs @ xs ! i # drop (Suc i) xs \<and> p (xs ! i) \<and> (\<forall>x \<in> set (take i xs). \<not> p x)"
  by (auto simp: index_where_Some id_take_nth_drop [symmetric] in_set_conv_nth)

lemma index_where_cong [fundef_cong]:
  "\<lbrakk>xs = ys; \<And>x. x \<in> set ys \<Longrightarrow> p x = q x\<rbrakk> \<Longrightarrow> index_where p xs = index_where q ys"
proof (induction ys arbitrary: xs)
  case (Cons y ys)
  then have "index_where p ys = index_where q ys" by simp
  with Cons.prems show ?case by simp
qed simp

text \<open>\<open>slices.Delete(s, i, i+1)\<close> and \<open>append(s[:i], s[i+1:]...)\<close>.\<close>

definition delete_at :: "nat \<Rightarrow> 'a list \<Rightarrow> 'a list" where
  "delete_at i xs = take i xs @ drop (Suc i) xs"

lemma set_delete_at: "set (delete_at i xs) \<subseteq> set xs"
  by (auto simp: delete_at_def dest: in_set_takeD in_set_dropD)

lemma map_delete_at: "map f (delete_at i xs) = delete_at i (map f xs)"
  by (simp add: delete_at_def take_map drop_map)

text \<open>A slice sorted by \<open>sort.SliceStable\<close> with a comparison \<open>lt\<close>.\<close>

fun insert_by :: "('a \<Rightarrow> 'a \<Rightarrow> bool) \<Rightarrow> 'a \<Rightarrow> 'a list \<Rightarrow> 'a list" where
  "insert_by lt x [] = [x]"
| "insert_by lt x (y # ys) = (if lt y x then y # insert_by lt x ys else x # y # ys)"

fun stable_sort :: "('a \<Rightarrow> 'a \<Rightarrow> bool) \<Rightarrow> 'a list \<Rightarrow> 'a list" where
  "stable_sort lt [] = []"
| "stable_sort lt (x # xs) = insert_by lt x (stable_sort lt xs)"

lemma mset_insert_by [simp]: "mset (insert_by lt x xs) = add_mset x (mset xs)"
  by (induction xs) auto

lemma mset_stable_sort [simp]: "mset (stable_sort lt xs) = mset xs"
  by (induction xs) auto

lemma set_stable_sort [simp]: "set (stable_sort lt xs) = set xs"
  by (metis mset_stable_sort set_mset_mset)

lemma length_stable_sort [simp]: "length (stable_sort lt xs) = length xs"
  by (metis mset_stable_sort size_mset)

lemma sorted_insert_by:
  assumes trans: "\<And>a b c. \<not> lt b a \<Longrightarrow> \<not> lt c b \<Longrightarrow> \<not> lt c a"
    and asym: "\<And>a b. lt a b \<Longrightarrow> \<not> lt b a"
    and "sorted_wrt (\<lambda>a b. \<not> lt b a) xs"
  shows "sorted_wrt (\<lambda>a b. \<not> lt b a) (insert_by lt x xs)"
  using assms(3)
proof (induction xs)
  case Nil
  then show ?case by simp
next
  case (Cons y ys)
  have elems: "set (insert_by lt x ys) = insert x (set ys)"
    using mset_insert_by [of lt x ys] by (metis set_mset_add_mset_insert set_mset_mset)
  show ?case
  proof (cases "lt y x")
    case True
    with Cons asym elems show ?thesis by auto
  next
    case False
    with Cons trans show ?thesis by auto
  qed
qed

lemma sorted_stable_sort:
  assumes "\<And>a b c. \<not> lt b a \<Longrightarrow> \<not> lt c b \<Longrightarrow> \<not> lt c a"
    and "\<And>a b. lt a b \<Longrightarrow> \<not> lt b a"
  shows "sorted_wrt (\<lambda>a b. \<not> lt b a) (stable_sort lt xs)"
  by (induction xs) (auto intro: sorted_insert_by [OF assms])

section \<open>Iteration over a Go map\<close>

text \<open>
  The language does not say in which order \<open>range m\<close> visits the keys of a map. A model of a
  loop over a map takes the order as a list of keys, and a theorem quantifies over every list
  that visits each key once.
\<close>

definition iteration_of :: "('k \<rightharpoonup> 'v) \<Rightarrow> 'k list \<Rightarrow> bool" where
  "iteration_of m ks \<longleftrightarrow> distinct ks \<and> set ks = dom m"

definition in_order :: "('k \<rightharpoonup> 'v) \<Rightarrow> 'k list \<Rightarrow> 'v list" where
  "in_order m ks = List.map_filter m ks"

lemma iteration_of_empty [simp]: "iteration_of Map.empty ks \<longleftrightarrow> ks = []"
  by (auto simp: iteration_of_def)

lemma set_in_order: "iteration_of m ks \<Longrightarrow> set (in_order m ks) = ran m"
  by (force simp: in_order_def iteration_of_def map_filter_def ran_def)

lemma iteration_of_exists: "finite (dom m) \<Longrightarrow> \<exists>ks. iteration_of m ks"
  unfolding iteration_of_def by (metis finite_distinct_list)

text \<open>A map filled with records under a key of their own.\<close>

definition put_all :: "('r \<Rightarrow> 'k) \<Rightarrow> 'r list \<Rightarrow> ('k \<rightharpoonup> 'r) \<Rightarrow> ('k \<rightharpoonup> 'r)" where
  "put_all key rs m = fold (\<lambda>r m. m(key r \<mapsto> r)) rs m"

lemma put_all_simps [simp]:
  "put_all key [] m = m" "put_all key (r # rs) m = put_all key rs (m(key r \<mapsto> r))"
  by (simp_all add: put_all_def)

lemma put_all_other: "k \<notin> key ` set rs \<Longrightarrow> put_all key rs m k = m k"
  by (induction rs arbitrary: m) auto

lemma put_all_hit:
  "\<lbrakk>r \<in> set rs; inj_on key (set rs)\<rbrakk> \<Longrightarrow> put_all key rs m (key r) = Some r"
proof (induction rs arbitrary: m)
  case (Cons x rs)
  show ?case
  proof (cases "r \<in> set rs")
    case True
    then show ?thesis using Cons by (auto intro: inj_on_subset)
  next
    case False
    then have "key r \<notin> key ` set rs" using Cons.prems by (auto simp: inj_on_def)
    then show ?thesis using False Cons.prems(1) by (auto simp: put_all_other)
  qed
qed simp

lemma put_all_empty_iff:
  "inj_on key (set rs) \<Longrightarrow> put_all key rs Map.empty k = Some r \<longleftrightarrow> r \<in> set rs \<and> key r = k"
  using put_all_hit [of _ rs key Map.empty] put_all_other [of k key rs Map.empty]
  by (cases "k \<in> key ` set rs") (auto dest: inj_onD)

lemma distinct_in_order:
  assumes "distinct ks" "\<forall>k r. m k = Some r \<longrightarrow> key r = k"
  shows "distinct (in_order m ks)"
  using assms(1)
proof (induction ks)
  case (Cons k ks)
  have "r \<notin> set (in_order m ks)" if "m k = Some r" for r
  proof
    assume "r \<in> set (in_order m ks)"
    then obtain j where "j \<in> set ks" "m j = Some r" by (auto simp: in_order_def map_filter_def)
    then have "key r = j" "key r = k" using that assms(2) by blast+
    with \<open>j \<in> set ks\<close> Cons.prems show False by simp
  qed
  with Cons show ?case by (auto simp: in_order_def map_filter_simps split: option.splits)
qed (simp add: in_order_def map_filter_simps)

lemma put_all_listing:
  assumes "inj_on key (set rs)" "iteration_of (put_all key rs Map.empty) ks"
  shows "set (in_order (put_all key rs Map.empty) ks) = set rs"
    and "distinct (in_order (put_all key rs Map.empty) ks)"
proof -
  show "set (in_order (put_all key rs Map.empty) ks) = set rs"
    unfolding set_in_order [OF assms(2)] ran_def using put_all_empty_iff [OF assms(1)] by auto
  show "distinct (in_order (put_all key rs Map.empty) ks)"
    using assms(2) put_all_empty_iff [OF assms(1)]
    by (intro distinct_in_order [where key = key]) (auto simp: iteration_of_def)
qed

section \<open>Strings\<close>

text \<open>\<open>strings.Split(s, sep)\<close> for a separator of one byte: never the empty list.\<close>

fun split_on :: "char \<Rightarrow> string \<Rightarrow> string list" where
  "split_on c [] = [[]]"
| "split_on c (x # xs) =
     (if x = c then [] # split_on c xs
      else (x # hd (split_on c xs)) # tl (split_on c xs))"

text \<open>\<open>strings.Join(parts, sep)\<close>.\<close>

fun join_with :: "string \<Rightarrow> string list \<Rightarrow> string" where
  "join_with sep [] = []"
| "join_with sep [w] = w"
| "join_with sep (w # v # ws) = w @ sep @ join_with sep (v # ws)"

lemma split_on_nonempty [simp]: "split_on c s \<noteq> []"
  by (induction s) auto

lemma split_on_code [code]:
  "split_on c [] = [[]]"
  "split_on c (x # xs) =
     (case split_on c xs of
        [] \<Rightarrow> [[x]]
      | w # ws \<Rightarrow> if x = c then [] # w # ws else (x # w) # ws)"
  by (simp, cases "split_on c xs") auto

lemma split_on_plain [simp, go_str]: "c \<notin> set w \<Longrightarrow> split_on c w = [w]"
  by (induction w) auto

lemma split_on_append [go_str]:
  "c \<notin> set w \<Longrightarrow> split_on c (w @ c # s) = w # split_on c s"
  by (induction w) auto

lemma split_on_join:
  "\<lbrakk>ws \<noteq> []; \<forall>w \<in> set ws. c \<notin> set w\<rbrakk> \<Longrightarrow> split_on c (join_with [c] ws) = ws"
  by (induction "[c]" ws rule: join_with.induct) (auto simp: split_on_append)

lemma length_split_on: "length (split_on c s) = Suc (count_list s c)"
  by (induction s) auto

lemma split_on_parts: "w \<in> set (split_on c s) \<Longrightarrow> c \<notin> set w"
proof (induction s arbitrary: w)
  case Nil
  then show ?case by simp
next
  case (Cons x s)
  have "hd (split_on c s) \<in> set (split_on c s)" by simp
  with Cons show ?case
    by (auto split: if_splits dest: list.set_sel(2) [OF split_on_nonempty])
qed

lemma join_split_on: "join_with [c] (split_on c s) = s"
proof (induction s)
  case Nil
  then show ?case by simp
next
  case (Cons x s)
  then show ?case
    by (cases "split_on c s"; cases "tl (split_on c s)") auto
qed

text \<open>
  \<open>strconv.FormatUint(n, 10)\<close> and \<open>strconv.ParseUint(s, 10, 64)\<close>. In base 10 the parser
  takes digits only (no sign, no underscore), leading zeros included, and rejects the empty
  string and values of \<open>2 ^ 64\<close> and more; \<open>None\<close> is any error.
\<close>

definition digit_char :: "nat \<Rightarrow> char" where
  "digit_char d = char_of (48 + d)"

definition is_digit :: "char \<Rightarrow> bool" where
  "is_digit c \<longleftrightarrow> 48 \<le> (of_char c :: nat) \<and> (of_char c :: nat) \<le> 57"

definition digit_val :: "char \<Rightarrow> nat" where
  "digit_val c = of_char c - 48"

fun dec_string :: "nat \<Rightarrow> string" where
  "dec_string n =
     (if n < 10 then [digit_char n] else dec_string (n div 10) @ [digit_char (n mod 10)])"

declare dec_string.simps [simp del]

definition parse_dec :: "string \<Rightarrow> nat" where
  "parse_dec s = foldl (\<lambda>acc c. 10 * acc + digit_val c) 0 s"

definition format_uint :: "u64 \<Rightarrow> string" where
  "format_uint n = dec_string (unat n)"

definition parse_uint64 :: "string \<Rightarrow> u64 option" where
  "parse_uint64 s =
     (if s = [] \<or> \<not> list_all is_digit s then None
      else if parse_dec s < 2 ^ 64 then Some (of_nat (parse_dec s)) else None)"

lemma digit_char_props:
  assumes "d < 10"
  shows "is_digit (digit_char d)" and "digit_val (digit_char d) = d"
  using assms by (auto simp: is_digit_def digit_char_def digit_val_def of_char_of)

lemma dec_string_digits: "list_all is_digit (dec_string n)"
proof (induction n rule: dec_string.induct)
  case (1 n)
  then show ?case
    by (subst dec_string.simps) (auto simp: digit_char_props)
qed

lemma dec_string_nonempty [simp]: "dec_string n \<noteq> []"
  by (subst dec_string.simps) simp

lemma parse_dec_string [simp]: "parse_dec (dec_string n) = n"
proof (induction n rule: dec_string.induct)
  case (1 n)
  show ?case
  proof (cases "n < 10")
    case True
    then show ?thesis
      by (subst dec_string.simps) (simp add: parse_dec_def digit_char_props)
  next
    case False
    then have IH: "parse_dec (dec_string (n div 10)) = n div 10" using 1 by simp
    have "parse_dec (dec_string n) = 10 * parse_dec (dec_string (n div 10)) + n mod 10"
      using False by (subst dec_string.simps) (simp add: parse_dec_def digit_char_props)
    then show ?thesis using IH by simp
  qed
qed

lemma parse_format_uint [simp, go_str]: "parse_uint64 (format_uint n) = Some n"
proof -
  have "unat n < 2 ^ 64" using unsigned_less [of n] by simp
  then show ?thesis
    by (simp add: parse_uint64_def format_uint_def dec_string_digits)
qed

lemma format_uint_inj [simp]: "format_uint a = format_uint b \<longleftrightarrow> a = b"
  by (metis option.inject parse_format_uint)

lemma dec_string_chars: "c \<in> set (dec_string n) \<Longrightarrow> is_digit c"
  using dec_string_digits by (auto simp: list_all_iff)

lemma format_uint_no_sep [simp, go_str]:
  "CHR ''_'' \<notin> set (format_uint n)" "CHR '':'' \<notin> set (format_uint n)"
  by (auto simp: format_uint_def is_digit_def dest: dec_string_chars)

lemma format_uint_nonempty [simp]: "format_uint n \<noteq> []"
  by (simp add: format_uint_def)

text \<open>\<open>unicode.IsSpace\<close> on one byte of ASCII, and \<open>strings.TrimSpace\<close> with it.\<close>

definition is_space :: "char \<Rightarrow> bool" where
  "is_space c \<longleftrightarrow> c \<in> {CHR '' '', CHR 0x09, CHR 0x0A, CHR 0x0B, CHR 0x0C, CHR 0x0D}"

definition trim_space :: "string \<Rightarrow> string" where
  "trim_space s = rev (dropWhile is_space (rev (dropWhile is_space s)))"

text \<open>\<open>strings.ToLower\<close> on one byte of ASCII.\<close>

definition ascii_lower :: "char \<Rightarrow> char" where
  "ascii_lower c = (let n = of_char c :: nat in if 65 \<le> n \<and> n \<le> 90 then char_of (n + 32) else c)"

lemma dropWhile_none: "\<forall>c \<in> set s. \<not> p c \<Longrightarrow> dropWhile p s = s"
  by (cases s) auto

lemma trim_space_plain: "\<forall>c \<in> set s. \<not> is_space c \<Longrightarrow> trim_space s = s"
  by (simp add: trim_space_def dropWhile_none)

end
