(* ===== verification/Store_Spec.thy ===== *)
theory Store_Spec
  imports Go_Prelude
begin

text \<open>
  The contract of a keyed store of records (interface \<open>MutableStore\<close> of
  \<open>datastore/api_v1.go\<close>): what a lookup returns after each mutating operation, what happens
  to the keys staged for remote deletion, and which error every operation returns. The locale
  \<open>keyed_store\<close> states the laws; the three in-memory stores interpret it on their own
  operations; the loops of the clients (upserting the records of another store, propagating its
  staged deletions, loading a list of records) are verified once against the laws.

  The first section has what the interpretations share: a list of records in which no two have
  equal keys, searched from the front.
\<close>

section \<open>Lists of records with pairwise different keys\<close>

definition find_rec :: "('k \<Rightarrow> 'k \<Rightarrow> bool) \<Rightarrow> ('r \<Rightarrow> 'k) \<Rightarrow> 'r list \<Rightarrow> 'k \<Rightarrow> 'r option" where
  "find_rec eq key xs k = find (\<lambda>r. eq (key r) k) xs"

definition unique_keys :: "('k \<Rightarrow> 'k \<Rightarrow> bool) \<Rightarrow> ('r \<Rightarrow> 'k) \<Rightarrow> 'r list \<Rightarrow> bool" where
  "unique_keys eq key xs \<longleftrightarrow> sorted_wrt (\<lambda>a b. \<not> eq (key a) (key b)) xs"

lemma unique_keys_Nil [simp]: "unique_keys eq key []"
  by (simp add: unique_keys_def)

lemma find_rec_Nil [simp]: "find_rec eq key [] k = None"
  by (simp add: find_rec_def)

lemma find_rec_Cons [simp]:
  "find_rec eq key (x # xs) k = (if eq (key x) k then Some x else find_rec eq key xs k)"
  by (simp add: find_rec_def)

lemma find_rec_None: "find_rec eq key xs k = None \<longleftrightarrow> (\<forall>x \<in> set xs. \<not> eq (key x) k)"
  by (auto simp: find_rec_def find_None_iff)

lemma find_rec_Some: "find_rec eq key xs k = Some r \<Longrightarrow> r \<in> set xs \<and> eq (key r) k"
  by (auto simp: find_rec_def find_Some_iff)

lemma find_rec_index:
  "find_rec eq key xs k = map_option (\<lambda>i. xs ! i) (index_where (\<lambda>r. eq (key r) k) xs)"
  by (simp add: find_rec_def index_where_find)

lemma find_rec_append:
  "find_rec eq key (xs @ ys) k =
     (case find_rec eq key xs k of Some r \<Rightarrow> Some r | None \<Rightarrow> find_rec eq key ys k)"
  by (induction xs) auto

lemma find_rec_rev:
  assumes "equivp eq" "unique_keys eq key xs"
  shows "find_rec eq key (rev xs) k = find_rec eq key xs k"
  using assms(2)
proof (induction xs)
  case Nil
  then show ?case by simp
next
  case (Cons x xs)
  have "find_rec eq key xs k = None" if "eq (key x) k"
  proof -
    have "\<not> eq (key y) k" if "y \<in> set xs" for y
      using Cons.prems that \<open>eq (key x) k\<close> assms(1)
      by (auto simp: unique_keys_def) (meson equivp_symp equivp_transp)
    then show ?thesis by (simp add: find_rec_None)
  qed
  with Cons show ?case
    by (auto simp: unique_keys_def find_rec_append split: option.split)
qed

lemma unique_keys_nth:
  "\<lbrakk>unique_keys eq key xs; i < j; j < length xs\<rbrakk> \<Longrightarrow> \<not> eq (key (xs ! i)) (key (xs ! j))"
  by (auto simp: unique_keys_def sorted_wrt_iff_nth_less)

lemma store_append:
  assumes eq: "equivp eq" and "unique_keys eq key xs"
    and fresh: "\<forall>x \<in> set xs. \<not> eq (key x) (key r)"
  shows "unique_keys eq key (xs @ [r])"
    and "find_rec eq key (xs @ [r]) = (\<lambda>k. if eq (key r) k then Some r else find_rec eq key xs k)"
proof -
  show "unique_keys eq key (xs @ [r])"
    using assms by (auto simp: unique_keys_def sorted_wrt_append)
  show "find_rec eq key (xs @ [r]) = (\<lambda>k. if eq (key r) k then Some r else find_rec eq key xs k)"
  proof
    fix k
    have "find_rec eq key xs k = None" if "eq (key r) k"
      using fresh that eq unfolding find_rec_None by (meson equivp_symp equivp_transp)
    then show "find_rec eq key (xs @ [r]) k = (if eq (key r) k then Some r else find_rec eq key xs k)"
      by (auto simp: find_rec_append split: option.split)
  qed
qed

lemma find_rec_split:
  assumes eq: "equivp eq" and uniq: "unique_keys eq key (as @ x # bs)" and "eq (key x) k"
  shows "find_rec eq key as k = None" and "find_rec eq key bs k = None"
proof -
  have "\<not> eq (key a) (key x)" if "a \<in> set as" for a
    using uniq that by (auto simp: unique_keys_def sorted_wrt_append)
  moreover have "\<not> eq (key x) (key b)" if "b \<in> set bs" for b
    using uniq that by (auto simp: unique_keys_def sorted_wrt_append)
  ultimately show "find_rec eq key as k = None" "find_rec eq key bs k = None"
    using assms(3) eq unfolding find_rec_None by (meson equivp_symp equivp_transp)+
qed

lemma store_replace:
  assumes eq: "equivp eq" and uniq: "unique_keys eq key xs"
    and idx: "index_where (\<lambda>x. eq (key x) (key r)) xs = Some i"
  shows "unique_keys eq key (xs[i := r])"
    and "find_rec eq key (xs[i := r]) = (\<lambda>k. if eq (key r) k then Some r else find_rec eq key xs k)"
proof -
  define as x bs where "as = take i xs" and "x = xs ! i" and "bs = drop (Suc i) xs"
  have xs: "xs = as @ x # bs" and x: "eq (key x) (key r)" and i: "i < length xs"
    using index_where_split [OF idx] idx by (simp_all add: as_def x_def bs_def index_where_Some)
  have upd: "xs[i := r] = as @ r # bs"
    using i by (simp add: as_def bs_def upd_conv_take_nth_drop)
  have iff: "eq (key r) k \<longleftrightarrow> eq (key x) k" "eq k (key r) \<longleftrightarrow> eq k (key x)" for k
    using eq x by (meson equivp_symp equivp_transp)+
  show "unique_keys eq key (xs[i := r])"
    unfolding upd using uniq [unfolded xs] iff by (auto simp: unique_keys_def sorted_wrt_append)
  show "find_rec eq key (xs[i := r]) = (\<lambda>k. if eq (key r) k then Some r else find_rec eq key xs k)"
    unfolding upd using find_rec_split [OF eq uniq [unfolded xs]]
    by (subst xs) (auto simp: fun_eq_iff find_rec_append iff split: option.split)
qed

lemma store_delete:
  assumes eq: "equivp eq" and uniq: "unique_keys eq key xs"
    and idx: "index_where (\<lambda>x. eq (key x) k0) xs = Some i"
  shows "unique_keys eq key (delete_at i xs)"
    and "find_rec eq key (delete_at i xs) = (\<lambda>k. if eq k0 k then None else find_rec eq key xs k)"
proof -
  define as x bs where "as = take i xs" and "x = xs ! i" and "bs = drop (Suc i) xs"
  have xs: "xs = as @ x # bs" and x: "eq (key x) k0"
    using index_where_split [OF idx] by (simp_all add: as_def x_def bs_def)
  have del: "delete_at i xs = as @ bs"
    by (simp add: as_def bs_def delete_at_def)
  have iff: "eq k0 k \<longleftrightarrow> eq (key x) k" for k
    using eq x by (meson equivp_symp equivp_transp)
  show "unique_keys eq key (delete_at i xs)"
    unfolding del using uniq [unfolded xs] by (auto simp: unique_keys_def sorted_wrt_append)
  show "find_rec eq key (delete_at i xs) = (\<lambda>k. if eq k0 k then None else find_rec eq key xs k)"
    unfolding del using find_rec_split [OF eq uniq [unfolded xs]]
    by (subst xs) (auto simp: fun_eq_iff find_rec_append iff split: option.split)
qed

text \<open>Unique keys are a property of the set of records, up to repetition.\<close>

lemma unique_keys_iff:
  assumes "equivp eq"
  shows "unique_keys eq key xs \<longleftrightarrow>
    distinct xs \<and> (\<forall>a \<in> set xs. \<forall>b \<in> set xs. eq (key a) (key b) \<longrightarrow> a = b)"
proof (induction xs)
  case Nil
  then show ?case by simp
next
  case (Cons x xs)
  have refl: "eq (key x) (key x)" using assms by (simp add: equivp_reflp)
  have sym: "eq (key a) (key b) = eq (key b) (key a)" for a b
    using assms by (meson equivp_symp)
  show ?case
    using Cons refl sym by (auto simp: unique_keys_def)
qed

lemma find_rec_same_set:
  assumes "equivp eq" "unique_keys eq key xs" "unique_keys eq key ys" "set xs = set ys"
  shows "find_rec eq key xs = find_rec eq key ys"
proof
  fix k
  show "find_rec eq key xs k = find_rec eq key ys k"
  proof (cases "find_rec eq key xs k")
    case None
    then show ?thesis using assms(4) by (metis find_rec_None)
  next
    case (Some x)
    then have x: "x \<in> set ys" "eq (key x) k" using find_rec_Some [OF Some] assms(4) by auto
    then obtain y where y: "find_rec eq key ys k = Some y"
      by (metis find_rec_None not_None_eq)
    have "y \<in> set ys" "eq (key y) k" using find_rec_Some [OF y] by auto
    moreover have "eq (key x) (key y)"
      using x(2) \<open>eq (key y) k\<close> assms(1) by (meson equivp_symp equivp_transp)
    ultimately have "x = y" using x(1) assms(1,3) by (auto simp: unique_keys_iff)
    then show ?thesis using Some y by simp
  qed
qed

section \<open>The contract\<close>

text \<open>
  One staged deletion of \<open>MemoryDataStore.Merge\<close>: stage the key in the destination, then
  delete its record, tolerating the not-found sentinel of the store.
\<close>

definition propagate_delete ::
  "('k \<Rightarrow> 's \<Rightarrow> ('e, 's) eff) \<Rightarrow> ('k \<Rightarrow> 's \<Rightarrow> ('e, 's) eff) \<Rightarrow> 'e \<Rightarrow> 'k \<Rightarrow> 's \<Rightarrow> ('e, 's) eff" where
  "propagate_delete remote_delete delete not_found key s =
     and_then (remote_delete key s)
       (\<lambda>s. case delete key s of
          (None, s') \<Rightarrow> ret s'
        | (Some e, s') \<Rightarrow> if e \<noteq> not_found then fail e s' else ret s')"

definition stage :: "string \<Rightarrow> string list \<Rightarrow> string list" where
  "stage dk dks = (if dk \<in> set dks then dks else dks @ [dk])"

lemma set_stage [simp]: "set (stage dk dks) = insert dk (set dks)"
  by (auto simp: stage_def)

lemma distinct_stage: "distinct dks \<Longrightarrow> distinct (stage dk dks)"
  by (auto simp: stage_def)

text \<open>
  The abstract store of the contract: a map from keys to records and the set of staged keys. An
  operation gives the error it returns and the next abstract state.
\<close>

datatype ('r, 'k) store_op =
    OpAdd 'r
  | OpUpsert 'r
  | OpUpdate 'r
  | OpDelete 'k
  | OpRemoteDelete 'k

definition put_rec ::
  "('k \<Rightarrow> 'k \<Rightarrow> bool) \<Rightarrow> ('r \<Rightarrow> 'k) \<Rightarrow> ('k \<Rightarrow> string) \<Rightarrow> 'r \<Rightarrow>
   ('k \<Rightarrow> 'r option) \<times> string set \<Rightarrow> ('k \<Rightarrow> 'r option) \<times> string set" where
  "put_rec eq key str r a =
     ((\<lambda>k. if eq (key r) k then Some r else fst a k), snd a - {str (key r)})"

fun spec_op ::
  "('k \<Rightarrow> 'k \<Rightarrow> bool) \<Rightarrow> ('r \<Rightarrow> 'k) \<Rightarrow> ('k \<Rightarrow> string) \<Rightarrow> 'e \<Rightarrow> 'e \<Rightarrow> ('r, 'k) store_op \<Rightarrow>
   ('k \<Rightarrow> 'r option) \<times> string set \<Rightarrow> 'e option \<times> ('k \<Rightarrow> 'r option) \<times> string set" where
  "spec_op eq key str missing present (OpAdd r) a =
     (if fst a (key r) = None then (None, put_rec eq key str r a) else (Some present, a))"
| "spec_op eq key str missing present (OpUpsert r) a = (None, put_rec eq key str r a)"
| "spec_op eq key str missing present (OpUpdate r) a =
     (if fst a (key r) = None then (Some missing, a) else (None, put_rec eq key str r a))"
| "spec_op eq key str missing present (OpDelete k) a =
     (if fst a k = None then (Some missing, a)
      else (None, (\<lambda>j. if eq k j then None else fst a j), snd a))"
| "spec_op eq key str missing present (OpRemoteDelete k) a =
     (None, fst a, insert (str k) (snd a))"

fun run_ops :: "('op \<Rightarrow> 's \<Rightarrow> 'e option \<times> 's) \<Rightarrow> 'op list \<Rightarrow> 's \<Rightarrow> 'e option list \<times> 's" where
  "run_ops f [] s = ([], s)"
| "run_ops f (x # xs) s =
     (case f x s of (e, s1) \<Rightarrow> case run_ops f xs s1 of (es, s2) \<Rightarrow> (e # es, s2))"

locale keyed_store =
  fixes key_of :: "'r \<Rightarrow> 'k"
    and key_eq :: "'env \<Rightarrow> 'k \<Rightarrow> 'k \<Rightarrow> bool"
    and key_str :: "'env \<Rightarrow> 'k \<Rightarrow> string option"
    and env_ok :: "'env \<Rightarrow> bool"
    and rec_ok :: "'r \<Rightarrow> bool"
    and inv :: "'env \<Rightarrow> 's \<Rightarrow> bool"
    and lookup :: "'env \<Rightarrow> 's \<Rightarrow> 'k \<Rightarrow> 'r option"
    and staged :: "'s \<Rightarrow> string list"
    and add :: "'env \<Rightarrow> 'r \<Rightarrow> 's \<Rightarrow> ('e, 's) eff"
    and upsert :: "'env \<Rightarrow> 'r \<Rightarrow> 's \<Rightarrow> ('e, 's) eff"
    and update :: "'env \<Rightarrow> 'r \<Rightarrow> 's \<Rightarrow> ('e, 's) eff"
    and delete :: "'env \<Rightarrow> 'k \<Rightarrow> 's \<Rightarrow> ('e, 's) eff"
    and remote_delete :: "'env \<Rightarrow> 'k \<Rightarrow> 's \<Rightarrow> ('e, 's) eff"
    and not_found :: 'e
    and exists_err :: 'e
  assumes key_equiv: "env_ok env \<Longrightarrow> equivp (key_eq env)"
    and key_str_ok: "rec_ok r \<Longrightarrow> key_str env (key_of r) \<noteq> None"
    and staged_distinct: "inv env s \<Longrightarrow> distinct (staged s)"
    and lookup_cong: "\<lbrakk>env_ok env; inv env s; key_eq env k j\<rbrakk> \<Longrightarrow> lookup env s k = lookup env s j"
    and upsert_law: "\<lbrakk>env_ok env; inv env s; rec_ok r; key_str env (key_of r) = Some dk\<rbrakk> \<Longrightarrow>
      \<exists>s'. upsert env r s = (None, s') \<and> inv env s' \<and> staged s' = remove1 dk (staged s) \<and>
        lookup env s' = (\<lambda>k. if key_eq env (key_of r) k then Some r else lookup env s k)"
    and add_new_law: "\<lbrakk>env_ok env; inv env s; rec_ok r; lookup env s (key_of r) = None\<rbrakk> \<Longrightarrow>
      add env r s = upsert env r s"
    and add_old_law: "lookup env s (key_of r) \<noteq> None \<Longrightarrow> add env r s = (Some exists_err, s)"
    and update_old_law: "\<lbrakk>env_ok env; inv env s; rec_ok r; lookup env s (key_of r) \<noteq> None\<rbrakk> \<Longrightarrow>
      update env r s = upsert env r s"
    and update_new_law: "lookup env s (key_of r) = None \<Longrightarrow> update env r s = (Some not_found, s)"
    and delete_old_law: "\<lbrakk>env_ok env; inv env s; lookup env s k \<noteq> None\<rbrakk> \<Longrightarrow>
      \<exists>s'. delete env k s = (None, s') \<and> inv env s' \<and> staged s' = staged s \<and>
        lookup env s' = (\<lambda>j. if key_eq env k j then None else lookup env s j)"
    and delete_new_law: "lookup env s k = None \<Longrightarrow> delete env k s = (Some not_found, s)"
    and remote_delete_law: "\<lbrakk>inv env s; key_str env k = Some dk\<rbrakk> \<Longrightarrow>
      \<exists>s'. remote_delete env k s = (None, s') \<and> inv env s' \<and> staged s' = stage dk (staged s) \<and>
        lookup env s' = lookup env s"
begin

text \<open>A failed operation leaves the store as it was.\<close>

lemma add_fail_unchanged:
  assumes "env_ok env" "inv env s" "rec_ok r" "add env r s = (Some e, t)"
  shows "t = s \<and> e = exists_err \<and> lookup env s (key_of r) \<noteq> None"
proof (cases "lookup env s (key_of r)")
  case None
  obtain dk where "key_str env (key_of r) = Some dk" using key_str_ok assms(3) by blast
  with upsert_law [OF assms(1-3)] add_new_law [OF assms(1-3) None] assms(4) show ?thesis by auto
next
  case (Some x)
  with add_old_law [of env s r] assms(4) show ?thesis by auto
qed

text \<open>Upserting a list of records: the last record of a key wins.\<close>

lemma upsert_many:
  assumes "env_ok env" "inv env s" "\<forall>r \<in> set rs. rec_ok r"
  shows "\<exists>s'. for_each (upsert env) rs s = (None, s') \<and> inv env s' \<and>
    set (staged s') = set (staged s) - (\<lambda>r. the (key_str env (key_of r))) ` set rs \<and>
    lookup env s' = (\<lambda>k. case find_rec (key_eq env) key_of (rev rs) k of
        Some r \<Rightarrow> Some r | None \<Rightarrow> lookup env s k)"
  using assms(2,3)
proof (induction rs arbitrary: s)
  case Nil
  then show ?case by simp
next
  case (Cons r rs)
  have r: "rec_ok r" using Cons.prems by simp
  obtain dk where dk: "key_str env (key_of r) = Some dk" using key_str_ok r by blast
  then obtain s1 where s1: "upsert env r s = (None, s1)" "inv env s1"
      "staged s1 = remove1 dk (staged s)"
      "lookup env s1 = (\<lambda>k. if key_eq env (key_of r) k then Some r else lookup env s k)"
    using upsert_law [OF assms(1) Cons.prems(1) r] by blast
  obtain s2 where s2: "for_each (upsert env) rs s1 = (None, s2)" "inv env s2"
      "set (staged s2) = set (staged s1) - (\<lambda>r. the (key_str env (key_of r))) ` set rs"
      "lookup env s2 = (\<lambda>k. case find_rec (key_eq env) key_of (rev rs) k of
        Some r \<Rightarrow> Some r | None \<Rightarrow> lookup env s1 k)"
    using Cons.IH [OF s1(2)] Cons.prems(2) by auto
  have "set (staged s2) = set (staged s) - (\<lambda>r. the (key_str env (key_of r))) ` set (r # rs)"
    using s2(3) s1(3) dk set_remove1_eq [OF staged_distinct [OF Cons.prems(1)]] by auto
  with s1 s2 show ?case
    by (auto simp: fun_eq_iff find_rec_append split: option.split)
qed

text \<open>Propagating staged deletions: every one is staged in the destination and its record is gone.\<close>

lemma propagate_delete_law:
  assumes "env_ok env" "inv env s" "key_str env k = Some dk"
  shows "\<exists>s'. propagate_delete (remote_delete env) (delete env) not_found k s = (None, s') \<and>
    inv env s' \<and> staged s' = stage dk (staged s) \<and>
    lookup env s' = (\<lambda>j. if key_eq env k j then None else lookup env s j)"
proof -
  obtain s1 where s1: "remote_delete env k s = (None, s1)" "inv env s1"
      "staged s1 = stage dk (staged s)" "lookup env s1 = lookup env s"
    using remote_delete_law [OF assms(2,3)] by blast
  show ?thesis
  proof (cases "lookup env s1 k")
    case None
    have "(\<lambda>j. if key_eq env k j then None else lookup env s j) = lookup env s1"
      using s1(4) None lookup_cong [OF assms(1) s1(2)] by (auto simp: fun_eq_iff)
    then show ?thesis
      using s1 delete_new_law [OF None] by (simp add: propagate_delete_def ret_def)
  next
    case (Some x)
    then show ?thesis
      using s1 delete_old_law [OF assms(1) s1(2), of k] by (auto simp: propagate_delete_def ret_def fun_eq_iff)
  qed
qed

lemma propagate_many:
  assumes "env_ok env" "inv env s" "\<forall>k \<in> set ks. key_str env k \<noteq> None"
  shows "\<exists>s'. for_each (propagate_delete (remote_delete env) (delete env) not_found) ks s = (None, s') \<and>
    inv env s' \<and> set (staged s') = set (staged s) \<union> (\<lambda>k. the (key_str env k)) ` set ks \<and>
    lookup env s' = (\<lambda>j. if \<exists>k \<in> set ks. key_eq env k j then None else lookup env s j)"
  using assms(2,3)
proof (induction ks arbitrary: s)
  case Nil
  then show ?case by simp
next
  case (Cons k ks)
  obtain dk where dk: "key_str env k = Some dk" using Cons.prems(2) by auto
  obtain s1 where s1: "propagate_delete (remote_delete env) (delete env) not_found k s = (None, s1)"
      "inv env s1" "staged s1 = stage dk (staged s)"
      "lookup env s1 = (\<lambda>j. if key_eq env k j then None else lookup env s j)"
    using propagate_delete_law [OF assms(1) Cons.prems(1) dk] by blast
  obtain s2 where s2: "for_each (propagate_delete (remote_delete env) (delete env) not_found) ks s1 = (None, s2)"
      "inv env s2" "set (staged s2) = set (staged s1) \<union> (\<lambda>k. the (key_str env k)) ` set ks"
      "lookup env s2 = (\<lambda>j. if \<exists>k \<in> set ks. key_eq env k j then None else lookup env s1 j)"
    using Cons.IH [OF s1(2)] Cons.prems(2) by auto
  show ?case using s1 s2 dk by (auto simp: fun_eq_iff)
qed

text \<open>Loading records with pairwise different keys into a store that has none of them.\<close>

lemma add_many:
  assumes "env_ok env" "inv env s" "\<forall>r \<in> set rs. rec_ok r" "unique_keys (key_eq env) key_of rs"
    and "\<forall>r \<in> set rs. lookup env s (key_of r) = None"
  shows "\<exists>s'. for_each (add env) rs s = (None, s') \<and> inv env s' \<and>
    set (staged s') \<subseteq> set (staged s) \<and>
    lookup env s' = (\<lambda>k. case find_rec (key_eq env) key_of rs k of
        Some r \<Rightarrow> Some r | None \<Rightarrow> lookup env s k)"
  using assms(2-5)
proof (induction rs arbitrary: s)
  case Nil
  then show ?case by simp
next
  case (Cons r rs)
  have r: "rec_ok r" and new: "lookup env s (key_of r) = None" using Cons.prems by auto
  obtain dk where "key_str env (key_of r) = Some dk" using key_str_ok r by blast
  then obtain s1 where s1: "add env r s = (None, s1)" "inv env s1"
      "staged s1 = remove1 dk (staged s)"
      "lookup env s1 = (\<lambda>k. if key_eq env (key_of r) k then Some r else lookup env s k)"
    using upsert_law [OF assms(1) Cons.prems(1) r] add_new_law [OF assms(1) Cons.prems(1) r new]
    by metis
  have "unique_keys (key_eq env) key_of rs" and apart: "\<forall>x \<in> set rs. \<not> key_eq env (key_of r) (key_of x)"
    using Cons.prems(3) by (auto simp: unique_keys_def)
  then obtain s2 where s2: "for_each (add env) rs s1 = (None, s2)" "inv env s2"
      "set (staged s2) \<subseteq> set (staged s1)"
      "lookup env s2 = (\<lambda>k. case find_rec (key_eq env) key_of rs k of
        Some r \<Rightarrow> Some r | None \<Rightarrow> lookup env s1 k)"
    using Cons.IH [OF s1(2)] Cons.prems s1(4) by auto
  have rest: "find_rec (key_eq env) key_of rs k = None" if "key_eq env (key_of r) k" for k
    using apart that key_equiv [OF assms(1)] unfolding find_rec_None
    by (meson equivp_symp equivp_transp)
  have "set (staged s2) \<subseteq> set (staged s)"
    using s2(3) s1(3) by (metis order_trans set_remove1_subset)
  with s1 s2 rest show ?case
    by (auto simp: fun_eq_iff split: option.split)
qed

lemma add_fresh:
  assumes "env_ok env" "inv env s" "\<forall>r \<in> set rs. rec_ok r" "unique_keys (key_eq env) key_of rs"
    and "lookup env s = (\<lambda>k. None)"
  shows "\<exists>s'. for_each (add env) rs s = (None, s') \<and> inv env s' \<and> lookup env s' = find_rec (key_eq env) key_of rs"
proof -
  have "(\<lambda>k. case find_rec (key_eq env) key_of rs k of Some r \<Rightarrow> Some r | None \<Rightarrow> lookup env s k) =
      find_rec (key_eq env) key_of rs"
    using assms(5) by (auto simp: fun_eq_iff split: option.split)
  then show ?thesis using add_many [OF assms(1-4)] assms(5) by auto
qed

lemma add_many_only_if:
  assumes "env_ok env" "inv env s" "\<forall>r \<in> set rs. rec_ok r" "fst (for_each (add env) rs s) = None"
  shows "unique_keys (key_eq env) key_of rs \<and> (\<forall>r \<in> set rs. lookup env s (key_of r) = None)"
  using assms(2-4)
proof (induction rs arbitrary: s)
  case Nil
  then show ?case by simp
next
  case (Cons r rs)
  have r: "rec_ok r" using Cons.prems by simp
  obtain dk where dk: "key_str env (key_of r) = Some dk" using key_str_ok r by blast
  have new: "lookup env s (key_of r) = None"
    using add_old_law [of env s r] Cons.prems(3) by (cases "lookup env s (key_of r)") auto
  obtain s1 where s1: "add env r s = (None, s1)" "inv env s1"
      "lookup env s1 = (\<lambda>k. if key_eq env (key_of r) k then Some r else lookup env s k)"
    using upsert_law [OF assms(1) Cons.prems(1) r dk] add_new_law [OF assms(1) Cons.prems(1) r new]
    by metis
  have "unique_keys (key_eq env) key_of rs \<and> (\<forall>x \<in> set rs. lookup env s1 (key_of x) = None)"
    using Cons.IH [OF s1(2)] Cons.prems s1(1) by simp
  with new s1(3) show ?case
    by (auto simp: unique_keys_def split: if_splits)
qed

text \<open>Every operation simulates its abstract counterpart, and so does a sequence of them.\<close>

fun store_step :: "'env \<Rightarrow> ('r, 'k) store_op \<Rightarrow> 's \<Rightarrow> ('e, 's) eff" where
  "store_step env (OpAdd r) s = add env r s"
| "store_step env (OpUpsert r) s = upsert env r s"
| "store_step env (OpUpdate r) s = update env r s"
| "store_step env (OpDelete k) s = delete env k s"
| "store_step env (OpRemoteDelete k) s = remote_delete env k s"

fun op_ok :: "'env \<Rightarrow> ('r, 'k) store_op \<Rightarrow> bool" where
  "op_ok env (OpAdd r) = rec_ok r"
| "op_ok env (OpUpsert r) = rec_ok r"
| "op_ok env (OpUpdate r) = rec_ok r"
| "op_ok env (OpDelete k) = True"
| "op_ok env (OpRemoteDelete k) = (key_str env k \<noteq> None)"

definition abs_store :: "'env \<Rightarrow> 's \<Rightarrow> ('k \<Rightarrow> 'r option) \<times> string set" where
  "abs_store env s = (lookup env s, set (staged s))"

abbreviation spec_step where
  "spec_step env \<equiv> spec_op (key_eq env) key_of (\<lambda>k. the (key_str env k)) not_found exists_err"

lemma upsert_simulates:
  assumes "env_ok env" "inv env s" "rec_ok r"
  shows "\<exists>s'. upsert env r s = (None, s') \<and> inv env s' \<and>
    abs_store env s' = put_rec (key_eq env) key_of (\<lambda>k. the (key_str env k)) r (abs_store env s)"
proof -
  obtain dk where dk: "key_str env (key_of r) = Some dk" using key_str_ok assms(3) by blast
  from upsert_law [OF assms dk] obtain s' where
    "upsert env r s = (None, s')" "inv env s'" "staged s' = remove1 dk (staged s)"
    "lookup env s' = (\<lambda>k. if key_eq env (key_of r) k then Some r else lookup env s k)" by blast
  then show ?thesis
    using dk staged_distinct [OF assms(2)] by (auto simp: abs_store_def put_rec_def)
qed

lemma step_simulates:
  assumes "env_ok env" "inv env s" "op_ok env x"
  shows "\<exists>e s'. store_step env x s = (e, s') \<and> inv env s' \<and> spec_step env x (abs_store env s) = (e, abs_store env s')"
proof (cases x)
  case (OpAdd r)
  then show ?thesis
    using assms upsert_simulates [of env s r] add_new_law [of env s r] add_old_law [of env s r]
    by (cases "lookup env s (key_of r)") (auto simp: abs_store_def)
next
  case (OpUpsert r)
  then show ?thesis using assms upsert_simulates [of env s r] by (auto simp: abs_store_def)
next
  case (OpUpdate r)
  then show ?thesis
    using assms upsert_simulates [of env s r] update_old_law [of env s r] update_new_law [of env s r]
    by (cases "lookup env s (key_of r)") (auto simp: abs_store_def)
next
  case (OpDelete k)
  then show ?thesis
    using assms delete_old_law [of env s k] delete_new_law [of env s k]
    by (cases "lookup env s k") (auto simp: abs_store_def cong: if_cong)
next
  case (OpRemoteDelete k)
  then show ?thesis
    using assms remote_delete_law [of env s k] by (auto simp: abs_store_def)
qed

lemma run_simulates:
  assumes "env_ok env" "inv env s" "\<forall>x \<in> set xs. op_ok env x"
  shows "\<exists>es s'. run_ops (store_step env) xs s = (es, s') \<and> inv env s' \<and>
    run_ops (spec_step env) xs (abs_store env s) = (es, abs_store env s')"
  using assms(2,3)
proof (induction xs arbitrary: s)
  case Nil
  then show ?case by simp
next
  case (Cons x xs)
  obtain e s1 where "store_step env x s = (e, s1)" "inv env s1"
    "spec_step env x (abs_store env s) = (e, abs_store env s1)"
    using step_simulates [OF assms(1) Cons.prems(1)] Cons.prems(2) by force
  moreover obtain es s2 where "run_ops (store_step env) xs s1 = (es, s2)" "inv env s2"
    "run_ops (spec_step env) xs (abs_store env s1) = (es, abs_store env s2)"
    using Cons.IH [of s1] calculation Cons.prems(2) by auto
  ultimately show ?case by simp
qed

end

end
