(* ===== verification/Go_Json.thy ===== *)
theory Go_Json
  imports Go_Prelude
begin

text \<open>
  The values that cross the \<open>any\<close> interface, and the part of \<open>encoding/json\<close> the
  sources use on them: \<open>json.Marshal\<close>, and a decoder with \<open>UseNumber\<close> that reads into
  \<open>any\<close>. A value is what reflection sees: a struct with its fields, a slice, a map, a pointer,
  a basic value, or a value of a type that implements both \<open>json.Marshaler\<close> and
  \<open>json.Unmarshaler\<close> (with the JSON it encodes to). A Go map with string keys is the list of
  its entries in the order of the keys, so that equal maps are equal values. Of a struct tag the
  name is modelled; the options after a comma (\<open>omitempty\<close>), embedded structs and floating
  point values are not.

  On top of it the two utilities of the datastore package that copy metadata through JSON
  (\<open>datastore/clone.go\<close>, \<open>datastore/transform.go\<close>).
\<close>

section \<open>JSON documents and Go values\<close>

datatype json =
    JNull
  | JBool bool
  | JNum string
  | JStr string
  | JArr "json list"
  | JObj "(string \<times> json) list"

record sfield =
  fname :: string
  ftag :: string
  fexported :: bool

datatype goval =
    VNil
  | VBool bool
  | VInt int
  | VStr string
  | VNumber string
  | VNilRef
  | VSlice "goval list"
  | VMap "(string \<times> goval) list"
  | VStruct string "(sfield \<times> goval) list"
  | VPtr "goval option"
  | VCodec json
  | VOpaque

text \<open>Maps as lists of entries in the order of the keys.\<close>

fun put_entry :: "'k::linorder \<Rightarrow> 'v \<Rightarrow> ('k \<times> 'v) list \<Rightarrow> ('k \<times> 'v) list" where
  "put_entry k v [] = [(k, v)]"
| "put_entry k v ((k', v') # es) =
     (if k < k' then (k, v) # (k', v') # es
      else if k = k' then (k, v) # es
      else (k', v') # put_entry k v es)"

fun entries_of :: "('k::linorder \<times> 'v) list \<Rightarrow> ('k \<times> 'v) list" where
  "entries_of [] = []"
| "entries_of ((k, v) # es) =
     (if k \<in> fst ` set es then entries_of es else put_entry k v (entries_of es))"

definition key_sorted :: "('k::linorder \<times> 'v) list \<Rightarrow> bool" where
  "key_sorted es \<longleftrightarrow> sorted_wrt (<) (map fst es)"

lemma map_of_put_entry: "map_of (put_entry k v es) = (map_of es)(k \<mapsto> v)"
  by (induction es) (auto simp: fun_eq_iff)

lemma keys_put_entry: "fst ` set (put_entry k v es) = insert k (fst ` set es)"
  using arg_cong [OF map_of_put_entry [of k v es], of dom] by (simp add: dom_map_of_conv_image_fst)

lemma key_sorted_put_entry: "key_sorted es \<Longrightarrow> key_sorted (put_entry k v es)"
proof (induction es)
  case Nil
  then show ?case by (simp add: key_sorted_def)
next
  case (Cons e es)
  obtain k' v' where e: "e = (k', v')" by (cases e)
  have tail: "key_sorted es" and below: "\<forall>x \<in> fst ` set es. k' < x"
    using Cons.prems by (auto simp: key_sorted_def e)
  have "\<forall>x \<in> fst ` set (put_entry k v es). k' < x \<or> x = k"
    using below by (auto simp: keys_put_entry)
  then show ?case
    using Cons.IH [OF tail] tail below unfolding e key_sorted_def
    by (auto intro: less_trans)
qed

lemma key_sorted_entries_of: "key_sorted (entries_of es)"
  by (induction es rule: entries_of.induct)
    (auto simp: key_sorted_put_entry, simp add: key_sorted_def)

lemma keys_entries_of: "fst ` set (entries_of es) = fst ` set es"
  by (induction es rule: entries_of.induct) (auto simp: keys_put_entry)

lemma set_put_entry: "set (put_entry k v es) \<subseteq> insert (k, v) (set es)"
  by (induction es) (auto split: if_splits)

lemma set_entries_of: "set (entries_of es) \<subseteq> set es"
  by (induction es rule: entries_of.induct) (auto dest!: subsetD [OF set_put_entry])

lemma put_entry_front: "\<forall>x \<in> fst ` set es. k < x \<Longrightarrow> put_entry k v es = (k, v) # es"
  by (cases es) auto

lemma entries_of_sorted: "key_sorted es \<Longrightarrow> entries_of es = es"
proof (induction es rule: entries_of.induct)
  case 1
  then show ?case by simp
next
  case (2 k v es)
  then have "key_sorted es" and below: "\<forall>x \<in> fst ` set es. k < x"
    by (auto simp: key_sorted_def)
  moreover have "k \<notin> fst ` set es" using below by auto
  ultimately show ?case using 2 by (simp add: put_entry_front)
qed

text \<open>Later entries win, and the order of entries with distinct keys does not matter.\<close>

lemma key_sorted_unique:
  assumes "key_sorted xs" "key_sorted ys" "set xs = set ys"
  shows "xs = ys"
proof (rule map_sorted_distinct_set_unique [of fst])
  have "distinct (map fst xs)" "distinct (map fst ys)"
    and "sorted (map fst xs)" "sorted (map fst ys)"
    using assms(1,2) by (simp_all add: key_sorted_def strict_sorted_iff)
  then show "distinct (map fst xs)" "distinct (map fst ys)"
    and "sorted (map fst xs)" "sorted (map fst ys)" by blast+
  from \<open>distinct (map fst xs)\<close> have "inj_on fst (set xs)" by (simp add: distinct_map)
  with assms(3) show "inj_on fst (set xs \<union> set ys)" by simp
qed (rule assms(3))

lemma set_put_entry_fresh: "k \<notin> fst ` set es \<Longrightarrow> set (put_entry k v es) = insert (k, v) (set es)"
  by (induction es) (auto split: if_splits)

lemma set_entries_of_distinct: "distinct (map fst es) \<Longrightarrow> set (entries_of es) = set es"
  by (induction es rule: entries_of.induct)
    (auto simp: set_put_entry_fresh keys_entries_of)

lemma entries_of_perm:
  assumes "mset xs = mset ys" "distinct (map fst xs)"
  shows "entries_of xs = entries_of ys"
proof (rule key_sorted_unique [OF key_sorted_entries_of key_sorted_entries_of])
  have "mset (map fst xs) = mset (map fst ys)" using assms(1) by simp
  from mset_eq_imp_distinct_iff [OF this] have "distinct (map fst ys)" using assms(2) by simp
  moreover have "set xs = set ys" using assms(1) by (rule mset_eq_setD)
  ultimately show "set (entries_of xs) = set (entries_of ys)"
    using assms(2) by (simp only: set_entries_of_distinct)
qed

section \<open>Encoding and decoding\<close>

definition int_string :: "int \<Rightarrow> string" where
  "int_string i = (if i < 0 then CHR ''-'' # dec_string (nat (- i)) else dec_string (nat i))"

definition json_name :: "sfield \<Rightarrow> string" where
  "json_name f = (let n = hd (split_on (CHR '','') (ftag f)) in if n = [] then fname f else n)"

text \<open>\<open>json.Marshal\<close>: \<open>None\<close> when a value of a kind JSON cannot carry is met.\<close>

fun marshal :: "goval \<Rightarrow> json option"
  and marshal_list :: "goval list \<Rightarrow> json list option"
  and marshal_entries :: "(string \<times> goval) list \<Rightarrow> (string \<times> json) list option"
  and marshal_fields :: "(sfield \<times> goval) list \<Rightarrow> (string \<times> json) list option" where
  "marshal VNil = Some JNull"
| "marshal (VBool b) = Some (JBool b)"
| "marshal (VInt i) = Some (JNum (int_string i))"
| "marshal (VStr s) = Some (JStr s)"
| "marshal (VNumber s) = Some (JNum s)"
| "marshal VNilRef = Some JNull"
| "marshal (VSlice vs) = map_option JArr (marshal_list vs)"
| "marshal (VMap es) = map_option JObj (marshal_entries es)"
| "marshal (VStruct n fs) = map_option JObj (marshal_fields fs)"
| "marshal (VPtr None) = Some JNull"
| "marshal (VPtr (Some v)) = marshal v"
| "marshal (VCodec j) = Some j"
| "marshal VOpaque = None"
| "marshal_list [] = Some []"
| "marshal_list (v # vs) =
     (case marshal v of None \<Rightarrow> None
      | Some j \<Rightarrow> map_option ((#) j) (marshal_list vs))"
| "marshal_entries [] = Some []"
| "marshal_entries ((k, v) # es) =
     (case marshal v of None \<Rightarrow> None
      | Some j \<Rightarrow> map_option ((#) (k, j)) (marshal_entries es))"
| "marshal_fields [] = Some []"
| "marshal_fields ((f, v) # fs) =
     (if \<not> fexported f \<or> ftag f = ''-'' then marshal_fields fs
      else case marshal v of None \<Rightarrow> None
      | Some j \<Rightarrow> map_option ((#) (json_name f, j)) (marshal_fields fs))"

text \<open>The decoder with \<open>UseNumber\<close>, into \<open>any\<close>.\<close>

fun decode_any :: "json \<Rightarrow> goval"
  and decode_list :: "json list \<Rightarrow> goval list"
  and decode_entries :: "(string \<times> json) list \<Rightarrow> (string \<times> goval) list" where
  "decode_any JNull = VNil"
| "decode_any (JBool b) = VBool b"
| "decode_any (JNum s) = VNumber s"
| "decode_any (JStr s) = VStr s"
| "decode_any (JArr js) = VSlice (decode_list js)"
| "decode_any (JObj es) = VMap (entries_of (decode_entries es))"
| "decode_list [] = []"
| "decode_list (j # js) = decode_any j # decode_list js"
| "decode_entries [] = []"
| "decode_entries ((k, j) # es) = (k, decode_any j) # decode_entries es"

lemma decode_list_map: "decode_list js = map decode_any js"
  by (induction js) auto

lemma decode_entries_map: "decode_entries es = map (\<lambda>(k, j). (k, decode_any j)) es"
  by (induction es) auto

text \<open>\<open>datastore/clone.go\<close>: a copy through JSON, \<open>None\<close> for an error.\<close>

definition json_clone :: "goval \<Rightarrow> goval option" where
  "json_clone v =
     (case marshal v of
        None \<Rightarrow> None
      | Some b \<Rightarrow> Some (decode_any b))"

text \<open>
  \<open>datastore/transform.go\<close>: \<open>As[T]\<close> decodes into the type \<open>T\<close>; what the decoder does at that
  type is the argument \<open>decode_to\<close>.
\<close>

definition As :: "(json \<Rightarrow> 't option) \<Rightarrow> goval \<Rightarrow> 't option" where
  "As decode_to src =
     (case marshal src of
        None \<Rightarrow> None
      | Some payload \<Rightarrow> decode_to payload)"

text \<open>
  The values a decoder into \<open>any\<close> produces: no struct, no pointer, no integer of a fixed type.
  They are the fixed points of the copy.
\<close>

fun plain :: "goval \<Rightarrow> bool"
  and plain_list :: "goval list \<Rightarrow> bool"
  and plain_entries :: "(string \<times> goval) list \<Rightarrow> bool" where
  "plain VNil = True"
| "plain (VBool b) = True"
| "plain (VInt i) = False"
| "plain (VStr s) = True"
| "plain (VNumber s) = True"
| "plain VNilRef = False"
| "plain (VSlice vs) = plain_list vs"
| "plain (VMap es) = (key_sorted es \<and> plain_entries es)"
| "plain (VStruct n fs) = False"
| "plain (VPtr p) = False"
| "plain (VCodec j) = False"
| "plain VOpaque = False"
| "plain_list [] = True"
| "plain_list (v # vs) = (plain v \<and> plain_list vs)"
| "plain_entries [] = True"
| "plain_entries ((k, v) # es) = (plain v \<and> plain_entries es)"

lemma plain_entries_iff: "plain_entries es \<longleftrightarrow> (\<forall>e \<in> set es. plain (snd e))"
  by (induction es) auto

lemma plain_decode:
  "plain (decode_any j)" "plain_list (decode_list js)" "plain_entries (decode_entries es)"
proof (induction j and js and es rule: decode_any_decode_list_decode_entries.induct)
  case (6 es)
  then show ?case
    using set_entries_of [of "decode_entries es"]
    by (auto simp: key_sorted_entries_of plain_entries_iff)
qed auto

lemma marshal_plain:
  "plain v \<Longrightarrow> \<exists>j. marshal v = Some j \<and> decode_any j = v"
  "plain_list vs \<Longrightarrow> \<exists>js. marshal_list vs = Some js \<and> decode_list js = vs"
  "plain_entries es \<Longrightarrow> \<exists>js. marshal_entries es = Some js \<and> decode_entries js = es"
proof (induction v and vs and es rule: plain_plain_list_plain_entries.induct)
  case (8 es)
  then obtain js where "marshal_entries es = Some js" "decode_entries js = es" by auto
  with 8 show ?case by (simp add: entries_of_sorted)
qed auto

lemma json_clone_plain: "plain v \<Longrightarrow> json_clone v = Some v"
  using marshal_plain(1) [of v] by (auto simp: json_clone_def)

lemma json_clone_is_plain: "json_clone v = Some w \<Longrightarrow> plain w"
  by (auto simp: json_clone_def plain_decode split: option.splits)

lemma json_clone_idem: "json_clone v = Some w \<Longrightarrow> json_clone w = Some w"
  by (rule json_clone_plain) (rule json_clone_is_plain)

end
