(* ===== verification/Datastore_Base.thy ===== *)
theory Datastore_Base
  imports Store_Spec Go_Json
begin

text \<open>
  What the parts of the datastore package share: the error values, \<open>deleteFromSlice\<close>
  (\<open>datastore/utils.go\<close>), label sets (\<open>datastore/label\_set.go\<close>), and the interface of
  the semantic-version library (github.com/Masterminds/semver), which is not part of the
  repository and therefore an argument of every definition that uses it. \<open>semver_ok\<close> states
  the documented behaviour the proofs rely on.
\<close>

section \<open>Error values of the package\<close>

text \<open>
  A sentinel wrapped with \<open>%w\<close> keeps its identity under \<open>errors.Is\<close> and is the same
  constructor here. The last two constructors are panics: a method call on a nil version, and
  \<open>semver.MustParse\<close> on a string that is no version.
\<close>

datatype ds_error =
    ErrAddressRefNotFound
  | ErrAddressRefExists
  | ErrAddressRefVersionRequired
  | ErrChainMetadataNotFound
  | ErrChainMetadataExists
  | ErrContractMetadataNotFound
  | ErrContractMetadataExists
  | ErrEnvMetadataNotSet
  | ErrClone
  | ErrInvalidKey string
  | ErrAddressRefQueryEmpty
  | ErrAddressRefQueryNoMatch
  | ErrAddressRefQueryAmbiguous nat
  | ErrAddressRefFormatFailed
  | ErrOther string
  | PanicNilVersion
  | PanicMustParse

section \<open>The semantic-version library\<close>

text \<open>
  \<open>Equal\<close> is called on pointers, nil included; \<open>String\<close> has a value receiver, so calling it
  through a nil pointer panics and the callers guard it; \<open>NewVersion\<close> may fail.
\<close>

record 'v semver =
  sv_Equal :: "'v option \<Rightarrow> 'v option \<Rightarrow> bool"
  sv_Compare :: "'v \<Rightarrow> 'v \<Rightarrow> int"
  sv_String :: "'v \<Rightarrow> string"
  sv_NewVersion :: "string \<Rightarrow> 'v option"

text \<open>A three-way comparison: signs are opposite and \<open>\<le> 0\<close> is transitive.\<close>

definition is_cmp :: "('a \<Rightarrow> 'a \<Rightarrow> int) \<Rightarrow> bool" where
  "is_cmp c \<longleftrightarrow> (\<forall>a b. c a b < 0 \<longleftrightarrow> 0 < c b a) \<and> (\<forall>a b d. c a b \<le> 0 \<longrightarrow> c b d \<le> 0 \<longrightarrow> c a d \<le> 0)"

definition semver_ok :: "'v semver \<Rightarrow> bool" where
  "semver_ok sv \<longleftrightarrow>
     equivp (sv_Equal sv) \<and>
     (\<forall>v. \<not> sv_Equal sv None (Some v)) \<and>
     is_cmp (sv_Compare sv) \<and>
     (\<forall>v w. sv_Equal sv (Some v) (Some w) \<longleftrightarrow> sv_Compare sv v w = 0) \<and>
     (\<forall>v. \<exists>w. sv_NewVersion sv (sv_String sv v) = Some w \<and> sv_Equal sv (Some v) (Some w) \<and>
        sv_String sv w = sv_String sv v) \<and>
     (\<forall>v. sv_String sv v \<noteq> [] \<and> set (sv_String sv v) \<inter> {CHR ''_'', CHR '':'', CHR '' ''} = {})"

text \<open>Versions with one number, an instance of the interface for closed examples.\<close>

definition nat_semver :: "nat semver" where
  "nat_semver =
     \<lparr>sv_Equal = (=), sv_Compare = (\<lambda>a b. int a - int b), sv_String = dec_string,
      sv_NewVersion = (\<lambda>s. if s \<noteq> [] \<and> list_all is_digit s then Some (parse_dec s) else None)\<rparr>"

lemma nat_semver_ok: "semver_ok nat_semver"
proof -
  have "equivp ((=) :: nat option \<Rightarrow> nat option \<Rightarrow> bool)" by (rule identity_equivp)
  moreover have "set (dec_string n) \<inter> {CHR ''_'', CHR '':'', CHR '' ''} = {}" for n
    by (auto dest!: dec_string_chars simp: is_digit_def)
  ultimately show ?thesis
    by (auto simp: semver_ok_def nat_semver_def is_cmp_def dec_string_digits)
qed

lemma semver_okD:
  assumes "semver_ok sv"
  shows "equivp (sv_Equal sv)" and "is_cmp (sv_Compare sv)"
    and "\<not> sv_Equal sv None (Some v)" and "\<not> sv_Equal sv (Some v) None"
    and "sv_Equal sv None None"
    and "sv_Equal sv (Some v) (Some w) \<longleftrightarrow> sv_Compare sv v w = 0"
    and "CHR ''_'' \<notin> set (sv_String sv v)" and "CHR '':'' \<notin> set (sv_String sv v)"
    and "CHR '' '' \<notin> set (sv_String sv v)" and "sv_String sv v \<noteq> []"
proof -
  show eq: "equivp (sv_Equal sv)" and "is_cmp (sv_Compare sv)"
    and none: "\<not> sv_Equal sv None (Some v)"
    and "sv_Equal sv (Some v) (Some w) \<longleftrightarrow> sv_Compare sv v w = 0"
    and "sv_String sv v \<noteq> []"
    using assms unfolding semver_ok_def by simp_all
  show "\<not> sv_Equal sv (Some v) None" using none equivp_symp [OF eq] by blast
  show "sv_Equal sv None None" using equivp_reflp [OF eq] by simp
  have "set (sv_String sv v) \<inter> {CHR ''_'', CHR '':'', CHR '' ''} = {}"
    using assms unfolding semver_ok_def by (elim conjE) simp
  then show "CHR ''_'' \<notin> set (sv_String sv v)" "CHR '':'' \<notin> set (sv_String sv v)"
    "CHR '' '' \<notin> set (sv_String sv v)" by blast+
qed

lemma semver_reparse:
  assumes "semver_ok sv"
  obtains w where "sv_NewVersion sv (sv_String sv v) = Some w" "sv_Equal sv (Some v) (Some w)"
    "sv_String sv w = sv_String sv v"
proof -
  have "\<exists>w. sv_NewVersion sv (sv_String sv v) = Some w \<and> sv_Equal sv (Some v) (Some w) \<and>
      sv_String sv w = sv_String sv v"
    using assms unfolding semver_ok_def by (elim conjE) simp
  then show ?thesis using that by blast
qed

lemma semver_string_eq:
  assumes "semver_ok sv" "sv_String sv v = sv_String sv w"
  shows "sv_Equal sv (Some v) (Some w)"
proof -
  obtain x where "sv_NewVersion sv (sv_String sv v) = Some x" "sv_Equal sv (Some v) (Some x)"
    using semver_reparse [OF assms(1)] by metis
  moreover obtain y where "sv_NewVersion sv (sv_String sv w) = Some y" "sv_Equal sv (Some w) (Some y)"
    using semver_reparse [OF assms(1)] by metis
  ultimately show ?thesis
    using assms semver_okD(1) [OF assms(1)] by (metis equivp_symp equivp_transp option.inject)
qed

section \<open>Comparisons\<close>

definition cmp_by :: "('a \<Rightarrow> 'b::linorder) \<Rightarrow> 'a \<Rightarrow> 'a \<Rightarrow> int" where
  "cmp_by f a b = (if f a < f b then -1 else if f a = f b then 0 else 1)"

definition then_cmp :: "('a \<Rightarrow> 'a \<Rightarrow> int) \<Rightarrow> ('a \<Rightarrow> 'a \<Rightarrow> int) \<Rightarrow> 'a \<Rightarrow> 'a \<Rightarrow> int" where
  "then_cmp c d a b = (if c a b \<noteq> 0 then c a b else d a b)"

lemma is_cmp_zero_sym: "is_cmp c \<Longrightarrow> c a b = 0 \<longleftrightarrow> c b a = 0"
  by (metis is_cmp_def less_irrefl linorder_neqE)

lemma is_cmp_cmp_by: "is_cmp (cmp_by f)"
  by (auto simp: is_cmp_def cmp_by_def)

lemma is_cmp_trans:
  assumes "is_cmp c" "c a b \<le> 0" "c b d \<le> 0"
  shows "c a d \<le> 0" and "c a d = 0 \<Longrightarrow> c a b = 0 \<and> c b d = 0"
proof -
  show "c a d \<le> 0" using assms unfolding is_cmp_def by blast
  assume zero: "c a d = 0"
  then have "c d a \<le> 0" using is_cmp_zero_sym [OF assms(1)] by (metis order_refl)
  then have "c b a \<le> 0" "c d b \<le> 0" using assms unfolding is_cmp_def by blast+
  then show "c a b = 0 \<and> c b d = 0"
    using assms unfolding is_cmp_def by (metis linorder_not_le order_antisym_conv)
qed

lemma is_cmp_then:
  assumes c: "is_cmp c" and d: "is_cmp d"
  shows "is_cmp (then_cmp c d)"
proof -
  have sign: "then_cmp c d a b < 0 \<longleftrightarrow> 0 < then_cmp c d b a" for a b
    using c d is_cmp_zero_sym [OF c, of a b] by (auto simp: then_cmp_def is_cmp_def)
  have trans: "then_cmp c d x z \<le> 0" if "then_cmp c d x y \<le> 0" "then_cmp c d y z \<le> 0" for x y z
  proof -
    have le: "c x y \<le> 0" "c y z \<le> 0" using that by (auto simp: then_cmp_def split: if_splits)
    note cz = is_cmp_trans [OF c le]
    show ?thesis
    proof (cases "c x z = 0")
      case True
      then have "d x y \<le> 0" "d y z \<le> 0" using that cz by (auto simp: then_cmp_def split: if_splits)
      then show ?thesis using True d by (auto simp: then_cmp_def is_cmp_def)
    next
      case False
      then show ?thesis using cz(1) by (simp add: then_cmp_def)
    qed
  qed
  show ?thesis unfolding is_cmp_def using sign trans by blast
qed

section \<open>datastore/utils.go\<close>

definition deleteFromSlice :: "'a list \<Rightarrow> 'a \<Rightarrow> 'a list" where
  "deleteFromSlice xs item =
     (case index_where (\<lambda>x. x = item) xs of
        Some idx \<Rightarrow> delete_at idx xs
      | None \<Rightarrow> xs)"

lemma deleteFromSlice_remove1: "deleteFromSlice xs x = remove1 x xs"
proof (induction xs)
  case Nil
  then show ?case by (simp add: deleteFromSlice_def)
next
  case (Cons y ys)
  then show ?case
    by (cases "index_where (\<lambda>z. z = x) ys")
      (simp_all add: deleteFromSlice_def delete_at_def)
qed

section \<open>datastore/label\_set.go\<close>

text \<open>
  The field \<open>elements\<close> is a map with empty values, that is a finite set of strings; no method
  tells a nil map from an empty one.
\<close>

type_synonym label_set = "string set"

definition NewLabelSet :: "string list \<Rightarrow> label_set" where
  "NewLabelSet labels = fold insert labels {}"

definition LabelSet_Add :: "string \<Rightarrow> label_set \<Rightarrow> label_set" where
  "LabelSet_Add label s = insert label s"

definition LabelSet_Remove :: "string \<Rightarrow> label_set \<Rightarrow> label_set" where
  "LabelSet_Remove label s = s - {label}"

definition LabelSet_Contains :: "label_set \<Rightarrow> string \<Rightarrow> bool" where
  "LabelSet_Contains s label \<longleftrightarrow> label \<in> s"

definition LabelSet_List :: "label_set \<Rightarrow> string list" where
  "LabelSet_List s = (if s = {} then [] else sorted_list_of_set s)"

definition LabelSet_String :: "label_set \<Rightarrow> string" where
  "LabelSet_String s =
     (let labels = LabelSet_List s in if labels = [] then [] else join_with '' '' labels)"

definition LabelSet_Equal :: "label_set \<Rightarrow> label_set \<Rightarrow> bool" where
  "LabelSet_Equal s other \<longleftrightarrow> s = other"

definition LabelSet_Length :: "label_set \<Rightarrow> nat" where
  "LabelSet_Length s = card s"

definition LabelSet_IsEmpty :: "label_set \<Rightarrow> bool" where
  "LabelSet_IsEmpty s \<longleftrightarrow> LabelSet_Length s = 0"

definition LabelSet_Clone :: "label_set \<Rightarrow> label_set" where
  "LabelSet_Clone s = s"

definition LabelSet_MarshalJSON :: "label_set \<Rightarrow> json" where
  "LabelSet_MarshalJSON s = JArr (map JStr (LabelSet_List s))"

text \<open>Decoding into a \<open>[]string\<close>: \<open>null\<close> is the nil slice, and a \<open>null\<close> element the empty string.\<close>

fun decode_strings :: "json list \<Rightarrow> string list option" where
  "decode_strings [] = Some []"
| "decode_strings (JStr s # js) = map_option ((#) s) (decode_strings js)"
| "decode_strings (JNull # js) = map_option ((#) []) (decode_strings js)"
| "decode_strings (_ # js) = None"

definition LabelSet_UnmarshalJSON :: "json \<Rightarrow> label_set option" where
  "LabelSet_UnmarshalJSON data =
     (case data of
        JArr js \<Rightarrow> map_option NewLabelSet (decode_strings js)
      | JNull \<Rightarrow> Some (NewLabelSet [])
      | _ \<Rightarrow> None)"

lemma NewLabelSet_set [simp]: "NewLabelSet labels = set labels"
  using union_set_fold [of labels "{}"] by (simp add: NewLabelSet_def)

lemma set_LabelSet_List [simp]: "finite s \<Longrightarrow> set (LabelSet_List s) = s"
  by (simp add: LabelSet_List_def)

lemma LabelSet_List_sorted: "sorted_wrt (<) (LabelSet_List s)"
  by (cases "finite s") (auto simp: LabelSet_List_def strict_sorted_iff)

lemma decode_strings_JStr [simp]: "decode_strings (map JStr ss) = Some ss"
  by (induction ss) auto

lemma LabelSet_json_roundtrip:
  "finite s \<Longrightarrow> LabelSet_UnmarshalJSON (LabelSet_MarshalJSON s) = Some s"
  by (simp add: LabelSet_UnmarshalJSON_def LabelSet_MarshalJSON_def)

text \<open>The printed form separates sets of labels without spaces.\<close>

lemma LabelSet_String_split:
  assumes "finite s" "s \<noteq> {}" "\<forall>l \<in> s. CHR '' '' \<notin> set l"
  shows "split_on (CHR '' '') (LabelSet_String s) = LabelSet_List s"
proof -
  have "LabelSet_List s \<noteq> []" using assms by (auto simp: LabelSet_List_def)
  then show ?thesis
    using assms split_on_join [of "LabelSet_List s" "CHR '' ''"]
    by (simp add: LabelSet_String_def Let_def)
qed

end
