(* ===== verification/Address_Ref.thy ===== *)
theory Address_Ref
  imports Datastore_Base
begin

text \<open>
  Address references: the record and its key (\<open>datastore/address\_ref.go\<close>,
  \<open>datastore/address\_ref\_key.go\<close>), the in-memory store
  (\<open>datastore/memory\_address\_ref\_store.go\<close>) with its refinement of the contract of
  Store\_Spec, the filters (\<open>datastore/filters.go\<close>), the query for a unique reference
  (\<open>datastore/query.go\<close>) and the deterministic order of references
  (\<open>datastore/sort\_address\_refs.go\<close>). The mutex of the store makes every method one atomic
  step and is not modelled.
\<close>

section \<open>Keys and records\<close>

record 'v address_ref_key =
  ak_chainSelector :: u64
  ak_contractType :: string
  ak_version :: "'v option"
  ak_qualifier :: string

record 'v address_ref =
  ar_Address :: string
  ar_ChainSelector :: u64
  ar_Labels :: label_set
  ar_Qualifier :: string
  ar_Type :: string
  ar_Version :: "'v option"

definition NewAddressRefKey ::
  "u64 \<Rightarrow> string \<Rightarrow> 'v option \<Rightarrow> string \<Rightarrow> 'v address_ref_key" where
  "NewAddressRefKey chainSelector contractType version qualifier =
     \<lparr>ak_chainSelector = chainSelector, ak_contractType = contractType,
      ak_version = version, ak_qualifier = qualifier\<rparr>"

definition addressRefKey_Equals ::
  "'v semver \<Rightarrow> 'v address_ref_key \<Rightarrow> 'v address_ref_key \<Rightarrow> bool" where
  "addressRefKey_Equals sv a other \<longleftrightarrow>
     ak_chainSelector a = ak_chainSelector other \<and>
     ak_contractType a = ak_contractType other \<and>
     sv_Equal sv (ak_version a) (ak_version other) \<and>
     ak_qualifier a = ak_qualifier other"

text \<open>\<open>None\<close> is the panic of \<open>String\<close> on a nil version.\<close>

definition addressRefKey_String :: "'v semver \<Rightarrow> 'v address_ref_key \<Rightarrow> string option" where
  "addressRefKey_String sv a =
     (case ak_version a of
        None \<Rightarrow> None
      | Some v \<Rightarrow> Some (format_uint (ak_chainSelector a) @ ''_'' @ ak_contractType a @ ''_'' @
          sv_String sv v @ ''_'' @ ak_qualifier a))"

definition NewAddressRefKeyFromString :: "'v semver \<Rightarrow> string \<Rightarrow> ds_error + 'v address_ref_key" where
  "NewAddressRefKeyFromString sv key =
     (let parts = split_on (CHR ''_'') key in
      if length parts \<noteq> 4 then Inl (ErrInvalidKey key)
      else case parse_uint64 (parts ! 0) of
        None \<Rightarrow> Inl (ErrOther ''failed to parse chain selector'')
      | Some chainSelector \<Rightarrow>
          (case sv_NewVersion sv (parts ! 2) of
             None \<Rightarrow> Inl PanicMustParse
           | Some v \<Rightarrow> Inr (NewAddressRefKey chainSelector (parts ! 1) (Some v) (parts ! 3))))"

definition AddressRef_Key :: "'v address_ref \<Rightarrow> 'v address_ref_key" where
  "AddressRef_Key r = NewAddressRefKey (ar_ChainSelector r) (ar_Type r) (ar_Version r) (ar_Qualifier r)"

definition AddressRef_Clone :: "'v address_ref \<Rightarrow> 'v address_ref" where
  "AddressRef_Clone r =
     (let version = (case ar_Version r of None \<Rightarrow> None | Some v \<Rightarrow> Some v) in
      \<lparr>ar_Address = ar_Address r, ar_ChainSelector = ar_ChainSelector r,
       ar_Labels = LabelSet_Clone (ar_Labels r), ar_Qualifier = ar_Qualifier r,
       ar_Type = ar_Type r, ar_Version = version\<rparr>)"

lemma AddressRef_Clone_id [simp]: "AddressRef_Clone r = r"
  by (cases "ar_Version r") (simp_all add: AddressRef_Clone_def LabelSet_Clone_def)

lemma addressRefKey_equivp: "semver_ok sv \<Longrightarrow> equivp (addressRefKey_Equals sv)"
proof -
  assume "semver_ok sv"
  note v = semver_okD(1) [OF this]
  show ?thesis
  proof (intro equivpI reflpI sympI transpI)
    show "addressRefKey_Equals sv a a" for a
      using equivp_reflp [OF v] by (simp add: addressRefKey_Equals_def)
    show "addressRefKey_Equals sv b a" if "addressRefKey_Equals sv a b" for a b
      using that equivp_symp [OF v] by (simp add: addressRefKey_Equals_def)
    show "addressRefKey_Equals sv a c" if "addressRefKey_Equals sv a b" "addressRefKey_Equals sv b c" for a b c
      using that equivp_transp [OF v] by (auto simp: addressRefKey_Equals_def)
  qed
qed

lemma addressRefKey_String_Some:
  "addressRefKey_String sv k = Some s \<longleftrightarrow> (\<exists>v. ak_version k = Some v \<and>
     s = format_uint (ak_chainSelector k) @ ''_'' @ ak_contractType k @ ''_'' @
       sv_String sv v @ ''_'' @ ak_qualifier k)"
  by (auto simp: addressRefKey_String_def split: option.splits)

text \<open>How many parts the printed key splits into.\<close>

lemma addressRefKey_String_parts:
  assumes "semver_ok sv" "addressRefKey_String sv k = Some s"
  shows "length (split_on (CHR ''_'') s) =
    4 + count_list (ak_contractType k) (CHR ''_'') + count_list (ak_qualifier k) (CHR ''_'')"
  using assms semver_okD(7) [OF assms(1)]
  by (auto simp: addressRefKey_String_Some length_split_on count_notin)

lemma addressRefKey_String_split:
  assumes "semver_ok sv" "ak_version k = Some v"
    and "CHR ''_'' \<notin> set (ak_contractType k)" "CHR ''_'' \<notin> set (ak_qualifier k)"
  shows "split_on (CHR ''_'') (the (addressRefKey_String sv k)) =
    [format_uint (ak_chainSelector k), ak_contractType k, sv_String sv v, ak_qualifier k]"
  using assms semver_okD(7) [OF assms(1)]
  by (simp add: addressRefKey_String_def split_on_append)

text \<open>Keys without the separator are read back, up to equality of versions.\<close>

lemma key_from_string:
  assumes "semver_ok sv" "addressRefKey_String sv k = Some s"
    and "CHR ''_'' \<notin> set (ak_contractType k)" "CHR ''_'' \<notin> set (ak_qualifier k)"
  shows "\<exists>k'. NewAddressRefKeyFromString sv s = Inr k' \<and> addressRefKey_Equals sv k k' \<and>
    addressRefKey_String sv k' = Some s"
proof -
  obtain v where v: "ak_version k = Some v" using assms(2) by (auto simp: addressRefKey_String_Some)
  obtain w where "sv_NewVersion sv (sv_String sv v) = Some w" "sv_Equal sv (Some v) (Some w)"
    "sv_String sv w = sv_String sv v" using semver_reparse [OF assms(1)] .
  moreover have "split_on (CHR ''_'') s =
      [format_uint (ak_chainSelector k), ak_contractType k, sv_String sv v, ak_qualifier k]"
    using addressRefKey_String_split [OF assms(1) v assms(3,4)] assms(2) by simp
  ultimately show ?thesis
    using v assms(2)
    by (simp add: NewAddressRefKeyFromString_def NewAddressRefKey_def addressRefKey_Equals_def
        addressRefKey_String_Some)
qed

lemma key_from_string_invalid:
  assumes "semver_ok sv" "addressRefKey_String sv k = Some s"
    and "CHR ''_'' \<in> set (ak_contractType k) \<or> CHR ''_'' \<in> set (ak_qualifier k)"
  shows "NewAddressRefKeyFromString sv s = Inl (ErrInvalidKey s)"
proof -
  have "count_list (ak_contractType k) (CHR ''_'') + count_list (ak_qualifier k) (CHR ''_'') \<noteq> 0"
    using assms(3) by (auto simp: count_list_0_iff)
  then show ?thesis
    using addressRefKey_String_parts [OF assms(1,2)]
    by (simp add: NewAddressRefKeyFromString_def Let_def)
qed

section \<open>The in-memory store\<close>

record 'v address_store =
  as_Records :: "'v address_ref list"
  as_DeletedRemoteKeys :: "string list"

definition NewMemoryAddressRefStore :: "'v address_store" where
  "NewMemoryAddressRefStore = \<lparr>as_Records = [], as_DeletedRemoteKeys = []\<rparr>"

definition AddressRefStore_indexOf :: "'v semver \<Rightarrow> 'v address_ref_key \<Rightarrow> 'v address_store \<Rightarrow> nat option" where
  "AddressRefStore_indexOf sv key s =
     index_where (\<lambda>record. addressRefKey_Equals sv (AddressRef_Key record) key) (as_Records s)"

definition AddressRefStore_Get ::
  "'v semver \<Rightarrow> 'v address_ref_key \<Rightarrow> 'v address_store \<Rightarrow> ds_error + 'v address_ref" where
  "AddressRefStore_Get sv key s =
     (case AddressRefStore_indexOf sv key s of
        None \<Rightarrow> Inl ErrAddressRefNotFound
      | Some idx \<Rightarrow> Inr (AddressRef_Clone (as_Records s ! idx)))"

definition AddressRefStore_Fetch :: "'v address_store \<Rightarrow> 'v address_ref list" where
  "AddressRefStore_Fetch s = map AddressRef_Clone (as_Records s)"

definition AddressRefStore_Filter ::
  "('v address_ref list \<Rightarrow> 'v address_ref list) list \<Rightarrow> 'v address_store \<Rightarrow> 'v address_ref list" where
  "AddressRefStore_Filter filters s = fold (\<lambda>f records. f records) filters (as_Records s)"

definition AddressRefStore_Add ::
  "'v semver \<Rightarrow> 'v address_ref \<Rightarrow> 'v address_store \<Rightarrow> (ds_error, 'v address_store) eff" where
  "AddressRefStore_Add sv record s =
     (if AddressRefStore_indexOf sv (AddressRef_Key record) s \<noteq> None then fail ErrAddressRefExists s
      else if ar_Version record = None then fail ErrAddressRefVersionRequired s
      else case addressRefKey_String sv (AddressRef_Key record) of
        None \<Rightarrow> fail PanicNilVersion s
      | Some dk \<Rightarrow>
          ret (s\<lparr>as_DeletedRemoteKeys := deleteFromSlice (as_DeletedRemoteKeys s) dk,
                as_Records := as_Records s @ [record]\<rparr>))"

definition AddressRefStore_Upsert ::
  "'v semver \<Rightarrow> 'v address_ref \<Rightarrow> 'v address_store \<Rightarrow> (ds_error, 'v address_store) eff" where
  "AddressRefStore_Upsert sv record s =
     (if ar_Version record = None then fail ErrAddressRefVersionRequired s
      else case addressRefKey_String sv (AddressRef_Key record) of
        None \<Rightarrow> fail PanicNilVersion s
      | Some dk \<Rightarrow>
          (let s = s\<lparr>as_DeletedRemoteKeys := deleteFromSlice (as_DeletedRemoteKeys s) dk\<rparr> in
           case AddressRefStore_indexOf sv (AddressRef_Key record) s of
             Some idx \<Rightarrow> ret (s\<lparr>as_Records := (as_Records s)[idx := record]\<rparr>)
           | None \<Rightarrow> ret (s\<lparr>as_Records := as_Records s @ [record]\<rparr>)))"

definition AddressRefStore_Update ::
  "'v semver \<Rightarrow> 'v address_ref \<Rightarrow> 'v address_store \<Rightarrow> (ds_error, 'v address_store) eff" where
  "AddressRefStore_Update sv record s =
     (case AddressRefStore_indexOf sv (AddressRef_Key record) s of
        None \<Rightarrow> fail ErrAddressRefNotFound s
      | Some idx \<Rightarrow>
          if ar_Version record = None then fail ErrAddressRefVersionRequired s
          else case addressRefKey_String sv (AddressRef_Key record) of
            None \<Rightarrow> fail PanicNilVersion s
          | Some dk \<Rightarrow>
              ret (s\<lparr>as_DeletedRemoteKeys := deleteFromSlice (as_DeletedRemoteKeys s) dk,
                    as_Records := (as_Records s)[idx := record]\<rparr>))"

definition AddressRefStore_Delete ::
  "'v semver \<Rightarrow> 'v address_ref_key \<Rightarrow> 'v address_store \<Rightarrow> (ds_error, 'v address_store) eff" where
  "AddressRefStore_Delete sv key s =
     (case AddressRefStore_indexOf sv key s of
        None \<Rightarrow> fail ErrAddressRefNotFound s
      | Some idx \<Rightarrow> ret (s\<lparr>as_Records := delete_at idx (as_Records s)\<rparr>))"

definition AddressRefStore_RemoteDelete ::
  "'v semver \<Rightarrow> 'v address_ref_key \<Rightarrow> 'v address_store \<Rightarrow> (ds_error, 'v address_store) eff" where
  "AddressRefStore_RemoteDelete sv key s =
     (case addressRefKey_String sv key of
        None \<Rightarrow> fail PanicNilVersion s
      | Some deletedKey \<Rightarrow>
          if deletedKey \<notin> set (as_DeletedRemoteKeys s)
          then ret (s\<lparr>as_DeletedRemoteKeys := as_DeletedRemoteKeys s @ [deletedKey]\<rparr>)
          else ret s)"

text \<open>The state invariant, and the map the store stands for.\<close>

definition address_inv :: "'v semver \<Rightarrow> 'v address_store \<Rightarrow> bool" where
  "address_inv sv s \<longleftrightarrow>
     unique_keys (addressRefKey_Equals sv) AddressRef_Key (as_Records s) \<and>
     (\<forall>r \<in> set (as_Records s). ar_Version r \<noteq> None) \<and>
     distinct (as_DeletedRemoteKeys s)"

definition address_lookup ::
  "'v semver \<Rightarrow> 'v address_store \<Rightarrow> 'v address_ref_key \<Rightarrow> 'v address_ref option" where
  "address_lookup sv s = find_rec (addressRefKey_Equals sv) AddressRef_Key (as_Records s)"

lemma address_indexOf_None:
  "AddressRefStore_indexOf sv key s = None \<longleftrightarrow> address_lookup sv s key = None"
  by (simp add: AddressRefStore_indexOf_def address_lookup_def find_rec_index)

lemma address_inv_new [simp]: "address_inv sv NewMemoryAddressRefStore"
  by (simp add: address_inv_def NewMemoryAddressRefStore_def)

lemma AddressRefStore_Get_lookup:
  "AddressRefStore_Get sv key s =
     (case address_lookup sv s key of None \<Rightarrow> Inl ErrAddressRefNotFound | Some r \<Rightarrow> Inr r)"
  by (simp add: AddressRefStore_Get_def AddressRefStore_indexOf_def address_lookup_def find_rec_index
      split: option.split)

lemma AddressRefStore_Fetch_records [simp]: "AddressRefStore_Fetch s = as_Records s"
  by (simp add: AddressRefStore_Fetch_def map_idI)

lemma AddressRef_Key_version [simp]: "ak_version (AddressRef_Key r) = ar_Version r"
  by (simp add: AddressRef_Key_def NewAddressRefKey_def)

lemma address_key_str_ok: "ar_Version r \<noteq> None \<Longrightarrow> addressRefKey_String sv (AddressRef_Key r) \<noteq> None"
  by (auto simp: addressRefKey_String_def)

lemma address_upsert_law:
  assumes "semver_ok sv" "address_inv sv s" "ar_Version r \<noteq> None"
    and "addressRefKey_String sv (AddressRef_Key r) = Some dk"
  shows "\<exists>s'. AddressRefStore_Upsert sv r s = (None, s') \<and> address_inv sv s' \<and>
    as_DeletedRemoteKeys s' = remove1 dk (as_DeletedRemoteKeys s) \<and>
    address_lookup sv s' =
      (\<lambda>k. if addressRefKey_Equals sv (AddressRef_Key r) k then Some r else address_lookup sv s k)"
proof (cases "AddressRefStore_indexOf sv (AddressRef_Key r) s")
  case None
  then have idx: "index_where (\<lambda>x. addressRefKey_Equals sv (AddressRef_Key x) (AddressRef_Key r))
      (as_Records s) = None"
    by (simp add: AddressRefStore_indexOf_def)
  then have "\<forall>x \<in> set (as_Records s). \<not> addressRefKey_Equals sv (AddressRef_Key x) (AddressRef_Key r)"
    by (simp add: index_where_None)
  note append = store_append [OF addressRefKey_equivp [OF assms(1)] _ this]
  show ?thesis
    using assms idx append
    by (simp add: AddressRefStore_Upsert_def AddressRefStore_indexOf_def Let_def ret_def
        address_inv_def address_lookup_def deleteFromSlice_remove1 distinct_remove1 cong: if_cong)
next
  case (Some i)
  then have idx: "index_where (\<lambda>x. addressRefKey_Equals sv (AddressRef_Key x) (AddressRef_Key r))
      (as_Records s) = Some i"
    by (simp add: AddressRefStore_indexOf_def)
  note replace = store_replace [OF addressRefKey_equivp [OF assms(1)] _ idx]
  have "\<forall>x \<in> set ((as_Records s)[i := r]). ar_Version x \<noteq> None"
    using assms(2,3) set_update_subset_insert [of "as_Records s" i r] by (auto simp: address_inv_def)
  then show ?thesis
    using assms idx replace
    by (simp add: AddressRefStore_Upsert_def AddressRefStore_indexOf_def Let_def ret_def
        address_inv_def address_lookup_def deleteFromSlice_remove1 distinct_remove1 cong: if_cong)
qed

lemma address_add_new_law:
  assumes "address_lookup sv s (AddressRef_Key r) = None" "ar_Version r \<noteq> None"
  shows "AddressRefStore_Add sv r s = AddressRefStore_Upsert sv r s"
  using assms address_indexOf_None [of sv "AddressRef_Key r" s]
  by (auto simp: AddressRefStore_Add_def AddressRefStore_Upsert_def AddressRefStore_indexOf_def Let_def
      split: option.split)

lemma address_update_old_law:
  assumes "address_lookup sv s (AddressRef_Key r) \<noteq> None" "ar_Version r \<noteq> None"
  shows "AddressRefStore_Update sv r s = AddressRefStore_Upsert sv r s"
  using assms address_indexOf_None [of sv "AddressRef_Key r" s]
  by (auto simp: AddressRefStore_Update_def AddressRefStore_Upsert_def AddressRefStore_indexOf_def Let_def
      split: option.split)

lemma address_delete_law:
  assumes "semver_ok sv" "address_inv sv s" "address_lookup sv s k \<noteq> None"
  shows "\<exists>s'. AddressRefStore_Delete sv k s = (None, s') \<and> address_inv sv s' \<and>
    as_DeletedRemoteKeys s' = as_DeletedRemoteKeys s \<and>
    address_lookup sv s' =
      (\<lambda>j. if addressRefKey_Equals sv k j then None else address_lookup sv s j)"
proof -
  obtain i where i: "AddressRefStore_indexOf sv k s = Some i"
    using assms(3) address_indexOf_None [of sv k s] by auto
  then have idx: "index_where (\<lambda>x. addressRefKey_Equals sv (AddressRef_Key x) k) (as_Records s) = Some i"
    by (simp add: AddressRefStore_indexOf_def)
  note del = store_delete [OF addressRefKey_equivp [OF assms(1)] _ idx]
  have "\<forall>x \<in> set (delete_at i (as_Records s)). ar_Version x \<noteq> None"
    using assms(2) set_delete_at [of i "as_Records s"] by (auto simp: address_inv_def)
  then show ?thesis
    using assms(2) i del
    by (simp add: AddressRefStore_Delete_def ret_def address_inv_def address_lookup_def cong: if_cong)
qed

lemma address_lookup_cong:
  assumes "semver_ok sv" "addressRefKey_Equals sv k j"
  shows "address_lookup sv s k = address_lookup sv s j"
proof -
  have "addressRefKey_Equals sv x k = addressRefKey_Equals sv x j" for x
    using addressRefKey_equivp [OF assms(1)] assms(2) by (meson equivp_symp equivp_transp)
  then show ?thesis by (simp add: address_lookup_def find_rec_def)
qed

interpretation address_refs: keyed_store
  AddressRef_Key addressRefKey_Equals addressRefKey_String semver_ok "\<lambda>r. ar_Version r \<noteq> None"
  address_inv address_lookup as_DeletedRemoteKeys
  AddressRefStore_Add AddressRefStore_Upsert AddressRefStore_Update
  AddressRefStore_Delete AddressRefStore_RemoteDelete ErrAddressRefNotFound ErrAddressRefExists
proof (unfold_locales, goal_cases)
  case (1 env) then show ?case by (rule addressRefKey_equivp)
next
  case (2 r env) then show ?case by (rule address_key_str_ok)
next
  case 3 then show ?case by (simp add: address_inv_def)
next
  case (4 env s k j) then show ?case by (simp add: address_lookup_cong)
next
  case (5 env s r dk) then show ?case by (rule address_upsert_law)
next
  case (6 env s r) then show ?case by (simp add: address_add_new_law)
next
  case (7 env s r)
  then show ?case by (simp add: AddressRefStore_Add_def fail_def address_indexOf_None)
next
  case (8 env s r) then show ?case by (simp add: address_update_old_law)
next
  case (9 env s r)
  then show ?case
    using address_indexOf_None [of env "AddressRef_Key r" s]
    by (simp add: AddressRefStore_Update_def fail_def)
next
  case (10 env s k) then show ?case by (rule address_delete_law)
next
  case (11 env s k)
  then show ?case
    using address_indexOf_None [of env k s] by (simp add: AddressRefStore_Delete_def fail_def)
next
  case (12 env s k dk)
  then show ?case
    by (auto simp: AddressRefStore_RemoteDelete_def ret_def address_inv_def address_lookup_def stage_def)
qed

section \<open>Properties\<close>

text \<open>One operation of the store by its constructor, for sequences of operations.\<close>

fun address_op ::
  "'v semver \<Rightarrow> ('v address_ref, 'v address_ref_key) store_op \<Rightarrow> 'v address_store \<Rightarrow> (ds_error, 'v address_store) eff" where
  "address_op sv (OpAdd r) s = AddressRefStore_Add sv r s"
| "address_op sv (OpUpsert r) s = AddressRefStore_Upsert sv r s"
| "address_op sv (OpUpdate r) s = AddressRefStore_Update sv r s"
| "address_op sv (OpDelete k) s = AddressRefStore_Delete sv k s"
| "address_op sv (OpRemoteDelete k) s = AddressRefStore_RemoteDelete sv k s"

definition address_abs ::
  "'v semver \<Rightarrow> 'v address_store \<Rightarrow> ('v address_ref_key \<Rightarrow> 'v address_ref option) \<times> string set" where
  "address_abs sv s = (address_lookup sv s, set (as_DeletedRemoteKeys s))"

text \<open>
  The abstract store: a map from keys to references with the set of printed keys staged for deletion. An operation
  gives its outcome (no error, an error, or the panic of printing a key that has no version) and the next state.
\<close>

fun address_spec ::
  "'v semver \<Rightarrow> ('v address_ref, 'v address_ref_key) store_op \<Rightarrow>
   ('v address_ref_key \<Rightarrow> 'v address_ref option) \<times> string set \<Rightarrow>
   ds_error option \<times> ('v address_ref_key \<Rightarrow> 'v address_ref option) \<times> string set" where
  "address_spec sv (OpAdd r) (m, staged) =
     (if m (AddressRef_Key r) \<noteq> None then (Some ErrAddressRefExists, m, staged)
      else if ar_Version r = None then (Some ErrAddressRefVersionRequired, m, staged)
      else (None, (\<lambda>k. if addressRefKey_Equals sv (AddressRef_Key r) k then Some r else m k),
        staged - set_option (addressRefKey_String sv (AddressRef_Key r))))"
| "address_spec sv (OpUpsert r) (m, staged) =
     (if ar_Version r = None then (Some ErrAddressRefVersionRequired, m, staged)
      else (None, (\<lambda>k. if addressRefKey_Equals sv (AddressRef_Key r) k then Some r else m k),
        staged - set_option (addressRefKey_String sv (AddressRef_Key r))))"
| "address_spec sv (OpUpdate r) (m, staged) =
     (if m (AddressRef_Key r) = None then (Some ErrAddressRefNotFound, m, staged)
      else if ar_Version r = None then (Some ErrAddressRefVersionRequired, m, staged)
      else (None, (\<lambda>k. if addressRefKey_Equals sv (AddressRef_Key r) k then Some r else m k),
        staged - set_option (addressRefKey_String sv (AddressRef_Key r))))"
| "address_spec sv (OpDelete k) (m, staged) =
     (if m k = None then (Some ErrAddressRefNotFound, m, staged)
      else (None, (\<lambda>j. if addressRefKey_Equals sv k j then None else m j), staged))"
| "address_spec sv (OpRemoteDelete k) (m, staged) =
     (if ak_version k = None then (Some PanicNilVersion, m, staged)
      else (None, m, staged \<union> set_option (addressRefKey_String sv k)))"

text \<open>An operation on a record or a key that has a version runs by the shared contract; the others leave the store.\<close>

fun versioned :: "('v address_ref, 'v address_ref_key) store_op \<Rightarrow> bool" where
  "versioned (OpAdd r) = (ar_Version r \<noteq> None)"
| "versioned (OpUpsert r) = (ar_Version r \<noteq> None)"
| "versioned (OpUpdate r) = (ar_Version r \<noteq> None)"
| "versioned (OpDelete k) = True"
| "versioned (OpRemoteDelete k) = (ak_version k \<noteq> None)"

lemma address_op_store_step: "address_op sv x s = address_refs.store_step sv x s"
  by (cases x) simp_all

lemma key_str_None [simp]: "addressRefKey_String sv k = None \<longleftrightarrow> ak_version k = None"
  by (auto simp: addressRefKey_String_def split: option.splits)

lemma versioned_op_ok: "versioned x \<Longrightarrow> address_refs.op_ok sv x"
  by (cases x) (simp_all only: address_refs.op_ok.simps versioned.simps key_str_None not_False_eq_True)

lemma versioned_spec:
  assumes "versioned x"
  shows "address_spec sv x a = address_refs.spec_step sv x a"
proof -
  obtain m staged where a: "a = (m, staged)" by (cases a)
  have str: "set_option (addressRefKey_String sv k) = {the (addressRefKey_String sv k)}" if "ak_version k \<noteq> None" for k
    using that key_str_None [of sv k] by (cases "addressRefKey_String sv k") auto
  show ?thesis
    using assms unfolding a by (cases x) (auto simp: put_rec_def str)
qed

lemma unversioned_simulates:
  assumes "\<not> versioned x"
  shows "\<exists>e. address_op sv x s = (e, s) \<and> address_spec sv x (address_abs sv s) = (e, address_abs sv s)"
  using assms
proof (cases x)
  case (OpAdd r)
  with assms show ?thesis
    using address_indexOf_None [of sv "AddressRef_Key r" s]
    by (simp add: AddressRefStore_Add_def address_abs_def fail_def)
next
  case (OpUpdate r)
  with assms show ?thesis
    using address_indexOf_None [of sv "AddressRef_Key r" s]
    by (cases "AddressRefStore_indexOf sv (AddressRef_Key r) s")
      (simp_all add: AddressRefStore_Update_def address_abs_def fail_def)
qed (simp_all add: AddressRefStore_Upsert_def AddressRefStore_RemoteDelete_def address_abs_def fail_def
    addressRefKey_String_def)

lemma address_op_simulates:
  assumes "semver_ok sv" "address_inv sv s"
  shows "\<exists>e s'. address_op sv x s = (e, s') \<and> address_inv sv s' \<and>
    address_spec sv x (address_abs sv s) = (e, address_abs sv s')"
proof (cases "versioned x")
  case True
  from address_refs.step_simulates [OF assms versioned_op_ok [OF True]] show ?thesis
    by (simp only: address_op_store_step versioned_spec [OF True] address_abs_def address_refs.abs_store_def)
next
  case False
  from unversioned_simulates [OF this] assms(2) show ?thesis by metis
qed

text \<open>
  C6: Every sequence of Add, Upsert, Update, Delete and RemoteDelete on the in-memory address
  store, with and without versions, started from any well-formed store, has exactly the outcomes of the abstract
  store (a map from keys to references with the set of staged deletions): that the key exists, that it is missing,
  that a record lacks a version, in the precedence of each operation. It ends in a well-formed store that
  represents the abstract result. Staging a key without version panics in the code; the sequence counts this as the
  outcome of that operation, which leaves the store as it is.
\<close>

theorem address_store_refines_map:
  assumes "semver_ok sv" "address_inv sv s"
  shows "\<exists>errs s'. run_ops (address_op sv) ops s = (errs, s') \<and> address_inv sv s' \<and>
    run_ops (address_spec sv) ops (address_abs sv s) = (errs, address_abs sv s')"
  using assms(2)
proof (induction ops arbitrary: s)
  case Nil
  then show ?case by simp
next
  case (Cons x ops)
  obtain e s1 where x: "address_op sv x s = (e, s1)" "address_inv sv s1"
    "address_spec sv x (address_abs sv s) = (e, address_abs sv s1)"
    using address_op_simulates [OF assms(1) Cons.prems, of x] by (elim exE conjE)
  obtain errs s2 where "run_ops (address_op sv) ops s1 = (errs, s2)" "address_inv sv s2"
    "run_ops (address_spec sv) ops (address_abs sv s1) = (errs, address_abs sv s2)"
    using Cons.IH [OF x(2)] by (elim exE conjE)
  with x show ?case by simp
qed

definition example_ref :: "nat address_ref" where
  "example_ref = \<lparr>ar_Address = ''0x1'', ar_ChainSelector = 1, ar_Labels = {}, ar_Qualifier = ''q'',
     ar_Type = ''T'', ar_Version = Some 1\<rparr>"

theorem address_store_refines_map_witness:
  "\<exists>s'. run_ops (address_op nat_semver)
      [OpUpsert (example_ref\<lparr>ar_Version := None\<rparr>), OpAdd example_ref, OpAdd example_ref] NewMemoryAddressRefStore =
      ([Some ErrAddressRefVersionRequired, None, Some ErrAddressRefExists], s') \<and> address_inv nat_semver s'"
proof -
  have "addressRefKey_Equals nat_semver (AddressRef_Key example_ref) (AddressRef_Key example_ref)"
    using equivp_reflp [OF addressRefKey_equivp [OF nat_semver_ok]] by simp
  moreover have "fst (address_abs nat_semver NewMemoryAddressRefStore) = (\<lambda>k. None)"
    by (simp add: address_abs_def address_lookup_def NewMemoryAddressRefStore_def fun_eq_iff)
  moreover have "ar_Version example_ref = Some 1" by (simp add: example_ref_def)
  ultimately show ?thesis
    using address_store_refines_map [OF nat_semver_ok address_inv_new, of
        "[OpUpsert (example_ref\<lparr>ar_Version := None\<rparr>), OpAdd example_ref, OpAdd example_ref]"]
    by (cases "address_abs nat_semver (NewMemoryAddressRefStore :: nat address_store)") auto
qed

text \<open>
  The printed key of an address reference is read back as an equal key exactly when neither
  the contract type nor the qualifier has an underscore, the separator of the printed form;
  otherwise reading fails with the error for an invalid key.
\<close>

lemma addressRefKey_roundtrip:
  assumes "semver_ok sv" "ak_version k = Some v"
  shows "case NewAddressRefKeyFromString sv (the (addressRefKey_String sv k)) of
      Inr k' \<Rightarrow> addressRefKey_Equals sv k k' \<and>
        CHR ''_'' \<notin> set (ak_contractType k) \<and> CHR ''_'' \<notin> set (ak_qualifier k)
    | Inl e \<Rightarrow> e = ErrInvalidKey (the (addressRefKey_String sv k)) \<and>
        (CHR ''_'' \<in> set (ak_contractType k) \<or> CHR ''_'' \<in> set (ak_qualifier k))"
proof -
  obtain dk where dk: "addressRefKey_String sv k = Some dk"
    using assms(2) by (simp add: addressRefKey_String_def)
  show ?thesis
    using key_from_string [OF assms(1) dk] key_from_string_invalid [OF assms(1) dk]
    by (cases "CHR ''_'' \<in> set (ak_contractType k) \<or> CHR ''_'' \<in> set (ak_qualifier k)") (auto simp: dk)
qed

definition example_key :: "string \<Rightarrow> nat address_ref_key" where
  "example_key q = NewAddressRefKey 1 ''T'' (Some 1) q"

lemma nat_semver_key_equals [simp]: "addressRefKey_Equals nat_semver a b \<longleftrightarrow> a = b"
  by (auto simp: addressRefKey_Equals_def nat_semver_def)

lemma example_key_String: "\<exists>dk. addressRefKey_String nat_semver (example_key q) = Some dk"
  by (simp add: example_key_def NewAddressRefKey_def addressRefKey_String_def)

lemma addressRefKey_roundtrip_witness:
  "NewAddressRefKeyFromString nat_semver (the (addressRefKey_String nat_semver (example_key ''a_b''))) =
     Inl (ErrInvalidKey (the (addressRefKey_String nat_semver (example_key ''a_b''))))"
  using addressRefKey_roundtrip [OF nat_semver_ok, of "example_key ''a_b''" 1]
  by (simp add: example_key_def NewAddressRefKey_def split: sum.splits)

end
