(* ===== verification/Address_Query.thy ===== *)
theory Address_Query
  imports Address_Ref
begin

text \<open>
  Filters over address references (\<open>datastore/filters.go\<close>), the query for the single
  reference that matches the non-zero fields of a pattern (\<open>datastore/query.go\<close>), and the
  order of references used for deterministic output (\<open>datastore/sort\_address\_refs.go\<close>).
\<close>

section \<open>Filters\<close>

fun addressRefFilter :: "('v address_ref \<Rightarrow> bool) \<Rightarrow> 'v address_ref list \<Rightarrow> 'v address_ref list" where
  "addressRefFilter predicate [] = []"
| "addressRefFilter predicate (record # records) =
     (if predicate record then record # addressRefFilter predicate records
      else addressRefFilter predicate records)"

definition AddressRefByAddress :: "string \<Rightarrow> 'v address_ref list \<Rightarrow> 'v address_ref list" where
  "AddressRefByAddress address = addressRefFilter (\<lambda>record. ar_Address record = address)"

definition AddressRefByChainSelector :: "u64 \<Rightarrow> 'v address_ref list \<Rightarrow> 'v address_ref list" where
  "AddressRefByChainSelector chainSelector =
     addressRefFilter (\<lambda>record. ar_ChainSelector record = chainSelector)"

definition AddressRefByType :: "string \<Rightarrow> 'v address_ref list \<Rightarrow> 'v address_ref list" where
  "AddressRefByType contractType = addressRefFilter (\<lambda>record. ar_Type record = contractType)"

definition AddressRefByVersion ::
  "'v semver \<Rightarrow> 'v option \<Rightarrow> 'v address_ref list \<Rightarrow> 'v address_ref list" where
  "AddressRefByVersion sv version = addressRefFilter (\<lambda>record. sv_Equal sv (ar_Version record) version)"

definition AddressRefByQualifier :: "string \<Rightarrow> 'v address_ref list \<Rightarrow> 'v address_ref list" where
  "AddressRefByQualifier qualifier = addressRefFilter (\<lambda>record. ar_Qualifier record = qualifier)"

lemma addressRefFilter_filter [simp]: "addressRefFilter = filter"
proof (intro ext)
  show "addressRefFilter p xs = filter p xs" for p :: "'v address_ref \<Rightarrow> bool" and xs
    by (induction xs) auto
qed

lemma AddressRefStore_Filter_Nil [simp]: "AddressRefStore_Filter [] s = as_Records s"
  by (simp add: AddressRefStore_Filter_def)

lemma fold_filters: "fold (\<lambda>f. f) (map filter ps) xs = filter (\<lambda>x. \<forall>p \<in> set ps. p x) xs"
  by (induction ps arbitrary: xs) (auto simp: conj_commute)

text \<open>A store filtered by several predicates keeps the records that satisfy all of them, in order.\<close>

lemma AddressRefStore_Filter_all:
  "AddressRefStore_Filter (map addressRefFilter ps) s = filter (\<lambda>r. \<forall>p \<in> set ps. p r) (as_Records s)"
  by (simp add: AddressRefStore_Filter_def fold_filters)

section \<open>The query for a unique reference\<close>

definition isAddressRefQueryEmpty :: "'v address_ref \<Rightarrow> bool" where
  "isAddressRefQueryEmpty ref \<longleftrightarrow>
     ar_ChainSelector ref = 0 \<and> ar_Type ref = [] \<and> ar_Version ref = None \<and>
     ar_Qualifier ref = [] \<and> ar_Address ref = []"

definition query_filters ::
  "'v semver \<Rightarrow> 'v address_ref \<Rightarrow> ('v address_ref list \<Rightarrow> 'v address_ref list) list" where
  "query_filters sv ref =
     (if ar_ChainSelector ref \<noteq> 0 then [AddressRefByChainSelector (ar_ChainSelector ref)] else []) @
     (if ar_Type ref \<noteq> [] then [AddressRefByType (ar_Type ref)] else []) @
     (if ar_Version ref \<noteq> None then [AddressRefByVersion sv (ar_Version ref)] else []) @
     (if ar_Qualifier ref \<noteq> [] then [AddressRefByQualifier (ar_Qualifier ref)] else []) @
     (if ar_Address ref \<noteq> [] then [AddressRefByAddress (ar_Address ref)] else [])"

definition findUniqueRef ::
  "'v semver \<Rightarrow> 'v address_store \<Rightarrow> 'v address_ref \<Rightarrow> ds_error + 'v address_ref" where
  "findUniqueRef sv store ref =
     (if isAddressRefQueryEmpty ref then Inl ErrAddressRefQueryEmpty
      else case AddressRefStore_Filter (query_filters sv ref) store of
        [r] \<Rightarrow> Inr (AddressRef_Clone r)
      | [] \<Rightarrow> Inl ErrAddressRefQueryNoMatch
      | rs \<Rightarrow> Inl (ErrAddressRefQueryAmbiguous (length rs)))"

definition FindUniqueRef ::
  "'v semver \<Rightarrow> 'v address_store \<Rightarrow> 'v address_ref \<Rightarrow> ds_error + 'v address_ref" where
  "FindUniqueRef sv store ref = findUniqueRef sv store ref"

text \<open>\<open>None\<close> for a nil \<open>format\<close>; the caller's function returns \<open>None\<close> for an error.\<close>

definition FindAndFormatRef ::
  "'v semver \<Rightarrow> 'v address_store \<Rightarrow> 'v address_ref \<Rightarrow> ('v address_ref \<Rightarrow> 't option) option \<Rightarrow> ds_error + 't" where
  "FindAndFormatRef sv store ref format =
     (case format of
        None \<Rightarrow> Inl ErrAddressRefFormatFailed
      | Some f \<Rightarrow>
          (case findUniqueRef sv store ref of
             Inl e \<Rightarrow> Inl e
           | Inr refFromStore \<Rightarrow>
               (case f refFromStore of
                  None \<Rightarrow> Inl ErrAddressRefFormatFailed
                | Some formattedRef \<Rightarrow> Inr formattedRef)))"

text \<open>The specification: a record matches a pattern on every field the pattern sets.\<close>

definition matches_query :: "'v semver \<Rightarrow> 'v address_ref \<Rightarrow> 'v address_ref \<Rightarrow> bool" where
  "matches_query sv ref r \<longleftrightarrow>
     (ar_ChainSelector ref = 0 \<or> ar_ChainSelector r = ar_ChainSelector ref) \<and>
     (ar_Type ref = [] \<or> ar_Type r = ar_Type ref) \<and>
     (ar_Version ref = None \<or> sv_Equal sv (ar_Version r) (ar_Version ref)) \<and>
     (ar_Qualifier ref = [] \<or> ar_Qualifier r = ar_Qualifier ref) \<and>
     (ar_Address ref = [] \<or> ar_Address r = ar_Address ref)"

lemma query_filters_spec:
  "AddressRefStore_Filter (query_filters sv ref) s = filter (matches_query sv ref) (as_Records s)"
proof -
  let ?ps = "(if ar_ChainSelector ref \<noteq> 0 then [\<lambda>r. ar_ChainSelector r = ar_ChainSelector ref] else []) @
     (if ar_Type ref \<noteq> [] then [\<lambda>r. ar_Type r = ar_Type ref] else []) @
     (if ar_Version ref \<noteq> None then [\<lambda>r. sv_Equal sv (ar_Version r) (ar_Version ref)] else []) @
     (if ar_Qualifier ref \<noteq> [] then [\<lambda>r. ar_Qualifier r = ar_Qualifier ref] else []) @
     (if ar_Address ref \<noteq> [] then [\<lambda>r. ar_Address r = ar_Address ref] else [])"
  have "query_filters sv ref = map addressRefFilter ?ps"
    by (simp add: query_filters_def AddressRefByAddress_def AddressRefByChainSelector_def
        AddressRefByType_def AddressRefByVersion_def AddressRefByQualifier_def)
  moreover have "(\<forall>p \<in> set ?ps. p r) \<longleftrightarrow> matches_query sv ref r" for r
    by (auto simp: matches_query_def ball_Un)
  ultimately show ?thesis by (simp only: AddressRefStore_Filter_all)
qed

lemma findUniqueRef_cases:
  "findUniqueRef sv s ref =
     (let found = filter (matches_query sv ref) (as_Records s) in
      if isAddressRefQueryEmpty ref then Inl ErrAddressRefQueryEmpty
      else if length found = 1 then Inr (hd found)
      else if found = [] then Inl ErrAddressRefQueryNoMatch
      else Inl (ErrAddressRefQueryAmbiguous (length found)))"
  by (auto simp: findUniqueRef_def query_filters_spec Let_def length_Suc_conv split: list.split)

section \<open>The order of references\<close>

definition compareVersions :: "'v semver \<Rightarrow> 'v option \<Rightarrow> 'v option \<Rightarrow> int" where
  "compareVersions sv a b =
     (case (a, b) of
        (None, None) \<Rightarrow> 0
      | (None, Some _) \<Rightarrow> -1
      | (Some _, None) \<Rightarrow> 1
      | (Some v, Some w) \<Rightarrow> sv_Compare sv v w)"

text \<open>The \<open>less\<close> function the code passes to \<open>sort.SliceStable\<close>.\<close>

definition address_ref_less :: "'v semver \<Rightarrow> 'v address_ref \<Rightarrow> 'v address_ref \<Rightarrow> bool" where
  "address_ref_less sv a b \<longleftrightarrow>
     (if ar_ChainSelector a \<noteq> ar_ChainSelector b then ar_ChainSelector a < ar_ChainSelector b
      else if ar_Type a \<noteq> ar_Type b then ar_Type a < ar_Type b
      else let c = compareVersions sv (ar_Version a) (ar_Version b) in
        if c \<noteq> 0 then c < 0
        else if ar_Address a \<noteq> ar_Address b then ar_Address a < ar_Address b
        else ar_Qualifier a < ar_Qualifier b)"

definition SortAddressRefs :: "'v semver \<Rightarrow> 'v address_ref list \<Rightarrow> 'v address_ref list" where
  "SortAddressRefs sv refs = stable_sort (address_ref_less sv) refs"

definition address_ref_cmp :: "'v semver \<Rightarrow> 'v address_ref \<Rightarrow> 'v address_ref \<Rightarrow> int" where
  "address_ref_cmp sv =
     then_cmp (cmp_by ar_ChainSelector) (then_cmp (cmp_by ar_Type)
       (then_cmp (\<lambda>a b. compareVersions sv (ar_Version a) (ar_Version b))
         (then_cmp (cmp_by ar_Address) (cmp_by ar_Qualifier))))"

lemma address_ref_less_cmp: "address_ref_less sv a b \<longleftrightarrow> address_ref_cmp sv a b < 0"
  by (auto simp: address_ref_less_def address_ref_cmp_def then_cmp_def cmp_by_def Let_def)

lemma is_cmp_compareVersions:
  assumes "semver_ok sv"
  shows "is_cmp (\<lambda>a b. compareVersions sv (f a) (f b))"
proof -
  have "is_cmp (sv_Compare sv)" using semver_okD(2) [OF assms] .
  then show ?thesis
    unfolding is_cmp_def compareVersions_def by (auto split: option.splits)
qed

lemma is_cmp_address_ref: "semver_ok sv \<Longrightarrow> is_cmp (address_ref_cmp sv)"
  unfolding address_ref_cmp_def by (intro is_cmp_then is_cmp_cmp_by is_cmp_compareVersions)

lemma address_ref_less_strict:
  assumes "semver_ok sv"
  shows "\<not> address_ref_less sv b a \<Longrightarrow> \<not> address_ref_less sv c b \<Longrightarrow> \<not> address_ref_less sv c a"
    and "address_ref_less sv a b \<Longrightarrow> \<not> address_ref_less sv b a"
proof -
  have sign: "address_ref_cmp sv x y < 0 \<longleftrightarrow> 0 < address_ref_cmp sv y x" for x y
    using is_cmp_address_ref [OF assms] unfolding is_cmp_def by blast
  show "\<not> address_ref_less sv b a \<Longrightarrow> \<not> address_ref_less sv c b \<Longrightarrow> \<not> address_ref_less sv c a"
    using is_cmp_trans(1) [OF is_cmp_address_ref [OF assms], of a b c] sign
    by (auto simp: address_ref_less_cmp not_less)
  show "address_ref_less sv a b \<Longrightarrow> \<not> address_ref_less sv b a"
    using sign [of a b] by (simp add: address_ref_less_cmp)
qed

lemma SortAddressRefs_sorted:
  "semver_ok sv \<Longrightarrow> sorted_wrt (\<lambda>a b. \<not> address_ref_less sv b a) (SortAddressRefs sv refs)"
  unfolding SortAddressRefs_def by (rule sorted_stable_sort) (fact address_ref_less_strict)+

text \<open>Two references that tie have equal keys and the same address.\<close>

lemma address_ref_tie:
  assumes "semver_ok sv" "\<not> address_ref_less sv a b" "\<not> address_ref_less sv b a"
  shows "addressRefKey_Equals sv (AddressRef_Key a) (AddressRef_Key b)"
proof -
  have zero: "address_ref_cmp sv a b = 0"
    using assms is_cmp_address_ref [OF assms(1)] unfolding address_ref_less_cmp is_cmp_def
    by (metis linorder_neqE)
  then have "ar_ChainSelector a = ar_ChainSelector b" "ar_Type a = ar_Type b"
    "compareVersions sv (ar_Version a) (ar_Version b) = 0" "ar_Qualifier a = ar_Qualifier b"
    by (auto simp: address_ref_cmp_def then_cmp_def cmp_by_def split: if_splits)
  moreover from this(3) have "sv_Equal sv (ar_Version a) (ar_Version b)"
    using semver_okD(5,6) [OF assms(1)] by (auto simp: compareVersions_def split: option.splits)
  ultimately show ?thesis
    by (simp add: addressRefKey_Equals_def AddressRef_Key_def NewAddressRefKey_def)
qed

text \<open>A list in which no two elements tie is determined by its elements once it is sorted.\<close>

lemma sorted_wrt_unique:
  assumes "sorted_wrt R xs" "sorted_wrt R ys" "mset xs = mset ys"
    and "\<And>a b. a \<in> set xs \<Longrightarrow> b \<in> set xs \<Longrightarrow> R a b \<Longrightarrow> R b a \<Longrightarrow> a = b"
  shows "xs = ys"
  using assms
proof (induction xs arbitrary: ys)
  case Nil
  then show ?case by simp
next
  case (Cons x xs)
  from Cons.prems(3) obtain y ys' where ys: "ys = y # ys'" by (cases ys) auto
  have sets: "set (x # xs) = set ys" using Cons.prems(3) by (rule mset_eq_setD)
  have "x = y"
  proof (rule ccontr)
    assume "x \<noteq> y"
    then have "y \<in> set xs" "x \<in> set ys'" using sets ys by auto
    then have "R x y" "R y x" using Cons.prems(1,2) ys by auto
    with Cons.prems(4) [of x y] \<open>y \<in> set xs\<close> \<open>x \<noteq> y\<close> show False by simp
  qed
  moreover have "xs = ys'"
    using Cons.prems Cons.IH [of ys'] \<open>x = y\<close> ys by auto
  ultimately show ?case using ys by simp
qed

section \<open>Properties\<close>

text \<open>
  The query for a unique reference is exact: it returns a reference only if that reference is
  the one record of the store that agrees with the pattern on every field the pattern sets; it
  reports no match exactly when there is none, and an ambiguity with the true number of matches.
\<close>

lemma FindUniqueRef_exact:
  assumes "\<not> isAddressRefQueryEmpty ref"
  shows "case FindUniqueRef sv s ref of
      Inr r \<Rightarrow> filter (matches_query sv ref) (AddressRefStore_Fetch s) = [r]
    | Inl ErrAddressRefQueryNoMatch \<Rightarrow> (\<forall>r \<in> set (AddressRefStore_Fetch s). \<not> matches_query sv ref r)
    | Inl (ErrAddressRefQueryAmbiguous n) \<Rightarrow>
        n = length (filter (matches_query sv ref) (AddressRefStore_Fetch s)) \<and> 2 \<le> n
    | Inl e \<Rightarrow> False"
proof -
  let ?found = "filter (matches_query sv ref) (as_Records s)"
  consider "?found = []" | r where "?found = [r]" | "2 \<le> length ?found"
    by (cases ?found rule: list.exhaust; cases "tl ?found") auto
  then show ?thesis
  proof cases
    case 3
    then have "length ?found \<noteq> 1" "?found \<noteq> []" by auto
    with assms 3 show ?thesis by (simp add: FindUniqueRef_def findUniqueRef_cases Let_def)
  qed (use assms in \<open>auto simp: FindUniqueRef_def findUniqueRef_cases Let_def filter_empty_conv\<close>)
qed

lemma FindUniqueRef_exact_witness:
  "FindUniqueRef nat_semver \<lparr>as_Records = [example_ref], as_DeletedRemoteKeys = []\<rparr> example_ref = Inr example_ref"
proof -
  have "matches_query nat_semver example_ref example_ref"
    by (simp add: matches_query_def nat_semver_def)
  moreover have "\<not> isAddressRefQueryEmpty example_ref"
    by (simp add: isAddressRefQueryEmpty_def example_ref_def)
  ultimately show ?thesis
    using FindUniqueRef_exact [where ref = example_ref and sv = nat_semver
        and s = "\<lparr>as_Records = [example_ref], as_DeletedRemoteKeys = []\<rparr>"]
    by (auto split: sum.splits ds_error.splits)
qed

text \<open>
  Sorting is deterministic: for references with pairwise different keys the result depends
  only on which references there are, not on the order they came in, and it is ordered by chain,
  type, version, address and qualifier.
\<close>

lemma SortAddressRefs_deterministic:
  assumes "semver_ok sv" "unique_keys (addressRefKey_Equals sv) AddressRef_Key refs" "mset refs = mset refs'"
  shows "SortAddressRefs sv refs = SortAddressRefs sv refs' \<and> mset (SortAddressRefs sv refs) = mset refs \<and>
    sorted_wrt (\<lambda>a b. \<not> address_ref_less sv b a) (SortAddressRefs sv refs)"
proof -
  let ?s = "SortAddressRefs sv"
  have perm: "mset (?s refs) = mset refs" "mset (?s refs) = mset (?s refs')"
    using assms(3) by (simp_all add: SortAddressRefs_def)
  have same: "a = b" if "a \<in> set (?s refs)" "b \<in> set (?s refs)"
    "\<not> address_ref_less sv b a" "\<not> address_ref_less sv a b" for a b
  proof (rule ccontr)
    assume "a \<noteq> b"
    have "a \<in> set refs" "b \<in> set refs" using that perm(1) by (metis mset_eq_setD)+
    then obtain i j where ij: "i < length refs" "j < length refs" "refs ! i = a" "refs ! j = b"
      by (auto simp: in_set_conv_nth)
    with \<open>a \<noteq> b\<close> have "i \<noteq> j" by auto
    have eq: "addressRefKey_Equals sv (AddressRef_Key a) (AddressRef_Key b)"
      using address_ref_tie [OF assms(1) that(4,3)] .
    then have "addressRefKey_Equals sv (AddressRef_Key b) (AddressRef_Key a)"
      using addressRefKey_equivp [OF assms(1)] by (metis equivp_symp)
    with eq \<open>i \<noteq> j\<close> ij unique_keys_nth [OF assms(2), of i j] unique_keys_nth [OF assms(2), of j i]
    show False by (metis linorder_neqE_nat)
  qed
  have "?s refs = ?s refs'"
    by (rule sorted_wrt_unique [OF SortAddressRefs_sorted [OF assms(1)] SortAddressRefs_sorted [OF assms(1)] perm(2)])
      (use same in blast)
  then show ?thesis using perm SortAddressRefs_sorted [OF assms(1)] by simp
qed

lemma SortAddressRefs_deterministic_witness:
  "SortAddressRefs nat_semver [example_ref, example_ref\<lparr>ar_Qualifier := ''p''\<rparr>] =
   SortAddressRefs nat_semver [example_ref\<lparr>ar_Qualifier := ''p''\<rparr>, example_ref]"
proof -
  have "unique_keys (addressRefKey_Equals nat_semver) AddressRef_Key [example_ref, example_ref\<lparr>ar_Qualifier := ''p''\<rparr>]"
    by (simp add: unique_keys_def AddressRef_Key_def NewAddressRefKey_def example_ref_def)
  from SortAddressRefs_deterministic [OF nat_semver_ok this, of "[example_ref\<lparr>ar_Qualifier := ''p''\<rparr>, example_ref]"]
  show ?thesis by (simp add: add_mset_commute)
qed

end
