(* ===== verification/Metadata_Stores.thy ===== *)
theory Metadata_Stores
  imports Datastore_Base
begin

text \<open>
  Chain, contract and environment metadata: records and keys
  (\<open>datastore/chain\_metadata.go\<close>, \<open>contract\_metadata.go\<close>, \<open>env\_metadata.go\<close> and
  the \<open>\_key.go\<close> files) and their in-memory stores
  (\<open>memory\_chain\_metadata\_store.go\<close>, \<open>memory\_contract\_metadata\_store.go\<close>,
  \<open>memory\_env\_metadata\_store.go\<close>). Metadata has type \<open>any\<close>; what a store hands out is
  a copy made through JSON, which can fail. Both keyed stores refine the contract of Store\_Spec;
  they need no environment.
\<close>

section \<open>Chain metadata\<close>

record chain_metadata_key =
  hk_chainSelector :: u64

record chain_metadata =
  hm_ChainSelector :: u64
  hm_Metadata :: goval

definition NewChainMetadataKey :: "u64 \<Rightarrow> chain_metadata_key" where
  "NewChainMetadataKey chainSelector = \<lparr>hk_chainSelector = chainSelector\<rparr>"

definition chainMetadataKey_Equals :: "chain_metadata_key \<Rightarrow> chain_metadata_key \<Rightarrow> bool" where
  "chainMetadataKey_Equals c other \<longleftrightarrow> hk_chainSelector c = hk_chainSelector other"

definition chainMetadataKey_String :: "chain_metadata_key \<Rightarrow> string" where
  "chainMetadataKey_String c = format_uint (hk_chainSelector c)"

definition NewChainMetadataKeyFromString :: "string \<Rightarrow> ds_error + chain_metadata_key" where
  "NewChainMetadataKeyFromString key =
     (if length key = 0 then Inl (ErrInvalidKey key)
      else case parse_uint64 key of
        None \<Rightarrow> Inl (ErrOther ''failed to parse chain selector'')
      | Some chainSelector \<Rightarrow> Inr (NewChainMetadataKey chainSelector))"

definition ChainMetadata_Key :: "chain_metadata \<Rightarrow> chain_metadata_key" where
  "ChainMetadata_Key r = NewChainMetadataKey (hm_ChainSelector r)"

definition ChainMetadata_Clone :: "chain_metadata \<Rightarrow> ds_error + chain_metadata" where
  "ChainMetadata_Clone r =
     (case json_clone (hm_Metadata r) of
        None \<Rightarrow> Inl ErrClone
      | Some metaClone \<Rightarrow> Inr \<lparr>hm_ChainSelector = hm_ChainSelector r, hm_Metadata = metaClone\<rparr>)"

lemma chain_key_roundtrip: "NewChainMetadataKeyFromString (chainMetadataKey_String k) = Inr k"
  by (simp add: NewChainMetadataKeyFromString_def chainMetadataKey_String_def NewChainMetadataKey_def)

lemma ChainMetadata_Clone_key: "ChainMetadata_Clone r = Inr c \<Longrightarrow> ChainMetadata_Key c = ChainMetadata_Key r"
  by (auto simp: ChainMetadata_Clone_def ChainMetadata_Key_def split: option.splits)

record chain_metadata_store =
  hms_Records :: "chain_metadata list"
  hms_DeletedRemoteKeys :: "string list"

definition NewMemoryChainMetadataStore :: "chain_metadata_store" where
  "NewMemoryChainMetadataStore = \<lparr>hms_Records = [], hms_DeletedRemoteKeys = []\<rparr>"

definition ChainStore_indexOf :: "chain_metadata_key \<Rightarrow> chain_metadata_store \<Rightarrow> nat option" where
  "ChainStore_indexOf key s =
     index_where (\<lambda>record. chainMetadataKey_Equals (ChainMetadata_Key record) key) (hms_Records s)"

definition ChainStore_Get :: "chain_metadata_key \<Rightarrow> chain_metadata_store \<Rightarrow> ds_error + chain_metadata" where
  "ChainStore_Get key s =
     (case ChainStore_indexOf key s of
        None \<Rightarrow> Inl ErrChainMetadataNotFound
      | Some idx \<Rightarrow> ChainMetadata_Clone (hms_Records s ! idx))"

fun chain_clone_all :: "chain_metadata list \<Rightarrow> ds_error + chain_metadata list" where
  "chain_clone_all [] = Inr []"
| "chain_clone_all (record # rest) =
     (case ChainMetadata_Clone record of
        Inl e \<Rightarrow> Inl e
      | Inr clone \<Rightarrow>
          (case chain_clone_all rest of Inl e \<Rightarrow> Inl e | Inr clones \<Rightarrow> Inr (clone # clones)))"

definition ChainStore_Fetch :: "chain_metadata_store \<Rightarrow> ds_error + chain_metadata list" where
  "ChainStore_Fetch s = chain_clone_all (hms_Records s)"

definition ChainStore_Filter :: "(chain_metadata list \<Rightarrow> chain_metadata list) list \<Rightarrow> chain_metadata_store \<Rightarrow> chain_metadata list" where
  "ChainStore_Filter filters s = fold (\<lambda>f records. f records) filters (hms_Records s)"

definition ChainMetadataByChainSelector :: "u64 \<Rightarrow> chain_metadata list \<Rightarrow> chain_metadata list" where
  "ChainMetadataByChainSelector chainSelector records =
     filter (\<lambda>record. hm_ChainSelector record = chainSelector) records"

definition ChainStore_Add :: "chain_metadata \<Rightarrow> chain_metadata_store \<Rightarrow> (ds_error, chain_metadata_store) eff" where
  "ChainStore_Add record s =
     (if ChainStore_indexOf (ChainMetadata_Key record) s \<noteq> None then fail ErrChainMetadataExists s
      else ret (s\<lparr>hms_DeletedRemoteKeys :=
                deleteFromSlice (hms_DeletedRemoteKeys s) (chainMetadataKey_String (ChainMetadata_Key record)),
              hms_Records := hms_Records s @ [record]\<rparr>))"

definition ChainStore_Upsert :: "chain_metadata \<Rightarrow> chain_metadata_store \<Rightarrow> (ds_error, chain_metadata_store) eff" where
  "ChainStore_Upsert record s =
     (let s = s\<lparr>hms_DeletedRemoteKeys :=
            deleteFromSlice (hms_DeletedRemoteKeys s) (chainMetadataKey_String (ChainMetadata_Key record))\<rparr> in
      case ChainStore_indexOf (ChainMetadata_Key record) s of
        None \<Rightarrow> ret (s\<lparr>hms_Records := hms_Records s @ [record]\<rparr>)
      | Some idx \<Rightarrow> ret (s\<lparr>hms_Records := (hms_Records s)[idx := record]\<rparr>))"

definition ChainStore_Update :: "chain_metadata \<Rightarrow> chain_metadata_store \<Rightarrow> (ds_error, chain_metadata_store) eff" where
  "ChainStore_Update record s =
     (case ChainStore_indexOf (ChainMetadata_Key record) s of
        None \<Rightarrow> fail ErrChainMetadataNotFound s
      | Some idx \<Rightarrow>
          ret (s\<lparr>hms_DeletedRemoteKeys :=
                deleteFromSlice (hms_DeletedRemoteKeys s) (chainMetadataKey_String (ChainMetadata_Key record)),
              hms_Records := (hms_Records s)[idx := record]\<rparr>))"

definition ChainStore_Delete :: "chain_metadata_key \<Rightarrow> chain_metadata_store \<Rightarrow> (ds_error, chain_metadata_store) eff" where
  "ChainStore_Delete key s =
     (case ChainStore_indexOf key s of
        None \<Rightarrow> fail ErrChainMetadataNotFound s
      | Some idx \<Rightarrow> ret (s\<lparr>hms_Records := delete_at idx (hms_Records s)\<rparr>))"

definition ChainStore_RemoteDelete :: "chain_metadata_key \<Rightarrow> chain_metadata_store \<Rightarrow> (ds_error, chain_metadata_store) eff" where
  "ChainStore_RemoteDelete key s =
     (let deletedKey = chainMetadataKey_String key in
      if deletedKey \<notin> set (hms_DeletedRemoteKeys s)
      then ret (s\<lparr>hms_DeletedRemoteKeys := hms_DeletedRemoteKeys s @ [deletedKey]\<rparr>)
      else ret s)"

definition chain_inv :: "chain_metadata_store \<Rightarrow> bool" where
  "chain_inv s \<longleftrightarrow> unique_keys chainMetadataKey_Equals ChainMetadata_Key (hms_Records s) \<and> distinct (hms_DeletedRemoteKeys s)"

definition chain_lookup :: "chain_metadata_store \<Rightarrow> chain_metadata_key \<Rightarrow> chain_metadata option" where
  "chain_lookup s = find_rec chainMetadataKey_Equals ChainMetadata_Key (hms_Records s)"

lemma chain_key_equals [simp]: "chainMetadataKey_Equals a b \<longleftrightarrow> a = b"
  by (auto simp: chainMetadataKey_Equals_def)

lemma chain_equivp: "equivp chainMetadataKey_Equals"
  by (rule equivpI) (auto intro: reflpI sympI transpI)

lemma chain_indexOf_None: "ChainStore_indexOf key s = None \<longleftrightarrow> chain_lookup s key = None"
  by (simp add: ChainStore_indexOf_def chain_lookup_def find_rec_index)

lemma chain_inv_new [simp]: "chain_inv NewMemoryChainMetadataStore"
  by (simp add: chain_inv_def NewMemoryChainMetadataStore_def)

lemma ChainStore_Get_lookup:
  "ChainStore_Get key s =
     (case chain_lookup s key of None \<Rightarrow> Inl ErrChainMetadataNotFound | Some r \<Rightarrow> ChainMetadata_Clone r)"
  by (simp add: ChainStore_Get_def ChainStore_indexOf_def chain_lookup_def find_rec_index del: chain_key_equals
      split: option.split)

lemma chain_upsert_law:
  assumes "chain_inv s"
  shows "\<exists>s'. ChainStore_Upsert r s = (None, s') \<and> chain_inv s' \<and>
    hms_DeletedRemoteKeys s' = remove1 (chainMetadataKey_String (ChainMetadata_Key r)) (hms_DeletedRemoteKeys s) \<and>
    chain_lookup s' = (\<lambda>k. if chainMetadataKey_Equals (ChainMetadata_Key r) k then Some r else chain_lookup s k)"
proof (cases "ChainStore_indexOf (ChainMetadata_Key r) s")
  case None
  then have idx: "index_where (\<lambda>x. chainMetadataKey_Equals (ChainMetadata_Key x) (ChainMetadata_Key r)) (hms_Records s) = None"
    by (simp add: ChainStore_indexOf_def)
  then have "\<forall>x \<in> set (hms_Records s). \<not> chainMetadataKey_Equals (ChainMetadata_Key x) (ChainMetadata_Key r)"
    by (simp add: index_where_None)
  note append = store_append [OF chain_equivp _ this]
  show ?thesis
    using assms idx append
    by (simp add: ChainStore_Upsert_def ChainStore_indexOf_def Let_def ret_def chain_inv_def chain_lookup_def
        deleteFromSlice_remove1 distinct_remove1 del: chain_key_equals cong: if_cong)
next
  case (Some i)
  then have idx: "index_where (\<lambda>x. chainMetadataKey_Equals (ChainMetadata_Key x) (ChainMetadata_Key r)) (hms_Records s) = Some i"
    by (simp add: ChainStore_indexOf_def)
  note replace = store_replace [OF chain_equivp _ idx]
  show ?thesis
    using assms idx replace
    by (simp add: ChainStore_Upsert_def ChainStore_indexOf_def Let_def ret_def chain_inv_def chain_lookup_def
        deleteFromSlice_remove1 distinct_remove1 del: chain_key_equals cong: if_cong)
qed

lemma chain_add_new_law:
  assumes "chain_lookup s (ChainMetadata_Key r) = None"
  shows "ChainStore_Add r s = ChainStore_Upsert r s"
  using assms chain_indexOf_None [of "ChainMetadata_Key r" s]
  by (simp add: ChainStore_Add_def ChainStore_Upsert_def ChainStore_indexOf_def Let_def del: chain_key_equals)

lemma chain_update_old_law:
  assumes "chain_lookup s (ChainMetadata_Key r) \<noteq> None"
  shows "ChainStore_Update r s = ChainStore_Upsert r s"
proof -
  obtain i where "ChainStore_indexOf (ChainMetadata_Key r) s = Some i"
    using assms chain_indexOf_None [of "ChainMetadata_Key r" s] by auto
  then show ?thesis
    by (simp add: ChainStore_Update_def ChainStore_Upsert_def ChainStore_indexOf_def Let_def del: chain_key_equals)
qed

lemma chain_delete_law:
  assumes "chain_inv s" "chain_lookup s k \<noteq> None"
  shows "\<exists>s'. ChainStore_Delete k s = (None, s') \<and> chain_inv s' \<and>
    hms_DeletedRemoteKeys s' = hms_DeletedRemoteKeys s \<and>
    chain_lookup s' = (\<lambda>j. if chainMetadataKey_Equals k j then None else chain_lookup s j)"
proof -
  obtain i where i: "ChainStore_indexOf k s = Some i"
    using assms(2) chain_indexOf_None [of k s] by auto
  then have idx: "index_where (\<lambda>x. chainMetadataKey_Equals (ChainMetadata_Key x) k) (hms_Records s) = Some i"
    by (simp add: ChainStore_indexOf_def)
  note del = store_delete [OF chain_equivp _ idx]
  show ?thesis
    using assms(1) i del
    by (simp add: ChainStore_Delete_def ret_def chain_inv_def chain_lookup_def del: chain_key_equals cong: if_cong)
qed

interpretation chain_records: keyed_store
  ChainMetadata_Key "\<lambda>_::unit. chainMetadataKey_Equals" "\<lambda>_ k. Some (chainMetadataKey_String k)" "\<lambda>_. True" "\<lambda>_. True"
  "\<lambda>_. chain_inv" "\<lambda>_. chain_lookup" hms_DeletedRemoteKeys
  "\<lambda>_. ChainStore_Add" "\<lambda>_. ChainStore_Upsert" "\<lambda>_. ChainStore_Update" "\<lambda>_. ChainStore_Delete" "\<lambda>_. ChainStore_RemoteDelete"
  ErrChainMetadataNotFound ErrChainMetadataExists
proof (unfold_locales, goal_cases)
  case 1 show ?case by (rule chain_equivp)
next
  case 2 then show ?case by simp
next
  case 3 then show ?case by (simp add: chain_inv_def)
next
  case 4 then show ?case by simp
next
  case (5 env s r dk) then show ?case using chain_upsert_law [of s r] by simp
next
  case 6 then show ?case by (simp add: chain_add_new_law)
next
  case (7 env s r)
  then show ?case by (simp add: ChainStore_Add_def fail_def chain_indexOf_None)
next
  case 8 then show ?case by (simp add: chain_update_old_law)
next
  case (9 env s r)
  then show ?case
    using chain_indexOf_None [of "ChainMetadata_Key r" s] by (simp add: ChainStore_Update_def fail_def)
next
  case (10 env s k) then show ?case using chain_delete_law [of s k] by simp
next
  case (11 env s k)
  then show ?case
    using chain_indexOf_None [of k s] by (simp add: ChainStore_Delete_def fail_def)
next
  case (12 env s k dk)
  then show ?case
    by (auto simp: ChainStore_RemoteDelete_def Let_def ret_def chain_inv_def chain_lookup_def stage_def)
qed

lemma chain_clone_all_Inr:
  "chain_clone_all rs = Inr cs \<Longrightarrow> list_all2 (\<lambda>r c. ChainMetadata_Clone r = Inr c) rs cs"
  by (induction rs arbitrary: cs) (auto split: sum.splits)

lemma chain_clone_all_total:
  "\<forall>r \<in> set rs. \<exists>c. ChainMetadata_Clone r = Inr c \<Longrightarrow> \<exists>cs. chain_clone_all rs = Inr cs"
  by (induction rs) (auto split: sum.splits)

lemma chain_clone_all_error:
  "chain_clone_all rs = Inl e \<Longrightarrow> \<exists>r \<in> set rs. ChainMetadata_Clone r = Inl e"
  by (induction rs) (auto split: sum.splits)

lemma chain_clone_all_keys:
  "chain_clone_all rs = Inr cs \<Longrightarrow> map ChainMetadata_Key cs = map ChainMetadata_Key rs"
  by (induction rs arbitrary: cs) (auto simp: ChainMetadata_Clone_key split: sum.splits)

section \<open>Contract metadata\<close>

record contract_metadata_key =
  ck_chainSelector :: u64
  ck_address :: string

record contract_metadata =
  cm_Address :: string
  cm_ChainSelector :: u64
  cm_Metadata :: goval

definition NewContractMetadataKey :: "u64 \<Rightarrow> string \<Rightarrow> contract_metadata_key" where
  "NewContractMetadataKey chainSelector address =
     \<lparr>ck_chainSelector = chainSelector, ck_address = address\<rparr>"

definition contractMetadataKey_Equals :: "contract_metadata_key \<Rightarrow> contract_metadata_key \<Rightarrow> bool" where
  "contractMetadataKey_Equals c other \<longleftrightarrow>
     ck_chainSelector c = ck_chainSelector other \<and> ck_address c = ck_address other"

definition contractMetadataKey_String :: "contract_metadata_key \<Rightarrow> string" where
  "contractMetadataKey_String c = format_uint (ck_chainSelector c) @ ''_'' @ ck_address c"

definition NewContractMetadataKeyFromString :: "string \<Rightarrow> ds_error + contract_metadata_key" where
  "NewContractMetadataKeyFromString key =
     (let parts = split_on (CHR ''_'') key in
      if length parts \<noteq> 2 then Inl (ErrInvalidKey key)
      else case parse_uint64 (parts ! 0) of
        None \<Rightarrow> Inl (ErrOther ''failed to parse chain selector'')
      | Some chainSelector \<Rightarrow> Inr (NewContractMetadataKey chainSelector (parts ! 1)))"

definition ContractMetadata_Key :: "contract_metadata \<Rightarrow> contract_metadata_key" where
  "ContractMetadata_Key r = NewContractMetadataKey (cm_ChainSelector r) (cm_Address r)"

definition ContractMetadata_Clone :: "contract_metadata \<Rightarrow> ds_error + contract_metadata" where
  "ContractMetadata_Clone r =
     (case json_clone (cm_Metadata r) of
        None \<Rightarrow> Inl ErrClone
      | Some metaClone \<Rightarrow>
          Inr \<lparr>cm_Address = cm_Address r, cm_ChainSelector = cm_ChainSelector r, cm_Metadata = metaClone\<rparr>)"

text \<open>The printed key of a contract is read back exactly when its address has no underscore.\<close>

lemma contract_key_roundtrip_iff:
  "NewContractMetadataKeyFromString (contractMetadataKey_String k) =
     (if CHR ''_'' \<in> set (ck_address k) then Inl (ErrInvalidKey (contractMetadataKey_String k)) else Inr k)"
proof -
  have "length (split_on (CHR ''_'') (contractMetadataKey_String k)) =
      2 + count_list (ck_address k) (CHR ''_'')"
    by (simp add: contractMetadataKey_String_def length_split_on count_notin)
  moreover have "count_list (ck_address k) (CHR ''_'') = 0 \<longleftrightarrow> CHR ''_'' \<notin> set (ck_address k)"
    by (simp add: count_list_0_iff)
  ultimately show ?thesis
    by (auto simp: NewContractMetadataKeyFromString_def Let_def)
      (simp add: contractMetadataKey_String_def split_on_append NewContractMetadataKey_def)
qed

lemma ContractMetadata_Clone_key:
  "ContractMetadata_Clone r = Inr c \<Longrightarrow> ContractMetadata_Key c = ContractMetadata_Key r"
  by (auto simp: ContractMetadata_Clone_def ContractMetadata_Key_def split: option.splits)

record contract_metadata_store =
  cms_Records :: "contract_metadata list"
  cms_DeletedRemoteKeys :: "string list"

definition NewMemoryContractMetadataStore :: "contract_metadata_store" where
  "NewMemoryContractMetadataStore = \<lparr>cms_Records = [], cms_DeletedRemoteKeys = []\<rparr>"

definition ContractStore_indexOf :: "contract_metadata_key \<Rightarrow> contract_metadata_store \<Rightarrow> nat option" where
  "ContractStore_indexOf key s =
     index_where (\<lambda>record. contractMetadataKey_Equals (ContractMetadata_Key record) key) (cms_Records s)"

definition ContractStore_Get :: "contract_metadata_key \<Rightarrow> contract_metadata_store \<Rightarrow> ds_error + contract_metadata" where
  "ContractStore_Get key s =
     (case ContractStore_indexOf key s of
        None \<Rightarrow> Inl ErrContractMetadataNotFound
      | Some idx \<Rightarrow> ContractMetadata_Clone (cms_Records s ! idx))"

fun contract_clone_all :: "contract_metadata list \<Rightarrow> ds_error + contract_metadata list" where
  "contract_clone_all [] = Inr []"
| "contract_clone_all (record # rest) =
     (case ContractMetadata_Clone record of
        Inl e \<Rightarrow> Inl e
      | Inr clone \<Rightarrow>
          (case contract_clone_all rest of Inl e \<Rightarrow> Inl e | Inr clones \<Rightarrow> Inr (clone # clones)))"

definition ContractStore_Fetch :: "contract_metadata_store \<Rightarrow> ds_error + contract_metadata list" where
  "ContractStore_Fetch s = contract_clone_all (cms_Records s)"

definition ContractStore_Filter :: "(contract_metadata list \<Rightarrow> contract_metadata list) list \<Rightarrow> contract_metadata_store \<Rightarrow> contract_metadata list" where
  "ContractStore_Filter filters s = fold (\<lambda>f records. f records) filters (cms_Records s)"

definition ContractMetadataByChainSelector :: "u64 \<Rightarrow> contract_metadata list \<Rightarrow> contract_metadata list" where
  "ContractMetadataByChainSelector chainSelector records =
     filter (\<lambda>record. cm_ChainSelector record = chainSelector) records"

definition ContractStore_Add :: "contract_metadata \<Rightarrow> contract_metadata_store \<Rightarrow> (ds_error, contract_metadata_store) eff" where
  "ContractStore_Add record s =
     (if ContractStore_indexOf (ContractMetadata_Key record) s \<noteq> None then fail ErrContractMetadataExists s
      else ret (s\<lparr>cms_DeletedRemoteKeys :=
                deleteFromSlice (cms_DeletedRemoteKeys s) (contractMetadataKey_String (ContractMetadata_Key record)),
              cms_Records := cms_Records s @ [record]\<rparr>))"

definition ContractStore_Upsert :: "contract_metadata \<Rightarrow> contract_metadata_store \<Rightarrow> (ds_error, contract_metadata_store) eff" where
  "ContractStore_Upsert record s =
     (let s = s\<lparr>cms_DeletedRemoteKeys :=
            deleteFromSlice (cms_DeletedRemoteKeys s) (contractMetadataKey_String (ContractMetadata_Key record))\<rparr> in
      case ContractStore_indexOf (ContractMetadata_Key record) s of
        None \<Rightarrow> ret (s\<lparr>cms_Records := cms_Records s @ [record]\<rparr>)
      | Some idx \<Rightarrow> ret (s\<lparr>cms_Records := (cms_Records s)[idx := record]\<rparr>))"

definition ContractStore_Update :: "contract_metadata \<Rightarrow> contract_metadata_store \<Rightarrow> (ds_error, contract_metadata_store) eff" where
  "ContractStore_Update record s =
     (case ContractStore_indexOf (ContractMetadata_Key record) s of
        None \<Rightarrow> fail ErrContractMetadataNotFound s
      | Some idx \<Rightarrow>
          ret (s\<lparr>cms_DeletedRemoteKeys :=
                deleteFromSlice (cms_DeletedRemoteKeys s) (contractMetadataKey_String (ContractMetadata_Key record)),
              cms_Records := (cms_Records s)[idx := record]\<rparr>))"

definition ContractStore_Delete :: "contract_metadata_key \<Rightarrow> contract_metadata_store \<Rightarrow> (ds_error, contract_metadata_store) eff" where
  "ContractStore_Delete key s =
     (case ContractStore_indexOf key s of
        None \<Rightarrow> fail ErrContractMetadataNotFound s
      | Some idx \<Rightarrow> ret (s\<lparr>cms_Records := delete_at idx (cms_Records s)\<rparr>))"

definition ContractStore_RemoteDelete :: "contract_metadata_key \<Rightarrow> contract_metadata_store \<Rightarrow> (ds_error, contract_metadata_store) eff" where
  "ContractStore_RemoteDelete key s =
     (let deletedKey = contractMetadataKey_String key in
      if deletedKey \<notin> set (cms_DeletedRemoteKeys s)
      then ret (s\<lparr>cms_DeletedRemoteKeys := cms_DeletedRemoteKeys s @ [deletedKey]\<rparr>)
      else ret s)"

definition contract_inv :: "contract_metadata_store \<Rightarrow> bool" where
  "contract_inv s \<longleftrightarrow> unique_keys contractMetadataKey_Equals ContractMetadata_Key (cms_Records s) \<and> distinct (cms_DeletedRemoteKeys s)"

definition contract_lookup :: "contract_metadata_store \<Rightarrow> contract_metadata_key \<Rightarrow> contract_metadata option" where
  "contract_lookup s = find_rec contractMetadataKey_Equals ContractMetadata_Key (cms_Records s)"

lemma contract_key_equals [simp]: "contractMetadataKey_Equals a b \<longleftrightarrow> a = b"
  by (auto simp: contractMetadataKey_Equals_def)

lemma contract_equivp: "equivp contractMetadataKey_Equals"
  by (rule equivpI) (auto intro: reflpI sympI transpI)

lemma contract_indexOf_None: "ContractStore_indexOf key s = None \<longleftrightarrow> contract_lookup s key = None"
  by (simp add: ContractStore_indexOf_def contract_lookup_def find_rec_index)

lemma contract_inv_new [simp]: "contract_inv NewMemoryContractMetadataStore"
  by (simp add: contract_inv_def NewMemoryContractMetadataStore_def)

lemma ContractStore_Get_lookup:
  "ContractStore_Get key s =
     (case contract_lookup s key of None \<Rightarrow> Inl ErrContractMetadataNotFound | Some r \<Rightarrow> ContractMetadata_Clone r)"
  by (simp add: ContractStore_Get_def ContractStore_indexOf_def contract_lookup_def find_rec_index del: contract_key_equals
      split: option.split)

lemma contract_upsert_law:
  assumes "contract_inv s"
  shows "\<exists>s'. ContractStore_Upsert r s = (None, s') \<and> contract_inv s' \<and>
    cms_DeletedRemoteKeys s' = remove1 (contractMetadataKey_String (ContractMetadata_Key r)) (cms_DeletedRemoteKeys s) \<and>
    contract_lookup s' = (\<lambda>k. if contractMetadataKey_Equals (ContractMetadata_Key r) k then Some r else contract_lookup s k)"
proof (cases "ContractStore_indexOf (ContractMetadata_Key r) s")
  case None
  then have idx: "index_where (\<lambda>x. contractMetadataKey_Equals (ContractMetadata_Key x) (ContractMetadata_Key r)) (cms_Records s) = None"
    by (simp add: ContractStore_indexOf_def)
  then have "\<forall>x \<in> set (cms_Records s). \<not> contractMetadataKey_Equals (ContractMetadata_Key x) (ContractMetadata_Key r)"
    by (simp add: index_where_None)
  note append = store_append [OF contract_equivp _ this]
  show ?thesis
    using assms idx append
    by (simp add: ContractStore_Upsert_def ContractStore_indexOf_def Let_def ret_def contract_inv_def contract_lookup_def
        deleteFromSlice_remove1 distinct_remove1 del: contract_key_equals cong: if_cong)
next
  case (Some i)
  then have idx: "index_where (\<lambda>x. contractMetadataKey_Equals (ContractMetadata_Key x) (ContractMetadata_Key r)) (cms_Records s) = Some i"
    by (simp add: ContractStore_indexOf_def)
  note replace = store_replace [OF contract_equivp _ idx]
  show ?thesis
    using assms idx replace
    by (simp add: ContractStore_Upsert_def ContractStore_indexOf_def Let_def ret_def contract_inv_def contract_lookup_def
        deleteFromSlice_remove1 distinct_remove1 del: contract_key_equals cong: if_cong)
qed

lemma contract_add_new_law:
  assumes "contract_lookup s (ContractMetadata_Key r) = None"
  shows "ContractStore_Add r s = ContractStore_Upsert r s"
  using assms contract_indexOf_None [of "ContractMetadata_Key r" s]
  by (simp add: ContractStore_Add_def ContractStore_Upsert_def ContractStore_indexOf_def Let_def del: contract_key_equals)

lemma contract_update_old_law:
  assumes "contract_lookup s (ContractMetadata_Key r) \<noteq> None"
  shows "ContractStore_Update r s = ContractStore_Upsert r s"
proof -
  obtain i where "ContractStore_indexOf (ContractMetadata_Key r) s = Some i"
    using assms contract_indexOf_None [of "ContractMetadata_Key r" s] by auto
  then show ?thesis
    by (simp add: ContractStore_Update_def ContractStore_Upsert_def ContractStore_indexOf_def Let_def del: contract_key_equals)
qed

lemma contract_delete_law:
  assumes "contract_inv s" "contract_lookup s k \<noteq> None"
  shows "\<exists>s'. ContractStore_Delete k s = (None, s') \<and> contract_inv s' \<and>
    cms_DeletedRemoteKeys s' = cms_DeletedRemoteKeys s \<and>
    contract_lookup s' = (\<lambda>j. if contractMetadataKey_Equals k j then None else contract_lookup s j)"
proof -
  obtain i where i: "ContractStore_indexOf k s = Some i"
    using assms(2) contract_indexOf_None [of k s] by auto
  then have idx: "index_where (\<lambda>x. contractMetadataKey_Equals (ContractMetadata_Key x) k) (cms_Records s) = Some i"
    by (simp add: ContractStore_indexOf_def)
  note del = store_delete [OF contract_equivp _ idx]
  show ?thesis
    using assms(1) i del
    by (simp add: ContractStore_Delete_def ret_def contract_inv_def contract_lookup_def del: contract_key_equals cong: if_cong)
qed

interpretation contract_records: keyed_store
  ContractMetadata_Key "\<lambda>_::unit. contractMetadataKey_Equals" "\<lambda>_ k. Some (contractMetadataKey_String k)" "\<lambda>_. True" "\<lambda>_. True"
  "\<lambda>_. contract_inv" "\<lambda>_. contract_lookup" cms_DeletedRemoteKeys
  "\<lambda>_. ContractStore_Add" "\<lambda>_. ContractStore_Upsert" "\<lambda>_. ContractStore_Update" "\<lambda>_. ContractStore_Delete" "\<lambda>_. ContractStore_RemoteDelete"
  ErrContractMetadataNotFound ErrContractMetadataExists
proof (unfold_locales, goal_cases)
  case 1 show ?case by (rule contract_equivp)
next
  case 2 then show ?case by simp
next
  case 3 then show ?case by (simp add: contract_inv_def)
next
  case 4 then show ?case by simp
next
  case (5 env s r dk) then show ?case using contract_upsert_law [of s r] by simp
next
  case 6 then show ?case by (simp add: contract_add_new_law)
next
  case (7 env s r)
  then show ?case by (simp add: ContractStore_Add_def fail_def contract_indexOf_None)
next
  case 8 then show ?case by (simp add: contract_update_old_law)
next
  case (9 env s r)
  then show ?case
    using contract_indexOf_None [of "ContractMetadata_Key r" s] by (simp add: ContractStore_Update_def fail_def)
next
  case (10 env s k) then show ?case using contract_delete_law [of s k] by simp
next
  case (11 env s k)
  then show ?case
    using contract_indexOf_None [of k s] by (simp add: ContractStore_Delete_def fail_def)
next
  case (12 env s k dk)
  then show ?case
    by (auto simp: ContractStore_RemoteDelete_def Let_def ret_def contract_inv_def contract_lookup_def stage_def)
qed

lemma contract_clone_all_Inr:
  "contract_clone_all rs = Inr cs \<Longrightarrow> list_all2 (\<lambda>r c. ContractMetadata_Clone r = Inr c) rs cs"
  by (induction rs arbitrary: cs) (auto split: sum.splits)

lemma contract_clone_all_total:
  "\<forall>r \<in> set rs. \<exists>c. ContractMetadata_Clone r = Inr c \<Longrightarrow> \<exists>cs. contract_clone_all rs = Inr cs"
  by (induction rs) (auto split: sum.splits)

lemma contract_clone_all_error:
  "contract_clone_all rs = Inl e \<Longrightarrow> \<exists>r \<in> set rs. ContractMetadata_Clone r = Inl e"
  by (induction rs) (auto split: sum.splits)

lemma contract_clone_all_keys:
  "contract_clone_all rs = Inr cs \<Longrightarrow> map ContractMetadata_Key cs = map ContractMetadata_Key rs"
  by (induction rs arbitrary: cs) (auto simp: ContractMetadata_Clone_key split: sum.splits)

section \<open>Environment metadata\<close>

record env_metadata =
  em_Metadata :: goval

definition EnvMetadata_Clone :: "env_metadata \<Rightarrow> ds_error + env_metadata" where
  "EnvMetadata_Clone r =
     (case json_clone (em_Metadata r) of
        None \<Rightarrow> Inl ErrClone
      | Some metaClone \<Rightarrow> Inr \<lparr>em_Metadata = metaClone\<rparr>)"

record env_store =
  es_Record :: "env_metadata option"

definition NewMemoryEnvMetadataStore :: "env_store" where
  "NewMemoryEnvMetadataStore = \<lparr>es_Record = None\<rparr>"

definition EnvStore_Get :: "env_store \<Rightarrow> ds_error + env_metadata" where
  "EnvStore_Get s =
     (case es_Record s of
        None \<Rightarrow> Inl ErrEnvMetadataNotSet
      | Some record \<Rightarrow> EnvMetadata_Clone record)"

definition EnvStore_Set :: "env_metadata \<Rightarrow> env_store \<Rightarrow> (ds_error, env_store) eff" where
  "EnvStore_Set record s = ret (s\<lparr>es_Record := Some record\<rparr>)"

lemma EnvStore_Get_Set: "EnvStore_Get (snd (EnvStore_Set r s)) = EnvMetadata_Clone r"
  by (simp add: EnvStore_Get_def EnvStore_Set_def)

end
