(* ===== verification/Data_Store.thy ===== *)
theory Data_Store
  imports Address_Query Metadata_Stores
begin

text \<open>
  The in-memory data store, which bundles the four stores (\<open>datastore/memory\_datastore.go\<close>),
  and the writing of a bundle of records to it (\<open>datastore/write\_metadata.go\<close>). The loops of
  \<open>Merge\<close> are verified against the contract of Store\_Spec. The other store of a merge is a
  different object; its sub-stores are the memory stores, as they are for a sealed store.
\<close>

section \<open>The store\<close>

record 'v memory_data_store =
  ds_Addresses :: "'v address_store"
  ds_Chains :: chain_metadata_store
  ds_Contracts :: contract_metadata_store
  ds_Env :: env_store

definition NewMemoryDataStore :: "'v memory_data_store" where
  "NewMemoryDataStore =
     \<lparr>ds_Addresses = NewMemoryAddressRefStore, ds_Chains = NewMemoryChainMetadataStore,
      ds_Contracts = NewMemoryContractMetadataStore, ds_Env = NewMemoryEnvMetadataStore\<rparr>"

text \<open>The sealed store has the same four fields, and no method that mutates them.\<close>

definition Seal :: "'v memory_data_store \<Rightarrow> 'v memory_data_store" where
  "Seal s =
     \<lparr>ds_Addresses = ds_Addresses s, ds_Chains = ds_Chains s,
      ds_Contracts = ds_Contracts s, ds_Env = ds_Env s\<rparr>"

definition on_addresses ::
  "('v address_store \<Rightarrow> (ds_error, 'v address_store) eff) \<Rightarrow>
   'v memory_data_store \<Rightarrow> (ds_error, 'v memory_data_store) eff" where
  "on_addresses = on_field ds_Addresses (\<lambda>t s. s\<lparr>ds_Addresses := t\<rparr>)"

definition on_chains ::
  "(chain_metadata_store \<Rightarrow> (ds_error, chain_metadata_store) eff) \<Rightarrow>
   'v memory_data_store \<Rightarrow> (ds_error, 'v memory_data_store) eff" where
  "on_chains = on_field ds_Chains (\<lambda>t s. s\<lparr>ds_Chains := t\<rparr>)"

definition on_contracts ::
  "(contract_metadata_store \<Rightarrow> (ds_error, contract_metadata_store) eff) \<Rightarrow>
   'v memory_data_store \<Rightarrow> (ds_error, 'v memory_data_store) eff" where
  "on_contracts = on_field ds_Contracts (\<lambda>t s. s\<lparr>ds_Contracts := t\<rparr>)"

definition on_env ::
  "(env_store \<Rightarrow> (ds_error, env_store) eff) \<Rightarrow>
   'v memory_data_store \<Rightarrow> (ds_error, 'v memory_data_store) eff" where
  "on_env = on_field ds_Env (\<lambda>t s. s\<lparr>ds_Env := t\<rparr>)"

lemmas on_part_defs = on_addresses_def on_chains_def on_contracts_def on_env_def on_field_def

section \<open>Merge\<close>

text \<open>Each of the four parts of \<open>Merge\<close> works on one sub-store.\<close>

definition merge_addresses ::
  "'v semver \<Rightarrow> 'v address_store \<Rightarrow> 'v address_store \<Rightarrow> (ds_error, 'v address_store) eff" where
  "merge_addresses sv other s =
     and_then (for_each (AddressRefStore_Upsert sv) (AddressRefStore_Fetch other) s)
       (for_each (\<lambda>dk s.
          case NewAddressRefKeyFromString sv dk of
            Inl e \<Rightarrow> fail e s
          | Inr key \<Rightarrow> propagate_delete (AddressRefStore_RemoteDelete sv) (AddressRefStore_Delete sv)
              ErrAddressRefNotFound key s)
          (as_DeletedRemoteKeys other))"

definition merge_chains ::
  "chain_metadata_store \<Rightarrow> chain_metadata_store \<Rightarrow> (ds_error, chain_metadata_store) eff" where
  "merge_chains other s =
     (case ChainStore_Fetch other of
        Inl e \<Rightarrow> fail e s
      | Inr records \<Rightarrow>
          and_then (for_each ChainStore_Upsert records s)
            (for_each (\<lambda>dk s.
               case NewChainMetadataKeyFromString dk of
                 Inl e \<Rightarrow> fail e s
               | Inr key \<Rightarrow> propagate_delete ChainStore_RemoteDelete ChainStore_Delete
                   ErrChainMetadataNotFound key s)
               (hms_DeletedRemoteKeys other)))"

definition merge_contracts ::
  "contract_metadata_store \<Rightarrow> contract_metadata_store \<Rightarrow> (ds_error, contract_metadata_store) eff" where
  "merge_contracts other s =
     (case ContractStore_Fetch other of
        Inl e \<Rightarrow> fail e s
      | Inr records \<Rightarrow>
          and_then (for_each ContractStore_Upsert records s)
            (for_each (\<lambda>dk s.
               case NewContractMetadataKeyFromString dk of
                 Inl e \<Rightarrow> fail e s
               | Inr key \<Rightarrow> propagate_delete ContractStore_RemoteDelete ContractStore_Delete
                   ErrContractMetadataNotFound key s)
               (cms_DeletedRemoteKeys other)))"

definition merge_env :: "env_store \<Rightarrow> env_store \<Rightarrow> (ds_error, env_store) eff" where
  "merge_env other s =
     (case EnvStore_Get other of
        Inl e \<Rightarrow> if e = ErrEnvMetadataNotSet then ret s else fail e s
      | Inr envMetadata \<Rightarrow> EnvStore_Set envMetadata s)"

definition MemoryDataStore_Merge ::
  "'v semver \<Rightarrow> 'v memory_data_store \<Rightarrow> 'v memory_data_store \<Rightarrow> (ds_error, 'v memory_data_store) eff" where
  "MemoryDataStore_Merge sv other s =
     and_then (on_addresses (merge_addresses sv (ds_Addresses other)) s) (\<lambda>s.
     and_then (on_chains (merge_chains (ds_Chains other)) s) (\<lambda>s.
     and_then (on_contracts (merge_contracts (ds_Contracts other)) s) (\<lambda>s.
     on_env (merge_env (ds_Env other)) s)))"

section \<open>Writing a bundle\<close>

record 'v metadata_bundle =
  mb_Addresses :: "'v address_ref list"
  mb_Contracts :: "contract_metadata list"
  mb_Chains :: "chain_metadata list"
  mb_Env :: "env_metadata option"

datatype addressRefWriteMode = addressRefWriteAdd | addressRefWriteUpsert

definition WithUpsertAddressRefs :: "addressRefWriteMode \<Rightarrow> addressRefWriteMode" where
  "WithUpsertAddressRefs cfg = addressRefWriteUpsert"

definition applyWriteMetadataOptions ::
  "(addressRefWriteMode \<Rightarrow> addressRefWriteMode) list \<Rightarrow> addressRefWriteMode" where
  "applyWriteMetadataOptions opts = fold (\<lambda>opt cfg. opt cfg) opts addressRefWriteAdd"

definition WriteMetadataToDataStore ::
  "'v semver \<Rightarrow> 'v metadata_bundle \<Rightarrow> (addressRefWriteMode \<Rightarrow> addressRefWriteMode) list \<Rightarrow>
   'v memory_data_store \<Rightarrow> (ds_error, 'v memory_data_store) eff" where
  "WriteMetadataToDataStore sv bundle opts ds =
     (let cfg = applyWriteMetadataOptions opts in
      and_then (for_each (\<lambda>ref.
          case cfg of
            addressRefWriteAdd \<Rightarrow> on_addresses (AddressRefStore_Add sv ref)
          | addressRefWriteUpsert \<Rightarrow> on_addresses (AddressRefStore_Upsert sv ref)) (mb_Addresses bundle) ds) (\<lambda>ds.
      and_then (for_each (\<lambda>contract. on_contracts (ContractStore_Upsert contract)) (mb_Contracts bundle) ds) (\<lambda>ds.
      and_then (for_each (\<lambda>chain. on_chains (ChainStore_Upsert chain)) (mb_Chains bundle) ds) (\<lambda>ds.
      case mb_Env bundle of
        None \<Rightarrow> ret ds
      | Some env \<Rightarrow> on_env (EnvStore_Set env) ds))))"

lemma for_each_on_field:
  assumes "\<And>t s. get (put t s) = t" "\<And>t u s. put t (put u s) = put t s" "\<And>s. put (get s) s = s"
  shows "for_each (\<lambda>x. on_field get put (f x)) xs s = on_field get put (for_each f xs) s"
proof (induction xs arbitrary: s)
  case Nil
  then show ?case by (simp add: on_field_def assms)
next
  case (Cons x xs)
  obtain e t where "f x (get s) = (e, t)" by fastforce
  then show ?case
    using Cons.IH [of "put t s"] by (cases e) (auto simp: on_field_def assms split: prod.splits)
qed

lemma for_each_parts:
  "for_each (\<lambda>x. on_addresses (f x)) xs s = on_addresses (for_each f xs) s"
  "for_each (\<lambda>x. on_chains (g x)) ys s = on_chains (for_each g ys) s"
  "for_each (\<lambda>x. on_contracts (h x)) zs s = on_contracts (for_each h zs) s"
  by (simp_all add: on_addresses_def on_chains_def on_contracts_def for_each_on_field)

section \<open>What a merge does to each sub-store\<close>

definition staged_address_keys :: "'v semver \<Rightarrow> 'v address_store \<Rightarrow> 'v address_ref_key list" where
  "staged_address_keys sv s = map (\<lambda>dk. projr (NewAddressRefKeyFromString sv dk)) (as_DeletedRemoteKeys s)"

definition addresses_readable :: "'v semver \<Rightarrow> 'v address_store \<Rightarrow> bool" where
  "addresses_readable sv s \<longleftrightarrow> (\<forall>dk \<in> set (as_DeletedRemoteKeys s).
     case NewAddressRefKeyFromString sv dk of Inl e \<Rightarrow> False
     | Inr k \<Rightarrow> addressRefKey_String sv k = Some dk)"

text \<open>
  The specification of a merge of keyed stores: the keys \<open>D\<close> are removed, else a record of the
  other store \<open>m\<close> wins (copied by \<open>f\<close>), else the own record in \<open>n\<close> stays.
\<close>

definition overlay :: "('k \<Rightarrow> bool) \<Rightarrow> ('r \<Rightarrow> 'r) \<Rightarrow> ('k \<Rightarrow> 'r option) \<Rightarrow> ('k \<Rightarrow> 'r option) \<Rightarrow> 'k \<Rightarrow> 'r option" where
  "overlay D f m n =
     (\<lambda>k. if D k then None else case m k of Some r \<Rightarrow> Some (f r) | None \<Rightarrow> n k)"

definition restage :: "string set \<Rightarrow> string set \<Rightarrow> string set \<Rightarrow> string set" where
  "restage records other own = own - records \<union> other"

lemma overlay_idem: "overlay D f m (overlay D f m n) = overlay D f m n"
  by (auto simp: overlay_def fun_eq_iff split: option.split)

lemma restage_idem: "restage R D (restage R D S) = restage R D S"
  by (auto simp: restage_def)

definition address_strings :: "'v semver \<Rightarrow> 'v address_store \<Rightarrow> string set" where
  "address_strings sv s = (\<lambda>r. the (addressRefKey_String sv (AddressRef_Key r))) ` set (as_Records s)"

definition chain_strings :: "chain_metadata_store \<Rightarrow> string set" where
  "chain_strings s = (\<lambda>r. chainMetadataKey_String (ChainMetadata_Key r)) ` set (hms_Records s)"

definition contract_strings :: "contract_metadata_store \<Rightarrow> string set" where
  "contract_strings s = (\<lambda>r. contractMetadataKey_String (ContractMetadata_Key r)) ` set (cms_Records s)"

text \<open>Strings that a parser reads, and that the key it returns prints.\<close>

lemma readable_keys:
  assumes "\<forall>dk \<in> set dks. case parse dk of Inl e \<Rightarrow> False | Inr k \<Rightarrow> print k = Some dk"
  shows "\<forall>dk \<in> set dks. parse dk = Inr (projr (parse dk))"
    and "\<forall>k \<in> set (map (\<lambda>dk. projr (parse dk)) dks). print k \<noteq> None"
    and "(\<lambda>k. the (print k)) ` set (map (\<lambda>dk. projr (parse dk)) dks) = set dks"
proof -
  have one: "parse dk = Inr (projr (parse dk)) \<and> print (projr (parse dk)) = Some dk" if "dk \<in> set dks" for dk
    using assms that by (cases "parse dk") auto
  then show "\<forall>dk \<in> set dks. parse dk = Inr (projr (parse dk))" by blast
  show "\<forall>k \<in> set (map (\<lambda>dk. projr (parse dk)) dks). print k \<noteq> None"
    by (simp add: one [THEN conjunct2])
  have "(\<lambda>dk. the (print (projr (parse dk)))) ` set dks = (\<lambda>dk. dk) ` set dks"
    by (rule image_cong) (simp_all add: one [THEN conjunct2])
  then show "(\<lambda>k. the (print k)) ` set (map (\<lambda>dk. projr (parse dk)) dks) = set dks"
    by (simp add: image_image)
qed

lemma merge_addresses_law:
  assumes sv: "semver_ok sv" and "address_inv sv other" "address_inv sv s" "addresses_readable sv other"
  shows "\<exists>s'. merge_addresses sv other s = (None, s') \<and> address_inv sv s' \<and>
    set (as_DeletedRemoteKeys s') =
      restage (address_strings sv other) (set (as_DeletedRemoteKeys other)) (set (as_DeletedRemoteKeys s)) \<and>
    address_lookup sv s' =
      overlay (\<lambda>k. \<exists>d \<in> set (staged_address_keys sv other). addressRefKey_Equals sv d k)
        id (address_lookup sv other) (address_lookup sv s)"
proof -
  let ?ks = "staged_address_keys sv other"
  have ok: "\<forall>r \<in> set (as_Records other). ar_Version r \<noteq> None"
    and uniq: "unique_keys (addressRefKey_Equals sv) AddressRef_Key (as_Records other)"
    using assms(2) by (auto simp: address_inv_def)
  obtain s1 where s1: "for_each (AddressRefStore_Upsert sv) (as_Records other) s = (None, s1)"
      "address_inv sv s1"
      "set (as_DeletedRemoteKeys s1) = set (as_DeletedRemoteKeys s) -
        (\<lambda>r. the (addressRefKey_String sv (AddressRef_Key r))) ` set (as_Records other)"
      "address_lookup sv s1 = (\<lambda>k. case find_rec (addressRefKey_Equals sv) AddressRef_Key (rev (as_Records other)) k of
        Some r \<Rightarrow> Some r | None \<Rightarrow> address_lookup sv s k)"
    using address_refs.upsert_many [OF sv assms(3) ok] by blast
  note parsed = readable_keys [OF assms(4) [unfolded addresses_readable_def], folded staged_address_keys_def]
  obtain s2 where s2: "for_each (propagate_delete (AddressRefStore_RemoteDelete sv)
        (AddressRefStore_Delete sv) ErrAddressRefNotFound) ?ks s1 = (None, s2)" "address_inv sv s2"
      "set (as_DeletedRemoteKeys s2) = set (as_DeletedRemoteKeys s1) \<union> (\<lambda>k. the (addressRefKey_String sv k)) ` set ?ks"
      "address_lookup sv s2 = (\<lambda>j. if \<exists>k \<in> set ?ks. addressRefKey_Equals sv k j then None
         else address_lookup sv s1 j)"
    using address_refs.propagate_many [OF sv s1(2) parsed(2)] by blast
  have "merge_addresses sv other s = (None, s2)"
    using s1(1) s2(1) for_each_parsed [OF parsed(1), of "propagate_delete (AddressRefStore_RemoteDelete sv) (AddressRefStore_Delete sv) ErrAddressRefNotFound"]
    by (simp add: merge_addresses_def staged_address_keys_def)
  then show ?thesis
    using s1 s2 parsed(3) find_rec_rev [OF addressRefKey_equivp [OF sv] uniq]
    by (auto simp: address_lookup_def overlay_def restage_def address_strings_def fun_eq_iff split: option.split)
qed


text \<open>Chain metadata: the records that arrive are copies.\<close>

definition chain_copy :: "chain_metadata \<Rightarrow> chain_metadata" where
  "chain_copy r = (case ChainMetadata_Clone r of Inl e \<Rightarrow> r | Inr c \<Rightarrow> c)"

definition staged_chain_keys :: "chain_metadata_store \<Rightarrow> chain_metadata_key list" where
  "staged_chain_keys s = map (\<lambda>dk. projr (NewChainMetadataKeyFromString dk)) (hms_DeletedRemoteKeys s)"

definition chains_readable :: "chain_metadata_store \<Rightarrow> bool" where
  "chains_readable s \<longleftrightarrow> (\<forall>dk \<in> set (hms_DeletedRemoteKeys s).
     case NewChainMetadataKeyFromString dk of Inl e \<Rightarrow> False
     | Inr k \<Rightarrow> Some (chainMetadataKey_String k) = Some dk)"

lemma chain_copy_key: "ChainMetadata_Key (chain_copy r) = ChainMetadata_Key r"
  by (auto simp: chain_copy_def ChainMetadata_Clone_key split: sum.splits)

lemma chain_clone_all_copies: "chain_clone_all rs = Inr cs \<Longrightarrow> cs = map chain_copy rs"
  by (induction rs arbitrary: cs) (auto simp: chain_copy_def split: sum.splits)

lemma find_rec_chain_copy:
  "find_rec eq ChainMetadata_Key (map chain_copy rs) k = map_option chain_copy (find_rec eq ChainMetadata_Key rs k)"
  by (induction rs) (auto simp: chain_copy_key)

lemma merge_chains_law:
  assumes "chain_inv other" "chain_inv s" "chains_readable other" "ChainStore_Fetch other = Inr fetched"
  shows "\<exists>s'. merge_chains other s = (None, s') \<and> chain_inv s' \<and>
    set (hms_DeletedRemoteKeys s') =
      restage (chain_strings other) (set (hms_DeletedRemoteKeys other)) (set (hms_DeletedRemoteKeys s)) \<and>
    chain_lookup s' =
      overlay (\<lambda>k. k \<in> set (staged_chain_keys other)) chain_copy (chain_lookup other) (chain_lookup s)"
proof -
  let ?ks = "staged_chain_keys other"
  have fetched: "fetched = map chain_copy (hms_Records other)"
    using assms(4) by (simp add: ChainStore_Fetch_def chain_clone_all_copies)
  have "unique_keys chainMetadataKey_Equals ChainMetadata_Key (hms_Records other)"
    using assms(1) by (simp add: chain_inv_def)
  then have uniq: "unique_keys chainMetadataKey_Equals ChainMetadata_Key fetched"
    by (simp add: fetched unique_keys_def sorted_wrt_map chain_copy_key)
  obtain s1 where s1: "for_each ChainStore_Upsert fetched s = (None, s1)" "chain_inv s1"
      "set (hms_DeletedRemoteKeys s1) = set (hms_DeletedRemoteKeys s) -
        (\<lambda>r. chainMetadataKey_String (ChainMetadata_Key r)) ` set fetched"
      "chain_lookup s1 = (\<lambda>k. case find_rec chainMetadataKey_Equals ChainMetadata_Key (rev fetched) k of
        Some r \<Rightarrow> Some r | None \<Rightarrow> chain_lookup s k)"
    using chain_records.upsert_many [OF _ assms(2), of fetched] by auto
  note parsed = readable_keys [OF assms(3) [unfolded chains_readable_def], folded staged_chain_keys_def]
  obtain s2 where s2: "for_each (propagate_delete ChainStore_RemoteDelete
        ChainStore_Delete ErrChainMetadataNotFound) ?ks s1 = (None, s2)" "chain_inv s2"
      "set (hms_DeletedRemoteKeys s2) = set (hms_DeletedRemoteKeys s1) \<union> chainMetadataKey_String ` set ?ks"
      "chain_lookup s2 = (\<lambda>j. if \<exists>k \<in> set ?ks. chainMetadataKey_Equals k j then None else chain_lookup s1 j)"
    using chain_records.propagate_many [OF _ s1(2), of ?ks] by auto
  have "merge_chains other s = (None, s2)"
    using s1(1) s2(1) for_each_parsed [OF parsed(1), of "propagate_delete ChainStore_RemoteDelete ChainStore_Delete ErrChainMetadataNotFound"] assms(4)
    by (simp add: merge_chains_def staged_chain_keys_def)
  moreover have "find_rec chainMetadataKey_Equals ChainMetadata_Key (rev fetched) k =
      map_option chain_copy (chain_lookup other k)" for k
    by (rule trans [OF find_rec_rev [OF chain_equivp uniq]]) (simp add: fetched find_rec_chain_copy chain_lookup_def)
  moreover have "(\<lambda>r. chainMetadataKey_String (ChainMetadata_Key r)) ` set fetched =
      (\<lambda>r. chainMetadataKey_String (ChainMetadata_Key r)) ` set (hms_Records other)"
    by (auto simp: fetched chain_copy_key image_image)
  ultimately show ?thesis
    using s1 s2 parsed(3) by (auto simp: overlay_def restage_def chain_strings_def fun_eq_iff split: option.split)
qed

text \<open>Contract metadata: the records that arrive are copies.\<close>

definition contract_copy :: "contract_metadata \<Rightarrow> contract_metadata" where
  "contract_copy r = (case ContractMetadata_Clone r of Inl e \<Rightarrow> r | Inr c \<Rightarrow> c)"

definition staged_contract_keys :: "contract_metadata_store \<Rightarrow> contract_metadata_key list" where
  "staged_contract_keys s = map (\<lambda>dk. projr (NewContractMetadataKeyFromString dk)) (cms_DeletedRemoteKeys s)"

definition contracts_readable :: "contract_metadata_store \<Rightarrow> bool" where
  "contracts_readable s \<longleftrightarrow> (\<forall>dk \<in> set (cms_DeletedRemoteKeys s).
     case NewContractMetadataKeyFromString dk of Inl e \<Rightarrow> False
     | Inr k \<Rightarrow> Some (contractMetadataKey_String k) = Some dk)"

lemma contract_copy_key: "ContractMetadata_Key (contract_copy r) = ContractMetadata_Key r"
  by (auto simp: contract_copy_def ContractMetadata_Clone_key split: sum.splits)

lemma contract_clone_all_copies: "contract_clone_all rs = Inr cs \<Longrightarrow> cs = map contract_copy rs"
  by (induction rs arbitrary: cs) (auto simp: contract_copy_def split: sum.splits)

lemma find_rec_contract_copy:
  "find_rec eq ContractMetadata_Key (map contract_copy rs) k = map_option contract_copy (find_rec eq ContractMetadata_Key rs k)"
  by (induction rs) (auto simp: contract_copy_key)

lemma merge_contracts_law:
  assumes "contract_inv other" "contract_inv s" "contracts_readable other" "ContractStore_Fetch other = Inr fetched"
  shows "\<exists>s'. merge_contracts other s = (None, s') \<and> contract_inv s' \<and>
    set (cms_DeletedRemoteKeys s') =
      restage (contract_strings other) (set (cms_DeletedRemoteKeys other)) (set (cms_DeletedRemoteKeys s)) \<and>
    contract_lookup s' =
      overlay (\<lambda>k. k \<in> set (staged_contract_keys other)) contract_copy (contract_lookup other) (contract_lookup s)"
proof -
  let ?ks = "staged_contract_keys other"
  have fetched: "fetched = map contract_copy (cms_Records other)"
    using assms(4) by (simp add: ContractStore_Fetch_def contract_clone_all_copies)
  have "unique_keys contractMetadataKey_Equals ContractMetadata_Key (cms_Records other)"
    using assms(1) by (simp add: contract_inv_def)
  then have uniq: "unique_keys contractMetadataKey_Equals ContractMetadata_Key fetched"
    by (simp add: fetched unique_keys_def sorted_wrt_map contract_copy_key)
  obtain s1 where s1: "for_each ContractStore_Upsert fetched s = (None, s1)" "contract_inv s1"
      "set (cms_DeletedRemoteKeys s1) = set (cms_DeletedRemoteKeys s) -
        (\<lambda>r. contractMetadataKey_String (ContractMetadata_Key r)) ` set fetched"
      "contract_lookup s1 = (\<lambda>k. case find_rec contractMetadataKey_Equals ContractMetadata_Key (rev fetched) k of
        Some r \<Rightarrow> Some r | None \<Rightarrow> contract_lookup s k)"
    using contract_records.upsert_many [OF _ assms(2), of fetched] by auto
  note parsed = readable_keys [OF assms(3) [unfolded contracts_readable_def], folded staged_contract_keys_def]
  obtain s2 where s2: "for_each (propagate_delete ContractStore_RemoteDelete
        ContractStore_Delete ErrContractMetadataNotFound) ?ks s1 = (None, s2)" "contract_inv s2"
      "set (cms_DeletedRemoteKeys s2) = set (cms_DeletedRemoteKeys s1) \<union> contractMetadataKey_String ` set ?ks"
      "contract_lookup s2 = (\<lambda>j. if \<exists>k \<in> set ?ks. contractMetadataKey_Equals k j then None else contract_lookup s1 j)"
    using contract_records.propagate_many [OF _ s1(2), of ?ks] by auto
  have "merge_contracts other s = (None, s2)"
    using s1(1) s2(1) for_each_parsed [OF parsed(1), of "propagate_delete ContractStore_RemoteDelete ContractStore_Delete ErrContractMetadataNotFound"] assms(4)
    by (simp add: merge_contracts_def staged_contract_keys_def)
  moreover have "find_rec contractMetadataKey_Equals ContractMetadata_Key (rev fetched) k =
      map_option contract_copy (contract_lookup other k)" for k
    by (rule trans [OF find_rec_rev [OF contract_equivp uniq]]) (simp add: fetched find_rec_contract_copy contract_lookup_def)
  moreover have "(\<lambda>r. contractMetadataKey_String (ContractMetadata_Key r)) ` set fetched =
      (\<lambda>r. contractMetadataKey_String (ContractMetadata_Key r)) ` set (cms_Records other)"
    by (auto simp: fetched contract_copy_key image_image)
  ultimately show ?thesis
    using s1 s2 parsed(3) by (auto simp: overlay_def restage_def contract_strings_def fun_eq_iff split: option.split)
qed

section \<open>The whole store\<close>

definition data_store_inv :: "'v semver \<Rightarrow> 'v memory_data_store \<Rightarrow> bool" where
  "data_store_inv sv s \<longleftrightarrow>
     address_inv sv (ds_Addresses s) \<and> chain_inv (ds_Chains s) \<and> contract_inv (ds_Contracts s)"

definition data_store_readable :: "'v semver \<Rightarrow> 'v memory_data_store \<Rightarrow> bool" where
  "data_store_readable sv s \<longleftrightarrow>
     addresses_readable sv (ds_Addresses s) \<and> chains_readable (ds_Chains s) \<and> contracts_readable (ds_Contracts s)"

definition metadata_copyable :: "'v memory_data_store \<Rightarrow> bool" where
  "metadata_copyable s \<longleftrightarrow>
     (\<forall>r \<in> set (hms_Records (ds_Chains s)). json_clone (hm_Metadata r) \<noteq> None) \<and>
     (\<forall>r \<in> set (cms_Records (ds_Contracts s)). json_clone (cm_Metadata r) \<noteq> None) \<and>
     (case es_Record (ds_Env s) of None \<Rightarrow> True | Some r \<Rightarrow> json_clone (em_Metadata r) \<noteq> None)"

definition env_copy :: "env_metadata \<Rightarrow> env_metadata" where
  "env_copy r = (case EnvMetadata_Clone r of Inl e \<Rightarrow> r | Inr c \<Rightarrow> c)"

lemma copyable_fetch:
  assumes "metadata_copyable s"
  obtains cs ds where "ChainStore_Fetch (ds_Chains s) = Inr cs" "ContractStore_Fetch (ds_Contracts s) = Inr ds"
proof -
  have "\<forall>r \<in> set (hms_Records (ds_Chains s)). \<exists>c. ChainMetadata_Clone r = Inr c"
    and "\<forall>r \<in> set (cms_Records (ds_Contracts s)). \<exists>c. ContractMetadata_Clone r = Inr c"
    using assms by (auto simp: metadata_copyable_def ChainMetadata_Clone_def ContractMetadata_Clone_def)
  then show ?thesis
    using that chain_clone_all_total contract_clone_all_total
    unfolding ChainStore_Fetch_def ContractStore_Fetch_def by blast
qed

lemma merge_env_law:
  assumes "case es_Record other of None \<Rightarrow> True | Some r \<Rightarrow> json_clone (em_Metadata r) \<noteq> None"
  shows "merge_env other s = (None, \<lparr>es_Record =
    (case es_Record other of None \<Rightarrow> es_Record s | Some r \<Rightarrow> Some (env_copy r))\<rparr>)"
  using assms
  by (auto simp: merge_env_def EnvStore_Get_def EnvStore_Set_def EnvMetadata_Clone_def env_copy_def ret_def
      split: option.splits)

lemma merge_law:
  assumes "semver_ok sv" "data_store_inv sv other" "data_store_inv sv s"
    and "data_store_readable sv other" "metadata_copyable other"
  shows "\<exists>s'. MemoryDataStore_Merge sv other s = (None, s') \<and> data_store_inv sv s' \<and>
    address_lookup sv (ds_Addresses s') =
      overlay (\<lambda>k. \<exists>d \<in> set (staged_address_keys sv (ds_Addresses other)). addressRefKey_Equals sv d k)
        id (address_lookup sv (ds_Addresses other)) (address_lookup sv (ds_Addresses s)) \<and>
    chain_lookup (ds_Chains s') =
      overlay (\<lambda>k. k \<in> set (staged_chain_keys (ds_Chains other)))
        chain_copy (chain_lookup (ds_Chains other)) (chain_lookup (ds_Chains s)) \<and>
    contract_lookup (ds_Contracts s') =
      overlay (\<lambda>k. k \<in> set (staged_contract_keys (ds_Contracts other)))
        contract_copy (contract_lookup (ds_Contracts other)) (contract_lookup (ds_Contracts s)) \<and>
    set (as_DeletedRemoteKeys (ds_Addresses s')) =
      restage (address_strings sv (ds_Addresses other)) (set (as_DeletedRemoteKeys (ds_Addresses other)))
        (set (as_DeletedRemoteKeys (ds_Addresses s))) \<and>
    set (hms_DeletedRemoteKeys (ds_Chains s')) =
      restage (chain_strings (ds_Chains other)) (set (hms_DeletedRemoteKeys (ds_Chains other)))
        (set (hms_DeletedRemoteKeys (ds_Chains s))) \<and>
    set (cms_DeletedRemoteKeys (ds_Contracts s')) =
      restage (contract_strings (ds_Contracts other)) (set (cms_DeletedRemoteKeys (ds_Contracts other)))
        (set (cms_DeletedRemoteKeys (ds_Contracts s))) \<and>
    es_Record (ds_Env s') =
      (case es_Record (ds_Env other) of None \<Rightarrow> es_Record (ds_Env s) | Some r \<Rightarrow> Some (env_copy r))"
proof -
  obtain cs ms where fetched: "ChainStore_Fetch (ds_Chains other) = Inr cs"
    "ContractStore_Fetch (ds_Contracts other) = Inr ms" using copyable_fetch [OF assms(5)] .
  have env: "case es_Record (ds_Env other) of None \<Rightarrow> True | Some r \<Rightarrow> json_clone (em_Metadata r) \<noteq> None"
    using assms(5) by (simp add: metadata_copyable_def)
  have invs: "address_inv sv (ds_Addresses other)" "chain_inv (ds_Chains other)" "contract_inv (ds_Contracts other)"
    "address_inv sv (ds_Addresses s)" "chain_inv (ds_Chains s)" "contract_inv (ds_Contracts s)"
    "addresses_readable sv (ds_Addresses other)" "chains_readable (ds_Chains other)"
    "contracts_readable (ds_Contracts other)"
    using assms(2-4) by (simp_all add: data_store_inv_def data_store_readable_def)
  obtain a where a: "merge_addresses sv (ds_Addresses other) (ds_Addresses s) = (None, a)" "address_inv sv a"
    "set (as_DeletedRemoteKeys a) = restage (address_strings sv (ds_Addresses other))
       (set (as_DeletedRemoteKeys (ds_Addresses other))) (set (as_DeletedRemoteKeys (ds_Addresses s)))"
    "address_lookup sv a = overlay (\<lambda>k. \<exists>d \<in> set (staged_address_keys sv (ds_Addresses other)). addressRefKey_Equals sv d k)
        id (address_lookup sv (ds_Addresses other)) (address_lookup sv (ds_Addresses s))"
    using merge_addresses_law [OF assms(1) invs(1,4,7)] by (elim exE conjE)
  obtain c where c: "merge_chains (ds_Chains other) (ds_Chains s) = (None, c)" "chain_inv c"
    "set (hms_DeletedRemoteKeys c) = restage (chain_strings (ds_Chains other))
       (set (hms_DeletedRemoteKeys (ds_Chains other))) (set (hms_DeletedRemoteKeys (ds_Chains s)))"
    "chain_lookup c = overlay (\<lambda>k. k \<in> set (staged_chain_keys (ds_Chains other)))
        chain_copy (chain_lookup (ds_Chains other)) (chain_lookup (ds_Chains s))"
    using merge_chains_law [OF invs(2,5,8) fetched(1)] by (elim exE conjE)
  obtain m where m: "merge_contracts (ds_Contracts other) (ds_Contracts s) = (None, m)" "contract_inv m"
    "set (cms_DeletedRemoteKeys m) = restage (contract_strings (ds_Contracts other))
       (set (cms_DeletedRemoteKeys (ds_Contracts other))) (set (cms_DeletedRemoteKeys (ds_Contracts s)))"
    "contract_lookup m = overlay (\<lambda>k. k \<in> set (staged_contract_keys (ds_Contracts other)))
        contract_copy (contract_lookup (ds_Contracts other)) (contract_lookup (ds_Contracts s))"
    using merge_contracts_law [OF invs(3,6,9) fetched(2)] by (elim exE conjE)
  show ?thesis
    unfolding MemoryDataStore_Merge_def on_part_defs data_store_inv_def
    by (simp add: merge_env_law [OF env] a c m split: option.split)
qed

text \<open>
  C1: A merge of a well-formed store whose staged keys can be read and whose metadata can be
  copied succeeds and keeps the invariants. Afterwards a key looks up as follows in each of the
  three keyed stores: a staged deletion of the other store removes it, whatever either store
  holds; else a record of the other store wins (metadata as its copy); else the own record stays.
  The environment record is replaced by a copy of the other one when the other store has one.
\<close>

theorem MemoryDataStore_Merge_lookup:
  assumes "semver_ok sv" "data_store_inv sv other" "data_store_inv sv s"
    and "data_store_readable sv other" "metadata_copyable other"
  shows "\<exists>s'. MemoryDataStore_Merge sv other s = (None, s') \<and> data_store_inv sv s' \<and>
    address_lookup sv (ds_Addresses s') = (\<lambda>k.
      if \<exists>d \<in> set (staged_address_keys sv (ds_Addresses other)). addressRefKey_Equals sv d k then None
      else case address_lookup sv (ds_Addresses other) k of
        Some r \<Rightarrow> Some r | None \<Rightarrow> address_lookup sv (ds_Addresses s) k) \<and>
    chain_lookup (ds_Chains s') = (\<lambda>k.
      if k \<in> set (staged_chain_keys (ds_Chains other)) then None
      else case chain_lookup (ds_Chains other) k of
        Some r \<Rightarrow> Some (chain_copy r) | None \<Rightarrow> chain_lookup (ds_Chains s) k) \<and>
    contract_lookup (ds_Contracts s') = (\<lambda>k.
      if k \<in> set (staged_contract_keys (ds_Contracts other)) then None
      else case contract_lookup (ds_Contracts other) k of
        Some r \<Rightarrow> Some (contract_copy r) | None \<Rightarrow> contract_lookup (ds_Contracts s) k) \<and>
    es_Record (ds_Env s') =
      (case es_Record (ds_Env other) of None \<Rightarrow> es_Record (ds_Env s) | Some r \<Rightarrow> Some (env_copy r))"
  using merge_law [OF assms] unfolding overlay_def id_apply by (elim exE conjE) (intro exI conjI; assumption)

definition example_other :: "nat memory_data_store" where
  "example_other = NewMemoryDataStore\<lparr>ds_Addresses := \<lparr>as_Records = [example_ref],
     as_DeletedRemoteKeys = [the (addressRefKey_String nat_semver (example_key ''x''))]\<rparr>\<rparr>"

lemma example_key_readable:
  "NewAddressRefKeyFromString nat_semver (the (addressRefKey_String nat_semver (example_key ''x''))) =
     Inr (example_key ''x'')"
proof -
  obtain dk where dk: "addressRefKey_String nat_semver (example_key ''x'') = Some dk"
    using example_key_String by blast
  show ?thesis
    using key_from_string [OF nat_semver_ok dk] by (auto simp: dk example_key_def NewAddressRefKey_def)
qed

lemma example_stores_ok:
  "data_store_inv nat_semver NewMemoryDataStore" "data_store_inv nat_semver example_other"
  "data_store_readable nat_semver example_other" "metadata_copyable example_other"
  "staged_address_keys nat_semver (ds_Addresses example_other) = [example_key ''x'']"
proof -
  show "data_store_inv nat_semver NewMemoryDataStore"
    by (simp add: data_store_inv_def NewMemoryDataStore_def)
  then show "data_store_inv nat_semver example_other"
    by (simp add: data_store_inv_def address_inv_def unique_keys_def example_ref_def example_other_def)
  show "data_store_readable nat_semver example_other"
    using example_key_String [of "''x''"]
    by (auto simp: data_store_readable_def addresses_readable_def chains_readable_def contracts_readable_def
        example_other_def example_key_readable NewMemoryDataStore_def NewMemoryChainMetadataStore_def
        NewMemoryContractMetadataStore_def)
  show "metadata_copyable example_other"
    by (simp add: metadata_copyable_def example_other_def NewMemoryDataStore_def NewMemoryChainMetadataStore_def
        NewMemoryContractMetadataStore_def NewMemoryEnvMetadataStore_def)
  show "staged_address_keys nat_semver (ds_Addresses example_other) = [example_key ''x'']"
    by (simp add: staged_address_keys_def example_other_def example_key_readable)
qed

lemma example_other_lookup:
  "address_lookup nat_semver (ds_Addresses example_other) (AddressRef_Key example_ref) = Some example_ref"
  "example_key ''x'' \<noteq> AddressRef_Key example_ref"
  by (simp_all add: address_lookup_def example_other_def example_key_def AddressRef_Key_def NewAddressRefKey_def
      example_ref_def)

theorem MemoryDataStore_Merge_lookup_witness:
  "\<exists>s'. MemoryDataStore_Merge nat_semver example_other NewMemoryDataStore = (None, s') \<and>
     address_lookup nat_semver (ds_Addresses s') (AddressRef_Key example_ref) = Some example_ref \<and>
     address_lookup nat_semver (ds_Addresses s') (example_key ''x'') = None"
  using MemoryDataStore_Merge_lookup [OF nat_semver_ok example_stores_ok(2,1,3,4)]
  by (auto simp: example_stores_ok(5) example_other_lookup example_other_lookup(2) [symmetric])

text \<open>A loop that succeeds has succeeded on every element.\<close>

lemma for_each_None_all:
  "fst (for_each f xs s) = None \<Longrightarrow> x \<in> set xs \<Longrightarrow> \<exists>u. fst (f x u) = None"
proof (induction xs arbitrary: s)
  case (Cons y ys)
  obtain e t where "f y s = (e, t)" by (cases "f y s")
  with Cons show ?case by (cases e) (auto intro: exI [of _ s])
qed simp

text \<open>
  A staged deletion of an address key whose type or qualifier has an underscore can never be
  merged: every merge from a store that has it staged returns an error.
\<close>

lemma Merge_of_underscored_key_fails:
  assumes "semver_ok sv" "addressRefKey_String sv k = Some dk"
    and "CHR ''_'' \<in> set (ak_contractType k) \<or> CHR ''_'' \<in> set (ak_qualifier k)"
    and "AddressRefStore_RemoteDelete sv k a = (None, a')" "ds_Addresses other = a'"
  shows "fst (MemoryDataStore_Merge sv other s) \<noteq> None"
proof
  assume ok: "fst (MemoryDataStore_Merge sv other s) = None"
  have staged: "dk \<in> set (as_DeletedRemoteKeys a')"
    using assms(2,4) by (auto simp: AddressRefStore_RemoteDelete_def ret_def split: if_splits)
  have "fst (merge_addresses sv a' (ds_Addresses s)) = None"
    using ok unfolding MemoryDataStore_Merge_def fst_and_then_None
    by (simp add: assms(5) on_part_defs split: prod.splits)
  then have "\<exists>t. fst (for_each (\<lambda>dk s.
          case NewAddressRefKeyFromString sv dk of
            Inl e \<Rightarrow> fail e s
          | Inr key \<Rightarrow> propagate_delete (AddressRefStore_RemoteDelete sv) (AddressRefStore_Delete sv)
              ErrAddressRefNotFound key s) (as_DeletedRemoteKeys a') t) = None"
    unfolding merge_addresses_def fst_and_then_None by blast
  then show False
    using for_each_None_all [OF _ staged] key_from_string_invalid [OF assms(1-3)] by fastforce
qed

lemma Merge_of_underscored_key_fails_witness:
  "fst (MemoryDataStore_Merge nat_semver (NewMemoryDataStore\<lparr>ds_Addresses :=
      snd (AddressRefStore_RemoteDelete nat_semver (example_key ''a_b'') NewMemoryAddressRefStore)\<rparr>)
    NewMemoryDataStore) \<noteq> None"
proof -
  obtain a' where a: "AddressRefStore_RemoteDelete nat_semver (example_key ''a_b'') NewMemoryAddressRefStore = (None, a')"
    using address_refs.remote_delete_law [of nat_semver NewMemoryAddressRefStore "example_key ''a_b''"]
      example_key_String [of "''a_b''"] by auto
  obtain dk where dk: "addressRefKey_String nat_semver (example_key ''a_b'') = Some dk"
    using example_key_String by blast
  have "CHR ''_'' \<in> set (ak_qualifier (example_key ''a_b''))"
    by (simp add: example_key_def NewAddressRefKey_def)
  then have "CHR ''_'' \<in> set (ak_contractType (example_key ''a_b'')) \<or>
      CHR ''_'' \<in> set (ak_qualifier (example_key ''a_b''))" by (rule disjI2)
  moreover have "ds_Addresses (NewMemoryDataStore\<lparr>ds_Addresses := a'\<rparr>) = a'" by simp
  ultimately show ?thesis
    unfolding a snd_conv by (rule Merge_of_underscored_key_fails [OF nat_semver_ok dk _ a])
qed

text \<open>
  Merging is idempotent: merging the same store a second time succeeds and changes neither
  what any key looks up to in any sub-store, nor the staged deletions, nor the environment record.
\<close>

lemma MemoryDataStore_Merge_idempotent:
  assumes "semver_ok sv" "data_store_inv sv other" "data_store_inv sv s"
    and "data_store_readable sv other" "metadata_copyable other"
  shows "\<exists>s1 s2. MemoryDataStore_Merge sv other s = (None, s1) \<and> MemoryDataStore_Merge sv other s1 = (None, s2) \<and>
    address_lookup sv (ds_Addresses s2) = address_lookup sv (ds_Addresses s1) \<and>
    chain_lookup (ds_Chains s2) = chain_lookup (ds_Chains s1) \<and>
    contract_lookup (ds_Contracts s2) = contract_lookup (ds_Contracts s1) \<and>
    set (as_DeletedRemoteKeys (ds_Addresses s2)) = set (as_DeletedRemoteKeys (ds_Addresses s1)) \<and>
    set (hms_DeletedRemoteKeys (ds_Chains s2)) = set (hms_DeletedRemoteKeys (ds_Chains s1)) \<and>
    set (cms_DeletedRemoteKeys (ds_Contracts s2)) = set (cms_DeletedRemoteKeys (ds_Contracts s1)) \<and>
    es_Record (ds_Env s2) = es_Record (ds_Env s1)"
proof -
  obtain s1 where s1: "MemoryDataStore_Merge sv other s = (None, s1)" and inv1: "data_store_inv sv s1"
    and eqs1: "address_lookup sv (ds_Addresses s1) =
      overlay (\<lambda>k. \<exists>d \<in> set (staged_address_keys sv (ds_Addresses other)). addressRefKey_Equals sv d k)
        id (address_lookup sv (ds_Addresses other)) (address_lookup sv (ds_Addresses s))"
    "chain_lookup (ds_Chains s1) = overlay (\<lambda>k. k \<in> set (staged_chain_keys (ds_Chains other)))
        chain_copy (chain_lookup (ds_Chains other)) (chain_lookup (ds_Chains s))"
    "contract_lookup (ds_Contracts s1) = overlay (\<lambda>k. k \<in> set (staged_contract_keys (ds_Contracts other)))
        contract_copy (contract_lookup (ds_Contracts other)) (contract_lookup (ds_Contracts s))"
    "set (as_DeletedRemoteKeys (ds_Addresses s1)) =
      restage (address_strings sv (ds_Addresses other)) (set (as_DeletedRemoteKeys (ds_Addresses other)))
        (set (as_DeletedRemoteKeys (ds_Addresses s)))"
    "set (hms_DeletedRemoteKeys (ds_Chains s1)) =
      restage (chain_strings (ds_Chains other)) (set (hms_DeletedRemoteKeys (ds_Chains other)))
        (set (hms_DeletedRemoteKeys (ds_Chains s)))"
    "set (cms_DeletedRemoteKeys (ds_Contracts s1)) =
      restage (contract_strings (ds_Contracts other)) (set (cms_DeletedRemoteKeys (ds_Contracts other)))
        (set (cms_DeletedRemoteKeys (ds_Contracts s)))"
    "es_Record (ds_Env s1) =
      (case es_Record (ds_Env other) of None \<Rightarrow> es_Record (ds_Env s) | Some r \<Rightarrow> Some (env_copy r))"
    using merge_law [OF assms] by (elim exE conjE)
  have env: "(case x of None \<Rightarrow> (case x of None \<Rightarrow> y | Some r \<Rightarrow> f r) | Some r \<Rightarrow> f r) =
      (case x of None \<Rightarrow> y | Some r \<Rightarrow> f r)" for x :: "env_metadata option" and y :: "env_metadata option" and f
    by (cases x) simp_all
  show ?thesis
    using merge_law [OF assms(1,2) inv1 assms(4,5)] s1
    unfolding eqs1 overlay_idem restage_idem env
    by (elim exE conjE) (rule exI [of _ s1], unfold eqs1, rule exI, intro conjI; assumption)
qed

lemma MemoryDataStore_Merge_idempotent_witness:
  "\<exists>s1 s2. MemoryDataStore_Merge nat_semver example_other NewMemoryDataStore = (None, s1) \<and>
     MemoryDataStore_Merge nat_semver example_other s1 = (None, s2) \<and>
     address_lookup nat_semver (ds_Addresses s2) = address_lookup nat_semver (ds_Addresses s1)"
  using MemoryDataStore_Merge_idempotent [OF nat_semver_ok example_stores_ok(2,1,3,4)] by blast

section \<open>Writing a bundle: properties\<close>

lemma applyWriteMetadataOptions_simps [simp]:
  "applyWriteMetadataOptions [] = addressRefWriteAdd"
  "applyWriteMetadataOptions [WithUpsertAddressRefs] = addressRefWriteUpsert"
  by (simp_all add: applyWriteMetadataOptions_def WithUpsertAddressRefs_def)

lemma write_bundle_law:
  assumes "semver_ok sv" "data_store_inv sv s"
    and a: "for_each (\<lambda>ref.
          case applyWriteMetadataOptions opts of
            addressRefWriteAdd \<Rightarrow> AddressRefStore_Add sv ref
          | addressRefWriteUpsert \<Rightarrow> AddressRefStore_Upsert sv ref) (mb_Addresses b) (ds_Addresses s) = (None, a)"
      "address_inv sv a"
  shows "\<exists>s'. WriteMetadataToDataStore sv b opts s = (None, s') \<and> data_store_inv sv s' \<and>
    ds_Addresses s' = a \<and>
    contract_lookup (ds_Contracts s') = (\<lambda>k.
      case find_rec contractMetadataKey_Equals ContractMetadata_Key (rev (mb_Contracts b)) k of
        Some r \<Rightarrow> Some r | None \<Rightarrow> contract_lookup (ds_Contracts s) k) \<and>
    chain_lookup (ds_Chains s') = (\<lambda>k.
      case find_rec chainMetadataKey_Equals ChainMetadata_Key (rev (mb_Chains b)) k of
        Some r \<Rightarrow> Some r | None \<Rightarrow> chain_lookup (ds_Chains s) k) \<and>
    es_Record (ds_Env s') = (case mb_Env b of None \<Rightarrow> es_Record (ds_Env s) | Some r \<Rightarrow> Some r)"
proof -
  have invs: "chain_inv (ds_Chains s)" "contract_inv (ds_Contracts s)"
    using assms(2) by (simp_all add: data_store_inv_def)
  obtain m where m: "for_each ContractStore_Upsert (mb_Contracts b) (ds_Contracts s) = (None, m)" "contract_inv m"
    "contract_lookup m = (\<lambda>k.
      case find_rec contractMetadataKey_Equals ContractMetadata_Key (rev (mb_Contracts b)) k of
        Some r \<Rightarrow> Some r | None \<Rightarrow> contract_lookup (ds_Contracts s) k)"
    using contract_records.upsert_many [OF _ invs(2), of "mb_Contracts b"] by auto
  obtain c where c: "for_each ChainStore_Upsert (mb_Chains b) (ds_Chains s) = (None, c)" "chain_inv c"
    "chain_lookup c = (\<lambda>k.
      case find_rec chainMetadataKey_Equals ChainMetadata_Key (rev (mb_Chains b)) k of
        Some r \<Rightarrow> Some r | None \<Rightarrow> chain_lookup (ds_Chains s) k)"
    using chain_records.upsert_many [OF _ invs(1), of "mb_Chains b"] by auto
  have lift: "(\<lambda>ref. case cfg of
          addressRefWriteAdd \<Rightarrow> on_addresses (AddressRefStore_Add sv ref)
        | addressRefWriteUpsert \<Rightarrow> on_addresses (AddressRefStore_Upsert sv ref)) =
      (\<lambda>ref. on_addresses (case cfg of
          addressRefWriteAdd \<Rightarrow> AddressRefStore_Add sv ref
        | addressRefWriteUpsert \<Rightarrow> AddressRefStore_Upsert sv ref))" for cfg
    by (cases cfg) simp_all
  show ?thesis
    unfolding WriteMetadataToDataStore_def Let_def lift for_each_parts
    by (simp add: on_part_defs a m c data_store_inv_def EnvStore_Set_def ret_def split: option.split)
qed

text \<open>
  Writing a bundle with upserted address references to a well-formed store never fails when
  every reference has a version. Every key then looks up to the last record the bundle has for it,
  and else to what it was before, in each of the three keyed stores; the environment record is the
  one of the bundle when there is one.
\<close>

lemma WriteMetadata_upsert:
  assumes "semver_ok sv" "data_store_inv sv s" "\<forall>r \<in> set (mb_Addresses b). ar_Version r \<noteq> None"
  shows "\<exists>s'. WriteMetadataToDataStore sv b [WithUpsertAddressRefs] s = (None, s') \<and> data_store_inv sv s' \<and>
    address_lookup sv (ds_Addresses s') = (\<lambda>k.
      case find_rec (addressRefKey_Equals sv) AddressRef_Key (rev (mb_Addresses b)) k of
        Some r \<Rightarrow> Some r | None \<Rightarrow> address_lookup sv (ds_Addresses s) k) \<and>
    contract_lookup (ds_Contracts s') = (\<lambda>k.
      case find_rec contractMetadataKey_Equals ContractMetadata_Key (rev (mb_Contracts b)) k of
        Some r \<Rightarrow> Some r | None \<Rightarrow> contract_lookup (ds_Contracts s) k) \<and>
    chain_lookup (ds_Chains s') = (\<lambda>k.
      case find_rec chainMetadataKey_Equals ChainMetadata_Key (rev (mb_Chains b)) k of
        Some r \<Rightarrow> Some r | None \<Rightarrow> chain_lookup (ds_Chains s) k) \<and>
    es_Record (ds_Env s') = (case mb_Env b of None \<Rightarrow> es_Record (ds_Env s) | Some r \<Rightarrow> Some r)"
proof -
  have "address_inv sv (ds_Addresses s)" using assms(2) by (simp add: data_store_inv_def)
  then obtain a where a: "for_each (AddressRefStore_Upsert sv) (mb_Addresses b) (ds_Addresses s) = (None, a)"
    "address_inv sv a" "address_lookup sv a = (\<lambda>k.
      case find_rec (addressRefKey_Equals sv) AddressRef_Key (rev (mb_Addresses b)) k of
        Some r \<Rightarrow> Some r | None \<Rightarrow> address_lookup sv (ds_Addresses s) k)"
    using address_refs.upsert_many [OF assms(1) _ assms(3)] by blast
  show ?thesis
    using write_bundle_law [OF assms(1,2), of "[WithUpsertAddressRefs]" b a] a by auto
qed

definition example_bundle :: "nat address_ref list \<Rightarrow> nat metadata_bundle" where
  "example_bundle refs =
     \<lparr>mb_Addresses = refs, mb_Contracts = [], mb_Chains = [], mb_Env = None\<rparr>"

lemma WriteMetadata_upsert_witness:
  "\<exists>s'. WriteMetadataToDataStore nat_semver (example_bundle [example_ref]) [WithUpsertAddressRefs] NewMemoryDataStore =
     (None, s') \<and> address_lookup nat_semver (ds_Addresses s') (AddressRef_Key example_ref) = Some example_ref"
  using WriteMetadata_upsert [OF nat_semver_ok example_stores_ok(1), of "example_bundle [example_ref]"]
  by (auto simp: example_bundle_def example_ref_def)

text \<open>
  In the default mode (Add) writing a bundle to a well-formed store succeeds exactly when its
  address references have pairwise different keys and the store has none of them.
\<close>

lemma WriteMetadata_add_iff:
  assumes "semver_ok sv" "data_store_inv sv s" "\<forall>r \<in> set (mb_Addresses b). ar_Version r \<noteq> None"
  shows "fst (WriteMetadataToDataStore sv b [] s) = None \<longleftrightarrow>
    unique_keys (addressRefKey_Equals sv) AddressRef_Key (mb_Addresses b) \<and>
    (\<forall>r \<in> set (mb_Addresses b). address_lookup sv (ds_Addresses s) (AddressRef_Key r) = None)"
proof -
  have inv: "address_inv sv (ds_Addresses s)" using assms(2) by (simp add: data_store_inv_def)
  show ?thesis
  proof
    assume "fst (WriteMetadataToDataStore sv b [] s) = None"
    then have "fst (on_addresses (for_each (AddressRefStore_Add sv) (mb_Addresses b)) s) = None"
      by (simp add: WriteMetadataToDataStore_def fst_and_then_None for_each_parts)
    then have "fst (for_each (AddressRefStore_Add sv) (mb_Addresses b) (ds_Addresses s)) = None"
      by (simp add: on_part_defs split: prod.splits)
    then show "unique_keys (addressRefKey_Equals sv) AddressRef_Key (mb_Addresses b) \<and>
      (\<forall>r \<in> set (mb_Addresses b). address_lookup sv (ds_Addresses s) (AddressRef_Key r) = None)"
      using address_refs.add_many_only_if [OF assms(1) inv assms(3)] by blast
  next
    assume new: "unique_keys (addressRefKey_Equals sv) AddressRef_Key (mb_Addresses b) \<and>
      (\<forall>r \<in> set (mb_Addresses b). address_lookup sv (ds_Addresses s) (AddressRef_Key r) = None)"
    then obtain a where "for_each (AddressRefStore_Add sv) (mb_Addresses b) (ds_Addresses s) = (None, a)"
      "address_inv sv a"
      using address_refs.add_many [OF assms(1) inv assms(3)] by blast
    then show "fst (WriteMetadataToDataStore sv b [] s) = None"
      using write_bundle_law [OF assms(1,2), of "[]" b a] by auto
  qed
qed

lemma WriteMetadata_add_iff_witness:
  "fst (WriteMetadataToDataStore nat_semver (example_bundle [example_ref, example_ref]) [] NewMemoryDataStore) \<noteq> None"
proof -
  have "\<not> unique_keys (addressRefKey_Equals nat_semver) AddressRef_Key [example_ref, example_ref]"
    by (simp add: unique_keys_def)
  then show ?thesis
    using WriteMetadata_add_iff [OF nat_semver_ok example_stores_ok(1), of "example_bundle [example_ref, example_ref]"]
    by (simp add: example_bundle_def example_ref_def)
qed

end
