(* ===== verification/Catalog_Memory.thy ===== *)
theory Catalog_Memory
  imports Data_Store
begin

text \<open>
  The in-memory catalog (\<open>datastore/catalog/memory/\<close>): storage maps under composite keys and
  a table of open transactions, whose changes overlay the base maps until they are committed; the
  four stores on top of it; \<open>WithTransaction\<close>. The options and updaters come from
  \<open>datastore/api\_v2.go\<close>.

  A transaction pointer is a number handed out by a counter; the context of a call carries at
  most one. The mutexes make every storage operation one step. The order in which \<open>Fetch\<close>
  lists a map is a parameter. A panic (a reference without a version) is an error value:
  \<open>WithTransaction\<close> rolls back and panics again, which leaves the same state.
\<close>

section \<open>Storage\<close>

record 'v transactionData =
  td_addressRefs :: "string \<rightharpoonup> 'v address_ref"
  td_chainMetadata :: "u64 \<rightharpoonup> chain_metadata"
  td_contractMetadata :: "string \<rightharpoonup> contract_metadata"
  td_envMetadata :: "env_metadata option"
  td_envMetadataSet :: bool

record 'v memoryStorage =
  ms_addressRefs :: "string \<rightharpoonup> 'v address_ref"
  ms_chainMetadata :: "u64 \<rightharpoonup> chain_metadata"
  ms_contractMetadata :: "string \<rightharpoonup> contract_metadata"
  ms_envMetadata :: "env_metadata option"
  ms_transactions :: "nat \<rightharpoonup> 'v transactionData"
  ms_next :: nat

type_synonym tx_ctx = "nat option"

definition newMemoryStorage :: "'v memoryStorage" where
  "newMemoryStorage =
     \<lparr>ms_addressRefs = Map.empty, ms_chainMetadata = Map.empty, ms_contractMetadata = Map.empty,
      ms_envMetadata = None, ms_transactions = Map.empty, ms_next = 0\<rparr>"

definition emptyTransactionData :: "'v transactionData" where
  "emptyTransactionData =
     \<lparr>td_addressRefs = Map.empty, td_chainMetadata = Map.empty, td_contractMetadata = Map.empty,
      td_envMetadata = None, td_envMetadataSet = False\<rparr>"

definition beginTransaction :: "'v memoryStorage \<Rightarrow> nat \<times> 'v memoryStorage" where
  "beginTransaction s =
     (let tx = ms_next s in
      (tx, s\<lparr>ms_transactions := (ms_transactions s)(tx \<mapsto> emptyTransactionData), ms_next := Suc tx\<rparr>))"

definition commitTransaction :: "nat \<Rightarrow> 'v memoryStorage \<Rightarrow> (ds_error, 'v memoryStorage) eff" where
  "commitTransaction tx s =
     (case ms_transactions s tx of
        None \<Rightarrow> fail (ErrOther ''transaction not found'') s
      | Some data \<Rightarrow>
          ret (s\<lparr>ms_addressRefs := ms_addressRefs s ++ td_addressRefs data,
                ms_chainMetadata := ms_chainMetadata s ++ td_chainMetadata data,
                ms_contractMetadata := ms_contractMetadata s ++ td_contractMetadata data,
                ms_envMetadata :=
                  (if td_envMetadataSet data then td_envMetadata data else ms_envMetadata s),
                ms_transactions := (ms_transactions s)(tx := None)\<rparr>))"

definition rollbackTransaction :: "nat \<Rightarrow> 'v memoryStorage \<Rightarrow> (ds_error, 'v memoryStorage) eff" where
  "rollbackTransaction tx s =
     (if ms_transactions s tx = None then fail (ErrOther ''transaction not found'') s
      else ret (s\<lparr>ms_transactions := (ms_transactions s)(tx := None)\<rparr>))"

definition addressRefKey :: "u64 \<Rightarrow> string \<Rightarrow> string \<Rightarrow> string \<Rightarrow> string" where
  "addressRefKey chainSelector contractType version qualifier =
     format_uint chainSelector @ '':'' @ contractType @ '':'' @ version @ '':'' @ qualifier"

definition contractMetadataKey :: "u64 \<Rightarrow> string \<Rightarrow> string" where
  "contractMetadataKey chainSelector address = format_uint chainSelector @ '':'' @ address"

definition getTransactionFromContext :: "tx_ctx \<Rightarrow> 'v memoryStorage \<Rightarrow> (nat \<times> 'v transactionData) option" where
  "getTransactionFromContext ctx s =
     (case ctx of
        None \<Rightarrow> None
      | Some tx \<Rightarrow> (case ms_transactions s tx of None \<Rightarrow> None | Some data \<Rightarrow> Some (tx, data)))"

definition getAddressRef :: "tx_ctx \<Rightarrow> string \<Rightarrow> bool \<Rightarrow> 'v memoryStorage \<Rightarrow> ds_error + 'v address_ref" where
  "getAddressRef ctx key ignoreTransactions s =
     (case (if ignoreTransactions then None
            else case getTransactionFromContext ctx s of
              None \<Rightarrow> None
            | Some (tx, data) \<Rightarrow> td_addressRefs data key) of
        Some r \<Rightarrow> Inr r
      | None \<Rightarrow>
          (case ms_addressRefs s key of
             None \<Rightarrow> Inl ErrAddressRefNotFound
           | Some r \<Rightarrow> Inr r))"

definition getAllAddressRefs :: "tx_ctx \<Rightarrow> string list \<Rightarrow> 'v memoryStorage \<Rightarrow> 'v address_ref list" where
  "getAllAddressRefs ctx order s =
     (let base = (case getTransactionFromContext ctx s of
          None \<Rightarrow> ms_addressRefs s
        | Some (tx, data) \<Rightarrow> ms_addressRefs s ++ td_addressRefs data) in
      in_order base order)"

definition setAddressRef :: "tx_ctx \<Rightarrow> string \<Rightarrow> 'v address_ref \<Rightarrow> 'v memoryStorage \<Rightarrow> (ds_error, 'v memoryStorage) eff" where
  "setAddressRef ctx key r s =
     (case getTransactionFromContext ctx s of
        Some (tx, data) \<Rightarrow>
          ret (s\<lparr>ms_transactions := (ms_transactions s)(tx \<mapsto> data\<lparr>td_addressRefs := (td_addressRefs data)(key \<mapsto> r)\<rparr>)\<rparr>)
      | None \<Rightarrow> ret (s\<lparr>ms_addressRefs := (ms_addressRefs s)(key \<mapsto> r)\<rparr>))"

definition getChainMetadata :: "tx_ctx \<Rightarrow> u64 \<Rightarrow> bool \<Rightarrow> 'v memoryStorage \<Rightarrow> ds_error + chain_metadata" where
  "getChainMetadata ctx key ignoreTransactions s =
     (case (if ignoreTransactions then None
            else case getTransactionFromContext ctx s of
              None \<Rightarrow> None
            | Some (tx, data) \<Rightarrow> td_chainMetadata data key) of
        Some r \<Rightarrow> Inr r
      | None \<Rightarrow>
          (case ms_chainMetadata s key of
             None \<Rightarrow> Inl ErrChainMetadataNotFound
           | Some r \<Rightarrow> Inr r))"

definition getAllChainMetadata :: "tx_ctx \<Rightarrow> u64 list \<Rightarrow> 'v memoryStorage \<Rightarrow> chain_metadata list" where
  "getAllChainMetadata ctx order s =
     (let base = (case getTransactionFromContext ctx s of
          None \<Rightarrow> ms_chainMetadata s
        | Some (tx, data) \<Rightarrow> ms_chainMetadata s ++ td_chainMetadata data) in
      in_order base order)"

definition setChainMetadata :: "tx_ctx \<Rightarrow> u64 \<Rightarrow> chain_metadata \<Rightarrow> 'v memoryStorage \<Rightarrow> (ds_error, 'v memoryStorage) eff" where
  "setChainMetadata ctx key r s =
     (case getTransactionFromContext ctx s of
        Some (tx, data) \<Rightarrow>
          ret (s\<lparr>ms_transactions := (ms_transactions s)(tx \<mapsto> data\<lparr>td_chainMetadata := (td_chainMetadata data)(key \<mapsto> r)\<rparr>)\<rparr>)
      | None \<Rightarrow> ret (s\<lparr>ms_chainMetadata := (ms_chainMetadata s)(key \<mapsto> r)\<rparr>))"

definition getContractMetadata :: "tx_ctx \<Rightarrow> string \<Rightarrow> bool \<Rightarrow> 'v memoryStorage \<Rightarrow> ds_error + contract_metadata" where
  "getContractMetadata ctx key ignoreTransactions s =
     (case (if ignoreTransactions then None
            else case getTransactionFromContext ctx s of
              None \<Rightarrow> None
            | Some (tx, data) \<Rightarrow> td_contractMetadata data key) of
        Some r \<Rightarrow> Inr r
      | None \<Rightarrow>
          (case ms_contractMetadata s key of
             None \<Rightarrow> Inl ErrContractMetadataNotFound
           | Some r \<Rightarrow> Inr r))"

definition getAllContractMetadata :: "tx_ctx \<Rightarrow> string list \<Rightarrow> 'v memoryStorage \<Rightarrow> contract_metadata list" where
  "getAllContractMetadata ctx order s =
     (let base = (case getTransactionFromContext ctx s of
          None \<Rightarrow> ms_contractMetadata s
        | Some (tx, data) \<Rightarrow> ms_contractMetadata s ++ td_contractMetadata data) in
      in_order base order)"

definition setContractMetadata :: "tx_ctx \<Rightarrow> string \<Rightarrow> contract_metadata \<Rightarrow> 'v memoryStorage \<Rightarrow> (ds_error, 'v memoryStorage) eff" where
  "setContractMetadata ctx key r s =
     (case getTransactionFromContext ctx s of
        Some (tx, data) \<Rightarrow>
          ret (s\<lparr>ms_transactions := (ms_transactions s)(tx \<mapsto> data\<lparr>td_contractMetadata := (td_contractMetadata data)(key \<mapsto> r)\<rparr>)\<rparr>)
      | None \<Rightarrow> ret (s\<lparr>ms_contractMetadata := (ms_contractMetadata s)(key \<mapsto> r)\<rparr>))"

definition getEnvMetadata :: "tx_ctx \<Rightarrow> bool \<Rightarrow> 'v memoryStorage \<Rightarrow> ds_error + env_metadata" where
  "getEnvMetadata ctx ignoreTransactions s =
     (case (if ignoreTransactions then None
            else case getTransactionFromContext ctx s of
              None \<Rightarrow> None
            | Some (tx, data) \<Rightarrow> if td_envMetadataSet data then Some (td_envMetadata data) else None) of
        Some None \<Rightarrow> Inl ErrEnvMetadataNotSet
      | Some (Some r) \<Rightarrow> Inr r
      | None \<Rightarrow>
          (case ms_envMetadata s of
             None \<Rightarrow> Inl ErrEnvMetadataNotSet
           | Some r \<Rightarrow> Inr r))"

definition setEnvMetadata :: "tx_ctx \<Rightarrow> env_metadata \<Rightarrow> 'v memoryStorage \<Rightarrow> (ds_error, 'v memoryStorage) eff" where
  "setEnvMetadata ctx metadata s =
     (case getTransactionFromContext ctx s of
        Some (tx, data) \<Rightarrow>
          ret (s\<lparr>ms_transactions := (ms_transactions s)
              (tx \<mapsto> data\<lparr>td_envMetadata := Some metadata, td_envMetadataSet := True\<rparr>)\<rparr>)
      | None \<Rightarrow> ret (s\<lparr>ms_envMetadata := Some metadata\<rparr>))"

section \<open>Options\<close>

datatype get_option = IgnoreTransactionsGetOption

definition ignores_transactions :: "get_option list \<Rightarrow> bool" where
  "ignores_transactions options =
     fold (\<lambda>option b. case option of IgnoreTransactionsGetOption \<Rightarrow> True) options False"

type_synonym metadata_updater = "goval \<Rightarrow> goval \<Rightarrow> ds_error + goval"
type_synonym update_option = "metadata_updater \<Rightarrow> metadata_updater"

definition IdentityUpdaterF :: metadata_updater where
  "IdentityUpdaterF latest incoming = Inr incoming"

definition WithUpdater :: "metadata_updater \<Rightarrow> update_option" where
  "WithUpdater updater = (\<lambda>opts. updater)"

definition apply_update_options :: "update_option list \<Rightarrow> metadata_updater" where
  "apply_update_options opts = fold (\<lambda>opt options. opt options) opts IdentityUpdaterF"

section \<open>Address references\<close>

definition CatalogAddress_Get ::
  "'v semver \<Rightarrow> tx_ctx \<Rightarrow> 'v address_ref_key \<Rightarrow> get_option list \<Rightarrow> 'v memoryStorage \<Rightarrow> ds_error + 'v address_ref" where
  "CatalogAddress_Get sv ctx key options s =
     (case ak_version key of
        None \<Rightarrow> Inl PanicNilVersion
      | Some v \<Rightarrow>
          getAddressRef ctx
            (addressRefKey (ak_chainSelector key) (ak_contractType key) (sv_String sv v) (ak_qualifier key))
            (ignores_transactions options) s)"

definition CatalogAddress_Fetch :: "tx_ctx \<Rightarrow> string list \<Rightarrow> 'v memoryStorage \<Rightarrow> 'v address_ref list" where
  "CatalogAddress_Fetch ctx order s = getAllAddressRefs ctx order s"

definition CatalogAddress_Filter ::
  "tx_ctx \<Rightarrow> string list \<Rightarrow> ('v address_ref list \<Rightarrow> 'v address_ref list) list \<Rightarrow> 'v memoryStorage \<Rightarrow> 'v address_ref list" where
  "CatalogAddress_Filter ctx order filters s =
     fold (\<lambda>f records. f records) filters (CatalogAddress_Fetch ctx order s)"

text \<open>The composite key of a record, \<open>None\<close> for the panic of \<open>String\<close> on a nil version.\<close>

definition ref_composite_key :: "'v semver \<Rightarrow> 'v address_ref \<Rightarrow> string option" where
  "ref_composite_key sv r =
     map_option (\<lambda>v. addressRefKey (ar_ChainSelector r) (ar_Type r) (sv_String sv v) (ar_Qualifier r)) (ar_Version r)"

definition CatalogAddress_Add ::
  "'v semver \<Rightarrow> tx_ctx \<Rightarrow> 'v address_ref \<Rightarrow> 'v memoryStorage \<Rightarrow> (ds_error, 'v memoryStorage) eff" where
  "CatalogAddress_Add sv ctx r s =
     (case ref_composite_key sv r of
        None \<Rightarrow> fail PanicNilVersion s
      | Some compositeKey \<Rightarrow>
          (case getAddressRef ctx compositeKey False s of
             Inr _ \<Rightarrow> fail (ErrOther ''address reference already exists'') s
           | Inl e \<Rightarrow> if e \<noteq> ErrAddressRefNotFound then fail e s else setAddressRef ctx compositeKey r s))"

definition CatalogAddress_Upsert ::
  "'v semver \<Rightarrow> tx_ctx \<Rightarrow> 'v address_ref \<Rightarrow> 'v memoryStorage \<Rightarrow> (ds_error, 'v memoryStorage) eff" where
  "CatalogAddress_Upsert sv ctx r s =
     (case ref_composite_key sv r of
        None \<Rightarrow> fail PanicNilVersion s
      | Some compositeKey \<Rightarrow> setAddressRef ctx compositeKey r s)"

definition CatalogAddress_Update ::
  "'v semver \<Rightarrow> tx_ctx \<Rightarrow> 'v address_ref \<Rightarrow> 'v memoryStorage \<Rightarrow> (ds_error, 'v memoryStorage) eff" where
  "CatalogAddress_Update sv ctx r s =
     (case ref_composite_key sv r of
        None \<Rightarrow> fail PanicNilVersion s
      | Some compositeKey \<Rightarrow>
          (case getAddressRef ctx compositeKey False s of
             Inl e \<Rightarrow> fail e s
           | Inr _ \<Rightarrow> setAddressRef ctx compositeKey r s))"

definition CatalogAddress_Delete ::
  "tx_ctx \<Rightarrow> 'v address_ref_key \<Rightarrow> 'v memoryStorage \<Rightarrow> (ds_error, 'v memoryStorage) eff" where
  "CatalogAddress_Delete ctx key s = fail (ErrOther ''delete operation not supported by catalog API'') s"

section \<open>Chain metadata\<close>

definition CatalogChain_Get ::
  "tx_ctx \<Rightarrow> chain_metadata_key \<Rightarrow> get_option list \<Rightarrow> 'v memoryStorage \<Rightarrow> ds_error + chain_metadata" where
  "CatalogChain_Get ctx key options s =
     getChainMetadata ctx (hk_chainSelector key) (ignores_transactions options) s"

definition CatalogChain_Fetch :: "tx_ctx \<Rightarrow> u64 list \<Rightarrow> 'v memoryStorage \<Rightarrow> chain_metadata list" where
  "CatalogChain_Fetch ctx order s = getAllChainMetadata ctx order s"

definition CatalogChain_Filter ::
  "tx_ctx \<Rightarrow> u64 list \<Rightarrow> (chain_metadata list \<Rightarrow> chain_metadata list) list \<Rightarrow> 'v memoryStorage \<Rightarrow> chain_metadata list" where
  "CatalogChain_Filter ctx order filters s =
     fold (\<lambda>f records. f records) filters (CatalogChain_Fetch ctx order s)"

definition CatalogChain_Add ::
  "tx_ctx \<Rightarrow> chain_metadata \<Rightarrow> 'v memoryStorage \<Rightarrow> (ds_error, 'v memoryStorage) eff" where
  "CatalogChain_Add ctx r s =
     (case getChainMetadata ctx (hm_ChainSelector r) False s of
        Inr _ \<Rightarrow> fail (ErrOther ''chain metadata already exists'') s
      | Inl e \<Rightarrow>
          if e \<noteq> ErrChainMetadataNotFound then fail e s
          else setChainMetadata ctx (hm_ChainSelector r) r s)"

definition CatalogChain_Upsert ::
  "tx_ctx \<Rightarrow> chain_metadata_key \<Rightarrow> goval \<Rightarrow> update_option list \<Rightarrow> 'v memoryStorage \<Rightarrow> (ds_error, 'v memoryStorage) eff" where
  "CatalogChain_Upsert ctx key metadata opts s =
     (case (case CatalogChain_Get ctx key [] s of
              Inl e \<Rightarrow> if e \<noteq> ErrChainMetadataNotFound then Inl e else Inr metadata
            | Inr currentRecord \<Rightarrow> apply_update_options opts (hm_Metadata currentRecord) metadata) of
        Inl e \<Rightarrow> fail e s
      | Inr finalMetadata \<Rightarrow>
          setChainMetadata ctx (hk_chainSelector key)
            \<lparr>hm_ChainSelector = hk_chainSelector key, hm_Metadata = finalMetadata\<rparr> s)"

definition CatalogChain_Update ::
  "tx_ctx \<Rightarrow> chain_metadata_key \<Rightarrow> goval \<Rightarrow> update_option list \<Rightarrow> 'v memoryStorage \<Rightarrow> (ds_error, 'v memoryStorage) eff" where
  "CatalogChain_Update ctx key metadata opts s =
     (case CatalogChain_Get ctx key [] s of
        Inl e \<Rightarrow> fail e s
      | Inr currentRecord \<Rightarrow>
          (case apply_update_options opts (hm_Metadata currentRecord) metadata of
             Inl e \<Rightarrow> fail e s
           | Inr finalMetadata \<Rightarrow>
               setChainMetadata ctx (hk_chainSelector key)
                 \<lparr>hm_ChainSelector = hk_chainSelector key, hm_Metadata = finalMetadata\<rparr> s))"

definition CatalogChain_Delete ::
  "tx_ctx \<Rightarrow> chain_metadata_key \<Rightarrow> 'v memoryStorage \<Rightarrow> (ds_error, 'v memoryStorage) eff" where
  "CatalogChain_Delete ctx key s =
     fail (ErrOther ''delete operation not supported for catalog chain metadata store'') s"

section \<open>Contract metadata\<close>

definition CatalogContract_Get ::
  "tx_ctx \<Rightarrow> contract_metadata_key \<Rightarrow> get_option list \<Rightarrow> 'v memoryStorage \<Rightarrow> ds_error + contract_metadata" where
  "CatalogContract_Get ctx key options s =
     getContractMetadata ctx (contractMetadataKey (ck_chainSelector key) (ck_address key)) (ignores_transactions options) s"

definition CatalogContract_Fetch :: "tx_ctx \<Rightarrow> string list \<Rightarrow> 'v memoryStorage \<Rightarrow> contract_metadata list" where
  "CatalogContract_Fetch ctx order s = getAllContractMetadata ctx order s"

definition CatalogContract_Filter ::
  "tx_ctx \<Rightarrow> string list \<Rightarrow> (contract_metadata list \<Rightarrow> contract_metadata list) list \<Rightarrow> 'v memoryStorage \<Rightarrow> contract_metadata list" where
  "CatalogContract_Filter ctx order filters s =
     fold (\<lambda>f records. f records) filters (CatalogContract_Fetch ctx order s)"

definition CatalogContract_Add ::
  "tx_ctx \<Rightarrow> contract_metadata \<Rightarrow> 'v memoryStorage \<Rightarrow> (ds_error, 'v memoryStorage) eff" where
  "CatalogContract_Add ctx r s =
     (case getContractMetadata ctx (contractMetadataKey (cm_ChainSelector r) (cm_Address r)) False s of
        Inr _ \<Rightarrow> fail (ErrOther ''contract metadata already exists'') s
      | Inl e \<Rightarrow>
          if e \<noteq> ErrContractMetadataNotFound then fail e s
          else setContractMetadata ctx (contractMetadataKey (cm_ChainSelector r) (cm_Address r)) r s)"

definition CatalogContract_Upsert ::
  "tx_ctx \<Rightarrow> contract_metadata_key \<Rightarrow> goval \<Rightarrow> update_option list \<Rightarrow> 'v memoryStorage \<Rightarrow> (ds_error, 'v memoryStorage) eff" where
  "CatalogContract_Upsert ctx key metadata opts s =
     (case (case CatalogContract_Get ctx key [] s of
              Inl e \<Rightarrow> if e \<noteq> ErrContractMetadataNotFound then Inl e else Inr metadata
            | Inr currentRecord \<Rightarrow> apply_update_options opts (cm_Metadata currentRecord) metadata) of
        Inl e \<Rightarrow> fail e s
      | Inr finalMetadata \<Rightarrow>
          setContractMetadata ctx (contractMetadataKey (ck_chainSelector key) (ck_address key))
            \<lparr>cm_Address = ck_address key, cm_ChainSelector = ck_chainSelector key,
                 cm_Metadata = finalMetadata\<rparr> s)"

definition CatalogContract_Update ::
  "tx_ctx \<Rightarrow> contract_metadata_key \<Rightarrow> goval \<Rightarrow> update_option list \<Rightarrow> 'v memoryStorage \<Rightarrow> (ds_error, 'v memoryStorage) eff" where
  "CatalogContract_Update ctx key metadata opts s =
     (case CatalogContract_Get ctx key [] s of
        Inl e \<Rightarrow> fail e s
      | Inr currentRecord \<Rightarrow>
          (case apply_update_options opts (cm_Metadata currentRecord) metadata of
             Inl e \<Rightarrow> fail e s
           | Inr finalMetadata \<Rightarrow>
               setContractMetadata ctx (contractMetadataKey (ck_chainSelector key) (ck_address key))
                 \<lparr>cm_Address = ck_address key, cm_ChainSelector = ck_chainSelector key,
                 cm_Metadata = finalMetadata\<rparr> s))"

definition CatalogContract_Delete ::
  "tx_ctx \<Rightarrow> contract_metadata_key \<Rightarrow> 'v memoryStorage \<Rightarrow> (ds_error, 'v memoryStorage) eff" where
  "CatalogContract_Delete ctx key s =
     fail (ErrOther ''delete operation not supported for catalog contract metadata store'') s"

section \<open>Environment metadata\<close>

definition CatalogEnv_Get :: "tx_ctx \<Rightarrow> get_option list \<Rightarrow> 'v memoryStorage \<Rightarrow> ds_error + env_metadata" where
  "CatalogEnv_Get ctx options s = getEnvMetadata ctx (ignores_transactions options) s"

definition CatalogEnv_Set ::
  "tx_ctx \<Rightarrow> goval \<Rightarrow> update_option list \<Rightarrow> 'v memoryStorage \<Rightarrow> (ds_error, 'v memoryStorage) eff" where
  "CatalogEnv_Set ctx metadata opts s =
     (case (case CatalogEnv_Get ctx [] s of
              Inl e \<Rightarrow> if e \<noteq> ErrEnvMetadataNotSet then Inl e else Inr metadata
            | Inr currentRecord \<Rightarrow> apply_update_options opts (em_Metadata currentRecord) metadata) of
        Inl e \<Rightarrow> fail e s
      | Inr finalMetadata \<Rightarrow> setEnvMetadata ctx \<lparr>em_Metadata = finalMetadata\<rparr> s)"

section \<open>Transactions\<close>

text \<open>
  The function runs in a context with the new transaction (which hides one of the caller). A
  rollback can only fail when the transaction is gone, and the joined error is not nil either way.
\<close>

definition WithTransaction ::
  "tx_ctx \<Rightarrow> (tx_ctx \<Rightarrow> 'v memoryStorage \<Rightarrow> (ds_error, 'v memoryStorage) eff) \<Rightarrow>
   'v memoryStorage \<Rightarrow> (ds_error, 'v memoryStorage) eff" where
  "WithTransaction ctx fn s =
     (let (tx, s) = beginTransaction s in
      case fn (Some tx) s of
        (Some txerr, s) \<Rightarrow> (Some txerr, snd (rollbackTransaction tx s))
      | (None, s) \<Rightarrow> commitTransaction tx s)"

section \<open>A transaction is one atomic step\<close>

text \<open>Programs over the stores: the operations that write, with the context of the caller.\<close>

datatype 'v catalog_write =
    AddressAdd "'v address_ref"
  | AddressUpsert "'v address_ref"
  | AddressUpdate "'v address_ref"
  | AddressDelete "'v address_ref_key"
  | ChainAdd chain_metadata
  | ChainUpsert chain_metadata_key goval "update_option list"
  | ChainUpdate chain_metadata_key goval "update_option list"
  | ChainDelete chain_metadata_key
  | ContractAdd contract_metadata
  | ContractUpsert contract_metadata_key goval "update_option list"
  | ContractUpdate contract_metadata_key goval "update_option list"
  | ContractDelete contract_metadata_key
  | EnvSet goval "update_option list"

fun catalog_op ::
  "'v semver \<Rightarrow> tx_ctx \<Rightarrow> 'v catalog_write \<Rightarrow> 'v memoryStorage \<Rightarrow> (ds_error, 'v memoryStorage) eff" where
  "catalog_op sv ctx (AddressAdd r) = CatalogAddress_Add sv ctx r"
| "catalog_op sv ctx (AddressUpsert r) = CatalogAddress_Upsert sv ctx r"
| "catalog_op sv ctx (AddressUpdate r) = CatalogAddress_Update sv ctx r"
| "catalog_op sv ctx (AddressDelete k) = CatalogAddress_Delete ctx k"
| "catalog_op sv ctx (ChainAdd r) = CatalogChain_Add ctx r"
| "catalog_op sv ctx (ChainUpsert k m opts) = CatalogChain_Upsert ctx k m opts"
| "catalog_op sv ctx (ChainUpdate k m opts) = CatalogChain_Update ctx k m opts"
| "catalog_op sv ctx (ChainDelete k) = CatalogChain_Delete ctx k"
| "catalog_op sv ctx (ContractAdd r) = CatalogContract_Add ctx r"
| "catalog_op sv ctx (ContractUpsert k m opts) = CatalogContract_Upsert ctx k m opts"
| "catalog_op sv ctx (ContractUpdate k m opts) = CatalogContract_Update ctx k m opts"
| "catalog_op sv ctx (ContractDelete k) = CatalogContract_Delete ctx k"
| "catalog_op sv ctx (EnvSet m opts) = CatalogEnv_Set ctx m opts"

text \<open>
  What a transaction sees: the state its commit would leave. An operation inside a transaction
  changes only the data of that transaction, and does to what it sees the same as the operation
  outside does to the storage.
\<close>

definition tx_sees :: "nat \<Rightarrow> 'v memoryStorage \<Rightarrow> 'v memoryStorage" where
  "tx_sees tx s = snd (commitTransaction tx s)"

definition only_tx :: "nat \<Rightarrow> 'v memoryStorage \<Rightarrow> 'v memoryStorage \<Rightarrow> bool" where
  "only_tx tx s t \<longleftrightarrow> (\<exists>d. t = s\<lparr>ms_transactions := (ms_transactions s)(tx \<mapsto> d)\<rparr>)"

definition tx_sim ::
  "nat \<Rightarrow> (tx_ctx \<Rightarrow> 'v memoryStorage \<Rightarrow> (ds_error, 'v memoryStorage) eff) \<Rightarrow> bool" where
  "tx_sim tx f \<longleftrightarrow> (\<forall>s. ms_transactions s tx \<noteq> None \<longrightarrow>
     only_tx tx s (snd (f (Some tx) s)) \<and>
     f None (tx_sees tx s) = (fst (f (Some tx) s), tx_sees tx (snd (f (Some tx) s))))"

lemma only_tx_refl: "ms_transactions s tx \<noteq> None \<Longrightarrow> only_tx tx s s"
  by (auto simp: only_tx_def fun_upd_idem intro: exI [of _ "the (ms_transactions s tx)"])

lemma only_tx_trans: "only_tx tx s t \<Longrightarrow> only_tx tx t u \<Longrightarrow> only_tx tx s u"
  by (auto simp: only_tx_def)

lemma only_tx_active: "only_tx tx s t \<Longrightarrow> ms_transactions t tx \<noteq> None"
  by (auto simp: only_tx_def)

lemma getTransaction_simps:
  "getTransactionFromContext None s = None"
  "ms_transactions s tx = Some d \<Longrightarrow> getTransactionFromContext (Some tx) s = Some (tx, d)"
  by (simp_all add: getTransactionFromContext_def)

lemma tx_get:
  assumes "ms_transactions s tx \<noteq> None"
  shows "getAddressRef None k ign (tx_sees tx s) = getAddressRef (Some tx) k False s"
    and "getChainMetadata None h ign (tx_sees tx s) = getChainMetadata (Some tx) h False s"
    and "getContractMetadata None k ign (tx_sees tx s) = getContractMetadata (Some tx) k False s"
    and "getEnvMetadata None ign (tx_sees tx s) = getEnvMetadata (Some tx) False s"
  using assms
  by (auto simp: tx_sees_def commitTransaction_def ret_def getTransaction_simps getAddressRef_def
      getChainMetadata_def getContractMetadata_def getEnvMetadata_def map_add_def split: option.splits)

lemma tx_set:
  "tx_sim tx (\<lambda>ctx. setAddressRef ctx k r)"
  "tx_sim tx (\<lambda>ctx. setChainMetadata ctx h c)"
  "tx_sim tx (\<lambda>ctx. setContractMetadata ctx k m)"
  "tx_sim tx (\<lambda>ctx. setEnvMetadata ctx e)"
  by (auto simp: tx_sim_def only_tx_def tx_sees_def commitTransaction_def ret_def getTransaction_simps
      setAddressRef_def setChainMetadata_def setContractMetadata_def setEnvMetadata_def)

lemma tx_sim_fail: "tx_sim tx (\<lambda>ctx. fail e)"
  by (auto simp: tx_sim_def fail_def only_tx_refl)

lemma tx_sim_read:
  assumes get: "\<And>s. ms_transactions s tx \<noteq> None \<Longrightarrow> g None (tx_sees tx s) = g (Some tx) s"
    and f: "\<And>x. tx_sim tx (f x)"
  shows "tx_sim tx (\<lambda>ctx s. f (g ctx s) ctx s)"
  using f unfolding tx_sim_def by (auto simp: get)

lemma tx_sim_case:
  "(\<And>e. tx_sim tx (f e)) \<Longrightarrow> (\<And>r. tx_sim tx (h r)) \<Longrightarrow>
   tx_sim tx (\<lambda>ctx s. case x of Inl e \<Rightarrow> f e ctx s | Inr r \<Rightarrow> h r ctx s)"
  by (cases x) auto

lemma tx_sim_if:
  "tx_sim tx f \<Longrightarrow> tx_sim tx h \<Longrightarrow> tx_sim tx (\<lambda>ctx s. if b then f ctx s else h ctx s)"
  by (cases b) simp_all

lemmas tx_sims = tx_sim_case tx_sim_if tx_sim_fail tx_set

lemma catalog_address_sim:
  "tx_sim tx (\<lambda>ctx. CatalogAddress_Add sv ctx r)"
  "tx_sim tx (\<lambda>ctx. CatalogAddress_Upsert sv ctx r)"
  "tx_sim tx (\<lambda>ctx. CatalogAddress_Update sv ctx r)"
  "tx_sim tx (\<lambda>ctx. CatalogAddress_Delete ctx k)"
proof -
  show "tx_sim tx (\<lambda>ctx. CatalogAddress_Upsert sv ctx r)" "tx_sim tx (\<lambda>ctx. CatalogAddress_Delete ctx k)"
    unfolding CatalogAddress_Upsert_def CatalogAddress_Delete_def
    by (cases "ref_composite_key sv r"; simp add: tx_sims)+
  show "tx_sim tx (\<lambda>ctx. CatalogAddress_Add sv ctx r)"
  proof (cases "ref_composite_key sv r")
    case (Some key)
    show ?thesis
      unfolding CatalogAddress_Add_def Some option.case
      by (rule tx_sim_read [where g = "\<lambda>ctx s. getAddressRef ctx key False s" and f = "\<lambda>x ctx s. case x of Inr _ \<Rightarrow> fail (ErrOther ''address reference already exists'') s
           | Inl e \<Rightarrow> if e \<noteq> ErrAddressRefNotFound then fail e s else setAddressRef ctx key r s", OF tx_get(1)])
        (assumption | intro tx_sims)+
  next
    case None
    then show ?thesis unfolding CatalogAddress_Add_def by (simp add: tx_sims)
  qed
  show "tx_sim tx (\<lambda>ctx. CatalogAddress_Update sv ctx r)"
  proof (cases "ref_composite_key sv r")
    case (Some key)
    show ?thesis
      unfolding CatalogAddress_Update_def Some option.case
      by (rule tx_sim_read [where g = "\<lambda>ctx s. getAddressRef ctx key False s" and f = "\<lambda>x ctx s. case x of Inl e \<Rightarrow> fail e s
           | Inr _ \<Rightarrow> setAddressRef ctx key r s", OF tx_get(1)])
        (assumption | intro tx_sims)+
  next
    case None
    then show ?thesis unfolding CatalogAddress_Update_def by (simp add: tx_sims)
  qed
qed

lemma catalog_chain_get:
  "ms_transactions s tx \<noteq> None \<Longrightarrow> CatalogChain_Get None k [] (tx_sees tx s) = CatalogChain_Get (Some tx) k [] s"
  by (simp add: CatalogChain_Get_def ignores_transactions_def tx_get)

lemma catalog_chain_sim:
  "tx_sim tx (\<lambda>ctx. CatalogChain_Add ctx r)"
  "tx_sim tx (\<lambda>ctx. CatalogChain_Upsert ctx k m opts)"
  "tx_sim tx (\<lambda>ctx. CatalogChain_Update ctx k m opts)"
  "tx_sim tx (\<lambda>ctx. CatalogChain_Delete ctx k)"
proof -
  show "tx_sim tx (\<lambda>ctx. CatalogChain_Add ctx r)"
    unfolding CatalogChain_Add_def
    by (rule tx_sim_read [where g = "\<lambda>ctx s. getChainMetadata ctx (hm_ChainSelector r) False s"
          and f = "\<lambda>x ctx s. case x of Inr _ \<Rightarrow> fail (ErrOther ''chain metadata already exists'') s
           | Inl e \<Rightarrow> if e \<noteq> ErrChainMetadataNotFound then fail e s
               else setChainMetadata ctx (hm_ChainSelector r) r s", OF tx_get(2)])
      (assumption | intro tx_sims)+
  show "tx_sim tx (\<lambda>ctx. CatalogChain_Upsert ctx k m opts)"
    unfolding CatalogChain_Upsert_def
    by (rule tx_sim_read [where g = "\<lambda>ctx s. CatalogChain_Get ctx k [] s"
          and f = "\<lambda>x ctx s. case (case x of
                Inl e \<Rightarrow> if e \<noteq> ErrChainMetadataNotFound then Inl e else Inr m
              | Inr currentRecord \<Rightarrow> apply_update_options opts (hm_Metadata currentRecord) m) of
              Inl e \<Rightarrow> fail e s
            | Inr finalMetadata \<Rightarrow> setChainMetadata ctx (hk_chainSelector k) \<lparr>hm_ChainSelector = hk_chainSelector k, hm_Metadata = finalMetadata\<rparr> s",
          OF catalog_chain_get]) (assumption | intro tx_sims)+
  show "tx_sim tx (\<lambda>ctx. CatalogChain_Update ctx k m opts)"
    unfolding CatalogChain_Update_def
    by (rule tx_sim_read [where g = "\<lambda>ctx s. CatalogChain_Get ctx k [] s"
          and f = "\<lambda>x ctx s. case x of Inl e \<Rightarrow> fail e s
            | Inr currentRecord \<Rightarrow> (case apply_update_options opts (hm_Metadata currentRecord) m of
              Inl e \<Rightarrow> fail e s
            | Inr finalMetadata \<Rightarrow> setChainMetadata ctx (hk_chainSelector k) \<lparr>hm_ChainSelector = hk_chainSelector k, hm_Metadata = finalMetadata\<rparr> s)",
          OF catalog_chain_get]) (assumption | intro tx_sims)+
  show "tx_sim tx (\<lambda>ctx. CatalogChain_Delete ctx k)"
    unfolding CatalogChain_Delete_def by (rule tx_sim_fail)
qed

lemma catalog_contract_get:
  "ms_transactions s tx \<noteq> None \<Longrightarrow> CatalogContract_Get None k [] (tx_sees tx s) = CatalogContract_Get (Some tx) k [] s"
  by (simp add: CatalogContract_Get_def ignores_transactions_def tx_get)

lemma catalog_contract_sim:
  "tx_sim tx (\<lambda>ctx. CatalogContract_Add ctx r)"
  "tx_sim tx (\<lambda>ctx. CatalogContract_Upsert ctx k m opts)"
  "tx_sim tx (\<lambda>ctx. CatalogContract_Update ctx k m opts)"
  "tx_sim tx (\<lambda>ctx. CatalogContract_Delete ctx k)"
proof -
  show "tx_sim tx (\<lambda>ctx. CatalogContract_Add ctx r)"
    unfolding CatalogContract_Add_def
    by (rule tx_sim_read [where g = "\<lambda>ctx s. getContractMetadata ctx (contractMetadataKey (cm_ChainSelector r) (cm_Address r)) False s"
          and f = "\<lambda>x ctx s. case x of Inr _ \<Rightarrow> fail (ErrOther ''contract metadata already exists'') s
           | Inl e \<Rightarrow> if e \<noteq> ErrContractMetadataNotFound then fail e s
               else setContractMetadata ctx (contractMetadataKey (cm_ChainSelector r) (cm_Address r)) r s", OF tx_get(3)])
      (assumption | intro tx_sims)+
  show "tx_sim tx (\<lambda>ctx. CatalogContract_Upsert ctx k m opts)"
    unfolding CatalogContract_Upsert_def
    by (rule tx_sim_read [where g = "\<lambda>ctx s. CatalogContract_Get ctx k [] s"
          and f = "\<lambda>x ctx s. case (case x of
                Inl e \<Rightarrow> if e \<noteq> ErrContractMetadataNotFound then Inl e else Inr m
              | Inr currentRecord \<Rightarrow> apply_update_options opts (cm_Metadata currentRecord) m) of
              Inl e \<Rightarrow> fail e s
            | Inr finalMetadata \<Rightarrow> setContractMetadata ctx (contractMetadataKey (ck_chainSelector k) (ck_address k)) \<lparr>cm_Address = ck_address k, cm_ChainSelector = ck_chainSelector k, cm_Metadata = finalMetadata\<rparr> s",
          OF catalog_contract_get]) (assumption | intro tx_sims)+
  show "tx_sim tx (\<lambda>ctx. CatalogContract_Update ctx k m opts)"
    unfolding CatalogContract_Update_def
    by (rule tx_sim_read [where g = "\<lambda>ctx s. CatalogContract_Get ctx k [] s"
          and f = "\<lambda>x ctx s. case x of Inl e \<Rightarrow> fail e s
            | Inr currentRecord \<Rightarrow> (case apply_update_options opts (cm_Metadata currentRecord) m of
              Inl e \<Rightarrow> fail e s
            | Inr finalMetadata \<Rightarrow> setContractMetadata ctx (contractMetadataKey (ck_chainSelector k) (ck_address k)) \<lparr>cm_Address = ck_address k, cm_ChainSelector = ck_chainSelector k, cm_Metadata = finalMetadata\<rparr> s)",
          OF catalog_contract_get]) (assumption | intro tx_sims)+
  show "tx_sim tx (\<lambda>ctx. CatalogContract_Delete ctx k)"
    unfolding CatalogContract_Delete_def by (rule tx_sim_fail)
qed

lemma catalog_env_sim: "tx_sim tx (\<lambda>ctx. CatalogEnv_Set ctx m opts)"
proof -
  have get: "CatalogEnv_Get None [] (tx_sees tx s) = CatalogEnv_Get (Some tx) [] s"
    if "ms_transactions s tx \<noteq> None" for s :: "'a memoryStorage"
    using that by (simp add: CatalogEnv_Get_def ignores_transactions_def tx_get)
  show ?thesis
    unfolding CatalogEnv_Set_def
    by (rule tx_sim_read [where g = "\<lambda>ctx s. CatalogEnv_Get ctx [] s"
          and f = "\<lambda>x ctx s. case (case x of
                Inl e \<Rightarrow> if e \<noteq> ErrEnvMetadataNotSet then Inl e else Inr m
              | Inr currentRecord \<Rightarrow> apply_update_options opts (em_Metadata currentRecord) m) of
              Inl e \<Rightarrow> fail e s
            | Inr finalMetadata \<Rightarrow> setEnvMetadata ctx \<lparr>em_Metadata = finalMetadata\<rparr> s",
          OF get]) (assumption | intro tx_sims)+
qed

lemma catalog_op_sim: "tx_sim tx (\<lambda>ctx. catalog_op sv ctx x)"
  by (cases x) (simp_all add: catalog_address_sim catalog_chain_sim catalog_contract_sim catalog_env_sim)

lemma tx_sim_step:
  assumes "tx_sim tx f" "ms_transactions s tx \<noteq> None"
  shows "only_tx tx s (snd (f (Some tx) s))"
    and "f None (tx_sees tx s) = (fst (f (Some tx) s), tx_sees tx (snd (f (Some tx) s)))"
  using assms unfolding tx_sim_def by blast+

lemma tx_sim_and_then:
  assumes f: "tx_sim tx f" and g: "tx_sim tx g"
  shows "tx_sim tx (\<lambda>ctx s. and_then (f ctx s) (g ctx))"
  unfolding tx_sim_def
proof (intro allI impI)
  fix s :: "'a memoryStorage"
  assume active: "ms_transactions s tx \<noteq> None"
  obtain e t where step: "f (Some tx) s = (e, t)" by fastforce
  have one: "only_tx tx s t" "f None (tx_sees tx s) = (e, tx_sees tx t)"
    using tx_sim_step [OF f active] step by simp_all
  show "only_tx tx s (snd (and_then (f (Some tx) s) (g (Some tx)))) \<and>
    and_then (f None (tx_sees tx s)) (g None) =
      (fst (and_then (f (Some tx) s) (g (Some tx))), tx_sees tx (snd (and_then (f (Some tx) s) (g (Some tx)))))"
  proof (cases e)
    case None
    have "ms_transactions t tx \<noteq> None" using one(1) by (rule only_tx_active)
    from tx_sim_step [OF g this] show ?thesis
      using one step None only_tx_trans [OF one(1)] by simp
  next
    case (Some err)
    then show ?thesis using one step by simp
  qed
qed

lemma for_each_and_then: "for_each f (x # xs) s = and_then (f x s) (for_each f xs)"
  by (simp add: and_then_def)

lemma tx_sim_for_each:
  assumes "\<And>x. tx_sim tx (\<lambda>ctx. f ctx x)"
  shows "tx_sim tx (\<lambda>ctx. for_each (f ctx) xs)"
proof (induction xs)
  case Nil
  show ?case by (auto simp: tx_sim_def only_tx_refl)
next
  case (Cons x xs)
  show ?case
    unfolding for_each_and_then by (rule tx_sim_and_then [OF assms Cons.IH])
qed

text \<open>The numbers of the open transactions are below the counter.\<close>

definition storage_ok :: "'v memoryStorage \<Rightarrow> bool" where
  "storage_ok s \<longleftrightarrow> (\<forall>tx. ms_transactions s tx \<noteq> None \<longrightarrow> tx < ms_next s)"

lemma storage_ok_new: "storage_ok newMemoryStorage"
  by (simp add: storage_ok_def newMemoryStorage_def)

lemma storage_next_irrelevant:
  "tx_sees tx (s\<lparr>ms_next := n\<rparr>) = (tx_sees tx s)\<lparr>ms_next := n\<rparr>"
  by (auto simp: tx_sees_def commitTransaction_def ret_def fail_def split: option.split)

lemma begin_sees:
  assumes "storage_ok s"
  shows "tx_sees (fst (beginTransaction s)) (snd (beginTransaction s)) = s\<lparr>ms_next := Suc (ms_next s)\<rparr>"
proof -
  have "ms_transactions s (ms_next s) = None" using assms by (auto simp: storage_ok_def)
  then show ?thesis
    by (simp add: beginTransaction_def Let_def tx_sees_def commitTransaction_def ret_def
        emptyTransactionData_def fun_upd_idem)
qed

lemma transaction_law:
  assumes "storage_ok s" and sim: "\<And>tx. tx_sim tx fn"
  shows "WithTransaction ctx fn s =
    (case fn None (s\<lparr>ms_next := Suc (ms_next s)\<rparr>) of
       (None, t) \<Rightarrow> (None, t)
     | (Some e, t) \<Rightarrow> (Some e, s\<lparr>ms_next := Suc (ms_next s)\<rparr>))"
proof -
  obtain tx b where b: "beginTransaction s = (tx, b)" by fastforce
  then have tx: "tx = ms_next s" "ms_transactions b tx \<noteq> None"
    "b = s\<lparr>ms_transactions := (ms_transactions s)(tx \<mapsto> emptyTransactionData), ms_next := Suc tx\<rparr>"
    by (auto simp: beginTransaction_def Let_def)
  have new: "ms_transactions s tx = None" using assms tx(1) by (auto simp: storage_ok_def)
  obtain e t where run: "fn (Some tx) b = (e, t)" by fastforce
  have sees: "tx_sees tx b = s\<lparr>ms_next := Suc (ms_next s)\<rparr>" using begin_sees [OF assms(1)] b by simp
  have step: "only_tx tx b t" "fn None (tx_sees tx b) = (e, tx_sees tx t)"
    using tx_sim_step [OF sim tx(2)] run by simp_all
  then obtain d where t: "t = b\<lparr>ms_transactions := (ms_transactions b)(tx \<mapsto> d)\<rparr>"
    by (auto simp: only_tx_def)
  have roll: "snd (rollbackTransaction tx t) = s\<lparr>ms_next := Suc (ms_next s)\<rparr>"
    using new by (simp add: t tx(3) rollbackTransaction_def ret_def tx(1) fun_upd_idem)
  have commit: "commitTransaction tx t = (None, tx_sees tx t)"
    by (simp add: tx_sees_def commitTransaction_def t ret_def)
  show ?thesis
    using step(2) unfolding WithTransaction_def Let_def b prod.case run sees
    by (cases e) (simp_all add: roll commit)
qed

text \<open>
  C2: A transaction is atomic and isolated. A program of catalog writes run by
  \<open>WithTransaction\<close> returns what the same writes return when they are applied directly to the
  storage; if they all succeed the storage ends as the direct run leaves it, and on the first
  error every store is as it was before (only the counter of transactions has moved).
\<close>

theorem WithTransaction_atomic:
  assumes "storage_ok s"
  shows "WithTransaction ctx (\<lambda>ctx. for_each (catalog_op sv ctx) ops) s =
    (case for_each (catalog_op sv None) ops (s\<lparr>ms_next := Suc (ms_next s)\<rparr>) of
       (None, t) \<Rightarrow> (None, t)
     | (Some e, t) \<Rightarrow> (Some e, s\<lparr>ms_next := Suc (ms_next s)\<rparr>))"
  using assms by (rule transaction_law) (rule tx_sim_for_each [OF catalog_op_sim])

theorem WithTransaction_atomic_witness:
  "snd (WithTransaction None (\<lambda>ctx. for_each (catalog_op nat_semver ctx)
      [AddressUpsert example_ref, AddressDelete (AddressRef_Key example_ref)]) newMemoryStorage) =
   newMemoryStorage\<lparr>ms_next := 1\<rparr>"
  unfolding WithTransaction_atomic [OF storage_ok_new]
  by (simp add: CatalogAddress_Upsert_def CatalogAddress_Delete_def ref_composite_key_def example_ref_def
      setAddressRef_def getTransaction_simps ret_def fail_def newMemoryStorage_def)

end
