(* ===== verification/Catalog_Sync.thy ===== *)
theory Catalog_Sync
  imports Catalog_Memory
begin

text \<open>
  Merging a data store into a catalog (\<open>datastore/catalog\_syncer.go\<close>) and loading a data
  store from a catalog (\<open>datastore/catalog\_loader.go\<close>), on the in-memory catalog of
  Catalog\_Memory. The order in which a fetch lists a map of the catalog is a parameter of the
  load; the theorems hold for every order.
\<close>

section \<open>The two functions\<close>

definition sync_addresses ::
  "'v semver \<Rightarrow> 'v address_store \<Rightarrow> tx_ctx \<Rightarrow> 'v memoryStorage \<Rightarrow> (ds_error, 'v memoryStorage) eff" where
  "sync_addresses sv src ctx s =
     and_then (for_each (CatalogAddress_Upsert sv ctx) (AddressRefStore_Fetch src) s)
       (for_each (\<lambda>dk s.
          case NewAddressRefKeyFromString sv dk of
            Inl e \<Rightarrow> fail e s
          | Inr key \<Rightarrow> CatalogAddress_Delete ctx key s) (as_DeletedRemoteKeys src))"

definition sync_chains ::
  "chain_metadata_store \<Rightarrow> tx_ctx \<Rightarrow> 'v memoryStorage \<Rightarrow> (ds_error, 'v memoryStorage) eff" where
  "sync_chains src ctx s =
     (case ChainStore_Fetch src of
        Inl e \<Rightarrow> fail e s
      | Inr records \<Rightarrow>
          and_then (for_each (\<lambda>r. CatalogChain_Upsert ctx (NewChainMetadataKey (hm_ChainSelector r)) (hm_Metadata r) [])
              records s)
            (for_each (\<lambda>dk s.
               case NewChainMetadataKeyFromString dk of
                 Inl e \<Rightarrow> fail e s
               | Inr key \<Rightarrow> CatalogChain_Delete ctx key s) (hms_DeletedRemoteKeys src)))"

definition sync_contracts ::
  "contract_metadata_store \<Rightarrow> tx_ctx \<Rightarrow> 'v memoryStorage \<Rightarrow> (ds_error, 'v memoryStorage) eff" where
  "sync_contracts src ctx s =
     (case ContractStore_Fetch src of
        Inl e \<Rightarrow> fail e s
      | Inr records \<Rightarrow>
          and_then (for_each (\<lambda>r. CatalogContract_Upsert ctx
              (NewContractMetadataKey (cm_ChainSelector r) (cm_Address r)) (cm_Metadata r) []) records s)
            (for_each (\<lambda>dk s.
               case NewContractMetadataKeyFromString dk of
                 Inl e \<Rightarrow> fail e s
               | Inr key \<Rightarrow> CatalogContract_Delete ctx key s) (cms_DeletedRemoteKeys src)))"

definition sync_env :: "env_store \<Rightarrow> tx_ctx \<Rightarrow> 'v memoryStorage \<Rightarrow> (ds_error, 'v memoryStorage) eff" where
  "sync_env src ctx s =
     (case EnvStore_Get src of
        Inl e \<Rightarrow> if e \<noteq> ErrEnvMetadataNotSet then fail e s else ret s
      | Inr envMetadata \<Rightarrow> CatalogEnv_Set ctx (em_Metadata envMetadata) [] s)"

definition MergeDataStoreToCatalog ::
  "'v semver \<Rightarrow> tx_ctx \<Rightarrow> 'v memory_data_store \<Rightarrow> 'v memoryStorage \<Rightarrow> (ds_error, 'v memoryStorage) eff" where
  "MergeDataStoreToCatalog sv ctx sourceDS s =
     WithTransaction ctx (\<lambda>ctx s.
       and_then (sync_addresses sv (ds_Addresses sourceDS) ctx s) (\<lambda>s.
       and_then (sync_chains (ds_Chains sourceDS) ctx s) (\<lambda>s.
       and_then (sync_contracts (ds_Contracts sourceDS) ctx s) (\<lambda>s.
       sync_env (ds_Env sourceDS) ctx s)))) s"

text \<open>
  The fetches of the memory catalog do not fail. \<open>None\<close> in the error position of the result is
  the sealed store.
\<close>

definition LoadDataStoreFromCatalog ::
  "'v semver \<Rightarrow> tx_ctx \<Rightarrow> string list \<Rightarrow> u64 list \<Rightarrow> string list \<Rightarrow> 'v memoryStorage \<Rightarrow>
   ds_error + 'v memory_data_store" where
  "LoadDataStoreFromCatalog sv ctx address_order chain_order contract_order s =
     (case and_then (for_each (\<lambda>ref. on_addresses (AddressRefStore_Add sv ref))
              (CatalogAddress_Fetch ctx address_order s) NewMemoryDataStore) (\<lambda>ds.
           and_then (for_each (\<lambda>r. on_chains (ChainStore_Add r)) (CatalogChain_Fetch ctx chain_order s) ds) (\<lambda>ds.
           and_then (for_each (\<lambda>r. on_contracts (ContractStore_Add r)) (CatalogContract_Fetch ctx contract_order s) ds) (\<lambda>ds.
           case CatalogEnv_Get ctx [] s of
             Inl e \<Rightarrow> if e \<noteq> ErrEnvMetadataNotSet then fail e ds else ret ds
           | Inr envMetadata \<Rightarrow> on_env (EnvStore_Set envMetadata) ds))) of
        (Some e, ds) \<Rightarrow> Inl e
      | (None, ds) \<Rightarrow> Inr (Seal ds))"

section \<open>The sync is one transaction\<close>

lemma sync_sims:
  "tx_sim tx (sync_addresses sv a)" "tx_sim tx (sync_chains c)" "tx_sim tx (sync_contracts m)" "tx_sim tx (sync_env e)"
proof -
  have parse: "tx_sim tx (\<lambda>ctx s. case p of Inl e \<Rightarrow> fail e s | Inr key \<Rightarrow> f ctx key s)"
    if "\<And>k. tx_sim tx (\<lambda>ctx. f ctx k)" for p :: "ds_error + 'k" and f
    using that by (intro tx_sim_case) (auto intro: tx_sim_fail)
  show "tx_sim tx (sync_addresses sv a)"
    unfolding sync_addresses_def [abs_def]
    by (intro tx_sim_and_then tx_sim_for_each parse catalog_address_sim)
  show "tx_sim tx (sync_chains c)"
    unfolding sync_chains_def [abs_def]
    by (intro tx_sim_case tx_sim_fail tx_sim_and_then tx_sim_for_each parse catalog_chain_sim)
  show "tx_sim tx (sync_contracts m)"
    unfolding sync_contracts_def [abs_def]
    by (intro tx_sim_case tx_sim_fail tx_sim_and_then tx_sim_for_each parse catalog_contract_sim)
  have ok: "tx_sim tx (\<lambda>ctx. ret)" by (auto simp: tx_sim_def ret_def only_tx_refl)
  show "tx_sim tx (sync_env e)"
    unfolding sync_env_def [abs_def]
    by (intro tx_sim_case tx_sim_if tx_sim_fail ok catalog_env_sim)
qed

lemma merge_to_catalog_law:
  assumes "storage_ok s"
  shows "MergeDataStoreToCatalog sv ctx src s =
    (case and_then (sync_addresses sv (ds_Addresses src) None (s\<lparr>ms_next := Suc (ms_next s)\<rparr>)) (\<lambda>s.
          and_then (sync_chains (ds_Chains src) None s) (\<lambda>s.
          and_then (sync_contracts (ds_Contracts src) None s) (\<lambda>s.
          sync_env (ds_Env src) None s))) of
       (None, t) \<Rightarrow> (None, t)
     | (Some e, t) \<Rightarrow> (Some e, s\<lparr>ms_next := Suc (ms_next s)\<rparr>))"
  unfolding MergeDataStoreToCatalog_def
  by (rule transaction_law [OF assms]) (intro tx_sim_and_then sync_sims)

text \<open>
  Merging into the in-memory catalog a store that has any deletion staged (of an address, a
  chain or a contract) returns an error and leaves every store of the catalog as it was.
\<close>

lemma sync_of_staged_deletion_fails:
  assumes "storage_ok s"
    and "as_DeletedRemoteKeys (ds_Addresses src) \<noteq> [] \<or> hms_DeletedRemoteKeys (ds_Chains src) \<noteq> [] \<or>
      cms_DeletedRemoteKeys (ds_Contracts src) \<noteq> []"
  shows "fst (MergeDataStoreToCatalog sv ctx src s) \<noteq> None \<and>
    snd (MergeDataStoreToCatalog sv ctx src s) = s\<lparr>ms_next := Suc (ms_next s)\<rparr>"
proof -
  have bad: "fst (for_each (\<lambda>dk s. case p dk of Inl e \<Rightarrow> fail e s | Inr key \<Rightarrow> del key s) ks t) \<noteq> None"
    if "\<And>k s. fst (del k s) \<noteq> None" "ks \<noteq> []"
    for ks and p :: "string \<Rightarrow> ds_error + 'k" and del and t :: "'a memoryStorage"
  proof (cases ks)
    case (Cons k ks')
    have "fst (case p k of Inl e \<Rightarrow> fail e t | Inr key \<Rightarrow> del key t) \<noteq> None"
      using that(1) by (cases "p k") (auto simp: fail_def)
    then show ?thesis unfolding Cons for_each_and_then fst_and_then_None by simp
  qed (use that(2) in simp)
  have "fst (sync_addresses sv (ds_Addresses src) None t) \<noteq> None" if "as_DeletedRemoteKeys (ds_Addresses src) \<noteq> []" for t
    using bad [OF _ that, of "CatalogAddress_Delete None"] by (simp add: sync_addresses_def fst_and_then_None CatalogAddress_Delete_def)
  moreover have "fst (sync_chains (ds_Chains src) None t) \<noteq> None"
    if "hms_DeletedRemoteKeys (ds_Chains src) \<noteq> []" for t :: "'a memoryStorage"
    using bad [OF _ that, of "CatalogChain_Delete None"] by (cases "ChainStore_Fetch (ds_Chains src)")
      (simp_all add: sync_chains_def fst_and_then_None CatalogChain_Delete_def del: not_None_eq)
  moreover have "fst (sync_contracts (ds_Contracts src) None t) \<noteq> None"
    if "cms_DeletedRemoteKeys (ds_Contracts src) \<noteq> []" for t :: "'a memoryStorage"
    using bad [OF _ that, of "CatalogContract_Delete None"] by (cases "ContractStore_Fetch (ds_Contracts src)")
      (simp_all add: sync_contracts_def fst_and_then_None CatalogContract_Delete_def del: not_None_eq)
  moreover define run where "run = and_then (sync_addresses sv (ds_Addresses src) None (s\<lparr>ms_next := Suc (ms_next s)\<rparr>)) (\<lambda>s.
          and_then (sync_chains (ds_Chains src) None s) (\<lambda>s.
          and_then (sync_contracts (ds_Contracts src) None s) (\<lambda>s.
          sync_env (ds_Env src) None s)))"
  ultimately have "fst run \<noteq> None"
    using assms(2) unfolding run_def fst_and_then_None by blast
  then obtain e t where "run = (Some e, t)" by (cases run; cases "fst run") auto
  then show ?thesis
    unfolding merge_to_catalog_law [OF assms(1)] run_def [symmetric] by simp
qed

lemma sync_of_staged_deletion_fails_witness:
  "fst (MergeDataStoreToCatalog nat_semver None example_other newMemoryStorage) \<noteq> None"
  using sync_of_staged_deletion_fails [OF storage_ok_new, of example_other nat_semver None]
  by (simp add: example_other_def)

section \<open>What a sync writes\<close>

definition composite :: "'v semver \<Rightarrow> 'v address_ref \<Rightarrow> string" where
  "composite sv r = the (ref_composite_key sv r)"

definition contract_composite :: "contract_metadata \<Rightarrow> string" where
  "contract_composite r = contractMetadataKey (cm_ChainSelector r) (cm_Address r)"

lemma upsert_addresses_all:
  assumes "\<forall>r \<in> set rs. ar_Version r \<noteq> None"
  shows "for_each (CatalogAddress_Upsert sv None) rs s =
    (None, s\<lparr>ms_addressRefs := put_all (composite sv) rs (ms_addressRefs s)\<rparr>)"
  using assms
proof (induction rs arbitrary: s)
  case (Cons r rs)
  then have "CatalogAddress_Upsert sv None r s = (None, s\<lparr>ms_addressRefs := (ms_addressRefs s)(composite sv r \<mapsto> r)\<rparr>)"
    by (auto simp: CatalogAddress_Upsert_def ref_composite_key_def composite_def setAddressRef_def
        getTransaction_simps ret_def)
  with Cons show ?case by simp
qed simp

lemma upsert_chains_all:
  "for_each (\<lambda>r. CatalogChain_Upsert None (NewChainMetadataKey (hm_ChainSelector r)) (hm_Metadata r) []) rs s =
    (None, s\<lparr>ms_chainMetadata := put_all hm_ChainSelector rs (ms_chainMetadata s)\<rparr>)"
proof (induction rs arbitrary: s)
  case (Cons r rs)
  have "CatalogChain_Upsert None (NewChainMetadataKey (hm_ChainSelector r)) (hm_Metadata r) [] s =
      (None, s\<lparr>ms_chainMetadata := (ms_chainMetadata s)(hm_ChainSelector r \<mapsto> r)\<rparr>)"
    by (cases r) (auto simp: CatalogChain_Upsert_def CatalogChain_Get_def getChainMetadata_def setChainMetadata_def
        getTransaction_simps ret_def NewChainMetadataKey_def apply_update_options_def IdentityUpdaterF_def
        split: option.split)
  with Cons show ?case by simp
qed simp

lemma upsert_contracts_all:
  "for_each (\<lambda>r. CatalogContract_Upsert None (NewContractMetadataKey (cm_ChainSelector r) (cm_Address r)) (cm_Metadata r) []) rs s =
    (None, s\<lparr>ms_contractMetadata := put_all contract_composite rs (ms_contractMetadata s)\<rparr>)"
proof (induction rs arbitrary: s)
  case (Cons r rs)
  have "CatalogContract_Upsert None (NewContractMetadataKey (cm_ChainSelector r) (cm_Address r)) (cm_Metadata r) [] s =
      (None, s\<lparr>ms_contractMetadata := (ms_contractMetadata s)(contract_composite r \<mapsto> r)\<rparr>)"
    by (cases r) (auto simp: CatalogContract_Upsert_def CatalogContract_Get_def getContractMetadata_def setContractMetadata_def
        getTransaction_simps ret_def NewContractMetadataKey_def apply_update_options_def IdentityUpdaterF_def
        contract_composite_def split: option.split)
  with Cons show ?case by simp
qed simp

text \<open>Composite keys tell records apart: a version has no colon, and the types must not have one.\<close>

lemma addressRefKey_inj:
  assumes "CHR '':'' \<notin> set t" "CHR '':'' \<notin> set t'" "CHR '':'' \<notin> set v" "CHR '':'' \<notin> set v'"
    and "addressRefKey c t v q = addressRefKey c' t' v' q'"
  shows "c = c' \<and> t = t' \<and> v = v' \<and> q = q'"
proof -
  have parts: "split_on (CHR '':'') (addressRefKey d u w r) = format_uint d # u # w # split_on (CHR '':'') r"
    if "CHR '':'' \<notin> set u" "CHR '':'' \<notin> set w" for d u w r
    using that by (simp add: addressRefKey_def split_on_append)
  have "format_uint c # t # v # split_on (CHR '':'') q = format_uint c' # t' # v' # split_on (CHR '':'') q'"
    using parts [OF assms(1,3), of c q] parts [OF assms(2,4), of c' q'] assms(5) by simp
  then show ?thesis by (auto dest: arg_cong [of _ _ "join_with '':''"] simp: join_split_on)
qed

lemma composite_inj:
  assumes sv: "semver_ok sv" and inv: "address_inv sv a"
    and "\<forall>r \<in> set (as_Records a). CHR '':'' \<notin> set (ar_Type r)"
  shows "inj_on (composite sv) (set (as_Records a))"
proof (rule inj_onI)
  fix x y
  assume xy: "x \<in> set (as_Records a)" "y \<in> set (as_Records a)" "composite sv x = composite sv y"
  obtain v w where v: "ar_Version x = Some v" "ar_Version y = Some w"
    using xy inv unfolding address_inv_def by (metis not_None_eq)
  have "ar_ChainSelector x = ar_ChainSelector y \<and> ar_Type x = ar_Type y \<and> sv_String sv v = sv_String sv w \<and>
      ar_Qualifier x = ar_Qualifier y"
    by (rule addressRefKey_inj)
      (use xy v assms(3) semver_okD(8) [OF sv] in \<open>auto simp: composite_def ref_composite_key_def\<close>)
  then have "addressRefKey_Equals sv (AddressRef_Key x) (AddressRef_Key y)"
    using v semver_string_eq [OF sv, of v w]
    by (simp add: addressRefKey_Equals_def AddressRef_Key_def NewAddressRefKey_def)
  moreover have "unique_keys (addressRefKey_Equals sv) AddressRef_Key (as_Records a)"
    using inv by (simp add: address_inv_def)
  ultimately show "x = y"
    using xy unfolding unique_keys_iff [OF addressRefKey_equivp [OF sv]] by blast
qed

lemma contract_composite_inj: "contract_composite x = contract_composite y \<Longrightarrow> ContractMetadata_Key x = ContractMetadata_Key y"
proof -
  assume eq: "contract_composite x = contract_composite y"
  have parts: "split_on (CHR '':'') (contract_composite z) = format_uint (cm_ChainSelector z) # split_on (CHR '':'') (cm_Address z)" for z
    by (simp add: contract_composite_def contractMetadataKey_def split_on_append)
  have "format_uint (cm_ChainSelector x) # split_on (CHR '':'') (cm_Address x) =
      format_uint (cm_ChainSelector y) # split_on (CHR '':'') (cm_Address y)"
    using parts [of x] parts [of y] eq by simp
  then show ?thesis
    by (auto dest: arg_cong [of _ _ "join_with '':''"] simp: join_split_on ContractMetadata_Key_def NewContractMetadataKey_def)
qed

lemma sync_law:
  assumes "storage_ok s" "data_store_inv sv src" "metadata_copyable src"
    and none: "as_DeletedRemoteKeys (ds_Addresses src) = []" "hms_DeletedRemoteKeys (ds_Chains src) = []"
      "cms_DeletedRemoteKeys (ds_Contracts src) = []"
  shows "MergeDataStoreToCatalog sv ctx src s =
    (None, s\<lparr>ms_next := Suc (ms_next s),
      ms_addressRefs := put_all (composite sv) (as_Records (ds_Addresses src)) (ms_addressRefs s),
      ms_chainMetadata := put_all hm_ChainSelector (map chain_copy (hms_Records (ds_Chains src))) (ms_chainMetadata s),
      ms_contractMetadata := put_all contract_composite (map contract_copy (cms_Records (ds_Contracts src)))
        (ms_contractMetadata s),
      ms_envMetadata := (case es_Record (ds_Env src) of None \<Rightarrow> ms_envMetadata s | Some r \<Rightarrow> Some (env_copy r))\<rparr>)"
proof -
  obtain cs ms where fetched: "ChainStore_Fetch (ds_Chains src) = Inr cs"
    "ContractStore_Fetch (ds_Contracts src) = Inr ms" using copyable_fetch [OF assms(3)] .
  then have copies: "cs = map chain_copy (hms_Records (ds_Chains src))"
    "ms = map contract_copy (cms_Records (ds_Contracts src))"
    by (simp_all add: ChainStore_Fetch_def ContractStore_Fetch_def chain_clone_all_copies contract_clone_all_copies)
  have vers: "\<forall>r \<in> set (as_Records (ds_Addresses src)). ar_Version r \<noteq> None"
    using assms(2) by (simp add: data_store_inv_def address_inv_def)
  have env: "sync_env (ds_Env src) None t = (None, t\<lparr>ms_envMetadata :=
      (case es_Record (ds_Env src) of None \<Rightarrow> ms_envMetadata t | Some r \<Rightarrow> Some (env_copy r))\<rparr>)" for t :: "'a memoryStorage"
    using assms(3)
    by (auto simp: metadata_copyable_def sync_env_def EnvStore_Get_def EnvMetadata_Clone_def env_copy_def ret_def
        CatalogEnv_Set_def CatalogEnv_Get_def getEnvMetadata_def setEnvMetadata_def getTransaction_simps
        apply_update_options_def IdentityUpdaterF_def split: option.splits)
  show ?thesis
    unfolding merge_to_catalog_law [OF assms(1)]
    by (cases "es_Record (ds_Env src)")
      (simp_all add: sync_addresses_def sync_chains_def sync_contracts_def fetched copies none
        upsert_addresses_all [OF vers] upsert_chains_all upsert_contracts_all env)
qed

section \<open>A sync followed by a load\<close>

lemma copied_chain_keys:
  assumes "chain_inv a"
  shows "unique_keys chainMetadataKey_Equals ChainMetadata_Key (map chain_copy (hms_Records a))"
    and "inj_on hm_ChainSelector (set (map chain_copy (hms_Records a)))"
proof -
  show u: "unique_keys chainMetadataKey_Equals ChainMetadata_Key (map chain_copy (hms_Records a))"
    using assms by (simp add: chain_inv_def unique_keys_def sorted_wrt_map chain_copy_key)
  show "inj_on hm_ChainSelector (set (map chain_copy (hms_Records a)))"
  proof (rule inj_onI)
    fix x y
    assume xy: "x \<in> set (map chain_copy (hms_Records a))" "y \<in> set (map chain_copy (hms_Records a))"
      "hm_ChainSelector x = hm_ChainSelector y"
    then have "chainMetadataKey_Equals (ChainMetadata_Key x) (ChainMetadata_Key y)"
      by (simp add: ChainMetadata_Key_def)
    with xy u show "x = y" unfolding unique_keys_iff [OF chain_equivp] by blast
  qed
qed

lemma copied_contract_keys:
  assumes "contract_inv a"
  shows "unique_keys contractMetadataKey_Equals ContractMetadata_Key (map contract_copy (cms_Records a))"
    and "inj_on contract_composite (set (map contract_copy (cms_Records a)))"
proof -
  show u: "unique_keys contractMetadataKey_Equals ContractMetadata_Key (map contract_copy (cms_Records a))"
    using assms by (simp add: contract_inv_def unique_keys_def sorted_wrt_map contract_copy_key)
  show "inj_on contract_composite (set (map contract_copy (cms_Records a)))"
  proof (rule inj_onI)
    fix x y
    assume xy: "x \<in> set (map contract_copy (cms_Records a))" "y \<in> set (map contract_copy (cms_Records a))"
      "contract_composite x = contract_composite y"
    then have "contractMetadataKey_Equals (ContractMetadata_Key x) (ContractMetadata_Key y)"
      using contract_composite_inj [OF xy(3)] by simp
    with xy u show "x = y" unfolding unique_keys_iff [OF contract_equivp] by blast
  qed
qed

lemma load_law:
  assumes sv: "semver_ok sv"
    and a: "ms_addressRefs s = put_all (composite sv) as Map.empty" "inj_on (composite sv) (set as)"
      "unique_keys (addressRefKey_Equals sv) AddressRef_Key as" "\<forall>r \<in> set as. ar_Version r \<noteq> None"
      "iteration_of (ms_addressRefs s) ao"
    and c: "ms_chainMetadata s = put_all hm_ChainSelector cs Map.empty" "inj_on hm_ChainSelector (set cs)"
      "unique_keys chainMetadataKey_Equals ChainMetadata_Key cs" "iteration_of (ms_chainMetadata s) co"
    and m: "ms_contractMetadata s = put_all contract_composite ms Map.empty" "inj_on contract_composite (set ms)"
      "unique_keys contractMetadataKey_Equals ContractMetadata_Key ms" "iteration_of (ms_contractMetadata s) mo"
  shows "\<exists>ds. LoadDataStoreFromCatalog sv None ao co mo s = Inr ds \<and> data_store_inv sv ds \<and>
    address_lookup sv (ds_Addresses ds) = find_rec (addressRefKey_Equals sv) AddressRef_Key as \<and>
    chain_lookup (ds_Chains ds) = find_rec chainMetadataKey_Equals ChainMetadata_Key cs \<and>
    contract_lookup (ds_Contracts ds) = find_rec contractMetadataKey_Equals ContractMetadata_Key ms \<and>
    es_Record (ds_Env ds) = ms_envMetadata s"
proof -
  let ?as = "in_order (ms_addressRefs s) ao" and ?cs = "in_order (ms_chainMetadata s) co"
    and ?ms = "in_order (ms_contractMetadata s) mo"
  have empty: "address_inv sv NewMemoryAddressRefStore" "chain_inv NewMemoryChainMetadataStore"
    "contract_inv NewMemoryContractMetadataStore"
    "address_lookup sv NewMemoryAddressRefStore = (\<lambda>k. None)" "chain_lookup NewMemoryChainMetadataStore = (\<lambda>k. None)"
    "contract_lookup NewMemoryContractMetadataStore = (\<lambda>k. None)"
    by (rule address_inv_new chain_inv_new contract_inv_new)+
      (simp_all add: address_lookup_def chain_lookup_def contract_lookup_def NewMemoryAddressRefStore_def
        NewMemoryChainMetadataStore_def NewMemoryContractMetadataStore_def fun_eq_iff)
  have fetched: "set ?as = set as" "set ?cs = set cs" "set ?ms = set ms" "distinct ?as" "distinct ?cs" "distinct ?ms"
    unfolding a(1) c(1) m(1)
    using put_all_listing [OF a(2) a(5) [unfolded a(1)]] put_all_listing [OF c(2) c(4) [unfolded c(1)]]
      put_all_listing [OF m(2) m(4) [unfolded m(1)]] by simp_all
  have ua: "unique_keys (addressRefKey_Equals sv) AddressRef_Key ?as"
    using a(3) fetched unfolding unique_keys_iff [OF addressRefKey_equivp [OF sv]] by simp
  have uc: "unique_keys chainMetadataKey_Equals ChainMetadata_Key ?cs"
    using c(3) fetched unfolding unique_keys_iff [OF chain_equivp] by simp
  have um: "unique_keys contractMetadataKey_Equals ContractMetadata_Key ?ms"
    using m(3) fetched unfolding unique_keys_iff [OF contract_equivp] by simp
  obtain x where x: "for_each (AddressRefStore_Add sv) ?as NewMemoryAddressRefStore = (None, x)" "address_inv sv x"
    "address_lookup sv x = find_rec (addressRefKey_Equals sv) AddressRef_Key as"
    using address_refs.add_fresh [OF sv empty(1) _ ua empty(4)] a(4) fetched(1)
      find_rec_same_set [OF addressRefKey_equivp [OF sv] ua a(3) fetched(1)] by auto
  obtain y where y: "for_each ChainStore_Add ?cs NewMemoryChainMetadataStore = (None, y)" "chain_inv y"
    "chain_lookup y = find_rec chainMetadataKey_Equals ChainMetadata_Key cs"
    using chain_records.add_fresh [OF _ empty(2) _ uc empty(5)]
      find_rec_same_set [OF chain_equivp uc c(3) fetched(2)] by auto
  obtain z where z: "for_each ContractStore_Add ?ms NewMemoryContractMetadataStore = (None, z)" "contract_inv z"
    "contract_lookup z = find_rec contractMetadataKey_Equals ContractMetadata_Key ms"
    using contract_records.add_fresh [OF _ empty(3) _ um empty(6)]
      find_rec_same_set [OF contract_equivp um m(3) fetched(3)] by auto
  show ?thesis
    using x y z unfolding LoadDataStoreFromCatalog_def for_each_parts
    by (cases "ms_envMetadata s")
      (simp_all add: CatalogAddress_Fetch_def CatalogChain_Fetch_def
        CatalogContract_Fetch_def getAllAddressRefs_def getAllChainMetadata_def getAllContractMetadata_def
        getTransaction_simps on_part_defs NewMemoryDataStore_def CatalogEnv_Get_def getEnvMetadata_def
        NewMemoryEnvMetadataStore_def EnvStore_Set_def ret_def Seal_def data_store_inv_def)
qed

text \<open>
  A store whose metadata cannot be copied is not synced either. With colons in the contract types two references may
  have the same composite key; the catalog keeps the last of them.
\<close>

lemma sync_of_uncopyable_fails:
  assumes "storage_ok s" "\<not> metadata_copyable src"
  shows "fst (MergeDataStoreToCatalog sv ctx src s) \<noteq> None \<and>
    snd (MergeDataStoreToCatalog sv ctx src s) = s\<lparr>ms_next := Suc (ms_next s)\<rparr>"
proof -
  have chains: "fst (sync_chains (ds_Chains src) None t) \<noteq> None"
    if r: "r \<in> set (hms_Records (ds_Chains src))" "json_clone (hm_Metadata r) = None" for r and t :: "'a memoryStorage"
  proof -
    have "chain_clone_all rs \<noteq> Inr cs" if "r \<in> set rs" for rs cs
      using that r(2) by (induction rs arbitrary: cs) (auto simp: ChainMetadata_Clone_def split: sum.splits)
    then obtain e where "ChainStore_Fetch (ds_Chains src) = Inl e"
      unfolding ChainStore_Fetch_def using r(1) by (metis sum.exhaust_sel)
    then show ?thesis by (simp add: sync_chains_def fail_def)
  qed
  have contracts: "fst (sync_contracts (ds_Contracts src) None t) \<noteq> None"
    if r: "r \<in> set (cms_Records (ds_Contracts src))" "json_clone (cm_Metadata r) = None" for r and t :: "'a memoryStorage"
  proof -
    have "contract_clone_all rs \<noteq> Inr cs" if "r \<in> set rs" for rs cs
      using that r(2) by (induction rs arbitrary: cs) (auto simp: ContractMetadata_Clone_def split: sum.splits)
    then obtain e where "ContractStore_Fetch (ds_Contracts src) = Inl e"
      unfolding ContractStore_Fetch_def using r(1) by (metis sum.exhaust_sel)
    then show ?thesis by (simp add: sync_contracts_def fail_def)
  qed
  have env: "fst (sync_env (ds_Env src) None t) \<noteq> None"
    if "es_Record (ds_Env src) = Some r" "json_clone (em_Metadata r) = None" for r and t :: "'a memoryStorage"
    using that by (simp add: sync_env_def EnvStore_Get_def EnvMetadata_Clone_def fail_def)
  define run where "run = and_then (sync_addresses sv (ds_Addresses src) None (s\<lparr>ms_next := Suc (ms_next s)\<rparr>)) (\<lambda>s.
          and_then (sync_chains (ds_Chains src) None s) (\<lambda>s.
          and_then (sync_contracts (ds_Contracts src) None s) (\<lambda>s.
          sync_env (ds_Env src) None s)))"
  have "fst run \<noteq> None"
    using assms(2) chains contracts env unfolding run_def fst_and_then_None metadata_copyable_def by (auto split: option.splits)
  then obtain e t where "run = (Some e, t)" by (cases run; cases "fst run") auto
  then show ?thesis
    unfolding merge_to_catalog_law [OF assms(1)] run_def [symmetric] by simp
qed

text \<open>The records that a map filled with them keeps: the last of each key.\<close>

lemma put_all_last:
  assumes "put_all key rs Map.empty k = Some r"
  shows "r \<in> set rs" "key r = k"
proof -
  have "put_all key rs m k = Some r \<Longrightarrow> r \<in> set rs \<and> key r = k \<or> m k = Some r" for m
  proof (induction rs arbitrary: m)
    case (Cons a rs)
    then show ?case by (fastforce split: if_splits)
  qed simp
  from this [OF assms] show "r \<in> set rs" "key r = k" by simp_all
qed

definition survivors :: "('r \<Rightarrow> 'k) \<Rightarrow> 'r list \<Rightarrow> 'r list" where
  "survivors key rs = filter (\<lambda>r. put_all key rs Map.empty (key r) = Some r) rs"

lemma survivors_law:
  shows "inj_on key (set (survivors key rs))"
    and "put_all key (survivors key rs) Map.empty = put_all key rs Map.empty"
    and "inj_on key (set rs) \<longleftrightarrow> set (survivors key rs) = set rs"
proof -
  have last: "put_all key rs Map.empty (key r) = Some r" if "r \<in> set (survivors key rs)" for r
    using that by (simp add: survivors_def)
  show inj: "inj_on key (set (survivors key rs))" by (rule inj_onI) (metis last option.inject)
  have same: "put_all key (survivors key rs) Map.empty k = Some r \<longleftrightarrow> put_all key rs Map.empty k = Some r" for k r
    unfolding put_all_empty_iff [OF inj] using put_all_last [of key rs k r] by (auto simp: survivors_def)
  show "put_all key (survivors key rs) Map.empty = put_all key rs Map.empty"
  proof
    fix k
    show "put_all key (survivors key rs) Map.empty k = put_all key rs Map.empty k"
    proof (cases "put_all key rs Map.empty k")
      case None
      have "put_all key (survivors key rs) Map.empty k \<noteq> Some r" for r using same [of k r] None by simp
      then show ?thesis using None by (cases "put_all key (survivors key rs) Map.empty k") auto
    next
      case (Some r)
      then show ?thesis using same [of k r] by simp
    qed
  qed
  show "inj_on key (set rs) \<longleftrightarrow> set (survivors key rs) = set rs"
  proof
    assume "inj_on key (set rs)"
    then show "set (survivors key rs) = set rs" using put_all_hit [of _ rs key Map.empty] by (auto simp: survivors_def)
  qed (use inj in simp)
qed

lemma unique_keys_survivors: "unique_keys eq key rs \<Longrightarrow> unique_keys eq key (survivors f rs)"
  by (simp add: unique_keys_def survivors_def sorted_wrt_filter)

lemma find_rec_survivors:
  assumes "equivp eq" "unique_keys eq key rs"
  shows "find_rec eq key (survivors f rs) k = None \<or> find_rec eq key (survivors f rs) k = find_rec eq key rs k"
    and "find_rec eq key (survivors f rs) = find_rec eq key rs \<longleftrightarrow> inj_on f (set rs)"
proof -
  note u = unique_keys_survivors [OF assms(2), of f]
  have sub: "set (survivors f rs) \<subseteq> set rs" by (auto simp: survivors_def)
  have found: "find_rec eq key xs k = Some x \<longleftrightarrow> x \<in> set xs \<and> eq (key x) k" if "unique_keys eq key xs" for xs k x
  proof
    assume "find_rec eq key xs k = Some x"
    from find_rec_Some [OF this] show "x \<in> set xs \<and> eq (key x) k" by simp
  next
    assume x: "x \<in> set xs \<and> eq (key x) k"
    then obtain y where y: "find_rec eq key xs k = Some y" by (metis find_rec_None not_None_eq)
    note yk = find_rec_Some [OF y]
    then have "eq (key x) (key y)" using x assms(1) by (meson equivp_symp equivp_transp)
    then have "x = y" using x yk that unfolding unique_keys_iff [OF assms(1)] by blast
    then show "find_rec eq key xs k = Some x" using y by simp
  qed
  show "find_rec eq key (survivors f rs) k = None \<or> find_rec eq key (survivors f rs) k = find_rec eq key rs k"
  proof (cases "find_rec eq key (survivors f rs) k")
    case (Some x)
    have "x \<in> set rs \<and> eq (key x) k" using Some [unfolded found [OF u]] sub by auto
    then have "find_rec eq key rs k = Some x" using found [OF assms(2), of k x] by simp
    then show ?thesis using Some by simp
  qed simp
  show "find_rec eq key (survivors f rs) = find_rec eq key rs \<longleftrightarrow> inj_on f (set rs)"
  proof
    assume same: "find_rec eq key (survivors f rs) = find_rec eq key rs"
    have "r \<in> set (survivors f rs)" if "r \<in> set rs" for r
    proof -
      have "find_rec eq key rs (key r) = Some r"
        unfolding found [OF assms(2)] using that equivp_reflp [OF assms(1)] by simp
      then have "find_rec eq key (survivors f rs) (key r) = Some r" using same by simp
      then show ?thesis using found [OF u, of "key r" r] by simp
    qed
    then have "set rs \<subseteq> set (survivors f rs)" by (rule subsetI)
    then show "inj_on f (set rs)" unfolding survivors_law(3) [of f rs] using sub by (rule equalityI [rotated])
  next
    assume "inj_on f (set rs)"
    then have "set (survivors f rs) = set rs" by (simp add: survivors_law(3))
    from find_rec_same_set [OF assms(1) u assms(2) this]
    show "find_rec eq key (survivors f rs) = find_rec eq key rs" .
  qed
qed

text \<open>
  C5: a sync of a well-formed store into an empty catalog, and a load from it, in whatever order its maps are
  listed. The sync succeeds exactly when nothing is staged for deletion and all metadata can be copied through
  JSON; otherwise nothing is written. The load then succeeds and gives a well-formed store with the metadata of
  the source, as copies through JSON, and with no other references than those of the source. It has all of them
  exactly when no two have the same composite key in the catalog, which is so when no contract type has a colon.
\<close>

theorem sync_load_roundtrip:
  assumes "semver_ok sv" "data_store_inv sv src"
    and "MergeDataStoreToCatalog sv None src newMemoryStorage = (e, s)"
    and "iteration_of (ms_addressRefs s) ao" "iteration_of (ms_chainMetadata s) co"
      "iteration_of (ms_contractMetadata s) mo"
  shows "if as_DeletedRemoteKeys (ds_Addresses src) = [] \<and> hms_DeletedRemoteKeys (ds_Chains src) = [] \<and>
      cms_DeletedRemoteKeys (ds_Contracts src) = [] \<and> metadata_copyable src
    then e = None \<and> (\<exists>ds. LoadDataStoreFromCatalog sv None ao co mo s = Inr ds \<and> data_store_inv sv ds \<and>
      (\<forall>k. address_lookup sv (ds_Addresses ds) k = None \<or>
         address_lookup sv (ds_Addresses ds) k = address_lookup sv (ds_Addresses src) k) \<and>
      (address_lookup sv (ds_Addresses ds) = address_lookup sv (ds_Addresses src) \<longleftrightarrow>
         inj_on (composite sv) (set (as_Records (ds_Addresses src)))) \<and>
      ((\<forall>r \<in> set (as_Records (ds_Addresses src)). CHR '':'' \<notin> set (ar_Type r)) \<longrightarrow>
         address_lookup sv (ds_Addresses ds) = address_lookup sv (ds_Addresses src)) \<and>
      chain_lookup (ds_Chains ds) = (\<lambda>k. map_option chain_copy (chain_lookup (ds_Chains src) k)) \<and>
      contract_lookup (ds_Contracts ds) = (\<lambda>k. map_option contract_copy (contract_lookup (ds_Contracts src) k)) \<and>
      es_Record (ds_Env ds) = map_option env_copy (es_Record (ds_Env src)))
    else e \<noteq> None \<and> s = newMemoryStorage\<lparr>ms_next := 1\<rparr>"
proof (cases "as_DeletedRemoteKeys (ds_Addresses src) = [] \<and> hms_DeletedRemoteKeys (ds_Chains src) = [] \<and>
    cms_DeletedRemoteKeys (ds_Contracts src) = [] \<and> metadata_copyable src")
  case False
  then have "fst (MergeDataStoreToCatalog sv None src newMemoryStorage) \<noteq> None \<and>
    snd (MergeDataStoreToCatalog sv None src newMemoryStorage) = newMemoryStorage\<lparr>ms_next := 1\<rparr>"
  proof (cases "metadata_copyable src")
    case True
    then have "as_DeletedRemoteKeys (ds_Addresses src) \<noteq> [] \<or> hms_DeletedRemoteKeys (ds_Chains src) \<noteq> [] \<or>
      cms_DeletedRemoteKeys (ds_Contracts src) \<noteq> []" using False by blast
    from sync_of_staged_deletion_fails [OF storage_ok_new this] show ?thesis by (simp add: newMemoryStorage_def)
  next
    case False
    from sync_of_uncopyable_fails [OF storage_ok_new this] show ?thesis by (simp add: newMemoryStorage_def)
  qed
  then show ?thesis unfolding if_not_P [OF False] assms(3) by simp
next
  case True
  have invs: "address_inv sv (ds_Addresses src)" "chain_inv (ds_Chains src)" "contract_inv (ds_Contracts src)"
    using assms(2) by (simp_all add: data_store_inv_def)
  let ?as = "as_Records (ds_Addresses src)"
  let ?ls = "survivors (composite sv) ?as"
  note ready = True [THEN conjunct2, THEN conjunct2, THEN conjunct2]
  have s: "e = None" "ms_addressRefs s = put_all (composite sv) ?ls Map.empty"
    "ms_chainMetadata s = put_all hm_ChainSelector (map chain_copy (hms_Records (ds_Chains src))) Map.empty"
    "ms_contractMetadata s = put_all contract_composite (map contract_copy (cms_Records (ds_Contracts src))) Map.empty"
    "ms_envMetadata s = map_option env_copy (es_Record (ds_Env src))"
    using assms(3) True sync_law [OF storage_ok_new assms(2) ready, of None]
    by (auto simp: newMemoryStorage_def survivors_law(2) split: option.splits)
  have u: "unique_keys (addressRefKey_Equals sv) AddressRef_Key ?as" using invs(1) by (simp add: address_inv_def)
  have versions: "\<forall>r \<in> set ?ls. ar_Version r \<noteq> None" using invs(1) by (simp add: address_inv_def survivors_def)
  obtain ds where ds: "LoadDataStoreFromCatalog sv None ao co mo s = Inr ds" "data_store_inv sv ds"
    "address_lookup sv (ds_Addresses ds) = find_rec (addressRefKey_Equals sv) AddressRef_Key ?ls"
    "chain_lookup (ds_Chains ds) = find_rec chainMetadataKey_Equals ChainMetadata_Key (map chain_copy (hms_Records (ds_Chains src)))"
    "contract_lookup (ds_Contracts ds) =
      find_rec contractMetadataKey_Equals ContractMetadata_Key (map contract_copy (cms_Records (ds_Contracts src)))"
    "es_Record (ds_Env ds) = ms_envMetadata s"
    using load_law [OF assms(1) s(2) survivors_law(1) unique_keys_survivors [OF u] versions assms(4)
      s(3) copied_chain_keys(2,1) [OF invs(2)] assms(5) s(4) copied_contract_keys(2,1) [OF invs(3)] assms(6)]
    by (elim exE conjE)
  note found = find_rec_survivors [OF addressRefKey_equivp [OF assms(1)] u, of "composite sv"]
  have all: "(address_lookup sv (ds_Addresses ds) = address_lookup sv (ds_Addresses src)) =
      inj_on (composite sv) (set ?as)"
    unfolding ds(3) using found(2) by (simp add: address_lookup_def)
  have metadata: "chain_lookup (ds_Chains ds) = (\<lambda>k. map_option chain_copy (chain_lookup (ds_Chains src) k))"
    "contract_lookup (ds_Contracts ds) = (\<lambda>k. map_option contract_copy (contract_lookup (ds_Contracts src) k))"
    unfolding ds(4,5) by (simp_all add: chain_lookup_def contract_lookup_def find_rec_chain_copy find_rec_contract_copy fun_eq_iff)
  show ?thesis unfolding if_P [OF True]
  proof (intro conjI exI [of _ ds] s(1) ds(1,2) all metadata allI impI)
    show "address_lookup sv (ds_Addresses ds) k = None \<or>
        address_lookup sv (ds_Addresses ds) k = address_lookup sv (ds_Addresses src) k" for k
      unfolding ds(3) using found(1) by (simp add: address_lookup_def)
    show "address_lookup sv (ds_Addresses ds) = address_lookup sv (ds_Addresses src)"
      if "\<forall>r \<in> set ?as. CHR '':'' \<notin> set (ar_Type r)"
      unfolding all by (rule composite_inj [OF assms(1) invs(1) that])
    show "es_Record (ds_Env ds) = map_option env_copy (es_Record (ds_Env src))" by (simp add: ds(6) s(5))
  qed
qed

definition example_source :: "nat memory_data_store" where
  "example_source = NewMemoryDataStore\<lparr>ds_Addresses := \<lparr>as_Records = [example_ref], as_DeletedRemoteKeys = []\<rparr>\<rparr>"

theorem sync_load_roundtrip_witness:
  "\<exists>s ds. MergeDataStoreToCatalog nat_semver None example_source newMemoryStorage = (None, s) \<and>
     LoadDataStoreFromCatalog nat_semver None [composite nat_semver example_ref] [] [] s = Inr ds \<and>
     address_lookup nat_semver (ds_Addresses ds) (AddressRef_Key example_ref) = Some example_ref"
proof -
  have ok: "data_store_inv nat_semver example_source" "metadata_copyable example_source"
    "as_DeletedRemoteKeys (ds_Addresses example_source) = []" "hms_DeletedRemoteKeys (ds_Chains example_source) = []"
    "cms_DeletedRemoteKeys (ds_Contracts example_source) = []"
    "\<forall>r \<in> set (as_Records (ds_Addresses example_source)). CHR '':'' \<notin> set (ar_Type r)"
    using example_stores_ok(1)
    by (simp_all add: example_source_def data_store_inv_def address_inv_def unique_keys_def example_ref_def
        metadata_copyable_def NewMemoryDataStore_def NewMemoryChainMetadataStore_def
        NewMemoryContractMetadataStore_def NewMemoryEnvMetadataStore_def)
  obtain s where s: "MergeDataStoreToCatalog nat_semver None example_source newMemoryStorage = (None, s)"
    "ms_addressRefs s = [composite nat_semver example_ref \<mapsto> example_ref]"
    "ms_chainMetadata s = Map.empty" "ms_contractMetadata s = Map.empty"
    unfolding sync_law [OF storage_ok_new ok(1-5)]
    by (auto simp: example_source_def newMemoryStorage_def NewMemoryDataStore_def NewMemoryChainMetadataStore_def
        NewMemoryContractMetadataStore_def)
  have "iteration_of (ms_addressRefs s) [composite nat_semver example_ref]" "iteration_of (ms_chainMetadata s) []"
    "iteration_of (ms_contractMetadata s) []"
    by (simp_all add: s iteration_of_def)
  from sync_load_roundtrip [OF nat_semver_ok ok(1) s(1) this] ok s(1)
  obtain ds where "LoadDataStoreFromCatalog nat_semver None [composite nat_semver example_ref] [] [] s = Inr ds"
    "address_lookup nat_semver (ds_Addresses ds) = address_lookup nat_semver (ds_Addresses example_source)" by auto
  then show ?thesis using s(1) by (auto simp: example_source_def address_lookup_def)
qed

end
