(* ===== verification/Op_Report.thy ===== *)
theory Op_Report
  imports Datastore_Base
begin

text \<open>
  The operations API, part one: reports and reporters (\<open>operations/report.go\<close>), what may be
  written to a report (\<open>operations/validation.go\<close>), the hash that identifies an execution
  (\<open>operations/hashing.go\<close>) and the registry of operations (\<open>operations/registry.go\<close>).

  The bytes of a JSON document and SHA-256 are library functions and come as arguments; what is
  relied on of the encoder is \<open>enc_ok\<close>. A report of a typed operation and its generic form have
  the same fields, and the type of a value is given by the decoder that reads it.
\<close>

section \<open>Definitions and reports\<close>

record 'v op_definition =
  od_ID :: string
  od_Version :: "'v option"
  od_Description :: string

record execution_series =
  xs_ID :: string
  xs_Order :: u64

record 'v report =
  rp_ID :: string
  rp_Def :: "'v op_definition"
  rp_Output :: goval
  rp_Input :: goval
  rp_Timestamp :: nat
  rp_Err :: "string option"
  rp_ChildOperationReports :: "string list"
  rp_ExecutionSeries :: "execution_series option"
  rp_IdempotencyKey :: string

datatype op_error =
    ErrNotSerializable string
  | ErrReportNotFound string
  | ErrOperationNotFound
  | ErrUnrecoverable string
  | ErrTypeMismatch
  | ErrMessage string
  | PanicIndexOutOfRange

fun error_message :: "op_error \<Rightarrow> string" where
  "error_message (ErrNotSerializable s) = s @ ''data cannot be safely written to disk without data lost''"
| "error_message (ErrReportNotFound s) = ''report_id '' @ s @ '': report not found''"
| "error_message ErrOperationNotFound = ''operation not found in registry''"
| "error_message (ErrUnrecoverable s) = s"
| "error_message ErrTypeMismatch = ''input type mismatch''"
| "error_message (ErrMessage s) = s"
| "error_message PanicIndexOutOfRange = ''index out of range''"

definition NewReport ::
  "string \<Rightarrow> nat \<Rightarrow> 'v op_definition \<Rightarrow> goval \<Rightarrow> goval \<Rightarrow> op_error option \<Rightarrow> string list \<Rightarrow> 'v report" where
  "NewReport rid now def input output err childReportsID =
     \<lparr>rp_ID = rid, rp_Def = def, rp_Output = output, rp_Input = input, rp_Timestamp = now,
      rp_Err = map_option error_message err, rp_ChildOperationReports = childReportsID,
      rp_ExecutionSeries = None, rp_IdempotencyKey = []\<rparr>"

definition genericReport :: "'v report \<Rightarrow> 'v report" where
  "genericReport r =
     \<lparr>rp_ID = rp_ID r,
      rp_Def = \<lparr>od_ID = od_ID (rp_Def r), od_Version = od_Version (rp_Def r),
                od_Description = od_Description (rp_Def r)\<rparr>,
      rp_Output = rp_Output r, rp_Input = rp_Input r, rp_Timestamp = rp_Timestamp r, rp_Err = rp_Err r,
      rp_ChildOperationReports = rp_ChildOperationReports r, rp_ExecutionSeries = rp_ExecutionSeries r,
      rp_IdempotencyKey = rp_IdempotencyKey r\<rparr>"

lemma genericReport_id [simp]: "genericReport r = r"
  by (cases r) (simp add: genericReport_def)

text \<open>\<open>None\<close> when a value cannot be converted to the type the decoder stands for.\<close>

definition typeReport ::
  "(json \<Rightarrow> goval option) \<Rightarrow> (json \<Rightarrow> goval option) \<Rightarrow> 'v report \<Rightarrow> 'v report option" where
  "typeReport decode_in decode_out r =
     (case marshal (rp_Input r) of
        None \<Rightarrow> None
      | Some inputBytes \<Rightarrow>
          (case decode_in inputBytes of
             None \<Rightarrow> None
           | Some input \<Rightarrow>
               (case marshal (rp_Output r) of
                  None \<Rightarrow> None
                | Some outputBytes \<Rightarrow>
                    (case decode_out outputBytes of
                       None \<Rightarrow> None
                     | Some output \<Rightarrow> Some (r\<lparr>rp_Input := input, rp_Output := output\<rparr>)))))"

lemma typeReport_fields:
  "typeReport di do r = Some t \<Longrightarrow> rp_ID t = rp_ID r \<and> rp_Def t = rp_Def r \<and> rp_Err t = rp_Err r \<and>
     rp_ExecutionSeries t = rp_ExecutionSeries r \<and> rp_IdempotencyKey t = rp_IdempotencyKey r"
  by (auto simp: typeReport_def split: option.splits)

section \<open>The memory reporter\<close>

type_synonym 'v memory_reporter = "'v report list"

definition WithReports :: "'v report list \<Rightarrow> 'v memory_reporter \<Rightarrow> 'v memory_reporter" where
  "WithReports reports mr = reports"

definition NewMemoryReporter :: "('v memory_reporter \<Rightarrow> 'v memory_reporter) list \<Rightarrow> 'v memory_reporter" where
  "NewMemoryReporter options = fold (\<lambda>opt reporter. opt reporter) options []"

definition MemoryReporter_AddReport :: "'v report \<Rightarrow> 'v memory_reporter \<Rightarrow> 'v memory_reporter" where
  "MemoryReporter_AddReport report reports = reports @ [report]"

definition MemoryReporter_GetReports :: "'v memory_reporter \<Rightarrow> 'v report list" where
  "MemoryReporter_GetReports reports = reports"

fun MemoryReporter_GetReport :: "string \<Rightarrow> 'v memory_reporter \<Rightarrow> op_error + 'v report" where
  "MemoryReporter_GetReport rid [] = Inl (ErrReportNotFound rid)"
| "MemoryReporter_GetReport rid (report # reports) =
     (if rp_ID report = rid then Inr report else MemoryReporter_GetReport rid reports)"

text \<open>
  The recursion over child reports. The code does not end when reports refer to each other in a
  circle; the model takes fuel and \<open>None\<close> is running out of it.
\<close>

function getReportsRecursively ::
    "nat \<Rightarrow> 'v memory_reporter \<Rightarrow> string \<Rightarrow> (op_error + 'v report list) option"
  and getChildReports ::
    "nat \<Rightarrow> 'v memory_reporter \<Rightarrow> string list \<Rightarrow> (op_error + 'v report list) option" where
  "getReportsRecursively 0 reports rid = None"
| "getReportsRecursively (Suc fuel) reports rid =
     (case MemoryReporter_GetReport rid reports of
        Inl e \<Rightarrow> Some (Inl e)
      | Inr report \<Rightarrow>
          (case getChildReports fuel reports (rp_ChildOperationReports report) of
             None \<Rightarrow> None
           | Some (Inl e) \<Rightarrow> Some (Inl e)
           | Some (Inr rs) \<Rightarrow> Some (Inr (rs @ [report]))))"
| "getChildReports fuel reports [] = Some (Inr [])"
| "getChildReports fuel reports (childID # ids) =
     (case getReportsRecursively fuel reports childID of
        None \<Rightarrow> None
      | Some (Inl e) \<Rightarrow> Some (Inl e)
      | Some (Inr rs) \<Rightarrow>
          (case getChildReports fuel reports ids of
             None \<Rightarrow> None
           | Some (Inl e) \<Rightarrow> Some (Inl e)
           | Some (Inr rs') \<Rightarrow> Some (Inr (rs @ rs'))))"
  by pat_completeness auto
termination
  by (relation "measures [\<lambda>x. case x of Inl (fuel, _, _) \<Rightarrow> 2 * fuel | Inr (fuel, _, _) \<Rightarrow> 2 * fuel + 1,
      \<lambda>x. case x of Inl _ \<Rightarrow> 0 | Inr (_, _, ids) \<Rightarrow> length ids]") auto

definition GetExecutionReports :: "nat \<Rightarrow> string \<Rightarrow> 'v memory_reporter \<Rightarrow> (op_error + 'v report list) option" where
  "GetExecutionReports fuel seqID reports = getReportsRecursively fuel reports seqID"

text \<open>The position of the report an id stands for, and reporters whose reports refer backwards only.\<close>

definition position :: "'v memory_reporter \<Rightarrow> string \<Rightarrow> nat option" where
  "position reports rid = index_where (\<lambda>r. rp_ID r = rid) reports"

definition backward_refs :: "'v memory_reporter \<Rightarrow> bool" where
  "backward_refs reports \<longleftrightarrow> (\<forall>i < length reports. \<forall>c \<in> set (rp_ChildOperationReports (reports ! i)).
     \<exists>j < i. rp_ID (reports ! j) = c)"

lemma GetReport_position:
  "MemoryReporter_GetReport rid reports =
     (case position reports rid of None \<Rightarrow> Inl (ErrReportNotFound rid) | Some i \<Rightarrow> Inr (reports ! i))"
  by (induction reports) (auto simp: position_def split: option.splits)

lemma position_below:
  assumes "j < length reports" "rp_ID (reports ! j) = rid"
  shows "\<exists>i \<le> j. position reports rid = Some i"
proof (cases "position reports rid")
  case None
  then have "rp_ID (reports ! j) \<noteq> rid"
    using nth_mem [OF assms(1)] by (auto simp: position_def index_where_None)
  then show ?thesis using assms(2) by simp
next
  case (Some i)
  then have "\<not> j < i" using assms by (auto simp: position_def index_where_Some)
  then show ?thesis using Some by auto
qed

lemma getReports_terminates:
  assumes "backward_refs reports"
  shows "position reports rid = Some i \<Longrightarrow> i < fuel \<Longrightarrow>
    \<exists>rs. getReportsRecursively fuel reports rid = Some (Inr (rs @ [reports ! i]))"
proof (induction i arbitrary: rid fuel rule: less_induct)
  case (less i)
  obtain f where fuel: "fuel = Suc f" using less.prems(2) by (cases fuel) auto
  have i: "i < length reports" using less.prems(1) by (auto simp: position_def index_where_Some)
  have kids: "\<exists>rs. getChildReports f reports ids = Some (Inr rs)"
    if "set ids \<subseteq> set (rp_ChildOperationReports (reports ! i))" for ids
    using that
  proof (induction ids)
    case (Cons c ids)
    then have "c \<in> set (rp_ChildOperationReports (reports ! i))" by simp
    then obtain j where j: "j < i" "rp_ID (reports ! j) = c"
      using assms i unfolding backward_refs_def by blast
    then obtain k where k: "k \<le> j" "position reports c = Some k"
      using position_below [of j reports c] i by auto
    then obtain rs where "getReportsRecursively f reports c = Some (Inr (rs @ [reports ! k]))"
      using less.IH [of k c f] j(1) less.prems(2) fuel by auto
    moreover obtain rs' where "getChildReports f reports ids = Some (Inr rs')" using Cons by auto
    ultimately show ?case by simp
  qed simp
  obtain rs where "getChildReports f reports (rp_ChildOperationReports (reports ! i)) = Some (Inr rs)"
    using kids by blast
  then show ?case using less.prems(1) fuel by (simp add: GetReport_position)
qed

section \<open>What can be serialised\<close>

fun isValueSerializable :: "goval \<Rightarrow> bool"
  and fieldsSerializable :: "(sfield \<times> goval) list \<Rightarrow> bool"
  and entriesSerializable :: "(string \<times> goval) list \<Rightarrow> bool"
  and elementsSerializable :: "goval list \<Rightarrow> bool" where
  "isValueSerializable (VStruct name fs) = fieldsSerializable fs"
| "isValueSerializable (VMap es) = entriesSerializable es"
| "isValueSerializable (VSlice vs) = elementsSerializable vs"
| "isValueSerializable (VPtr (Some v)) = isValueSerializable v"
| "isValueSerializable _ = True"
| "fieldsSerializable [] = True"
| "fieldsSerializable ((f, v) # fs) =
     (if ftag f = ''-'' then fieldsSerializable fs
      else if \<not> fexported f then False
      else if \<not> isValueSerializable v then False
      else fieldsSerializable fs)"
| "entriesSerializable [] = True"
| "entriesSerializable ((k, v) # es) = (isValueSerializable v \<and> entriesSerializable es)"
| "elementsSerializable [] = True"
| "elementsSerializable (v # vs) = (isValueSerializable v \<and> elementsSerializable vs)"

definition IsSerializable :: "goval \<Rightarrow> bool" where
  "IsSerializable v \<longleftrightarrow> isValueSerializable v \<and> marshal v \<noteq> None"

section \<open>Hashing\<close>

fun canonicalize :: "goval \<Rightarrow> goval"
  and canonicalize_entries :: "(string \<times> goval) list \<Rightarrow> (string \<times> goval) list"
  and canonicalize_list :: "goval list \<Rightarrow> goval list" where
  "canonicalize (VMap es) = VMap (entries_of (canonicalize_entries es))"
| "canonicalize (VSlice vs) = VSlice (canonicalize_list vs)"
| "canonicalize v = v"
| "canonicalize_entries [] = []"
| "canonicalize_entries ((k, v) # es) = (k, canonicalize v) # canonicalize_entries es"
| "canonicalize_list [] = []"
| "canonicalize_list (v # vs) = canonicalize v # canonicalize_list vs"

definition canonicalizeJSON :: "goval \<Rightarrow> json option" where
  "canonicalizeJSON value =
     (case marshal value of
        None \<Rightarrow> None
      | Some b \<Rightarrow> marshal (canonicalize (decode_any b)))"

text \<open>\<open>json.Marshal\<close> of a definition; the version prints itself.\<close>

definition definition_json :: "'v semver \<Rightarrow> 'v op_definition \<Rightarrow> json" where
  "definition_json sv def =
     JObj [(''id'', JStr (od_ID def)),
           (''version'', (case od_Version def of None \<Rightarrow> JNull | Some v \<Rightarrow> JStr (sv_String sv v))),
           (''description'', JStr (od_Description def))]"

definition buildUniqueHashCacheKey ::
  "'v semver \<Rightarrow> (json \<Rightarrow> string) \<Rightarrow> 'v op_definition \<Rightarrow> goval \<Rightarrow> string \<Rightarrow> string option" where
  "buildUniqueHashCacheKey sv enc def input idempotencyKey =
     (case canonicalizeJSON input of
        None \<Rightarrow> None
      | Some inputBytes \<Rightarrow>
          Some (enc (definition_json sv def) @ enc inputBytes @
            (if idempotencyKey \<noteq> [] then CHR 0x00 # idempotencyKey else [])))"

definition constructUniqueHashFrom ::
  "'v semver \<Rightarrow> (json \<Rightarrow> string) \<Rightarrow> (string \<Rightarrow> string) \<Rightarrow> (string \<rightharpoonup> string) \<Rightarrow>
   'v op_definition \<Rightarrow> goval \<Rightarrow> string \<Rightarrow> string option \<times> (string \<rightharpoonup> string)" where
  "constructUniqueHashFrom sv enc sha hashCache def input idempotencyKey =
     (case buildUniqueHashCacheKey sv enc def input idempotencyKey of
        None \<Rightarrow> (None, hashCache)
      | Some key \<Rightarrow>
          (case hashCache key of
             Some cached \<Rightarrow> (Some cached, hashCache)
           | None \<Rightarrow> (let result = sha key in (Some result, hashCache(key \<mapsto> result)))))"

text \<open>A cache that holds hashes only does not change the answers.\<close>

definition cache_ok :: "(string \<Rightarrow> string) \<Rightarrow> (string \<rightharpoonup> string) \<Rightarrow> bool" where
  "cache_ok sha cache \<longleftrightarrow> (\<forall>k v. cache k = Some v \<longrightarrow> v = sha k)"

definition unique_hash ::
  "'v semver \<Rightarrow> (json \<Rightarrow> string) \<Rightarrow> (string \<Rightarrow> string) \<Rightarrow> 'v op_definition \<Rightarrow> goval \<Rightarrow> string \<Rightarrow> string option" where
  "unique_hash sv enc sha def input idem = map_option sha (buildUniqueHashCacheKey sv enc def input idem)"

lemma cache_ok_empty [simp]: "cache_ok sha Map.empty"
  by (simp add: cache_ok_def)

lemma constructUniqueHash_law:
  assumes "cache_ok sha cache"
  shows "fst (constructUniqueHashFrom sv enc sha cache def input idem) = unique_hash sv enc sha def input idem"
    and "cache_ok sha (snd (constructUniqueHashFrom sv enc sha cache def input idem))"
  using assms
  by (auto simp: constructUniqueHashFrom_def unique_hash_def cache_ok_def Let_def split: option.splits)

text \<open>
  Collecting the reports of a sequence ends. In a reporter whose reports refer only to reports
  stored before them, the recursion started at the id of a stored report needs no more fuel than
  there are reports, finds every child and lists that report last.
\<close>

lemma GetExecutionReports_total:
  assumes "backward_refs reports" "position reports seqID = Some i" "length reports \<le> fuel"
  shows "\<exists>rs. GetExecutionReports fuel seqID reports = Some (Inr (rs @ [reports ! i]))"
proof -
  have "i < fuel" using assms(2,3) by (auto simp: position_def index_where_Some)
  then show ?thesis
    unfolding GetExecutionReports_def by (rule getReports_terminates [OF assms(1,2)])
qed

definition example_report :: "string \<Rightarrow> string list \<Rightarrow> nat report" where
  "example_report i children =
     NewReport i 0 \<lparr>od_ID = ''op'', od_Version = Some 1, od_Description = ''d''\<rparr> VNil VNil None children"

lemma GetExecutionReports_total_witness:
  "\<exists>rs. GetExecutionReports 2 ''b'' [example_report ''a'' [], example_report ''b'' [''a'']] =
     Some (Inr (rs @ [example_report ''b'' [''a'']]))"
proof -
  let ?rs = "[example_report ''a'' [], example_report ''b'' [''a'']]"
  have "backward_refs ?rs"
    by (auto simp: backward_refs_def less_Suc_eq example_report_def NewReport_def)
  moreover have "position ?rs ''b'' = Some 1"
    by (simp add: position_def example_report_def NewReport_def)
  ultimately show ?thesis using GetExecutionReports_total [of ?rs "''b''" 1 2] by simp
qed

section \<open>Canonical JSON\<close>

text \<open>
  Two documents that differ in the order of the fields of their objects only. In each object no
  name occurs twice.
\<close>

inductive same_fields :: "json \<Rightarrow> json \<Rightarrow> bool" where
  "same_fields j j"
| "list_all2 same_fields js ks \<Longrightarrow> same_fields (JArr js) (JArr ks)"
| "\<lbrakk>list_all2 (\<lambda>e f. fst e = fst f \<and> same_fields (snd e) (snd f)) es fs;
    mset fs = mset gs; distinct (map fst es)\<rbrakk> \<Longrightarrow> same_fields (JObj es) (JObj gs)"

lemma same_fields_decode: "same_fields j k \<Longrightarrow> decode_any j = decode_any k"
proof (induction rule: same_fields.induct)
  case (2 js ks)
  then have "map decode_any js = map decode_any ks"
    by (induction rule: list_all2_induct) auto
  then show ?case by (simp add: decode_list_map)
next
  case (3 es fs gs)
  from 3(1) have maps: "map (\<lambda>(k, j). (k, decode_any j)) es = map (\<lambda>(k, j). (k, decode_any j)) fs"
    and "map fst es = map fst fs"
    by (induction rule: list_all2_induct) auto
  then have "distinct (map fst (map (\<lambda>(k, j). (k, decode_any j)) fs))"
    using 3(3) by (simp add: comp_def case_prod_beta)
  moreover have "mset (map (\<lambda>(k, j). (k, decode_any j)) fs) = mset (map (\<lambda>(k, j). (k, decode_any j)) gs)"
    using 3(2) by (simp add: mset_map)
  ultimately have "entries_of (map (\<lambda>(k, j). (k, decode_any j)) fs) = entries_of (map (\<lambda>(k, j). (k, decode_any j)) gs)"
    by (intro entries_of_perm)
  then show ?case by (simp add: decode_entries_map maps)
qed simp

text \<open>Canonicalising what the decoder produced changes nothing: its maps are sorted already.\<close>

lemma canonicalize_plain:
  "plain v \<Longrightarrow> canonicalize v = v"
  "plain_entries es \<Longrightarrow> canonicalize_entries es = es"
  "plain_list vs \<Longrightarrow> canonicalize_list vs = vs"
  by (induction v and es and vs rule: canonicalize_canonicalize_entries_canonicalize_list.induct)
    (auto simp: entries_of_sorted)

lemma canonicalizeJSON_plain: "marshal v = Some j \<Longrightarrow> canonicalizeJSON v = marshal (decode_any j)"
  by (simp add: canonicalizeJSON_def canonicalize_plain plain_decode)

text \<open>
  The hash of an execution does not depend on the order of fields: two inputs whose JSON differs
  only in the order of the fields of its objects, at any depth, have the same cache key and hash
  for the same definition and idempotency key.
\<close>

lemma hash_ignores_field_order:
  assumes "marshal input = Some j" "marshal input' = Some k" "same_fields j k"
  shows "buildUniqueHashCacheKey sv enc def input idem = buildUniqueHashCacheKey sv enc def input' idem \<and>
    canonicalizeJSON input \<noteq> None"
proof -
  obtain b where b: "marshal (decode_any j) = Some b"
    using marshal_plain(1) [OF plain_decode(1)] by blast
  have "canonicalizeJSON input = Some b" using assms(1) b by (simp add: canonicalizeJSON_plain)
  moreover have "canonicalizeJSON input' = Some b"
    using assms(2) b same_fields_decode [OF assms(3)] by (simp add: canonicalizeJSON_plain)
  ultimately show ?thesis by (simp add: buildUniqueHashCacheKey_def)
qed

section \<open>What the cache key determines\<close>

text \<open>
  The documents the laws of the encoder speak of: text in ASCII (the encoder replaces invalid
  UTF-8, which two texts can lose their difference by) and numbers that are number literals.
\<close>

definition ascii :: "string \<Rightarrow> bool" where
  "ascii s \<longleftrightarrow> list_all (\<lambda>c. (of_char c :: nat) < 128) s"

definition number_literal :: "string \<Rightarrow> bool" where
  "number_literal s \<longleftrightarrow> s \<noteq> [] \<and> list_all (\<lambda>c. is_digit c \<or> c \<in> set ''+-.eE'') s"

fun json_ascii :: "json \<Rightarrow> bool" where
  "json_ascii JNull = True"
| "json_ascii (JBool b) = True"
| "json_ascii (JNum s) = number_literal s"
| "json_ascii (JStr s) = ascii s"
| "json_ascii (JArr js) = list_all json_ascii js"
| "json_ascii (JObj es) = list_all (\<lambda>e. ascii (fst e) \<and> json_ascii (snd e)) es"

text \<open>
  The encoder prints different documents differently, an object ends where its braces close, and
  the byte 0 does not occur in a document (in a string it is written as an escape).
\<close>

definition enc_ok :: "(json \<Rightarrow> string) \<Rightarrow> bool" where
  "enc_ok enc \<longleftrightarrow>
     (\<forall>j k. json_ascii j \<longrightarrow> json_ascii k \<longrightarrow> enc j = enc k \<longrightarrow> j = k) \<and>
     (\<forall>a b s t. json_ascii (JObj a) \<longrightarrow> json_ascii (JObj b) \<longrightarrow>
        enc (JObj a) @ s = enc (JObj b) @ t \<longrightarrow> a = b \<and> s = t) \<and>
     (\<forall>j. CHR 0x00 \<notin> set (enc j))"

text \<open>A small encoder with these laws, for closed examples.\<close>

fun demo_text :: "string \<Rightarrow> string" where
  "demo_text [] = '';''"
| "demo_text (c # s) = replicate (of_char c) (CHR ''x'') @ ''.'' @ demo_text s"

fun demo_enc :: "json \<Rightarrow> string"
  and demo_list :: "json list \<Rightarrow> string"
  and demo_entries :: "(string \<times> json) list \<Rightarrow> string" where
  "demo_enc JNull = ''n''"
| "demo_enc (JBool b) = (if b then ''t'' else ''f'')"
| "demo_enc (JNum s) = CHR ''d'' # demo_text s"
| "demo_enc (JStr s) = CHR ''s'' # demo_text s"
| "demo_enc (JArr js) = CHR ''a'' # demo_list js"
| "demo_enc (JObj es) = CHR ''o'' # demo_entries es"
| "demo_list [] = ''-''"
| "demo_list (j # js) = CHR ''+'' # demo_enc j @ demo_list js"
| "demo_entries [] = ''-''"
| "demo_entries ((k, j) # es) = CHR ''+'' # demo_text k @ demo_enc j @ demo_entries es"

lemma hash_ignores_field_order_witness:
  "buildUniqueHashCacheKey nat_semver demo_enc \<lparr>od_ID = ''op'', od_Version = Some 1, od_Description = ''d''\<rparr> (VMap [(''a'', VBool True), (''b'', VNil)]) ''k'' =
   buildUniqueHashCacheKey nat_semver demo_enc \<lparr>od_ID = ''op'', od_Version = Some 1, od_Description = ''d''\<rparr>
     (VStruct ''S'' [(\<lparr>fname = ''B'', ftag = ''b'', fexported = True\<rparr>, VNil),
                   (\<lparr>fname = ''A'', ftag = ''a'', fexported = True\<rparr>, VBool True)]) ''k''"
proof -
  have "same_fields (JObj [(''a'', JBool True), (''b'', JNull)]) (JObj [(''b'', JNull), (''a'', JBool True)])"
    by (rule same_fields.intros(3) [where fs = "[(''a'', JBool True), (''b'', JNull)]"])
      (auto intro: same_fields.intros(1))
  then show ?thesis
    using hash_ignores_field_order [of "VMap [(''a'', VBool True), (''b'', VNil)]"
        "JObj [(''a'', JBool True), (''b'', JNull)]" "VStruct ''S'' [(\<lparr>fname = ''B'', ftag = ''b'', fexported = True\<rparr>, VNil),
                   (\<lparr>fname = ''A'', ftag = ''a'', fexported = True\<rparr>, VBool True)]"
        "JObj [(''b'', JNull), (''a'', JBool True)]" nat_semver demo_enc
        "\<lparr>od_ID = ''op'', od_Version = Some 1, od_Description = ''d''\<rparr>" "''k''"]
    by (simp add: json_name_def)
qed

lemma replicate_x_inj:
  "replicate m (CHR ''x'') @ CHR ''.'' # s = replicate n (CHR ''x'') @ CHR ''.'' # t \<Longrightarrow> m = n \<and> s = t"
proof (induction m arbitrary: n)
  case 0
  then show ?case by (cases n) auto
next
  case (Suc m)
  then show ?case by (cases n) auto
qed

lemma demo_text_inj: "demo_text s @ u = demo_text t @ v \<Longrightarrow> s = t \<and> u = v"
proof (induction s arbitrary: t)
  case Nil
  show ?case
  proof (cases t)
    case (Cons c t')
    then show ?thesis using Nil by (cases "of_char c :: nat") auto
  qed (use Nil in simp)
next
  case (Cons c s)
  show ?case
  proof (cases t)
    case Nil
    then show ?thesis using Cons.prems by (cases "of_char c :: nat") auto
  next
    case (Cons d t')
    then have "(of_char c :: nat) = of_char d \<and> demo_text s @ u = demo_text t' @ v"
      using Cons.prems by (intro replicate_x_inj) simp
    then show ?thesis using Cons.IH [of t'] Cons by simp
  qed
qed

lemma demo_enc_inj:
  "demo_enc j @ u = demo_enc k @ v \<Longrightarrow> j = k \<and> u = v"
  "demo_list js @ u = demo_list ks @ v \<Longrightarrow> js = ks \<and> u = v"
  "demo_entries es @ u = demo_entries fs @ v \<Longrightarrow> es = fs \<and> u = v"
proof (induction j and js and es arbitrary: k u v and ks u v and fs u v
    rule: demo_enc_demo_list_demo_entries.induct)
  case 1 then show ?case by (cases k) (auto split: if_splits)
next
  case (2 b) then show ?case by (cases k) (auto split: if_splits)
next
  case (3 s) then show ?case by (cases k) (auto dest: demo_text_inj split: if_splits)
next
  case (4 s) then show ?case by (cases k) (auto dest: demo_text_inj split: if_splits)
next
  case (5 js)
  show ?case
  proof (cases k)
    case (JArr ks)
    then have "demo_list js @ u = demo_list ks @ v" using 5(2) by simp
    with 5(1) JArr show ?thesis by blast
  qed (use 5(2) in \<open>auto split: if_splits\<close>)
next
  case (6 es)
  show ?case
  proof (cases k)
    case (JObj fs)
    then have "demo_entries es @ u = demo_entries fs @ v" using 6(2) by simp
    with 6(1) JObj show ?thesis by blast
  qed (use 6(2) in \<open>auto split: if_splits\<close>)
next
  case 7 then show ?case by (cases ks) auto
next
  case (8 j js)
  show ?case
  proof (cases ks)
    case (Cons j' ks')
    then have rest: "demo_enc j @ demo_list js @ u = demo_enc j' @ demo_list ks' @ v" using 8(3) by simp
    with 8(1) [OF rest] 8(2) Cons show ?thesis by auto
  qed (use 8(3) in auto)
next
  case 9 then show ?case by (cases fs) auto
next
  case (10 k j es)
  show ?case
  proof (cases fs)
    case (Cons f fs')
    obtain k' j' where f: "f = (k', j')" by (cases f)
    then have "k = k'" and rest: "demo_enc j @ demo_entries es @ u = demo_enc j' @ demo_entries fs' @ v"
      using 10(3) Cons demo_text_inj [of k "demo_enc j @ demo_entries es @ u" k'] by auto
    with 10(1) [OF rest] 10(2) Cons f show ?thesis by auto
  qed (use 10(3) in auto)
qed

lemma demo_text_no_nul: "CHR 0x00 \<notin> set (demo_text s)"
  by (induction s) auto

lemma demo_no_nul:
  "CHR 0x00 \<notin> set (demo_enc j)" "CHR 0x00 \<notin> set (demo_list js)" "CHR 0x00 \<notin> set (demo_entries es)"
  by (induction j and js and es rule: demo_enc_demo_list_demo_entries.induct) (auto simp: demo_text_no_nul)

lemma demo_enc_ok: "enc_ok demo_enc"
  unfolding enc_ok_def
  using demo_enc_inj(1) [where u = "[]" and v = "[]"] demo_enc_inj(3) demo_no_nul(1) by auto

lemma takeWhile_key:
  assumes "CHR 0x00 \<notin> set a"
  shows "takeWhile (\<lambda>c. c \<noteq> CHR 0x00) (a @ (if q \<noteq> [] then CHR 0x00 # q else [])) = a"
proof -
  have "\<forall>c \<in> set a. c \<noteq> CHR 0x00" using assms by auto
  then show ?thesis by (cases q) (simp_all add: takeWhile_append2)
qed

text \<open>
  The cache key determines the execution: when two executions with ASCII text have the same
  key they have the same id, the same description and equal versions in the definition, the same
  canonical JSON of the input and the same idempotency key. No concatenation of the parts collides.
\<close>

lemma cache_key_injective:
  assumes "semver_ok sv" "enc_ok enc"
    and "canonicalizeJSON input = Some j" "canonicalizeJSON input' = Some j'" "json_ascii j" "json_ascii j'"
    and "json_ascii (definition_json sv def)" "json_ascii (definition_json sv def')"
    and "buildUniqueHashCacheKey sv enc def input idem = buildUniqueHashCacheKey sv enc def' input' idem'"
  shows "od_ID def = od_ID def' \<and> od_Description def = od_Description def' \<and>
    sv_Equal sv (od_Version def) (od_Version def') \<and> j = j' \<and> idem = idem'"
proof -
  let ?tail = "\<lambda>q. if q \<noteq> [] then CHR 0x00 # q else []"
  have inj: "\<And>j k. json_ascii j \<Longrightarrow> json_ascii k \<Longrightarrow> enc j = enc k \<Longrightarrow> j = k"
    and objs: "\<And>a b s t. json_ascii (JObj a) \<Longrightarrow> json_ascii (JObj b) \<Longrightarrow>
        enc (JObj a) @ s = enc (JObj b) @ t \<Longrightarrow> a = b \<and> s = t"
    and nul: "\<And>j. CHR 0x00 \<notin> set (enc j)"
    using assms(2) unfolding enc_ok_def by blast+
  obtain a b where ab: "definition_json sv def = JObj a" "definition_json sv def' = JObj b"
    by (simp add: definition_json_def)
  have "enc (JObj a) @ enc j @ ?tail idem = enc (JObj b) @ enc j' @ ?tail idem'"
    using assms(9) by (simp add: buildUniqueHashCacheKey_def assms(3,4) ab)
  then have defs: "a = b" and rest: "enc j @ ?tail idem = enc j' @ ?tail idem'"
    using objs assms(7,8) unfolding ab by blast+
  have "enc j = enc j'"
    using arg_cong [OF rest, of "takeWhile (\<lambda>c. c \<noteq> CHR 0x00)"] by (simp only: takeWhile_key [OF nul])
  then have "j = j'" "?tail idem = ?tail idem'" using inj [OF assms(5,6)] rest by auto
  then have "idem = idem'" by (cases idem; cases idem') auto
  have "definition_json sv def = definition_json sv def'" using ab defs by simp
  then have "od_ID def = od_ID def'" "od_Description def = od_Description def'"
    and v: "(case od_Version def of None \<Rightarrow> JNull | Some v \<Rightarrow> JStr (sv_String sv v)) =
      (case od_Version def' of None \<Rightarrow> JNull | Some v \<Rightarrow> JStr (sv_String sv v))"
    by (simp_all add: definition_json_def)
  moreover have "sv_Equal sv (od_Version def) (od_Version def')"
    using v semver_string_eq [OF assms(1)] semver_okD(5) [OF assms(1)]
    by (cases "od_Version def"; cases "od_Version def'") auto
  ultimately show ?thesis using \<open>j = j'\<close> \<open>idem = idem'\<close> by simp
qed

lemma cache_key_injective_witness:
  "buildUniqueHashCacheKey nat_semver demo_enc \<lparr>od_ID = ''o'', od_Version = None, od_Description = ''d''\<rparr> VNil ''k'' \<noteq>
   buildUniqueHashCacheKey nat_semver demo_enc \<lparr>od_ID = ''o'', od_Version = None, od_Description = ''d''\<rparr> VNil []"
proof
  let ?d = "\<lparr>od_ID = ''o'', od_Version = None, od_Description = ''d''\<rparr> :: nat op_definition"
  have c: "canonicalizeJSON VNil = Some JNull" by (simp add: canonicalizeJSON_def)
  have a: "json_ascii (definition_json nat_semver ?d)" "json_ascii JNull"
    by (simp_all add: definition_json_def ascii_def)
  assume "buildUniqueHashCacheKey nat_semver demo_enc ?d VNil ''k'' =
    buildUniqueHashCacheKey nat_semver demo_enc ?d VNil []"
  from cache_key_injective [OF nat_semver_ok demo_enc_ok c c a(2) a(2) a(1) a(1) this] show False by simp
qed

end
