(* ===== verification/Op_Execute.thy ===== *)
theory Op_Execute
  imports Op_Report
begin

text \<open>
  The operations API, part two: operations and their registry (\<open>operations/operation.go\<close>,
  \<open>operations/sequence.go\<close>, \<open>operations/registry.go\<close>) and their execution
  (\<open>operations/execute.go\<close>): reuse of earlier reports, series of executions, sequences.

  A handler is a function on the state an execution shares: the reports of the memory reporter,
  the recent reports of the wrappers that sequences put around it (innermost first), the hash
  cache, the counter behind fresh ids and time stamps, and the world outside. The Go types of a
  typed operation are the decoder of its input, the decoder of its output and the test of a type
  assertion. UUIDs, SHA-256, the JSON encoder and the retry library are arguments (record
  \<open>op_lib\<close>). Logging is not modelled.
\<close>

section \<open>State, library and operations\<close>

record ('v, 'w) xstate =
  xe_reports :: "'v memory_reporter"
  xe_recent :: "'v report list list"
  xe_cache :: "string \<rightharpoonup> string"
  xe_next :: nat
  xe_world :: 'w

type_synonym ('s) attempt = "'s \<Rightarrow> (goval \<times> op_error option) \<times> 's"

record ('v, 'w) op_lib =
  ol_sv :: "'v semver"
  ol_enc :: "json \<Rightarrow> string"
  ol_sha :: "string \<Rightarrow> string"
  ol_uuid :: "nat \<Rightarrow> string"
  ol_retry :: "u64 \<Rightarrow> (goval \<times> ('v, 'w) xstate) attempt \<Rightarrow>
     (nat \<Rightarrow> op_error \<Rightarrow> goval \<times> ('v, 'w) xstate \<Rightarrow> goval \<times> ('v, 'w) xstate) \<Rightarrow>
     (goval \<times> ('v, 'w) xstate) attempt"

record ('v, 'd, 'w) operation =
  opn_def :: "'v op_definition"
  opn_handler :: "'d option \<Rightarrow> goval \<Rightarrow> ('v, 'w) xstate attempt"
  opn_decode_in :: "json \<Rightarrow> goval option"
  opn_decode_out :: "json \<Rightarrow> goval option"
  opn_has_type :: "goval \<Rightarrow> bool"
  opn_has_deps :: "'d \<Rightarrow> bool"
  opn_zero :: goval

definition NewOperation ::
  "string \<Rightarrow> 'v option \<Rightarrow> string \<Rightarrow> ('d option \<Rightarrow> goval \<Rightarrow> ('v, 'w) xstate attempt) \<Rightarrow>
   (json \<Rightarrow> goval option) \<Rightarrow> (json \<Rightarrow> goval option) \<Rightarrow> (goval \<Rightarrow> bool) \<Rightarrow> ('d \<Rightarrow> bool) \<Rightarrow> goval \<Rightarrow>
   ('v, 'd, 'w) operation" where
  "NewOperation opID version description handler decode_in decode_out has_type has_deps zero =
     \<lparr>opn_def = \<lparr>od_ID = opID, od_Version = version, od_Description = description\<rparr>, opn_handler = handler,
      opn_decode_in = decode_in, opn_decode_out = decode_out, opn_has_type = has_type,
      opn_has_deps = has_deps, opn_zero = zero\<rparr>"

definition Operation_ID :: "('v, 'd, 'w) operation \<Rightarrow> string" where
  "Operation_ID op = od_ID (opn_def op)"

text \<open>\<open>None\<close> is the panic of printing a nil version.\<close>

definition Operation_Version :: "'v semver \<Rightarrow> ('v, 'd, 'w) operation \<Rightarrow> string option" where
  "Operation_Version sv op = map_option (sv_String sv) (od_Version (opn_def op))"

definition Operation_Description :: "('v, 'd, 'w) operation \<Rightarrow> string" where
  "Operation_Description op = od_Description (opn_def op)"

definition Operation_execute ::
  "('v, 'd, 'w) operation \<Rightarrow> 'd option \<Rightarrow> goval \<Rightarrow> ('v, 'w) xstate attempt" where
  "Operation_execute op deps input s = opn_handler op deps input s"

text \<open>\<open>nil\<close> stands for the zero value of the type; other inputs must pass the type assertion.\<close>

definition AsUntyped :: "('v, 'd, 'w) operation \<Rightarrow> ('v, 'd, 'w) operation" where
  "AsUntyped op =
     op\<lparr>opn_handler := (\<lambda>deps input s.
          if input \<noteq> VNil \<and> \<not> opn_has_type op input then ((VNil, Some ErrTypeMismatch), s)
          else
            let typedInput = (if input \<noteq> VNil then input else opn_zero op) in
            case deps of
              None \<Rightarrow> opn_handler op None typedInput s
            | Some d \<Rightarrow>
                if \<not> opn_has_deps op d then ((VNil, Some ErrTypeMismatch), s)
                else opn_handler op (Some d) typedInput s),
        opn_decode_in := (\<lambda>j. Some (decode_any j)), opn_decode_out := (\<lambda>j. Some (decode_any j)),
        opn_has_type := (\<lambda>_. True), opn_has_deps := (\<lambda>_. True), opn_zero := VNil\<rparr>"

definition AsUntypedRelaxed :: "('v, 'd, 'w) operation \<Rightarrow> ('v, 'd, 'w) operation" where
  "AsUntypedRelaxed op =
     op\<lparr>opn_handler := (\<lambda>deps input s.
          case (if input = VNil then Some (opn_zero op)
                else if opn_has_type op input then Some input
                else case marshal input of None \<Rightarrow> None | Some inputBytes \<Rightarrow> opn_decode_in op inputBytes) of
            None \<Rightarrow> ((VNil, Some ErrTypeMismatch), s)
          | Some typedInput \<Rightarrow>
              (case deps of
                 None \<Rightarrow> opn_handler op None typedInput s
               | Some d \<Rightarrow>
                   if \<not> opn_has_deps op d then ((VNil, Some ErrTypeMismatch), s)
                   else opn_handler op (Some d) typedInput s)),
        opn_decode_in := (\<lambda>j. Some (decode_any j)), opn_decode_out := (\<lambda>j. Some (decode_any j)),
        opn_has_type := (\<lambda>_. True), opn_has_deps := (\<lambda>_. True), opn_zero := VNil\<rparr>"

section \<open>The registry\<close>

type_synonym ('v, 'd, 'w) operation_registry = "string \<rightharpoonup> ('v, 'd, 'w) operation"

text \<open>A nil version prints as \<open><nil>\<close>.\<close>

definition generateRegistryKey :: "'v semver \<Rightarrow> 'v op_definition \<Rightarrow> string" where
  "generateRegistryKey sv def =
     od_ID def @ '':'' @ (case od_Version def of None \<Rightarrow> ''<nil>'' | Some v \<Rightarrow> sv_String sv v)"

definition NewOperationRegistry ::
  "'v semver \<Rightarrow> ('v, 'd, 'w) operation list \<Rightarrow> ('v, 'd, 'w) operation_registry" where
  "NewOperationRegistry sv ops =
     fold (\<lambda>op reg. reg(generateRegistryKey sv (opn_def op) \<mapsto> op)) ops Map.empty"

definition OperationRegistry_Retrieve ::
  "'v semver \<Rightarrow> 'v op_definition \<Rightarrow> ('v, 'd, 'w) operation_registry \<Rightarrow> op_error + ('v, 'd, 'w) operation" where
  "OperationRegistry_Retrieve sv def reg =
     (case reg (generateRegistryKey sv def) of
        Some op \<Rightarrow> Inr op
      | None \<Rightarrow> Inl ErrOperationNotFound)"

definition RegisterOperation ::
  "'v semver \<Rightarrow> ('v, 'd, 'w) operation list \<Rightarrow> ('v, 'd, 'w) operation_registry \<Rightarrow> ('v, 'd, 'w) operation_registry" where
  "RegisterOperation sv ops reg =
     fold (\<lambda>op reg. reg(generateRegistryKey sv (opn_def op) \<mapsto> AsUntyped op)) ops reg"

definition RegisterOperationRelaxed ::
  "'v semver \<Rightarrow> ('v, 'd, 'w) operation list \<Rightarrow> ('v, 'd, 'w) operation_registry \<Rightarrow> ('v, 'd, 'w) operation_registry" where
  "RegisterOperationRelaxed sv ops reg =
     fold (\<lambda>op reg. reg(generateRegistryKey sv (opn_def op) \<mapsto> AsUntypedRelaxed op)) ops reg"

section \<open>Options\<close>

record 'd retry_config =
  rc_Enabled :: bool
  rc_MaxAttempts :: u64
  rc_InputHook :: "(nat \<Rightarrow> op_error \<Rightarrow> goval \<Rightarrow> 'd option \<Rightarrow> goval) option"

record 'd execute_config =
  ec_retryConfig :: "'d retry_config"
  ec_forceExecute :: bool
  ec_idempotencyKey :: string

definition newDisabledRetryConfig :: "'d retry_config" where
  "newDisabledRetryConfig = \<lparr>rc_Enabled = False, rc_MaxAttempts = 10, rc_InputHook = None\<rparr>"

definition WithRetry :: "'d execute_config \<Rightarrow> 'd execute_config" where
  "WithRetry c = c\<lparr>ec_retryConfig := (ec_retryConfig c)\<lparr>rc_Enabled := True\<rparr>\<rparr>"

definition WithRetryInput ::
  "(nat \<Rightarrow> op_error \<Rightarrow> goval \<Rightarrow> 'd option \<Rightarrow> goval) \<Rightarrow> 'd execute_config \<Rightarrow> 'd execute_config" where
  "WithRetryInput inputHookFunc c =
     c\<lparr>ec_retryConfig := (ec_retryConfig c)\<lparr>rc_Enabled := True, rc_InputHook := Some inputHookFunc\<rparr>\<rparr>"

definition WithRetryConfig :: "'d retry_config \<Rightarrow> 'd execute_config \<Rightarrow> 'd execute_config" where
  "WithRetryConfig config c = c\<lparr>ec_retryConfig := config\<rparr>"

definition WithForceExecute :: "'d execute_config \<Rightarrow> 'd execute_config" where
  "WithForceExecute c = c\<lparr>ec_forceExecute := True\<rparr>"

definition WithIdempotencyKey :: "string \<Rightarrow> 'd execute_config \<Rightarrow> 'd execute_config" where
  "WithIdempotencyKey idempotencyKey c = c\<lparr>ec_idempotencyKey := idempotencyKey\<rparr>"

definition WithSequenceIdempotencyKey :: "string \<Rightarrow> string \<Rightarrow> string" where
  "WithSequenceIdempotencyKey idempotencyKey c = idempotencyKey"

definition WithOperationNRetry :: "'d retry_config \<Rightarrow> 'd retry_config" where
  "WithOperationNRetry c = c\<lparr>rc_Enabled := True\<rparr>"

definition WithOperationNRetryInput ::
  "(nat \<Rightarrow> op_error \<Rightarrow> goval \<Rightarrow> 'd option \<Rightarrow> goval) \<Rightarrow> 'd retry_config \<Rightarrow> 'd retry_config" where
  "WithOperationNRetryInput inputHookFunc c = c\<lparr>rc_Enabled := True, rc_InputHook := Some inputHookFunc\<rparr>"

definition WithOperationNRetryConfig :: "'d retry_config \<Rightarrow> 'd retry_config \<Rightarrow> 'd retry_config" where
  "WithOperationNRetryConfig config c = config"

definition execute_config_of :: "('d execute_config \<Rightarrow> 'd execute_config) list \<Rightarrow> 'd execute_config" where
  "execute_config_of opts =
     fold (\<lambda>opt c. opt c) opts
       \<lparr>ec_retryConfig = newDisabledRetryConfig, ec_forceExecute = False, ec_idempotencyKey = []\<rparr>"

section \<open>Reports of an execution\<close>

text \<open>\<open>RecentReporter.AddReport\<close> along the chain of wrappers, down to the memory reporter.\<close>

definition RecentReporter_AddReport :: "'v report \<Rightarrow> ('v, 'w) xstate \<Rightarrow> ('v, 'w) xstate" where
  "RecentReporter_AddReport report s =
     s\<lparr>xe_reports := MemoryReporter_AddReport report (xe_reports s),
       xe_recent := map (\<lambda>recentReports. recentReports @ [report]) (xe_recent s)\<rparr>"

definition NewRecentMemoryReporter :: "('v, 'w) xstate \<Rightarrow> ('v, 'w) xstate" where
  "NewRecentMemoryReporter s = s\<lparr>xe_recent := [] # xe_recent s\<rparr>"

definition GetRecentReports :: "('v, 'w) xstate \<Rightarrow> 'v report list" where
  "GetRecentReports s = hd (xe_recent s)"

definition hash_of ::
  "('v, 'w) op_lib \<Rightarrow> 'v op_definition \<Rightarrow> goval \<Rightarrow> string \<Rightarrow> (string \<rightharpoonup> string) \<Rightarrow> string option \<times> (string \<rightharpoonup> string)" where
  "hash_of lib def input idem cache =
     constructUniqueHashFrom (ol_sv lib) (ol_enc lib) (ol_sha lib) cache def input idem"

fun scan_previous ::
  "('v, 'w) op_lib \<Rightarrow> ('v, 'd, 'w) operation \<Rightarrow> string \<Rightarrow> 'v report list \<Rightarrow> (string \<rightharpoonup> string) \<Rightarrow>
   'v report option \<times> (string \<rightharpoonup> string)" where
  "scan_previous lib op currentHash [] cache = (None, cache)"
| "scan_previous lib op currentHash (report # reports) cache =
     (case hash_of lib (rp_Def report) (rp_Input report) (rp_IdempotencyKey report) cache of
        (None, cache) \<Rightarrow> scan_previous lib op currentHash reports cache
      | (Some reportHash, cache) \<Rightarrow>
          if reportHash = currentHash \<and> rp_Err report = None
          then (case typeReport (opn_decode_in op) (opn_decode_out op) report of
                  None \<Rightarrow> scan_previous lib op currentHash reports cache
                | Some typedReport \<Rightarrow> (Some typedReport, cache))
          else scan_previous lib op currentHash reports cache)"

definition loadPreviousSuccessfulReport ::
  "('v, 'w) op_lib \<Rightarrow> ('v, 'd, 'w) operation \<Rightarrow> goval \<Rightarrow> string \<Rightarrow> ('v, 'w) xstate \<Rightarrow>
   'v report option \<times> ('v, 'w) xstate" where
  "loadPreviousSuccessfulReport lib op input idempotencyKey s =
     (let prevReports = MemoryReporter_GetReports (xe_reports s) in
      case hash_of lib (opn_def op) input idempotencyKey (xe_cache s) of
        (None, cache) \<Rightarrow> (None, s\<lparr>xe_cache := cache\<rparr>)
      | (Some currentHash, cache) \<Rightarrow>
          (case scan_previous lib op currentHash (rev prevReports) cache of
             (found, cache) \<Rightarrow> (found, s\<lparr>xe_cache := cache\<rparr>)))"

definition executeWithRetry ::
  "('v, 'w) op_lib \<Rightarrow> ('v, 'd, 'w) operation \<Rightarrow> 'd option \<Rightarrow> goval \<Rightarrow> 'd retry_config \<Rightarrow> ('v, 'w) xstate attempt" where
  "executeWithRetry lib op deps input retryCfg s =
     (case ol_retry lib (rc_MaxAttempts retryCfg)
         (\<lambda>(inputTemp, s). case Operation_execute op deps inputTemp s of (r, s) \<Rightarrow> (r, (inputTemp, s)))
         (\<lambda>attempt err (inputTemp, s).
            (case rc_InputHook retryCfg of
               None \<Rightarrow> inputTemp
             | Some inputHook \<Rightarrow> inputHook attempt err inputTemp deps, s))
         (input, s) of
       (r, (inputTemp, s)) \<Rightarrow> (r, s))"

definition run_handler ::
  "('v, 'w) op_lib \<Rightarrow> ('v, 'd, 'w) operation \<Rightarrow> 'd option \<Rightarrow> goval \<Rightarrow> 'd retry_config \<Rightarrow> ('v, 'w) xstate attempt" where
  "run_handler lib op deps input retryCfg s =
     (if rc_Enabled retryCfg then executeWithRetry lib op deps input retryCfg s
      else Operation_execute op deps input s)"

text \<open>A new report, with the next id and the next time stamp.\<close>

definition make_report ::
  "('v, 'w) op_lib \<Rightarrow> 'v op_definition \<Rightarrow> goval \<Rightarrow> goval \<Rightarrow> op_error option \<Rightarrow> string list \<Rightarrow>
   ('v, 'w) xstate \<Rightarrow> 'v report \<times> ('v, 'w) xstate" where
  "make_report lib def input output err children s =
     (NewReport (ol_uuid lib (xe_next s)) (xe_next s) def input output err children,
      s\<lparr>xe_next := Suc (xe_next s)\<rparr>)"

section \<open>Executing an operation\<close>

text \<open>
  Running the operation and storing its report. The first component is the report, \<open>None\<close> for
  the zero report, the second the error.
\<close>

definition execute_and_report ::
  "('v, 'w) op_lib \<Rightarrow> ('v, 'd, 'w) operation \<Rightarrow> 'd option \<Rightarrow> goval \<Rightarrow> 'd retry_config \<Rightarrow> string \<Rightarrow>
   ('v, 'w) xstate \<Rightarrow> ('v report option \<times> op_error option) \<times> ('v, 'w) xstate" where
  "execute_and_report lib op deps input retryConfig idempotencyKey s =
     (case run_handler lib op deps input retryConfig s of
        ((output, err), s) \<Rightarrow>
          if err = None \<and> \<not> IsSerializable output
          then ((None, Some (ErrNotSerializable (od_ID (opn_def op)))), s)
          else
            (case make_report lib (opn_def op) input output err [] s of
               (report, s) \<Rightarrow>
                 let report = report\<lparr>rp_IdempotencyKey := idempotencyKey\<rparr>;
                     s = RecentReporter_AddReport (genericReport report) s in
                 ((Some report, map_option ErrMessage (rp_Err report)), s)))"

definition ExecuteOperation ::
  "('v, 'w) op_lib \<Rightarrow> ('v, 'd, 'w) operation \<Rightarrow> 'd option \<Rightarrow> goval \<Rightarrow> ('d execute_config \<Rightarrow> 'd execute_config) list \<Rightarrow>
   ('v, 'w) xstate \<Rightarrow> ('v report option \<times> op_error option) \<times> ('v, 'w) xstate" where
  "ExecuteOperation lib op deps input opts s =
     (if \<not> IsSerializable input then ((None, Some (ErrNotSerializable (od_ID (opn_def op)))), s)
      else
        let executeConfig = execute_config_of opts in
        case (if \<not> ec_forceExecute executeConfig
              then loadPreviousSuccessfulReport lib op input (ec_idempotencyKey executeConfig) s
              else (None, s)) of
          (Some previousReport, s) \<Rightarrow> ((Some previousReport, None), s)
        | (None, s) \<Rightarrow>
            execute_and_report lib op deps input (ec_retryConfig executeConfig) (ec_idempotencyKey executeConfig) s)"

section \<open>Executing an operation several times\<close>

fun scan_series ::
  "('v, 'w) op_lib \<Rightarrow> ('v, 'd, 'w) operation \<Rightarrow> string \<Rightarrow> string \<Rightarrow> 'v report list \<Rightarrow> (string \<rightharpoonup> string) \<Rightarrow>
   'v report list \<times> (string \<rightharpoonup> string)" where
  "scan_series lib op currentHash seriesID [] cache = ([], cache)"
| "scan_series lib op currentHash seriesID (report # reports) cache =
     (if (case rp_ExecutionSeries report of None \<Rightarrow> True | Some xs \<Rightarrow> xs_ID xs \<noteq> seriesID)
      then scan_series lib op currentHash seriesID reports cache
      else
        case hash_of lib (rp_Def report) (rp_Input report) [] cache of
          (None, cache) \<Rightarrow> scan_series lib op currentHash seriesID reports cache
        | (Some reportHash, cache) \<Rightarrow>
            if reportHash = currentHash \<and> rp_Err report = None
            then (case typeReport (opn_decode_in op) (opn_decode_out op) report of
                    None \<Rightarrow> scan_series lib op currentHash seriesID reports cache
                  | Some typedReport \<Rightarrow>
                      (case scan_series lib op currentHash seriesID reports cache of
                         (found, cache) \<Rightarrow> (typedReport # found, cache)))
            else scan_series lib op currentHash seriesID reports cache)"

definition zero_report :: "'v report" where
  "zero_report =
     \<lparr>rp_ID = [], rp_Def = \<lparr>od_ID = [], od_Version = None, od_Description = []\<rparr>, rp_Output = VNil,
      rp_Input = VNil, rp_Timestamp = 0, rp_Err = None, rp_ChildOperationReports = [],
      rp_ExecutionSeries = None, rp_IdempotencyKey = []\<rparr>"

text \<open>\<open>results[Order] = report\<close> for each one found; \<open>None\<close> is the panic of an index out of range.\<close>

fun place_by_order :: "'v report list \<Rightarrow> 'v report list \<Rightarrow> 'v report list option" where
  "place_by_order [] results = Some results"
| "place_by_order (r # rs) results =
     (let i = (case rp_ExecutionSeries r of None \<Rightarrow> 0 | Some xs \<Rightarrow> unat (xs_Order xs)) in
      if i < length results then place_by_order rs (results[i := r]) else None)"

definition loadSuccessfulExecutionSeriesReports ::
  "('v, 'w) op_lib \<Rightarrow> ('v, 'd, 'w) operation \<Rightarrow> goval \<Rightarrow> string \<Rightarrow> ('v, 'w) xstate \<Rightarrow>
   ('v report list \<times> bool) option \<times> ('v, 'w) xstate" where
  "loadSuccessfulExecutionSeriesReports lib op input seriesID s =
     (case hash_of lib (opn_def op) input [] (xe_cache s) of
        (None, cache) \<Rightarrow> (Some ([], False), s\<lparr>xe_cache := cache\<rparr>)
      | (Some currentHash, cache) \<Rightarrow>
          (case scan_series lib op currentHash seriesID (MemoryReporter_GetReports (xe_reports s)) cache of
             (foundReports, cache) \<Rightarrow>
               let s = s\<lparr>xe_cache := cache\<rparr> in
               if foundReports = [] then (Some ([], False), s)
               else (map_option (\<lambda>results. (results, True))
                       (place_by_order foundReports (replicate (length foundReports) zero_report)), s)))"

fun run_times ::
  "('v, 'w) op_lib \<Rightarrow> ('v, 'd, 'w) operation \<Rightarrow> 'd option \<Rightarrow> goval \<Rightarrow> 'd retry_config \<Rightarrow> string \<Rightarrow>
   nat \<Rightarrow> u64 \<Rightarrow> 'v report list \<Rightarrow> ('v, 'w) xstate \<Rightarrow> ('v report list \<times> op_error option) \<times> ('v, 'w) xstate" where
  "run_times lib op deps input cfg seriesID 0 order results s = ((results, None), s)"
| "run_times lib op deps input cfg seriesID (Suc n) order results s =
     (case run_handler lib op deps input cfg s of
        ((output, err), s) \<Rightarrow>
          if err = None \<and> \<not> IsSerializable output
          then (([], Some (ErrNotSerializable (od_ID (opn_def op)))), s)
          else
            (case make_report lib (opn_def op) input output err [] s of
               (report, s) \<Rightarrow>
                 let report = report\<lparr>rp_ExecutionSeries := Some \<lparr>xs_ID = seriesID, xs_Order = order\<rparr>\<rparr>;
                     s = RecentReporter_AddReport (genericReport report) s in
                 (case rp_Err report of
                    Some e \<Rightarrow> (([], Some (ErrMessage e)), s)
                  | None \<Rightarrow> run_times lib op deps input cfg seriesID n (order + 1) (results @ [report]) s)))"

definition ExecuteOperationN ::
  "('v, 'w) op_lib \<Rightarrow> ('v, 'd, 'w) operation \<Rightarrow> 'd option \<Rightarrow> goval \<Rightarrow> string \<Rightarrow> u64 \<Rightarrow>
   ('d retry_config \<Rightarrow> 'd retry_config) list \<Rightarrow>
   ('v, 'w) xstate \<Rightarrow> ('v report list \<times> op_error option) \<times> ('v, 'w) xstate" where
  "ExecuteOperationN lib op deps input seriesID n opts s =
     (if \<not> IsSerializable input then (([], Some (ErrNotSerializable (od_ID (opn_def op)))), s)
      else
        let nConfig = fold (\<lambda>opt c. opt c) opts newDisabledRetryConfig in
        case loadSuccessfulExecutionSeriesReports lib op input seriesID s of
          (None, s) \<Rightarrow> (([], Some PanicIndexOutOfRange), s)
        | (Some (results, ok), s) \<Rightarrow>
            let resultsLen = of_nat (length results) in
            if ok \<and> n \<le> resultsLen then ((take (unat n) results, None), s)
            else run_times lib op deps input nConfig seriesID (unat (n - resultsLen)) resultsLen results s)"

section \<open>Executing a sequence\<close>

text \<open>
  A sequence is a definition and a handler, like an operation. \<open>None\<close>: collecting the reports
  does not end. With as much fuel as there are reports the recursion only runs out of it when a
  report is its own descendant, and then the code does not return.
\<close>

type_synonym 'v sequence_report = "'v report \<times> 'v report list"

definition ExecuteSequence ::
  "('v, 'w) op_lib \<Rightarrow> ('v, 'd, 'w) operation \<Rightarrow> 'd option \<Rightarrow> goval \<Rightarrow> (string \<Rightarrow> string) list \<Rightarrow>
   ('v, 'w) xstate \<Rightarrow> (('v sequence_report option \<times> op_error option) \<times> ('v, 'w) xstate) option" where
  "ExecuteSequence lib sequence deps input opts s =
     (if \<not> IsSerializable input then Some ((None, Some (ErrNotSerializable (od_ID (opn_def sequence)))), s)
      else
        let idempotencyKey = fold (\<lambda>opt c. opt c) opts [] in
        case loadPreviousSuccessfulReport lib sequence input idempotencyKey s of
          (Some previousReport, s) \<Rightarrow>
            (case GetExecutionReports (length (xe_reports s)) (rp_ID previousReport) (xe_reports s) of
               None \<Rightarrow> None
             | Some (Inl e) \<Rightarrow> Some ((None, Some e), s)
             | Some (Inr executionReports) \<Rightarrow> Some ((Some (previousReport, executionReports), None), s))
        | (None, s) \<Rightarrow>
            (case opn_handler sequence deps input (NewRecentMemoryReporter s) of
               ((output, err), s) \<Rightarrow>
                 let recentReports = GetRecentReports s;
                     s = s\<lparr>xe_recent := tl (xe_recent s)\<rparr> in
                 if (case err of Some (ErrNotSerializable _) \<Rightarrow> True | _ \<Rightarrow> False) then Some ((None, err), s)
                 else if err = None \<and> \<not> IsSerializable output
                 then Some ((None, Some (ErrNotSerializable (od_ID (opn_def sequence)))), s)
                 else
                   (case make_report lib (opn_def sequence) input output err (map rp_ID recentReports) s of
                      (report, s) \<Rightarrow>
                        let report = report\<lparr>rp_IdempotencyKey := idempotencyKey\<rparr>;
                            s = RecentReporter_AddReport (genericReport report) s in
                        (case GetExecutionReports (length (xe_reports s)) (rp_ID report) (xe_reports s) of
                           None \<Rightarrow> None
                         | Some (Inl e) \<Rightarrow> Some ((None, Some e), s)
                         | Some (Inr executionReports) \<Rightarrow>
                             Some ((Some (report, executionReports), map_option ErrMessage (rp_Err report)), s)))))"

section \<open>Reuse of earlier reports\<close>

abbreviation cache_good :: "('v, 'w) op_lib \<Rightarrow> (string \<rightharpoonup> string) \<Rightarrow> bool" where
  "cache_good lib \<equiv> cache_ok (ol_sha lib)"

definition lib_hash :: "('v, 'w) op_lib \<Rightarrow> 'v op_definition \<Rightarrow> goval \<Rightarrow> string \<Rightarrow> string option" where
  "lib_hash lib def input idem = unique_hash (ol_sv lib) (ol_enc lib) (ol_sha lib) def input idem"

lemma hash_of_law:
  assumes "cache_good lib cache"
  obtains cache' where "hash_of lib def input idem cache = (lib_hash lib def input idem, cache')" "cache_good lib cache'"
  using constructUniqueHash_law [OF assms, of "ol_sv lib" "ol_enc lib" "def" input idem]
  by (cases "hash_of lib def input idem cache") (auto simp: hash_of_def lib_hash_def)

lemma lib_hash_defined: "IsSerializable input \<Longrightarrow> \<exists>h. lib_hash lib def input idem = Some h"
proof -
  assume "IsSerializable input"
  then obtain j where "marshal input = Some j" by (auto simp: IsSerializable_def)
  moreover obtain b where "marshal (decode_any j) = Some b"
    using marshal_plain(1) [OF plain_decode(1)] by blast
  ultimately show ?thesis
    by (simp add: lib_hash_def unique_hash_def buildUniqueHashCacheKey_def canonicalizeJSON_plain)
qed

text \<open>The report an execution may reuse: the last successful one with the same hash that has the types.\<close>

definition reusable :: "('v, 'w) op_lib \<Rightarrow> ('v, 'd, 'w) operation \<Rightarrow> string option \<Rightarrow> 'v report \<Rightarrow> bool" where
  "reusable lib op h r \<longleftrightarrow> h \<noteq> None \<and> lib_hash lib (rp_Def r) (rp_Input r) (rp_IdempotencyKey r) = h \<and>
     rp_Err r = None \<and> typeReport (opn_decode_in op) (opn_decode_out op) r \<noteq> None"

definition last_success ::
  "('v, 'w) op_lib \<Rightarrow> ('v, 'd, 'w) operation \<Rightarrow> goval \<Rightarrow> string \<Rightarrow> 'v report list \<Rightarrow> 'v report option" where
  "last_success lib op input idem reports =
     (case find (reusable lib op (lib_hash lib (opn_def op) input idem)) (rev reports) of
        None \<Rightarrow> None
      | Some r \<Rightarrow> typeReport (opn_decode_in op) (opn_decode_out op) r)"

lemma scan_previous_law:
  assumes "cache_good lib cache"
  shows "\<exists>cache'. cache_good lib cache' \<and> scan_previous lib op h reports cache =
    (case find (reusable lib op (Some h)) reports of
       None \<Rightarrow> None
     | Some r \<Rightarrow> typeReport (opn_decode_in op) (opn_decode_out op) r, cache')"
  using assms
proof (induction reports arbitrary: cache)
  case Nil
  then show ?case by auto
next
  case (Cons r reports)
  obtain c where c: "hash_of lib (rp_Def r) (rp_Input r) (rp_IdempotencyKey r) cache =
      (lib_hash lib (rp_Def r) (rp_Input r) (rp_IdempotencyKey r), c)" "cache_good lib c"
    using hash_of_law [OF Cons.prems] .
  obtain c' where c': "cache_good lib c'" "scan_previous lib op h reports c =
    (case find (reusable lib op (Some h)) reports of
       None \<Rightarrow> None
     | Some r \<Rightarrow> typeReport (opn_decode_in op) (opn_decode_out op) r, c')"
    using Cons.IH [OF c(2)] by blast
  show ?case
  proof (cases "reusable lib op (Some h) r")
    case True
    then obtain t where "typeReport (opn_decode_in op) (opn_decode_out op) r = Some t"
      "lib_hash lib (rp_Def r) (rp_Input r) (rp_IdempotencyKey r) = Some h" "rp_Err r = None"
      by (auto simp: reusable_def)
    then have "scan_previous lib op h (r # reports) cache = (Some t, c)"
      using c(1) by simp
    then show ?thesis using True c(2) \<open>typeReport _ _ r = Some t\<close> by auto
  next
    case False
    have "scan_previous lib op h (r # reports) cache = scan_previous lib op h reports c"
      using False c(1)
      by (cases "lib_hash lib (rp_Def r) (rp_Input r) (rp_IdempotencyKey r)")
        (auto simp: reusable_def split: option.split)
    then show ?thesis using False c' by auto
  qed
qed

lemma loadPrevious_law:
  assumes "cache_good lib (xe_cache s)"
  shows "\<exists>cache. cache_good lib cache \<and> loadPreviousSuccessfulReport lib op input idem s =
    (last_success lib op input idem (xe_reports s), s\<lparr>xe_cache := cache\<rparr>)"
proof -
  obtain c where c: "hash_of lib (opn_def op) input idem (xe_cache s) = (lib_hash lib (opn_def op) input idem, c)"
    "cache_good lib c" using hash_of_law [OF assms] .
  show ?thesis
  proof (cases "lib_hash lib (opn_def op) input idem")
    case None
    then have "find (reusable lib op None) (rev (xe_reports s)) = None"
      by (auto simp: find_None_iff reusable_def)
    then show ?thesis
      using c None by (auto simp: loadPreviousSuccessfulReport_def Let_def last_success_def)
  next
    case (Some h)
    then show ?thesis
      using c scan_previous_law [OF c(2), of op h "rev (xe_reports s)"]
      by (auto simp: loadPreviousSuccessfulReport_def Let_def last_success_def MemoryReporter_GetReports_def
          split: prod.splits)
  qed
qed

lemma execute_config_append: "execute_config_of (opts @ [o']) = o' (execute_config_of opts)"
  by (simp add: execute_config_of_def)

lemma ExecuteOperation_forced:
  "IsSerializable input \<Longrightarrow> ExecuteOperation lib op deps input (opts @ [WithForceExecute]) s =
     execute_and_report lib op deps input (ec_retryConfig (execute_config_of opts))
       (ec_idempotencyKey (execute_config_of opts)) s"
  by (simp add: ExecuteOperation_def execute_config_append WithForceExecute_def)

lemma ExecuteOperation_law:
  assumes "cache_good lib (xe_cache s)" "IsSerializable input" "\<not> ec_forceExecute (execute_config_of opts)"
  shows "\<exists>cache. cache_good lib cache \<and> ExecuteOperation lib op deps input opts s =
    (case last_success lib op input (ec_idempotencyKey (execute_config_of opts)) (xe_reports s) of
       Some r \<Rightarrow> ((Some r, None), s\<lparr>xe_cache := cache\<rparr>)
     | None \<Rightarrow> ExecuteOperation lib op deps input (opts @ [WithForceExecute]) (s\<lparr>xe_cache := cache\<rparr>))"
proof -
  obtain c where c: "cache_good lib c"
    "loadPreviousSuccessfulReport lib op input (ec_idempotencyKey (execute_config_of opts)) s =
      (last_success lib op input (ec_idempotencyKey (execute_config_of opts)) (xe_reports s), s\<lparr>xe_cache := c\<rparr>)"
    using loadPrevious_law [OF assms(1)] by blast
  have "ExecuteOperation lib op deps input opts s =
    (case last_success lib op input (ec_idempotencyKey (execute_config_of opts)) (xe_reports s) of
       Some r \<Rightarrow> ((Some r, None), s\<lparr>xe_cache := c\<rparr>)
     | None \<Rightarrow> ExecuteOperation lib op deps input (opts @ [WithForceExecute]) (s\<lparr>xe_cache := c\<rparr>))"
    unfolding ExecuteOperation_forced [OF assms(2)]
    using assms(2,3) c(2) by (simp add: ExecuteOperation_def Let_def split: option.split)
  then show ?thesis using c(1) by blast
qed

text \<open>
  C3: An execution is skipped exactly when there is a report to reuse. For a serialisable input and
  no forced execution: if some stored report without an error has the hash of the definition, the
  input and the idempotency key (and can be read at the types of the operation), the last such
  report is returned and nothing but the hash cache changes, so the handler does not run; otherwise
  (all earlier attempts failed, or there were none) the call does what a forced execution does.
\<close>

theorem ExecuteOperation_skips_iff_reusable:
  assumes "cache_good lib (xe_cache s)" "IsSerializable input" "\<not> ec_forceExecute (execute_config_of opts)"
  shows "\<exists>cache. cache_good lib cache \<and> ExecuteOperation lib op deps input opts s =
    (case last_success lib op input (ec_idempotencyKey (execute_config_of opts)) (xe_reports s) of
       Some r \<Rightarrow> ((Some r, None), s\<lparr>xe_cache := cache\<rparr>)
     | None \<Rightarrow> ExecuteOperation lib op deps input (opts @ [WithForceExecute]) (s\<lparr>xe_cache := cache\<rparr>))"
  using assms by (rule ExecuteOperation_law)

text \<open>Closed examples: a library without retries and an operation that counts its runs.\<close>

definition once :: "u64 \<Rightarrow> 's attempt \<Rightarrow> (nat \<Rightarrow> op_error \<Rightarrow> 's \<Rightarrow> 's) \<Rightarrow> 's attempt" where
  "once attempts f hook s = f s"

definition example_lib :: "(nat, nat) op_lib" where
  "example_lib =
     \<lparr>ol_sv = nat_semver, ol_enc = demo_enc, ol_sha = (\<lambda>s. s), ol_uuid = dec_string, ol_retry = once\<rparr>"

definition example_op :: "(nat, unit, nat) operation" where
  "example_op =
     \<lparr>opn_def = \<lparr>od_ID = ''op'', od_Version = Some 1, od_Description = ''d''\<rparr>,
      opn_handler = (\<lambda>deps input s. ((VBool True, None), s\<lparr>xe_world := Suc (xe_world s)\<rparr>)),
      opn_decode_in = (\<lambda>j. Some (decode_any j)), opn_decode_out = (\<lambda>j. Some (decode_any j)),
      opn_has_type = (\<lambda>_. True), opn_has_deps = (\<lambda>_. True), opn_zero = VNil\<rparr>"

definition example_state :: "(nat, nat) xstate" where
  "example_state = \<lparr>xe_reports = [], xe_recent = [], xe_cache = Map.empty, xe_next = 0, xe_world = 0\<rparr>"

theorem ExecuteOperation_skips_iff_reusable_witness:
  "\<exists>cache. ExecuteOperation example_lib example_op None VNil [] example_state =
     ExecuteOperation example_lib example_op None VNil [WithForceExecute] (example_state\<lparr>xe_cache := cache\<rparr>)"
  using ExecuteOperation_skips_iff_reusable [of example_lib example_state VNil "[]" example_op None]
  by (auto simp: example_state_def IsSerializable_def execute_config_of_def last_success_def)

section \<open>Executions only append reports\<close>

text \<open>
  The invariant of the report store: reports refer to earlier reports only, their ids are pairwise
  different, and every id came from the counter.
\<close>

definition store_wf :: "('v, 'w) op_lib \<Rightarrow> ('v, 'w) xstate \<Rightarrow> bool" where
  "store_wf lib s \<longleftrightarrow> backward_refs (xe_reports s) \<and> distinct (map rp_ID (xe_reports s)) \<and>
     (\<forall>r \<in> set (xe_reports s). \<exists>n < xe_next s. rp_ID r = ol_uuid lib n)"

text \<open>
  What an execution may do to the state: append reports, to every wrapper the same ones, and keep
  the invariants.
\<close>

definition extends :: "('v, 'w) op_lib \<Rightarrow> ('v, 'w) xstate \<Rightarrow> ('v, 'w) xstate \<Rightarrow> bool" where
  "extends lib s t \<longleftrightarrow>
     (\<exists>new. xe_reports t = xe_reports s @ new \<and> xe_recent t = map (\<lambda>l. l @ new) (xe_recent s)) \<and>
     xe_next s \<le> xe_next t \<and> (cache_good lib (xe_cache s) \<longrightarrow> cache_good lib (xe_cache t)) \<and>
     (store_wf lib s \<longrightarrow> store_wf lib t)"

definition handler_extends :: "('v, 'w) op_lib \<Rightarrow> ('v, 'd, 'w) operation \<Rightarrow> bool" where
  "handler_extends lib op \<longleftrightarrow> (\<forall>deps input s. extends lib s (snd (opn_handler op deps input s)))"

text \<open>The retry library only calls the function and the hook it is given.\<close>

definition retry_ok :: "('v, 'w) op_lib \<Rightarrow> bool" where
  "retry_ok lib \<longleftrightarrow> (\<forall>R n f h s. reflp R \<longrightarrow> transp R \<longrightarrow> (\<forall>t. R t (snd (f t))) \<longrightarrow> (\<forall>k e t. R t (h k e t)) \<longrightarrow>
     R s (snd (ol_retry lib n f h s)))"

lemma extends_refl [simp]: "extends lib s s"
  by (auto simp: extends_def)

lemma extends_trans: "extends lib s t \<Longrightarrow> extends lib t u \<Longrightarrow> extends lib s u"
  unfolding extends_def by (elim exE conjE) auto

lemma extends_cache:
  "(cache_good lib (xe_cache s) \<Longrightarrow> cache_good lib c) \<Longrightarrow> extends lib s (s\<lparr>xe_cache := c\<rparr>)"
  by (auto simp: extends_def store_wf_def)

lemma extends_world: "extends lib s (s\<lparr>xe_world := w\<rparr>)"
  by (auto simp: extends_def store_wf_def)

lemma hash_of_good: "cache_good lib c \<Longrightarrow> cache_good lib (snd (hash_of lib def input idem c))"
  unfolding hash_of_def by (rule constructUniqueHash_law(2))

lemma run_handler_extends:
  assumes "handler_extends lib op" "retry_ok lib"
  shows "extends lib s (snd (run_handler lib op deps input cfg s))"
proof (cases "rc_Enabled cfg")
  case True
  define f where "f = (\<lambda>(inputTemp, s). case Operation_execute op deps inputTemp s of (r, s) \<Rightarrow> (r, (inputTemp, s)))"
  define h where "h = (\<lambda>attempt err (inputTemp, s :: ('a, 'b) xstate).
            (case rc_InputHook cfg of
               None \<Rightarrow> inputTemp
             | Some inputHook \<Rightarrow> inputHook attempt err inputTemp deps, s))"
  let ?R = "\<lambda>(p :: goval \<times> ('a, 'b) xstate) q. extends lib (snd p) (snd q)"
  have "reflp ?R" "transp ?R" by (auto intro: reflpI transpI extends_trans)
  moreover have "?R t (snd (f t))" for t
    using assms(1) by (auto simp: f_def handler_extends_def Operation_execute_def split: prod.splits) (metis snd_conv)
  moreover have "?R t (h k e t)" for k e t by (auto simp: h_def split: prod.splits)
  ultimately have "?R (input, s) (snd (ol_retry lib (rc_MaxAttempts cfg) f h (input, s)))"
    using assms(2) [unfolded retry_ok_def, rule_format, of ?R f h] by blast
  then show ?thesis
    using True by (auto simp: run_handler_def executeWithRetry_def f_def h_def split: prod.splits)
next
  case False
  then show ?thesis using assms(1) by (simp add: run_handler_def Operation_execute_def handler_extends_def)
qed

lemma backward_refs_append:
  assumes "backward_refs rs" "set (rp_ChildOperationReports r) \<subseteq> rp_ID ` set rs"
  shows "backward_refs (rs @ [r])"
  unfolding backward_refs_def
proof (intro allI impI ballI)
  fix i c
  assume i: "i < length (rs @ [r])" and c: "c \<in> set (rp_ChildOperationReports ((rs @ [r]) ! i))"
  show "\<exists>j < i. rp_ID ((rs @ [r]) ! j) = c"
  proof (cases "i < length rs")
    case True
    then obtain j where "j < i" "rp_ID (rs ! j) = c"
      using assms(1) c by (auto simp: backward_refs_def nth_append)
    then show ?thesis using True by (auto simp: nth_append intro!: exI [of _ j])
  next
    case False
    then have "i = length rs" using i by simp
    then have "c \<in> rp_ID ` set rs" using c assms(2) by auto
    then obtain j where "j < length rs" "rp_ID (rs ! j) = c" by (auto simp: in_set_conv_nth)
    then show ?thesis using \<open>i = length rs\<close> by (auto simp: nth_append intro!: exI [of _ j])
  qed
qed

lemma store_report_extends:
  assumes "inj (ol_uuid lib)" "rp_ID r = ol_uuid lib (xe_next s)"
    and "set (rp_ChildOperationReports r) \<subseteq> rp_ID ` set (xe_reports s)"
  shows "extends lib s (RecentReporter_AddReport r (s\<lparr>xe_next := Suc (xe_next s)\<rparr>))"
proof -
  have "store_wf lib (RecentReporter_AddReport r (s\<lparr>xe_next := Suc (xe_next s)\<rparr>))" if wf: "store_wf lib s"
  proof -
    have "rp_ID r \<notin> rp_ID ` set (xe_reports s)"
    proof
      assume "rp_ID r \<in> rp_ID ` set (xe_reports s)"
      then obtain n where "n < xe_next s" "ol_uuid lib n = ol_uuid lib (xe_next s)"
        using wf assms(2) unfolding store_wf_def by (metis imageE)
      then show False using injD [OF assms(1)] by blast
    qed
    then show ?thesis
      using wf assms(2) backward_refs_append [OF _ assms(3)]
      by (auto simp: store_wf_def RecentReporter_AddReport_def MemoryReporter_AddReport_def less_Suc_eq)
  qed
  then show ?thesis
    by (auto simp: extends_def RecentReporter_AddReport_def MemoryReporter_AddReport_def)
qed

lemma execute_and_report_extends:
  assumes "handler_extends lib op" "retry_ok lib" "inj (ol_uuid lib)"
  shows "extends lib s (snd (execute_and_report lib op deps input cfg idem s))"
proof -
  obtain res err t where run: "run_handler lib op deps input cfg s = ((res, err), t)"
    by (metis prod.collapse)
  have "extends lib s t" using run_handler_extends [OF assms(1,2), of s deps input cfg] run by simp
  moreover have "extends lib t (RecentReporter_AddReport
      ((NewReport (ol_uuid lib (xe_next t)) (xe_next t) (opn_def op) input res err [])\<lparr>rp_IdempotencyKey := idem\<rparr>)
      (t\<lparr>xe_next := Suc (xe_next t)\<rparr>))"
    by (rule store_report_extends [OF assms(3)]) (simp_all add: NewReport_def)
  ultimately show ?thesis
    by (auto simp: execute_and_report_def run make_report_def Let_def intro: extends_trans)
qed

lemma scan_previous_good: "cache_good lib c \<Longrightarrow> cache_good lib (snd (scan_previous lib op h rs c))"
  using scan_previous_law by (metis snd_conv)

lemma loadPrevious_shape: "\<exists>c. snd (loadPreviousSuccessfulReport lib op input idem s) = s\<lparr>xe_cache := c\<rparr>"
  by (auto simp: loadPreviousSuccessfulReport_def Let_def split: prod.splits option.splits)

lemma loadPrevious_extends: "extends lib s (snd (loadPreviousSuccessfulReport lib op input idem s))"
proof -
  obtain c where c: "snd (loadPreviousSuccessfulReport lib op input idem s) = s\<lparr>xe_cache := c\<rparr>"
    using loadPrevious_shape by blast
  have "cache_good lib c" if good: "cache_good lib (xe_cache s)"
  proof -
    obtain d where "cache_good lib d" "snd (loadPreviousSuccessfulReport lib op input idem s) = s\<lparr>xe_cache := d\<rparr>"
      using loadPrevious_law [OF good, of op input idem] by auto
    with c show ?thesis by (metis xstate.select_convs(3) xstate.surjective xstate.update_convs(3))
  qed
  then show ?thesis unfolding c by (rule extends_cache)
qed

lemma ExecuteOperation_extends:
  assumes "handler_extends lib op" "retry_ok lib" "inj (ol_uuid lib)"
  shows "extends lib s (snd (ExecuteOperation lib op deps input opts s))"
proof -
  obtain found t where found: "(if \<not> ec_forceExecute (execute_config_of opts)
      then loadPreviousSuccessfulReport lib op input (ec_idempotencyKey (execute_config_of opts)) s
      else (None, s)) = (found, t)" by (metis prod.collapse)
  then have "extends lib s t"
    using loadPrevious_extends [of lib s op input "ec_idempotencyKey (execute_config_of opts)"]
    by (auto split: if_splits)
  then show ?thesis
    unfolding ExecuteOperation_def Let_def found
    using execute_and_report_extends [OF assms] by (auto intro: extends_trans split: option.split)
qed

lemma run_times_extends:
  assumes "handler_extends lib op" "retry_ok lib" "inj (ol_uuid lib)"
  shows "extends lib s (snd (run_times lib op deps input cfg seriesID n order results s))"
proof (induction n arbitrary: order results s)
  case (Suc n)
  obtain res err t where run: "run_handler lib op deps input cfg s = ((res, err), t)"
    by (metis prod.collapse)
  let ?r = "(NewReport (ol_uuid lib (xe_next t)) (xe_next t) (opn_def op) input res err [])
      \<lparr>rp_ExecutionSeries := Some \<lparr>xs_ID = seriesID, xs_Order = order\<rparr>\<rparr>"
  let ?u = "RecentReporter_AddReport ?r (t\<lparr>xe_next := Suc (xe_next t)\<rparr>)"
  have st: "extends lib s t" using run_handler_extends [OF assms(1,2), of s deps input cfg] run by simp
  have "extends lib t ?u"
    by (rule store_report_extends [OF assms(3)]) (simp_all add: NewReport_def)
  with st have "extends lib s ?u" by (rule extends_trans)
  with st Suc.IH show ?case
    by (auto simp: run make_report_def Let_def intro: extends_trans split: option.split)
qed simp

lemma scan_series_good: "cache_good lib c \<Longrightarrow> cache_good lib (snd (scan_series lib op h seriesID rs c))"
proof (induction rs arbitrary: c)
  case (Cons r rs)
  obtain c' where c': "hash_of lib (rp_Def r) (rp_Input r) [] c =
      (lib_hash lib (rp_Def r) (rp_Input r) [], c')" "cache_good lib c'"
    using hash_of_law [OF Cons.prems] .
  with Cons show ?case by (auto split: option.splits prod.splits) (metis snd_conv)+
qed simp

lemma loadSeries_extends: "extends lib s (snd (loadSuccessfulExecutionSeriesReports lib op input seriesID s))"
proof -
  obtain h c where h: "hash_of lib (opn_def op) input [] (xe_cache s) = (h, c)" by fastforce
  then have c: "cache_good lib (xe_cache s) \<Longrightarrow> cache_good lib c" using hash_of_good by (metis snd_conv)
  show ?thesis
  proof (cases h)
    case None
    then show ?thesis using h c by (simp add: loadSuccessfulExecutionSeriesReports_def extends_cache)
  next
    case (Some k)
    obtain rs d where scan: "scan_series lib op k seriesID (MemoryReporter_GetReports (xe_reports s)) c = (rs, d)"
      by fastforce
    then have "cache_good lib c \<Longrightarrow> cache_good lib d" using scan_series_good by (metis snd_conv)
    then show ?thesis
      using h c Some scan by (simp add: loadSuccessfulExecutionSeriesReports_def Let_def extends_cache)
  qed
qed

lemma ExecuteOperationN_extends:
  assumes "handler_extends lib op" "retry_ok lib" "inj (ol_uuid lib)"
  shows "extends lib s (snd (ExecuteOperationN lib op deps input seriesID n opts s))"
proof -
  obtain res t where load: "loadSuccessfulExecutionSeriesReports lib op input seriesID s = (res, t)" by fastforce
  then have st: "extends lib s t" using loadSeries_extends [of lib s op input seriesID] by simp
  show ?thesis
    unfolding ExecuteOperationN_def Let_def load
    using st extends_trans [OF st run_times_extends [OF assms]]
    by (auto split: option.split prod.split)
qed

lemma sequence_handler:
  assumes "handler_extends lib sequence" "opn_handler sequence deps input (NewRecentMemoryReporter s) = (r, t)"
  obtains new where "GetRecentReports t = new" "xe_reports t = xe_reports s @ new"
    "extends lib s (t\<lparr>xe_recent := tl (xe_recent t)\<rparr>)"
proof -
  have "extends lib (NewRecentMemoryReporter s) t"
    using assms unfolding handler_extends_def by (metis snd_conv)
  then obtain new where new: "xe_reports t = xe_reports s @ new" "xe_recent t = new # map (\<lambda>l. l @ new) (xe_recent s)"
    and more: "xe_next s \<le> xe_next t" "cache_good lib (xe_cache s) \<longrightarrow> cache_good lib (xe_cache t)"
    "store_wf lib s \<longrightarrow> store_wf lib t"
    by (auto simp: extends_def NewRecentMemoryReporter_def store_wf_def)
  have "extends lib s (t\<lparr>xe_recent := tl (xe_recent t)\<rparr>)"
    using new more by (auto simp: extends_def store_wf_def)
  then show ?thesis using that [of new] new by (simp add: GetRecentReports_def)
qed

lemma sequence_report_extends:
  assumes "inj (ol_uuid lib)" "extends lib s t" "set ids \<subseteq> rp_ID ` set (xe_reports t)"
  shows "extends lib s (RecentReporter_AddReport
      ((NewReport (ol_uuid lib (xe_next t)) (xe_next t) def input res err ids)\<lparr>rp_IdempotencyKey := idem\<rparr>)
      (t\<lparr>xe_next := Suc (xe_next t)\<rparr>))"
  by (rule extends_trans [OF assms(2)], rule store_report_extends [OF assms(1)])
    (use assms(3) in \<open>simp_all add: NewReport_def\<close>)

lemma ExecuteSequence_extends:
  assumes "handler_extends lib sequence" "inj (ol_uuid lib)"
    and result: "ExecuteSequence lib sequence deps input opts s = Some (res, u)"
  shows "extends lib s u"
proof (cases "IsSerializable input")
  case True
  let ?idem = "fold (\<lambda>opt c. opt c) opts []"
  obtain found s1 where load: "loadPreviousSuccessfulReport lib sequence input ?idem s = (found, s1)" by fastforce
  then have s1: "extends lib s s1" using loadPrevious_extends [of lib s sequence input ?idem] by simp
  show ?thesis
  proof (cases found)
    case (Some prev)
    then show ?thesis
      using result True load s1
      by (auto simp: ExecuteSequence_def Let_def split: option.splits sum.splits)
  next
    case None
    obtain out err t where run: "opn_handler sequence deps input (NewRecentMemoryReporter s1) = ((out, err), t)"
      by (metis prod.collapse)
    obtain new where new: "GetRecentReports t = new" "xe_reports t = xe_reports s1 @ new"
      "extends lib s1 (t\<lparr>xe_recent := tl (xe_recent t)\<rparr>)"
      using sequence_handler [OF assms(1) run] .
    have t: "extends lib s (t\<lparr>xe_recent := tl (xe_recent t)\<rparr>)" by (rule extends_trans [OF s1 new(3)])
    have "set (map rp_ID new) \<subseteq> rp_ID ` set (xe_reports (t\<lparr>xe_recent := tl (xe_recent t)\<rparr>))"
      using new(2) by auto
    note v = sequence_report_extends [OF assms(2) t this]
    show ?thesis
      using result True load None run t v
      by (auto simp: ExecuteSequence_def Let_def new(1) make_report_def split: option.splits sum.splits if_splits)
  qed
next
  case False
  then show ?thesis using result by (simp add: ExecuteSequence_def)
qed

text \<open>
  Executions only append. Whatever operation, series of operations or sequence is executed, with
  any options, the reports stored before stay where they are, every reporter that wraps the memory
  reporter gets exactly the new reports, the hash cache stays a cache, and the store stays well formed
  (reports refer backwards, ids are unique). So what the handlers of a sequence may do is what these
  executions do. Assumed: handlers of which the same holds, fresh UUIDs, and a retry library that
  only calls what it is given.
\<close>

lemma executions_append_only:
  assumes "handler_extends lib op" "retry_ok lib" "inj (ol_uuid lib)"
  shows "extends lib s (snd (ExecuteOperation lib op deps input opts s)) \<and>
    extends lib s (snd (ExecuteOperationN lib op deps input seriesID n nopts s)) \<and>
    (case ExecuteSequence lib op deps input sopts s of None \<Rightarrow> True | Some (res, t) \<Rightarrow> extends lib s t)"
  using ExecuteOperation_extends [OF assms] ExecuteOperationN_extends [OF assms]
    ExecuteSequence_extends [OF assms(1,3)] by (auto split: option.split)

lemma inj_dec_string: "inj dec_string"
  by (rule inj_on_inverseI [of _ parse_dec]) simp

lemma example_lib_ok: "retry_ok example_lib" "inj (ol_uuid example_lib)" "handler_extends example_lib example_op"
proof -
  show "retry_ok example_lib" by (simp add: retry_ok_def example_lib_def once_def)
  show "inj (ol_uuid example_lib)" by (simp add: example_lib_def inj_dec_string)
  show "handler_extends example_lib example_op"
    by (simp add: handler_extends_def example_op_def extends_world)
qed

lemma executions_append_only_witness:
  "extends example_lib example_state (snd (ExecuteOperation example_lib example_op None VNil [] example_state)) \<and>
   extends example_lib example_state (snd (ExecuteOperationN example_lib example_op None VNil ''s'' 2 [] example_state))"
  using executions_append_only [OF example_lib_ok(3,1,2)] by blast

section \<open>Executing twice\<close>

lemma xstate_cache_fields [simp]:
  "xe_reports (s\<lparr>xe_cache := c\<rparr>) = xe_reports s" by simp

lemma execute_and_report_success:
  assumes "execute_and_report lib op deps input cfg idem s = ((Some r, None), u)"
  shows "\<exists>rs. xe_reports u = rs @ [r] \<and> rp_Def r = opn_def op \<and> rp_Input r = input \<and> rp_Err r = None \<and> rp_IdempotencyKey r = idem"
proof -
  obtain res err t where run: "run_handler lib op deps input cfg s = ((res, err), t)"
    by (metis prod.collapse)
  show ?thesis
    using assms
    by (auto simp: execute_and_report_def run make_report_def Let_def NewReport_def RecentReporter_AddReport_def
        MemoryReporter_AddReport_def split: if_splits)
qed

lemma last_success_appended:
  assumes "reusable lib op (lib_hash lib (opn_def op) input idem) r"
  shows "last_success lib op input idem (rs @ [r]) = typeReport (opn_decode_in op) (opn_decode_out op) r"
  using assms by (simp add: last_success_def)

text \<open>
  Executing the same operation again does not run it again. After an execution that succeeded
  with report \<open>r\<close>, another execution of the operation with the same input and idempotency key
  (not forced, whatever the dependencies and the retry options) returns the same report and changes
  nothing but the hash cache. Assumed of the operation: the report is read back as it is at the
  types of the operation.
\<close>

lemma ExecuteOperation_twice:
  assumes "handler_extends lib op" "retry_ok lib" "inj (ol_uuid lib)" "cache_good lib (xe_cache s)"
    and "ExecuteOperation lib op deps input opts s = ((Some r, None), t)"
    and "typeReport (opn_decode_in op) (opn_decode_out op) r = Some r"
    and "ec_idempotencyKey (execute_config_of opts') = ec_idempotencyKey (execute_config_of opts)"
    and "\<not> ec_forceExecute (execute_config_of opts')"
  shows "\<exists>cache. ExecuteOperation lib op deps' input opts' t = ((Some r, None), t\<lparr>xe_cache := cache\<rparr>)"
proof -
  let ?idem = "ec_idempotencyKey (execute_config_of opts)"
  have ser: "IsSerializable input" using assms(5) by (auto simp: ExecuteOperation_def split: if_splits)
  obtain h where h: "lib_hash lib (opn_def op) input ?idem = Some h" using lib_hash_defined [OF ser] by blast
  have good: "cache_good lib (xe_cache t)"
    using ExecuteOperation_extends [OF assms(1-3), of s deps input opts] assms(4,5) by (auto simp: extends_def)
  have ran: "last_success lib op input ?idem (xe_reports t) = Some r"
    if run: "execute_and_report lib op deps input (ec_retryConfig (execute_config_of opts)) ?idem u = ((Some r, None), t)" for u
  proof -
    obtain rs where v: "xe_reports t = rs @ [r]"
      and r: "rp_Def r = opn_def op" "rp_Input r = input" "rp_Err r = None" "rp_IdempotencyKey r = ?idem"
      using execute_and_report_success [OF run] by blast
    have "reusable lib op (lib_hash lib (opn_def op) input ?idem) r"
      using r h assms(6) by (simp add: reusable_def)
    from last_success_appended [OF this] show ?thesis unfolding v assms(6) by simp
  qed
  have "last_success lib op input ?idem (xe_reports t) = Some r"
  proof (cases "ec_forceExecute (execute_config_of opts)")
    case True
    then have "execute_and_report lib op deps input (ec_retryConfig (execute_config_of opts)) ?idem s = ((Some r, None), t)"
      using assms(5) ser by (simp add: ExecuteOperation_def Let_def)
    then show ?thesis by (rule ran)
  next
    case False
    obtain c where run: "ExecuteOperation lib op deps input opts s =
      (case last_success lib op input ?idem (xe_reports s) of
         Some r \<Rightarrow> ((Some r, None), s\<lparr>xe_cache := c\<rparr>)
       | None \<Rightarrow> ExecuteOperation lib op deps input (opts @ [WithForceExecute]) (s\<lparr>xe_cache := c\<rparr>))"
      using ExecuteOperation_law [OF assms(4) ser False] by blast
    show ?thesis
    proof (cases "last_success lib op input ?idem (xe_reports s)")
      case None
      then show ?thesis using run assms(5) ran unfolding ExecuteOperation_forced [OF ser] by simp
    next
      case (Some p)
      then have "p = r" "t = s\<lparr>xe_cache := c\<rparr>" using run assms(5) by auto
      then show ?thesis using Some by simp
    qed
  qed
  then show ?thesis
    using ExecuteOperation_law [OF good ser assms(8), of op deps'] assms(7) by auto
qed

lemma ExecuteOperation_twice_witness:
  "\<exists>r t cache. ExecuteOperation example_lib example_op None VNil [] example_state = ((Some r, None), t) \<and>
     xe_world t = 1 \<and>
     ExecuteOperation example_lib example_op None VNil [] t = ((Some r, None), t\<lparr>xe_cache := cache\<rparr>)"
proof -
  let ?r = "NewReport (dec_string 0) 0 (opn_def example_op) VNil (VBool True) None []"
  obtain c where "cache_good example_lib c" "ExecuteOperation example_lib example_op None VNil [] example_state =
     ExecuteOperation example_lib example_op None VNil ([] @ [WithForceExecute]) (example_state\<lparr>xe_cache := c\<rparr>)"
    using ExecuteOperation_law [of example_lib example_state VNil "[]" example_op None]
    by (auto simp: example_state_def IsSerializable_def execute_config_of_def last_success_def)
  then obtain t where t: "ExecuteOperation example_lib example_op None VNil [] example_state = ((Some ?r, None), t)"
    "xe_world t = 1"
    unfolding ExecuteOperation_forced [of VNil, simplified IsSerializable_def, simplified]
    by (auto simp: execute_and_report_def run_handler_def execute_config_of_def newDisabledRetryConfig_def
        Operation_execute_def make_report_def RecentReporter_AddReport_def MemoryReporter_AddReport_def NewReport_def
        example_op_def example_lib_def example_state_def IsSerializable_def Let_def)
  have "typeReport (opn_decode_in example_op) (opn_decode_out example_op) ?r = Some ?r"
    by (simp add: typeReport_def NewReport_def example_op_def)
  moreover have "cache_good example_lib (xe_cache example_state)" by (simp add: example_state_def)
  ultimately show ?thesis
    using ExecuteOperation_twice [OF example_lib_ok(3,1,2) _ t(1), of "[]" None] t
    by (auto simp: execute_config_of_def)
qed

section \<open>Sequences\<close>

lemma stored_report_found:
  assumes "store_wf lib s" "rid \<in> rp_ID ` set (xe_reports s)"
  obtains rs where "GetExecutionReports (length (xe_reports s)) rid (xe_reports s) = Some (Inr rs)"
    "rs \<noteq> []" "rp_ID (last rs) = rid"
proof -
  obtain j where j: "j < length (xe_reports s)" "rp_ID (xe_reports s ! j) = rid"
    using assms(2) by (auto simp: in_set_conv_nth)
  obtain i where i: "position (xe_reports s) rid = Some i" using position_below [OF j] by blast
  then have "i < length (xe_reports s)" "rp_ID (xe_reports s ! i) = rid"
    by (auto simp: position_def index_where_Some)
  then obtain rs where "getReportsRecursively (length (xe_reports s)) (xe_reports s) rid =
      Some (Inr (rs @ [xe_reports s ! i]))"
    using getReports_terminates [OF _ i] assms(1) unfolding store_wf_def by blast
  then show ?thesis
    using that [of "rs @ [xe_reports s ! i]"] \<open>rp_ID (xe_reports s ! i) = rid\<close>
    by (simp add: GetExecutionReports_def)
qed

lemma last_success_stored: "last_success lib op input idem rs = Some r \<Longrightarrow> rp_ID r \<in> rp_ID ` set rs"
proof -
  assume found: "last_success lib op input idem rs = Some r"
  then obtain r' where r': "find (reusable lib op (lib_hash lib (opn_def op) input idem)) (rev rs) = Some r'"
    "typeReport (opn_decode_in op) (opn_decode_out op) r' = Some r"
    by (auto simp: last_success_def split: option.splits)
  then have "r' \<in> set (rev rs)" by (metis find_Some_iff nth_mem)
  then have "r' \<in> set rs" by simp
  then show ?thesis using typeReport_fields [OF r'(2)] by auto
qed

text \<open>
  C7: Executing a sequence always returns, and its report is complete. In a well-formed store the
  collection of the reports ends; the only way to get no report is a value that cannot be
  serialised. Otherwise the executed reports end with the report of the sequence, and either it is
  the report of an earlier success and nothing is stored, or the sequence ran, and the store has
  grown by the reports its operations and inner sequences stored, followed by its own report, whose
  children are exactly those reports in that order.
\<close>

theorem ExecuteSequence_complete:
  assumes "handler_extends lib sequence" "inj (ol_uuid lib)" "store_wf lib s" "cache_good lib (xe_cache s)"
  shows "\<exists>res err t. ExecuteSequence lib sequence deps input opts s = Some ((res, err), t) \<and>
    (case res of
       None \<Rightarrow> (\<exists>i. err = Some (ErrNotSerializable i))
     | Some (report, executed) \<Rightarrow> executed \<noteq> [] \<and> rp_ID (last executed) = rp_ID report \<and>
         (xe_reports t = xe_reports s \<and> err = None \<or>
          (\<exists>new. xe_reports t = xe_reports s @ new @ [report] \<and> rp_ChildOperationReports report = map rp_ID new)))"
proof (cases "IsSerializable input")
  case True
  let ?idem = "fold (\<lambda>opt c. opt c) opts []"
  obtain c where c: "loadPreviousSuccessfulReport lib sequence input ?idem s =
    (last_success lib sequence input ?idem (xe_reports s), s\<lparr>xe_cache := c\<rparr>)" "cache_good lib c"
    using loadPrevious_law [OF assms(4)] by blast
  have wf: "store_wf lib (s\<lparr>xe_cache := c\<rparr>)" using assms(3) by (simp add: store_wf_def)
  show ?thesis
  proof (cases "last_success lib sequence input ?idem (xe_reports s)")
    case (Some prev)
    have "rp_ID prev \<in> rp_ID ` set (xe_reports (s\<lparr>xe_cache := c\<rparr>))"
      using last_success_stored [OF Some] by simp
    from stored_report_found [OF wf this] obtain rs where
      "GetExecutionReports (length (xe_reports s)) (rp_ID prev) (xe_reports s) = Some (Inr rs)"
      "rs \<noteq> []" "rp_ID (last rs) = rp_ID prev" by auto
    then show ?thesis using True c Some by (simp add: ExecuteSequence_def Let_def)
  next
    case None
    obtain out err t where run: "opn_handler sequence deps input (NewRecentMemoryReporter (s\<lparr>xe_cache := c\<rparr>)) = ((out, err), t)"
      by (metis prod.collapse)
    obtain new where new: "GetRecentReports t = new" "xe_reports t = xe_reports (s\<lparr>xe_cache := c\<rparr>) @ new"
      "extends lib (s\<lparr>xe_cache := c\<rparr>) (t\<lparr>xe_recent := tl (xe_recent t)\<rparr>)"
      using sequence_handler [OF assms(1) run] .
    define r where "r = (NewReport (ol_uuid lib (xe_next t)) (xe_next t) (opn_def sequence) input out err (map rp_ID new))
      \<lparr>rp_IdempotencyKey := ?idem\<rparr>"
    define u where "u = RecentReporter_AddReport r ((t\<lparr>xe_recent := tl (xe_recent t)\<rparr>)\<lparr>xe_next := Suc (xe_next t)\<rparr>)"
    have "extends lib (s\<lparr>xe_cache := c\<rparr>) u"
      using sequence_report_extends [OF assms(2) new(3), where ids = "map rp_ID new" and def = "opn_def sequence" and input = input
          and res = out and err = err and idem = ?idem] new(2)
      by (auto simp: u_def r_def)
    then have "store_wf lib u" using wf by (simp add: extends_def)
    moreover have u: "xe_reports u = xe_reports s @ new @ [r]"
      using new(2) by (simp add: u_def RecentReporter_AddReport_def MemoryReporter_AddReport_def)
    ultimately obtain rs where rs: "GetExecutionReports (length (xe_reports u)) (rp_ID r) (xe_reports u) = Some (Inr rs)"
      "rs \<noteq> []" "rp_ID (last rs) = rp_ID r"
      using stored_report_found [of lib u "rp_ID r"] by auto
    have kids: "rp_ChildOperationReports r = map rp_ID new" by (simp add: r_def NewReport_def)
    show ?thesis
    proof (cases "(case err of Some (ErrNotSerializable _) \<Rightarrow> True | _ \<Rightarrow> False) \<or> err = None \<and> \<not> IsSerializable out")
      case True
      then show ?thesis
        using \<open>IsSerializable input\<close> c None run
        by (auto simp: ExecuteSequence_def Let_def split: option.splits op_error.splits)
    next
      case False
      then have "ExecuteSequence lib sequence deps input opts s =
          Some ((Some (r, rs), map_option ErrMessage (rp_Err r)), u)"
        using \<open>IsSerializable input\<close> c None run new(1) rs(1)
        by (auto simp: ExecuteSequence_def Let_def make_report_def r_def u_def)
      then show ?thesis using rs u kids by auto
    qed
  qed
next
  case False
  then show ?thesis by (auto simp: ExecuteSequence_def)
qed

theorem ExecuteSequence_complete_witness:
  "\<exists>res err t. ExecuteSequence example_lib example_op None VNil [] example_state = Some ((res, err), t)"
proof -
  have "store_wf example_lib example_state"
    by (simp add: store_wf_def example_state_def backward_refs_def)
  moreover have "cache_good example_lib (xe_cache example_state)" by (simp add: example_state_def)
  ultimately show ?thesis
    using ExecuteSequence_complete [OF example_lib_ok(3,2), of example_state None VNil "[]"] by blast
qed

end
