(* ===== verification/Op_Series.thy ===== *)
theory Op_Series
  imports Op_Execute
begin

text \<open>
  The operations API, part three: what a series of executions (\<open>ExecuteOperationN\<close> of
  \<open>operations/execute.go\<close>) leaves in the reports and returns, and what the reports of nested
  sequences list.
\<close>

section \<open>Series of executions\<close>

definition in_series ::
  "('v, 'w) op_lib \<Rightarrow> ('v, 'd, 'w) operation \<Rightarrow> string option \<Rightarrow> string \<Rightarrow> 'v report \<Rightarrow> bool" where
  "in_series lib op h seriesID r \<longleftrightarrow>
     (case rp_ExecutionSeries r of None \<Rightarrow> False | Some xs \<Rightarrow> xs_ID xs = seriesID) \<and>
     h \<noteq> None \<and> lib_hash lib (rp_Def r) (rp_Input r) [] = h \<and> rp_Err r = None \<and>
     typeReport (opn_decode_in op) (opn_decode_out op) r \<noteq> None"

text \<open>The successful runs of the series a store holds, in the order they were stored.\<close>

definition series_runs ::
  "('v, 'w) op_lib \<Rightarrow> ('v, 'd, 'w) operation \<Rightarrow> goval \<Rightarrow> string \<Rightarrow> 'v report list \<Rightarrow> 'v report list" where
  "series_runs lib op input seriesID rs =
     map (\<lambda>r. the (typeReport (opn_decode_in op) (opn_decode_out op) r))
       (filter (in_series lib op (lib_hash lib (opn_def op) input []) seriesID) rs)"

definition order_of :: "'v report \<Rightarrow> nat" where
  "order_of r = (case rp_ExecutionSeries r of None \<Rightarrow> 0 | Some xs \<Rightarrow> unat (xs_Order xs))"

definition numbered :: "'v report list \<Rightarrow> bool" where
  "numbered rs \<longleftrightarrow> map order_of rs = [0..<length rs]"

lemma scan_series_law:
  assumes "cache_good lib cache"
  shows "\<exists>cache'. cache_good lib cache' \<and> scan_series lib op h seriesID rs cache =
    (map (\<lambda>r. the (typeReport (opn_decode_in op) (opn_decode_out op) r))
       (filter (in_series lib op (Some h) seriesID) rs), cache')"
  using assms
proof (induction rs arbitrary: cache)
  case (Cons r rs)
  show ?case
  proof (cases "case rp_ExecutionSeries r of None \<Rightarrow> True | Some xs \<Rightarrow> xs_ID xs \<noteq> seriesID")
    case True
    then have "\<not> in_series lib op (Some h) seriesID r" by (auto simp: in_series_def split: option.splits)
    then show ?thesis using True Cons by simp
  next
    case False
    obtain c where c: "hash_of lib (rp_Def r) (rp_Input r) [] cache = (lib_hash lib (rp_Def r) (rp_Input r) [], c)"
      "cache_good lib c" using hash_of_law [OF Cons.prems] .
    obtain c' where c': "cache_good lib c'" "scan_series lib op h seriesID rs c =
      (map (\<lambda>r. the (typeReport (opn_decode_in op) (opn_decode_out op) r))
         (filter (in_series lib op (Some h) seriesID) rs), c')"
      using Cons.IH [OF c(2)] by blast
    obtain xs where xs: "rp_ExecutionSeries r = Some xs" "xs_ID xs = seriesID"
      using False by (auto split: option.splits)
    show ?thesis
    proof (cases "in_series lib op (Some h) seriesID r")
      case True
      then have "lib_hash lib (rp_Def r) (rp_Input r) [] = Some h" "rp_Err r = None"
        "\<exists>t. typeReport (opn_decode_in op) (opn_decode_out op) r = Some t"
        by (auto simp: in_series_def)
      then show ?thesis using True xs c c' by auto
    next
      case out: False
      have "scan_series lib op h seriesID (r # rs) cache = scan_series lib op h seriesID rs c"
      proof (cases "lib_hash lib (rp_Def r) (rp_Input r) [] = Some h \<and> rp_Err r = None")
        case True
        then have "typeReport (opn_decode_in op) (opn_decode_out op) r = None"
          using out xs by (auto simp: in_series_def)
        then show ?thesis using True xs c by simp
      next
        case False
        then show ?thesis using xs c by (cases "lib_hash lib (rp_Def r) (rp_Input r) []") auto
      qed
      then show ?thesis using out c' by auto
    qed
  qed
qed auto

lemma place_numbered:
  "\<lbrakk>map order_of rs = [length done..<length done + length rs]; length rest = length rs\<rbrakk> \<Longrightarrow>
   place_by_order rs (done @ rest) = Some (done @ rs)"
proof (induction rs arbitrary: "done" rest)
  case (Cons r rs)
  obtain x xs where rest: "rest = x # xs" using Cons.prems(2) by (cases rest) auto
  have r: "order_of r = length done" "map order_of rs = [length (done @ [r])..<length (done @ [r]) + length rs]"
    using Cons.prems(1) upt_conv_Cons [of "length done" "length done + length (r # rs)"] by auto
  have "place_by_order rs ((done @ [r]) @ xs) = Some ((done @ [r]) @ rs)"
    using Cons.IH [OF r(2), of xs] Cons.prems(2) rest by simp
  then show ?case using r(1) rest by (simp add: order_of_def)
qed simp

lemma load_series_law:
  assumes "cache_good lib (xe_cache s)" "IsSerializable input" "numbered (series_runs lib op input seriesID (xe_reports s))"
  shows "\<exists>c. cache_good lib c \<and> loadSuccessfulExecutionSeriesReports lib op input seriesID s =
    (Some (series_runs lib op input seriesID (xe_reports s), series_runs lib op input seriesID (xe_reports s) \<noteq> []),
     s\<lparr>xe_cache := c\<rparr>)"
proof -
  obtain h where h: "lib_hash lib (opn_def op) input [] = Some h" using lib_hash_defined [OF assms(2)] by blast
  obtain c where c: "hash_of lib (opn_def op) input [] (xe_cache s) = (Some h, c)" "cache_good lib c"
    using hash_of_law [OF assms(1), of "opn_def op" input "[]"] h by auto
  obtain d where d: "cache_good lib d" "scan_series lib op h seriesID (xe_reports s) c =
      (series_runs lib op input seriesID (xe_reports s), d)"
    using scan_series_law [OF c(2), of op h seriesID "xe_reports s"] h by (auto simp: series_runs_def)
  have "place_by_order (series_runs lib op input seriesID (xe_reports s))
      (replicate (length (series_runs lib op input seriesID (xe_reports s))) zero_report) =
      Some (series_runs lib op input seriesID (xe_reports s))"
    using place_numbered [of "series_runs lib op input seriesID (xe_reports s)" "[]"] assms(3)
    by (simp add: numbered_def)
  then show ?thesis
    using c d by (auto simp: loadSuccessfulExecutionSeriesReports_def MemoryReporter_GetReports_def Let_def)
qed

text \<open>Operations without inner executions, and whose values are read back as they are.\<close>

definition handler_leaf :: "('v, 'd, 'w) operation \<Rightarrow> bool" where
  "handler_leaf op \<longleftrightarrow> (\<forall>deps input s. \<exists>w. snd (opn_handler op deps input s) = s\<lparr>xe_world := w\<rparr>)"

definition reads_back :: "('v, 'd, 'w) operation \<Rightarrow> goval \<Rightarrow> bool" where
  "reads_back op input \<longleftrightarrow>
     (\<exists>j. marshal input = Some j \<and> opn_decode_in op j = Some input) \<and>
     (\<forall>deps s out t. opn_handler op deps input s = ((out, None), t) \<longrightarrow> IsSerializable out \<longrightarrow>
        (\<exists>j. marshal out = Some j \<and> opn_decode_out op j = Some out))"

text \<open>The world counts the calls of the handler.\<close>

definition counts_calls :: "('w \<Rightarrow> nat) \<Rightarrow> ('v, 'd, 'w) operation \<Rightarrow> bool" where
  "counts_calls calls op \<longleftrightarrow>
     (\<forall>deps input s. calls (xe_world (snd (opn_handler op deps input s))) = Suc (calls (xe_world s)))"

lemma run_times_law:
  assumes "counts_calls calls op" "handler_leaf op" "reads_back op input" "IsSerializable input" "\<not> rc_Enabled cfg"
    and "numbered results" "results = series_runs lib op input seriesID (xe_reports s)"
    and "length results + n < 2 ^ 64" "order = of_nat (length results)"
  shows "\<exists>res err t runs k. run_times lib op deps input cfg seriesID n order results s = ((res, err), t) \<and>
    xe_cache t = xe_cache s \<and>
    xe_reports t = xe_reports s @ runs \<and> calls (xe_world t) = calls (xe_world s) + k \<and>
    k \<le> n \<and> length runs \<le> k \<and> (if err = None then k = n \<and> length runs = n else 0 < k) \<and>
    numbered (series_runs lib op input seriesID (xe_reports t)) \<and>
    take (length results) (series_runs lib op input seriesID (xe_reports t)) = results \<and>
    length (series_runs lib op input seriesID (xe_reports t)) \<le> length results + n \<and>
    (err = None \<longrightarrow> res = series_runs lib op input seriesID (xe_reports t) \<and> length res = length results + n)"
  using assms(6-)
proof (induction n arbitrary: order results s)
  case 0
  then show ?case by simp
next
  case (Suc n)
  obtain out err w where run: "opn_handler op deps input s = ((out, err), s\<lparr>xe_world := w\<rparr>)"
    using assms(2) unfolding handler_leaf_def by (metis prod.collapse)
  have w: "calls w = Suc (calls (xe_world s))"
    using assms(1) [unfolded counts_calls_def, rule_format, of deps input s] run by simp
  define r where "r = (NewReport (ol_uuid lib (xe_next s)) (xe_next s) (opn_def op) input out err [])
      \<lparr>rp_ExecutionSeries := Some \<lparr>xs_ID = seriesID, xs_Order = order\<rparr>\<rparr>"
  define u where "u = RecentReporter_AddReport r (s\<lparr>xe_world := w, xe_next := Suc (xe_next s)\<rparr>)"
  have u: "xe_reports u = xe_reports s @ [r]" "xe_cache u = xe_cache s" "calls (xe_world u) = Suc (calls (xe_world s))"
    by (simp_all add: u_def w RecentReporter_AddReport_def MemoryReporter_AddReport_def)
  show ?case
  proof (cases err)
    case (Some e)
    then have "\<not> in_series lib op h seriesID r" for h by (simp add: r_def NewReport_def in_series_def)
    then have "series_runs lib op input seriesID (xe_reports u) = results"
      using Suc.prems(2) by (simp add: series_runs_def u)
    moreover have "run_times lib op deps input cfg seriesID (Suc n) order results s =
        (([], Some (ErrMessage (error_message e))), u)"
      using Some assms(5) run
      by (simp add: run_handler_def Operation_execute_def make_report_def Let_def r_def u_def NewReport_def)
    ultimately show ?thesis using Suc.prems(1) u by simp
  next
    case None
    show ?thesis
    proof (cases "IsSerializable out")
      case False
      then show ?thesis
        using None assms(5) run Suc.prems w by (simp add: run_handler_def Operation_execute_def)
    next
      case True
      obtain h where h: "lib_hash lib (opn_def op) input [] = Some h" using lib_hash_defined [OF assms(4)] by blast
      have typed: "typeReport (opn_decode_in op) (opn_decode_out op) r = Some r"
      proof -
        obtain i where "marshal input = Some i" "opn_decode_in op i = Some input"
          using assms(3) unfolding reads_back_def by blast
        moreover obtain j where "marshal out = Some j" "opn_decode_out op j = Some out"
          using assms(3) True run None unfolding reads_back_def by blast
        ultimately show ?thesis by (simp add: typeReport_def r_def NewReport_def)
      qed
      then have "in_series lib op (Some h) seriesID r"
        using h None by (simp add: in_series_def r_def NewReport_def)
      then have series: "results @ [r] = series_runs lib op input seriesID (xe_reports u)"
        using Suc.prems(2) h typed by (simp add: series_runs_def u)
      have "unat order = length results"
        using Suc.prems(3,4) by (simp add: unat_of_nat take_bit_eq_mod)
      then have "order_of r = length results" by (simp add: order_of_def r_def)
      then have num: "numbered (results @ [r])" using Suc.prems(1) by (simp add: numbered_def)
      have "run_times lib op deps input cfg seriesID (Suc n) order results s =
          run_times lib op deps input cfg seriesID n (order + 1) (results @ [r]) u"
        using None True assms(5) run
        by (simp add: run_handler_def Operation_execute_def make_report_def Let_def r_def u_def NewReport_def)
      moreover obtain res err t runs k where "run_times lib op deps input cfg seriesID n (order + 1) (results @ [r]) u = ((res, err), t)"
        "xe_cache t = xe_cache u"
        "xe_reports t = xe_reports u @ runs" "calls (xe_world t) = calls (xe_world u) + k"
        "k \<le> n" "length runs \<le> k" "if err = None then k = n \<and> length runs = n else 0 < k"
        "numbered (series_runs lib op input seriesID (xe_reports t))"
        "take (length (results @ [r])) (series_runs lib op input seriesID (xe_reports t)) = results @ [r]"
        "length (series_runs lib op input seriesID (xe_reports t)) \<le> length (results @ [r]) + n"
        "err = None \<longrightarrow> res = series_runs lib op input seriesID (xe_reports t) \<and> length res = length (results @ [r]) + n"
        using Suc.IH [OF num series, of "order + 1"] Suc.prems(3,4) by auto
      moreover from this(9) have "take (length results) (series_runs lib op input seriesID (xe_reports t)) = results"
        by (metis append_eq_conv_conj length_append_singleton lessI less_imp_le min.absorb1 take_take)
      ultimately show ?thesis
        by - (rule exI [of _ res], rule exI [of _ err], rule exI [of _ t], rule exI [of _ "r # runs"],
            rule exI [of _ "Suc k"], auto simp: u split: if_splits)
    qed
  qed
qed

lemma word_le_of_nat: "k < 2 ^ 64 \<Longrightarrow> (n :: u64) \<le> of_nat k \<longleftrightarrow> unat n \<le> k"
  by (simp add: word_le_nat_alt unat_of_nat take_bit_eq_mod)

lemma unat_minus_of_nat: "k \<le> unat (n :: u64) \<Longrightarrow> unat (n - of_nat k) = unat n - k"
proof -
  assume k: "k \<le> unat n"
  moreover have "unat n < 2 ^ 64" using unsigned_less [where 'a = nat and w = n] by simp
  ultimately have "k < 2 ^ 64" by simp
  then have "unat (of_nat k :: u64) = k" by (simp add: unat_of_nat take_bit_eq_mod)
  moreover from this have "(of_nat k :: u64) \<le> n" using k by (simp add: word_le_nat_alt)
  ultimately show ?thesis by (simp add: unat_sub)
qed

lemma ExecuteOperationN_step:
  assumes "cache_good lib (xe_cache s)" "counts_calls calls op" "handler_leaf op" "reads_back op input" "IsSerializable input"
    and "\<not> rc_Enabled (fold (\<lambda>opt c. opt c) opts newDisabledRetryConfig)"
    and "numbered (series_runs lib op input seriesID (xe_reports s))"
    and "length (series_runs lib op input seriesID (xe_reports s)) + unat n < 2 ^ 64"
    and missing: "missing = unat n - length (series_runs lib op input seriesID (xe_reports s))"
  shows "\<exists>results err t runs k. ExecuteOperationN lib op deps input seriesID n opts s = ((results, err), t) \<and>
    numbered (series_runs lib op input seriesID (xe_reports t)) \<and> cache_good lib (xe_cache t) \<and>
    length (series_runs lib op input seriesID (xe_reports t)) < 2 ^ 64 \<and>
    xe_reports t = xe_reports s @ runs \<and> calls (xe_world t) = calls (xe_world s) + k \<and>
    k \<le> missing \<and> length runs \<le> k \<and> (if err = None then k = missing \<and> length runs = missing else 0 < k) \<and>
    take (length (series_runs lib op input seriesID (xe_reports s))) (series_runs lib op input seriesID (xe_reports t)) =
      series_runs lib op input seriesID (xe_reports s) \<and>
    (err = None \<longrightarrow>
       length (series_runs lib op input seriesID (xe_reports t)) =
         length (series_runs lib op input seriesID (xe_reports s)) + missing \<and>
       results = take (unat n) (series_runs lib op input seriesID (xe_reports t)) \<and> length results = unat n)"
proof -
  let ?series = "\<lambda>s. series_runs lib op input seriesID (xe_reports s)"
  obtain c where c: "cache_good lib c" "loadSuccessfulExecutionSeriesReports lib op input seriesID s =
    (Some (?series s, ?series s \<noteq> []), s\<lparr>xe_cache := c\<rparr>)"
    using load_series_law [OF assms(1,5,7)] by blast
  have len: "(n \<le> of_nat (length (?series s))) = (unat n \<le> length (?series s))"
    using assms(8) by (intro word_le_of_nat) simp
  show ?thesis
  proof (cases "?series s \<noteq> [] \<and> unat n \<le> length (?series s)")
    case True
    then show ?thesis using c len assms(5,7,8) missing by (simp add: ExecuteOperationN_def Let_def)
  next
    case False
    then have le: "length (?series s) \<le> unat n" by auto
    have unfold: "ExecuteOperationN lib op deps input seriesID n opts s =
        run_times lib op deps input (fold (\<lambda>opt c. opt c) opts newDisabledRetryConfig) seriesID
          missing (of_nat (length (?series s))) (?series s) (s\<lparr>xe_cache := c\<rparr>)"
      using False c len assms(5) by (auto simp: missing ExecuteOperationN_def Let_def unat_minus_of_nat [OF le])
    have num: "numbered (?series (s\<lparr>xe_cache := c\<rparr>))" using assms(7) by simp
    have bound: "length (?series (s\<lparr>xe_cache := c\<rparr>)) + missing < 2 ^ 64"
      using assms(8) missing by simp
    obtain res err t runs k where run: "run_times lib op deps input (fold (\<lambda>opt c. opt c) opts newDisabledRetryConfig) seriesID
        missing (of_nat (length (?series s))) (?series s) (s\<lparr>xe_cache := c\<rparr>) = ((res, err), t)"
      "xe_cache t = c" "xe_reports t = xe_reports s @ runs" "calls (xe_world t) = calls (xe_world s) + k"
      "k \<le> missing" "length runs \<le> k" "if err = None then k = missing \<and> length runs = missing else 0 < k"
      "numbered (?series t)" "take (length (?series s)) (?series t) = ?series s"
      "length (?series t) \<le> length (?series s) + missing"
      "err = None \<longrightarrow> res = ?series t \<and> length res = length (?series s) + missing"
      using run_times_law [OF assms(2-6) num refl bound refl, where deps = deps] by auto
    have "err = None \<longrightarrow> res = take (unat n) (?series t) \<and> length res = unat n \<and>
        length (?series t) = length (?series s) + missing"
      using run(11) le missing by auto
    moreover have "length (?series t) < 2 ^ 64" using run(10) bound by simp
    moreover have "cache_good lib (xe_cache t)" using c(1) run(2) by simp
    ultimately show ?thesis
      using unfold run(1-9)
      by - (rule exI [of _ res], rule exI [of _ err], rule exI [of _ t], rule exI [of _ runs], rule exI [of _ k],
          cases err, auto)
  qed
qed

lemma ExecuteOperationN_again:
  assumes "cache_good lib (xe_cache t)" "IsSerializable input"
    and "numbered (series_runs lib op input seriesID (xe_reports t))"
    and "unat n \<le> length (series_runs lib op input seriesID (xe_reports t))"
    and "length (series_runs lib op input seriesID (xe_reports t)) < 2 ^ 64"
  shows "\<exists>c. ExecuteOperationN lib op deps input seriesID n opts t =
    ((take (unat n) (series_runs lib op input seriesID (xe_reports t)), None), t\<lparr>xe_cache := c\<rparr>)"
proof -
  let ?series = "series_runs lib op input seriesID (xe_reports t)"
  obtain c where c: "loadSuccessfulExecutionSeriesReports lib op input seriesID t =
    (Some (?series, ?series \<noteq> []), t\<lparr>xe_cache := c\<rparr>)"
    using load_series_law [OF assms(1,2,3)] by blast
  have len: "(n \<le> of_nat (length ?series)) = (unat n \<le> length ?series)"
    using assms(5) by (rule word_le_of_nat)
  show ?thesis
  proof (cases "?series = []")
    case True
    then have "n = 0" using assms(4) by (simp add: unat_eq_0)
    then show ?thesis using True c assms(2) by (auto simp: ExecuteOperationN_def Let_def)
  next
    case False
    then show ?thesis using c len assms(2,4) by (auto simp: ExecuteOperationN_def Let_def)
  qed
qed

text \<open>
  C20: the functional contract of \<open>ExecuteOperationN\<close>, for an operation without inner executions whose values are
  read back from the store as they are, and without retries, with a world that counts the calls of the handler. The
  runs of a series stay numbered from 0 without gaps, and those it has are kept: no report is removed and the earlier
  runs stay first. A call without error calls the handler exactly as often as runs are missing, each call adds one
  report and one run, and the first n runs of the series are returned in order. A call with an error has called the
  handler at most that often, the failed call included, and stored at most one report for each. After a success,
  calling it again returns the same reports, stores nothing and touches nothing outside.
\<close>

theorem ExecuteOperationN_series:
  assumes "cache_good lib (xe_cache s)" "counts_calls calls op" "handler_leaf op" "reads_back op input" "IsSerializable input"
    and "\<not> rc_Enabled (fold (\<lambda>opt c. opt c) opts newDisabledRetryConfig)"
    and "numbered (series_runs lib op input seriesID (xe_reports s))"
    and "length (series_runs lib op input seriesID (xe_reports s)) + unat n < 2 ^ 64"
    and "missing = unat n - length (series_runs lib op input seriesID (xe_reports s))"
  shows "\<exists>results err t runs k. ExecuteOperationN lib op deps input seriesID n opts s = ((results, err), t) \<and>
    numbered (series_runs lib op input seriesID (xe_reports t)) \<and>
    xe_reports t = xe_reports s @ runs \<and> calls (xe_world t) = calls (xe_world s) + k \<and>
    take (length (series_runs lib op input seriesID (xe_reports s))) (series_runs lib op input seriesID (xe_reports t)) =
      series_runs lib op input seriesID (xe_reports s) \<and>
    (case err of
       Some e \<Rightarrow> 0 < k \<and> k \<le> missing \<and> length runs \<le> k
     | None \<Rightarrow> k = missing \<and> length runs = missing \<and>
         length (series_runs lib op input seriesID (xe_reports t)) =
           length (series_runs lib op input seriesID (xe_reports s)) + missing \<and>
         results = take (unat n) (series_runs lib op input seriesID (xe_reports t)) \<and> length results = unat n \<and>
         (\<exists>c. ExecuteOperationN lib op deps input seriesID n opts t = ((results, None), t\<lparr>xe_cache := c\<rparr>)))"
proof -
  obtain results err t runs k where first: "ExecuteOperationN lib op deps input seriesID n opts s = ((results, err), t)"
    "numbered (series_runs lib op input seriesID (xe_reports t))" "cache_good lib (xe_cache t)"
    "length (series_runs lib op input seriesID (xe_reports t)) < 2 ^ 64"
    and runs: "xe_reports t = xe_reports s @ runs" "calls (xe_world t) = calls (xe_world s) + k"
      "k \<le> missing" "length runs \<le> k" "if err = None then k = missing \<and> length runs = missing else 0 < k"
      "take (length (series_runs lib op input seriesID (xe_reports s))) (series_runs lib op input seriesID (xe_reports t)) =
        series_runs lib op input seriesID (xe_reports s)"
    and success: "err = None \<longrightarrow>
       length (series_runs lib op input seriesID (xe_reports t)) =
         length (series_runs lib op input seriesID (xe_reports s)) + missing \<and>
       results = take (unat n) (series_runs lib op input seriesID (xe_reports t)) \<and> length results = unat n"
    using ExecuteOperationN_step [OF assms, of deps] by (elim exE conjE)
  show ?thesis
  proof (cases err)
    case None
    then have "unat n \<le> length (series_runs lib op input seriesID (xe_reports t))" using success by auto
    from ExecuteOperationN_again [OF first(3) assms(5) first(2) this first(4)] obtain c where
      "ExecuteOperationN lib op deps input seriesID n opts t = ((results, None), t\<lparr>xe_cache := c\<rparr>)"
      using success None by auto
    moreover have "k = missing" "length runs = missing" using runs(5) None by simp_all
    ultimately show ?thesis
      using first(1) [unfolded None] first(2) runs(1,2,6) success [rule_format, OF None]
      by - (rule exI [of _ results], rule exI [of _ None], rule exI [of _ t], rule exI [of _ runs], rule exI [of _ k],
          unfold option.case, elim conjE, intro conjI exI; assumption)
  next
    case (Some e)
    then have "0 < k" using runs(5) by simp
    then show ?thesis
      using first(1) [unfolded Some] first(2) runs(1,2,3,4,6)
      by - (rule exI [of _ results], rule exI [of _ "Some e"], rule exI [of _ t], rule exI [of _ runs], rule exI [of _ k],
          unfold option.case, intro conjI; assumption)
  qed
qed

theorem ExecuteOperationN_series_witness:
  "\<exists>results err t. ExecuteOperationN example_lib example_op None VNil ''s'' 2 [] example_state = ((results, err), t) \<and>
    numbered (series_runs example_lib example_op VNil ''s'' (xe_reports t)) \<and>
    (err = None \<longrightarrow> xe_world t = 2 \<and> length results = 2)"
proof -
  have ok: "cache_good example_lib (xe_cache example_state)" "counts_calls (\<lambda>w. w) example_op" "handler_leaf example_op"
    "reads_back example_op VNil" "IsSerializable VNil"
    "\<not> rc_Enabled (fold (\<lambda>opt c. opt c) [] (newDisabledRetryConfig :: unit retry_config))"
    by (auto simp: counts_calls_def example_op_def handler_leaf_def reads_back_def IsSerializable_def
        newDisabledRetryConfig_def example_state_def)
  have none: "series_runs example_lib example_op VNil ''s'' (xe_reports example_state) = []" "xe_world example_state = 0"
    by (simp_all add: series_runs_def example_state_def)
  have "numbered (series_runs example_lib example_op VNil ''s'' (xe_reports example_state))"
    "length (series_runs example_lib example_op VNil ''s'' (xe_reports example_state)) + unat (2 :: u64) < 2 ^ 64"
    "2 = unat (2 :: u64) - length (series_runs example_lib example_op VNil ''s'' (xe_reports example_state))"
    unfolding none by (simp_all add: numbered_def)
  from ExecuteOperationN_series [OF ok this, of None] obtain results err t runs k where
    run: "ExecuteOperationN example_lib example_op None VNil ''s'' 2 [] example_state = ((results, err), t)"
      "numbered (series_runs example_lib example_op VNil ''s'' (xe_reports t))" "xe_world t = 0 + k"
      "xe_reports t = xe_reports example_state @ runs"
    and fin: "case err of Some e \<Rightarrow> 0 < k \<and> k \<le> 2 \<and> length runs \<le> k
     | None \<Rightarrow> k = 2 \<and> length runs = 2 \<and>
         length (series_runs example_lib example_op VNil ''s'' (xe_reports t)) = length ([] :: nat report list) + 2 \<and>
         results = take (unat (2 :: u64)) (series_runs example_lib example_op VNil ''s'' (xe_reports t)) \<and>
         length results = unat (2 :: u64) \<and>
         (\<exists>c. ExecuteOperationN example_lib example_op None VNil ''s'' 2 [] t = ((results, None), t\<lparr>xe_cache := c\<rparr>))"
    unfolding none by (elim exE conjE) (rule that; assumption)
  have "length results = unat (2 :: u64) \<and> k = 2" if "err = None"
    using fin unfolding that option.case by (elim conjE) (intro conjI)
  then have "err = None \<longrightarrow> xe_world t = 2 \<and> length results = 2" using run(3) by simp
  with run(1,2) show ?thesis by blast
qed

section \<open>Nested sequences\<close>

definition inner_sequence :: "(nat, unit, nat) operation" where
  "inner_sequence =
     example_op\<lparr>opn_def := \<lparr>od_ID = ''inner'', od_Version = Some 1, od_Description = ''d''\<rparr>,
       opn_handler := (\<lambda>deps input s.
         case ExecuteOperation example_lib example_op None input [WithForceExecute] s of
           ((_, err), s) \<Rightarrow> ((VBool True, err), s))\<rparr>"

definition outer_sequence :: "(nat, unit, nat) operation" where
  "outer_sequence =
     example_op\<lparr>opn_def := \<lparr>od_ID = ''outer'', od_Version = Some 1, od_Description = ''d''\<rparr>,
       opn_handler := (\<lambda>deps input s.
         case ExecuteSequence example_lib inner_sequence None input [] s of
           Some ((_, err), s) \<Rightarrow> ((VBool True, err), s)
         | None \<Rightarrow> ((VNil, Some (ErrReportNotFound [])), s))\<rparr>"

lemma loadPrevious_none:
  assumes "xe_reports s = []"
  shows "\<exists>c. loadPreviousSuccessfulReport lib op input idem s = (None, s\<lparr>xe_cache := c\<rparr>)"
  using assms
  by (auto simp: loadPreviousSuccessfulReport_def MemoryReporter_GetReports_def Let_def split: prod.split option.split)

text \<open>The three reports of the nested run, and the state after it.\<close>

definition run_report :: "'v op_definition \<Rightarrow> nat \<Rightarrow> string list \<Rightarrow> 'v report" where
  "run_report def n children = NewReport (dec_string n) n def VNil (VBool True) None children"

lemma run_report_fields [simp]:
  "rp_ID (run_report def n children) = dec_string n" "rp_Def (run_report def n children) = def"
  "rp_ChildOperationReports (run_report def n children) = children" "rp_Err (run_report def n children) = None"
  "(run_report def n children)\<lparr>rp_IdempotencyKey := []\<rparr> = run_report def n children"
  by (simp_all add: run_report_def NewReport_def)

lemma inner_handler:
  "opn_handler inner_sequence None VNil s =
     ((VBool True, None),
      RecentReporter_AddReport (run_report (opn_def example_op) (xe_next s) [])
        (s\<lparr>xe_world := Suc (xe_world s), xe_next := Suc (xe_next s)\<rparr>))"
  by (simp add: inner_sequence_def ExecuteOperation_def IsSerializable_def Let_def execute_config_of_def
      WithForceExecute_def execute_and_report_def run_handler_def newDisabledRetryConfig_def
      Operation_execute_def make_report_def run_report_def example_op_def example_lib_def NewReport_def)

lemma inner_run:
  assumes "loadPreviousSuccessfulReport example_lib inner_sequence VNil [] s = (None, s\<lparr>xe_cache := c\<rparr>)"
    and "xe_reports s = []" "xe_recent s = [[]]" "xe_next s = 0" "xe_world s = 0"
  shows "\<exists>res. ExecuteSequence example_lib inner_sequence None VNil [] s = Some ((res, None),
    \<lparr>xe_reports = [run_report (opn_def example_op) 0 [], run_report (opn_def inner_sequence) 1 [dec_string 0]],
     xe_recent = [[run_report (opn_def example_op) 0 [], run_report (opn_def inner_sequence) 1 [dec_string 0]]],
     xe_cache = c, xe_next = 2, xe_world = 1\<rparr>)"
  using assms
  by (simp add: ExecuteSequence_def IsSerializable_def inner_handler Let_def NewRecentMemoryReporter_def
      RecentReporter_AddReport_def MemoryReporter_AddReport_def make_report_def GetRecentReports_def
      example_lib_def run_report_def [symmetric] GetExecutionReports_def)

text \<open>
  A sequence run inside a sequence. The inner reporter wraps the outer one, so the operations of
  the inner sequence also become children of the outer one; collecting the reports of the outer
  sequence then lists every operation of the inner sequence twice.
\<close>

lemma nested_sequence_lists_operations_twice:
  "\<exists>report executed t. ExecuteSequence example_lib outer_sequence None VNil [] example_state =
     Some ((Some (report, executed), None), t) \<and>
     map (\<lambda>r. od_ID (rp_Def r)) (xe_reports t) = [''op'', ''inner'', ''outer''] \<and>
     map (\<lambda>r. od_ID (rp_Def r)) executed = [''op'', ''op'', ''inner'', ''outer'']"
proof -
  let ?s = "\<lambda>c. NewRecentMemoryReporter (example_state\<lparr>xe_cache := c\<rparr>)"
  obtain c where c: "loadPreviousSuccessfulReport example_lib outer_sequence VNil [] example_state =
      (None, example_state\<lparr>xe_cache := c\<rparr>)"
    using loadPrevious_none [of example_state example_lib outer_sequence VNil "[]"] by (auto simp: example_state_def)
  obtain d where d: "loadPreviousSuccessfulReport example_lib inner_sequence VNil [] (?s c) = (None, (?s c)\<lparr>xe_cache := d\<rparr>)"
    using loadPrevious_none [of "?s c" example_lib inner_sequence VNil "[]"]
    by (auto simp: example_state_def NewRecentMemoryReporter_def)
  obtain res where "opn_handler outer_sequence None VNil (?s c) = ((VBool True, None),
    \<lparr>xe_reports = [run_report (opn_def example_op) 0 [], run_report (opn_def inner_sequence) 1 [dec_string 0]],
     xe_recent = [[run_report (opn_def example_op) 0 [], run_report (opn_def inner_sequence) 1 [dec_string 0]]],
     xe_cache = d, xe_next = 2, xe_world = 1\<rparr>)"
    using inner_run [OF d] by (auto simp: outer_sequence_def NewRecentMemoryReporter_def example_state_def)
  then show ?thesis using c
    by (simp add: ExecuteSequence_def IsSerializable_def Let_def GetRecentReports_def make_report_def
        RecentReporter_AddReport_def MemoryReporter_AddReport_def example_lib_def run_report_def [symmetric]
        GetExecutionReports_def)
      (simp add: inj_eq [OF inj_dec_string] example_op_def inner_sequence_def outer_sequence_def)
qed

section \<open>The registry\<close>

lemma fold_register:
  "fold (\<lambda>op reg. reg(k op \<mapsto> f op)) ops reg key =
     (case find (\<lambda>op. k op = key) (rev ops) of None \<Rightarrow> reg key | Some op \<Rightarrow> Some (f op))"
proof (induction ops rule: rev_induct)
  case (snoc op ops)
  then show ?case by (cases "k op = key") auto
qed simp

lemma AsUntyped_typed:
  "\<lbrakk>input = VNil \<or> opn_has_type op input; opn_has_deps op d\<rbrakk> \<Longrightarrow>
   opn_handler (AsUntyped op) (Some d) input s =
     opn_handler op (Some d) (if input = VNil then opn_zero op else input) s"
  by (auto simp: AsUntyped_def)

lemma AsUntyped_mistyped:
  "input \<noteq> VNil \<and> \<not> opn_has_type op input \<or> \<not> opn_has_deps op d \<Longrightarrow>
   opn_handler (AsUntyped op) (Some d) input s = ((VNil, Some ErrTypeMismatch), s)"
  by (auto simp: AsUntyped_def)

text \<open>
  The registry. Retrieving a definition after registering operations gives the untyped form of
  the last registered operation whose id and version print the same, else what the registry held
  before. Called with an input (or nil) and dependencies of the right types it runs the registered
  operation on them; otherwise it fails with a type mismatch and changes nothing.
\<close>

lemma registry_runs_last_registered:
  shows "case find (\<lambda>op. generateRegistryKey sv (opn_def op) = generateRegistryKey sv def) (rev ops) of
      None \<Rightarrow> OperationRegistry_Retrieve sv def (RegisterOperation sv ops reg) = OperationRegistry_Retrieve sv def reg
    | Some op \<Rightarrow>
        (\<exists>u. OperationRegistry_Retrieve sv def (RegisterOperation sv ops reg) = Inr u \<and>
          opn_def u = opn_def op \<and>
          opn_handler u (Some d) input s =
            (if (input = VNil \<or> opn_has_type op input) \<and> opn_has_deps op d
             then opn_handler op (Some d) (if input = VNil then opn_zero op else input) s
             else ((VNil, Some ErrTypeMismatch), s)))"
proof (cases "find (\<lambda>op. generateRegistryKey sv (opn_def op) = generateRegistryKey sv def) (rev ops)")
  case None
  then show ?thesis by (simp add: RegisterOperation_def OperationRegistry_Retrieve_def fold_register)
next
  case (Some op)
  then have "OperationRegistry_Retrieve sv def (RegisterOperation sv ops reg) = Inr (AsUntyped op)"
    by (simp add: RegisterOperation_def OperationRegistry_Retrieve_def fold_register)
  moreover have "opn_def (AsUntyped op) = opn_def op" by (simp add: AsUntyped_def)
  ultimately show ?thesis using Some AsUntyped_typed [of input op d s] AsUntyped_mistyped [of input op d s] by auto
qed

end
