(* ===== verification/Address_Book.thy ===== *)
theory Address_Book
  imports Datastore_Base
begin

text \<open>
  The legacy address book (\<open>deployment/address\_book.go\<close>) and its label sets
  (\<open>deployment/address\_book\_labels.go\<close>). The book is a map of maps; \<open>book_at\<close> reads one
  entry. The chain-selectors and go-ethereum functions the book calls are the fields of
  \<open>chain_lib\<close>, versions those of \<open>semver\<close>. Maps are iterated in an order that is an
  argument, and the maps a book is made from are not nil. The read-write mutex makes each exported
  method one step.
\<close>

section \<open>Label sets\<close>

type_synonym book_labels = "string set"

definition BookLabels_New :: "string list \<Rightarrow> book_labels" where
  "BookLabels_New labels = fold insert labels {}"

definition BookLabels_Add :: "string \<Rightarrow> book_labels \<Rightarrow> book_labels" where
  "BookLabels_Add label ls = insert label ls"

definition BookLabels_Remove :: "string \<Rightarrow> book_labels \<Rightarrow> book_labels" where
  "BookLabels_Remove label ls = ls - {label}"

definition BookLabels_Contains :: "book_labels \<Rightarrow> string \<Rightarrow> bool" where
  "BookLabels_Contains ls label \<longleftrightarrow> label \<in> ls"

definition BookLabels_List :: "book_labels \<Rightarrow> string list" where
  "BookLabels_List ls = (if card ls = 0 then [] else sorted_list_of_set ls)"

definition BookLabels_String :: "book_labels \<Rightarrow> string" where
  "BookLabels_String ls =
     (let labels = BookLabels_List ls in if labels = [] then [] else join_with '' '' labels)"

definition BookLabels_Equal :: "book_labels \<Rightarrow> book_labels \<Rightarrow> bool" where
  "BookLabels_Equal ls other \<longleftrightarrow> (if card ls \<noteq> card other then False else ls \<subseteq> other)"

definition BookLabels_IsEmpty :: "book_labels \<Rightarrow> bool" where
  "BookLabels_IsEmpty ls \<longleftrightarrow> card ls = 0"

section \<open>Contract types and versions\<close>

datatype book_error =
    ErrInvalidChainSelector
  | ErrInvalidAddress
  | ErrChainNotFound
  | ErrTypeEmpty
  | ErrAddressExists
  | ErrNotContained
  | ErrNotFound
  | ErrInvalidTypeAndVersion
  | ErrInvalidVersion
  | ErrDuplicateContract

record 'v type_and_version =
  tv_Type :: string
  tv_Version :: 'v
  tv_Labels :: book_labels

definition TypeAndVersion_String :: "'v semver \<Rightarrow> 'v type_and_version \<Rightarrow> string" where
  "TypeAndVersion_String sv tv =
     (if card (tv_Labels tv) = 0 then tv_Type tv @ '' '' @ sv_String sv (tv_Version tv)
      else tv_Type tv @ '' '' @ sv_String sv (tv_Version tv) @ '' '' @ BookLabels_String (tv_Labels tv))"

definition TypeAndVersion_Equal :: "'v semver \<Rightarrow> 'v type_and_version \<Rightarrow> 'v type_and_version \<Rightarrow> bool" where
  "TypeAndVersion_Equal sv tv other \<longleftrightarrow>
     (if tv_Type tv \<noteq> tv_Type other then False
      else if \<not> sv_Equal sv (Some (tv_Version tv)) (Some (tv_Version other)) then False
      else BookLabels_Equal (tv_Labels tv) (tv_Labels other))"

text \<open>\<open>strings.Fields\<close>, for text in ASCII; the first argument is the field being read.\<close>

fun fields_from :: "string \<Rightarrow> string \<Rightarrow> string list" where
  "fields_from cur [] = (if cur = [] then [] else [cur])"
| "fields_from cur (c # s) =
     (if is_space c then (if cur = [] then fields_from [] s else cur # fields_from [] s)
      else fields_from (cur @ [c]) s)"

definition string_fields :: "string \<Rightarrow> string list" where
  "string_fields s = fields_from [] s"

definition TypeAndVersionFromString :: "'v semver \<Rightarrow> string \<Rightarrow> book_error + 'v type_and_version" where
  "TypeAndVersionFromString sv s =
     (case string_fields s of
        t # v # labels \<Rightarrow>
          (case sv_NewVersion sv v of
             None \<Rightarrow> Inl ErrInvalidVersion
           | Some version \<Rightarrow>
               Inr \<lparr>tv_Type = t, tv_Version = version, tv_Labels = (if labels = [] then {} else BookLabels_New labels)\<rparr>)
      | _ \<Rightarrow> Inl ErrInvalidTypeAndVersion)"

text \<open>\<open>None\<close> is the panic.\<close>

definition MustTypeAndVersionFromString :: "'v semver \<Rightarrow> string \<Rightarrow> 'v type_and_version option" where
  "MustTypeAndVersionFromString sv s =
     (case TypeAndVersionFromString sv s of Inl _ \<Rightarrow> None | Inr tv \<Rightarrow> Some tv)"

definition NewTypeAndVersion :: "string \<Rightarrow> 'v \<Rightarrow> 'v type_and_version" where
  "NewTypeAndVersion t v = \<lparr>tv_Type = t, tv_Version = v, tv_Labels = {}\<rparr>"

definition AddLabel :: "string \<Rightarrow> 'v type_and_version \<Rightarrow> 'v type_and_version" where
  "AddLabel label tv = tv\<lparr>tv_Labels := BookLabels_Add label (tv_Labels tv)\<rparr>"

section \<open>The book\<close>

record chain_lib =
  cl_family :: "u64 \<Rightarrow> string option"
  cl_chain_id :: "u64 \<Rightarrow> string option"
  cl_evm :: string
  cl_is_hex :: "string \<Rightarrow> bool"
  cl_hex :: "string \<Rightarrow> string"

type_synonym 'v address_book = "u64 \<rightharpoonup> (string \<rightharpoonup> 'v type_and_version)"

definition NewMemoryAddressBook :: "'v address_book" where
  "NewMemoryAddressBook = Map.empty"

definition NewMemoryAddressBookFromMap :: "'v address_book \<Rightarrow> 'v address_book" where
  "NewMemoryAddressBookFromMap addressesByChain = addressesByChain"

text \<open>The checks of \<open>save\<close>: an error, or the address under which the entry is stored.\<close>

definition checked_address :: "chain_lib \<Rightarrow> u64 \<Rightarrow> string \<Rightarrow> 'v type_and_version \<Rightarrow> book_error + string" where
  "checked_address L chainSelector address tv =
     (case cl_family L chainSelector of
        None \<Rightarrow> Inl ErrInvalidChainSelector
      | Some family \<Rightarrow>
          (case (if family = cl_evm L
                 then if address = [] \<or> address = cl_hex L ''0x0'' then Inl ErrInvalidAddress
                      else if cl_is_hex L address then Inr (cl_hex L address)
                      else Inl ErrInvalidAddress
                 else Inr address) of
             Inl e \<Rightarrow> Inl e
           | Inr address \<Rightarrow> if tv_Type tv = [] then Inl ErrTypeEmpty else Inr address))"

definition book_save ::
  "chain_lib \<Rightarrow> u64 \<Rightarrow> string \<Rightarrow> 'v type_and_version \<Rightarrow> 'v address_book \<Rightarrow> (book_error, 'v address_book) eff" where
  "book_save L chainSelector address tv m =
     (case checked_address L chainSelector address tv of
        Inl e \<Rightarrow> fail e m
      | Inr address \<Rightarrow>
          (let m = (if m chainSelector = None then m(chainSelector \<mapsto> Map.empty) else m);
               addresses = the (m chainSelector) in
           if addresses address \<noteq> None then fail ErrAddressExists m
           else ret (m(chainSelector \<mapsto> addresses(address \<mapsto> tv)))))"

definition AddressBook_Save ::
  "chain_lib \<Rightarrow> u64 \<Rightarrow> string \<Rightarrow> 'v type_and_version \<Rightarrow> 'v address_book \<Rightarrow> (book_error, 'v address_book) eff" where
  "AddressBook_Save L chainSelector address tv m = book_save L chainSelector address tv m"

definition cloneAddresses :: "'v address_book \<Rightarrow> 'v address_book" where
  "cloneAddresses input = input"

definition AddressBook_Addresses :: "'v address_book \<Rightarrow> 'v address_book" where
  "AddressBook_Addresses m = cloneAddresses m"

definition AddressBook_AddressesForChain ::
  "chain_lib \<Rightarrow> 'v address_book \<Rightarrow> u64 \<Rightarrow> book_error + (string \<rightharpoonup> 'v type_and_version)" where
  "AddressBook_AddressesForChain L m chainSelector =
     (if cl_chain_id L chainSelector = None then Inl ErrInvalidChainSelector
      else case m chainSelector of None \<Rightarrow> Inl ErrChainNotFound | Some addresses \<Rightarrow> Inr addresses)"

text \<open>
  The nested loops over the addresses of the other book: \<open>order\<close> lists its chains, each with the
  order of its addresses.
\<close>

type_synonym book_order = "(u64 \<times> string list) list"

definition AddressBook_Merge ::
  "chain_lib \<Rightarrow> book_order \<Rightarrow> 'v address_book \<Rightarrow> 'v address_book \<Rightarrow> (book_error, 'v address_book) eff" where
  "AddressBook_Merge L order ab m =
     (let addresses = AddressBook_Addresses ab in
      for_each (\<lambda>(chainSelector, as).
        for_each (\<lambda>address. book_save L chainSelector address (the (the (addresses chainSelector) address))) as) order m)"

fun contains_all :: "'v address_book \<Rightarrow> book_order \<Rightarrow> bool" where
  "contains_all m [] = True"
| "contains_all m ((chainSelector, as) # order) =
     ((\<forall>address \<in> set as. case m chainSelector of None \<Rightarrow> False | Some addresses \<Rightarrow> addresses address \<noteq> None) \<and>
      contains_all m order)"

definition delete_address :: "u64 \<Rightarrow> string \<Rightarrow> 'v address_book \<Rightarrow> 'v address_book" where
  "delete_address chainSelector address m =
     (case m chainSelector of None \<Rightarrow> m | Some addresses \<Rightarrow> m(chainSelector \<mapsto> addresses(address := None)))"

definition AddressBook_Remove ::
  "book_order \<Rightarrow> book_order \<Rightarrow> 'v address_book \<Rightarrow> (book_error, 'v address_book) eff" where
  "AddressBook_Remove order order' m =
     (if \<not> contains_all m order then fail ErrNotContained m
      else ret (fold (\<lambda>(chainSelector, as). fold (delete_address chainSelector) as) order' m))"

section \<open>Functions on any address book\<close>

text \<open>The argument \<open>forChain\<close> is the method \<open>AddressesForChain\<close> of the interface.\<close>

definition SearchAddressBook ::
  "('b \<Rightarrow> u64 \<Rightarrow> 'e + (string \<rightharpoonup> 'v type_and_version)) \<Rightarrow> string list \<Rightarrow> 'b \<Rightarrow> u64 \<Rightarrow> string \<Rightarrow> ('e option) + string" where
  "SearchAddressBook forChain order ab chain typ =
     (case forChain ab chain of
        Inl e \<Rightarrow> Inl (Some e)
      | Inr addrs \<Rightarrow>
          (case find (\<lambda>addr. case addrs addr of None \<Rightarrow> False | Some tv \<Rightarrow> tv_Type tv = typ) order of
             Some addr \<Rightarrow> Inr addr
           | None \<Rightarrow> Inl None))"

definition AddressBookContains ::
  "('b \<Rightarrow> u64 \<Rightarrow> 'e + (string \<rightharpoonup> 'v type_and_version)) \<Rightarrow> string list \<Rightarrow> 'b \<Rightarrow> u64 \<Rightarrow> string \<Rightarrow> 'e + bool" where
  "AddressBookContains forChain order ab chain addrToFind =
     (case forChain ab chain of
        Inl e \<Rightarrow> Inl e
      | Inr addrs \<Rightarrow> Inr (list_ex (\<lambda>addr. addr = addrToFind) order))"

section \<open>Deduplication\<close>

record type_version_key =
  tvk_Type :: string
  tvk_Version :: string
  tvk_Labels :: string

definition tvKey :: "'v semver \<Rightarrow> 'v type_and_version \<Rightarrow> type_version_key" where
  "tvKey sv tv =
     \<lparr>tvk_Type = tv_Type tv, tvk_Version = sv_String sv (tv_Version tv),
      tvk_Labels = BookLabels_String (tv_Labels tv)\<rparr>"

definition toTypeAndVersionMap ::
  "'v semver \<Rightarrow> string list \<Rightarrow> (string \<rightharpoonup> 'v type_and_version) \<Rightarrow> (type_version_key \<rightharpoonup> string list)" where
  "toTypeAndVersionMap sv order addrs =
     fold (\<lambda>k tvkMap.
       let key = tvKey sv (the (addrs k)) in
       tvkMap(key \<mapsto> (case tvkMap key of None \<Rightarrow> [] | Some ks \<Rightarrow> ks) @ [k])) order Map.empty"

fun dedup_scan ::
  "'v semver \<Rightarrow> (type_version_key \<rightharpoonup> string list) \<Rightarrow> 'v type_and_version list \<Rightarrow> 'v type_and_version list \<Rightarrow>
   book_error + 'v type_and_version list" where
  "dedup_scan sv grouped [] found = Inr found"
| "dedup_scan sv grouped (btv # bundle) found =
     (case grouped (tvKey sv btv) of
        None \<Rightarrow> dedup_scan sv grouped bundle found
      | Some matched \<Rightarrow>
          if length matched > 1 then Inl ErrDuplicateContract
          else dedup_scan sv grouped bundle (found @ [btv]))"

definition EnsureDeduped ::
  "'v semver \<Rightarrow> string list \<Rightarrow> (string \<rightharpoonup> 'v type_and_version) \<Rightarrow> 'v type_and_version list \<Rightarrow> book_error + bool" where
  "EnsureDeduped sv order addrs bundle =
     (case dedup_scan sv (toTypeAndVersionMap sv order addrs) bundle [] of
        Inl e \<Rightarrow> Inl e
      | Inr found \<Rightarrow> Inr (length found = length bundle))"

section \<open>One entry of a book\<close>

definition book_at :: "'v address_book \<Rightarrow> u64 \<Rightarrow> string \<Rightarrow> 'v type_and_version option" where
  "book_at m c a = (case m c of None \<Rightarrow> None | Some addresses \<Rightarrow> addresses a)"

lemma book_at_upd:
  "book_at (m(c \<mapsto> addresses)) c' a = (if c' = c then addresses a else book_at m c' a)"
  by (simp add: book_at_def)

text \<open>Well-formed books: what \<open>save\<close> checks holds of every entry.\<close>

definition book_ok :: "chain_lib \<Rightarrow> 'v address_book \<Rightarrow> bool" where
  "book_ok L m \<longleftrightarrow> (\<forall>c. m c \<noteq> None \<longrightarrow> cl_family L c \<noteq> None) \<and>
     (\<forall>c a tv. book_at m c a = Some tv \<longrightarrow> checked_address L c a tv = Inr a)"

text \<open>
  The documented behaviour of the checksummed form: it is an address and its own checksummed form,
  the one of the zero address does not come from another address that is not zero itself.
\<close>

definition chain_lib_ok :: "chain_lib \<Rightarrow> bool" where
  "chain_lib_ok L \<longleftrightarrow> (\<forall>a. cl_is_hex L a \<longrightarrow> cl_is_hex L (cl_hex L a) \<and> cl_hex L (cl_hex L a) = cl_hex L a \<and> cl_hex L a \<noteq> [])"

lemma checked_address_canonical:
  assumes "chain_lib_ok L" "checked_address L c a tv = Inr b" "b \<noteq> cl_hex L ''0x0''"
  shows "checked_address L c b tv = Inr b"
  using assms by (auto simp: checked_address_def chain_lib_ok_def split: option.splits if_splits)

lemma book_save_law:
  "book_save L c a tv m =
     (case checked_address L c a tv of
        Inl e \<Rightarrow> (Some e, m)
      | Inr b \<Rightarrow>
          if book_at m c b \<noteq> None then (Some ErrAddressExists, m)
          else (None, m(c \<mapsto> (case m c of None \<Rightarrow> Map.empty | Some addresses \<Rightarrow> addresses)(b \<mapsto> tv))))"
  by (auto simp: book_save_def book_at_def fail_def ret_def Let_def split: sum.split option.split)

section \<open>Iterating over the entries of a book\<close>

definition pairs_of :: "book_order \<Rightarrow> (u64 \<times> string) list" where
  "pairs_of order = concat (map (\<lambda>(c, as). map (Pair c) as) order)"

definition orders_book :: "'v address_book \<Rightarrow> book_order \<Rightarrow> bool" where
  "orders_book m order \<longleftrightarrow> distinct (map fst order) \<and> set (map fst order) = dom m \<and>
     (\<forall>(c, as) \<in> set order. iteration_of (the (m c)) as)"

lemma pairs_of_simps [simp]: "pairs_of [] = []" "pairs_of ((c, as) # order) = map (Pair c) as @ pairs_of order"
  by (simp_all add: pairs_of_def)

lemma set_pairs_of: "(c, a) \<in> set (pairs_of order) \<longleftrightarrow> (\<exists>as. (c, as) \<in> set order \<and> a \<in> set as)"
  by (force simp: pairs_of_def)

lemma pairs_of_distinct:
  "\<lbrakk>distinct (map fst order); \<forall>(c, as) \<in> set order. distinct as\<rbrakk> \<Longrightarrow> distinct (pairs_of order)"
proof (induction order)
  case (Cons x order)
  obtain c as where x: "x = (c, as)" by (cases x)
  have "(c, a) \<notin> set (pairs_of order)" for a using Cons.prems(1) x by (force simp: set_pairs_of)
  then show ?case using Cons x by (auto simp: distinct_map inj_on_def)
qed simp

lemma orders_pairs:
  assumes "orders_book m order"
  shows "distinct (pairs_of order)" and "(c, a) \<in> set (pairs_of order) \<longleftrightarrow> book_at m c a \<noteq> None"
proof -
  show "distinct (pairs_of order)"
    using assms by (intro pairs_of_distinct) (auto simp: orders_book_def iteration_of_def)
  show "(c, a) \<in> set (pairs_of order) \<longleftrightarrow> book_at m c a \<noteq> None"
  proof
    assume "(c, a) \<in> set (pairs_of order)"
    then obtain as where as: "(c, as) \<in> set order" "a \<in> set as" by (auto simp: set_pairs_of)
    then have "c \<in> dom m" "iteration_of (the (m c)) as"
      using assms unfolding orders_book_def by force+
    then show "book_at m c a \<noteq> None" using as(2) by (auto simp: book_at_def iteration_of_def)
  next
    assume "book_at m c a \<noteq> None"
    then obtain addresses where addr: "m c = Some addresses" "a \<in> dom addresses"
      by (auto simp: book_at_def split: option.splits)
    then have "c \<in> set (map fst order)" using assms unfolding orders_book_def by blast
    then obtain as where as: "(c, as) \<in> set order" by auto
    then have "iteration_of addresses as" using assms addr(1) unfolding orders_book_def by force
    then show "(c, a) \<in> set (pairs_of order)" using as addr(2) by (auto simp: set_pairs_of iteration_of_def)
  qed
qed

lemma for_each_pairs:
  "for_each (\<lambda>(c, as). for_each (f c) as) order m = for_each (\<lambda>(c, a). f c a) (pairs_of order) m"
proof (induction order arbitrary: m)
  case (Cons x order)
  obtain c as where x: "x = (c, as)" by (cases x)
  have "for_each (\<lambda>(c, a). f c a) (map (Pair c) as) m = for_each (f c) as m" for m
    by (induction as arbitrary: m) (auto split: prod.splits option.splits)
  then show ?case using Cons x
    by (auto simp: for_each_append and_then_def split: prod.splits option.splits)
qed simp

lemma fold_pairs: "fold (\<lambda>(c, as). fold (f c) as) order m = fold (\<lambda>(c, a). f c a) (pairs_of order) m"
proof (induction order arbitrary: m)
  case (Cons x order)
  obtain c as where x: "x = (c, as)" by (cases x)
  have "fold (\<lambda>(c, a). f c a) (map (Pair c) as) m = fold (f c) as m" for m
    by (induction as arbitrary: m) auto
  then show ?case using Cons x by simp
qed simp

lemma ball_pairs: "(\<forall>(c, a) \<in> X. P c a) \<longleftrightarrow> (\<forall>c a. (c, a) \<in> X \<longrightarrow> P c a)"
  by auto

lemma contains_all_pairs: "contains_all m order \<longleftrightarrow> (\<forall>c a. (c, a) \<in> set (pairs_of order) \<longrightarrow> book_at m c a \<noteq> None)"
proof (induction m order rule: contains_all.induct)
  case (2 m c as order)
  have "(\<forall>a \<in> set as. case m c of None \<Rightarrow> False | Some addresses \<Rightarrow> addresses a \<noteq> None) \<longleftrightarrow>
    (\<forall>a \<in> set as. book_at m c a \<noteq> None)"
    by (cases "m c") (simp_all add: book_at_def)
  then show ?case using 2 by (auto simp del: not_None_eq)
qed simp

section \<open>Saving and merging\<close>

lemma save_all_law:
  assumes "distinct ks" "\<forall>(c, a) \<in> set ks. checked_address L c a (g c a) = Inr a"
    and "for_each (\<lambda>(c, a). book_save L c a (g c a)) ks m = (err, m')"
  shows "err = None \<longleftrightarrow> (\<forall>(c, a) \<in> set ks. book_at m c a = None)"
    and "err = None \<or> err = Some ErrAddressExists"
    and "err = None \<Longrightarrow> book_at m' c a = (if (c, a) \<in> set ks then Some (g c a) else book_at m c a)"
    and "err = None \<Longrightarrow> dom m' = dom m \<union> fst ` set ks"
proof -
  have "(err = None \<longleftrightarrow> (\<forall>(c, a) \<in> set ks. book_at m c a = None)) \<and> (err = None \<or> err = Some ErrAddressExists) \<and>
    (err = None \<longrightarrow> (\<forall>c a. book_at m' c a = (if (c, a) \<in> set ks then Some (g c a) else book_at m c a)) \<and>
      dom m' = dom m \<union> fst ` set ks)"
    using assms
  proof (induction ks arbitrary: m)
    case (Cons x ks)
    obtain c a where x: "x = (c, a)" by (cases x)
    have ok: "checked_address L c a (g c a) = Inr a" using Cons.prems(2) x by simp
    show ?case
    proof (cases "book_at m c a")
      case None
      define n where "n = m(c \<mapsto> (case m c of None \<Rightarrow> Map.empty | Some addresses \<Rightarrow> addresses)(a \<mapsto> g c a))"
      have n: "book_at n c' a' = (if (c', a') = (c, a) then Some (g c a) else book_at m c' a')" for c' a'
        by (auto simp: n_def book_at_def split: option.splits)
      have run: "for_each (\<lambda>(c, a). book_save L c a (g c a)) ks n = (err, m')"
      proof -
        have "book_save L c a (g c a) m = (None, n)" using ok None by (simp add: book_save_law n_def)
        then show ?thesis using Cons.prems(3) x by simp
      qed
      have other: "book_at n c' a' = book_at m c' a'" if "(c', a') \<in> set ks" for c' a'
        using that Cons.prems(1) x by (auto simp: n)
      have "dom n = insert c (dom m)" by (auto simp: n_def)
      then show ?thesis
        using Cons.IH [OF _ _ run] Cons.prems(1,2) x other None by (auto simp: n)
    next
      case (Some tv)
      then show ?thesis using Cons.prems(3) x ok by (auto simp: book_save_law)
    qed
  qed simp
  then show "err = None \<longleftrightarrow> (\<forall>(c, a) \<in> set ks. book_at m c a = None)"
    and "err = None \<or> err = Some ErrAddressExists"
    and "err = None \<Longrightarrow> book_at m' c a = (if (c, a) \<in> set ks then Some (g c a) else book_at m c a)"
    and "err = None \<Longrightarrow> dom m' = dom m \<union> fst ` set ks" by blast+
qed

lemma Merge_law:
  assumes "book_ok L ab" "orders_book ab order" "AddressBook_Merge L order ab m = (err, m')"
  shows "err = None \<longleftrightarrow> (\<forall>c a. book_at ab c a = None \<or> book_at m c a = None)"
    and "err = None \<or> err = Some ErrAddressExists"
    and "err = None \<Longrightarrow> book_at m' c a = (if book_at ab c a \<noteq> None then book_at ab c a else book_at m c a)"
    and "err = None \<Longrightarrow> dom m' = dom m \<union> {c. \<exists>a. book_at ab c a \<noteq> None}"
proof -
  let ?g = "\<lambda>c a. the (the (ab c) a)"
  have g: "book_at ab c a \<noteq> None \<Longrightarrow> book_at ab c a = Some (?g c a)" for c a
    by (auto simp: book_at_def split: option.splits)
  have ok: "\<forall>(c, a) \<in> set (pairs_of order). checked_address L c a (?g c a) = Inr a"
    using assms(1) g orders_pairs(2) [OF assms(2)] unfolding book_ok_def by blast
  have run: "for_each (\<lambda>(c, a). book_save L c a (?g c a)) (pairs_of order) m = (err, m')"
    using assms(3) by (simp add: AddressBook_Merge_def AddressBook_Addresses_def cloneAddresses_def for_each_pairs)
  note law = save_all_law [OF orders_pairs(1) [OF assms(2)] ok run]
  show "err = None \<longleftrightarrow> (\<forall>c a. book_at ab c a = None \<or> book_at m c a = None)"
    unfolding law(1) ball_pairs orders_pairs(2) [OF assms(2)] by metis
  show "err = None \<or> err = Some ErrAddressExists" by (rule law(2))
  show "err = None \<Longrightarrow> book_at m' c a = (if book_at ab c a \<noteq> None then book_at ab c a else book_at m c a)"
    using law(3) orders_pairs(2) [OF assms(2)] g by auto
  have "fst ` set (pairs_of order) = {c. \<exists>a. book_at ab c a \<noteq> None}"
    using orders_pairs(2) [OF assms(2)] by force
  then show "err = None \<Longrightarrow> dom m' = dom m \<union> {c. \<exists>a. book_at ab c a \<noteq> None}" using law(4) by simp
qed

section \<open>Removing\<close>

lemma book_at_delete: "book_at (delete_address c a m) c' a' = (if (c', a') = (c, a) then None else book_at m c' a')"
  by (auto simp: delete_address_def book_at_def split: option.splits)

lemma delete_all_law:
  "book_at (fold (\<lambda>(c, a). delete_address c a) ks m) c' a' = (if (c', a') \<in> set ks then None else book_at m c' a')"
  by (induction ks arbitrary: m) (auto simp: book_at_delete split: if_splits)

lemma dom_delete [simp]: "dom (delete_address c a m) = dom m"
  by (auto simp: delete_address_def split: option.splits)

lemma dom_delete_all: "dom (fold (\<lambda>(c, a). delete_address c a) ks m) = dom m"
proof (induction ks arbitrary: m)
  case (Cons x ks)
  obtain c a where "x = (c, a)" by (cases x)
  then show ?case by (simp only: fold_simps case_prod_conv Cons.IH dom_delete)
qed simp

lemma Remove_law:
  assumes "orders_book ab order" "orders_book ab order'" "AddressBook_Remove order order' m = (err, m')"
  shows "err = None \<longleftrightarrow> (\<forall>c a. book_at ab c a \<noteq> None \<longrightarrow> book_at m c a \<noteq> None)"
    and "err \<noteq> None \<Longrightarrow> m' = m \<and> err = Some ErrNotContained"
    and "err = None \<Longrightarrow> book_at m' c a = (if book_at ab c a \<noteq> None then None else book_at m c a)"
    and "err = None \<Longrightarrow> dom m' = dom m"
proof -
  have has: "contains_all m order \<longleftrightarrow> (\<forall>c a. book_at ab c a \<noteq> None \<longrightarrow> book_at m c a \<noteq> None)"
    unfolding contains_all_pairs orders_pairs(2) [OF assms(1)] by (rule refl)
  show "err = None \<longleftrightarrow> (\<forall>c a. book_at ab c a \<noteq> None \<longrightarrow> book_at m c a \<noteq> None)"
    and "err \<noteq> None \<Longrightarrow> m' = m \<and> err = Some ErrNotContained"
    unfolding has [symmetric] using assms(3) by (auto simp: AddressBook_Remove_def fail_def ret_def split: if_splits)
  assume "err = None"
  then have m': "m' = fold (\<lambda>(c, a). delete_address c a) (pairs_of order') m"
    using assms(3) by (auto simp: AddressBook_Remove_def fold_pairs fail_def ret_def split: if_splits)
  show "book_at m' c a = (if book_at ab c a \<noteq> None then None else book_at m c a)"
    using orders_pairs(2) [OF assms(2)] by (simp add: m' delete_all_law)
  show "dom m' = dom m" by (simp add: m' dom_delete_all)
qed

section \<open>Properties of the book\<close>

text \<open>
  Save. On success exactly one entry is added, under the checksummed form of the address on an
  EVM chain, and it is one that was not there; on an error the book is unchanged. A well-formed book
  stays well-formed unless the address is another spelling of the zero address.
\<close>

lemma AddressBook_Save_adds_one:
  "case AddressBook_Save L c a tv m of
     (Some e, m') \<Rightarrow> m' = m
   | (None, m') \<Rightarrow>
       (\<exists>b. b = (if cl_family L c = Some (cl_evm L) then cl_hex L a else a) \<and> book_at m c b = None \<and>
          (\<forall>c' a'. book_at m' c' a' = (if c' = c \<and> a' = b then Some tv else book_at m c' a')) \<and>
          (chain_lib_ok L \<and> book_ok L m \<and> b \<noteq> cl_hex L ''0x0'' \<longrightarrow> book_ok L m'))"
proof (cases "checked_address L c a tv")
  case (Inl e)
  then show ?thesis by (simp add: AddressBook_Save_def book_save_law)
next
  case (Inr b)
  then have b: "b = (if cl_family L c = Some (cl_evm L) then cl_hex L a else a)" and fam: "cl_family L c \<noteq> None"
    by (auto simp: checked_address_def split: option.splits if_splits)
  show ?thesis
  proof (cases "book_at m c b")
    case None
    define m' where "m' = m(c \<mapsto> (case m c of None \<Rightarrow> Map.empty | Some addresses \<Rightarrow> addresses)(b \<mapsto> tv))"
    have at: "book_at m' c' a' = (if c' = c \<and> a' = b then Some tv else book_at m c' a')" for c' a'
      by (auto simp: m'_def book_at_def split: option.splits)
    have "book_ok L m'" if "chain_lib_ok L" "book_ok L m" "b \<noteq> cl_hex L ''0x0''"
    proof -
      have "checked_address L c b tv = Inr b" using checked_address_canonical [OF that(1) Inr that(3)] .
      moreover have "m' c' \<noteq> None \<Longrightarrow> cl_family L c' \<noteq> None" for c'
        using that(2) fam unfolding book_ok_def by (cases "c' = c") (auto simp: m'_def)
      ultimately show ?thesis using that(2) unfolding book_ok_def by (auto simp: at)
    qed
    moreover have "AddressBook_Save L c a tv m = (None, m')"
      using Inr None by (simp add: AddressBook_Save_def book_save_law m'_def)
    ultimately show ?thesis using None b at by simp
  next
    case (Some x)
    then show ?thesis using Inr by (simp add: AddressBook_Save_def book_save_law)
  qed
qed

text \<open>A closed library: two addresses, one of them zero, with several spellings.\<close>

definition example_chains :: chain_lib where
  "example_chains =
     \<lparr>cl_family = (\<lambda>c. if c = 1 then Some ''evm'' else if c = 2 then Some ''solana'' else None),
      cl_chain_id = (\<lambda>c. if c = 1 \<or> c = 2 then Some ''1'' else None), cl_evm = ''evm'',
      cl_is_hex = (\<lambda>a. a \<in> {''0x0'', ''0X0'', ''0xa'', ''0xA''}),
      cl_hex = (\<lambda>a. if a \<in> {''0xa'', ''0xA''} then ''0xA'' else ''0x0'')\<rparr>"

lemma example_chains_fields:
  "cl_family example_chains 1 = Some ''evm''" "cl_evm example_chains = ''evm''"
  "cl_hex example_chains ''0xa'' = ''0xA''" "cl_hex example_chains ''0x0'' = ''0x0''"
  by (simp_all add: example_chains_def)

lemma example_chains_ok: "chain_lib_ok example_chains"
  by (auto simp: chain_lib_ok_def example_chains_def)

lemma AddressBook_Save_adds_one_witness:
  "case AddressBook_Save example_chains 1 ''0xa'' (NewTypeAndVersion ''T'' (1 :: nat)) Map.empty of
     (Some e, m') \<Rightarrow> m' = Map.empty
   | (None, m') \<Rightarrow> book_at m' 1 ''0xA'' = Some (NewTypeAndVersion ''T'' 1) \<and> book_ok example_chains m'"
proof -
  have "AddressBook_Save example_chains 1 ''0xa'' (NewTypeAndVersion ''T'' (1 :: nat)) Map.empty =
      (None, [1 \<mapsto> [''0xA'' \<mapsto> NewTypeAndVersion ''T'' 1]])"
    by (simp add: AddressBook_Save_def book_save_law checked_address_def book_at_def example_chains_def NewTypeAndVersion_def)
  moreover have "book_ok example_chains (Map.empty :: nat address_book)" by (simp add: book_ok_def book_at_def)
  ultimately show ?thesis
    using AddressBook_Save_adds_one [where L = example_chains and c = 1 and a = "''0xa''"
        and tv = "NewTypeAndVersion ''T'' (1 :: nat)" and m = Map.empty] example_chains_ok
    by (simp add: example_chains_fields book_at_def)
qed

text \<open>
  The zero address is refused by comparing strings before the address is normalised, so another
  spelling of it (another case of the prefix, no prefix) is accepted and stored under the very key
  that \<open>Save\<close> refuses.
\<close>

lemma AddressBook_Save_zero_address:
  assumes "cl_family L c = Some (cl_evm L)" "cl_is_hex L a" "a \<noteq> []"
    and "cl_hex L a = cl_hex L ''0x0''" "a \<noteq> cl_hex L ''0x0''" "tv_Type tv \<noteq> []" "m c = None"
  shows "AddressBook_Save L c (cl_hex L ''0x0'') tv m = (Some ErrInvalidAddress, m) \<and>
    AddressBook_Save L c a tv m = (None, m(c \<mapsto> [cl_hex L ''0x0'' \<mapsto> tv]))"
  using assms by (simp add: AddressBook_Save_def book_save_law checked_address_def book_at_def)

lemma AddressBook_Save_zero_address_witness:
  "AddressBook_Save example_chains 1 ''0x0'' (NewTypeAndVersion ''T'' (1 :: nat)) Map.empty = (Some ErrInvalidAddress, Map.empty) \<and>
   AddressBook_Save example_chains 1 ''0X0'' (NewTypeAndVersion ''T'' (1 :: nat)) Map.empty =
     (None, [1 \<mapsto> [''0x0'' \<mapsto> NewTypeAndVersion ''T'' 1]])"
  using AddressBook_Save_zero_address [of example_chains 1 "''0X0''" "NewTypeAndVersion ''T'' (1 :: nat)" Map.empty]
  by (simp add: example_chains_def NewTypeAndVersion_def)

text \<open>
  C38: Merge and Remove, for a well-formed other book and any iteration orders. Merge succeeds exactly
  when no address of the other book is already present, and then the entries are the union. Removing
  the merged book afterwards succeeds and gives back every entry; removing a book with an address
  that is missing fails and changes nothing.
\<close>

theorem AddressBook_Merge_Remove:
  assumes "book_ok L ab" "orders_book ab order" "orders_book ab order1" "orders_book ab order2"
  shows "(case AddressBook_Merge L order ab m of
      (Some e, m') \<Rightarrow> e = ErrAddressExists \<and> (\<exists>c a. book_at ab c a \<noteq> None \<and> book_at m c a \<noteq> None)
    | (None, m') \<Rightarrow>
        (\<forall>c a. book_at m' c a = (if book_at ab c a \<noteq> None then book_at ab c a else book_at m c a)) \<and>
        (\<forall>c a. book_at ab c a = None \<or> book_at m c a = None) \<and>
        (\<exists>n. AddressBook_Remove order1 order2 m' = (None, n) \<and> (\<forall>c a. book_at n c a = book_at m c a))) \<and>
   (case AddressBook_Remove order1 order2 m of
      (Some e, m') \<Rightarrow> m' = m \<and> (\<exists>c a. book_at ab c a \<noteq> None \<and> book_at m c a = None)
    | (None, m') \<Rightarrow> (\<forall>c a. book_at m' c a = (if book_at ab c a \<noteq> None then None else book_at m c a)))"
proof (rule conjI)
  obtain err m' where merge: "AddressBook_Merge L order ab m = (err, m')" by fastforce
  note law = Merge_law [OF assms(1,2) merge]
  obtain err2 n where remove: "AddressBook_Remove order1 order2 m' = (err2, n)" by fastforce
  note law2 = Remove_law [OF assms(3,4) remove]
  show "case AddressBook_Merge L order ab m of
      (Some e, m') \<Rightarrow> e = ErrAddressExists \<and> (\<exists>c a. book_at ab c a \<noteq> None \<and> book_at m c a \<noteq> None)
    | (None, m') \<Rightarrow>
        (\<forall>c a. book_at m' c a = (if book_at ab c a \<noteq> None then book_at ab c a else book_at m c a)) \<and>
        (\<forall>c a. book_at ab c a = None \<or> book_at m c a = None) \<and>
        (\<exists>n. AddressBook_Remove order1 order2 m' = (None, n) \<and> (\<forall>c a. book_at n c a = book_at m c a))"
  proof (cases err)
    case None
    have "err2 = None" unfolding law2(1) using law(3) [OF None] by auto
    have gone: "book_at n c a = book_at m c a" for c a
      using law2(3) [OF \<open>err2 = None\<close>, of c a] law(1) law(3) [OF None, of c a] None by metis
    have "\<forall>c a. book_at ab c a = None \<or> book_at m c a = None" using law(1) None by simp
    then show ?thesis using None merge remove law(3) [OF None] \<open>err2 = None\<close> gone by simp
  next
    case (Some e)
    then show ?thesis using merge law(1,2) by auto
  qed
next
  obtain err m' where remove: "AddressBook_Remove order1 order2 m = (err, m')" by fastforce
  note law = Remove_law [OF assms(3,4) remove]
  show "case AddressBook_Remove order1 order2 m of
      (Some e, m') \<Rightarrow> m' = m \<and> (\<exists>c a. book_at ab c a \<noteq> None \<and> book_at m c a = None)
    | (None, m') \<Rightarrow> (\<forall>c a. book_at m' c a = (if book_at ab c a \<noteq> None then None else book_at m c a))"
    using remove law by (cases err) (auto simp del: not_None_eq)
qed

definition example_book :: "nat address_book" where
  "example_book = [1 \<mapsto> [''0xA'' \<mapsto> NewTypeAndVersion ''T'' 1]]"

lemma example_book_ok:
  "book_ok example_chains example_book" "orders_book example_book [(1, [''0xA''])]"
  by (auto simp: book_ok_def book_at_def example_book_def example_chains_def checked_address_def orders_book_def
      iteration_of_def NewTypeAndVersion_def split: option.splits if_splits)

theorem AddressBook_Merge_Remove_witness:
  "case AddressBook_Merge example_chains [(1, [''0xA''])] example_book Map.empty of
     (Some e, m') \<Rightarrow> False
   | (None, m') \<Rightarrow> book_at m' 1 ''0xA'' \<noteq> None"
proof -
  have "AddressBook_Merge example_chains [(1, [''0xA''])] example_book Map.empty = (None, example_book)"
    by (simp add: AddressBook_Merge_def AddressBook_Addresses_def cloneAddresses_def book_save_law
        checked_address_def book_at_def example_chains_def example_book_def NewTypeAndVersion_def)
  then show ?thesis
    using AddressBook_Merge_Remove [OF example_book_ok example_book_ok(2) example_book_ok(2), of Map.empty]
    by (simp add: book_at_def example_book_def)
qed

section \<open>Printing and parsing contract types\<close>

lemma fields_from_word: "\<forall>c \<in> set w. \<not> is_space c \<Longrightarrow> fields_from cur (w @ s) = fields_from (cur @ w) s"
  by (induction w arbitrary: cur) auto

lemma string_fields_join:
  "\<forall>w \<in> set ws. w \<noteq> [] \<and> (\<forall>c \<in> set w. \<not> is_space c) \<Longrightarrow> string_fields (join_with '' '' ws) = ws"
proof (induction "'' ''" ws rule: join_with.induct)
  case (2 w)
  then show ?case using fields_from_word [of w "[]" "[]"] by (simp add: string_fields_def)
next
  case (3 w v ws)
  then show ?case using fields_from_word [of w "[]" "'' '' @ join_with '' '' (v # ws)"]
    by (simp add: string_fields_def is_space_def)
qed (simp add: string_fields_def)

lemma set_BookLabels_List: "finite ls \<Longrightarrow> set (BookLabels_List ls) = ls"
  by (simp add: BookLabels_List_def)

lemma BookLabels_New_set [simp]: "BookLabels_New labels = set labels"
  using union_set_fold [of labels "{}"] by (simp add: BookLabels_New_def)

lemma TypeAndVersion_String_join:
  "finite (tv_Labels tv) \<Longrightarrow> TypeAndVersion_String sv tv =
     join_with '' '' (tv_Type tv # sv_String sv (tv_Version tv) # BookLabels_List (tv_Labels tv))"
proof (cases "tv_Labels tv = {}")
  case False
  assume "finite (tv_Labels tv)"
  then obtain l ls where "sorted_list_of_set (tv_Labels tv) = l # ls"
    using False by (metis neq_Nil_conv sorted_list_of_set_eq_Nil_iff)
  then show ?thesis using False \<open>finite (tv_Labels tv)\<close>
    by (simp add: TypeAndVersion_String_def BookLabels_String_def BookLabels_List_def Let_def)
qed (simp add: TypeAndVersion_String_def BookLabels_List_def)

text \<open>
  Printing and parsing contract types: for a type, a version and labels that are words without
  spaces, parsing the printed form gives the type and the labels back, and an equal version; the
  result is \<open>Equal\<close> to the original and prints the same.
\<close>

lemma TypeAndVersion_roundtrip:
  assumes "semver_ok sv" "\<forall>v. \<forall>c \<in> set (sv_String sv v). \<not> is_space c"
    and "finite (tv_Labels tv)" "\<forall>w \<in> insert (tv_Type tv) (tv_Labels tv). w \<noteq> [] \<and> (\<forall>c \<in> set w. \<not> is_space c)"
  shows "\<exists>tv'. TypeAndVersionFromString sv (TypeAndVersion_String sv tv) = Inr tv' \<and>
    TypeAndVersion_Equal sv tv tv' \<and> TypeAndVersion_String sv tv' = TypeAndVersion_String sv tv"
proof -
  obtain v where v: "sv_NewVersion sv (sv_String sv (tv_Version tv)) = Some v"
    "sv_Equal sv (Some (tv_Version tv)) (Some v)" "sv_String sv v = sv_String sv (tv_Version tv)"
    using semver_reparse [OF assms(1)] by blast
  have "string_fields (TypeAndVersion_String sv tv) =
      tv_Type tv # sv_String sv (tv_Version tv) # BookLabels_List (tv_Labels tv)"
    unfolding TypeAndVersion_String_join [OF assms(3)]
    using assms semver_okD(10) [OF assms(1)] set_BookLabels_List [OF assms(3)]
    by (intro string_fields_join) auto
  then have "TypeAndVersionFromString sv (TypeAndVersion_String sv tv) =
      Inr \<lparr>tv_Type = tv_Type tv, tv_Version = v, tv_Labels = tv_Labels tv\<rparr>"
    using v(1) set_BookLabels_List [OF assms(3)] by (auto simp: TypeAndVersionFromString_def)
  then show ?thesis using v by (simp add: TypeAndVersion_Equal_def BookLabels_Equal_def TypeAndVersion_String_def)
qed

lemma TypeAndVersion_roundtrip_witness:
  "\<exists>tv'. TypeAndVersionFromString nat_semver (TypeAndVersion_String nat_semver
       \<lparr>tv_Type = ''Token'', tv_Version = 1, tv_Labels = {''a'', ''b''}\<rparr>) = Inr tv'"
proof -
  have "\<forall>v. \<forall>c \<in> set (sv_String nat_semver v). \<not> is_space c"
    by (auto simp: nat_semver_def is_space_def is_digit_def dest!: dec_string_chars)
  from TypeAndVersion_roundtrip [OF nat_semver_ok this,
      of "\<lparr>tv_Type = ''Token'', tv_Version = 1, tv_Labels = {''a'', ''b''}\<rparr>"]
  show ?thesis by (auto simp: is_space_def)
qed

section \<open>Deduplication of a bundle\<close>

lemma grouped_law:
  "toTypeAndVersionMap sv order addrs key =
     (let ks = filter (\<lambda>k. tvKey sv (the (addrs k)) = key) order in if ks = [] then None else Some ks)"
proof (induction order rule: rev_induct)
  case (snoc k order)
  then show ?case by (auto simp: toTypeAndVersionMap_def Let_def)
qed (simp add: toTypeAndVersionMap_def Let_def)

lemma dedup_scan_law:
  "dedup_scan sv grouped bundle found =
     (if \<exists>btv \<in> set bundle. \<exists>ks. grouped (tvKey sv btv) = Some ks \<and> length ks > 1 then Inl ErrDuplicateContract
      else Inr (found @ filter (\<lambda>btv. grouped (tvKey sv btv) \<noteq> None) bundle))"
  by (induction "bundle" arbitrary: found) (auto split: option.splits)

definition instances_of :: "'v semver \<Rightarrow> (string \<rightharpoonup> 'v type_and_version) \<Rightarrow> 'v type_and_version \<Rightarrow> string set" where
  "instances_of sv addrs btv = {a. \<exists>tv. addrs a = Some tv \<and> tvKey sv tv = tvKey sv btv}"

lemma instances_order:
  assumes "iteration_of addrs order"
  shows "card (instances_of sv addrs btv) = length (filter (\<lambda>k. tvKey sv (the (addrs k)) = tvKey sv btv) order)"
proof -
  have "instances_of sv addrs btv = set (filter (\<lambda>k. tvKey sv (the (addrs k)) = tvKey sv btv) order)"
    using assms by (auto simp: instances_of_def iteration_of_def)
  then show ?thesis using assms by (simp add: iteration_of_def distinct_card [symmetric] del: set_filter)
qed

text \<open>
  EnsureDeduped, for any iteration order: an error exactly when some contract of the bundle has
  more than one address, and otherwise true exactly when each has one.
\<close>

lemma EnsureDeduped_counts:
  assumes "iteration_of addrs order"
  shows "EnsureDeduped sv order addrs bundle =
    (if \<exists>btv \<in> set bundle. card (instances_of sv addrs btv) > 1 then Inl ErrDuplicateContract
     else Inr (\<forall>btv \<in> set bundle. card (instances_of sv addrs btv) = 1))"
proof -
  let ?n = "\<lambda>btv. length (filter (\<lambda>k. tvKey sv (the (addrs k)) = tvKey sv btv) order)"
  have many: "(\<exists>ks. toTypeAndVersionMap sv order addrs (tvKey sv btv) = Some ks \<and> length ks > 1) \<longleftrightarrow> ?n btv > 1" for btv
    by (auto simp: grouped_law Let_def)
  have some: "toTypeAndVersionMap sv order addrs (tvKey sv btv) \<noteq> None \<longleftrightarrow> ?n btv \<noteq> 0" for btv
    by (auto simp: grouped_law Let_def)
  have all: "length (filter P bundle) = length bundle \<longleftrightarrow> (\<forall>b \<in> set bundle. P b)" for P
    by (metis filter_id_conv length_filter_less less_irrefl)
  show ?thesis
  proof (cases "\<exists>btv \<in> set bundle. ?n btv > 1")
    case True
    then show ?thesis unfolding EnsureDeduped_def dedup_scan_law many instances_order [OF assms] by simp
  next
    case False
    then have "?n btv \<noteq> 0 \<longleftrightarrow> ?n btv = 1" if "btv \<in> set bundle" for btv
      using that by (metis One_nat_def Suc_lessI neq0_conv zero_less_one)
    then show ?thesis using False
      unfolding EnsureDeduped_def dedup_scan_law many some instances_order [OF assms] by (simp add: all)
  qed
qed

lemma EnsureDeduped_counts_witness:
  "EnsureDeduped nat_semver [''0xA''] [''0xA'' \<mapsto> NewTypeAndVersion ''T'' 1] [NewTypeAndVersion ''T'' 1] = Inr True"
  using EnsureDeduped_counts [of "[''0xA'' \<mapsto> NewTypeAndVersion ''T'' 1]" "[''0xA'']" nat_semver "[NewTypeAndVersion ''T'' 1]"]
  by (simp add: iteration_of_def instances_of_def)

text \<open>
  The key keeps the labels joined by spaces, so different label sets can share a key: a
  contract labelled ``a b'' counts as an instance of one labelled ``a'' and ``b'', and EnsureDeduped
  reports a duplicate where there are two different contracts.
\<close>

lemma EnsureDeduped_confuses_labels:
  "\<not> TypeAndVersion_Equal nat_semver \<lparr>tv_Type = ''T'', tv_Version = 1, tv_Labels = {''a b''}\<rparr>
       \<lparr>tv_Type = ''T'', tv_Version = 1, tv_Labels = {''a'', ''b''}\<rparr> \<and>
   EnsureDeduped nat_semver [''x'', ''y'']
     [''x'' \<mapsto> \<lparr>tv_Type = ''T'', tv_Version = 1, tv_Labels = {''a b''}\<rparr>,
      ''y'' \<mapsto> \<lparr>tv_Type = ''T'', tv_Version = 1, tv_Labels = {''a'', ''b''}\<rparr>]
     [\<lparr>tv_Type = ''T'', tv_Version = 1, tv_Labels = {''a b''}\<rparr>] = Inl ErrDuplicateContract"
  by (simp add: TypeAndVersion_Equal_def BookLabels_Equal_def EnsureDeduped_def toTypeAndVersionMap_def tvKey_def
      BookLabels_String_def BookLabels_List_def Let_def)

section \<open>Searching any address book\<close>

text \<open>The interface \<open>AddressBook\<close> as its readers use it: what a chain lists are its entries.\<close>

locale book_reader =
  fixes forChain :: "'b \<Rightarrow> u64 \<Rightarrow> 'e + (string \<rightharpoonup> 'v type_and_version)"
    and entry :: "'b \<Rightarrow> u64 \<Rightarrow> string \<Rightarrow> 'v type_and_version option"
  assumes forChain_entries: "forChain ab c = Inr addrs \<Longrightarrow> addrs a = entry ab c a"
begin

lemma search_sound:
  assumes "\<And>addrs. forChain ab c = Inr addrs \<Longrightarrow> iteration_of addrs order"
  shows "case SearchAddressBook forChain order ab c ct of
      Inr a \<Rightarrow> \<exists>tv. entry ab c a = Some tv \<and> tv_Type tv = ct
    | Inl None \<Rightarrow> \<forall>a tv. entry ab c a = Some tv \<longrightarrow> tv_Type tv \<noteq> ct
    | Inl (Some e) \<Rightarrow> forChain ab c = Inl e"
proof (cases "forChain ab c")
  case (Inr addrs)
  note entries = forChain_entries [OF Inr]
  have order: "set order = dom addrs" using assms [OF Inr] by (simp add: iteration_of_def)
  let ?P = "\<lambda>addr. case addrs addr of None \<Rightarrow> False | Some tv \<Rightarrow> tv_Type tv = ct"
  show ?thesis
  proof (cases "find ?P order")
    case None
    then have "\<forall>a \<in> dom addrs. \<not> ?P a" using order by (auto simp: find_None_iff)
    then have "tv_Type tv \<noteq> ct" if "entry ab c a = Some tv" for a tv
    proof -
      have "addrs a = Some tv" using that entries [of a] by simp
      then have "a \<in> dom addrs" "?P a \<longleftrightarrow> tv_Type tv = ct" by auto
      then show ?thesis using \<open>\<forall>a \<in> dom addrs. \<not> ?P a\<close> by blast
    qed
    then show ?thesis using Inr None by (simp add: SearchAddressBook_def)
  next
    case (Some a)
    then have "?P a" by (rule find_sound(1))
    then obtain tv where "addrs a = Some tv" "tv_Type tv = ct" by (cases "addrs a") auto
    then have "\<exists>tv. entry ab c a = Some tv \<and> tv_Type tv = ct" using entries [of a] by metis
    moreover have "SearchAddressBook forChain order ab c ct = Inr a" using Inr Some by (simp add: SearchAddressBook_def)
    ultimately show ?thesis by simp
  qed
qed (simp add: SearchAddressBook_def)

lemma contains_iff:
  assumes "forChain ab c = Inr addrs" "iteration_of addrs order"
  shows "AddressBookContains forChain order ab c a = Inr (entry ab c a \<noteq> None)"
proof -
  have "a \<in> set order \<longleftrightarrow> entry ab c a \<noteq> None"
    using assms(2) forChain_entries [OF assms(1), of a, symmetric] by (simp add: iteration_of_def domIff)
  then show ?thesis using assms(1) by (simp add: AddressBookContains_def list_ex_iff)
qed

end

interpretation memory_book: book_reader "AddressBook_AddressesForChain L" book_at for L
  by unfold_locales (auto simp: AddressBook_AddressesForChain_def book_at_def split: if_splits option.splits)

text \<open>
  Searching the in-memory book by type, for any iteration order of the chain's addresses: a result
  is an address of that chain with that type, ``not found'' means there is none, and the only other
  errors are an invalid selector and a chain the book does not know.
\<close>

lemma SearchAddressBook_sound:
  assumes "\<And>addrs. m c = Some addrs \<Longrightarrow> iteration_of addrs order"
  shows "case SearchAddressBook (AddressBook_AddressesForChain L) order m c ct of
      Inr a \<Rightarrow> \<exists>tv. book_at m c a = Some tv \<and> tv_Type tv = ct
    | Inl None \<Rightarrow> \<forall>a tv. book_at m c a = Some tv \<longrightarrow> tv_Type tv \<noteq> ct
    | Inl (Some e) \<Rightarrow> e = ErrInvalidChainSelector \<and> cl_chain_id L c = None \<or> e = ErrChainNotFound \<and> m c = None"
proof -
  have order: "iteration_of addrs order" if "AddressBook_AddressesForChain L m c = Inr addrs" for addrs
    using that assms by (auto simp: AddressBook_AddressesForChain_def split: if_splits option.splits)
  have errors: "e = ErrInvalidChainSelector \<and> cl_chain_id L c = None \<or> e = ErrChainNotFound \<and> m c = None"
    if "AddressBook_AddressesForChain L m c = Inl e" for e
    using that by (auto simp: AddressBook_AddressesForChain_def split: if_splits option.splits)
  show ?thesis
    using memory_book.search_sound [where L = L and ab = m and c = c and order = order and ct = ct] order errors
    by (auto split: sum.splits option.splits)
qed

lemma SearchAddressBook_sound_example:
  "SearchAddressBook (AddressBook_AddressesForChain example_chains) [''0xA''] example_book 1 ''T'' = Inr ''0xA'' \<and>
   (\<exists>tv. book_at example_book 1 ''0xA'' = Some tv \<and> tv_Type tv = ''T'')"
proof -
  have found: "SearchAddressBook (AddressBook_AddressesForChain example_chains) [''0xA''] example_book 1 ''T'' = Inr ''0xA''"
    by (simp add: SearchAddressBook_def AddressBook_AddressesForChain_def example_book_def NewTypeAndVersion_def
        example_chains_def)
  have "iteration_of addrs [''0xA'']" if "example_book 1 = Some addrs" for addrs
    using that by (auto simp: example_book_def iteration_of_def split: if_splits)
  from SearchAddressBook_sound [where m = example_book and c = 1 and L = example_chains and ct = "''T''", OF this] found
  show ?thesis by simp
qed

end
