(* ===== verification/Changeset_Registry.thy ===== *)
theory Changeset_Registry
  imports Go_Json
begin

text \<open>
  Changesets of the deployment engine: how a configuration is paired with a changeset
  (\<open>engine/cld/changeset/common.go\<close>), post-processing (\<open>postprocess.go\<close>), hooks
  (\<open>hooks.go\<close>), the registry that applies a changeset with its hooks
  (\<open>registry.go\<close>), and the hooks of a proposal (\<open>mcms.go\<close>).

  Hooks, changesets and configuration providers are arbitrary functions on the world \<open>'w\<close>; they
  come with the changeset and are not part of these files. \<open>None\<close> as an output is the zero
  \<open>ChangesetOutput{}\<close>. An error value is a constructor of \<open>cs_error\<close>, with the errors of
  code outside (\<open>'e\<close>) inside it. The JSON text of an input is decoded by a parameter. The mutex of
  the registry makes each of its methods one step; \<open>Apply\<close> takes a snapshot in one such step.
\<close>

section \<open>Errors and environments\<close>

datatype 'e cs_error =
    ErrRaw 'e
  | ErrChangesetNotFound string
  | ErrConfiguration "'e cs_error"
  | ErrReadOnlyPre 'e
  | ErrReadOnlyPost 'e
  | ErrReadOnlyProposal 'e
  | ErrGlobalPreHook string "'e cs_error"
  | ErrChangesetPreHook string "'e cs_error"
  | ErrChangesetPostHook string "'e cs_error"
  | ErrGlobalPostHook string "'e cs_error"
  | ErrChangesetProposalHook string "'e cs_error"
  | ErrGlobalProposalHook string "'e cs_error"
  | ErrInputEmpty
  | ErrInputNotJSON
  | ErrPayloadRequired
  | ErrPayload
  | ErrInputModifier "'e cs_error"
  | ErrResolverInput "'e cs_error"
  | ErrResolver "'e cs_error"
  | ErrInvalidInputType
  | ErrNoProvider
  | ErrNoChangesets
  | PanicNilProvider

record ('b, 'd) environment =
  env_Name :: string
  env_BlockChains :: 'b
  env_DataStore :: 'd

text \<open>\<open>BlockChains.ReadOnly\<close>, which may reach the outside.\<close>

type_synonym ('b, 'e, 'w) read_only = "'b \<Rightarrow> 'w \<Rightarrow> ('e + 'b) \<times> 'w"

section \<open>Hooks\<close>

text \<open>A failure policy is an \<open>int\<close>, and durations are nanoseconds.\<close>

definition Abort :: int where
  "Abort = 0"

definition Warn :: int where
  "Warn = 1"

definition FailurePolicy_String :: "int \<Rightarrow> string" where
  "FailurePolicy_String fp =
     (if fp = Abort then ''Abort'' else if fp = Warn then ''Warn''
      else ''FailurePolicy('' @ (if fp < 0 then CHR ''-'' # dec_string (nat (- fp)) else dec_string (nat fp)) @ '')'')"

definition DefaultHookTimeout :: int where
  "DefaultHookTimeout = 30000000000"

record hook_definition =
  hook_Name :: string
  hook_FailurePolicy :: int
  hook_Timeout :: int

type_synonym ('p, 'e, 'w) hook_func = "int \<Rightarrow> 'p \<Rightarrow> 'w \<Rightarrow> 'e cs_error option \<times> 'w"

record ('p, 'e, 'w) hook = hook_definition +
  hook_Func :: "('p, 'e, 'w) hook_func"

definition ExecuteHook ::
  "('a) hook_definition_scheme \<Rightarrow> (int \<Rightarrow> 'w \<Rightarrow> 'e cs_error option \<times> 'w) \<Rightarrow> 'w \<Rightarrow> 'e cs_error option \<times> 'w" where
  "ExecuteHook def fn w =
     (let timeout = (if hook_Timeout def = 0 then DefaultHookTimeout else hook_Timeout def) in
      case fn timeout w of
        (err, w) \<Rightarrow>
          if err \<noteq> None \<and> hook_FailurePolicy def = Warn then (None, w) else (err, w))"

record ('b, 'd, 'c) pre_params =
  pre_Env :: "('b, 'd) environment"
  pre_ChangesetKey :: string
  pre_Config :: 'c

record ('b, 'd, 'c, 'o, 'e) post_params =
  post_Env :: "('b, 'd) environment"
  post_ChangesetKey :: string
  post_Config :: 'c
  post_Output :: "'o option"
  post_Err :: "'e cs_error option"

record ('b, 'd, 'c, 'pr) proposal_params =
  pp_Env :: "('b, 'd) environment"
  pp_ForkContext :: "string option"
  pp_ChangesetKey :: string
  pp_Proposal :: 'pr
  pp_Config :: 'c
  pp_Input :: 'c
  pp_Err :: string

type_synonym ('b, 'd, 'c, 'e, 'w) pre_hook = "(('b, 'd, 'c) pre_params, 'e, 'w) hook"
type_synonym ('b, 'd, 'c, 'o, 'e, 'w) post_hook = "(('b, 'd, 'c, 'o, 'e) post_params, 'e, 'w) hook"
type_synonym ('b, 'd, 'c, 'pr, 'e, 'w) proposal_hook = "(('b, 'd, 'c, 'pr) proposal_params, 'e, 'w) hook"

section \<open>Configured changesets\<close>

text \<open>
  \<open>VerifyPreconditions\<close> and \<open>Apply\<close> of the operation, the test of the type assertion to the
  configuration type, and the providers. A nil function is \<open>None\<close>.
\<close>

record ('b, 'd, 'c, 'o, 'e, 'w) wrapped_changeset =
  ws_verify :: "('b, 'd) environment \<Rightarrow> 'c \<Rightarrow> 'w \<Rightarrow> 'e cs_error option \<times> 'w"
  ws_apply :: "('b, 'd) environment \<Rightarrow> 'c \<Rightarrow> 'w \<Rightarrow> ('o option \<times> 'e cs_error option) \<times> 'w"
  ws_has_type :: "'c \<Rightarrow> bool"
  ws_zero :: 'c

type_synonym ('c, 'e, 'w) provider = "'w \<Rightarrow> ('e cs_error + 'c) \<times> 'w"

record ('b, 'd, 'c, 'o, 'e, 'w, 'pr) changeset_impl =
  ci_changeset :: "('b, 'd, 'c, 'o, 'e, 'w) wrapped_changeset"
  ci_configProvider :: "('c, 'e, 'w) provider option"
  ci_configProviderWithInput :: "(string \<Rightarrow> ('c, 'e, 'w) provider) option"
  ci_inputChainOverrides :: "('e cs_error + u64 list option) option"
  ci_preHooks :: "('b, 'd, 'c, 'e, 'w) pre_hook list"
  ci_postHooks :: "('b, 'd, 'c, 'o, 'e, 'w) post_hook list"
  ci_postProposalHooks :: "('b, 'd, 'c, 'pr, 'e, 'w) proposal_hook list"

definition configured ::
  "('b, 'd, 'c, 'o, 'e, 'w) wrapped_changeset \<Rightarrow> ('c, 'e, 'w) provider \<Rightarrow> (string \<Rightarrow> ('c, 'e, 'w) provider) option \<Rightarrow>
   ('e cs_error + u64 list option) option \<Rightarrow> ('b, 'd, 'c, 'o, 'e, 'w, 'pr) changeset_impl" where
  "configured f provider provider_in overrides =
     \<lparr>ci_changeset = f, ci_configProvider = Some provider, ci_configProviderWithInput = provider_in,
      ci_inputChainOverrides = overrides, ci_preHooks = [], ci_postHooks = [], ci_postProposalHooks = []\<rparr>"

definition WrappedChangeSet_With ::
  "'c \<Rightarrow> ('b, 'd, 'c, 'o, 'e, 'w) wrapped_changeset \<Rightarrow> ('b, 'd, 'c, 'o, 'e, 'w, 'pr) changeset_impl" where
  "WrappedChangeSet_With config f = configured f (\<lambda>w. (Inr config, w)) None None"

definition WithConfigFrom ::
  "('c, 'e, 'w) provider \<Rightarrow> ('b, 'd, 'c, 'o, 'e, 'w) wrapped_changeset \<Rightarrow> ('b, 'd, 'c, 'o, 'e, 'w, 'pr) changeset_impl" where
  "WithConfigFrom configProvider f = configured f configProvider None None"

text \<open>
  A typed input: \<open>None\<close> as a payload is an empty raw message. \<open>read_typed\<close> decodes the text of
  an input into it, and \<open>decode\<close> a payload into the configuration type (numbers kept, unknown
  fields refused).
\<close>

record typed_input =
  ti_Payload :: "json option"
  ti_ChainOverrides :: "u64 list option"

definition parseTypedInput :: "(string \<Rightarrow> typed_input option) \<Rightarrow> string \<Rightarrow> 'e cs_error + typed_input" where
  "parseTypedInput read_typed inputStr =
     (if inputStr = [] then Inl ErrInputEmpty
      else case read_typed inputStr of
             None \<Rightarrow> Inl ErrInputNotJSON
           | Some inputObject \<Rightarrow> if ti_Payload inputObject = None then Inl ErrPayloadRequired else Inr inputObject)"

definition decodePayload :: "(json \<Rightarrow> 'c option) \<Rightarrow> json \<Rightarrow> 'e cs_error + 'c" where
  "decodePayload decode payload = (case decode payload of None \<Rightarrow> Inl ErrPayload | Some config \<Rightarrow> Inr config)"

definition loadInputChainOverrides ::
  "(string \<Rightarrow> typed_input option) \<Rightarrow> string \<Rightarrow> 'e cs_error + u64 list option" where
  "loadInputChainOverrides read_typed inputStr =
     (if inputStr = [] then Inr None
      else case read_typed inputStr of
             None \<Rightarrow> Inl ErrInputNotJSON
           | Some inputObject \<Rightarrow> Inr (ti_ChainOverrides inputObject))"

definition WithJSON ::
  "(string \<Rightarrow> typed_input option) \<Rightarrow> (json \<Rightarrow> 'c option) \<Rightarrow> string \<Rightarrow>
   ('b, 'd, 'c, 'o, 'e, 'w) wrapped_changeset \<Rightarrow> ('b, 'd, 'c, 'o, 'e, 'w, 'pr) changeset_impl" where
  "WithJSON read_typed decode inputStr f =
     configured f
       (\<lambda>w. (case parseTypedInput read_typed inputStr of
               Inl e \<Rightarrow> Inl e
             | Inr inputObject \<Rightarrow> decodePayload decode (the (ti_Payload inputObject)), w))
       None (Some (loadInputChainOverrides read_typed inputStr))"

text \<open>The input string comes from the process environment.\<close>

definition providerFromInput ::
  "(string \<Rightarrow> typed_input option) \<Rightarrow> (json \<Rightarrow> 'c option) \<Rightarrow> ('c \<Rightarrow> ('c, 'e, 'w) provider) option \<Rightarrow>
   string \<Rightarrow> ('c, 'e, 'w) provider" where
  "providerFromInput read_typed decode inputModifier rawInput w =
     (case parseTypedInput read_typed rawInput of
        Inl e \<Rightarrow> (Inl e, w)
      | Inr inputObject \<Rightarrow>
          (case decodePayload decode (the (ti_Payload inputObject)) of
             Inl e \<Rightarrow> (Inl e, w)
           | Inr config \<Rightarrow>
               (case inputModifier of
                  Some modifier \<Rightarrow>
                    (case modifier config w of
                       (Inl e, w) \<Rightarrow> (Inl (ErrInputModifier e), w)
                     | (Inr conf, w) \<Rightarrow> (Inr conf, w))
                | None \<Rightarrow> (Inr config, w))))"

definition WithEnvInput ::
  "(string \<Rightarrow> typed_input option) \<Rightarrow> (json \<Rightarrow> 'c option) \<Rightarrow> ('c \<Rightarrow> ('c, 'e, 'w) provider) option \<Rightarrow> string \<Rightarrow>
   ('b, 'd, 'c, 'o, 'e, 'w) wrapped_changeset \<Rightarrow> ('b, 'd, 'c, 'o, 'e, 'w, 'pr) changeset_impl" where
  "WithEnvInput read_typed decode inputModifier inputStr f =
     configured f (providerFromInput read_typed decode inputModifier inputStr)
       (Some (providerFromInput read_typed decode inputModifier))
       (Some (loadInputChainOverrides read_typed inputStr))"

definition configProviderFromInput ::
  "(string \<Rightarrow> typed_input option) \<Rightarrow> (json \<Rightarrow> ('c, 'e, 'w) provider) \<Rightarrow> string \<Rightarrow> ('c, 'e, 'w) provider" where
  "configProviderFromInput read_typed resolver rawInput w =
     (case parseTypedInput read_typed rawInput of
        Inl e \<Rightarrow> (Inl (ErrResolverInput e), w)
      | Inr inputObject \<Rightarrow>
          (case resolver (the (ti_Payload inputObject)) w of
             (Inl e, w) \<Rightarrow> (Inl (ErrResolver e), w)
           | (Inr typedConfig, w) \<Rightarrow> (Inr typedConfig, w)))"

definition WithConfigResolver ::
  "(string \<Rightarrow> typed_input option) \<Rightarrow> (json \<Rightarrow> ('c, 'e, 'w) provider) \<Rightarrow> string \<Rightarrow>
   ('b, 'd, 'c, 'o, 'e, 'w) wrapped_changeset \<Rightarrow> ('b, 'd, 'c, 'o, 'e, 'w, 'pr) changeset_impl" where
  "WithConfigResolver read_typed resolver inputStr f =
     configured f (configProviderFromInput read_typed resolver inputStr)
       (Some (configProviderFromInput read_typed resolver))
       (Some (loadInputChainOverrides read_typed inputStr))"

definition ChangeSetImpl_Apply ::
  "('b, 'd, 'c, 'o, 'e, 'w, 'pr) changeset_impl \<Rightarrow> ('b, 'd) environment \<Rightarrow> 'w \<Rightarrow> ('o option \<times> 'e cs_error option) \<times> 'w" where
  "ChangeSetImpl_Apply ccs env w =
     (case ci_configProvider ccs of
        None \<Rightarrow> ((None, Some PanicNilProvider), w)
      | Some configProvider \<Rightarrow>
          (case configProvider w of
             (Inl e, w) \<Rightarrow> ((None, Some e), w)
           | (Inr c, w) \<Rightarrow>
               (case ws_verify (ci_changeset ccs) env c w of
                  (Some e, w) \<Rightarrow> ((None, Some e), w)
                | (None, w) \<Rightarrow> ws_apply (ci_changeset ccs) env c w)))"

definition ChangeSetImpl_applyWithInput ::
  "('b, 'd, 'c, 'o, 'e, 'w, 'pr) changeset_impl \<Rightarrow> ('b, 'd) environment \<Rightarrow> 'c \<Rightarrow> 'w \<Rightarrow> ('o option \<times> 'e cs_error option) \<times> 'w" where
  "ChangeSetImpl_applyWithInput ccs env input w =
     (if \<not> ws_has_type (ci_changeset ccs) input then ((None, Some ErrInvalidInputType), w)
      else
        case ws_verify (ci_changeset ccs) env input w of
          (Some e, w) \<Rightarrow> ((None, Some e), w)
        | (None, w) \<Rightarrow> ws_apply (ci_changeset ccs) env input w)"

definition ChangeSetImpl_Configurations ::
  "('b, 'd, 'c, 'o, 'e, 'w, 'pr) changeset_impl \<Rightarrow> 'e cs_error + u64 list option" where
  "ChangeSetImpl_Configurations ccs =
     (case ci_inputChainOverrides ccs of None \<Rightarrow> Inr None | Some r \<Rightarrow> r)"

definition ChangeSetImpl_resolvedInput ::
  "('b, 'd, 'c, 'o, 'e, 'w, 'pr) changeset_impl \<Rightarrow> string \<Rightarrow> ('c, 'e, 'w) provider" where
  "ChangeSetImpl_resolvedInput ccs input w =
     (case (if input \<noteq> [] then ci_configProviderWithInput ccs else None) of
        Some configProviderWithInput \<Rightarrow> configProviderWithInput input w
      | None \<Rightarrow>
          (case ci_configProvider ccs of
             Some configProvider \<Rightarrow> configProvider w
           | None \<Rightarrow> (Inl ErrNoProvider, w)))"

definition ChangeSetImpl_WithPreHooks ::
  "('b, 'd, 'c, 'e, 'w) pre_hook list \<Rightarrow> ('b, 'd, 'c, 'o, 'e, 'w, 'pr) changeset_impl \<Rightarrow>
   ('b, 'd, 'c, 'o, 'e, 'w, 'pr) changeset_impl" where
  "ChangeSetImpl_WithPreHooks hooks ccs = ccs\<lparr>ci_preHooks := ci_preHooks ccs @ hooks\<rparr>"

definition ChangeSetImpl_WithPostHooks ::
  "('b, 'd, 'c, 'o, 'e, 'w) post_hook list \<Rightarrow> ('b, 'd, 'c, 'o, 'e, 'w, 'pr) changeset_impl \<Rightarrow>
   ('b, 'd, 'c, 'o, 'e, 'w, 'pr) changeset_impl" where
  "ChangeSetImpl_WithPostHooks hooks ccs = ccs\<lparr>ci_postHooks := ci_postHooks ccs @ hooks\<rparr>"

definition ChangeSetImpl_WithPostProposalHooks ::
  "('b, 'd, 'c, 'pr, 'e, 'w) proposal_hook list \<Rightarrow> ('b, 'd, 'c, 'o, 'e, 'w, 'pr) changeset_impl \<Rightarrow>
   ('b, 'd, 'c, 'o, 'e, 'w, 'pr) changeset_impl" where
  "ChangeSetImpl_WithPostProposalHooks hooks ccs =
     ccs\<lparr>ci_postProposalHooks := ci_postProposalHooks ccs @ hooks\<rparr>"

section \<open>Post-processing\<close>

type_synonym ('b, 'd, 'o, 'e, 'w) post_processor =
  "('b, 'd) environment \<Rightarrow> 'o option \<Rightarrow> 'w \<Rightarrow> ('o option \<times> 'e cs_error option) \<times> 'w"

record ('b, 'd, 'c, 'o, 'e, 'w, 'pr) post_processing_impl =
  pc_changeset :: "('b, 'd, 'c, 'o, 'e, 'w, 'pr) changeset_impl"
  pc_postProcessor :: "('b, 'd, 'o, 'e, 'w) post_processor"
  pc_preHooks :: "('b, 'd, 'c, 'e, 'w) pre_hook list"
  pc_postHooks :: "('b, 'd, 'c, 'o, 'e, 'w) post_hook list"
  pc_postProposalHooks :: "('b, 'd, 'c, 'pr, 'e, 'w) proposal_hook list"

definition ThenWith ::
  "('b, 'd, 'o, 'e, 'w) post_processor \<Rightarrow> ('b, 'd, 'c, 'o, 'e, 'w, 'pr) changeset_impl \<Rightarrow>
   ('b, 'd, 'c, 'o, 'e, 'w, 'pr) post_processing_impl" where
  "ThenWith postProcessor ccs =
     \<lparr>pc_changeset = ccs, pc_postProcessor = postProcessor, pc_preHooks = ci_preHooks ccs,
      pc_postHooks = ci_postHooks ccs, pc_postProposalHooks = ci_postProposalHooks ccs\<rparr>"

definition PostProcessing_Apply ::
  "('b, 'd, 'c, 'o, 'e, 'w, 'pr) post_processing_impl \<Rightarrow> ('b, 'd) environment \<Rightarrow> 'w \<Rightarrow> ('o option \<times> 'e cs_error option) \<times> 'w" where
  "PostProcessing_Apply ccs env w =
     (case ChangeSetImpl_Apply (pc_changeset ccs) env w of
        ((output, err), w) \<Rightarrow>
          if err \<noteq> None then ((output, err), w) else pc_postProcessor ccs env output w)"

definition PostProcessing_applyWithInput ::
  "('b, 'd, 'c, 'o, 'e, 'w, 'pr) post_processing_impl \<Rightarrow> ('b, 'd) environment \<Rightarrow> 'c \<Rightarrow> 'w \<Rightarrow> ('o option \<times> 'e cs_error option) \<times> 'w" where
  "PostProcessing_applyWithInput ccs env input w =
     (case ChangeSetImpl_applyWithInput (pc_changeset ccs) env input w of
        ((output, err), w) \<Rightarrow>
          if err \<noteq> None then ((output, err), w) else pc_postProcessor ccs env output w)"

definition PostProcessing_WithPreHooks ::
  "('b, 'd, 'c, 'e, 'w) pre_hook list \<Rightarrow> ('b, 'd, 'c, 'o, 'e, 'w, 'pr) post_processing_impl \<Rightarrow>
   ('b, 'd, 'c, 'o, 'e, 'w, 'pr) post_processing_impl" where
  "PostProcessing_WithPreHooks hooks ccs = ccs\<lparr>pc_preHooks := pc_preHooks ccs @ hooks\<rparr>"

definition PostProcessing_WithPostHooks ::
  "('b, 'd, 'c, 'o, 'e, 'w) post_hook list \<Rightarrow> ('b, 'd, 'c, 'o, 'e, 'w, 'pr) post_processing_impl \<Rightarrow>
   ('b, 'd, 'c, 'o, 'e, 'w, 'pr) post_processing_impl" where
  "PostProcessing_WithPostHooks hooks ccs = ccs\<lparr>pc_postHooks := pc_postHooks ccs @ hooks\<rparr>"

definition PostProcessing_WithPostProposalHooks ::
  "('b, 'd, 'c, 'pr, 'e, 'w) proposal_hook list \<Rightarrow> ('b, 'd, 'c, 'o, 'e, 'w, 'pr) post_processing_impl \<Rightarrow>
   ('b, 'd, 'c, 'o, 'e, 'w, 'pr) post_processing_impl" where
  "PostProcessing_WithPostProposalHooks hooks ccs =
     ccs\<lparr>pc_postProposalHooks := pc_postProposalHooks ccs @ hooks\<rparr>"

section \<open>The interface ChangeSet\<close>

datatype ('b, 'd, 'c, 'o, 'e, 'w, 'pr) change_set =
    Configured "('b, 'd, 'c, 'o, 'e, 'w, 'pr) changeset_impl"
  | PostProcessing "('b, 'd, 'c, 'o, 'e, 'w, 'pr) post_processing_impl"

fun cs_applyWithInput ::
  "('b, 'd, 'c, 'o, 'e, 'w, 'pr) change_set \<Rightarrow> ('b, 'd) environment \<Rightarrow> 'c \<Rightarrow> 'w \<Rightarrow> ('o option \<times> 'e cs_error option) \<times> 'w" where
  "cs_applyWithInput (Configured ccs) env input w = ChangeSetImpl_applyWithInput ccs env input w"
| "cs_applyWithInput (PostProcessing ccs) env input w = PostProcessing_applyWithInput ccs env input w"

fun cs_resolvedInput :: "('b, 'd, 'c, 'o, 'e, 'w, 'pr) change_set \<Rightarrow> string \<Rightarrow> ('c, 'e, 'w) provider" where
  "cs_resolvedInput (Configured ccs) input = ChangeSetImpl_resolvedInput ccs input"
| "cs_resolvedInput (PostProcessing ccs) input = ChangeSetImpl_resolvedInput (pc_changeset ccs) input"

fun cs_Configurations :: "('b, 'd, 'c, 'o, 'e, 'w, 'pr) change_set \<Rightarrow> 'e cs_error + u64 list option" where
  "cs_Configurations (Configured ccs) = ChangeSetImpl_Configurations ccs"
| "cs_Configurations (PostProcessing ccs) = ChangeSetImpl_Configurations (pc_changeset ccs)"

section \<open>The registry\<close>

record changeset_config =
  cfg_ChainsToLoad :: "u64 list option"
  cfg_WithoutJD :: bool
  cfg_OperationRegistry :: "nat option"

text \<open>A call without arguments passes a nil slice, \<open>None\<close>.\<close>

definition OnlyLoadChainsFor :: "u64 list option \<Rightarrow> changeset_config \<Rightarrow> changeset_config" where
  "OnlyLoadChainsFor chainselectors c =
     c\<lparr>cfg_ChainsToLoad := (case chainselectors of None \<Rightarrow> Some [] | Some cs \<Rightarrow> Some cs)\<rparr>"

definition WithoutJD :: "changeset_config \<Rightarrow> changeset_config" where
  "WithoutJD c = c\<lparr>cfg_WithoutJD := True\<rparr>"

text \<open>The operation registry is a pointer, here its address.\<close>

definition WithOperationRegistry :: "nat \<Rightarrow> changeset_config \<Rightarrow> changeset_config" where
  "WithOperationRegistry registry c = c\<lparr>cfg_OperationRegistry := Some registry\<rparr>"

record ('b, 'd, 'c, 'o, 'e, 'w, 'pr) registry_entry =
  re_changeset :: "('b, 'd, 'c, 'o, 'e, 'w, 'pr) change_set"
  re_options :: changeset_config
  re_preHooks :: "('b, 'd, 'c, 'e, 'w) pre_hook list"
  re_postHooks :: "('b, 'd, 'c, 'o, 'e, 'w) post_hook list"
  re_postProposalHooks :: "('b, 'd, 'c, 'pr, 'e, 'w) proposal_hook list"

definition newRegistryEntry ::
  "('b, 'd, 'c, 'o, 'e, 'w, 'pr) change_set \<Rightarrow> changeset_config \<Rightarrow> ('b, 'd, 'c, 'o, 'e, 'w, 'pr) registry_entry" where
  "newRegistryEntry c opts =
     (case c of
        Configured hc \<Rightarrow>
          \<lparr>re_changeset = c, re_options = opts, re_preHooks = ci_preHooks hc, re_postHooks = ci_postHooks hc,
           re_postProposalHooks = ci_postProposalHooks hc\<rparr>
      | PostProcessing hc \<Rightarrow>
          \<lparr>re_changeset = c, re_options = opts, re_preHooks = pc_preHooks hc, re_postHooks = pc_postHooks hc,
           re_postProposalHooks = pc_postProposalHooks hc\<rparr>)"

record ('b, 'd, 'c, 'o, 'e, 'w, 'pr) changesets_registry =
  cr_entries :: "string \<rightharpoonup> ('b, 'd, 'c, 'o, 'e, 'w, 'pr) registry_entry"
  cr_keyHistory :: "string list"
  cr_globalPreHooks :: "('b, 'd, 'c, 'e, 'w) pre_hook list"
  cr_globalPostHooks :: "('b, 'd, 'c, 'o, 'e, 'w) post_hook list"
  cr_globalPostProposalHooks :: "('b, 'd, 'c, 'pr, 'e, 'w) proposal_hook list"

definition NewChangesetsRegistry :: "('b, 'd, 'c, 'o, 'e, 'w, 'pr) changesets_registry" where
  "NewChangesetsRegistry =
     \<lparr>cr_entries = Map.empty, cr_keyHistory = [], cr_globalPreHooks = [], cr_globalPostHooks = [],
      cr_globalPostProposalHooks = []\<rparr>"

definition SetValidate ::
  "bool \<Rightarrow> ('b, 'd, 'c, 'o, 'e, 'w, 'pr) changesets_registry \<Rightarrow> ('b, 'd, 'c, 'o, 'e, 'w, 'pr) changesets_registry" where
  "SetValidate validate r = r"

definition AddGlobalPreHooks ::
  "('b, 'd, 'c, 'e, 'w) pre_hook list \<Rightarrow> ('b, 'd, 'c, 'o, 'e, 'w, 'pr) changesets_registry \<Rightarrow>
   ('b, 'd, 'c, 'o, 'e, 'w, 'pr) changesets_registry" where
  "AddGlobalPreHooks hooks r = r\<lparr>cr_globalPreHooks := cr_globalPreHooks r @ hooks\<rparr>"

definition AddGlobalPostHooks ::
  "('b, 'd, 'c, 'o, 'e, 'w) post_hook list \<Rightarrow> ('b, 'd, 'c, 'o, 'e, 'w, 'pr) changesets_registry \<Rightarrow>
   ('b, 'd, 'c, 'o, 'e, 'w, 'pr) changesets_registry" where
  "AddGlobalPostHooks hooks r = r\<lparr>cr_globalPostHooks := cr_globalPostHooks r @ hooks\<rparr>"

definition AddGlobalPostProposalHooks ::
  "('b, 'd, 'c, 'pr, 'e, 'w) proposal_hook list \<Rightarrow> ('b, 'd, 'c, 'o, 'e, 'w, 'pr) changesets_registry \<Rightarrow>
   ('b, 'd, 'c, 'o, 'e, 'w, 'pr) changesets_registry" where
  "AddGlobalPostProposalHooks hooks r =
     r\<lparr>cr_globalPostProposalHooks := cr_globalPostProposalHooks r @ hooks\<rparr>"

definition ChangesetsRegistry_Add ::
  "string \<Rightarrow> ('b, 'd, 'c, 'o, 'e, 'w, 'pr) change_set \<Rightarrow> (changeset_config \<Rightarrow> changeset_config) list \<Rightarrow>
   ('b, 'd, 'c, 'o, 'e, 'w, 'pr) changesets_registry \<Rightarrow> ('b, 'd, 'c, 'o, 'e, 'w, 'pr) changesets_registry" where
  "ChangesetsRegistry_Add key cs opts r =
     (let options = fold (\<lambda>opt c. opt c) opts
            \<lparr>cfg_ChainsToLoad = None, cfg_WithoutJD = False, cfg_OperationRegistry = None\<rparr> in
      r\<lparr>cr_entries := (cr_entries r)(key \<mapsto> newRegistryEntry cs options),
        cr_keyHistory := cr_keyHistory r @ [key]\<rparr>)"

definition LatestKey :: "('b, 'd, 'c, 'o, 'e, 'w, 'pr) changesets_registry \<Rightarrow> 'e cs_error + string" where
  "LatestKey r =
     (if cr_keyHistory r = [] then Inl ErrNoChangesets
      else Inr (cr_keyHistory r ! (length (cr_keyHistory r) - 1)))"

definition ListKeys :: "('b, 'd, 'c, 'o, 'e, 'w, 'pr) changesets_registry \<Rightarrow> string list" where
  "ListKeys r = cr_keyHistory r"

definition getApplyEntryLocked ::
  "string \<Rightarrow> ('b, 'd, 'c, 'o, 'e, 'w, 'pr) changesets_registry \<Rightarrow> 'e cs_error + ('b, 'd, 'c, 'o, 'e, 'w, 'pr) registry_entry" where
  "getApplyEntryLocked key r =
     (case cr_entries r key of None \<Rightarrow> Inl (ErrChangesetNotFound key) | Some entry \<Rightarrow> Inr entry)"

record ('b, 'd, 'c, 'o, 'e, 'w, 'pr) apply_snapshot =
  as_registryEntry :: "('b, 'd, 'c, 'o, 'e, 'w, 'pr) registry_entry"
  as_globalPreHooks :: "('b, 'd, 'c, 'e, 'w) pre_hook list"
  as_globalPostHooks :: "('b, 'd, 'c, 'o, 'e, 'w) post_hook list"
  as_globalPostProposalHooks :: "('b, 'd, 'c, 'pr, 'e, 'w) proposal_hook list"

definition getApplySnapshot ::
  "string \<Rightarrow> ('b, 'd, 'c, 'o, 'e, 'w, 'pr) changesets_registry \<Rightarrow> 'e cs_error + ('b, 'd, 'c, 'o, 'e, 'w, 'pr) apply_snapshot" where
  "getApplySnapshot key r =
     (case getApplyEntryLocked key r of
        Inl e \<Rightarrow> Inl e
      | Inr entry \<Rightarrow>
          Inr \<lparr>as_registryEntry = entry, as_globalPreHooks = cr_globalPreHooks r,
               as_globalPostHooks = cr_globalPostHooks r, as_globalPostProposalHooks = cr_globalPostProposalHooks r\<rparr>)"

definition GetChangesetOptions ::
  "string \<Rightarrow> ('b, 'd, 'c, 'o, 'e, 'w, 'pr) changesets_registry \<Rightarrow> 'e cs_error + changeset_config" where
  "GetChangesetOptions key r =
     (case cr_entries r key of None \<Rightarrow> Inl (ErrChangesetNotFound key) | Some entry \<Rightarrow> Inr (re_options entry))"

definition GetResolvedInput ::
  "string \<Rightarrow> string \<Rightarrow> ('b, 'd, 'c, 'o, 'e, 'w, 'pr) changesets_registry \<Rightarrow> ('c, 'e, 'w) provider" where
  "GetResolvedInput key input r w =
     (case cr_entries r key of
        None \<Rightarrow> (Inl (ErrChangesetNotFound key), w)
      | Some entry \<Rightarrow> cs_resolvedInput (re_changeset entry) input w)"

definition GetConfigurations ::
  "string \<Rightarrow> ('b, 'd, 'c, 'o, 'e, 'w, 'pr) changesets_registry \<Rightarrow> 'e cs_error + u64 list option" where
  "GetConfigurations key r =
     (case cr_entries r key of
        None \<Rightarrow> Inl (ErrChangesetNotFound key)
      | Some entry \<Rightarrow> cs_Configurations (re_changeset entry))"

section \<open>Applying a changeset\<close>

text \<open>Running hooks in order, up to the first error, which \<open>wrap\<close> names.\<close>

fun run_hooks ::
  "(string \<Rightarrow> 'e cs_error \<Rightarrow> 'e cs_error) \<Rightarrow> 'p \<Rightarrow> ('p, 'e, 'w) hook list \<Rightarrow> 'w \<Rightarrow> 'e cs_error option \<times> 'w" where
  "run_hooks wrap params [] w = (None, w)"
| "run_hooks wrap params (h # hs) w =
     (case ExecuteHook h (\<lambda>ctx w. hook_Func h ctx params w) w of
        (Some err, w) \<Rightarrow> (Some (wrap (hook_Name h) err), w)
      | (None, w) \<Rightarrow> run_hooks wrap params hs w)"

text \<open>As \<open>run_hooks\<close>, but after a failed changeset errors are logged only.\<close>

fun run_post_hooks ::
  "(string \<Rightarrow> 'e cs_error \<Rightarrow> 'e cs_error) \<Rightarrow> 'e cs_error option \<Rightarrow> 'p \<Rightarrow> ('p, 'e, 'w) hook list \<Rightarrow> 'w \<Rightarrow>
   'e cs_error option \<times> 'w" where
  "run_post_hooks wrap applyErr params [] w = (None, w)"
| "run_post_hooks wrap applyErr params (h # hs) w =
     (case ExecuteHook h (\<lambda>ctx w. hook_Func h ctx params w) w of
        (Some err, w) \<Rightarrow>
          if applyErr \<noteq> None then run_post_hooks wrap applyErr params hs w
          else (Some (wrap (hook_Name h) err), w)
      | (None, w) \<Rightarrow> run_post_hooks wrap applyErr params hs w)"

definition runPreHooks ::
  "('b, 'e, 'w) read_only \<Rightarrow> ('b, 'd) environment \<Rightarrow> string \<Rightarrow> 'c \<Rightarrow> ('b, 'd, 'c, 'o, 'e, 'w, 'pr) apply_snapshot \<Rightarrow>
   'w \<Rightarrow> 'e cs_error option \<times> 'w" where
  "runPreHooks ReadOnly e key resolvedInput snapshot w =
     (case ReadOnly (env_BlockChains e) w of
        (Inl err, w) \<Rightarrow> (Some (ErrReadOnlyPre err), w)
      | (Inr readOnlyChains, w) \<Rightarrow>
          let preParams = \<lparr>pre_Env = e\<lparr>env_BlockChains := readOnlyChains\<rparr>, pre_ChangesetKey = key, pre_Config = resolvedInput\<rparr> in
          (case run_hooks ErrGlobalPreHook preParams (as_globalPreHooks snapshot) w of
             (Some err, w) \<Rightarrow> (Some err, w)
           | (None, w) \<Rightarrow> run_hooks ErrChangesetPreHook preParams (re_preHooks (as_registryEntry snapshot)) w))"

definition runPostHooks ::
  "('b, 'e, 'w) read_only \<Rightarrow> ('b, 'd) environment \<Rightarrow> string \<Rightarrow> 'c \<Rightarrow> 'o option \<Rightarrow> 'e cs_error option \<Rightarrow>
   ('b, 'd, 'c, 'o, 'e, 'w, 'pr) apply_snapshot \<Rightarrow> 'w \<Rightarrow> 'e cs_error option \<times> 'w" where
  "runPostHooks ReadOnly e key resolvedInput output applyErr snapshot w =
     (case ReadOnly (env_BlockChains e) w of
        (Inl err, w) \<Rightarrow> (Some (ErrReadOnlyPost err), w)
      | (Inr readOnlyChains, w) \<Rightarrow>
          let postParams = \<lparr>post_Env = e\<lparr>env_BlockChains := readOnlyChains\<rparr>, post_ChangesetKey = key,
                post_Config = resolvedInput, post_Output = output, post_Err = applyErr\<rparr> in
          (case run_post_hooks ErrChangesetPostHook applyErr postParams (re_postHooks (as_registryEntry snapshot)) w of
             (Some err, w) \<Rightarrow> (Some err, w)
           | (None, w) \<Rightarrow> run_post_hooks ErrGlobalPostHook applyErr postParams (as_globalPostHooks snapshot) w))"

record apply_config =
  ac_inputStr :: string
  ac_runHooks :: bool

definition WithInput :: "string \<Rightarrow> apply_config \<Rightarrow> apply_config" where
  "WithInput inputStr cfg = cfg\<lparr>ac_inputStr := inputStr\<rparr>"

definition WithoutHooks :: "apply_config \<Rightarrow> apply_config" where
  "WithoutHooks cfg = cfg\<lparr>ac_runHooks := False\<rparr>"

definition apply_config_of :: "(apply_config \<Rightarrow> apply_config) list \<Rightarrow> apply_config" where
  "apply_config_of opts = fold (\<lambda>opt c. opt c) opts \<lparr>ac_inputStr = [], ac_runHooks = True\<rparr>"

definition ChangesetsRegistry_Apply ::
  "('b, 'e, 'w) read_only \<Rightarrow> string \<Rightarrow> ('b, 'd) environment \<Rightarrow> (apply_config \<Rightarrow> apply_config) list \<Rightarrow>
   ('b, 'd, 'c, 'o, 'e, 'w, 'pr) changesets_registry \<Rightarrow> 'w \<Rightarrow> ('o option \<times> 'e cs_error option) \<times> 'w" where
  "ChangesetsRegistry_Apply ReadOnly key e opts r w =
     (let cfg = apply_config_of opts in
      case getApplySnapshot key r of
        Inl err \<Rightarrow> ((None, Some err), w)
      | Inr snapshot \<Rightarrow>
          (case cs_resolvedInput (re_changeset (as_registryEntry snapshot)) (ac_inputStr cfg) w of
             (Inl err, w) \<Rightarrow> ((None, Some (ErrConfiguration err)), w)
           | (Inr resolvedInput, w) \<Rightarrow>
               (case (if ac_runHooks cfg then runPreHooks ReadOnly e key resolvedInput snapshot w else (None, w)) of
                  (Some err, w) \<Rightarrow> ((None, Some err), w)
                | (None, w) \<Rightarrow>
                    (case cs_applyWithInput (re_changeset (as_registryEntry snapshot)) e resolvedInput w of
                       ((output, applyErr), w) \<Rightarrow>
                         (case (if ac_runHooks cfg
                                then runPostHooks ReadOnly e key resolvedInput output applyErr snapshot w
                                else (None, w)) of
                            (Some err, w) \<Rightarrow> ((None, Some err), w)
                          | (None, w) \<Rightarrow> ((output, applyErr), w))))))"

text \<open>
  Hooks of an executed proposal; on a fork the chains stay writable. The proposal parameter stands
  for the proposal together with the reports of its execution, which are handed on as they are.
\<close>

definition RunProposalHooks ::
  "('b, 'e, 'w) read_only \<Rightarrow> string \<Rightarrow> ('b, 'd) environment \<Rightarrow> 'pr \<Rightarrow> 'c \<Rightarrow> 'c \<Rightarrow> string \<Rightarrow> string option \<Rightarrow>
   ('b, 'd, 'c, 'o, 'e, 'w, 'pr) changesets_registry \<Rightarrow> 'w \<Rightarrow> 'e cs_error option \<times> 'w" where
  "RunProposalHooks ReadOnly key e proposal input config execError forkCtx r w =
     (case getApplySnapshot key r of
        Inl err \<Rightarrow> (Some err, w)
      | Inr snapshot \<Rightarrow>
          (case (if forkCtx = None then ReadOnly (env_BlockChains e) w else (Inr (env_BlockChains e), w)) of
             (Inl err, w) \<Rightarrow> (Some (ErrReadOnlyProposal err), w)
           | (Inr blockChains, w) \<Rightarrow>
               let params = \<lparr>pp_Env = e\<lparr>env_BlockChains := blockChains\<rparr>, pp_ForkContext = forkCtx,
                     pp_ChangesetKey = key, pp_Proposal = proposal, pp_Config = config, pp_Input = input, pp_Err = execError\<rparr> in
               (case run_hooks ErrChangesetProposalHook params (re_postProposalHooks (as_registryEntry snapshot)) w of
                  (Some err, w) \<Rightarrow> (Some err, w)
                | (None, w) \<Rightarrow> run_hooks ErrGlobalProposalHook params (as_globalPostProposalHooks snapshot) w)))"

section \<open>The order of hooks\<close>

text \<open>
  Hooks that log their name and fail exactly when their name is in a set; a hook stops the run when
  it fails and its policy is not \<open>Warn\<close>.
\<close>

definition logging :: "string set \<Rightarrow> ('p, 'e, string list) hook \<Rightarrow> bool" where
  "logging F h \<longleftrightarrow> (\<forall>ctx p w. \<exists>e. hook_Func h ctx p w = (if hook_Name h \<in> F then Some e else None, w @ [hook_Name h]))"

definition stops :: "string set \<Rightarrow> ('p, 'e, 'w) hook \<Rightarrow> bool" where
  "stops F h \<longleftrightarrow> hook_Name h \<in> F \<and> hook_FailurePolicy h \<noteq> Warn"

fun up_to :: "('a \<Rightarrow> bool) \<Rightarrow> 'a list \<Rightarrow> 'a list" where
  "up_to p [] = []"
| "up_to p (x # xs) = x # (if p x then [] else up_to p xs)"

definition hook_names :: "('p, 'e, 'w) hook list \<Rightarrow> string list" where
  "hook_names hs = map hook_Name hs"

lemma hook_names_simps [simp]:
  "hook_names [] = []" "hook_names (h # hs) = hook_Name h # hook_names hs"
  "hook_names (hs @ hs') = hook_names hs @ hook_names hs'"
  by (simp_all add: hook_names_def)

lemma up_to_append: "up_to p (xs @ ys) = up_to p xs @ (if \<exists>x \<in> set xs. p x then [] else up_to p ys)"
  by (induction xs) auto

lemma ExecuteHook_logging:
  assumes "logging F h"
  shows "\<exists>e. ExecuteHook h (\<lambda>ctx w. hook_Func h ctx p w) w = (if stops F h then Some e else None, w @ [hook_Name h])"
proof -
  obtain e where "hook_Func h (if hook_Timeout h = 0 then DefaultHookTimeout else hook_Timeout h) p w =
      (if hook_Name h \<in> F then Some e else None, w @ [hook_Name h])"
    using assms unfolding logging_def by blast
  then show ?thesis by (auto simp: ExecuteHook_def Let_def stops_def)
qed

lemma run_hooks_logging:
  "\<forall>h \<in> set hs. logging F h \<Longrightarrow>
   \<exists>e. run_hooks wrap p hs w = (if \<exists>h \<in> set hs. stops F h then Some e else None, w @ hook_names (up_to (stops F) hs))"
proof (induction hs arbitrary: w)
  case (Cons h hs)
  obtain e where e: "ExecuteHook h (\<lambda>ctx w. hook_Func h ctx p w) w = (if stops F h then Some e else None, w @ [hook_Name h])"
    using ExecuteHook_logging [of F h p w] Cons.prems by auto
  obtain e' where "run_hooks wrap p hs (w @ [hook_Name h]) =
      (if \<exists>h \<in> set hs. stops F h then Some e' else None, (w @ [hook_Name h]) @ hook_names (up_to (stops F) hs))"
    using Cons.IH [of "w @ [hook_Name h]"] Cons.prems by auto
  then show ?case using e by (cases "stops F h") auto
qed simp

lemma run_post_hooks_logging:
  "\<forall>h \<in> set hs. logging F h \<Longrightarrow>
   \<exists>e. run_post_hooks wrap err p hs w =
     (if err = None \<and> (\<exists>h \<in> set hs. stops F h) then Some e else None,
      w @ hook_names (if err = None then up_to (stops F) hs else hs))"
proof (induction hs arbitrary: w)
  case (Cons h hs)
  obtain e where e: "ExecuteHook h (\<lambda>ctx w. hook_Func h ctx p w) w = (if stops F h then Some e else None, w @ [hook_Name h])"
    using ExecuteHook_logging [of F h p w] Cons.prems by auto
  obtain e' where "run_post_hooks wrap err p hs (w @ [hook_Name h]) =
     (if err = None \<and> (\<exists>h \<in> set hs. stops F h) then Some e' else None,
      (w @ [hook_Name h]) @ hook_names (if err = None then up_to (stops F) hs else hs))"
    using Cons.IH [of "w @ [hook_Name h]"] Cons.prems by auto
  then show ?case using e by (cases "stops F h"; cases err) auto
qed simp

text \<open>The log the documented order of execution gives.\<close>

definition expected_log ::
  "string set \<Rightarrow> string \<Rightarrow> bool \<Rightarrow> ('b, 'd, 'c, 'o, 'e, 'w, 'pr) apply_snapshot \<Rightarrow> string list" where
  "expected_log F applied failed snapshot =
     (let pre = as_globalPreHooks snapshot @ re_preHooks (as_registryEntry snapshot);
          postc = re_postHooks (as_registryEntry snapshot) @ as_globalPostHooks snapshot in
      hook_names (up_to (stops F) pre) @
      (if \<exists>h \<in> set pre. stops F h then []
       else applied # hook_names (if failed then postc else up_to (stops F) postc)))"

lemma runPreHooks_logging:
  assumes "\<And>b w. ReadOnly b w = (Inr (ro b), w)"
    and "\<forall>h \<in> set (as_globalPreHooks snapshot @ re_preHooks (as_registryEntry snapshot)). logging F h"
  shows "\<exists>e. runPreHooks ReadOnly env key c snapshot w =
    (if \<exists>h \<in> set (as_globalPreHooks snapshot @ re_preHooks (as_registryEntry snapshot)). stops F h then Some e else None,
     w @ hook_names (up_to (stops F) (as_globalPreHooks snapshot @ re_preHooks (as_registryEntry snapshot))))"
proof -
  let ?g = "as_globalPreHooks snapshot" and ?p = "re_preHooks (as_registryEntry snapshot)"
  let ?params = "\<lparr>pre_Env = env\<lparr>env_BlockChains := ro (env_BlockChains env)\<rparr>, pre_ChangesetKey = key, pre_Config = c\<rparr>"
  obtain e1 where g: "run_hooks ErrGlobalPreHook ?params ?g w =
      (if \<exists>h \<in> set ?g. stops F h then Some e1 else None, w @ hook_names (up_to (stops F) ?g))"
    using run_hooks_logging [of ?g F] assms(2) by fastforce
  obtain e2 where p: "run_hooks ErrChangesetPreHook ?params ?p (w @ hook_names (up_to (stops F) ?g)) =
      (if \<exists>h \<in> set ?p. stops F h then Some e2 else None,
       (w @ hook_names (up_to (stops F) ?g)) @ hook_names (up_to (stops F) ?p))"
    using run_hooks_logging [of ?p F] assms(2) by fastforce
  show ?thesis
    using g p by (cases "\<exists>h \<in> set ?g. stops F h") (auto simp: runPreHooks_def assms(1) Let_def up_to_append)
qed

lemma runPostHooks_logging:
  assumes "\<And>b w. ReadOnly b w = (Inr (ro b), w)"
    and "\<forall>h \<in> set (re_postHooks (as_registryEntry snapshot) @ as_globalPostHooks snapshot). logging F h"
  shows "\<exists>e. runPostHooks ReadOnly env key c out err snapshot w =
    (if err = None \<and> (\<exists>h \<in> set (re_postHooks (as_registryEntry snapshot) @ as_globalPostHooks snapshot). stops F h)
     then Some e else None,
     w @ hook_names (if err \<noteq> None then re_postHooks (as_registryEntry snapshot) @ as_globalPostHooks snapshot
       else up_to (stops F) (re_postHooks (as_registryEntry snapshot) @ as_globalPostHooks snapshot)))"
proof -
  let ?g = "as_globalPostHooks snapshot" and ?p = "re_postHooks (as_registryEntry snapshot)"
  let ?params = "\<lparr>post_Env = env\<lparr>env_BlockChains := ro (env_BlockChains env)\<rparr>, post_ChangesetKey = key,
    post_Config = c, post_Output = out, post_Err = err\<rparr>"
  obtain e1 where p: "run_post_hooks ErrChangesetPostHook err ?params ?p w =
      (if err = None \<and> (\<exists>h \<in> set ?p. stops F h) then Some e1 else None,
       w @ hook_names (if err = None then up_to (stops F) ?p else ?p))"
    using run_post_hooks_logging [of ?p F] assms(2) by fastforce
  let ?w = "w @ hook_names (if err = None then up_to (stops F) ?p else ?p)"
  obtain e2 where g: "run_post_hooks ErrGlobalPostHook err ?params ?g ?w =
      (if err = None \<and> (\<exists>h \<in> set ?g. stops F h) then Some e2 else None,
       ?w @ hook_names (if err = None then up_to (stops F) ?g else ?g))"
    using run_post_hooks_logging [of ?g F] assms(2) by fastforce
  show ?thesis
    using g p by (cases "\<exists>h \<in> set ?p. stops F h"; cases err) (auto simp: runPostHooks_def assms(1) Let_def up_to_append)
qed

text \<open>
  C10: the documented order of \<open>Apply\<close>, for hooks that log their names and a changeset that logs
  its own. Global pre-hooks run first, then those of the changeset, up to the first that stops the
  run; then the changeset, unless a pre-hook stopped it; then its post-hooks and the global ones, up
  to the first that stops, or all of them when the changeset failed. The changeset's error is never
  masked by a post-hook, and a failing hook that only warns changes nothing but the log.
\<close>

theorem Apply_runs_in_order:
  assumes "getApplySnapshot key r = Inr snapshot" "ac_runHooks (apply_config_of opts)"
    and "\<And>b w. ReadOnly b w = (Inr (ro b), w)"
    and "\<And>w. cs_resolvedInput (re_changeset (as_registryEntry snapshot)) (ac_inputStr (apply_config_of opts)) w = (Inr c, w)"
    and "\<And>w. cs_applyWithInput (re_changeset (as_registryEntry snapshot)) env c w = ((out, err), w @ [applied])"
    and "\<forall>h \<in> set (as_globalPreHooks snapshot @ re_preHooks (as_registryEntry snapshot)). logging F h"
    and "\<forall>h \<in> set (re_postHooks (as_registryEntry snapshot) @ as_globalPostHooks snapshot). logging F h"
  shows "\<exists>e. ChangesetsRegistry_Apply ReadOnly key env opts r log =
    (if \<exists>h \<in> set (as_globalPreHooks snapshot @ re_preHooks (as_registryEntry snapshot)). stops F h then (None, Some e)
     else if err = None \<and> (\<exists>h \<in> set (re_postHooks (as_registryEntry snapshot) @ as_globalPostHooks snapshot). stops F h)
       then (None, Some e)
     else (out, err),
     log @ expected_log F applied (err \<noteq> None) snapshot)"
proof -
  let ?pre = "as_globalPreHooks snapshot @ re_preHooks (as_registryEntry snapshot)"
  let ?post = "re_postHooks (as_registryEntry snapshot) @ as_globalPostHooks snapshot"
  obtain e1 where pre: "runPreHooks ReadOnly env key c snapshot log =
      (if \<exists>h \<in> set ?pre. stops F h then Some e1 else None, log @ hook_names (up_to (stops F) ?pre))"
    using runPreHooks_logging [where ReadOnly = ReadOnly and ro = ro and snapshot = snapshot and F = F, OF assms(3,6)] by blast
  show ?thesis
  proof (cases "\<exists>h \<in> set ?pre. stops F h")
    case True
    then show ?thesis using pre assms(1,2,4)
      by (auto simp: ChangesetsRegistry_Apply_def Let_def expected_log_def)
  next
    case False
    let ?log = "log @ hook_names (up_to (stops F) ?pre) @ [applied]"
    obtain e2 where after: "runPostHooks ReadOnly env key c out err snapshot ?log =
        (if err = None \<and> (\<exists>h \<in> set ?post. stops F h) then Some e2 else None,
         ?log @ hook_names (if err \<noteq> None then ?post else up_to (stops F) ?post))"
      using runPostHooks_logging [where ReadOnly = ReadOnly and ro = ro and snapshot = snapshot and F = F, OF assms(3,7)] by blast
    have start: "ChangesetsRegistry_Apply ReadOnly key env opts r log =
        (case runPostHooks ReadOnly env key c out err snapshot ?log of
           (Some e, w) \<Rightarrow> ((None, Some e), w) | (None, w) \<Rightarrow> ((out, err), w))"
      using False pre assms(1,2,4,5) by (simp add: ChangesetsRegistry_Apply_def Let_def)
    show ?thesis
      unfolding start after using False by (auto simp: expected_log_def Let_def)
  qed
qed

text \<open>A closed registry: a global pre-hook, and a post-hook that fails after a failing changeset.\<close>

definition log_hook :: "string \<Rightarrow> int \<Rightarrow> ('p, nat, string list) hook" where
  "log_hook name policy =
     \<lparr>hook_Name = name, hook_FailurePolicy = policy, hook_Timeout = 0,
      hook_Func = (\<lambda>ctx p w. (if name = ''bad'' then Some (ErrRaw 1) else None, w @ [name]))\<rparr>"

definition failing_changeset :: "(unit, unit, unit, unit, nat, string list, unit) changeset_impl" where
  "failing_changeset = WrappedChangeSet_With ()
     \<lparr>ws_verify = (\<lambda>env c w. (None, w)), ws_apply = (\<lambda>env c w. ((None, Some (ErrRaw 7)), w @ [''apply''])),
      ws_has_type = (\<lambda>_. True), ws_zero = ()\<rparr>"

definition example_registry :: "(unit, unit, unit, unit, nat, string list, unit) changesets_registry" where
  "example_registry =
     AddGlobalPreHooks [log_hook ''pre'' Abort]
       (ChangesetsRegistry_Add ''k'' (Configured (ChangeSetImpl_WithPostHooks [log_hook ''bad'' Abort] failing_changeset)) []
         NewChangesetsRegistry)"

definition example_environment :: "(unit, unit) environment" where
  "example_environment = \<lparr>env_Name = ''test'', env_BlockChains = (), env_DataStore = ()\<rparr>"

lemma log_hook_logging: "logging {''bad''} (log_hook name policy)"
  by (auto simp: logging_def log_hook_def)

theorem Apply_runs_in_order_witness:
  "ChangesetsRegistry_Apply (\<lambda>b w. (Inr b, w)) ''k'' example_environment [] example_registry [] =
     ((None, Some (ErrRaw 7)), [''pre'', ''apply'', ''bad''])"
proof -
  obtain snapshot where snapshot: "getApplySnapshot ''k'' example_registry = Inr snapshot"
    by (simp add: getApplySnapshot_def getApplyEntryLocked_def example_registry_def AddGlobalPreHooks_def
        ChangesetsRegistry_Add_def)
  then have parts: "as_globalPreHooks snapshot = [log_hook ''pre'' Abort]" "re_preHooks (as_registryEntry snapshot) = []"
    "re_postHooks (as_registryEntry snapshot) = [log_hook ''bad'' Abort]" "as_globalPostHooks snapshot = []"
    "re_changeset (as_registryEntry snapshot) =
       Configured (ChangeSetImpl_WithPostHooks [log_hook ''bad'' Abort] failing_changeset)"
    by (auto simp: getApplySnapshot_def getApplyEntryLocked_def example_registry_def AddGlobalPreHooks_def
        ChangesetsRegistry_Add_def newRegistryEntry_def Let_def ChangeSetImpl_WithPostHooks_def failing_changeset_def
        WrappedChangeSet_With_def configured_def NewChangesetsRegistry_def)
  have hooks: "ac_runHooks (apply_config_of [])" by (simp add: apply_config_of_def)
  have applies: "\<And>w. cs_resolvedInput (re_changeset (as_registryEntry snapshot)) (ac_inputStr (apply_config_of [])) w = (Inr (), w)"
    "\<And>w. cs_applyWithInput (re_changeset (as_registryEntry snapshot)) example_environment () w =
       ((None, Some (ErrRaw 7)), w @ [''apply''])"
    by (simp_all add: parts ChangeSetImpl_resolvedInput_def apply_config_of_def ChangeSetImpl_WithPostHooks_def
        failing_changeset_def WrappedChangeSet_With_def configured_def ChangeSetImpl_applyWithInput_def)
  have logs: "\<forall>h \<in> set (as_globalPreHooks snapshot @ re_preHooks (as_registryEntry snapshot)). logging {''bad''} h"
    "\<forall>h \<in> set (re_postHooks (as_registryEntry snapshot) @ as_globalPostHooks snapshot). logging {''bad''} h"
    by (simp_all add: parts log_hook_logging)
  have "\<exists>e. ChangesetsRegistry_Apply (\<lambda>b w. (Inr b, w)) ''k'' example_environment [] example_registry [] =
    (if \<exists>h \<in> set (as_globalPreHooks snapshot @ re_preHooks (as_registryEntry snapshot)). stops {''bad''} h then (None, Some e)
     else if Some (ErrRaw (7 :: nat)) = None \<and>
         (\<exists>h \<in> set (re_postHooks (as_registryEntry snapshot) @ as_globalPostHooks snapshot). stops {''bad''} h)
       then (None, Some e)
     else (None, Some (ErrRaw 7)),
     [] @ expected_log {''bad''} ''apply'' (Some (ErrRaw (7 :: nat)) \<noteq> None) snapshot)"
    by (rule Apply_runs_in_order [where ro = "\<lambda>b. b", OF snapshot hooks refl applies logs])
  then show ?thesis
    by (simp add: parts expected_log_def stops_def log_hook_def Abort_def Warn_def Let_def)
qed

lemma post_hooks_quiet: "fst (run_post_hooks wrap (Some err) p hs w) = None"
  by (induction hs arbitrary: w) (auto split: prod.splits option.splits)

lemma post_hooks_quiet': "run_post_hooks wrap (Some err) p hs w = (e, w') \<Longrightarrow> e = None"
  using post_hooks_quiet [of wrap err p hs w] by simp

text \<open>
  Whose error \<open>Apply\<close> returns when the changeset fails after its pre-hooks passed: the
  changeset's own, whatever the post-hooks do, unless making the chains read-only for the post-hooks
  fails; then that error is returned and the changeset's is lost.
\<close>

lemma Apply_error_of_failed_changeset:
  assumes "getApplySnapshot key r = Inr snapshot" "ac_runHooks (apply_config_of opts)"
    and "cs_resolvedInput (re_changeset (as_registryEntry snapshot)) (ac_inputStr (apply_config_of opts)) w = (Inr c, w1)"
    and "runPreHooks ReadOnly env key c snapshot w1 = (None, w2)"
    and "cs_applyWithInput (re_changeset (as_registryEntry snapshot)) env c w2 = ((out, Some err), w3)"
  shows "fst (ChangesetsRegistry_Apply ReadOnly key env opts r w) =
    (case fst (ReadOnly (env_BlockChains env) w3) of
       Inr _ \<Rightarrow> (out, Some err)
     | Inl e \<Rightarrow> (None, Some (ErrReadOnlyPost e)))"
proof -
  have "fst (runPostHooks ReadOnly env key c out (Some err) snapshot w3) =
      (case fst (ReadOnly (env_BlockChains env) w3) of Inr _ \<Rightarrow> None | Inl e \<Rightarrow> Some (ErrReadOnlyPost e))"
    by (auto simp: runPostHooks_def Let_def post_hooks_quiet split: prod.split sum.split option.split
        dest: post_hooks_quiet')
  then show ?thesis
    using assms by (auto simp: ChangesetsRegistry_Apply_def Let_def split: prod.splits sum.splits option.splits)
qed

lemma Apply_error_of_failed_changeset_witness:
  "fst (ChangesetsRegistry_Apply (\<lambda>b w. if w = [''pre'', ''apply''] then (Inl 9, w) else (Inr b, w)) ''k''
      example_environment [] example_registry []) = (None, Some (ErrReadOnlyPost 9))"
proof -
  let ?ro = "\<lambda>b w. if w = [''pre'', ''apply''] then (Inl 9, w) else (Inr b, w)"
  define snapshot where "snapshot = projr (getApplySnapshot ''k'' example_registry)"
  note defs = getApplySnapshot_def getApplyEntryLocked_def example_registry_def AddGlobalPreHooks_def
    ChangesetsRegistry_Add_def newRegistryEntry_def Let_def ChangeSetImpl_WithPostHooks_def failing_changeset_def
    WrappedChangeSet_With_def configured_def NewChangesetsRegistry_def
  have snapshot: "getApplySnapshot ''k'' example_registry = Inr snapshot" by (simp add: snapshot_def defs)
  have parts: "re_changeset (as_registryEntry snapshot) =
      Configured (ChangeSetImpl_WithPostHooks [log_hook ''bad'' Abort] failing_changeset)"
    "as_globalPreHooks snapshot = [log_hook ''pre'' Abort]" "re_preHooks (as_registryEntry snapshot) = []"
    by (simp_all add: snapshot_def defs)
  have hooks: "ac_runHooks (apply_config_of [])" by (simp add: apply_config_of_def)
  have input: "cs_resolvedInput (re_changeset (as_registryEntry snapshot)) (ac_inputStr (apply_config_of [])) [] = (Inr (), [])"
    by (simp add: parts ChangeSetImpl_resolvedInput_def apply_config_of_def defs)
  have pre: "runPreHooks ?ro example_environment ''k'' () snapshot [] = (None, [''pre''])"
    by (simp add: runPreHooks_def parts ExecuteHook_def log_hook_def Let_def)
  have applies: "cs_applyWithInput (re_changeset (as_registryEntry snapshot)) example_environment () [''pre''] =
      ((None, Some (ErrRaw 7)), [''pre'', ''apply''])"
    by (simp add: parts ChangeSetImpl_applyWithInput_def defs)
  show ?thesis
    using Apply_error_of_failed_changeset [where ReadOnly = ?ro, OF snapshot hooks input pre applies] by simp
qed

section \<open>The history of a registry\<close>

datatype ('b, 'd, 'c, 'o, 'e, 'w, 'pr) registry_op =
    AddOp string "('b, 'd, 'c, 'o, 'e, 'w, 'pr) change_set" "(changeset_config \<Rightarrow> changeset_config) list"
  | PreHooksOp "('b, 'd, 'c, 'e, 'w) pre_hook list"
  | PostHooksOp "('b, 'd, 'c, 'o, 'e, 'w) post_hook list"
  | ProposalHooksOp "('b, 'd, 'c, 'pr, 'e, 'w) proposal_hook list"
  | ValidateOp bool

text \<open>Registries a program can reach, with the calls that lead there, the last one first.\<close>

inductive registry_reach ::
  "('b, 'd, 'c, 'o, 'e, 'w, 'pr) registry_op list \<Rightarrow> ('b, 'd, 'c, 'o, 'e, 'w, 'pr) changesets_registry \<Rightarrow> bool" where
  reach_new: "registry_reach [] NewChangesetsRegistry"
| reach_add: "registry_reach ops r \<Longrightarrow> registry_reach (AddOp key cs opts # ops) (ChangesetsRegistry_Add key cs opts r)"
| reach_pre: "registry_reach ops r \<Longrightarrow> registry_reach (PreHooksOp hs # ops) (AddGlobalPreHooks hs r)"
| reach_post: "registry_reach ops r \<Longrightarrow> registry_reach (PostHooksOp ps # ops) (AddGlobalPostHooks ps r)"
| reach_proposal: "registry_reach ops r \<Longrightarrow> registry_reach (ProposalHooksOp qs # ops) (AddGlobalPostProposalHooks qs r)"
| reach_validate: "registry_reach ops r \<Longrightarrow> registry_reach (ValidateOp b # ops) (SetValidate b r)"

inductive_cases registry_reachE: "registry_reach (op # ops) r"

fun added :: "('b, 'd, 'c, 'o, 'e, 'w, 'pr) registry_op list \<Rightarrow>
  (string \<times> ('b, 'd, 'c, 'o, 'e, 'w, 'pr) registry_entry) list" where
  "added [] = []"
| "added (AddOp key cs opts # ops) =
     (key, newRegistryEntry cs (fold (\<lambda>opt c. opt c) opts
        \<lparr>cfg_ChainsToLoad = None, cfg_WithoutJD = False, cfg_OperationRegistry = None\<rparr>)) # added ops"
| "added (_ # ops) = added ops"

fun pre_hooks_added :: "('b, 'd, 'c, 'o, 'e, 'w, 'pr) registry_op list \<Rightarrow> ('b, 'd, 'c, 'e, 'w) pre_hook list" where
  "pre_hooks_added [] = []"
| "pre_hooks_added (PreHooksOp hs # ops) = pre_hooks_added ops @ hs"
| "pre_hooks_added (_ # ops) = pre_hooks_added ops"

lemma reach_contents:
  "registry_reach ops r \<Longrightarrow>
   cr_keyHistory r = rev (map fst (added ops)) \<and> cr_entries r = map_of (added ops) \<and>
   cr_globalPreHooks r = pre_hooks_added ops"
  by (induction rule: registry_reach.induct)
    (simp_all add: NewChangesetsRegistry_def ChangesetsRegistry_Add_def AddGlobalPreHooks_def AddGlobalPostHooks_def
      AddGlobalPostProposalHooks_def SetValidate_def Let_def)

text \<open>
  C37: what any sequence of calls leaves in a registry: the listed keys are the added ones in order,
  repeated when a key is added again, every listed key has an entry, an entry is that of the last
  addition under its key, the latest key is the last one added, and the global pre-hooks are all
  those given, in order.
\<close>

theorem registry_history:
  assumes "registry_reach ops r"
  shows "ListKeys r = rev (map fst (added ops)) \<and> set (ListKeys r) = dom (cr_entries r) \<and>
    (\<forall>key. cr_entries r key = map_of (added ops) key) \<and>
    (case added ops of [] \<Rightarrow> LatestKey r = Inl ErrNoChangesets | (key, _) # _ \<Rightarrow> LatestKey r = Inr key) \<and>
    cr_globalPreHooks r = pre_hooks_added ops"
proof -
  note c = reach_contents [OF assms]
  have "case added ops of [] \<Rightarrow> LatestKey r = Inl ErrNoChangesets | (key, _) # _ \<Rightarrow> LatestKey r = Inr key"
    using c by (auto simp: LatestKey_def nth_append split: list.split)
  then show ?thesis using c by (simp add: ListKeys_def dom_map_of_conv_image_fst)
qed

theorem registry_history_witness:
  "LatestKey (ChangesetsRegistry_Add ''k'' (Configured failing_changeset) [] NewChangesetsRegistry) = Inr ''k''"
  using registry_history [OF reach_add [OF reach_new, of "''k''" "Configured failing_changeset" "[]"]] by simp

end
