(* ===== verification/Job_Distributor.thy ===== *)
theory Job_Distributor
  imports Go_Prelude
begin

text \<open>
  The in-memory job distributor (\<open>offchain/jd/memory\<close>): label selectors
  (\<open>selector\_filter.go\<close>), job and node filters, identifiers and the client with its job, node
  and key services (\<open>memory\_client.go\<close>).

  The state is a record of maps. Loops over a map go through an order that the argument
  \<open>jd_env\<close> gives, which also holds the generator of identifiers (ksuid, read at a counter of the
  state), and the decoding of a job specification (TOML). Times are the argument \<open>now\<close>. A request is
  \<open>None\<close> when the pointer is nil. Responses point to the stored objects; here they are their
  values at the return. The mutex makes each method one step. Enumerations of the protocol keep the
  values the code names and have one constructor for the others.
\<close>

section \<open>Labels and selectors\<close>

record label =
  lb_Key :: string
  lb_Value :: "string option"

datatype selector_op = OpEQ | OpNOT_EQ | OpIN | OpNOT_IN | OpEXIST | OpNOT_EXIST | OpOther nat

record selector =
  sel_Key :: string
  sel_Op :: selector_op
  sel_Value :: "string option"

text \<open>The labels are a map to pointers: an absent key is \<open>None\<close>, a nil pointer \<open>Some None\<close>.\<close>

definition matchesSelector :: "(string \<rightharpoonup> string option) \<Rightarrow> selector \<Rightarrow> bool" where
  "matchesSelector labels selector =
     (case labels (sel_Key selector) of
        None \<Rightarrow> (case sel_Op selector of OpEXIST \<Rightarrow> False | OpNOT_EXIST \<Rightarrow> True | _ \<Rightarrow> False)
      | Some None \<Rightarrow> (case sel_Op selector of OpEXIST \<Rightarrow> True | OpNOT_EXIST \<Rightarrow> False | _ \<Rightarrow> False)
      | Some (Some labelValue) \<Rightarrow>
          (case sel_Op selector of
             OpEQ \<Rightarrow> (case sel_Value selector of None \<Rightarrow> False | Some v \<Rightarrow> labelValue = v)
           | OpNOT_EQ \<Rightarrow> (case sel_Value selector of None \<Rightarrow> False | Some v \<Rightarrow> labelValue \<noteq> v)
           | OpIN \<Rightarrow>
               (case sel_Value selector of
                  None \<Rightarrow> False
                | Some v \<Rightarrow> list_ex (\<lambda>value. trim_space value = labelValue) (split_on (CHR '','') v))
           | OpNOT_IN \<Rightarrow>
               (case sel_Value selector of
                  None \<Rightarrow> False
                | Some v \<Rightarrow> \<not> list_ex (\<lambda>value. trim_space value = labelValue) (split_on (CHR '','') v))
           | OpEXIST \<Rightarrow> True
           | OpNOT_EXIST \<Rightarrow> False
           | OpOther _ \<Rightarrow> False))"

definition labels_map :: "label list \<Rightarrow> (string \<rightharpoonup> string option)" where
  "labels_map labels = fold (\<lambda>label m. m(lb_Key label \<mapsto> lb_Value label)) labels Map.empty"

section \<open>Jobs, proposals and nodes\<close>

record job =
  job_Id :: string
  job_Uuid :: string
  job_NodeId :: string
  job_ProposalIds :: "string list"
  job_Labels :: "label list"
  job_CreatedAt :: int
  job_UpdatedAt :: int
  job_DeletedAt :: "int option"
  job_RollbackPolicyId :: "int option"

datatype proposal_status = StatusPROPOSED | StatusCANCELLED | StatusREVOKED | StatusOther nat

datatype delivery_status = DeliveryDELIVERED | DeliveryOther nat

record proposal =
  pr_Id :: string
  pr_Revision :: int
  pr_Status :: proposal_status
  pr_DeliveryStatus :: delivery_status
  pr_JobId :: string
  pr_Spec :: string
  pr_CreatedAt :: int
  pr_UpdatedAt :: int

record node =
  nd_Id :: string
  nd_Name :: string
  nd_PublicKey :: string
  nd_IsEnabled :: bool
  nd_IsConnected :: bool
  nd_Labels :: "label list"
  nd_Version :: string
  nd_CreatedAt :: int
  nd_UpdatedAt :: int

section \<open>Filters\<close>

record job_filter =
  jf_Ids :: "string list"
  jf_Uuids :: "string list"
  jf_NodeIds :: "string list"
  jf_Selectors :: "selector list"
  jf_IncludeDeleted :: bool

definition jobMatchesJobIds :: "job \<Rightarrow> string list \<Rightarrow> bool" where
  "jobMatchesJobIds job jobIds \<longleftrightarrow> job_Id job \<in> set jobIds"

definition jobMatchesUuids :: "job \<Rightarrow> string list \<Rightarrow> bool" where
  "jobMatchesUuids job uuids \<longleftrightarrow> job_Uuid job \<in> set uuids"

definition jobMatchesNodeIds :: "job \<Rightarrow> string list \<Rightarrow> bool" where
  "jobMatchesNodeIds job nodeIds \<longleftrightarrow> job_NodeId job \<in> set nodeIds"

definition jobMatchesDeletedFilter :: "job \<Rightarrow> job_filter \<Rightarrow> bool" where
  "jobMatchesDeletedFilter job flt = (if job_DeletedAt job \<noteq> None then jf_IncludeDeleted flt else True)"

definition jobMatchesSelector :: "job \<Rightarrow> selector \<Rightarrow> bool" where
  "jobMatchesSelector job selector = matchesSelector (labels_map (job_Labels job)) selector"

definition jobMatchesFilter :: "job \<Rightarrow> job_filter \<Rightarrow> bool" where
  "jobMatchesFilter job flt =
     (if \<not> jobMatchesDeletedFilter job flt then False
      else if length (jf_Ids flt) > 0 \<and> \<not> jobMatchesJobIds job (jf_Ids flt) then False
      else if length (jf_Uuids flt) > 0 \<and> \<not> jobMatchesUuids job (jf_Uuids flt) then False
      else if length (jf_NodeIds flt) > 0 \<and> \<not> jobMatchesNodeIds job (jf_NodeIds flt) then False
      else list_all (jobMatchesSelector job) (jf_Selectors flt))"

fun applyJobFilter :: "job list \<Rightarrow> job_filter \<Rightarrow> job list" where
  "applyJobFilter [] flt = []"
| "applyJobFilter (job # jobs) flt =
     (if jobMatchesFilter job flt then job # applyJobFilter jobs flt else applyJobFilter jobs flt)"

datatype enable_state = StateENABLED | StateDISABLED | StateUNSPECIFIED | StateOther nat

record node_filter =
  nf_Ids :: "string list"
  nf_Enabled :: enable_state
  nf_Selectors :: "selector list"

definition nodeMatchesIds :: "node \<Rightarrow> string list \<Rightarrow> bool" where
  "nodeMatchesIds node ids \<longleftrightarrow> nd_Id node \<in> set ids"

definition nodeMatchesEnabledState :: "node \<Rightarrow> enable_state \<Rightarrow> bool" where
  "nodeMatchesEnabledState node enabled =
     (case enabled of
        StateENABLED \<Rightarrow> nd_IsEnabled node
      | StateDISABLED \<Rightarrow> \<not> nd_IsEnabled node
      | StateUNSPECIFIED \<Rightarrow> True
      | StateOther _ \<Rightarrow> True)"

definition nodeMatchesSelector :: "node \<Rightarrow> selector \<Rightarrow> bool" where
  "nodeMatchesSelector node selector = matchesSelector (labels_map (nd_Labels node)) selector"

definition nodeMatchesFilter :: "node \<Rightarrow> node_filter \<Rightarrow> bool" where
  "nodeMatchesFilter node flt =
     (if length (nf_Ids flt) > 0 \<and> \<not> nodeMatchesIds node (nf_Ids flt) then False
      else if \<not> nodeMatchesEnabledState node (nf_Enabled flt) then False
      else list_all (nodeMatchesSelector node) (nf_Selectors flt))"

fun applyNodeFilter :: "node list \<Rightarrow> node_filter \<Rightarrow> node list" where
  "applyNodeFilter [] flt = []"
| "applyNodeFilter (node # nodes) flt =
     (if nodeMatchesFilter node flt then node # applyNodeFilter nodes flt else applyNodeFilter nodes flt)"

section \<open>The client\<close>

datatype jd_error =
    NotFoundID string string
  | NilRequest
  | UUIDLookupNotSupported
  | MustProvideId
  | JobIdMustBeProvided
  | ProposalNotFound string
  | JobCannotBeRevoked
  | InvalidSpec
  | NoKeypairs
  | PanicNilPointer

record ('k, 'c) jd_state =
  jd_jobs :: "string \<rightharpoonup> job"
  jd_proposals :: "string \<rightharpoonup> proposal"
  jd_nodes :: "string \<rightharpoonup> node"
  jd_keypairs :: "string \<rightharpoonup> 'k"
  jd_chainConfigs :: "string \<rightharpoonup> 'c list"
  jd_next :: nat

record ('k, 'c) jd_env =
  je_ksuid :: "nat \<Rightarrow> string"
  je_decode_spec :: "string \<Rightarrow> string option option"
  je_jobs :: "(string \<rightharpoonup> job) \<Rightarrow> string list"
  je_proposals :: "(string \<rightharpoonup> proposal) \<Rightarrow> string list"
  je_nodes :: "(string \<rightharpoonup> node) \<Rightarrow> string list"
  je_keypairs :: "(string \<rightharpoonup> 'k) \<Rightarrow> string list"
  je_chainConfigs :: "(string \<rightharpoonup> 'c list) \<Rightarrow> string list"

definition newID :: "('k, 'c) jd_env \<Rightarrow> string \<Rightarrow> ('k, 'c) jd_state \<Rightarrow> string \<times> ('k, 'c) jd_state" where
  "newID E pre s = (pre @ ''_'' @ je_ksuid E (jd_next s), s\<lparr>jd_next := Suc (jd_next s)\<rparr>)"

definition newProposalID :: "('k, 'c) jd_env \<Rightarrow> ('k, 'c) jd_state \<Rightarrow> string \<times> ('k, 'c) jd_state" where
  "newProposalID E s = newID E ''prop'' s"

definition newJobID :: "('k, 'c) jd_env \<Rightarrow> ('k, 'c) jd_state \<Rightarrow> string \<times> ('k, 'c) jd_state" where
  "newJobID E s = newID E ''job'' s"

definition newNodeID :: "('k, 'c) jd_env \<Rightarrow> ('k, 'c) jd_state \<Rightarrow> string \<times> ('k, 'c) jd_state" where
  "newNodeID E s = newID E ''node'' s"

definition NewMemoryJobDistributor :: "('k, 'c) jd_state" where
  "NewMemoryJobDistributor =
     \<lparr>jd_jobs = Map.empty, jd_proposals = Map.empty, jd_nodes = Map.empty, jd_keypairs = Map.empty,
      jd_chainConfigs = Map.empty, jd_next = 0\<rparr>"

text \<open>\<open>None\<close> is any error: the specification does not decode, or has no external job id.\<close>

definition getSpecUUID :: "('k, 'c) jd_env \<Rightarrow> string \<Rightarrow> string option" where
  "getSpecUUID E spec =
     (case je_decode_spec E spec of None \<Rightarrow> None | Some None \<Rightarrow> None | Some (Some u) \<Rightarrow> Some u)"

definition getJobByUUIDAndNodeID :: "('k, 'c) jd_env \<Rightarrow> string \<Rightarrow> string \<Rightarrow> ('k, 'c) jd_state \<Rightarrow> job option" where
  "getJobByUUIDAndNodeID E uuid nodeID s =
     find (\<lambda>job. job_Uuid job = uuid \<and> job_NodeId job = nodeID) (in_order (jd_jobs s) (je_jobs E (jd_jobs s)))"

definition proposalsByJobCount :: "('k, 'c) jd_env \<Rightarrow> string \<Rightarrow> ('k, 'c) jd_state \<Rightarrow> int" where
  "proposalsByJobCount E jobID s =
     fold (\<lambda>p count. if pr_JobId p = jobID then count + 1 else count)
       (in_order (jd_proposals s) (je_proposals E (jd_proposals s))) 0"

definition getNextRevisionNum :: "('k, 'c) jd_env \<Rightarrow> string \<Rightarrow> ('k, 'c) jd_state \<Rightarrow> int" where
  "getNextRevisionNum E jobID s = proposalsByJobCount E jobID s + 1"

definition getHighestRevisionProposalByJobID :: "('k, 'c) jd_env \<Rightarrow> string \<Rightarrow> ('k, 'c) jd_state \<Rightarrow> proposal option" where
  "getHighestRevisionProposalByJobID E jobID s =
     fst (fold (\<lambda>p (prop, maxRevision).
         if pr_JobId p = jobID \<and> pr_Revision p > maxRevision then (Some p, pr_Revision p) else (prop, maxRevision))
       (in_order (jd_proposals s) (je_proposals E (jd_proposals s))) (None, -1))"

text \<open>The last steps of an upsert: the proposal, with the next revision of its job.\<close>

definition insertProposal ::
  "('k, 'c) jd_env \<Rightarrow> int \<Rightarrow> string \<Rightarrow> string \<Rightarrow> string \<Rightarrow> ('k, 'c) jd_state \<Rightarrow> (jd_error + proposal) \<times> ('k, 'c) jd_state" where
  "insertProposal E now spec proposalID jobID s =
     (let proposal = \<lparr>pr_Id = proposalID, pr_Revision = getNextRevisionNum E jobID s,
            pr_Status = StatusPROPOSED, pr_DeliveryStatus = DeliveryDELIVERED, pr_JobId = jobID,
            pr_Spec = spec, pr_CreatedAt = now, pr_UpdatedAt = now\<rparr> in
      (Inr proposal, s\<lparr>jd_proposals := (jd_proposals s)(proposalID \<mapsto> proposal)\<rparr>))"

definition upsertProposal ::
  "('k, 'c) jd_env \<Rightarrow> int \<Rightarrow> string \<Rightarrow> string \<Rightarrow> label list \<Rightarrow> ('k, 'c) jd_state \<Rightarrow> (jd_error + proposal) \<times> ('k, 'c) jd_state" where
  "upsertProposal E now nodeID spec labels s =
     (case getSpecUUID E spec of
        None \<Rightarrow> (Inl InvalidSpec, s)
      | Some specUUID \<Rightarrow>
          (case newProposalID E s of
             (proposalID, s) \<Rightarrow>
               (case newJobID E s of
                  (jobID, s) \<Rightarrow>
                    (case getJobByUUIDAndNodeID E specUUID nodeID s of
                       Some job \<Rightarrow>
                         (case jd_jobs s (job_Id job) of
                            None \<Rightarrow> (Inl PanicNilPointer, s)
                          | Some job' \<Rightarrow>
                              insertProposal E now spec proposalID (job_Id job)
                                (s\<lparr>jd_jobs := (jd_jobs s)(job_Id job \<mapsto>
                                     job'\<lparr>job_ProposalIds := job_ProposalIds job' @ [proposalID]\<rparr>)\<rparr>))
                     | None \<Rightarrow>
                         insertProposal E now spec proposalID jobID
                           (s\<lparr>jd_jobs := (jd_jobs s)(jobID \<mapsto>
                                \<lparr>job_Id = jobID, job_Uuid = specUUID, job_NodeId = nodeID,
                                 job_ProposalIds = [proposalID], job_Labels = labels, job_CreatedAt = now,
                                 job_UpdatedAt = now, job_DeletedAt = None, job_RollbackPolicyId = None\<rparr>)\<rparr>)))))"

section \<open>The job service\<close>

definition ProposeJob ::
  "('k, 'c) jd_env \<Rightarrow> int \<Rightarrow> (string \<times> string \<times> label list) option \<Rightarrow> ('k, 'c) jd_state \<Rightarrow> (jd_error + proposal) \<times> ('k, 'c) jd_state" where
  "ProposeJob E now req s =
     (case req of
        None \<Rightarrow> (Inl NilRequest, s)
      | Some (nodeID, spec, labels) \<Rightarrow> upsertProposal E now nodeID spec labels s)"

datatype id_oneof = ById string | ByUuid string | NoId

definition GetJob :: "id_oneof option \<Rightarrow> ('k, 'c) jd_state \<Rightarrow> jd_error + job" where
  "GetJob req s =
     (case req of
        None \<Rightarrow> Inl NilRequest
      | Some (ById i) \<Rightarrow> (case jd_jobs s i of None \<Rightarrow> Inl (NotFoundID ''job'' i) | Some job \<Rightarrow> Inr job)
      | Some (ByUuid _) \<Rightarrow> Inl UUIDLookupNotSupported
      | Some NoId \<Rightarrow> Inl MustProvideId)"

text \<open>A nil request is dereferenced here.\<close>

definition ListJobs :: "('k, 'c) jd_env \<Rightarrow> job_filter option option \<Rightarrow> ('k, 'c) jd_state \<Rightarrow> jd_error + job list" where
  "ListJobs E req s =
     (case req of
        None \<Rightarrow> Inl PanicNilPointer
      | Some flt \<Rightarrow>
          let allJobs = in_order (jd_jobs s) (je_jobs E (jd_jobs s)) in
          Inr (case flt of
                 Some flt \<Rightarrow> applyJobFilter allJobs flt
               | None \<Rightarrow>
                   applyJobFilter allJobs
                     \<lparr>jf_Ids = [], jf_Uuids = [], jf_NodeIds = [], jf_Selectors = [], jf_IncludeDeleted = False\<rparr>))"

definition GetProposal :: "string option \<Rightarrow> ('k, 'c) jd_state \<Rightarrow> jd_error + proposal" where
  "GetProposal req s =
     (case req of
        None \<Rightarrow> Inl NilRequest
      | Some i \<Rightarrow> (case jd_proposals s i of None \<Rightarrow> Inl (NotFoundID ''proposal'' i) | Some p \<Rightarrow> Inr p))"

definition ListProposals :: "('k, 'c) jd_env \<Rightarrow> ('k, 'c) jd_state \<Rightarrow> proposal list" where
  "ListProposals E s = in_order (jd_proposals s) (je_proposals E (jd_proposals s))"

fun propose_each ::
  "('k, 'c) jd_env \<Rightarrow> int \<Rightarrow> string \<Rightarrow> label list \<Rightarrow> string list \<Rightarrow> (string \<rightharpoonup> proposal) \<Rightarrow> ('k, 'c) jd_state \<Rightarrow>
   (jd_error + (string \<rightharpoonup> proposal)) \<times> ('k, 'c) jd_state" where
  "propose_each E now spec labels [] responses s = (Inr responses, s)"
| "propose_each E now spec labels (nodeID # nodeIDs) responses s =
     (case upsertProposal E now nodeID spec labels s of
        (Inl e, s) \<Rightarrow> (Inl e, s)
      | (Inr p, s) \<Rightarrow> propose_each E now spec labels nodeIDs (responses(nodeID \<mapsto> p)) s)"

definition BatchProposeJob ::
  "('k, 'c) jd_env \<Rightarrow> int \<Rightarrow> (string list \<times> string \<times> label list) option \<Rightarrow> ('k, 'c) jd_state \<Rightarrow>
   (jd_error + (string \<rightharpoonup> proposal)) \<times> ('k, 'c) jd_state" where
  "BatchProposeJob E now req s =
     (case req of
        None \<Rightarrow> (Inl NilRequest, s)
      | Some (nodeIDs, spec, labels) \<Rightarrow> propose_each E now spec labels nodeIDs Map.empty s)"

text \<open>Without an id the job id stays empty.\<close>

definition RevokeJob :: "('k, 'c) jd_env \<Rightarrow> id_oneof option \<Rightarrow> ('k, 'c) jd_state \<Rightarrow> (jd_error + proposal) \<times> ('k, 'c) jd_state" where
  "RevokeJob E req s =
     (case req of
        None \<Rightarrow> (Inl NilRequest, s)
      | Some oneof \<Rightarrow>
          (case (case oneof of
                   ById i \<Rightarrow> if i = [] then Inl JobIdMustBeProvided else Inr i
                 | ByUuid _ \<Rightarrow> Inl UUIDLookupNotSupported
                 | NoId \<Rightarrow> Inr []) of
             Inl e \<Rightarrow> (Inl e, s)
           | Inr jobID \<Rightarrow>
               (case getHighestRevisionProposalByJobID E jobID s of
                  None \<Rightarrow> (Inl (ProposalNotFound jobID), s)
                | Some prop \<Rightarrow>
                    if pr_Status prop \<notin> {StatusPROPOSED, StatusCANCELLED} then (Inl JobCannotBeRevoked, s)
                    else
                      let prop = prop\<lparr>pr_Status := StatusREVOKED\<rparr> in
                      (Inr prop, s\<lparr>jd_proposals := (jd_proposals s)(pr_Id prop \<mapsto> prop)\<rparr>))))"

definition DeleteJob :: "int \<Rightarrow> id_oneof option \<Rightarrow> ('k, 'c) jd_state \<Rightarrow> (jd_error + job) \<times> ('k, 'c) jd_state" where
  "DeleteJob now req s =
     (case req of
        None \<Rightarrow> (Inl NilRequest, s)
      | Some (ById jobID) \<Rightarrow>
          if jobID = [] then (Inl JobIdMustBeProvided, s)
          else
            (case jd_jobs s jobID of
               None \<Rightarrow> (Inl (NotFoundID ''job'' jobID), s)
             | Some job \<Rightarrow>
                 let job = job\<lparr>job_DeletedAt := Some now\<rparr> in
                 (Inr job, s\<lparr>jd_jobs := (jd_jobs s)(jobID \<mapsto> job)\<rparr>))
      | Some (ByUuid _) \<Rightarrow> (Inl UUIDLookupNotSupported, s)
      | Some NoId \<Rightarrow> (Inl MustProvideId, s))"

definition UpdateJob ::
  "(id_oneof \<times> label list option \<times> int) option \<Rightarrow> ('k, 'c) jd_state \<Rightarrow> (jd_error + job) \<times> ('k, 'c) jd_state" where
  "UpdateJob req s =
     (case req of
        None \<Rightarrow> (Inl NilRequest, s)
      | Some (ById jobID, labels, rollbackPolicyId) \<Rightarrow>
          if jobID = [] then (Inl JobIdMustBeProvided, s)
          else
            (case jd_jobs s jobID of
               None \<Rightarrow> (Inl (NotFoundID ''job'' jobID), s)
             | Some job \<Rightarrow>
                 let job = (case labels of None \<Rightarrow> job | Some ls \<Rightarrow> job\<lparr>job_Labels := ls\<rparr>);
                     job = (if rollbackPolicyId \<noteq> 0 then job\<lparr>job_RollbackPolicyId := Some rollbackPolicyId\<rparr> else job) in
                 (Inr job, s\<lparr>jd_jobs := (jd_jobs s)(jobID \<mapsto> job)\<rparr>))
      | Some (ByUuid _, _, _) \<Rightarrow> (Inl UUIDLookupNotSupported, s)
      | Some (NoId, _, _) \<Rightarrow> (Inl MustProvideId, s))"

section \<open>The node service\<close>

definition NodeVersion :: string where
  "NodeVersion = ''0.0.0.fake-node''"

definition RegisterNode ::
  "('k, 'c) jd_env \<Rightarrow> int \<Rightarrow> (string \<times> string \<times> label list) option \<Rightarrow> ('k, 'c) jd_state \<Rightarrow> (jd_error + node) \<times> ('k, 'c) jd_state" where
  "RegisterNode E now req s =
     (case req of
        None \<Rightarrow> (Inl NilRequest, s)
      | Some (name, publicKey, labels) \<Rightarrow>
          (case newNodeID E s of
             (nodeID, s) \<Rightarrow>
               let node = \<lparr>nd_Id = nodeID, nd_Name = name, nd_PublicKey = publicKey, nd_IsEnabled = True,
                     nd_IsConnected = False, nd_Labels = labels, nd_Version = NodeVersion, nd_CreatedAt = now,
                     nd_UpdatedAt = now\<rparr> in
               (Inr node, s\<lparr>jd_nodes := (jd_nodes s)(nodeID \<mapsto> node)\<rparr>)))"

definition GetNode :: "string option \<Rightarrow> ('k, 'c) jd_state \<Rightarrow> jd_error + node" where
  "GetNode req s =
     (case req of
        None \<Rightarrow> Inl NilRequest
      | Some i \<Rightarrow> (case jd_nodes s i of None \<Rightarrow> Inl (NotFoundID ''node'' i) | Some n \<Rightarrow> Inr n))"

definition ListNodes :: "('k, 'c) jd_env \<Rightarrow> node_filter option option \<Rightarrow> ('k, 'c) jd_state \<Rightarrow> jd_error + node list" where
  "ListNodes E req s =
     (case req of
        None \<Rightarrow> Inl PanicNilPointer
      | Some flt \<Rightarrow>
          let allNodes = in_order (jd_nodes s) (je_nodes E (jd_nodes s)) in
          Inr (case flt of Some flt \<Rightarrow> applyNodeFilter allNodes flt | None \<Rightarrow> allNodes))"

text \<open>Changing a stored node: common to the three handlers below.\<close>

definition change_node :: "string option \<Rightarrow> (node \<Rightarrow> node) \<Rightarrow> ('k, 'c) jd_state \<Rightarrow> (jd_error + node) \<times> ('k, 'c) jd_state" where
  "change_node req f s =
     (case req of
        None \<Rightarrow> (Inl NilRequest, s)
      | Some i \<Rightarrow>
          (case jd_nodes s i of
             None \<Rightarrow> (Inl (NotFoundID ''node'' i), s)
           | Some node \<Rightarrow> (Inr (f node), s\<lparr>jd_nodes := (jd_nodes s)(i \<mapsto> f node)\<rparr>)))"

definition UpdateNode ::
  "(string \<times> string \<times> string \<times> label list option) option \<Rightarrow> ('k, 'c) jd_state \<Rightarrow> (jd_error + node) \<times> ('k, 'c) jd_state" where
  "UpdateNode req s =
     (case req of
        None \<Rightarrow> (Inl NilRequest, s)
      | Some (i, name, publicKey, labels) \<Rightarrow>
          change_node (Some i) (\<lambda>node.
            let node = (if name \<noteq> [] then node\<lparr>nd_Name := name\<rparr> else node);
                node = (if publicKey \<noteq> [] then node\<lparr>nd_PublicKey := publicKey\<rparr> else node) in
            case labels of None \<Rightarrow> node | Some ls \<Rightarrow> node\<lparr>nd_Labels := ls\<rparr>) s)"

definition EnableNode :: "string option \<Rightarrow> ('k, 'c) jd_state \<Rightarrow> (jd_error + node) \<times> ('k, 'c) jd_state" where
  "EnableNode req s = change_node req (\<lambda>node. node\<lparr>nd_IsEnabled := True\<rparr>) s"

definition DisableNode :: "string option \<Rightarrow> ('k, 'c) jd_state \<Rightarrow> (jd_error + node) \<times> ('k, 'c) jd_state" where
  "DisableNode req s = change_node req (\<lambda>node. node\<lparr>nd_IsEnabled := False\<rparr>) s"

text \<open>The filter is a list of node ids; without one, or with an empty one, all are listed.\<close>

definition ListNodeChainConfigs :: "('k, 'c) jd_env \<Rightarrow> string list option \<Rightarrow> ('k, 'c) jd_state \<Rightarrow> 'c list" where
  "ListNodeChainConfigs E flt s =
     (case flt of
        Some (nodeID # nodeIDs) \<Rightarrow>
          concat (map (\<lambda>i. case jd_chainConfigs s i of None \<Rightarrow> [] | Some configs \<Rightarrow> configs) (nodeID # nodeIDs))
      | _ \<Rightarrow> concat (in_order (jd_chainConfigs s) (je_chainConfigs E (jd_chainConfigs s))))"

definition AddChainConfig :: "string \<Rightarrow> 'c \<Rightarrow> ('k, 'c) jd_state \<Rightarrow> (jd_error, ('k, 'c) jd_state) eff" where
  "AddChainConfig nodeID config s =
     (if jd_nodes s nodeID = None then fail (NotFoundID ''node'' nodeID) s
      else ret (s\<lparr>jd_chainConfigs := (jd_chainConfigs s)(nodeID \<mapsto>
             (case jd_chainConfigs s nodeID of None \<Rightarrow> [] | Some cs \<Rightarrow> cs) @ [config])\<rparr>))"

section \<open>The key service\<close>

definition GetKeypair :: "('k, 'c) jd_env \<Rightarrow> unit option \<Rightarrow> ('k, 'c) jd_state \<Rightarrow> jd_error + 'k" where
  "GetKeypair E req s =
     (case req of
        None \<Rightarrow> Inl NilRequest
      | Some _ \<Rightarrow>
          (case in_order (jd_keypairs s) (je_keypairs E (jd_keypairs s)) of
             [] \<Rightarrow> Inl NoKeypairs
           | keypair # _ \<Rightarrow> Inr keypair))"

definition ListKeypairs :: "('k, 'c) jd_env \<Rightarrow> ('k, 'c) jd_state \<Rightarrow> 'k list" where
  "ListKeypairs E s = in_order (jd_keypairs s) (je_keypairs E (jd_keypairs s))"

definition AddKeypair :: "('k \<Rightarrow> string) \<Rightarrow> 'k option \<Rightarrow> ('k, 'c) jd_state \<Rightarrow> ('k, 'c) jd_state" where
  "AddKeypair publicKey keypair s =
     (case keypair of
        None \<Rightarrow> s
      | Some k \<Rightarrow> if publicKey k \<noteq> [] then s\<lparr>jd_keypairs := (jd_keypairs s)(publicKey k \<mapsto> k)\<rparr> else s)"

section \<open>What the state keeps true\<close>

definition jd_env_ok :: "('k, 'c) jd_env \<Rightarrow> bool" where
  "jd_env_ok E \<longleftrightarrow> inj (je_ksuid E) \<and>
     (\<forall>m. finite (dom m) \<longrightarrow> iteration_of m (je_jobs E m)) \<and>
     (\<forall>m. finite (dom m) \<longrightarrow> iteration_of m (je_proposals E m))"

definition made_id :: "('k, 'c) jd_env \<Rightarrow> string \<Rightarrow> nat \<Rightarrow> string \<Rightarrow> bool" where
  "made_id E pre next i \<longleftrightarrow> (\<exists>n < next. i = pre @ ''_'' @ je_ksuid E n)"

text \<open>
  Jobs and proposals are stored under their ids, which were all generated; a node has one job per
  external id; the proposals of a job are exactly those it lists, and the k-th one has revision k.
\<close>

definition jobs_ok :: "('k, 'c) jd_env \<Rightarrow> ('k, 'c) jd_state \<Rightarrow> bool" where
  "jobs_ok E s \<longleftrightarrow> finite (dom (jd_jobs s)) \<and>
     (\<forall>i j. jd_jobs s i = Some j \<longrightarrow> job_Id j = i \<and> made_id E ''job'' (jd_next s) i \<and> job_ProposalIds j \<noteq> []) \<and>
     (\<forall>i j i' j'. jd_jobs s i = Some j \<longrightarrow> jd_jobs s i' = Some j' \<longrightarrow>
        job_Uuid j = job_Uuid j' \<longrightarrow> job_NodeId j = job_NodeId j' \<longrightarrow> i = i')"

definition proposals_ok :: "('k, 'c) jd_env \<Rightarrow> ('k, 'c) jd_state \<Rightarrow> bool" where
  "proposals_ok E s \<longleftrightarrow> finite (dom (jd_proposals s)) \<and>
     (\<forall>i p. jd_proposals s i = Some p \<longrightarrow> pr_Id p = i \<and> made_id E ''prop'' (jd_next s) i) \<and>
     (\<forall>i p. jd_proposals s i = Some p \<longrightarrow> (\<exists>j. jd_jobs s (pr_JobId p) = Some j \<and> i \<in> set (job_ProposalIds j))) \<and>
     (\<forall>i j. jd_jobs s i = Some j \<longrightarrow> distinct (job_ProposalIds j) \<and>
        (\<forall>k < length (job_ProposalIds j). \<exists>p. jd_proposals s (job_ProposalIds j ! k) = Some p \<and>
           pr_JobId p = i \<and> pr_Revision p = int k + 1))"

definition jd_ok :: "('k, 'c) jd_env \<Rightarrow> ('k, 'c) jd_state \<Rightarrow> bool" where
  "jd_ok E s \<longleftrightarrow> jobs_ok E s \<and> proposals_ok E s"

lemma jobs_okD:
  assumes "jobs_ok E s"
  shows "finite (dom (jd_jobs s))"
    and "jd_jobs s i = Some j \<Longrightarrow> job_Id j = i" and "jd_jobs s i = Some j \<Longrightarrow> made_id E ''job'' (jd_next s) i"
    and "jd_jobs s i = Some j \<Longrightarrow> job_ProposalIds j \<noteq> []"
    and "\<lbrakk>jd_jobs s i = Some j; jd_jobs s i' = Some j'; job_Uuid j = job_Uuid j'; job_NodeId j = job_NodeId j'\<rbrakk> \<Longrightarrow> i = i'"
  using assms unfolding jobs_ok_def by blast+

lemma proposals_okD:
  assumes "proposals_ok E s"
  shows "finite (dom (jd_proposals s))"
    and "jd_proposals s k = Some p \<Longrightarrow> pr_Id p = k" and "jd_proposals s k = Some p \<Longrightarrow> made_id E ''prop'' (jd_next s) k"
    and "jd_proposals s k = Some p \<Longrightarrow> \<exists>j. jd_jobs s (pr_JobId p) = Some j \<and> k \<in> set (job_ProposalIds j)"
    and "jd_jobs s i = Some j \<Longrightarrow> distinct (job_ProposalIds j)"
    and "\<lbrakk>jd_jobs s i = Some j; n < length (job_ProposalIds j)\<rbrakk> \<Longrightarrow>
      \<exists>p. jd_proposals s (job_ProposalIds j ! n) = Some p \<and> pr_JobId p = i \<and> pr_Revision p = int n + 1"
  using assms unfolding proposals_ok_def by blast+

lemma jd_okD: "jd_ok E s \<Longrightarrow> jobs_ok E s" "jd_ok E s \<Longrightarrow> proposals_ok E s"
  by (simp_all add: jd_ok_def)

lemma jd_ok_new: "jd_ok E NewMemoryJobDistributor"
  by (simp add: jd_ok_def jobs_ok_def proposals_ok_def NewMemoryJobDistributor_def)

lemma made_id_mono: "\<lbrakk>made_id E pre n i; n \<le> m\<rbrakk> \<Longrightarrow> made_id E pre m i"
  by (auto simp: made_id_def intro: less_le_trans)

lemma made_id_fresh:
  assumes "jd_env_ok E" "n \<le> m"
  shows "\<not> made_id E pre n (pre @ ''_'' @ je_ksuid E m)"
  using assms by (auto simp: made_id_def jd_env_ok_def dest: injD)

section \<open>Loops over the maps\<close>

lemma count_law:
  "distinct ks \<Longrightarrow> fold (\<lambda>p count. if P p then count + 1 else count) (in_order m ks) c =
     (c :: int) + int (card {i \<in> set ks. \<exists>p. m i = Some p \<and> P p})"
proof (induction ks arbitrary: c)
  case (Cons k ks)
  have split: "{i \<in> set (k # ks). \<exists>p. m i = Some p \<and> P p} =
      (if \<exists>p. m k = Some p \<and> P p then {k} else {}) \<union> {i \<in> set ks. \<exists>p. m i = Some p \<and> P p}" by auto
  have "k \<notin> {i \<in> set ks. \<exists>p. m i = Some p \<and> P p}" using Cons.prems by auto
  then have "card {i \<in> set (k # ks). \<exists>p. m i = Some p \<and> P p} =
      (if \<exists>p. m k = Some p \<and> P p then 1 else 0) + card {i \<in> set ks. \<exists>p. m i = Some p \<and> P p}"
    unfolding split by (subst card_Un_disjoint) auto
  then show ?case using Cons by (auto simp: in_order_def map_filter_simps split: option.splits)
qed (simp add: in_order_def map_filter_simps)

lemma highest_law:
  assumes "fold (\<lambda>p (prop, mx). if Q p \<and> f p > mx then (Some p, f p) else (prop, mx)) ps (None, -1) = (r, mx)"
  shows "case r of None \<Rightarrow> mx = (-1 :: int) | Some p \<Rightarrow> p \<in> set ps \<and> Q p \<and> f p = mx"
    and "\<forall>p \<in> set ps. Q p \<longrightarrow> f p \<le> mx"
  using assms
proof (induction ps arbitrary: r mx rule: rev_induct)
  case (snoc x ps)
  obtain r' mx' where before: "fold (\<lambda>p (prop, mx). if Q p \<and> f p > mx then (Some p, f p) else (prop, mx)) ps (None, -1) = (r', mx')"
    by fastforce
  case 1
  then show ?case using snoc.IH(1) [OF before] before by (auto split: option.splits if_splits)
next
  case (snoc x ps)
  obtain r' mx' where before: "fold (\<lambda>p (prop, mx). if Q p \<and> f p > mx then (Some p, f p) else (prop, mx)) ps (None, -1) = (r', mx')"
    by fastforce
  case 2
  then show ?case using snoc.IH(2) [OF before] before by (auto split: if_splits)
qed auto

text \<open>The proposals of a job, by the loops of the client.\<close>

lemma job_proposals:
  assumes "jd_ok E s" "jd_jobs s i = Some j"
  shows "{k. \<exists>p. jd_proposals s k = Some p \<and> pr_JobId p = i} = set (job_ProposalIds j)"
proof (intro set_eqI iffI)
  fix k assume "k \<in> {k. \<exists>p. jd_proposals s k = Some p \<and> pr_JobId p = i}"
  then show "k \<in> set (job_ProposalIds j)"
    using proposals_okD(4) [OF jd_okD(2) [OF assms(1)]] assms(2) by fastforce
next
  fix k assume "k \<in> set (job_ProposalIds j)"
  then obtain n where "n < length (job_ProposalIds j)" "job_ProposalIds j ! n = k" by (auto simp: in_set_conv_nth)
  then show "k \<in> {k. \<exists>p. jd_proposals s k = Some p \<and> pr_JobId p = i}"
    using proposals_okD(6) [OF jd_okD(2) [OF assms(1)] assms(2)] by auto
qed

lemma count_proposals:
  assumes "jd_env_ok E" "jd_ok E s"
  shows "proposalsByJobCount E i s = (case jd_jobs s i of None \<Rightarrow> 0 | Some j \<Rightarrow> int (length (job_ProposalIds j)))"
proof -
  have iter: "iteration_of (jd_proposals s) (je_proposals E (jd_proposals s))"
    using assms by (simp add: jd_env_ok_def jd_ok_def proposals_ok_def)
  have "{k \<in> set (je_proposals E (jd_proposals s)). \<exists>p. jd_proposals s k = Some p \<and> pr_JobId p = i} =
      {k. \<exists>p. jd_proposals s k = Some p \<and> pr_JobId p = i}"
    using iter by (auto simp: iteration_of_def)
  then have card: "proposalsByJobCount E i s = int (card {k. \<exists>p. jd_proposals s k = Some p \<and> pr_JobId p = i})"
    using iter by (simp add: proposalsByJobCount_def count_law iteration_of_def)
  show ?thesis
  proof (cases "jd_jobs s i")
    case None
    then have "{k. \<exists>p. jd_proposals s k = Some p \<and> pr_JobId p = i} = {}"
      using proposals_okD(4) [OF jd_okD(2) [OF assms(2)]] by fastforce
    then show ?thesis using None by (simp only: card) simp
  next
    case (Some j)
    then have "distinct (job_ProposalIds j)" using proposals_okD(5) [OF jd_okD(2) [OF assms(2)]] by blast
    then show ?thesis using Some job_proposals [OF assms(2) Some] by (simp add: card distinct_card)
  qed
qed

lemma find_job_law:
  assumes "jd_env_ok E" "jobs_ok E s"
  shows "getJobByUUIDAndNodeID E u n s = Some j \<longleftrightarrow> jd_jobs s (job_Id j) = Some j \<and> job_Uuid j = u \<and> job_NodeId j = n"
proof -
  let ?P = "\<lambda>job. job_Uuid job = u \<and> job_NodeId job = n"
  let ?js = "in_order (jd_jobs s) (je_jobs E (jd_jobs s))"
  have "iteration_of (jd_jobs s) (je_jobs E (jd_jobs s))"
    using assms jobs_okD(1) by (auto simp: jd_env_ok_def)
  then have js: "set ?js = ran (jd_jobs s)" by (rule set_in_order)
  have member: "x \<in> set ?js \<longleftrightarrow> jd_jobs s (job_Id x) = Some x" for x
    unfolding js ran_def using jobs_okD(2) [OF assms(2)] by auto
  show ?thesis
  proof
    assume "getJobByUUIDAndNodeID E u n s = Some j"
    then have "find ?P ?js = Some j" by (simp add: getJobByUUIDAndNodeID_def)
    then show "jd_jobs s (job_Id j) = Some j \<and> job_Uuid j = u \<and> job_NodeId j = n"
      using find_sound [of ?P ?js j] member by auto
  next
    assume j: "jd_jobs s (job_Id j) = Some j \<and> job_Uuid j = u \<and> job_NodeId j = n"
    then have "j \<in> set ?js" "?P j" using member by blast+
    then have "find ?P ?js \<noteq> None" unfolding find_None_iff by blast
    then obtain x where x: "find ?P ?js = Some x" by auto
    then have "jd_jobs s (job_Id x) = Some x \<and> job_Uuid x = u \<and> job_NodeId x = n"
      using find_sound [of ?P ?js x] member by auto
    then have xx: "jd_jobs s (job_Id x) = Some x" and "job_Uuid x = job_Uuid j" "job_NodeId x = job_NodeId j"
      using j by simp_all
    then have "job_Id x = job_Id j" using jobs_okD(5) [OF assms(2) xx] j by blast
    then have "x = j" using xx conjunct1 [OF j] by (metis option.inject)
    then show "getJobByUUIDAndNodeID E u n s = Some j" using x by (simp add: getJobByUUIDAndNodeID_def)
  qed
qed

lemma highest_proposal:
  assumes "jd_env_ok E" "jd_ok E s"
  shows "getHighestRevisionProposalByJobID E i s =
    (case jd_jobs s i of None \<Rightarrow> None | Some j \<Rightarrow> jd_proposals s (last (job_ProposalIds j)))"
proof -
  note props = jd_okD(2) [OF assms(2)]
  let ?ps = "in_order (jd_proposals s) (je_proposals E (jd_proposals s))"
  have "iteration_of (jd_proposals s) (je_proposals E (jd_proposals s))"
    using assms(1) proposals_okD(1) [OF props] by (auto simp: jd_env_ok_def)
  then have ps: "set ?ps = ran (jd_proposals s)" by (rule set_in_order)
  obtain r mx where fold: "fold (\<lambda>p (prop, mx). if pr_JobId p = i \<and> pr_Revision p > mx then (Some p, pr_Revision p)
      else (prop, mx)) ?ps (None, -1) = (r, mx)" by fastforce
  then have r: "getHighestRevisionProposalByJobID E i s = r" by (simp add: getHighestRevisionProposalByJobID_def)
  note high = highest_law [OF fold]
  show ?thesis
  proof (cases "jd_jobs s i")
    case None
    have "r = None"
    proof (cases r)
      case (Some p)
      then have "p \<in> ran (jd_proposals s)" "pr_JobId p = i" using high(1) ps by auto
      then show ?thesis using proposals_okD(4) [OF props] None unfolding ran_def by fastforce
    qed
    then show ?thesis using None r by simp
  next
    case (Some j)
    define n where "n = length (job_ProposalIds j) - 1"
    have ne: "job_ProposalIds j \<noteq> []" using jobs_okD(4) [OF jd_okD(1) [OF assms(2)] Some] .
    then have n: "n < length (job_ProposalIds j)" by (simp add: n_def)
    from proposals_okD(6) [OF props Some n] obtain p where
      p: "jd_proposals s (last (job_ProposalIds j)) = Some p" "pr_JobId p = i" "pr_Revision p = int n + 1"
      using ne by (auto simp: last_conv_nth n_def)
    then have "p \<in> set ?ps" unfolding ps ran_def by auto
    then have low: "int n + 1 \<le> mx" using high(2) p by auto
    then obtain q where q: "r = Some q" using high(1) by (cases r) auto
    then have "q \<in> ran (jd_proposals s)" "pr_JobId q = i" "pr_Revision q = mx" using high(1) ps by auto
    then obtain k where k: "jd_proposals s k = Some q" by (auto simp: ran_def)
    then have "k \<in> set (job_ProposalIds j)"
      using proposals_okD(4) [OF props k] Some \<open>pr_JobId q = i\<close> by auto
    then obtain m where m: "m < length (job_ProposalIds j)" "job_ProposalIds j ! m = k" by (auto simp: in_set_conv_nth)
    then have "pr_Revision q = int m + 1" using proposals_okD(6) [OF props Some m(1)] k by auto
    then have "m = n" using low \<open>pr_Revision q = mx\<close> m(1) by (simp add: n_def)
    then have "k = last (job_ProposalIds j)" using m ne by (simp add: last_conv_nth n_def)
    then show ?thesis using Some r q k by simp
  qed
qed

section \<open>Proposing\<close>

text \<open>Inserting the proposal a job lists last.\<close>

lemma insert_last_ok:
  assumes env: "jd_env_ok E" and jobs: "jobs_ok E s" and fin: "finite (dom (jd_proposals s))"
    and old: "\<And>k p. jd_proposals s k = Some p \<Longrightarrow> pr_Id p = k \<and> made_id E ''prop'' (jd_next s) k \<and> k \<noteq> pid \<and>
      (\<exists>j. jd_jobs s (pr_JobId p) = Some j \<and> k \<in> set (job_ProposalIds j))"
    and listed: "\<And>i j. jd_jobs s i = Some j \<Longrightarrow> distinct (job_ProposalIds j) \<and>
      (\<forall>k < length (job_ProposalIds j). job_ProposalIds j ! k \<noteq> pid \<longrightarrow>
         (\<exists>p. jd_proposals s (job_ProposalIds j ! k) = Some p \<and> pr_JobId p = i \<and> pr_Revision p = int k + 1))"
    and new: "jd_jobs s i = Some j" "job_ProposalIds j = ids @ [pid]" "made_id E ''prop'' (jd_next s) pid"
    and only: "\<And>i' j'. jd_jobs s i' = Some j' \<Longrightarrow> pid \<in> set (job_ProposalIds j') \<Longrightarrow> i' = i"
  shows "insertProposal E now spec pid i s =
      (let p = \<lparr>pr_Id = pid, pr_Revision = int (length ids) + 1, pr_Status = StatusPROPOSED,
                pr_DeliveryStatus = DeliveryDELIVERED, pr_JobId = i, pr_Spec = spec, pr_CreatedAt = now, pr_UpdatedAt = now\<rparr> in
       (Inr p, s\<lparr>jd_proposals := (jd_proposals s)(pid \<mapsto> p)\<rparr>))"
    and "jd_ok E (snd (insertProposal E now spec pid i s))"
proof -
  have iter: "iteration_of (jd_proposals s) (je_proposals E (jd_proposals s))" using env fin by (simp add: jd_env_ok_def)
  have dist: "distinct (ids @ [pid])" using listed [OF new(1)] new(2) by simp
  have "{k \<in> set (je_proposals E (jd_proposals s)). \<exists>p. jd_proposals s k = Some p \<and> pr_JobId p = i} = set ids"
  proof (intro set_eqI iffI)
    fix k assume "k \<in> {k \<in> set (je_proposals E (jd_proposals s)). \<exists>p. jd_proposals s k = Some p \<and> pr_JobId p = i}"
    then show "k \<in> set ids" using old [of k] new(1,2) by auto
  next
    fix k assume "k \<in> set ids"
    then obtain n where n: "n < length ids" "ids ! n = k" by (auto simp: in_set_conv_nth)
    then have "k \<noteq> pid" using dist by auto
    then have "\<exists>p. jd_proposals s k = Some p \<and> pr_JobId p = i"
      using listed [OF new(1)] n new(2) by (metis (no_types, lifting) length_append_singleton less_SucI nth_append)
    then show "k \<in> {k \<in> set (je_proposals E (jd_proposals s)). \<exists>p. jd_proposals s k = Some p \<and> pr_JobId p = i}"
      using iter by (auto simp: iteration_of_def)
  qed
  then have count: "getNextRevisionNum E i s = int (length ids) + 1"
    using iter dist by (simp add: getNextRevisionNum_def proposalsByJobCount_def count_law iteration_of_def distinct_card)
  show eq: "insertProposal E now spec pid i s =
      (let p = \<lparr>pr_Id = pid, pr_Revision = int (length ids) + 1, pr_Status = StatusPROPOSED,
                pr_DeliveryStatus = DeliveryDELIVERED, pr_JobId = i, pr_Spec = spec, pr_CreatedAt = now, pr_UpdatedAt = now\<rparr> in
       (Inr p, s\<lparr>jd_proposals := (jd_proposals s)(pid \<mapsto> p)\<rparr>))"
    by (simp add: insertProposal_def count Let_def)
  define p where "p = \<lparr>pr_Id = pid, pr_Revision = int (length ids) + 1, pr_Status = StatusPROPOSED,
                pr_DeliveryStatus = DeliveryDELIVERED, pr_JobId = i, pr_Spec = spec, pr_CreatedAt = now, pr_UpdatedAt = now\<rparr>"
  let ?t = "s\<lparr>jd_proposals := (jd_proposals s)(pid \<mapsto> p)\<rparr>"
  have "jobs_ok E ?t" using jobs by (simp add: jobs_ok_def)
  moreover have "proposals_ok E ?t"
    unfolding proposals_ok_def
  proof (intro conjI allI impI)
    fix k q assume q: "jd_proposals ?t k = Some q"
    show "pr_Id q = k" "made_id E ''prop'' (jd_next ?t) k"
      using q old [of k q] new(3) by (auto simp: p_def split: if_splits)
    show "\<exists>j. jd_jobs ?t (pr_JobId q) = Some j \<and> k \<in> set (job_ProposalIds j)"
      using q old [of k q] new(1,2) by (auto simp: p_def split: if_splits)
  next
    fix i' j' assume j': "jd_jobs ?t i' = Some j'"
    then show "distinct (job_ProposalIds j')" using listed [of i' j'] by simp
    fix k assume k: "k < length (job_ProposalIds j')"
    show "\<exists>q. jd_proposals ?t (job_ProposalIds j' ! k) = Some q \<and> pr_JobId q = i' \<and> pr_Revision q = int k + 1"
    proof (cases "job_ProposalIds j' ! k = pid")
      case True
      then have "pid \<in> set (job_ProposalIds j')" using nth_mem [OF k] by simp
      then have "i' = i" using only [of i' j'] j' by simp
      then have "job_ProposalIds j' = ids @ [pid]" using j' new by simp
      then have "(ids @ [pid]) ! k = (ids @ [pid]) ! length ids" "k < length (ids @ [pid])" using True k by simp_all
      then have "k = length ids" using nth_eq_iff_index_eq [OF dist, of k "length ids"] by simp
      then show ?thesis using True \<open>i' = i\<close> by (simp add: p_def)
    next
      case False
      then show ?thesis using listed [of i' j'] j' k by auto
    qed
  qed (use fin in simp)
  ultimately show "jd_ok E (snd (insertProposal E now spec pid i s))"
    unfolding eq p_def [symmetric] Let_def by (simp add: jd_ok_def)
qed

lemma ids_of_generated:
  assumes "jd_env_ok E" "jd_ok E s"
  defines "pid \<equiv> ''prop'' @ ''_'' @ je_ksuid E (jd_next s)" and "jid \<equiv> ''job'' @ ''_'' @ je_ksuid E (Suc (jd_next s))"
  shows "jd_proposals s pid = None" and "jd_jobs s jid = None"
    and "jd_jobs s i = Some j \<Longrightarrow> pid \<notin> set (job_ProposalIds j)"
proof -
  note jobs = jd_okD(1) [OF assms(2)] and props = jd_okD(2) [OF assms(2)]
  show none: "jd_proposals s pid = None"
    using proposals_okD(3) [OF props, of pid] made_id_fresh [OF assms(1) order_refl, of "''prop''"]
    by (cases "jd_proposals s pid") (auto simp: pid_def)
  show "jd_jobs s jid = None"
    using jobs_okD(3) [OF jobs, of jid] made_id_fresh [OF assms(1), of "jd_next s" "Suc (jd_next s)" "''job''"]
    by (cases "jd_jobs s jid") (auto simp: jid_def)
  show "jd_jobs s i = Some j \<Longrightarrow> pid \<notin> set (job_ProposalIds j)"
    using proposals_okD(6) [OF props, of i j] none by (fastforce simp: in_set_conv_nth)
qed

lemma upsert_proposal_law:
  assumes env: "jd_env_ok E" and ok: "jd_ok E s" and spec: "getSpecUUID E spec = Some u"
  shows "\<exists>p j t. upsertProposal E now nodeID spec labels s = (Inr p, t) \<and> jd_ok E t \<and>
    pr_Status p = StatusPROPOSED \<and> pr_DeliveryStatus p = DeliveryDELIVERED \<and> pr_Spec p = spec \<and>
    pr_CreatedAt p = now \<and> pr_UpdatedAt p = now \<and>
    jd_proposals s (pr_Id p) = None \<and> jd_proposals t = (jd_proposals s)(pr_Id p \<mapsto> p) \<and>
    jd_jobs t = (jd_jobs s)(pr_JobId p \<mapsto> j) \<and> jd_nodes t = jd_nodes s \<and> jd_keypairs t = jd_keypairs s \<and>
    jd_chainConfigs t = jd_chainConfigs s \<and> jd_next t = jd_next s + 2 \<and>
    pr_Revision p = int (length (job_ProposalIds j)) \<and>
    (case getJobByUUIDAndNodeID E u nodeID s of
       Some j0 \<Rightarrow> pr_JobId p = job_Id j0 \<and> j = j0\<lparr>job_ProposalIds := job_ProposalIds j0 @ [pr_Id p]\<rparr>
     | None \<Rightarrow> jd_jobs s (pr_JobId p) = None \<and> j = \<lparr>job_Id = pr_JobId p, job_Uuid = u, job_NodeId = nodeID,
         job_ProposalIds = [pr_Id p], job_Labels = labels, job_CreatedAt = now, job_UpdatedAt = now, job_DeletedAt = None,
         job_RollbackPolicyId = None\<rparr>)"
proof -
  note jobs = jd_okD(1) [OF ok] and props = jd_okD(2) [OF ok]
  define pid where "pid = ''prop'' @ ''_'' @ je_ksuid E (jd_next s)"
  define jid where "jid = ''job'' @ ''_'' @ je_ksuid E (Suc (jd_next s))"
  let ?n = "Suc (Suc (jd_next s))"
  define s2 where "s2 = s\<lparr>jd_next := ?n\<rparr>"
  note fresh = ids_of_generated [OF env ok, folded pid_def jid_def]
  have made: "made_id E ''prop'' ?n pid" "made_id E ''job'' ?n jid"
    unfolding made_id_def pid_def jid_def
    by (rule exI [of _ "jd_next s"], simp) (rule exI [of _ "Suc (jd_next s)"], simp)
  have lookup: "getJobByUUIDAndNodeID E u nodeID s2 = getJobByUUIDAndNodeID E u nodeID s"
    by (simp add: getJobByUUIDAndNodeID_def s2_def)
  have old: "pr_Id p = k \<and> made_id E ''prop'' ?n k \<and> k \<noteq> pid \<and> (\<exists>j. jd_jobs s (pr_JobId p) = Some j \<and> k \<in> set (job_ProposalIds j))"
    if "jd_proposals s k = Some p" for k p
    using proposals_okD(2,3,4) [OF props that] made_id_mono [of E "''prop''" "jd_next s" k ?n] fresh(1) that by auto
  show ?thesis
  proof (cases "getJobByUUIDAndNodeID E u nodeID s")
    case (Some j0)
    then have j0: "jd_jobs s (job_Id j0) = Some j0" "job_Uuid j0 = u" "job_NodeId j0 = nodeID"
      using find_job_law [OF env jobs] by blast+
    define j where "j = j0\<lparr>job_ProposalIds := job_ProposalIds j0 @ [pid]\<rparr>"
    define s3 where "s3 = s2\<lparr>jd_jobs := (jd_jobs s)(job_Id j0 \<mapsto> j)\<rparr>"
    have upsert: "upsertProposal E now nodeID spec labels s = insertProposal E now spec pid (job_Id j0) s3"
      using spec Some lookup j0(1)
      by (simp add: upsertProposal_def newProposalID_def newJobID_def newID_def pid_def s2_def s3_def j_def)
    have jobs3: "jobs_ok E s3"
      unfolding jobs_ok_def
    proof (intro conjI allI impI)
      show "finite (dom (jd_jobs s3))" using jobs_okD(1) [OF jobs] by (simp add: s3_def)
      fix i x assume x: "jd_jobs s3 i = Some x"
      show "job_Id x = i" "made_id E ''job'' (jd_next s3) i" "job_ProposalIds x \<noteq> []"
        using x jobs_okD(2,3,4) [OF jobs, of i] j0(1) made_id_mono [of E "''job''" "jd_next s" i ?n]
        by (auto simp: s3_def s2_def j_def split: if_splits)
      fix i' x' assume x': "jd_jobs s3 i' = Some x'" "job_Uuid x = job_Uuid x'" "job_NodeId x = job_NodeId x'"
      have key: "\<exists>y. jd_jobs s i = Some y \<and> job_Uuid y = job_Uuid x \<and> job_NodeId y = job_NodeId x"
        if "jd_jobs s3 i = Some x" for i x
        using that j0(1) by (auto simp: s3_def j_def split: if_splits)
      show "i = i'" using key [OF x] key [OF x'(1)] x'(2,3) jobs_okD(5) [OF jobs] by metis
    qed
    have listed: "distinct (job_ProposalIds x) \<and> (\<forall>k < length (job_ProposalIds x). job_ProposalIds x ! k \<noteq> pid \<longrightarrow>
         (\<exists>p. jd_proposals s3 (job_ProposalIds x ! k) = Some p \<and> pr_JobId p = i \<and> pr_Revision p = int k + 1))"
      if "jd_jobs s3 i = Some x" for i x
    proof (cases "i = job_Id j0")
      case True
      then have "x = j" using that by (simp add: s3_def)
      then have ids: "job_ProposalIds x = job_ProposalIds j0 @ [pid]" by (simp add: j_def)
      have "distinct (job_ProposalIds x)"
        unfolding ids using proposals_okD(5) [OF props j0(1)] fresh(3) [OF j0(1)] by simp
      moreover have "\<exists>p. jd_proposals s3 (job_ProposalIds x ! k) = Some p \<and> pr_JobId p = i \<and> pr_Revision p = int k + 1"
        if k: "k < length (job_ProposalIds x)" and new: "job_ProposalIds x ! k \<noteq> pid" for k
      proof -
        have "k < length (job_ProposalIds j0)" using k new unfolding ids by (auto simp: nth_append less_Suc_eq)
        moreover from this have "job_ProposalIds x ! k = job_ProposalIds j0 ! k" unfolding ids by (simp add: nth_append)
        moreover have "jd_proposals s3 = jd_proposals s" by (simp add: s3_def s2_def)
        ultimately show ?thesis unfolding True using proposals_okD(6) [OF props j0(1)] by presburger
      qed
      ultimately show ?thesis by blast
    next
      case False
      then have "jd_jobs s i = Some x" using that by (simp add: s3_def)
      then show ?thesis using proposals_okD(5,6) [OF props] by (auto simp: s3_def s2_def)
    qed
    have only: "i' = job_Id j0" if "jd_jobs s3 i' = Some j'" "pid \<in> set (job_ProposalIds j')" for i' j'
      using that fresh(3) by (auto simp: s3_def split: if_splits)
    have kept: "pr_Id p = k \<and> made_id E ''prop'' (jd_next s3) k \<and> k \<noteq> pid \<and>
        (\<exists>j. jd_jobs s3 (pr_JobId p) = Some j \<and> k \<in> set (job_ProposalIds j))" if "jd_proposals s3 k = Some p" for k p
      using old [of k p] that j0(1) by (auto simp: s3_def s2_def j_def)
    have s3: "finite (dom (jd_proposals s3))" "jd_jobs s3 (job_Id j0) = Some j" "job_ProposalIds j = job_ProposalIds j0 @ [pid]"
        "made_id E ''prop'' (jd_next s3) pid"
      using proposals_okD(1) [OF props] made(1) by (simp_all add: s3_def s2_def j_def)
    note insert = insert_last_ok [OF env jobs3 s3(1) kept listed s3(2-4) only, where now = now and spec = spec]
    show ?thesis
      unfolding upsert using insert Some j0 fresh(1)
      by (auto simp: Let_def s3_def s2_def j_def)
  next
    case None
    define j where "j = \<lparr>job_Id = jid, job_Uuid = u, job_NodeId = nodeID, job_ProposalIds = [pid], job_Labels = labels,
      job_CreatedAt = now, job_UpdatedAt = now, job_DeletedAt = None, job_RollbackPolicyId = None\<rparr>"
    define s3 where "s3 = s2\<lparr>jd_jobs := (jd_jobs s)(jid \<mapsto> j)\<rparr>"
    have upsert: "upsertProposal E now nodeID spec labels s = insertProposal E now spec pid jid s3"
      using spec None lookup
      by (simp add: upsertProposal_def newProposalID_def newJobID_def newID_def pid_def jid_def s2_def s3_def j_def)
    have nokey: "\<not> (job_Uuid x = u \<and> job_NodeId x = nodeID)" if "jd_jobs s i = Some x" for i x
      using find_job_law [OF env jobs, of u nodeID x] None that jobs_okD(2) [OF jobs that] by auto
    have jobs3: "jobs_ok E s3"
      unfolding jobs_ok_def
    proof (intro conjI allI impI)
      show "finite (dom (jd_jobs s3))" using jobs_okD(1) [OF jobs] by (simp add: s3_def)
      fix i x assume x: "jd_jobs s3 i = Some x"
      show "job_Id x = i" "made_id E ''job'' (jd_next s3) i" "job_ProposalIds x \<noteq> []"
        using x jobs_okD(2,3,4) [OF jobs, of i] made(2) made_id_mono [of E "''job''" "jd_next s" i ?n]
        by (auto simp: s3_def s2_def j_def split: if_splits)
      fix i' x' assume x': "jd_jobs s3 i' = Some x'" "job_Uuid x = job_Uuid x'" "job_NodeId x = job_NodeId x'"
      show "i = i'"
        using x x' nokey [of i x] nokey [of i' x'] jobs_okD(5) [OF jobs, of i x i' x']
        by (auto simp: s3_def j_def split: if_splits)
    qed
    have listed: "distinct (job_ProposalIds x) \<and> (\<forall>k < length (job_ProposalIds x). job_ProposalIds x ! k \<noteq> pid \<longrightarrow>
         (\<exists>p. jd_proposals s3 (job_ProposalIds x ! k) = Some p \<and> pr_JobId p = i \<and> pr_Revision p = int k + 1))"
      if "jd_jobs s3 i = Some x" for i x
      using that proposals_okD(5,6) [OF props] by (auto simp: s3_def s2_def j_def split: if_splits)
    have only: "i' = jid" if "jd_jobs s3 i' = Some j'" "pid \<in> set (job_ProposalIds j')" for i' j'
      using that fresh(3) by (auto simp: s3_def split: if_splits)
    have kept: "pr_Id p = k \<and> made_id E ''prop'' (jd_next s3) k \<and> k \<noteq> pid \<and>
        (\<exists>j. jd_jobs s3 (pr_JobId p) = Some j \<and> k \<in> set (job_ProposalIds j))" if "jd_proposals s3 k = Some p" for k p
      using old [of k p] that fresh(2) by (auto simp: s3_def s2_def)
    have s3: "finite (dom (jd_proposals s3))" "jd_jobs s3 (jid) = Some j" "job_ProposalIds j = [] @ [pid]"
        "made_id E ''prop'' (jd_next s3) pid"
      using proposals_okD(1) [OF props] made(1) by (simp_all add: s3_def s2_def j_def)
    note insert = insert_last_ok [OF env jobs3 s3(1) kept listed s3(2-4) only, where now = now and spec = spec]
    show ?thesis
      unfolding upsert using insert None fresh(1,2)
      by (auto simp: Let_def s3_def s2_def j_def)
  qed
qed

section \<open>The reachable states\<close>

text \<open>The calls of the client that change its state, in any order.\<close>

inductive jd_reach :: "('k, 'c) jd_env \<Rightarrow> ('k, 'c) jd_state \<Rightarrow> bool" for E where
  jd_new: "jd_reach E NewMemoryJobDistributor"
| jd_propose: "jd_reach E s \<Longrightarrow> jd_reach E (snd (ProposeJob E now req s))"
| jd_batch: "jd_reach E s \<Longrightarrow> jd_reach E (snd (BatchProposeJob E now breq s))"
| jd_revoke: "jd_reach E s \<Longrightarrow> jd_reach E (snd (RevokeJob E rreq s))"
| jd_delete: "jd_reach E s \<Longrightarrow> jd_reach E (snd (DeleteJob now dreq s))"
| jd_update: "jd_reach E s \<Longrightarrow> jd_reach E (snd (UpdateJob ureq s))"
| jd_register: "jd_reach E s \<Longrightarrow> jd_reach E (snd (RegisterNode E now nreq s))"
| jd_node: "jd_reach E s \<Longrightarrow> jd_reach E (snd (UpdateNode unreq s))"
| jd_enable: "jd_reach E s \<Longrightarrow> jd_reach E (snd (EnableNode ereq s))"
| jd_disable: "jd_reach E s \<Longrightarrow> jd_reach E (snd (DisableNode ereq s))"
| jd_config: "jd_reach E s \<Longrightarrow> jd_reach E (snd (AddChainConfig nodeID config s))"
| jd_key: "jd_reach E s \<Longrightarrow> jd_reach E (AddKeypair pk kp s)"

lemma upsert_ok:
  assumes "jd_env_ok E" "jd_ok E s"
  shows "jd_ok E (snd (upsertProposal E now nodeID spec labels s))"
proof (cases "getSpecUUID E spec")
  case None
  then show ?thesis using assms(2) by (simp add: upsertProposal_def)
next
  case (Some u)
  from upsert_proposal_law [OF assms Some, of now nodeID labels] show ?thesis by auto
qed

lemma batch_ok:
  "\<lbrakk>jd_env_ok E; jd_ok E s\<rbrakk> \<Longrightarrow> jd_ok E (snd (propose_each E now spec labels nodeIDs responses s))"
proof (induction nodeIDs arbitrary: responses s)
  case (Cons n ns)
  have "jd_ok E (snd (upsertProposal E now n spec labels s))" using upsert_ok Cons.prems by blast
  then show ?case using Cons.IH [OF Cons.prems(1)] by (auto split: prod.split sum.split)
qed simp

text \<open>Calls that change neither the jobs and proposals nor the counter backwards.\<close>

lemma jd_ok_same:
  assumes "jd_ok E s" "jd_jobs t = jd_jobs s" "jd_proposals t = jd_proposals s" "jd_next s \<le> jd_next t"
  shows "jd_ok E t"
proof -
  have mono: "made_id E pre (jd_next s) i \<Longrightarrow> made_id E pre (jd_next t) i" for pre i
    using assms(4) by (rule made_id_mono [rotated])
  have "jobs_ok E t"
    using jd_okD(1) [OF assms(1)] mono unfolding jobs_ok_def assms(2) by blast
  moreover have "proposals_ok E t"
    using jd_okD(2) [OF assms(1)] mono unfolding proposals_ok_def assms(2,3) by blast
  ultimately show ?thesis by (simp add: jd_ok_def)
qed

text \<open>Changing a job or a proposal without touching what the invariant speaks of.\<close>

lemma jd_ok_job:
  assumes ok: "jd_ok E s" and j: "jd_jobs s i = Some j"
    and same: "job_Id j' = job_Id j" "job_Uuid j' = job_Uuid j" "job_NodeId j' = job_NodeId j" "job_ProposalIds j' = job_ProposalIds j"
  shows "jd_ok E (s\<lparr>jd_jobs := (jd_jobs s)(i \<mapsto> j')\<rparr>)"
proof -
  let ?t = "s\<lparr>jd_jobs := (jd_jobs s)(i \<mapsto> j')\<rparr>"
  have key: "\<exists>y. jd_jobs s k = Some y \<and> job_Id y = job_Id x \<and> job_Uuid y = job_Uuid x \<and> job_NodeId y = job_NodeId x \<and>
      job_ProposalIds y = job_ProposalIds x" if "jd_jobs ?t k = Some x" for k x
    using that j same by (auto split: if_splits)
  have forth: "\<exists>y. jd_jobs ?t k = Some y \<and> job_ProposalIds y = job_ProposalIds x" if "jd_jobs s k = Some x" for k x
    using that j same by auto
  have "jobs_ok E ?t"
    unfolding jobs_ok_def
  proof (intro conjI allI impI)
    show "finite (dom (jd_jobs ?t))" using jobs_okD(1) [OF jd_okD(1) [OF ok]] by simp
    fix k x assume x: "jd_jobs ?t k = Some x"
    show "job_Id x = k" "made_id E ''job'' (jd_next ?t) k" "job_ProposalIds x \<noteq> []"
      using key [OF x] jobs_okD(2,3,4) [OF jd_okD(1) [OF ok], of k] by auto
    fix k' x' assume "jd_jobs ?t k' = Some x'" "job_Uuid x = job_Uuid x'" "job_NodeId x = job_NodeId x'"
    then show "k = k'" using key [OF x] key [of k' x'] jobs_okD(5) [OF jd_okD(1) [OF ok]] by metis
  qed
  moreover have "proposals_ok E ?t"
    unfolding proposals_ok_def
  proof (intro conjI allI impI)
    show "finite (dom (jd_proposals ?t))" using proposals_okD(1) [OF jd_okD(2) [OF ok]] by simp
    fix k p assume "jd_proposals ?t k = Some p"
    then have p: "jd_proposals s k = Some p" by simp
    show "pr_Id p = k" "made_id E ''prop'' (jd_next ?t) k" using proposals_okD(2,3) [OF jd_okD(2) [OF ok] p] by simp_all
    show "\<exists>j. jd_jobs ?t (pr_JobId p) = Some j \<and> k \<in> set (job_ProposalIds j)"
      using proposals_okD(4) [OF jd_okD(2) [OF ok] p] forth by metis
  next
    fix k x assume x: "jd_jobs ?t k = Some x"
    then show "distinct (job_ProposalIds x)" using key [OF x] proposals_okD(5) [OF jd_okD(2) [OF ok], of k] by auto
    fix n assume "n < length (job_ProposalIds x)"
    then show "\<exists>p. jd_proposals ?t (job_ProposalIds x ! n) = Some p \<and> pr_JobId p = k \<and> pr_Revision p = int n + 1"
      using key [OF x] proposals_okD(6) [OF jd_okD(2) [OF ok], of k _ n] by auto
  qed
  ultimately show ?thesis by (simp add: jd_ok_def)
qed

lemma jd_ok_proposal:
  assumes ok: "jd_ok E s" and p: "jd_proposals s i = Some p"
  shows "jd_ok E (s\<lparr>jd_proposals := (jd_proposals s)(i \<mapsto> p\<lparr>pr_Status := st\<rparr>)\<rparr>)"
proof -
  let ?t = "s\<lparr>jd_proposals := (jd_proposals s)(i \<mapsto> p\<lparr>pr_Status := st\<rparr>)\<rparr>"
  note props = jd_okD(2) [OF ok]
  have key: "\<exists>q. jd_proposals s k = Some q \<and> pr_Id q = pr_Id x \<and> pr_JobId q = pr_JobId x" if "jd_proposals ?t k = Some x" for k x
    using that p by (auto split: if_splits)
  have forth: "\<exists>x. jd_proposals ?t k = Some x \<and> pr_JobId x = pr_JobId q \<and> pr_Revision x = pr_Revision q"
    if "jd_proposals s k = Some q" for k q using that p by auto
  have "proposals_ok E ?t"
    unfolding proposals_ok_def
  proof (intro conjI allI impI)
    show "finite (dom (jd_proposals ?t))" using proposals_okD(1) [OF props] by simp
    fix k x assume x: "jd_proposals ?t k = Some x"
    show "pr_Id x = k" "made_id E ''prop'' (jd_next ?t) k" using key [OF x] proposals_okD(2,3) [OF props] by auto
    show "\<exists>j. jd_jobs ?t (pr_JobId x) = Some j \<and> k \<in> set (job_ProposalIds j)"
      using key [OF x] proposals_okD(4) [OF props, of k] by fastforce
  next
    fix k j assume "jd_jobs ?t k = Some j"
    then have j: "jd_jobs s k = Some j" by simp
    show "distinct (job_ProposalIds j)" using proposals_okD(5) [OF props j] .
    fix n assume "n < length (job_ProposalIds j)"
    then show "\<exists>x. jd_proposals ?t (job_ProposalIds j ! n) = Some x \<and> pr_JobId x = k \<and> pr_Revision x = int n + 1"
      using proposals_okD(6) [OF props j] forth by metis
  qed
  moreover have "jobs_ok E ?t" using jd_okD(1) [OF ok] by (simp add: jobs_ok_def)
  ultimately show ?thesis by (simp add: jd_ok_def)
qed

lemma listed_last:
  assumes "jd_ok E s" "jd_jobs s i = Some j"
  shows "\<exists>p. jd_proposals s (last (job_ProposalIds j)) = Some p"
proof -
  have ne: "job_ProposalIds j \<noteq> []" using jobs_okD(4) [OF jd_okD(1) [OF assms(1)] assms(2)] .
  then show ?thesis
    using proposals_okD(6) [OF jd_okD(2) [OF assms(1)] assms(2), of "length (job_ProposalIds j) - 1"]
    by (auto simp: last_conv_nth)
qed

lemma revoke_ok:
  assumes "jd_env_ok E" "jd_ok E s"
  shows "jd_ok E (snd (RevokeJob E req s))"
proof -
  have step: "jd_ok E (snd (case getHighestRevisionProposalByJobID E i s of
      None \<Rightarrow> (Inl (ProposalNotFound i), s)
    | Some prop \<Rightarrow>
        if pr_Status prop \<notin> {StatusPROPOSED, StatusCANCELLED} then (Inl JobCannotBeRevoked, s)
        else let prop = prop\<lparr>pr_Status := StatusREVOKED\<rparr> in
          (Inr prop, s\<lparr>jd_proposals := (jd_proposals s)(pr_Id prop \<mapsto> prop)\<rparr>)))" for i
  proof (cases "getHighestRevisionProposalByJobID E i s")
    case (Some p)
    then obtain k where "jd_proposals s k = Some p"
      using highest_proposal [OF assms, of i] by (auto split: option.splits)
    moreover from this have "pr_Id p = k" using proposals_okD(2) [OF jd_okD(2) [OF assms(2)]] by blast
    ultimately show ?thesis using Some assms(2) jd_ok_proposal [OF assms(2), of k p StatusREVOKED] by (simp add: Let_def)
  qed (use assms(2) in simp)
  show ?thesis using step assms(2) unfolding RevokeJob_def
    by (auto split: option.split id_oneof.split sum.split)
qed

lemma change_node_jobs [simp]:
  "jd_jobs (snd (change_node req f s)) = jd_jobs s" "jd_proposals (snd (change_node req f s)) = jd_proposals s"
  "jd_next (snd (change_node req f s)) = jd_next s"
  by (auto simp: change_node_def split: option.split)

lemma jd_reach_ok:
  assumes "jd_env_ok E" "jd_reach E s"
  shows "jd_ok E s"
  using assms(2)
proof (induction rule: jd_reach.induct)
  case jd_new
  show ?case by (rule jd_ok_new)
next
  case (jd_propose s now req)
  then show ?case using upsert_ok [OF assms(1)] by (auto simp: ProposeJob_def split: option.split)
next
  case (jd_batch s now breq)
  then show ?case using batch_ok [OF assms(1)] by (auto simp: BatchProposeJob_def split: option.split)
next
  case (jd_revoke s rreq)
  then show ?case using revoke_ok [OF assms(1)] by blast
next
  case (jd_delete s now dreq)
  then show ?case by (auto simp: DeleteJob_def Let_def split: option.split id_oneof.split intro: jd_ok_job)
next
  case (jd_update s ureq)
  then show ?case
    by (auto simp: UpdateJob_def Let_def split: option.split id_oneof.split intro!: jd_ok_job)
next
  case (jd_register s now nreq)
  then show ?case
    by (intro jd_ok_same [OF jd_register.IH]) (auto simp: RegisterNode_def newNodeID_def newID_def Let_def split: option.split)
next
  case (jd_node s unreq)
  then show ?case by (intro jd_ok_same [OF jd_node.IH]) (auto simp: UpdateNode_def split: option.split)
next
  case (jd_enable s ereq)
  then show ?case by (intro jd_ok_same [OF jd_enable.IH]) (auto simp: EnableNode_def)
next
  case (jd_disable s ereq)
  then show ?case by (intro jd_ok_same [OF jd_disable.IH]) (auto simp: DisableNode_def)
next
  case (jd_config s nodeID config)
  then show ?case by (intro jd_ok_same [OF jd_config.IH]) (auto simp: AddChainConfig_def)
next
  case (jd_key s pk kp)
  then show ?case by (intro jd_ok_same [OF jd_key.IH]) (auto simp: AddKeypair_def split: option.split)
qed

text \<open>
  C12: the invariant of the job distributor, after any sequence of calls and for any iteration orders
  of its maps: jobs and proposals are stored under their own ids; a node has at most one job per
  external job id; every proposal belongs to a stored job that lists it; and the proposals a job
  lists are distinct, the k-th one having revision k.
\<close>

theorem job_distributor_invariant:
  assumes "jd_env_ok E" "jd_reach E s"
  shows "(\<forall>i j. jd_jobs s i = Some j \<longrightarrow> job_Id j = i \<and> distinct (job_ProposalIds j) \<and>
       (\<forall>k < length (job_ProposalIds j). \<exists>p. jd_proposals s (job_ProposalIds j ! k) = Some p \<and>
          pr_JobId p = i \<and> pr_Revision p = int k + 1)) \<and>
    (\<forall>i p. jd_proposals s i = Some p \<longrightarrow> pr_Id p = i \<and> (\<exists>j. jd_jobs s (pr_JobId p) = Some j \<and> i \<in> set (job_ProposalIds j))) \<and>
    (\<forall>i j i' j'. jd_jobs s i = Some j \<longrightarrow> jd_jobs s i' = Some j' \<longrightarrow>
       job_Uuid j = job_Uuid j' \<longrightarrow> job_NodeId j = job_NodeId j' \<longrightarrow> i = i')"
proof -
  have ok: "jd_ok E s" by (rule jd_reach_ok [OF assms])
  show ?thesis
    using jobs_okD(2,5) [OF jd_okD(1) [OF ok]] proposals_okD(2,4,5,6) [OF jd_okD(2) [OF ok]] by blast
qed

text \<open>A closed environment: identifiers are numbers, a specification is its own external id.\<close>

definition any_order :: "(string \<rightharpoonup> 'a) \<Rightarrow> string list" where
  "any_order m = (if finite (dom m) then sorted_list_of_set (dom m) else [])"

definition example_jd_env :: "(nat, nat) jd_env" where
  "example_jd_env =
     \<lparr>je_ksuid = dec_string, je_decode_spec = (\<lambda>s. Some (Some s)), je_jobs = any_order, je_proposals = any_order,
      je_nodes = any_order, je_keypairs = any_order, je_chainConfigs = any_order\<rparr>"

lemma example_jd_env_ok: "jd_env_ok example_jd_env"
proof -
  have "inj dec_string" by (rule inj_on_inverseI [of _ parse_dec]) simp
  then show ?thesis by (simp add: jd_env_ok_def example_jd_env_def any_order_def iteration_of_def)
qed

text \<open>The state after a first proposal.\<close>

lemma example_proposed:
  defines "s \<equiv> snd (ProposeJob example_jd_env 1 (Some (''n'', ''u'', [])) NewMemoryJobDistributor)"
  shows "jd_jobs s ''job_1'' = Some \<lparr>job_Id = ''job_1'', job_Uuid = ''u'', job_NodeId = ''n'', job_ProposalIds = [''prop_0''],
      job_Labels = [], job_CreatedAt = 1, job_UpdatedAt = 1, job_DeletedAt = None, job_RollbackPolicyId = None\<rparr>"
    and "jd_proposals s ''prop_0'' = Some \<lparr>pr_Id = ''prop_0'', pr_Revision = 1, pr_Status = StatusPROPOSED,
      pr_DeliveryStatus = DeliveryDELIVERED, pr_JobId = ''job_1'', pr_Spec = ''u'', pr_CreatedAt = 1, pr_UpdatedAt = 1\<rparr>"
proof -
  have ids: "dec_string 0 = ''0''" "dec_string 1 = ''1''" "dec_string (Suc 0) = ''1''" by code_simp+
  show "jd_jobs s ''job_1'' = Some \<lparr>job_Id = ''job_1'', job_Uuid = ''u'', job_NodeId = ''n'', job_ProposalIds = [''prop_0''],
      job_Labels = [], job_CreatedAt = 1, job_UpdatedAt = 1, job_DeletedAt = None, job_RollbackPolicyId = None\<rparr>"
    and "jd_proposals s ''prop_0'' = Some \<lparr>pr_Id = ''prop_0'', pr_Revision = 1, pr_Status = StatusPROPOSED,
      pr_DeliveryStatus = DeliveryDELIVERED, pr_JobId = ''job_1'', pr_Spec = ''u'', pr_CreatedAt = 1, pr_UpdatedAt = 1\<rparr>"
    by (simp_all add: s_def ProposeJob_def upsertProposal_def insertProposal_def getSpecUUID_def example_jd_env_def
        newProposalID_def newJobID_def newID_def NewMemoryJobDistributor_def getJobByUUIDAndNodeID_def any_order_def
        in_order_def getNextRevisionNum_def proposalsByJobCount_def ids Let_def)
qed

theorem job_distributor_invariant_witness:
  "\<exists>j. jd_jobs (snd (ProposeJob example_jd_env 1 (Some (''n'', ''u'', [])) NewMemoryJobDistributor)) ''job_1'' = Some j \<and>
     distinct (job_ProposalIds j) \<and> job_ProposalIds j = [''prop_0'']"
  using job_distributor_invariant [OF example_jd_env_ok
      jd_propose [OF jd_new, where now = 1 and req = "Some (''n'', ''u'', [])"]] example_proposed(1) by auto

text \<open>
  C39: proposing a job, in any reachable state. A specification with an external job id always gets a
  new proposal of that specification, in status proposed, that its job lists last and whose revision is the number of
  proposals of the job; the job is the one of that external id and node if there is one, otherwise as it was, and else
  a new one with the labels of the request. No other job or proposal changes, nor do nodes, keys and chain
  configurations; two identifiers have been drawn.
\<close>

theorem ProposeJob_revisions:
  assumes "jd_env_ok E" "jd_reach E s" "getSpecUUID E spec = Some u"
  shows "\<exists>p j t. ProposeJob E now (Some (nodeID, spec, labels)) s = (Inr p, t) \<and>
    t = s\<lparr>jd_jobs := (jd_jobs s)(pr_JobId p \<mapsto> j), jd_proposals := (jd_proposals s)(pr_Id p \<mapsto> p), jd_next := jd_next s + 2\<rparr> \<and>
    jd_proposals s (pr_Id p) = None \<and> pr_Status p = StatusPROPOSED \<and> pr_DeliveryStatus p = DeliveryDELIVERED \<and>
    pr_Spec p = spec \<and> pr_CreatedAt p = now \<and> pr_UpdatedAt p = now \<and>
    pr_Revision p = int (length (job_ProposalIds j)) \<and>
    (if \<exists>j0. jd_jobs s (job_Id j0) = Some j0 \<and> job_Uuid j0 = u \<and> job_NodeId j0 = nodeID
     then \<exists>j0. jd_jobs s (pr_JobId p) = Some j0 \<and> job_Uuid j0 = u \<and> job_NodeId j0 = nodeID \<and>
       j = j0\<lparr>job_ProposalIds := job_ProposalIds j0 @ [pr_Id p]\<rparr>
     else jd_jobs s (pr_JobId p) = None \<and> j = \<lparr>job_Id = pr_JobId p, job_Uuid = u, job_NodeId = nodeID,
         job_ProposalIds = [pr_Id p], job_Labels = labels, job_CreatedAt = now, job_UpdatedAt = now, job_DeletedAt = None,
         job_RollbackPolicyId = None\<rparr>)"
proof -
  have ok: "jd_ok E s" by (rule jd_reach_ok [OF assms(1,2)])
  note found = find_job_law [OF assms(1) jd_okD(1) [OF ok], of u nodeID]
  obtain p j t where up: "upsertProposal E now nodeID spec labels s = (Inr p, t)"
    and fields: "pr_Status p = StatusPROPOSED" "pr_DeliveryStatus p = DeliveryDELIVERED" "pr_Spec p = spec"
      "pr_CreatedAt p = now" "pr_UpdatedAt p = now" "pr_Revision p = int (length (job_ProposalIds j))"
    and new: "jd_proposals s (pr_Id p) = None"
    and state: "jd_proposals t = (jd_proposals s)(pr_Id p \<mapsto> p)" "jd_jobs t = (jd_jobs s)(pr_JobId p \<mapsto> j)"
      "jd_nodes t = jd_nodes s" "jd_keypairs t = jd_keypairs s" "jd_chainConfigs t = jd_chainConfigs s" "jd_next t = jd_next s + 2"
    and job: "case getJobByUUIDAndNodeID E u nodeID s of
       Some j0 \<Rightarrow> pr_JobId p = job_Id j0 \<and> j = j0\<lparr>job_ProposalIds := job_ProposalIds j0 @ [pr_Id p]\<rparr>
     | None \<Rightarrow> jd_jobs s (pr_JobId p) = None \<and> j = \<lparr>job_Id = pr_JobId p, job_Uuid = u, job_NodeId = nodeID,
         job_ProposalIds = [pr_Id p], job_Labels = labels, job_CreatedAt = now, job_UpdatedAt = now, job_DeletedAt = None,
         job_RollbackPolicyId = None\<rparr>"
    using upsert_proposal_law [OF assms(1) ok assms(3), of now nodeID labels] by (elim exE conjE) (rule that; assumption)
  have run: "ProposeJob E now (Some (nodeID, spec, labels)) s = (Inr p, t)" using up by (simp add: ProposeJob_def)
  have t: "t = s\<lparr>jd_jobs := (jd_jobs s)(pr_JobId p \<mapsto> j), jd_proposals := (jd_proposals s)(pr_Id p \<mapsto> p), jd_next := jd_next s + 2\<rparr>"
    using state by (cases s; cases t) simp
  have target: "if \<exists>j0. jd_jobs s (job_Id j0) = Some j0 \<and> job_Uuid j0 = u \<and> job_NodeId j0 = nodeID
     then \<exists>j0. jd_jobs s (pr_JobId p) = Some j0 \<and> job_Uuid j0 = u \<and> job_NodeId j0 = nodeID \<and>
       j = j0\<lparr>job_ProposalIds := job_ProposalIds j0 @ [pr_Id p]\<rparr>
     else jd_jobs s (pr_JobId p) = None \<and> j = \<lparr>job_Id = pr_JobId p, job_Uuid = u, job_NodeId = nodeID,
         job_ProposalIds = [pr_Id p], job_Labels = labels, job_CreatedAt = now, job_UpdatedAt = now, job_DeletedAt = None,
         job_RollbackPolicyId = None\<rparr>"
  proof (cases "getJobByUUIDAndNodeID E u nodeID s")
    case None
    then have "\<not> (\<exists>j0. jd_jobs s (job_Id j0) = Some j0 \<and> job_Uuid j0 = u \<and> job_NodeId j0 = nodeID)"
      using found by auto
    then show ?thesis using job None by simp
  next
    case (Some j0)
    then have j0: "jd_jobs s (job_Id j0) = Some j0 \<and> job_Uuid j0 = u \<and> job_NodeId j0 = nodeID" using found by blast
    then have "\<exists>j0. jd_jobs s (job_Id j0) = Some j0 \<and> job_Uuid j0 = u \<and> job_NodeId j0 = nodeID" by blast
    then show ?thesis using job Some j0 by auto
  qed
  show ?thesis
    by (rule exI [of _ p], rule exI [of _ j], rule exI [of _ t]) (intro conjI run t new fields target)
qed

theorem ProposeJob_revisions_witness:
  "\<exists>p t. ProposeJob example_jd_env 1 (Some (''n'', ''u'', [])) NewMemoryJobDistributor = (Inr p, t) \<and> pr_Revision p = 1 \<and>
     pr_Spec p = ''u'' \<and> jd_nodes t = Map.empty"
proof -
  have "getSpecUUID example_jd_env ''u'' = Some ''u''" by (simp add: getSpecUUID_def example_jd_env_def)
  from ProposeJob_revisions [OF example_jd_env_ok jd_new this, of 1 "''n''" "[]"]
  show ?thesis by (auto simp: NewMemoryJobDistributor_def)
qed

text \<open>
  Revoking, in any reachable state. The proposal considered is the one its job lists last, that
  is the one with the highest revision, whatever the iteration order. It becomes revoked if it was
  proposed or cancelled, and nothing else changes; otherwise, and when there is no such job, the call
  fails and changes nothing.
\<close>

lemma RevokeJob_latest:
  assumes "jd_env_ok E" "jd_reach E s" "i \<noteq> []"
  shows "RevokeJob E (Some (ById i)) s =
    (case jd_jobs s i of
       None \<Rightarrow> (Inl (ProposalNotFound i), s)
     | Some j \<Rightarrow>
         let p = the (jd_proposals s (last (job_ProposalIds j))) in
         if pr_Status p \<in> {StatusPROPOSED, StatusCANCELLED}
         then (Inr (p\<lparr>pr_Status := StatusREVOKED\<rparr>),
               s\<lparr>jd_proposals := (jd_proposals s)(last (job_ProposalIds j) \<mapsto> p\<lparr>pr_Status := StatusREVOKED\<rparr>)\<rparr>)
         else (Inl JobCannotBeRevoked, s))"
proof -
  have ok: "jd_ok E s" by (rule jd_reach_ok [OF assms(1,2)])
  show ?thesis
  proof (cases "jd_jobs s i")
    case None
    then show ?thesis using assms(3) highest_proposal [OF assms(1) ok, of i] by (simp add: RevokeJob_def)
  next
    case (Some j)
    obtain p where p: "jd_proposals s (last (job_ProposalIds j)) = Some p"
      using listed_last [OF ok Some] by blast
    then have "pr_Id p = last (job_ProposalIds j)" using proposals_okD(2) [OF jd_okD(2) [OF ok]] by blast
    then show ?thesis
      using assms(3) highest_proposal [OF assms(1) ok, of i] Some p by (simp add: RevokeJob_def Let_def)
  qed
qed

lemma RevokeJob_latest_witness:
  "\<exists>p. fst (RevokeJob example_jd_env (Some (ById ''job_1''))
       (snd (ProposeJob example_jd_env 1 (Some (''n'', ''u'', [])) NewMemoryJobDistributor))) = Inr p \<and> pr_Status p = StatusREVOKED"
  using RevokeJob_latest [OF example_jd_env_ok
      jd_propose [OF jd_new, where now = 1 and req = "Some (''n'', ''u'', [])"], of "''job_1''"]
  by (simp add: example_proposed Let_def)

end
