(* ===== verification/Analyzer_Graph.thy ===== *)
theory Analyzer_Graph
  imports Go_Prelude
begin

text \<open>
  The scheduler of the proposal analysis (\<open>engine/cld/mcms/proposalanalysis/scheduler/dependency_graph.go\<close>):
  the graph of the analyzers, layered so that an analyzer comes after all it depends on, and its
  best-effort execution, level by level, the analyzers of a level in parallel.

  An analyzer is its id, its dependencies and a body the scheduler only hands to the run function.
  The execution is a step relation: the loop over a level, the completions of the analyzers it
  launched and the checks of the context interleave in any order the source allows. What the run
  function returns for an analyzer is a parameter; each analyzer is run at most once, so it is a
  function of the id.
\<close>

section \<open>Building the graph\<close>

record 'b analyzer =
  an_ID :: string
  an_Dependencies :: "string list"
  an_body :: 'b

datatype graph_error =
    EmptyID
  | DuplicateID string
  | EmptyDependency string
  | SelfDependency string
  | UnknownDependency string string
  | GraphCycle

record 'b graph =
  gr_byID :: "string \<rightharpoonup> 'b analyzer"
  gr_levels :: "string list list"

fun register_analyzers :: "'b analyzer list \<Rightarrow> (string \<rightharpoonup> 'b analyzer) \<Rightarrow> graph_error + (string \<rightharpoonup> 'b analyzer)" where
  "register_analyzers [] byID = Inr byID"
| "register_analyzers (a # as) byID =
     (if an_ID a = [] then Inl EmptyID
      else if byID (an_ID a) \<noteq> None then Inl (DuplicateID (an_ID a))
      else register_analyzers as (byID(an_ID a \<mapsto> a)))"

text \<open>The in-degrees and the dependents: maps whose missing entries read as zero and as no one.\<close>

type_synonym edges = "(string \<Rightarrow> int) \<times> (string \<Rightarrow> string list)"

fun add_dependencies ::
  "(string \<rightharpoonup> 'b analyzer) \<Rightarrow> string \<Rightarrow> string list \<Rightarrow> string set \<Rightarrow> edges \<Rightarrow> graph_error + edges" where
  "add_dependencies byID aid [] seenDeps st = Inr st"
| "add_dependencies byID aid (depID # deps) seenDeps (inDegree, dependents) =
     (if depID = [] then Inl (EmptyDependency aid)
      else if depID = aid then Inl (SelfDependency aid)
      else if byID depID = None then Inl (UnknownDependency aid depID)
      else if depID \<in> seenDeps then add_dependencies byID aid deps seenDeps (inDegree, dependents)
      else add_dependencies byID aid deps (insert depID seenDeps)
             (inDegree(aid := inDegree aid + 1), dependents(depID := dependents depID @ [aid])))"

fun add_all_dependencies ::
  "(string \<rightharpoonup> 'b analyzer) \<Rightarrow> 'b analyzer list \<Rightarrow> edges \<Rightarrow> graph_error + edges" where
  "add_all_dependencies byID [] st = Inr st"
| "add_all_dependencies byID (a # as) st =
     (case add_dependencies byID (an_ID a) (an_Dependencies a) {} st of
        Inl e \<Rightarrow> Inl e
      | Inr st \<Rightarrow> add_all_dependencies byID as st)"

text \<open>One dependency of \<open>d\<close> is done; the dependents of a whole level, in order.\<close>

fun release :: "string \<Rightarrow> (string \<Rightarrow> int) \<times> string list \<Rightarrow> (string \<Rightarrow> int) \<times> string list" where
  "release d (inDegree, next) =
     (inDegree(d := inDegree d - 1), if inDegree d - 1 = 0 then next @ [d] else next)"

definition release_level ::
  "(string \<Rightarrow> string list) \<Rightarrow> string list \<Rightarrow> (string \<Rightarrow> int) \<Rightarrow> (string \<Rightarrow> int) \<times> string list" where
  "release_level dependents level inDegree =
     fold (\<lambda>aid. fold release (dependents aid)) level (inDegree, [])"

partial_function (option) layer_loop ::
  "(string \<Rightarrow> string list) \<Rightarrow> string list \<Rightarrow> (string \<Rightarrow> int) \<Rightarrow> string list list \<Rightarrow> int \<Rightarrow>
   (string list list \<times> int) option" where
  "layer_loop dependents queue inDegree levels processed =
     (if queue = [] then Some (levels, processed)
      else
        (case release_level dependents queue inDegree of
           (inDegree, next) \<Rightarrow>
             layer_loop dependents (sort next) inDegree (levels @ [queue]) (processed + int (length queue))))"

declare layer_loop.simps [code]

text \<open>\<open>None\<close> is a call that does not return; \<open>ord\<close> is the order in which the map of analyzers is ranged over.\<close>

definition NewGraph ::
  "((string \<rightharpoonup> 'b analyzer) \<Rightarrow> string list) \<Rightarrow> 'b analyzer list \<Rightarrow> (graph_error + 'b graph) option" where
  "NewGraph ord analyzers =
     (case register_analyzers analyzers Map.empty of
        Inl e \<Rightarrow> Some (Inl e)
      | Inr byID \<Rightarrow>
          (case add_all_dependencies byID analyzers (\<lambda>_. 0, \<lambda>_. []) of
             Inl e \<Rightarrow> Some (Inl e)
           | Inr (inDegree, dependents) \<Rightarrow>
               (case layer_loop dependents (sort (filter (\<lambda>aid. inDegree aid = 0) (ord byID))) inDegree [] 0 of
                  None \<Rightarrow> None
                | Some (levels, processed) \<Rightarrow>
                    Some (if processed \<noteq> int (length analyzers) then Inl GraphCycle
                          else Inr \<lparr>gr_byID = byID, gr_levels = levels\<rparr>))))"

definition Levels :: "'b graph \<Rightarrow> string list list" where
  "Levels g = gr_levels g"

section \<open>Running the analyzers\<close>

datatype 'e run_error = CtxError 'e | SkipAnalyzer string | RunAnalyzer string 'e

text \<open>
  Where the loop over the levels is: before the check of the context, inside a level, or after it.
  \<open>rs_started\<close> and \<open>rs_running\<close> are the goroutines launched so far and those that have not returned;
  the other fields are the variables of the source.
\<close>

datatype run_phase = AtCheck | InLevel | Stopped

record 'e run_state =
  rs_phase :: run_phase
  rs_levels :: "string list list"
  rs_pending :: "string list"
  rs_running :: "string list"
  rs_levelFailed :: "string list"
  rs_failedIDs :: "string set"
  rs_errors :: "'e run_error list"
  rs_started :: "string list"

definition run_start :: "'b graph \<Rightarrow> 'e run_state" where
  "run_start g =
     \<lparr>rs_phase = AtCheck, rs_levels = gr_levels g, rs_pending = [], rs_running = [], rs_levelFailed = [],
      rs_failedIDs = {}, rs_errors = [], rs_started = []\<rparr>"

definition has_failed_dep :: "'b analyzer \<Rightarrow> string set \<Rightarrow> bool" where
  "has_failed_dep a failedIDs \<longleftrightarrow> list_ex (\<lambda>depID. depID \<in> failedIDs) (an_Dependencies a)"

text \<open>
  A missing analyzer is a nil dereference: there is no step for it. A failing analyzer records its
  error and its id under two locks; the id is read after the whole level only, so one step does both.
\<close>

inductive run_step :: "'b graph \<Rightarrow> (string \<Rightarrow> 'e option) \<Rightarrow> 'e run_state \<Rightarrow> 'e run_state \<Rightarrow> bool" for g run where
  run_cancelled: "\<lbrakk>rs_phase s = AtCheck; rs_levels s \<noteq> []\<rbrakk> \<Longrightarrow>
     run_step g run s (s\<lparr>rs_phase := Stopped, rs_errors := rs_errors s @ [CtxError e]\<rparr>)"
| run_enter: "\<lbrakk>rs_phase s = AtCheck; rs_levels s = level # levels\<rbrakk> \<Longrightarrow>
     run_step g run s (s\<lparr>rs_phase := InLevel, rs_levels := levels, rs_pending := level, rs_levelFailed := []\<rparr>)"
| run_return: "\<lbrakk>rs_phase s = AtCheck; rs_levels s = []\<rbrakk> \<Longrightarrow>
     run_step g run s (s\<lparr>rs_phase := Stopped\<rparr>)"
| run_skip: "\<lbrakk>rs_phase s = InLevel; rs_pending s = aid # rest; gr_byID g aid = Some a; has_failed_dep a (rs_failedIDs s)\<rbrakk> \<Longrightarrow>
     run_step g run s (s\<lparr>rs_pending := rest, rs_errors := rs_errors s @ [SkipAnalyzer aid],
       rs_failedIDs := insert aid (rs_failedIDs s)\<rparr>)"
| run_launch: "\<lbrakk>rs_phase s = InLevel; rs_pending s = aid # rest; gr_byID g aid = Some a; \<not> has_failed_dep a (rs_failedIDs s)\<rbrakk> \<Longrightarrow>
     run_step g run s (s\<lparr>rs_pending := rest, rs_running := aid # rs_running s, rs_started := rs_started s @ [aid]\<rparr>)"
| run_complete: "\<lbrakk>rs_phase s = InLevel; aid \<in> set (rs_running s)\<rbrakk> \<Longrightarrow>
     run_step g run s
       (case run aid of
          None \<Rightarrow> s\<lparr>rs_running := remove1 aid (rs_running s)\<rparr>
        | Some err \<Rightarrow> s\<lparr>rs_running := remove1 aid (rs_running s), rs_errors := rs_errors s @ [RunAnalyzer aid err],
            rs_levelFailed := rs_levelFailed s @ [aid]\<rparr>)"
| run_level_end: "\<lbrakk>rs_phase s = InLevel; rs_pending s = []; rs_running s = []\<rbrakk> \<Longrightarrow>
     run_step g run s (s\<lparr>rs_phase := AtCheck, rs_failedIDs := rs_failedIDs s \<union> set (rs_levelFailed s)\<rparr>)"

definition run_reach :: "'b graph \<Rightarrow> (string \<Rightarrow> 'e option) \<Rightarrow> 'e run_state \<Rightarrow> bool" where
  "run_reach g run s \<longleftrightarrow> (run_step g run)\<^sup>*\<^sup>* (run_start g) s"

section \<open>The dependency relation\<close>

definition analyzer_ids :: "'b analyzer list \<Rightarrow> string set" where
  "analyzer_ids as = an_ID ` set as"

definition deps_of :: "'b analyzer list \<Rightarrow> string \<Rightarrow> string set" where
  "deps_of as v = {d. \<exists>a \<in> set as. an_ID a = v \<and> d \<in> set (an_Dependencies a)}"

definition dependency_rel :: "'b analyzer list \<Rightarrow> (string \<times> string) set" where
  "dependency_rel as = {(d, v). d \<in> deps_of as v}"

definition valid_analyzers :: "'b analyzer list \<Rightarrow> bool" where
  "valid_analyzers as \<longleftrightarrow> distinct (map an_ID as) \<and> [] \<notin> analyzer_ids as \<and>
     (\<forall>a \<in> set as. \<forall>d \<in> set (an_Dependencies a). d \<noteq> [] \<and> d \<noteq> an_ID a \<and> d \<in> analyzer_ids as)"

definition by_id :: "'b analyzer list \<Rightarrow> (string \<rightharpoonup> 'b analyzer)" where
  "by_id as = map_of (map (\<lambda>a. (an_ID a, a)) as)"

lemma dom_by_id [simp]: "dom (by_id as) = analyzer_ids as"
  by (simp add: by_id_def dom_map_of_conv_image_fst analyzer_ids_def image_image)

lemma by_id_known: "by_id as d \<noteq> None \<longleftrightarrow> d \<in> analyzer_ids as"
  using dom_by_id [of as] by blast

lemma by_id_member: "distinct (map an_ID as) \<Longrightarrow> a \<in> set as \<Longrightarrow> by_id as (an_ID a) = Some a"
  unfolding by_id_def by (rule map_of_is_SomeI) (auto simp: comp_def)

lemma by_id_SomeD: "by_id as v = Some a \<Longrightarrow> a \<in> set as \<and> an_ID a = v"
  unfolding by_id_def by (drule map_of_SomeD) auto

lemma deps_of_member: "distinct (map an_ID as) \<Longrightarrow> a \<in> set as \<Longrightarrow> deps_of as (an_ID a) = set (an_Dependencies a)"
  unfolding deps_of_def by (auto simp: distinct_map inj_on_def)

lemma finite_ids [simp]: "finite (analyzer_ids as)"
  by (simp add: analyzer_ids_def)

lemma finite_deps_of [simp]: "finite (deps_of as v)"
proof -
  have "deps_of as v \<subseteq> \<Union> (set ` an_Dependencies ` set as)" by (auto simp: deps_of_def)
  then show ?thesis by (rule finite_subset) simp
qed

lemma deps_of_ids: "valid_analyzers as \<Longrightarrow> deps_of as v \<subseteq> analyzer_ids as"
  by (auto simp: deps_of_def valid_analyzers_def)

lemma register_analyzers_law:
  "register_analyzers as byID = Inr m \<longleftrightarrow>
     distinct (map an_ID as) \<and> [] \<notin> analyzer_ids as \<and> analyzer_ids as \<inter> dom byID = {} \<and> m = byID ++ by_id as"
proof (induction as arbitrary: byID)
  case (Cons a as)
  show ?case
  proof (cases "an_ID a = [] \<or> byID (an_ID a) \<noteq> None")
    case True
    then show ?thesis by (auto simp: analyzer_ids_def)
  next
    case False
    let ?byID = "byID(an_ID a \<mapsto> a)"
    have step: "register_analyzers (a # as) byID = register_analyzers as ?byID" using False by simp
    have conds: "distinct (map an_ID as) \<and> [] \<notin> analyzer_ids as \<and> analyzer_ids as \<inter> dom ?byID = {} \<longleftrightarrow>
        distinct (map an_ID (a # as)) \<and> [] \<notin> analyzer_ids (a # as) \<and> analyzer_ids (a # as) \<inter> dom byID = {}"
      using False by (auto simp: analyzer_ids_def)
    have maps: "?byID ++ by_id as = byID ++ by_id (a # as)" if "an_ID a \<notin> analyzer_ids as"
      using that dom_by_id [of as] unfolding by_id_def
      by (auto simp: fun_eq_iff map_add_def split: option.split)
    show ?thesis unfolding step Cons.IH using conds maps by (auto simp: analyzer_ids_def)
  qed
qed (auto simp: analyzer_ids_def by_id_def)

text \<open>The edges of one analyzer, beyond those already seen.\<close>

lemma add_dependencies_law:
  "add_dependencies byID v ds seen (deg, deps) = Inr st \<longleftrightarrow>
     (\<forall>d \<in> set ds. d \<noteq> [] \<and> d \<noteq> v \<and> byID d \<noteq> None) \<and>
     st = (deg(v := deg v + int (card (set ds - seen))), \<lambda>d. if d \<in> set ds - seen then deps d @ [v] else deps d)"
proof (induction ds arbitrary: seen deg deps)
  case Nil
  show ?case by (auto simp: fun_eq_iff)
next
  case (Cons d ds)
  show ?case
  proof (cases "d = [] \<or> d = v \<or> byID d = None")
    case True
    then show ?thesis by auto
  next
    case ok: False
    show ?thesis
    proof (cases "d \<in> seen")
      case True
      then have "set (d # ds) - seen = set ds - seen" by auto
      then show ?thesis using ok True Cons.IH [of seen deg deps] by (simp only: add_dependencies.simps if_False if_True) auto
    next
      case False
      then have sets: "set (d # ds) - seen = insert d (set ds - insert d seen)" by auto
      have deg: "(deg(v := deg v + 1))(v := (deg(v := deg v + 1)) v + int (card (set ds - insert d seen))) =
          deg(v := deg v + int (card (set (d # ds) - seen)))"
        unfolding sets by (simp add: fun_eq_iff)
      have deps: "(\<lambda>x. if x \<in> set ds - insert d seen then (deps(d := deps d @ [v])) x @ [v] else (deps(d := deps d @ [v])) x) =
          (\<lambda>x. if x \<in> set (d # ds) - seen then deps x @ [v] else deps x)"
        unfolding sets by (auto simp: fun_eq_iff)
      have step: "add_dependencies byID v (d # ds) seen (deg, deps) =
          add_dependencies byID v ds (insert d seen) (deg(v := deg v + 1), deps(d := deps d @ [v]))"
        using ok False by auto
      show ?thesis unfolding step Cons.IH deg deps using ok by (simp add: fun_upd_def)
    qed
  qed
qed

lemma add_all_dependencies_law:
  "add_all_dependencies byID as (deg, deps) = Inr st \<longleftrightarrow>
     (\<forall>a \<in> set as. \<forall>d \<in> set (an_Dependencies a). d \<noteq> [] \<and> d \<noteq> an_ID a \<and> byID d \<noteq> None) \<and>
     st = (\<lambda>v. deg v + int (sum_list (map (\<lambda>a. if an_ID a = v then card (set (an_Dependencies a)) else 0) as)),
           \<lambda>d. deps d @ map an_ID (filter (\<lambda>a. d \<in> set (an_Dependencies a)) as))"
proof (induction as arbitrary: deg deps)
  case Nil
  show ?case by auto
next
  case (Cons a as)
  let ?ok = "\<forall>d \<in> set (an_Dependencies a). d \<noteq> [] \<and> d \<noteq> an_ID a \<and> byID d \<noteq> None"
  let ?st = "(deg(an_ID a := deg (an_ID a) + int (card (set (an_Dependencies a)))),
      \<lambda>d. if d \<in> set (an_Dependencies a) then deps d @ [an_ID a] else deps d)"
  note one = add_dependencies_law [of byID "an_ID a" "an_Dependencies a" "{}" deg deps, unfolded Diff_empty]
  show ?case
  proof (cases ?ok)
    case False
    then have "\<exists>e. add_dependencies byID (an_ID a) (an_Dependencies a) {} (deg, deps) = Inl e"
      using one by (metis sum.exhaust_sel)
    then show ?thesis using False by auto
  next
    case True
    then have "add_dependencies byID (an_ID a) (an_Dependencies a) {} (deg, deps) = Inr ?st" using one by blast
    then have step: "add_all_dependencies byID (a # as) (deg, deps) = add_all_dependencies byID as ?st" by simp
    show ?thesis
      unfolding step Cons.IH using True by (auto simp: fun_eq_iff)
  qed
qed

text \<open>The in-degrees and dependents of a valid list of analyzers.\<close>

lemma edges_of_valid:
  assumes "distinct (map an_ID as)"
  shows "int (sum_list (map (\<lambda>a. if an_ID a = v then card (set (an_Dependencies a)) else 0) as)) = int (card (deps_of as v))"
    and "set (map an_ID (filter (\<lambda>a. d \<in> set (an_Dependencies a)) as)) = {v. d \<in> deps_of as v}"
    and "distinct (map an_ID (filter (\<lambda>a. d \<in> set (an_Dependencies a)) as))"
proof -
  show "int (sum_list (map (\<lambda>a. if an_ID a = v then card (set (an_Dependencies a)) else 0) as)) = int (card (deps_of as v))"
    using assms
  proof (induction as)
    case (Cons a as)
    show ?case
    proof (cases "an_ID a = v")
      case True
      then have "v \<notin> an_ID ` set as" using Cons.prems by auto
      then have "\<And>x. x \<in> set as \<Longrightarrow> an_ID x \<noteq> v" by auto
      then have "deps_of (a # as) v = set (an_Dependencies a)" "deps_of as v = {}" using True by (auto simp: deps_of_def)
      then show ?thesis using Cons True by simp
    next
      case False
      then have "deps_of (a # as) v = deps_of as v" by (auto simp: deps_of_def)
      then show ?thesis using Cons False by simp
    qed
  qed (simp add: deps_of_def)
  show "set (map an_ID (filter (\<lambda>a. d \<in> set (an_Dependencies a)) as)) = {v. d \<in> deps_of as v}"
    by (auto simp: deps_of_def)
  show "distinct (map an_ID (filter (\<lambda>a. d \<in> set (an_Dependencies a)) as))"
    using assms by (simp add: distinct_map_filter)
qed

section \<open>Layers\<close>

text \<open>
  The specification of the levels: each is sorted and not empty, and holds exactly what is not in an
  earlier level and depends on earlier levels only.
\<close>

definition earlier :: "string list list \<Rightarrow> nat \<Rightarrow> string set" where
  "earlier ls i = set (concat (take i ls))"

definition layered :: "string set \<Rightarrow> (string \<Rightarrow> string set) \<Rightarrow> string list list \<Rightarrow> bool" where
  "layered V D ls \<longleftrightarrow> (\<forall>i < length ls. ls ! i \<noteq> [] \<and> sorted (ls ! i) \<and> distinct (ls ! i) \<and>
     set (ls ! i) = {v \<in> V - earlier ls i. D v \<subseteq> earlier ls i})"

lemma earlier_simps [simp]: "earlier ls 0 = {}" "earlier ls (length ls) = set (concat ls)"
  "i \<le> length ls \<Longrightarrow> earlier (ls @ [l]) i = earlier ls i"
  by (simp_all add: earlier_def)

lemma layered_Nil [simp]: "layered V D []"
  by (simp add: layered_def)

lemma layered_snoc:
  "layered V D (ls @ [l]) \<longleftrightarrow> layered V D ls \<and> l \<noteq> [] \<and> sorted l \<and> distinct l \<and>
     set l = {v \<in> V - set (concat ls). D v \<subseteq> set (concat ls)}"
  unfolding layered_def by (simp add: All_less_Suc nth_append conj_ac del: set_concat)

lemma layered_facts:
  "layered V D ls \<Longrightarrow> set (concat ls) \<subseteq> V \<and> distinct (concat ls) \<and> (\<forall>v \<in> set (concat ls). D v \<subseteq> set (concat ls))"
proof (induction ls rule: rev_induct)
  case (snoc l ls)
  then have IH: "set (concat ls) \<subseteq> V" "distinct (concat ls)" "\<forall>v \<in> set (concat ls). D v \<subseteq> set (concat ls)"
    and l: "distinct l" "set l = {v \<in> V - set (concat ls). D v \<subseteq> set (concat ls)}"
    unfolding layered_snoc by blast+
  have "distinct (concat (ls @ [l]))" using IH(2) l by auto
  moreover have "set (concat (ls @ [l])) = set (concat ls) \<union> set l" by simp
  ultimately show ?case using IH(1,3) l(2) by blast
qed simp

text \<open>Where an element sits: its dependencies are earlier, the nearest one just before.\<close>

lemma layered_level:
  assumes "layered V D ls" "i < length ls"
  shows "v \<in> set (ls ! i) \<Longrightarrow> D v \<subseteq> earlier ls i"
    and "v \<in> set (ls ! Suc j) \<Longrightarrow> Suc j = i \<Longrightarrow> \<exists>d \<in> D v. d \<in> set (ls ! j)"
proof -
  have at: "set (ls ! k) = {v \<in> V - earlier ls k. D v \<subseteq> earlier ls k}" if "k < length ls" for k
    using assms(1) that unfolding layered_def by blast
  show "v \<in> set (ls ! i) \<Longrightarrow> D v \<subseteq> earlier ls i" using at [OF assms(2)] by blast
  assume v: "v \<in> set (ls ! Suc j)" and i: "Suc j = i"
  then have j: "j < length ls" using assms(2) by simp
  have next': "earlier ls (Suc j) = earlier ls j \<union> set (ls ! j)"
    using j by (simp add: earlier_def take_Suc_conv_app_nth)
  have "v \<in> V" "v \<notin> earlier ls (Suc j)" "D v \<subseteq> earlier ls (Suc j)" using v at [of "Suc j"] assms(2) i by auto
  then have "\<not> D v \<subseteq> earlier ls j" "D v \<subseteq> earlier ls j \<union> set (ls ! j)" using at [OF j] next' by auto
  then show "\<exists>d \<in> D v. d \<in> set (ls ! j)" by blast
qed

text \<open>A layering of everything is a rank function, so the relation has no cycle; and conversely.\<close>

lemma layered_acyclic:
  assumes "layered V D ls" "set (concat ls) = V" "\<And>v. D v \<noteq> {} \<Longrightarrow> v \<in> V"
  shows "acyclic {(d, v). d \<in> D v}"
proof -
  define rank where "rank v = (LEAST i. v \<in> earlier ls i)" for v
  have level: "\<exists>i < length ls. v \<in> set (ls ! i)" if "v \<in> V" for v
  proof -
    from that assms(2) obtain l where "l \<in> set ls" "v \<in> set l" by auto
    then show ?thesis by (auto simp: in_set_conv_nth [of l])
  qed
  have "rank d < rank v" if d: "d \<in> D v" for d v
  proof -
    have "v \<in> V" using assms(3) d by blast
    then obtain i where i: "i < length ls" "v \<in> set (ls ! i)" using level by blast
    have fresh: "v \<notin> earlier ls i" using assms(1) i unfolding layered_def by blast
    have mono: "earlier ls k \<subseteq> earlier ls m" if "k \<le> m" for k m
    proof -
      have "take k ls = take k (take m ls)" using that by (simp add: min_absorb1)
      then have "set (take k ls) \<subseteq> set (take m ls)" by (metis set_take_subset)
      then show ?thesis by (auto simp: earlier_def)
    qed
    have "d \<in> earlier ls i" using layered_level(1) [OF assms(1) i] d by blast
    then have "rank d \<le> i" unfolding rank_def by (rule Least_le)
    moreover have "v \<in> earlier ls (rank v)"
      unfolding rank_def
    proof (rule LeastI)
      show "v \<in> earlier ls (Suc i)" using i by (simp add: earlier_def take_Suc_conv_app_nth)
    qed
    then have "i < rank v" using fresh mono [of "rank v" i] by (meson not_le_imp_less subsetD)
    ultimately show ?thesis by simp
  qed
  then have "{(d, v). d \<in> D v} \<subseteq> measure rank" by auto
  then show ?thesis using wf_subset [OF wf_measure] wf_acyclic by blast
qed

lemma acyclic_layered:
  assumes "finite V" "acyclic {(d, v). d \<in> D v}" "\<And>v. D v \<subseteq> V" "\<And>v. D v \<noteq> {} \<Longrightarrow> v \<in> V"
    "{v \<in> V - P. D v \<subseteq> P} = {}"
  shows "V \<subseteq> P"
proof (rule ccontr)
  assume "\<not> V \<subseteq> P"
  then obtain v where "v \<in> V - P" by blast
  have "{(d, v). d \<in> D v} \<subseteq> V \<times> V"
  proof clarify
    fix d v assume "d \<in> D v"
    then show "d \<in> V \<and> v \<in> V" using assms(3) [of v] assms(4) [of v] by auto
  qed
  then have "finite {(d, v). d \<in> D v}" by (rule finite_subset) (simp add: assms(1))
  then have "wf {(d, v). d \<in> D v}" using assms(2) by (rule finite_acyclic_wf)
  then obtain m where m: "m \<in> V - P" and least: "\<And>d. (d, m) \<in> {(d, v). d \<in> D v} \<Longrightarrow> d \<notin> V - P"
    using wfE_min [OF _ \<open>v \<in> V - P\<close>] by metis
  have "D m \<subseteq> P"
  proof
    fix d assume d: "d \<in> D m"
    then have "d \<notin> V - P" using least [of d] by simp
    then show "d \<in> P" using assms(3) [of m] d by auto
  qed
  then have "m \<in> {v \<in> V - P. D v \<subseteq> P}" using m by simp
  then show False using assms(5) by blast
qed

section \<open>The loop builds the layers\<close>

lemma fold_release:
  "\<exists>ns. fold release xs (deg, nx) = (\<lambda>v. deg v - int (count_list xs v), nx @ ns) \<and> distinct ns \<and>
     set ns = {v. 1 \<le> deg v \<and> deg v \<le> int (count_list xs v)}"
proof (induction xs arbitrary: deg nx)
  case (Cons x xs)
  let ?deg = "deg(x := deg x - 1)"
  obtain ns where ns: "fold release xs (?deg, if deg x - 1 = 0 then nx @ [x] else nx) =
        (\<lambda>v. ?deg v - int (count_list xs v), (if deg x - 1 = 0 then nx @ [x] else nx) @ ns)" "distinct ns"
      "set ns = {v. 1 \<le> ?deg v \<and> ?deg v \<le> int (count_list xs v)}"
    using Cons.IH by blast
  let ?ns = "if deg x - 1 = 0 then x # ns else ns"
  have "fold release (x # xs) (deg, nx) = (\<lambda>v. deg v - int (count_list (x # xs) v), nx @ ?ns)"
    using ns(1) by (auto simp: fun_eq_iff)
  moreover have "distinct ?ns" using ns(2,3) by auto
  moreover have "set ?ns = {v. 1 \<le> deg v \<and> deg v \<le> int (count_list (x # xs) v)}" using ns(3) by auto
  ultimately show ?case by blast
qed auto

lemma release_level_concat:
  "release_level dependents level deg = fold release (concat (map dependents level)) (deg, [])"
proof -
  have "fold (\<lambda>aid. fold release (dependents aid)) level st = fold release (concat (map dependents level)) st" for st
    by (induction level arbitrary: st) simp_all
  then show ?thesis by (simp add: release_level_def)
qed

lemma count_list_distinct: "distinct xs \<Longrightarrow> count_list xs v = (if v \<in> set xs then 1 else 0)"
  by (induction xs) auto

lemma count_dependents:
  assumes "distinct level" "\<And>d. distinct (dependents d)" "\<And>d v. v \<in> set (dependents d) \<longleftrightarrow> d \<in> D v"
  shows "count_list (concat (map dependents level)) v = card (D v \<inter> set level)"
  using assms(1)
proof (induction level)
  case (Cons l level)
  have "count_list (dependents l) v = (if l \<in> D v then 1 else 0)"
    using assms(2) [of l] assms(3) [of v l] by (simp add: count_list_distinct)
  moreover have "D v \<inter> set (l # level) = (if l \<in> D v then insert l (D v \<inter> set level) else D v \<inter> set level)" by auto
  ultimately show ?case using Cons by simp
qed simp

lemma released:
  assumes fin: "\<And>v. finite (D v)" and dom: "\<And>v. D v \<noteq> {} \<Longrightarrow> v \<in> V"
    and closed: "\<forall>v \<in> P. D v \<subseteq> P" and Q: "Q = {v \<in> V - P. D v \<subseteq> P}"
  shows "int (card (D v - P)) - int (card (D v \<inter> Q)) = int (card (D v - (P \<union> Q)))"
    and "{v. 1 \<le> int (card (D v - P)) \<and> int (card (D v - P)) \<le> int (card (D v \<inter> Q))} =
      {v \<in> V - (P \<union> Q). D v \<subseteq> P \<union> Q}"
proof -
  have split: "card (D v - P) = card (D v \<inter> Q) + card (D v - (P \<union> Q))" for v
  proof -
    have "D v - P = (D v \<inter> Q) \<union> (D v - (P \<union> Q))" "(D v \<inter> Q) \<inter> (D v - (P \<union> Q)) = {}" using Q by blast+
    then show ?thesis using card_Un_disjoint [of "D v \<inter> Q" "D v - (P \<union> Q)"] fin [of v] by simp
  qed
  show "int (card (D v - P)) - int (card (D v \<inter> Q)) = int (card (D v - (P \<union> Q)))" using split by simp
  have "1 \<le> int (card (D v - P)) \<and> int (card (D v - P)) \<le> int (card (D v \<inter> Q)) \<longleftrightarrow> \<not> D v \<subseteq> P \<and> D v \<subseteq> P \<union> Q" for v
  proof -
    have "1 \<le> int (card (D v - P)) \<longleftrightarrow> \<not> D v \<subseteq> P" using fin [of v] by (auto simp: Suc_le_eq card_gt_0_iff)
    moreover have "int (card (D v - P)) \<le> int (card (D v \<inter> Q)) \<longleftrightarrow> D v - (P \<union> Q) = {}"
      using split [of v] fin [of v] by simp
    ultimately show ?thesis by blast
  qed
  moreover have "\<not> D v \<subseteq> P \<and> D v \<subseteq> P \<union> Q \<longleftrightarrow> v \<in> V - (P \<union> Q) \<and> D v \<subseteq> P \<union> Q" for v
    using dom [of v] closed Q by auto
  ultimately show "{v. 1 \<le> int (card (D v - P)) \<and> int (card (D v - P)) \<le> int (card (D v \<inter> Q))} =
      {v \<in> V - (P \<union> Q). D v \<subseteq> P \<union> Q}" by auto
qed

lemma layer_loop_law:
  assumes V: "finite V" "\<And>v. D v \<subseteq> V" "\<And>v. D v \<noteq> {} \<Longrightarrow> v \<in> V"
    and dependents: "\<And>d. distinct (dependents d)" "\<And>d v. v \<in> set (dependents d) \<longleftrightarrow> d \<in> D v"
  shows "layered V D levels \<Longrightarrow> sorted queue \<Longrightarrow> distinct queue \<Longrightarrow>
    set queue = {v \<in> V - set (concat levels). D v \<subseteq> set (concat levels)} \<Longrightarrow>
    deg = (\<lambda>v. int (card (D v - set (concat levels)))) \<Longrightarrow>
    \<exists>ls. layer_loop dependents queue deg levels (int (length (concat levels))) = Some (ls, int (length (concat ls))) \<and>
      layered V D ls \<and> {v \<in> V - set (concat ls). D v \<subseteq> set (concat ls)} = {}"
proof (induction "card (V - set (concat levels))" arbitrary: levels queue deg rule: less_induct)
  case less
  let ?P = "set (concat levels)"
  have fin: "finite (D v)" for v using V(1,2) finite_subset by blast
  show ?case
  proof (cases "queue = []")
    case True
    then have "{v \<in> V - ?P. D v \<subseteq> ?P} = {}" using less.prems(4) by simp
    moreover have "layer_loop dependents queue deg levels (int (length (concat levels))) = Some (levels, int (length (concat levels)))"
      using True by (simp add: layer_loop.simps)
    ultimately show ?thesis using less.prems(1) by blast
  next
    case False
    have closed: "\<forall>v \<in> ?P. D v \<subseteq> ?P" and sub: "?P \<subseteq> V" using layered_facts [OF less.prems(1)] by blast+
    note rel = released [of D V ?P "set queue", OF fin V(3) closed less.prems(4)]
    have count: "count_list (concat (map dependents queue)) v = card (D v \<inter> set queue)" for v
      by (rule count_dependents [OF less.prems(3) dependents])
    obtain ns where ns: "release_level dependents queue deg =
        (\<lambda>v. deg v - int (count_list (concat (map dependents queue)) v), ns)" "distinct ns"
        "set ns = {v. 1 \<le> deg v \<and> deg v \<le> int (count_list (concat (map dependents queue)) v)}"
      using fold_release [of "concat (map dependents queue)" deg "[]"] by (auto simp: release_level_concat)
    let ?ls = "levels @ [queue]" and ?deg = "\<lambda>v. deg v - int (count_list (concat (map dependents queue)) v)"
    have P': "set (concat ?ls) = ?P \<union> set queue" by simp
    have "layer_loop dependents queue deg levels (int (length (concat levels))) =
        layer_loop dependents (sort ns) ?deg ?ls (int (length (concat ?ls)))"
      using False ns(1) by (subst layer_loop.simps) simp
    moreover have "\<exists>ls. layer_loop dependents (sort ns) ?deg ?ls (int (length (concat ?ls))) = Some (ls, int (length (concat ls))) \<and>
        layered V D ls \<and> {v \<in> V - set (concat ls). D v \<subseteq> set (concat ls)} = {}"
    proof (rule less.hyps)
      have "set queue \<noteq> {}" "set queue \<subseteq> V - ?P" using False unfolding less.prems(4) [symmetric] by (simp, use less.prems(4) in blast)
      then obtain q where "q \<in> set queue" "q \<in> V - ?P" by (meson ex_in_conv subsetD)
      then have "V - set (concat ?ls) \<subset> V - ?P" unfolding P' by blast
      then show "card (V - set (concat ?ls)) < card (V - ?P)" by (rule psubset_card_mono [rotated]) (simp add: V(1))
      show "layered V D ?ls" using less.prems False by (simp add: layered_snoc del: set_concat)
      show "sorted (sort ns)" "distinct (sort ns)" using ns(2) by simp_all
      show "set (sort ns) = {v \<in> V - set (concat ?ls). D v \<subseteq> set (concat ?ls)}"
        using ns(3) rel(2) unfolding P' count less.prems(5) by simp
      show "?deg = (\<lambda>v. int (card (D v - set (concat ?ls))))"
        unfolding P' count less.prems(5) using rel(1) by (simp add: fun_eq_iff)
    qed
    ultimately show ?thesis by simp
  qed
qed

section \<open>What building the graph returns\<close>

definition iterates :: "(('k \<rightharpoonup> 'v) \<Rightarrow> 'k list) \<Rightarrow> bool" where
  "iterates ord \<longleftrightarrow> (\<forall>m. finite (dom m) \<longrightarrow> iteration_of m (ord m))"

lemma register_no_cycle: "register_analyzers as byID \<noteq> Inl GraphCycle"
  by (induction as arbitrary: byID) auto

lemma add_dependencies_no_cycle: "add_dependencies byID v ds seen st \<noteq> Inl GraphCycle"
proof (induction ds arbitrary: seen st)
  case (Cons d ds)
  then show ?case by (cases st) auto
qed simp

lemma add_all_no_cycle: "add_all_dependencies byID as st \<noteq> Inl GraphCycle"
proof (induction as arbitrary: st)
  case (Cons a as)
  then show ?case
    using add_dependencies_no_cycle [of byID "an_ID a" "an_Dependencies a" "{}" st] by (auto split: sum.split)
qed simp

lemma NewGraph_invalid:
  assumes "\<not> valid_analyzers as"
  shows "\<exists>e. NewGraph ord as = Some (Inl e) \<and> e \<noteq> GraphCycle"
proof (cases "register_analyzers as Map.empty")
  case (Inl e)
  then show ?thesis using register_no_cycle [of as Map.empty] by (auto simp: NewGraph_def)
next
  case (Inr byID)
  then have reg: "distinct (map an_ID as)" "[] \<notin> analyzer_ids as" "byID = by_id as"
    using register_analyzers_law [of as Map.empty byID] by auto
  obtain a d where ad: "a \<in> set as" "d \<in> set (an_Dependencies a)" "\<not> (d \<noteq> [] \<and> d \<noteq> an_ID a \<and> d \<in> analyzer_ids as)"
    using assms reg(1,2) unfolding valid_analyzers_def by blast
  have "d \<in> analyzer_ids as \<longleftrightarrow> byID d \<noteq> None" using by_id_known [of as d] reg(3) by simp
  then have "\<not> (d \<noteq> [] \<and> d \<noteq> an_ID a \<and> byID d \<noteq> None)" using ad(3) by simp
  then have "add_all_dependencies byID as (\<lambda>_. 0, \<lambda>_. []) \<noteq> Inr st" for st
    using add_all_dependencies_law [of byID as "\<lambda>_. 0" "\<lambda>_. []" st] ad(1,2) by blast
  then obtain e where "add_all_dependencies byID as (\<lambda>_. 0, \<lambda>_. []) = Inl e"
    by (cases "add_all_dependencies byID as (\<lambda>_. 0, \<lambda>_. [])") auto
  then show ?thesis using Inr add_all_no_cycle [of byID as "(\<lambda>_. 0, \<lambda>_. [])"] by (auto simp: NewGraph_def)
qed

lemma NewGraph_valid:
  assumes ord: "iterates ord" and valid: "valid_analyzers as"
  shows "\<exists>ls. layered (analyzer_ids as) (deps_of as) ls \<and>
    {v \<in> analyzer_ids as - set (concat ls). deps_of as v \<subseteq> set (concat ls)} = {} \<and>
    NewGraph ord as = Some (if length (concat ls) \<noteq> length as then Inl GraphCycle
      else Inr \<lparr>gr_byID = by_id as, gr_levels = ls\<rparr>)"
proof -
  let ?V = "analyzer_ids as" and ?D = "deps_of as"
  let ?deps = "\<lambda>d. map an_ID (filter (\<lambda>a. d \<in> set (an_Dependencies a)) as)" and ?deg = "\<lambda>v. int (card (?D v))"
  have dist: "distinct (map an_ID as)" using valid by (simp add: valid_analyzers_def)
  have reg: "register_analyzers as Map.empty = Inr (by_id as)"
    using register_analyzers_law [of as Map.empty "by_id as"] valid by (simp add: valid_analyzers_def)
  have known: "by_id as d \<noteq> None" if "d \<in> ?V" for d using that by_id_known by blast
  have add: "add_all_dependencies (by_id as) as (\<lambda>_. 0, \<lambda>_. []) = Inr (?deg, ?deps)"
    unfolding add_all_dependencies_law
    using valid known edges_of_valid(1) [OF dist] by (auto simp: valid_analyzers_def fun_eq_iff)
  let ?queue = "sort (filter (\<lambda>aid. ?deg aid = 0) (ord (by_id as)))"
  have iter: "iteration_of (by_id as) (ord (by_id as))" using ord by (simp add: iterates_def)
  have dom: "v \<in> ?V" if "?D v \<noteq> {}" for v using that by (auto simp: deps_of_def analyzer_ids_def)
  have queue: "set ?queue = {v \<in> ?V - set (concat []). ?D v \<subseteq> set (concat [])}" "distinct ?queue" "sorted ?queue"
    using iter by (auto simp: iteration_of_def)
  have "\<exists>ls. layer_loop ?deps ?queue ?deg [] (int (length (concat ([] :: string list list)))) = Some (ls, int (length (concat ls))) \<and>
      layered ?V ?D ls \<and> {v \<in> ?V - set (concat ls). ?D v \<subseteq> set (concat ls)} = {}"
  proof (rule layer_loop_law)
    show "v \<in> set (?deps d) \<longleftrightarrow> d \<in> ?D v" for d v using edges_of_valid(2) [OF dist, of d] by blast
    show "distinct (?deps d)" for d by (rule edges_of_valid(3) [OF dist])
    show "?D v \<noteq> {} \<Longrightarrow> v \<in> ?V" for v by (rule dom)
  qed (use queue deps_of_ids [OF valid] in simp_all)
  then obtain ls where ls: "layer_loop ?deps ?queue ?deg [] 0 = Some (ls, int (length (concat ls)))"
    "layered ?V ?D ls" "{v \<in> ?V - set (concat ls). ?D v \<subseteq> set (concat ls)} = {}" by auto
  have "NewGraph ord as = Some (if length (concat ls) \<noteq> length as then Inl GraphCycle
      else Inr \<lparr>gr_byID = by_id as, gr_levels = ls\<rparr>)"
    using reg add ls(1) by (simp add: NewGraph_def)
  then show ?thesis using ls(2,3) by blast
qed

text \<open>All of them are layered exactly when there is no cycle.\<close>

lemma layered_all_iff:
  assumes valid: "valid_analyzers as" and ls: "layered (analyzer_ids as) (deps_of as) ls"
    "{v \<in> analyzer_ids as - set (concat ls). deps_of as v \<subseteq> set (concat ls)} = {}"
  shows "length (concat ls) = length as \<longleftrightarrow> set (concat ls) = analyzer_ids as"
    and "set (concat ls) = analyzer_ids as \<longleftrightarrow> acyclic (dependency_rel as)"
proof -
  let ?V = "analyzer_ids as" and ?D = "deps_of as"
  have facts: "set (concat ls) \<subseteq> ?V" "distinct (concat ls)" using layered_facts [OF ls(1)] by blast+
  have "card ?V = length as"
    using valid unfolding valid_analyzers_def analyzer_ids_def by (metis distinct_card length_map set_map)
  moreover have "card (set (concat ls)) = length (concat ls)" by (rule distinct_card [OF facts(2)])
  ultimately show "length (concat ls) = length as \<longleftrightarrow> set (concat ls) = ?V"
    using card_subset_eq [OF finite_ids facts(1)] by auto
  have dom: "v \<in> ?V" if "?D v \<noteq> {}" for v using that by (auto simp: deps_of_def analyzer_ids_def)
  show "set (concat ls) = ?V \<longleftrightarrow> acyclic (dependency_rel as)"
  proof
    assume "set (concat ls) = ?V"
    then show "acyclic (dependency_rel as)"
      unfolding dependency_rel_def by (rule layered_acyclic [OF ls(1)]) (rule dom)
  next
    assume "acyclic (dependency_rel as)"
    then have "?V \<subseteq> set (concat ls)"
      unfolding dependency_rel_def
      by (intro acyclic_layered [OF finite_ids _ deps_of_ids [OF valid] dom ls(2)])
    then show "set (concat ls) = ?V" using facts(1) by blast
  qed
qed

text \<open>
  C18: building the graph of the analyzers returns for every input, whatever the iteration order of
  the map. It succeeds exactly when the ids are distinct and not empty, the dependencies are ids of
  other analyzers, and the dependency relation has no cycle; it reports a cycle exactly when all but
  the last holds.
\<close>

theorem NewGraph_iff_acyclic:
  assumes "iterates ord"
  shows "\<exists>r. NewGraph ord as = Some r \<and>
    ((\<exists>g. r = Inr g) \<longleftrightarrow> valid_analyzers as \<and> acyclic (dependency_rel as)) \<and>
    (r = Inl GraphCycle \<longleftrightarrow> valid_analyzers as \<and> \<not> acyclic (dependency_rel as))"
proof (cases "valid_analyzers as")
  case False
  then show ?thesis using NewGraph_invalid [OF False, of ord] by auto
next
  case True
  then obtain ls where ls: "layered (analyzer_ids as) (deps_of as) ls"
    "{v \<in> analyzer_ids as - set (concat ls). deps_of as v \<subseteq> set (concat ls)} = {}"
    "NewGraph ord as = Some (if length (concat ls) \<noteq> length as then Inl GraphCycle
      else Inr \<lparr>gr_byID = by_id as, gr_levels = ls\<rparr>)"
    using NewGraph_valid [OF assms] by blast
  show ?thesis using ls(3) layered_all_iff [OF True ls(1,2)] True by simp
qed

lemma NewGraph_graph:
  assumes "iterates ord" "NewGraph ord as = Some (Inr g)"
  shows "valid_analyzers as" "gr_byID g = by_id as" "layered (analyzer_ids as) (deps_of as) (gr_levels g)"
    "set (concat (gr_levels g)) = analyzer_ids as" "distinct (concat (gr_levels g))"
proof -
  show valid: "valid_analyzers as" using NewGraph_invalid [of as ord] assms(2) by auto
  obtain ls where ls: "layered (analyzer_ids as) (deps_of as) ls"
    "{v \<in> analyzer_ids as - set (concat ls). deps_of as v \<subseteq> set (concat ls)} = {}"
    "NewGraph ord as = Some (if length (concat ls) \<noteq> length as then Inl GraphCycle
      else Inr \<lparr>gr_byID = by_id as, gr_levels = ls\<rparr>)"
    using NewGraph_valid [OF assms(1) valid] by blast
  have g: "length (concat ls) = length as" "g = \<lparr>gr_byID = by_id as, gr_levels = ls\<rparr>"
    using ls(3) assms(2) by (simp_all split: if_splits)
  show "gr_byID g = by_id as" "layered (analyzer_ids as) (deps_of as) (gr_levels g)" using g ls(1) by simp_all
  show "set (concat (gr_levels g)) = analyzer_ids as"
    using layered_all_iff(1) [OF valid ls(1,2)] g by (simp del: set_concat)
  show "distinct (concat (gr_levels g))" using layered_facts [OF ls(1)] g(2) by simp
qed

text \<open>
  The levels of a graph. Each analyzer is in exactly one level; each level is sorted; all
  dependencies of an analyzer are in earlier levels, and, beyond the first level, one is in the
  level just before, so no analyzer waits longer than it must.
\<close>

lemma Levels_in_dependency_order:
  assumes "iterates ord" "NewGraph ord as = Some (Inr g)"
  shows "distinct (concat (Levels g)) \<and> set (concat (Levels g)) = an_ID ` set as \<and>
    (\<forall>i < length (Levels g). sorted (Levels g ! i) \<and>
      (\<forall>a \<in> set as. an_ID a \<in> set (Levels g ! i) \<longrightarrow>
         set (an_Dependencies a) \<subseteq> set (concat (take i (Levels g))) \<and>
         (i \<noteq> 0 \<longrightarrow> (\<exists>d \<in> set (an_Dependencies a). d \<in> set (Levels g ! (i - 1))))))"
proof -
  note g = NewGraph_graph [OF assms]
  have dist: "distinct (map an_ID as)" using g(1) by (simp add: valid_analyzers_def)
  have level: "sorted (Levels g ! i) \<and>
      (\<forall>a \<in> set as. an_ID a \<in> set (Levels g ! i) \<longrightarrow>
         set (an_Dependencies a) \<subseteq> set (concat (take i (Levels g))) \<and>
         (i \<noteq> 0 \<longrightarrow> (\<exists>d \<in> set (an_Dependencies a). d \<in> set (Levels g ! (i - 1)))))"
    if i: "i < length (Levels g)" for i
  proof (intro conjI ballI impI)
    show "sorted (Levels g ! i)" using g(3) i by (simp add: layered_def Levels_def)
    fix a assume a: "a \<in> set as" "an_ID a \<in> set (Levels g ! i)"
    note deps = deps_of_member [OF dist a(1)]
    show "set (an_Dependencies a) \<subseteq> set (concat (take i (Levels g)))"
      using layered_level(1) [OF g(3) i [unfolded Levels_def], of "an_ID a"] a(2) unfolding Levels_def earlier_def deps by blast
    assume "i \<noteq> 0"
    then obtain j where j: "i = Suc j" by (cases i) auto
    have "an_ID a \<in> set (gr_levels g ! Suc j)" using a(2) unfolding Levels_def j .
    then obtain d where "d \<in> set (an_Dependencies a)" "d \<in> set (gr_levels g ! j)"
      using layered_level(2) [OF g(3) i [unfolded Levels_def] _ j [symmetric], of "an_ID a"] unfolding deps by blast
    then show "\<exists>d \<in> set (an_Dependencies a). d \<in> set (Levels g ! (i - 1))" unfolding Levels_def j by auto
  qed
  show ?thesis using g(4,5) level unfolding Levels_def analyzer_ids_def by blast
qed

text \<open>Three analyzers: one depends on the two others, one of which depends on the third.\<close>

definition example_analyzers :: "unit analyzer list" where
  "example_analyzers =
     [\<lparr>an_ID = ''c'', an_Dependencies = [''a'', ''b''], an_body = ()\<rparr>,
      \<lparr>an_ID = ''b'', an_Dependencies = [''a''], an_body = ()\<rparr>,
      \<lparr>an_ID = ''a'', an_Dependencies = [], an_body = ()\<rparr>]"

definition sorted_order :: "(string \<rightharpoonup> 'v) \<Rightarrow> string list" where
  "sorted_order m = (if finite (dom m) then sorted_list_of_set (dom m) else [])"

lemma iterates_sorted_order [simp]: "iterates sorted_order"
  by (simp add: iterates_def iteration_of_def sorted_order_def)

definition example_graph :: "unit graph" where
  "example_graph = \<lparr>gr_byID = by_id example_analyzers, gr_levels = [[''a''], [''b''], [''c'']]\<rparr>"

lemma example_graph_built: "NewGraph sorted_order example_analyzers = Some (Inr example_graph)"
proof -
  have dom: "dom (by_id example_analyzers) = set [''c'', ''b'', ''a'']"
    by (simp add: analyzer_ids_def example_analyzers_def)
  have ord: "sorted_order (by_id example_analyzers) = [''a'', ''b'', ''c'']"
  proof -
    have "sort (remdups [''c'', ''b'', ''a'']) = [''a'', ''b'', ''c'']" by code_simp
    then show ?thesis unfolding sorted_order_def dom sorted_list_of_set_sort_remdups by simp
  qed
  have reg: "register_analyzers example_analyzers Map.empty = Inr (by_id example_analyzers)"
    using register_analyzers_law [of example_analyzers Map.empty "by_id example_analyzers"]
    by (simp add: analyzer_ids_def example_analyzers_def)
  show ?thesis
    unfolding NewGraph_def reg sum.case ord
    by (simp add: example_analyzers_def example_graph_def by_id_def layer_loop.simps release_level_def)
qed

theorem NewGraph_iff_acyclic_witness: "acyclic (dependency_rel example_analyzers)"
  using NewGraph_iff_acyclic [OF iterates_sorted_order, of example_analyzers] example_graph_built by simp

lemma Levels_in_dependency_order_witness:
  "set (concat (Levels example_graph)) = an_ID ` set example_analyzers \<and> distinct (concat (Levels example_graph))"
  using Levels_in_dependency_order [OF iterates_sorted_order example_graph_built] by blast

section \<open>What a run does\<close>

text \<open>
  The specification of a run: an analyzer fails when its function returns an error or one of its
  dependencies fails; it is blocked, and skipped, in the second case.
\<close>

inductive an_failed :: "'b analyzer list \<Rightarrow> (string \<Rightarrow> 'e option) \<Rightarrow> string \<Rightarrow> bool" for as run where
  failed_itself: "v \<in> analyzer_ids as \<Longrightarrow> run v = Some e \<Longrightarrow> an_failed as run v"
| failed_dependency: "d \<in> deps_of as v \<Longrightarrow> an_failed as run d \<Longrightarrow> an_failed as run v"

definition an_blocked :: "'b analyzer list \<Rightarrow> (string \<Rightarrow> 'e option) \<Rightarrow> string \<Rightarrow> bool" where
  "an_blocked as run v \<longleftrightarrow> (\<exists>d \<in> deps_of as v. an_failed as run d)"

definition error_of :: "'b analyzer list \<Rightarrow> (string \<Rightarrow> 'e option) \<Rightarrow> string \<Rightarrow> 'e run_error multiset" where
  "error_of as run v =
     (if an_blocked as run v then {#SkipAnalyzer v#}
      else case run v of None \<Rightarrow> {#} | Some e \<Rightarrow> {#RunAnalyzer v e#})"

lemma an_failed_iff: "v \<in> analyzer_ids as \<Longrightarrow> an_failed as run v \<longleftrightarrow> an_blocked as run v \<or> run v \<noteq> None"
  unfolding an_blocked_def by (subst an_failed.simps) blast

text \<open>
  A state between two steps of the loop: the levels done, what the current level has looked at, and
  for these the failures, the launches and the errors the specification gives.
\<close>

definition run_at ::
  "'b analyzer list \<Rightarrow> (string \<Rightarrow> 'e option) \<Rightarrow> string list list \<Rightarrow> string list list \<Rightarrow> string list \<Rightarrow> 'e run_state \<Rightarrow> bool" where
  "run_at as run levels past looked s \<longleftrightarrow>
     levels = past @ (if rs_phase s = InLevel then [looked @ rs_pending s] else []) @ rs_levels s \<and>
     (rs_phase s \<noteq> InLevel \<longrightarrow> looked = [] \<and> rs_running s = []) \<and>
     rs_failedIDs s = {v \<in> set (concat past). an_failed as run v} \<union> {v \<in> set looked. an_blocked as run v} \<and>
     set (rs_started s) = {v \<in> set (concat past) \<union> set looked. \<not> an_blocked as run v} \<and> distinct (rs_started s) \<and>
     distinct (rs_running s) \<and> set (rs_running s) \<subseteq> {v \<in> set looked. \<not> an_blocked as run v} \<and>
     (rs_phase s = InLevel \<longrightarrow>
        set (rs_levelFailed s) = {v \<in> set looked - set (rs_running s). \<not> an_blocked as run v \<and> run v \<noteq> None}) \<and>
     mset (rs_errors s) = (\<Sum>v \<in> (set (concat past) \<union> set looked) - set (rs_running s). error_of as run v)"

text \<open>The state in which the loop is left: all levels are done, or the context was done.\<close>

definition run_inv :: "'b analyzer list \<Rightarrow> (string \<Rightarrow> 'e option) \<Rightarrow> string list list \<Rightarrow> 'e run_state \<Rightarrow> bool" where
  "run_inv as run levels s \<longleftrightarrow>
     (rs_phase s \<noteq> Stopped \<and> (\<exists>past looked. run_at as run levels past looked s)) \<or>
     (\<exists>s0 past. rs_phase s0 = AtCheck \<and> run_at as run levels past [] s0 \<and>
        (rs_levels s0 = [] \<and> s = s0\<lparr>rs_phase := Stopped\<rparr> \<or>
         (\<exists>e. s = s0\<lparr>rs_phase := Stopped, rs_errors := rs_errors s0 @ [CtxError e]\<rparr>)))"

lemma run_at_start: "run_at as run (gr_levels g) [] [] (run_start g)"
  by (simp add: run_at_def run_start_def)

lemma run_at_enter:
  assumes "run_at as run levels past [] s" "rs_phase s = AtCheck" "rs_levels s = l # ls"
  shows "run_at as run levels past [] (s\<lparr>rs_phase := InLevel, rs_levels := ls, rs_pending := l, rs_levelFailed := []\<rparr>)"
  using assms by (simp add: run_at_def)

text \<open>The graph of a run.\<close>

definition run_graph :: "'b analyzer list \<Rightarrow> 'b graph \<Rightarrow> bool" where
  "run_graph as g \<longleftrightarrow> valid_analyzers as \<and> gr_byID g = by_id as \<and> layered (analyzer_ids as) (deps_of as) (gr_levels g) \<and>
     set (concat (gr_levels g)) = analyzer_ids as \<and> distinct (concat (gr_levels g))"

lemma run_at_current:
  assumes "run_graph as g" "run_at as run (gr_levels g) past looked s" "rs_phase s = InLevel" "rs_pending s = aid # rest"
  shows "aid \<in> analyzer_ids as" "aid \<notin> set (concat past)" "aid \<notin> set looked" "deps_of as aid \<subseteq> set (concat past)"
    "gr_byID g aid = Some a \<Longrightarrow> has_failed_dep a (rs_failedIDs s) \<longleftrightarrow> an_blocked as run aid"
proof -
  have levels: "gr_levels g = past @ (looked @ aid # rest) # rs_levels s"
    and failed: "rs_failedIDs s = {v \<in> set (concat past). an_failed as run v} \<union> {v \<in> set looked. an_blocked as run v}"
    using assms(2-4) by (simp_all add: run_at_def)
  have dist: "distinct (concat (gr_levels g))" and all: "set (concat (gr_levels g)) = analyzer_ids as"
    using assms(1) by (simp_all add: run_graph_def)
  show "aid \<in> analyzer_ids as" unfolding all [symmetric] levels by simp
  show "aid \<notin> set (concat past)" "aid \<notin> set looked" using dist unfolding levels by auto
  have "length past < length (gr_levels g)" "gr_levels g ! length past = looked @ aid # rest"
    "earlier (gr_levels g) (length past) = set (concat past)"
    unfolding levels by (simp_all add: earlier_def nth_append)
  then show deps: "deps_of as aid \<subseteq> set (concat past)"
    using layered_level(1) [of "analyzer_ids as" "deps_of as" "gr_levels g" "length past" aid] assms(1)
    by (simp add: run_graph_def del: set_concat)
  have disjoint: "set (concat past) \<inter> set looked = {}" using dist unfolding levels by auto
  assume "gr_byID g aid = Some a"
  then have "a \<in> set as" "an_ID a = aid" using assms(1) by_id_SomeD by (auto simp: run_graph_def)
  then have "set (an_Dependencies a) = deps_of as aid"
    using deps_of_member [of as a] assms(1) by (simp add: run_graph_def valid_analyzers_def)
  then show "has_failed_dep a (rs_failedIDs s) \<longleftrightarrow> an_blocked as run aid"
    unfolding has_failed_dep_def list_ex_iff an_blocked_def failed using deps disjoint by blast
qed

lemma run_at_skip:
  assumes g: "run_graph as g" and at: "run_at as run (gr_levels g) past looked s"
    and pending: "rs_phase s = InLevel" "rs_pending s = aid # rest" and blocked: "an_blocked as run aid"
  shows "run_at as run (gr_levels g) past (looked @ [aid])
    (s\<lparr>rs_pending := rest, rs_errors := rs_errors s @ [SkipAnalyzer aid], rs_failedIDs := insert aid (rs_failedIDs s)\<rparr>)"
proof -
  note cur = run_at_current [OF g at pending]
  let ?done = "set (concat past) \<union> set looked - set (rs_running s)"
  have running: "set (rs_running s) \<subseteq> set looked" and errors: "mset (rs_errors s) = sum (error_of as run) ?done"
    using at unfolding run_at_def by blast+
  have "set (concat past) \<union> set (looked @ [aid]) - set (rs_running s) = insert aid ?done" using cur(3) running by auto
  moreover have "aid \<notin> ?done" using cur(2,3) by simp
  moreover have "error_of as run aid = {#SkipAnalyzer aid#}" using blocked by (simp add: error_of_def)
  ultimately have "mset (rs_errors s @ [SkipAnalyzer aid]) =
      sum (error_of as run) (set (concat past) \<union> set (looked @ [aid]) - set (rs_running s))"
    using errors by simp
  then show ?thesis
    using at pending blocked cur(3) unfolding run_at_def by (auto simp del: set_concat mset_append)
qed

lemma run_at_launch:
  assumes g: "run_graph as g" and at: "run_at as run (gr_levels g) past looked s"
    and pending: "rs_phase s = InLevel" "rs_pending s = aid # rest" and free: "\<not> an_blocked as run aid"
  shows "run_at as run (gr_levels g) past (looked @ [aid])
    (s\<lparr>rs_pending := rest, rs_running := aid # rs_running s, rs_started := rs_started s @ [aid]\<rparr>)"
proof -
  note cur = run_at_current [OF g at pending]
  have started: "set (rs_started s) = {v \<in> set (concat past) \<union> set looked. \<not> an_blocked as run v}"
    and running: "set (rs_running s) \<subseteq> set looked"
    using at unfolding run_at_def by blast+
  have same: "set (concat past) \<union> set (looked @ [aid]) - set (aid # rs_running s) = set (concat past) \<union> set looked - set (rs_running s)"
    using cur(2,3) by auto
  have "aid \<notin> set (rs_started s)" "aid \<notin> set (rs_running s)" using started running cur(2,3) by auto
  then show ?thesis
    using at pending free cur(2,3) same unfolding run_at_def by (auto simp del: set_concat)
qed

lemma run_at_complete:
  assumes at: "run_at as run levels past looked s" and s: "rs_phase s = InLevel" "aid \<in> set (rs_running s)"
  shows "run_at as run levels past looked
    (case run aid of
       None \<Rightarrow> s\<lparr>rs_running := remove1 aid (rs_running s)\<rparr>
     | Some err \<Rightarrow> s\<lparr>rs_running := remove1 aid (rs_running s), rs_errors := rs_errors s @ [RunAnalyzer aid err],
         rs_levelFailed := rs_levelFailed s @ [aid]\<rparr>)"
proof -
  let ?all = "set (concat past) \<union> set looked"
  have parts: "distinct (rs_running s)" "set (rs_running s) \<subseteq> {v \<in> set looked. \<not> an_blocked as run v}"
    "set (rs_levelFailed s) = {v \<in> set looked - set (rs_running s). \<not> an_blocked as run v \<and> run v \<noteq> None}"
    "mset (rs_errors s) = sum (error_of as run) (?all - set (rs_running s))"
    using at s(1) unfolding run_at_def by blast+
  have aid: "aid \<in> set looked" "\<not> an_blocked as run aid" using parts(2) s(2) by auto
  have run': "set (remove1 aid (rs_running s)) = set (rs_running s) - {aid}" using parts(1) by simp
  then have "?all - set (remove1 aid (rs_running s)) = insert aid (?all - set (rs_running s))" using aid by auto
  then have sum: "sum (error_of as run) (?all - set (remove1 aid (rs_running s))) = error_of as run aid + mset (rs_errors s)"
    using s(2) parts(4) by simp
  have failed: "{v \<in> set looked - set (remove1 aid (rs_running s)). \<not> an_blocked as run v \<and> run v \<noteq> None} =
      (if run aid = None then {} else {aid}) \<union> set (rs_levelFailed s)"
    unfolding run' parts(3) using aid by auto
  have sub: "set (remove1 aid (rs_running s)) \<subseteq> {v \<in> set looked. \<not> an_blocked as run v}" using parts(2) run' by blast
  show ?thesis
  proof (cases "run aid")
    case None
    then have "error_of as run aid = {#}" using aid(2) by (simp add: error_of_def)
    then show ?thesis using at s(1) sum failed sub None parts(1) unfolding run_at_def by (simp del: set_concat)
  next
    case (Some err)
    then have "error_of as run aid = {#RunAnalyzer aid err#}" using aid(2) by (simp add: error_of_def)
    then show ?thesis using at s(1) sum failed sub Some parts(1) unfolding run_at_def by (simp del: set_concat)
  qed
qed

lemma run_at_level_end:
  assumes g: "run_graph as g" and at: "run_at as run (gr_levels g) past looked s"
    and s: "rs_phase s = InLevel" "rs_pending s = []" "rs_running s = []"
  shows "run_at as run (gr_levels g) (past @ [looked]) []
    (s\<lparr>rs_phase := AtCheck, rs_failedIDs := rs_failedIDs s \<union> set (rs_levelFailed s)\<rparr>)"
proof -
  have levels: "gr_levels g = past @ [looked] @ rs_levels s"
    and failed: "rs_failedIDs s = {v \<in> set (concat past). an_failed as run v} \<union> {v \<in> set looked. an_blocked as run v}"
    and late: "set (rs_levelFailed s) = {v \<in> set looked. \<not> an_blocked as run v \<and> run v \<noteq> None}"
    using at s by (simp_all add: run_at_def)
  have "set looked \<subseteq> analyzer_ids as" using g unfolding run_graph_def levels by auto
  then have "{v \<in> set looked. an_failed as run v} =
      {v \<in> set looked. an_blocked as run v} \<union> {v \<in> set looked. \<not> an_blocked as run v \<and> run v \<noteq> None}"
    using an_failed_iff [of _ as run] by blast
  then have "rs_failedIDs s \<union> set (rs_levelFailed s) = {v \<in> set (concat (past @ [looked])). an_failed as run v}"
    unfolding failed late by auto
  then show ?thesis using at s unfolding run_at_def by (simp del: set_concat)
qed

lemma run_step_inv:
  assumes g: "run_graph as g" and step: "run_step g run s t" and inv: "run_inv as run (gr_levels g) s"
  shows "run_inv as run (gr_levels g) t"
  using step
proof cases
  case (run_cancelled e)
  then obtain past looked where at: "run_at as run (gr_levels g) past looked s" using inv by (auto simp: run_inv_def)
  then have "looked = []" using run_cancelled by (simp add: run_at_def)
  then show ?thesis using at run_cancelled unfolding run_inv_def by blast
next
  case (run_enter level levels)
  then obtain past looked where at: "run_at as run (gr_levels g) past looked s" using inv by (auto simp: run_inv_def)
  then have "looked = []" using run_enter by (simp add: run_at_def)
  then show ?thesis using run_at_enter [of as run "gr_levels g" past s level levels] at run_enter by (auto simp: run_inv_def)
next
  case run_return
  then obtain past looked where at: "run_at as run (gr_levels g) past looked s" using inv by (auto simp: run_inv_def)
  then have "looked = []" using run_return by (simp add: run_at_def)
  then show ?thesis using at run_return unfolding run_inv_def by blast
next
  case (run_skip aid rest a)
  then obtain past looked where at: "run_at as run (gr_levels g) past looked s" using inv by (auto simp: run_inv_def)
  have "an_blocked as run aid" using run_at_current(5) [OF g at run_skip(2-4)] run_skip(5) by blast
  from run_at_skip [OF g at run_skip(2,3) this] show ?thesis using run_skip by (auto simp: run_inv_def)
next
  case (run_launch aid rest a)
  then obtain past looked where at: "run_at as run (gr_levels g) past looked s" using inv by (auto simp: run_inv_def)
  have "\<not> an_blocked as run aid" using run_at_current(5) [OF g at run_launch(2-4)] run_launch(5) by blast
  from run_at_launch [OF g at run_launch(2,3) this] show ?thesis using run_launch by (auto simp: run_inv_def)
next
  case (run_complete aid)
  then obtain past looked where at: "run_at as run (gr_levels g) past looked s" using inv by (auto simp: run_inv_def)
  have "rs_phase t = InLevel" using run_complete by (auto split: option.split)
  then show ?thesis
    using run_at_complete [OF at run_complete(2,3)] unfolding run_complete(1) [symmetric] run_inv_def by auto
next
  case run_level_end
  then obtain past looked where at: "run_at as run (gr_levels g) past looked s" using inv by (auto simp: run_inv_def)
  from run_at_level_end [OF g at run_level_end(2-4)] show ?thesis using run_level_end by (auto simp: run_inv_def)
qed

lemma run_reach_inv:
  assumes g: "run_graph as g" and "run_reach g run s"
  shows "run_inv as run (gr_levels g) s"
  using assms(2) unfolding run_reach_def
proof (induction rule: rtranclp_induct)
  case base
  have "rs_phase (run_start g) \<noteq> Stopped" by (simp add: run_start_def)
  then show ?case using run_at_start [of as run g] unfolding run_inv_def by blast
next
  case (step s t)
  then show ?case using run_step_inv [OF g] by blast
qed

text \<open>Every step counts down.\<close>

definition run_measure :: "'e run_state \<Rightarrow> nat" where
  "run_measure s =
     (case rs_phase s of
        Stopped \<Rightarrow> 0
      | AtCheck \<Rightarrow> 1 + (\<Sum>l\<leftarrow>rs_levels s. 2 + 2 * length l) + length (rs_running s)
      | InLevel \<Rightarrow> 2 + (\<Sum>l\<leftarrow>rs_levels s. 2 + 2 * length l) + 2 * length (rs_pending s) + length (rs_running s))"

lemma run_step_decreases: "run_step g run s t \<Longrightarrow> run_measure t < run_measure s"
proof (induction rule: run_step.induct)
  case (run_complete s aid)
  then have "0 < length (rs_running s)" by (cases "rs_running s") auto
  then show ?case using run_complete by (auto simp: run_measure_def length_remove1 split: option.split)
qed (auto simp: run_measure_def)

lemma run_step_exists:
  assumes g: "run_graph as g" and inv: "run_inv as run (gr_levels g) s" and "rs_phase s \<noteq> Stopped"
  shows "\<exists>t. run_step g run s t"
proof (cases "rs_phase s")
  case AtCheck
  then show ?thesis
    by (cases "rs_levels s") (blast intro: run_step.run_return run_step.run_enter)+
next
  case InLevel
  show ?thesis
  proof (cases "rs_pending s")
    case Nil
    show ?thesis
    proof (cases "rs_running s")
      case Nil
      show ?thesis using run_step.run_level_end [OF InLevel \<open>rs_pending s = []\<close> Nil] by blast
    next
      case (Cons aid rest)
      then have "aid \<in> set (rs_running s)" by simp
      from run_step.run_complete [OF InLevel this] show ?thesis by blast
    qed
  next
    case (Cons aid rest)
    obtain past looked where at: "run_at as run (gr_levels g) past looked s" using inv InLevel by (auto simp: run_inv_def)
    have "gr_byID g aid \<noteq> None"
      using run_at_current(1) [OF g at InLevel Cons] g by_id_known [of as aid] by (simp add: run_graph_def)
    then obtain a where "gr_byID g aid = Some a" by blast
    then show ?thesis using InLevel Cons run_step.run_skip run_step.run_launch by metis
  qed
qed (use assms(3) in simp)

lemma layered_prefix: "layered V D (xs @ ys) \<Longrightarrow> layered V D xs"
  unfolding layered_def earlier_def by (simp add: nth_append split: if_splits)

lemma NewGraph_run_graph:
  assumes "iterates ord" "NewGraph ord as = Some (Inr g)"
  shows "run_graph as g"
  using NewGraph_graph [OF assms] by (simp add: run_graph_def)

lemma run_at_started:
  assumes g: "run_graph as g" and at: "run_at as run (gr_levels g) past looked s"
    and v: "v \<in> set (rs_started s)" "d \<in> deps_of as v"
  shows "d \<in> set (rs_started s) \<and> d \<notin> set (rs_running s) \<and> run d = None"
proof -
  have started: "set (rs_started s) = {v \<in> set (concat past) \<union> set looked. \<not> an_blocked as run v}"
    and running: "set (rs_running s) \<subseteq> set looked"
    using at unfolding run_at_def by blast+
  obtain rest where levels: "gr_levels g = past @ rest" "looked \<noteq> [] \<Longrightarrow> \<exists>l ls. rest = (looked @ l) # ls"
    using at unfolding run_at_def by (cases "rs_phase s = InLevel") auto
  have lay: "layered (analyzer_ids as) (deps_of as) (past @ rest)" and dist: "distinct (concat (past @ rest))"
    and valid: "valid_analyzers as"
    using g unfolding run_graph_def levels(1) by simp_all
  have "deps_of as v \<subseteq> set (concat past)"
  proof (cases "v \<in> set (concat past)")
    case True
    then show ?thesis using layered_facts [OF layered_prefix [OF lay]] by blast
  next
    case False
    then have "v \<in> set looked" using v(1) started by blast
    then obtain l ls where "rest = (looked @ l) # ls" using levels(2) by (cases looked) auto
    then show ?thesis
      using layered_level(1) [OF lay, of "length past" v] \<open>v \<in> set looked\<close> by (simp add: earlier_def)
  qed
  then have d: "d \<in> set (concat past)" using v(2) by blast
  have "\<not> an_failed as run d" using v started by (auto simp: an_blocked_def)
  moreover have "d \<in> analyzer_ids as" using deps_of_ids [OF valid] v(2) by blast
  ultimately have "\<not> an_blocked as run d" "run d = None" using an_failed_iff [of d as run] by auto
  moreover have "d \<notin> set looked"
  proof
    assume "d \<in> set looked"
    then obtain l ls where "rest = (looked @ l) # ls" using levels(2) by (cases looked) auto
    then show False using dist d \<open>d \<in> set looked\<close> by auto
  qed
  ultimately show ?thesis using started running d by blast
qed

lemma run_inv_at:
  assumes "run_inv as run levels s"
  obtains past looked s0 where "run_at as run levels past looked s0" "rs_started s = rs_started s0" "rs_running s = rs_running s0"
  using assms unfolding run_inv_def by fastforce

text \<open>
  C4: a run respects the dependencies, in every state any interleaving reaches: no analyzer is
  launched twice, and when an analyzer has been launched all it depends on has been launched, has
  returned, and has not failed.
\<close>

theorem Run_dependencies_first:
  assumes "iterates ord" "NewGraph ord as = Some (Inr g)" "run_reach g run s"
  shows "distinct (rs_started s) \<and>
    (\<forall>a \<in> set as. an_ID a \<in> set (rs_started s) \<longrightarrow>
       (\<forall>d \<in> set (an_Dependencies a). d \<in> set (rs_started s) \<and> d \<notin> set (rs_running s) \<and> run d = None))"
proof -
  have g: "run_graph as g" by (rule NewGraph_run_graph [OF assms(1,2)])
  have dist: "distinct (map an_ID as)" using g by (simp add: run_graph_def valid_analyzers_def)
  obtain past looked s0 where at: "run_at as run (gr_levels g) past looked s0"
    "rs_started s = rs_started s0" "rs_running s = rs_running s0"
    using run_inv_at [OF run_reach_inv [OF g assms(3)]] by blast
  have "distinct (rs_started s)" using at(1,2) by (simp add: run_at_def)
  moreover have "d \<in> set (rs_started s) \<and> d \<notin> set (rs_running s) \<and> run d = None"
    if "a \<in> set as" "an_ID a \<in> set (rs_started s)" "d \<in> set (an_Dependencies a)" for a d
    using run_at_started [OF g at(1), of "an_ID a" d] deps_of_member [OF dist that(1)] that at(2,3) by simp
  ultimately show ?thesis by blast
qed

text \<open>
  C11: the outcome of a run whose context is not done. Whatever the interleaving, when the run
  returns it has launched exactly the analyzers without a failed direct or indirect dependency, and
  its errors are, up to their order, one for each analyzer that was skipped and one for each that
  was launched and failed.
\<close>

theorem Run_outcome:
  assumes "iterates ord" "NewGraph ord as = Some (Inr g)" "run_reach g run s"
    and "rs_phase s = Stopped" "\<forall>e. CtxError e \<notin> set (rs_errors s)"
  shows "set (rs_started s) = {v \<in> an_ID ` set as. \<not> an_blocked as run v} \<and>
    mset (rs_errors s) = (\<Sum>v \<in> an_ID ` set as. error_of as run v)"
proof -
  have g: "run_graph as g" by (rule NewGraph_run_graph [OF assms(1,2)])
  obtain s0 past where s0: "rs_phase s0 = AtCheck" "run_at as run (gr_levels g) past [] s0"
    and s: "rs_levels s0 = []" "s = s0\<lparr>rs_phase := Stopped\<rparr>"
    using run_reach_inv [OF g assms(3)] assms(4,5) unfolding run_inv_def by auto
  have "gr_levels g = past" using s0 s(1) by (simp add: run_at_def)
  then have past: "set (concat past) = an_ID ` set as" using g by (simp add: run_graph_def analyzer_ids_def)
  have "set (rs_started s) = {v \<in> set (concat past). \<not> an_blocked as run v}"
    "mset (rs_errors s) = (\<Sum>v \<in> set (concat past). error_of as run v)"
    using s0 s(2) unfolding run_at_def by simp_all
  then show ?thesis unfolding past by blast
qed

lemma run_measure_start:
  assumes "run_graph as g"
  shows "run_measure (run_start g) = 1 + 2 * (length (Levels g) + length as)"
proof -
  have levels: "(\<Sum>l\<leftarrow>ls. 2 + 2 * length l) = 2 * (length ls + length (concat ls))" for ls :: "string list list"
    by (induction ls) simp_all
  have "length (concat (gr_levels g)) = length as"
    using assms unfolding run_graph_def valid_analyzers_def analyzer_ids_def by (metis distinct_card length_map set_map)
  then show ?thesis
    unfolding run_measure_def run_start_def Levels_def by (simp only: run_state.simps run_phase.case levels) simp
qed

text \<open>
  C19: every run returns. No execution has more than \<open>1 + 2 * (levels + analyzers)\<close> steps, and as
  long as the run has not returned there is a next step: the loop is never stuck, waiting for an
  analyzer or at a missing one.
\<close>

theorem Run_returns:
  assumes "iterates ord" "NewGraph ord as = Some (Inr g)" "(run_step g run ^^ n) (run_start g) s"
  shows "n \<le> 1 + 2 * (length (Levels g) + length as) \<and> (rs_phase s = Stopped \<or> (\<exists>t. run_step g run s t))"
proof -
  have g: "run_graph as g" by (rule NewGraph_run_graph [OF assms(1,2)])
  have count: "(run_step g run ^^ n) s0 s \<Longrightarrow> n + run_measure s \<le> run_measure s0" for s0
  proof (induction n arbitrary: s)
    case (Suc n)
    then obtain u where u: "(run_step g run ^^ n) s0 u" "run_step g run u s" by auto
    then show ?case using Suc.IH [OF u(1)] run_step_decreases [OF u(2)] by simp
  qed simp
  note count [OF assms(3)]
  moreover have "run_reach g run s" using assms(3) unfolding run_reach_def by (rule relpowp_imp_rtranclp)
  then have "rs_phase s = Stopped \<or> (\<exists>t. run_step g run s t)"
    using run_step_exists [OF g run_reach_inv [OF g]] by blast
  ultimately show ?thesis unfolding run_measure_start [OF g] by simp
qed

text \<open>The first analyzer fails: the two others are skipped.\<close>

lemma example_run:
  defines "run \<equiv> (\<lambda>v. if v = ''a'' then Some () else None)"
  shows "\<exists>s. (run_step example_graph run ^^ 11) (run_start example_graph) s \<and> run_reach example_graph run s \<and>
    rs_phase s = Stopped \<and> rs_started s = [''a''] \<and>
    rs_errors s = [RunAnalyzer ''a'' (), SkipAnalyzer ''b'', SkipAnalyzer ''c'']"
proof -
  let ?mk = "\<lambda>ph ls pe ru lf fi er. \<lparr>rs_phase = ph, rs_levels = ls, rs_pending = pe, rs_running = ru, rs_levelFailed = lf,
    rs_failedIDs = fi, rs_errors = er, rs_started = [''a'']\<rparr>"
  let ?step = "run_step example_graph run"
  have by_id: "gr_byID example_graph ''a'' = Some \<lparr>an_ID = ''a'', an_Dependencies = [], an_body = ()\<rparr>"
    "gr_byID example_graph ''b'' = Some \<lparr>an_ID = ''b'', an_Dependencies = [''a''], an_body = ()\<rparr>"
    "gr_byID example_graph ''c'' = Some \<lparr>an_ID = ''c'', an_Dependencies = [''a'', ''b''], an_body = ()\<rparr>"
    by (simp_all add: example_graph_def by_id_def example_analyzers_def)
  let ?state_a = "run_start example_graph"
  let ?state_b = "?state_a\<lparr>rs_phase := InLevel, rs_levels := [[''b''], [''c'']], rs_pending := [''a''], rs_levelFailed := []\<rparr>"
  let ?state_c = "?mk InLevel [[''b''], [''c'']] [] [''a''] [] {} []"
  let ?e = "[RunAnalyzer ''a'' ()]"
  let ?state_d = "?mk InLevel [[''b''], [''c'']] [] [] [''a''] {} ?e"
  let ?state_e = "?mk AtCheck [[''b''], [''c'']] [] [] [''a''] {''a''} ?e"
  let ?state_f = "?mk InLevel [[''c'']] [''b''] [] [] {''a''} ?e"
  let ?state_g = "?mk InLevel [[''c'']] [] [] [] {''b'', ''a''} (?e @ [SkipAnalyzer ''b''])"
  let ?state_h = "?mk AtCheck [[''c'']] [] [] [] {''b'', ''a''} (?e @ [SkipAnalyzer ''b''])"
  let ?state_i = "?mk InLevel [] [''c''] [] [] {''b'', ''a''} (?e @ [SkipAnalyzer ''b''])"
  let ?state_j = "?mk InLevel [] [] [] [] {''c'', ''b'', ''a''} (?e @ [SkipAnalyzer ''b'', SkipAnalyzer ''c''])"
  let ?state_k = "?mk AtCheck [] [] [] [] {''c'', ''b'', ''a''} (?e @ [SkipAnalyzer ''b'', SkipAnalyzer ''c''])"
  let ?state_l = "?mk Stopped [] [] [] [] {''c'', ''b'', ''a''} (?e @ [SkipAnalyzer ''b'', SkipAnalyzer ''c''])"
  have st1: "?step ?state_a ?state_b" by (rule run_step.run_enter) (simp_all add: run_start_def example_graph_def)
  have st2: "?step ?state_b ?state_c"
    using run_step.run_launch [of ?state_b "''a''" "[]" example_graph _ run] by_id(1)
    by (simp add: run_start_def has_failed_dep_def)
  have st3: "?step ?state_c ?state_d" using run_step.run_complete [of ?state_c "''a''" example_graph run] by (simp add: run_def)
  have st4: "?step ?state_d ?state_e" using run_step.run_level_end [of ?state_d example_graph run] by simp
  have st5: "?step ?state_e ?state_f" using run_step.run_enter [of ?state_e "[''b'']" "[[''c'']]" example_graph run] by simp
  have st6: "?step ?state_f ?state_g"
    using run_step.run_skip [of ?state_f "''b''" "[]" example_graph _ run] by_id(2) by (simp add: has_failed_dep_def)
  have st7: "?step ?state_g ?state_h" using run_step.run_level_end [of ?state_g example_graph run] by simp
  have st8: "?step ?state_h ?state_i" using run_step.run_enter [of ?state_h "[''c'']" "[]" example_graph run] by simp
  have st9: "?step ?state_i ?state_j"
    using run_step.run_skip [of ?state_i "''c''" "[]" example_graph _ run] by_id(3) by (simp add: has_failed_dep_def)
  have st10: "?step ?state_j ?state_k" using run_step.run_level_end [of ?state_j example_graph run] by simp
  have st11: "?step ?state_k ?state_l" using run_step.run_return [of ?state_k example_graph run] by simp
  have st0: "(?step ^^ 0) ?state_a ?state_a" by simp
  note suc = relpowp_Suc_I [where P = ?step]
  note run = suc [OF suc [OF suc [OF suc [OF suc [OF suc
    [OF suc [OF suc [OF suc [OF suc [OF suc [OF st0 st1] st2] st3] st4] st5] st6] st7] st8] st9] st10] st11]
  have eleven: "(11 :: nat) = Suc (Suc (Suc (Suc (Suc (Suc (Suc (Suc (Suc (Suc (Suc 0))))))))))" by simp
  have reach: "run_reach example_graph run ?state_l" unfolding run_reach_def by (rule relpowp_imp_rtranclp [OF run])
  show ?thesis unfolding eleven by (intro exI [of _ ?state_l] conjI run reach) simp_all
qed

theorem Run_dependencies_first_witness:
  "\<exists>s. run_reach example_graph (\<lambda>v. if v = ''a'' then Some () else None) s \<and> rs_started s = [''a''] \<and> ''b'' \<notin> set (rs_started s)"
proof -
  let ?run = "\<lambda>v :: string. if v = ''a'' then Some () else None"
  obtain s where s: "run_reach example_graph ?run s" "rs_started s = [''a'']" using example_run by blast
  have "\<lparr>an_ID = ''b'', an_Dependencies = [''a''], an_body = ()\<rparr> \<in> set example_analyzers" by (simp add: example_analyzers_def)
  then have "''b'' \<notin> set (rs_started s)"
    using Run_dependencies_first [OF iterates_sorted_order example_graph_built s(1)] by fastforce
  then show ?thesis using s by blast
qed

theorem Run_outcome_witness:
  "\<exists>s. rs_started s = [''a''] \<and>
    {v \<in> an_ID ` set example_analyzers. \<not> an_blocked example_analyzers (\<lambda>v. if v = ''a'' then Some () else None) v} = {''a''} \<and>
    run_reach example_graph (\<lambda>v. if v = ''a'' then Some () else None) s"
proof -
  let ?run = "\<lambda>v :: string. if v = ''a'' then Some () else None"
  obtain s where s: "run_reach example_graph ?run s" "rs_started s = [''a'']" "rs_phase s = Stopped"
    "rs_errors s = [RunAnalyzer ''a'' (), SkipAnalyzer ''b'', SkipAnalyzer ''c'']" using example_run by blast
  then have "\<forall>e. CtxError e \<notin> set (rs_errors s)" by simp
  from Run_outcome [OF iterates_sorted_order example_graph_built s(1,3) this] s(1,2) show ?thesis by auto
qed

theorem Run_returns_witness:
  "\<exists>s. (run_step example_graph (\<lambda>v. if v = ''a'' then Some () else None) ^^ 11) (run_start example_graph) s \<and>
     (11 :: nat) \<le> 1 + 2 * (length (Levels example_graph) + length example_analyzers)"
proof -
  let ?run = "\<lambda>v :: string. if v = ''a'' then Some () else None"
  obtain s where s: "(run_step example_graph ?run ^^ 11) (run_start example_graph) s" using example_run by blast
  from Run_returns [OF iterates_sorted_order example_graph_built this] s show ?thesis by blast
qed

end
