(* ===== verification/Predecessors.thy ===== *)
theory Predecessors
  imports Go_Prelude
begin

text \<open>
  The proposals that must run before a proposal
  (\<open>experimental/proposalutils/predecessors/\<close>): the dependency graph of the open pull requests and
  its topological order (\<open>proposal_graph.go\<close>), and the starting operation counts of a new
  proposal, from those of its predecessors (\<open>types.go\<close>, \<open>predecessor.go\<close>).

  Operation counts and chain selectors are 64-bit words and wrap as in the source; a pull request
  number and a creation time are only compared. \<open>strings.EqualFold\<close> is a parameter, an equivalence
  of strings; so are the iteration orders of maps, and the library that loads and writes proposals.
\<close>

section \<open>Proposals and their operation counts\<close>

record mcm_op_data =
  md_MCMAddress :: string
  md_StartingOpCount :: u64
  md_OpsCount :: u64

definition EndingOpCount :: "mcm_op_data \<Rightarrow> u64" where
  "EndingOpCount d = md_StartingOpCount d + md_OpsCount d"

type_synonym ops_data = "u64 \<rightharpoonup> mcm_op_data"

record pr_view =
  pv_Number :: int
  pv_CreatedAt :: int
  pv_ProposalData :: ops_data

definition sameMCM :: "(string \<Rightarrow> string \<Rightarrow> bool) \<Rightarrow> string \<Rightarrow> string \<Rightarrow> bool" where
  "sameMCM equalFold a b \<longleftrightarrow> equalFold (trim_space a) (trim_space b)"

text \<open>What is fixed in a run: case folding, and the order in which an \<open>ops_data\<close> map is ranged over.\<close>

record pr_env =
  pe_equalFold :: "string \<Rightarrow> string \<Rightarrow> bool"
  pe_range :: "ops_data \<Rightarrow> u64 list"

definition relatedByMCMOnAnyChain :: "pr_env \<Rightarrow> ops_data \<Rightarrow> ops_data \<Rightarrow> bool" where
  "relatedByMCMOnAnyChain E x y =
     (case (if card (dom x) > card (dom y) then (y, x) else (x, y)) of
        (x, y) \<Rightarrow>
          list_ex (\<lambda>selector.
            case (x selector, y selector) of
              (Some mcmDataX, Some mcmDataY) \<Rightarrow> sameMCM (pe_equalFold E) (md_MCMAddress mcmDataX) (md_MCMAddress mcmDataY)
            | _ \<Rightarrow> False) (pe_range E x))"

section \<open>The graph\<close>

record pr_node =
  pn_PR :: pr_view
  pn_Pred :: "int list"
  pn_Succ :: "int list"

record pr_graph =
  pg_Nodes :: "int \<rightharpoonup> pr_node"
  pg_Topo :: "int list"

definition older :: "pr_view \<Rightarrow> pr_view \<Rightarrow> bool" where
  "older a b =
     (if pv_CreatedAt a = pv_CreatedAt b then pv_Number a < pv_Number b else pv_CreatedAt a < pv_CreatedAt b)"

text \<open>The edge from an older to a newer pull request; a missing node would be a nil dereference.\<close>

definition add_edge :: "int \<Rightarrow> int \<Rightarrow> (int \<rightharpoonup> pr_node) \<Rightarrow> (int \<rightharpoonup> pr_node)" where
  "add_edge u v nodes =
     (let nodes = nodes(u := map_option (\<lambda>nd. nd\<lparr>pn_Succ := pn_Succ nd @ [v]\<rparr>) (nodes u)) in
      nodes(v := map_option (\<lambda>nd. nd\<lparr>pn_Pred := pn_Pred nd @ [u]\<rparr>) (nodes v)))"

fun add_edges_from :: "pr_env \<Rightarrow> pr_view \<Rightarrow> pr_view list \<Rightarrow> (int \<rightharpoonup> pr_node) \<Rightarrow> (int \<rightharpoonup> pr_node)" where
  "add_edges_from E old [] nodes = nodes"
| "add_edges_from E old (newer # rest) nodes =
     add_edges_from E old rest
       (if relatedByMCMOnAnyChain E (pv_ProposalData old) (pv_ProposalData newer)
        then add_edge (pv_Number old) (pv_Number newer) nodes else nodes)"

fun add_edges :: "pr_env \<Rightarrow> pr_view list \<Rightarrow> (int \<rightharpoonup> pr_node) \<Rightarrow> (int \<rightharpoonup> pr_node)" where
  "add_edges E [] nodes = nodes"
| "add_edges E (old # rest) nodes = add_edges E rest (add_edges_from E old rest nodes)"

text \<open>\<open>sort.Search\<close>: the binary search of the standard library, between two bounds.\<close>

function sort_search :: "(nat \<Rightarrow> bool) \<Rightarrow> nat \<Rightarrow> nat \<Rightarrow> nat" where
  "sort_search f i j =
     (if i < j then
        let h = (i + j) div 2 in
        if \<not> f h then sort_search f (h + 1) j else sort_search f i h
      else i)"
  by pat_completeness auto
termination by (relation "measure (\<lambda>(f, i, j). j - i)") auto

declare sort_search.simps [simp del]

definition push :: "(int \<Rightarrow> nat) \<Rightarrow> int \<Rightarrow> int list \<Rightarrow> int list" where
  "push rank x pq =
     (let i = sort_search (\<lambda>i. rank (pq ! i) > rank x) 0 (length pq) in take i pq @ [x] @ drop i pq)"

fun relax_succ :: "(int \<Rightarrow> nat) \<Rightarrow> int list \<Rightarrow> (int \<Rightarrow> int) \<Rightarrow> int list \<Rightarrow> (int \<Rightarrow> int) \<times> int list" where
  "relax_succ rank [] indeg pq = (indeg, pq)"
| "relax_succ rank (v # succ) indeg pq =
     (let indeg = indeg(v := indeg v - 1) in
      relax_succ rank succ indeg (if indeg v = 0 then push rank v pq else pq))"

text \<open>The loop over the queue; a node that is missing stops it (\<open>None\<close> is a panic or no return).\<close>

partial_function (option) topo_loop ::
  "(int \<Rightarrow> nat) \<Rightarrow> (int \<rightharpoonup> pr_node) \<Rightarrow> (int \<Rightarrow> int) \<Rightarrow> int list \<Rightarrow> int list \<Rightarrow> int list option" where
  "topo_loop rank nodes indeg pq order =
     (case pq of
        [] \<Rightarrow> Some order
      | u # pq \<Rightarrow>
          (case nodes u of
             None \<Rightarrow> None
           | Some nd \<Rightarrow>
               (case relax_succ rank (pn_Succ nd) indeg pq of
                  (indeg, pq) \<Rightarrow> topo_loop rank nodes indeg pq (order @ [u]))))"

declare topo_loop.simps [code]

definition rank_of :: "int list \<Rightarrow> int \<Rightarrow> nat" where
  "rank_of nums = fold (\<lambda>(i, x) rank. rank(x := i)) (enumerate 0 nums) (\<lambda>_. 0)"

datatype topo_error = TopoCycle

definition topoOrderStable :: "pr_view list \<Rightarrow> (int \<rightharpoonup> pr_node) \<Rightarrow> (topo_error + int list) option" where
  "topoOrderStable sorted_views nodes =
     (let nums = map pv_Number sorted_views;
          indeg = (\<lambda>x. case nodes x of None \<Rightarrow> 0 | Some nd \<Rightarrow> int (length (pn_Pred nd)));
          rank = rank_of nums;
          pq = fold (\<lambda>x pq. if indeg x = 0 then push rank x pq else pq) nums [] in
      map_option (\<lambda>order. if length order \<noteq> card (dom nodes) then Inl TopoCycle else Inr order)
        (topo_loop rank nodes indeg pq []))"

definition BuildPRDependencyGraph :: "pr_env \<Rightarrow> pr_view list \<Rightarrow> (topo_error + pr_graph) option" where
  "BuildPRDependencyGraph E views =
     (if views = [] then Some (Inr \<lparr>pg_Nodes = Map.empty, pg_Topo = []\<rparr>)
      else
        let sorted_views = stable_sort older views;
            nodes = fold (\<lambda>v nodes. nodes(pv_Number v \<mapsto> \<lparr>pn_PR = v, pn_Pred = [], pn_Succ = []\<rparr>)) sorted_views Map.empty;
            nodes = add_edges E sorted_views nodes in
        map_option (\<lambda>r. case r of Inl e \<Rightarrow> Inl e | Inr topo \<Rightarrow> Inr \<lparr>pg_Nodes = nodes, pg_Topo = topo\<rparr>)
          (topoOrderStable sorted_views nodes))"

section \<open>Starting operation counts\<close>

text \<open>The operations of the predecessors that count for a chain: not stale, and of the same contract.\<close>

definition predecessor_counts :: "pr_env \<Rightarrow> u64 \<Rightarrow> mcm_op_data \<Rightarrow> pr_view \<Rightarrow> u64" where
  "predecessor_counts E sel cur pred =
     (case pv_ProposalData pred sel of
        None \<Rightarrow> 0
      | Some other \<Rightarrow>
          if \<not> sameMCM (pe_equalFold E) (md_MCMAddress cur) (md_MCMAddress other) then 0
          else if md_StartingOpCount other < md_StartingOpCount cur then 0
          else md_OpsCount other)"

definition sum_of_predecessors :: "pr_env \<Rightarrow> u64 \<Rightarrow> mcm_op_data \<Rightarrow> pr_view list \<Rightarrow> u64" where
  "sum_of_predecessors E sel cur preds =
     md_StartingOpCount cur + fold (\<lambda>pred extra. extra + predecessor_counts E sel cur pred) preds 0"

definition adjust_to_latest :: "pr_env \<Rightarrow> u64 \<Rightarrow> mcm_op_data \<Rightarrow> pr_view list \<Rightarrow> u64 \<Rightarrow> u64" where
  "adjust_to_latest E sel cur preds out =
     (if length preds > 0 then
        (case pv_ProposalData (last preds) sel of
           None \<Rightarrow> out
         | Some other \<Rightarrow>
             if \<not> sameMCM (pe_equalFold E) (md_MCMAddress cur) (md_MCMAddress other) then out
             else
               let newStart = md_StartingOpCount other + md_OpsCount other in
               if newStart > out then newStart else out)
      else out)"

definition ComputeHighestOpCountsFromPredecessors ::
  "pr_env \<Rightarrow> ops_data \<Rightarrow> pr_view list \<Rightarrow> (u64 \<rightharpoonup> u64)" where
  "ComputeHighestOpCountsFromPredecessors E newProposalData predecessors =
     (\<lambda>sel. map_option (\<lambda>cur. adjust_to_latest E sel cur predecessors (sum_of_predecessors E sel cur predecessors))
        (newProposalData sel))"

section \<open>Updating and reading proposal files\<close>

record chain_meta =
  cm_StartingOpCount :: u64
  cm_MCMAddress :: string

fun bump_counts :: "u64 list \<Rightarrow> (u64 \<rightharpoonup> u64) \<Rightarrow> (u64 \<rightharpoonup> chain_meta) \<Rightarrow> bool \<Rightarrow> (u64 \<rightharpoonup> chain_meta) \<times> bool" where
  "bump_counts [] newOpCounts metas changed = (metas, changed)"
| "bump_counts (sel # sels) newOpCounts metas changed =
     (case (newOpCounts sel, metas sel) of
        (Some newStart, Some meta) \<Rightarrow>
          if cm_StartingOpCount meta < newStart
          then bump_counts sels newOpCounts (metas(sel \<mapsto> meta\<lparr>cm_StartingOpCount := newStart\<rparr>)) True
          else bump_counts sels newOpCounts metas changed
      | _ \<Rightarrow> bump_counts sels newOpCounts metas changed)"

datatype 'e proposal_error = LoadProposal 'e | NotTimelock | OpenForWrite 'e | WriteProposal 'e | OperationCounts 'e

text \<open>
  A proposal is its chain metadata and a rest that is only written back. Loading gives an error, a
  proposal of another kind (\<open>None\<close>) or a timelock proposal; \<open>save\<close> is the outcome of opening and
  writing the file. The second component is the metadata handed to the writer, if it is reached.
\<close>

definition ApplyHighestOpCountsToProposal ::
  "('e + ((u64 \<rightharpoonup> chain_meta) \<times> 'r) option) \<Rightarrow> ('e option \<times> 'e option) \<Rightarrow> u64 list \<Rightarrow> (u64 \<rightharpoonup> u64) \<Rightarrow>
   'e proposal_error option \<times> ((u64 \<rightharpoonup> chain_meta) \<times> 'r) option" where
  "ApplyHighestOpCountsToProposal loaded save sels newOpCounts =
     (case loaded of
        Inl e \<Rightarrow> (Some (LoadProposal e), None)
      | Inr None \<Rightarrow> (Some NotTimelock, None)
      | Inr (Some (metas, rest)) \<Rightarrow>
          (case bump_counts sels newOpCounts metas False of
             (metas, changed) \<Rightarrow>
               if \<not> changed then (None, None)
               else
                 (case save of
                    (Some e, _) \<Rightarrow> (Some (OpenForWrite e), None)
                  | (None, Some e) \<Rightarrow> (Some (WriteProposal e), Some (metas, rest))
                  | (None, None) \<Rightarrow> (None, Some (metas, rest)))))"

definition ParseProposalOpsData ::
  "('e + ((u64 \<rightharpoonup> chain_meta) \<times> 'r) option) \<Rightarrow> ((u64 \<rightharpoonup> chain_meta) \<times> 'r \<Rightarrow> 'e + (u64 \<rightharpoonup> u64)) \<Rightarrow>
   'e proposal_error + ops_data" where
  "ParseProposalOpsData loaded operationCounts =
     (case loaded of
        Inl e \<Rightarrow> Inl (LoadProposal e)
      | Inr None \<Rightarrow> Inl NotTimelock
      | Inr (Some tp) \<Rightarrow>
          (case operationCounts tp of
             Inl e \<Rightarrow> Inl (OperationCounts e)
           | Inr counts \<Rightarrow>
               Inr (\<lambda>chain. map_option (\<lambda>meta.
                 \<lparr>md_MCMAddress = trim_space (cm_MCMAddress meta), md_StartingOpCount = cm_StartingOpCount meta,
                  md_OpsCount = (case counts chain of None \<Rightarrow> 0 | Some c \<Rightarrow> c)\<rparr>) (fst tp chain))))"

section \<open>The queue\<close>

lemma sort_search_law:
  assumes "lo \<le> m" "m \<le> hi" "\<And>i. i < m \<Longrightarrow> \<not> f i" "\<And>i. m \<le> i \<Longrightarrow> i < hi \<Longrightarrow> f i"
  shows "sort_search f lo hi = m"
  using assms
proof (induction f lo hi rule: sort_search.induct)
  case (1 f i j)
  show ?case
  proof (cases "i < j")
    case True
    let ?h = "(i + j) div 2"
    have h: "i \<le> ?h" "?h < j" using True by auto
    show ?thesis
    proof (cases "f ?h")
      case f: True
      then have "m \<le> ?h" using "1.prems"(3) by (meson not_le_imp_less)
      then have "sort_search f i ?h = m" using "1.IH"(2) [OF True refl] f "1.prems" h by simp
      then show ?thesis using True f by (simp add: sort_search.simps [of f i j] Let_def)
    next
      case f: False
      then have "\<not> m \<le> ?h" using "1.prems"(4) [of ?h] h by blast
      then have "?h + 1 \<le> m" by simp
      then have "sort_search f (?h + 1) j = m" using "1.IH"(1) [OF True refl] f "1.prems" h by simp
      then show ?thesis using True f by (simp add: sort_search.simps [of f i j] Let_def)
    qed
  next
    case False
    then show ?thesis using "1.prems" by (simp add: sort_search.simps [of f i j])
  qed
qed

text \<open>Pushing keeps the queue a sublist of the numbers in rank order.\<close>

lemma push_filter:
  assumes "sorted_wrt (\<lambda>a b. rank a < rank b) xs" "x \<in> set xs" "\<not> P x"
  shows "push rank x (filter P xs) = filter (\<lambda>y. P y \<or> y = x) xs"
proof -
  obtain ys zs where xs: "xs = ys @ x # zs" using split_list [OF assms(2)] by blast
  let ?ys = "filter P ys" and ?zs = "filter P zs"
  have low: "rank y < rank x" if "y \<in> set ys" for y using assms(1) that unfolding xs by (simp add: sorted_wrt_append)
  have high: "rank x < rank z" if "z \<in> set zs" for z using assms(1) that unfolding xs by (simp add: sorted_wrt_append)
  have "sort_search (\<lambda>i. rank ((?ys @ ?zs) ! i) > rank x) 0 (length (?ys @ ?zs)) = length ?ys"
  proof (rule sort_search_law)
    show "\<not> rank ((?ys @ ?zs) ! i) > rank x" if "i < length ?ys" for i
    proof -
      have "?ys ! i \<in> set ?ys" using that by (rule nth_mem)
      then show ?thesis using low [of "?ys ! i"] that by (simp add: nth_append)
    qed
    show "rank ((?ys @ ?zs) ! i) > rank x" if "length ?ys \<le> i" "i < length (?ys @ ?zs)" for i
    proof -
      have "?zs ! (i - length ?ys) \<in> set ?zs" using that by (intro nth_mem) simp
      then show ?thesis using high [of "?zs ! (i - length ?ys)"] that by (simp add: nth_append)
    qed
  qed simp_all
  moreover have "filter P xs = ?ys @ ?zs" using assms(3) by (simp add: xs)
  ultimately have "push rank x (filter P xs) = ?ys @ [x] @ ?zs" by (simp add: push_def Let_def)
  moreover have "filter (\<lambda>y. P y \<or> y = x) ys = ?ys" "filter (\<lambda>y. P y \<or> y = x) zs = ?zs"
    using low high by (auto intro!: filter_cong)
  ultimately show ?thesis by (simp add: xs)
qed

lemma relax_succ_law:
  assumes "sorted_wrt (\<lambda>a b. rank a < rank b) xs"
  shows "distinct succ \<Longrightarrow> set succ \<subseteq> set xs \<Longrightarrow> \<forall>x \<in> set succ. \<not> P x \<Longrightarrow>
    relax_succ rank succ indeg (filter P xs) =
      ((\<lambda>x. if x \<in> set succ then indeg x - 1 else indeg x), filter (\<lambda>y. P y \<or> y \<in> set succ \<and> indeg y = 1) xs)"
proof (induction succ arbitrary: indeg P)
  case (Cons v succ)
  let ?indeg = "indeg(v := indeg v - 1)" and ?P = "\<lambda>y. P y \<or> y = v \<and> indeg v = 1"
  have "push rank v (filter P xs) = filter (\<lambda>y. P y \<or> y = v) xs"
    using push_filter [OF assms] Cons.prems by simp
  then have "(if ?indeg v = 0 then push rank v (filter P xs) else filter P xs) = filter ?P xs" by simp
  then have "relax_succ rank (v # succ) indeg (filter P xs) = relax_succ rank succ ?indeg (filter ?P xs)"
    by (simp add: Let_def)
  also have "\<dots> = ((\<lambda>x. if x \<in> set succ then ?indeg x - 1 else ?indeg x),
      filter (\<lambda>y. ?P y \<or> y \<in> set succ \<and> ?indeg y = 1) xs)"
    by (rule Cons.IH) (use Cons.prems in auto)
  also have "(\<lambda>x. if x \<in> set succ then ?indeg x - 1 else ?indeg x) =
      (\<lambda>x. if x \<in> set (v # succ) then indeg x - 1 else indeg x)"
    using Cons.prems(1) by (auto simp: fun_eq_iff)
  also have "filter (\<lambda>y. ?P y \<or> y \<in> set succ \<and> ?indeg y = 1) xs = filter (\<lambda>y. P y \<or> y \<in> set (v # succ) \<and> indeg y = 1) xs"
    using Cons.prems(1) by (intro filter_cong) auto
  finally show ?case .
qed simp

lemma seed_law:
  assumes "sorted_wrt (\<lambda>a b. rank a < rank b) xs"
  shows "distinct ys \<Longrightarrow> set ys \<subseteq> set xs \<Longrightarrow> \<forall>x \<in> set ys. \<not> P x \<Longrightarrow>
    fold (\<lambda>x pq. if indeg x = (0 :: int) then push rank x pq else pq) ys (filter P xs) =
      filter (\<lambda>y. P y \<or> y \<in> set ys \<and> indeg y = 0) xs"
proof (induction ys arbitrary: P)
  case (Cons v ys)
  let ?P = "\<lambda>y. P y \<or> y = v \<and> indeg v = 0"
  have "push rank v (filter P xs) = filter (\<lambda>y. P y \<or> y = v) xs"
    using push_filter [OF assms] Cons.prems by simp
  then have "(if indeg v = 0 then push rank v (filter P xs) else filter P xs) = filter ?P xs" by simp
  then have "fold (\<lambda>x pq. if indeg x = 0 then push rank x pq else pq) (v # ys) (filter P xs) =
      fold (\<lambda>x pq. if indeg x = 0 then push rank x pq else pq) ys (filter ?P xs)" by simp
  also have "\<dots> = filter (\<lambda>y. ?P y \<or> y \<in> set ys \<and> indeg y = 0) xs"
    by (rule Cons.IH) (use Cons.prems in auto)
  also have "\<dots> = filter (\<lambda>y. P y \<or> y \<in> set (v # ys) \<and> indeg y = 0) xs" by (intro filter_cong) auto
  finally show ?case .
qed simp

lemma rank_of_nth: "distinct nums \<Longrightarrow> i < length nums \<Longrightarrow> rank_of nums (nums ! i) = i"
proof (induction nums arbitrary: i rule: rev_induct)
  case (snoc x nums)
  have "rank_of (nums @ [x]) = (rank_of nums)(x := length nums)" by (simp add: rank_of_def enumerate_append_eq)
  then show ?case using snoc by (auto simp: nth_append less_Suc_eq)
qed simp

lemma rank_of_sorted: "distinct nums \<Longrightarrow> sorted_wrt (\<lambda>a b. rank_of nums a < rank_of nums b) nums"
  by (simp add: sorted_wrt_iff_nth_less rank_of_nth)

section \<open>The edges\<close>

text \<open>The older and newer neighbours of a pull request in a list in time order.\<close>

fun older_in :: "(pr_view \<Rightarrow> pr_view \<Rightarrow> bool) \<Rightarrow> pr_view list \<Rightarrow> int \<Rightarrow> int list" where
  "older_in R [] x = []"
| "older_in R (v # vs) x = (if \<exists>w \<in> set vs. pv_Number w = x \<and> R v w then [pv_Number v] else []) @ older_in R vs x"

fun newer_in :: "(pr_view \<Rightarrow> pr_view \<Rightarrow> bool) \<Rightarrow> pr_view list \<Rightarrow> int \<Rightarrow> int list" where
  "newer_in R [] x = []"
| "newer_in R (v # vs) x = (if x = pv_Number v then map pv_Number (filter (R v) vs) else []) @ newer_in R vs x"

definition related :: "pr_env \<Rightarrow> pr_view \<Rightarrow> pr_view \<Rightarrow> bool" where
  "related E a b = relatedByMCMOnAnyChain E (pv_ProposalData a) (pv_ProposalData b)"

definition with_edges :: "int list \<Rightarrow> int list \<Rightarrow> pr_node \<Rightarrow> pr_node" where
  "with_edges pred succ nd = nd\<lparr>pn_Pred := pn_Pred nd @ pred, pn_Succ := pn_Succ nd @ succ\<rparr>"

lemma with_edges_simps [simp]:
  "with_edges [] [] nd = nd" "with_edges p2 s2 (with_edges p1 s1 nd) = with_edges (p1 @ p2) (s1 @ s2) nd"
  by (simp_all add: with_edges_def)

lemma map_no_edges [simp]: "map_option (with_edges [] []) z = z"
  by (cases z) simp_all

lemma add_edge_law:
  "u \<noteq> v \<Longrightarrow> add_edge u v nodes x =
     map_option (with_edges (if x = v then [u] else []) (if x = u then [v] else [])) (nodes x)"
  by (cases "nodes x") (auto simp: add_edge_def Let_def with_edges_def)

lemma add_edges_from_law:
  "pv_Number old \<notin> pv_Number ` set vs \<Longrightarrow> distinct (map pv_Number vs) \<Longrightarrow>
   add_edges_from E old vs nodes x =
     map_option (with_edges (if \<exists>w \<in> set vs. pv_Number w = x \<and> related E old w then [pv_Number old] else [])
       (if x = pv_Number old then map pv_Number (filter (related E old) vs) else [])) (nodes x)"
proof (induction vs arbitrary: nodes)
  case (Cons v vs)
  then have IH: "add_edges_from E old vs nodes' x =
     map_option (with_edges (if \<exists>w \<in> set vs. pv_Number w = x \<and> related E old w then [pv_Number old] else [])
       (if x = pv_Number old then map pv_Number (filter (related E old) vs) else [])) (nodes' x)" for nodes' by simp
  have new: "pv_Number v \<notin> pv_Number ` set vs" using Cons.prems by simp
  have v: "pv_Number old \<noteq> pv_Number v" "\<And>w. w \<in> set vs \<Longrightarrow> pv_Number w \<noteq> pv_Number v"
    using Cons.prems imageI [of _ "set vs" pv_Number] new by (auto, metis)
  show ?case
  proof (cases "related E old v")
    case True
    then have "add_edges_from E old (v # vs) nodes x =
        add_edges_from E old vs (add_edge (pv_Number old) (pv_Number v) nodes) x" by (simp add: related_def)
    then show ?thesis
      unfolding IH add_edge_law [OF v(1)] using True v by (cases "nodes x") auto
  next
    case False
    then have "add_edges_from E old (v # vs) nodes x = add_edges_from E old vs nodes x" by (simp add: related_def)
    then show ?thesis unfolding IH using False by auto
  qed
qed simp

lemma add_edges_law:
  "distinct (map pv_Number vs) \<Longrightarrow>
   add_edges E vs nodes x = map_option (with_edges (older_in (related E) vs x) (newer_in (related E) vs x)) (nodes x)"
proof (induction vs arbitrary: nodes)
  case (Cons v vs)
  then have "add_edges E vs nodes' x =
      map_option (with_edges (older_in (related E) vs x) (newer_in (related E) vs x)) (nodes' x)" for nodes' by simp
  moreover have "pv_Number v \<notin> pv_Number ` set vs" "distinct (map pv_Number vs)" using Cons.prems by auto
  note add_edges_from_law [OF this, of E nodes x]
  ultimately show ?case by (cases "nodes x") auto
qed simp

section \<open>The topological order is the time order\<close>

lemma older_in_absent: "x \<notin> pv_Number ` set vs \<Longrightarrow> older_in R vs x = []"
  by (induction vs) auto

lemma newer_in_absent: "x \<notin> pv_Number ` set vs \<Longrightarrow> newer_in R vs x = []"
  by (induction vs) auto

lemma newer_in_split:
  "distinct (map pv_Number (vs @ v # ws)) \<Longrightarrow> newer_in R (vs @ v # ws) (pv_Number v) = map pv_Number (filter (R v) ws)"
proof (induction vs)
  case Nil
  then show ?case by (simp add: newer_in_absent)
next
  case (Cons u vs)
  then have "pv_Number u \<noteq> pv_Number v" by auto
  then show ?case using Cons by simp
qed

text \<open>
  With the queue holding, in time order, what has no older neighbour left, the loop takes the
  oldest of the remaining pull requests.
\<close>

lemma topo_loop_law:
  "distinct (map pv_Number vs) \<Longrightarrow> sorted_wrt (\<lambda>a b. rank a < rank b) (map pv_Number vs) \<Longrightarrow>
   (\<And>us v ws. vs = us @ v # ws \<Longrightarrow> \<exists>nd. nodes (pv_Number v) = Some nd \<and> pn_Succ nd = map pv_Number (filter (R v) ws)) \<Longrightarrow>
   (\<And>v. v \<in> set vs \<Longrightarrow> indeg (pv_Number v) = int (length (older_in R vs (pv_Number v)))) \<Longrightarrow>
   topo_loop rank nodes indeg (filter (\<lambda>x. older_in R vs x = []) (map pv_Number vs)) order = Some (order @ map pv_Number vs)"
proof (induction vs arbitrary: indeg order)
  case Nil
  show ?case by (simp add: topo_loop.simps)
next
  case (Cons v vs)
  have new: "pv_Number v \<notin> pv_Number ` set vs" and dist: "distinct (map pv_Number vs)" using Cons.prems(1) by auto
  have sorted: "sorted_wrt (\<lambda>a b. rank a < rank b) (map pv_Number vs)" using Cons.prems(2) by simp
  obtain nd where nd: "nodes (pv_Number v) = Some nd" "pn_Succ nd = map pv_Number (filter (R v) vs)"
    using Cons.prems(3) [of "[]" v vs] by auto
  let ?P = "\<lambda>x. older_in R (v # vs) x = []" and ?succ = "map pv_Number (filter (R v) vs)"
  let ?indeg = "\<lambda>x. if x \<in> set ?succ then indeg x - 1 else indeg x"
  have succ: "x \<in> set ?succ \<longleftrightarrow> (\<exists>w \<in> set vs. pv_Number w = x \<and> R v w)" for x by auto
  have "older_in R vs (pv_Number v) = []" by (rule older_in_absent [OF new])
  moreover have "\<not> (\<exists>w \<in> set vs. pv_Number w = pv_Number v \<and> R v w)" using new by (metis imageI)
  ultimately have head: "filter ?P (map pv_Number (v # vs)) = pv_Number v # filter ?P (map pv_Number vs)" by simp
  have degree: "indeg x = int (length (older_in R vs x)) + (if x \<in> set ?succ then 1 else 0)" if "x \<in> pv_Number ` set vs" for x
  proof -
    obtain w where w: "w \<in> set vs" "x = pv_Number w" using \<open>x \<in> pv_Number ` set vs\<close> by blast
    then have "indeg x = int (length (older_in R (v # vs) x))" using Cons.prems(4) [of w] by simp
    then show ?thesis unfolding succ by simp
  qed
  have "relax_succ rank ?succ indeg (filter ?P (map pv_Number vs)) =
      (?indeg, filter (\<lambda>y. ?P y \<or> y \<in> set ?succ \<and> indeg y = 1) (map pv_Number vs))"
  proof (rule relax_succ_law [OF sorted])
    show "distinct ?succ" using dist by (rule distinct_map_filter)
    show "set ?succ \<subseteq> set (map pv_Number vs)" by auto
    show "\<forall>x \<in> set ?succ. \<not> ?P x"
    proof
      fix x assume "x \<in> set ?succ"
      then show "\<not> ?P x" unfolding succ by simp
    qed
  qed
  also have "filter (\<lambda>y. ?P y \<or> y \<in> set ?succ \<and> indeg y = 1) (map pv_Number vs) =
      filter (\<lambda>x. older_in R vs x = []) (map pv_Number vs)"
  proof (rule filter_cong [OF refl])
    fix y assume "y \<in> set (map pv_Number vs)"
    then have "indeg y = int (length (older_in R vs y)) + (if y \<in> set ?succ then 1 else 0)" using degree by simp
    moreover have "?P y \<longleftrightarrow> y \<notin> set ?succ \<and> older_in R vs y = []" unfolding succ by simp
    ultimately show "(?P y \<or> y \<in> set ?succ \<and> indeg y = 1) = (older_in R vs y = [])" by auto
  qed
  finally have relax: "relax_succ rank ?succ indeg (filter ?P (map pv_Number vs)) =
      (?indeg, filter (\<lambda>x. older_in R vs x = []) (map pv_Number vs))" .
  have "topo_loop rank nodes indeg (filter ?P (map pv_Number (v # vs))) order =
      topo_loop rank nodes ?indeg (filter (\<lambda>x. older_in R vs x = []) (map pv_Number vs)) (order @ [pv_Number v])"
    unfolding head by (subst topo_loop.simps) (simp only: list.case nd option.case relax prod.case)
  also have "\<dots> = Some ((order @ [pv_Number v]) @ map pv_Number vs)"
  proof (rule Cons.IH [OF dist sorted])
    show "\<exists>nd. nodes (pv_Number w) = Some nd \<and> pn_Succ nd = map pv_Number (filter (R w) ws)" if "vs = us @ w # ws" for us w ws
      using Cons.prems(3) [of "v # us" w ws] that by simp
    show "?indeg (pv_Number w) = int (length (older_in R vs (pv_Number w)))" if "w \<in> set vs" for w
      using degree [of "pv_Number w"] that by simp
  qed
  finally show ?case by simp
qed

lemma topoOrderStable_law:
  assumes "distinct (map pv_Number vs)" "dom nodes = pv_Number ` set vs"
    and "\<And>v. v \<in> set vs \<Longrightarrow> \<exists>nd. nodes (pv_Number v) = Some nd \<and>
      pn_Pred nd = older_in R vs (pv_Number v) \<and> pn_Succ nd = newer_in R vs (pv_Number v)"
  shows "topoOrderStable vs nodes = Some (Inr (map pv_Number vs))"
proof -
  let ?nums = "map pv_Number vs" and ?rank = "rank_of (map pv_Number vs)"
  let ?indeg = "\<lambda>x. case nodes x of None \<Rightarrow> 0 | Some nd \<Rightarrow> int (length (pn_Pred nd))"
  note sorted = rank_of_sorted [OF assms(1)]
  have indeg: "?indeg (pv_Number v) = int (length (older_in R vs (pv_Number v)))" if "v \<in> set vs" for v
    using assms(3) [OF that] by auto
  have "fold (\<lambda>x pq. if ?indeg x = 0 then push ?rank x pq else pq) ?nums (filter (\<lambda>_. False) ?nums) =
      filter (\<lambda>y. False \<or> y \<in> set ?nums \<and> ?indeg y = 0) ?nums"
    by (rule seed_law [OF sorted assms(1)]) simp_all
  also have "\<dots> = filter (\<lambda>x. older_in R vs x = []) ?nums"
  proof (rule filter_cong [OF refl])
    fix y assume y: "y \<in> set ?nums"
    then obtain v where "v \<in> set vs" "y = pv_Number v" by auto
    then have "?indeg y = int (length (older_in R vs y))" using indeg by blast
    then show "(False \<or> y \<in> set ?nums \<and> ?indeg y = 0) = (older_in R vs y = [])" using y by simp
  qed
  finally have seed: "fold (\<lambda>x pq. if ?indeg x = 0 then push ?rank x pq else pq) ?nums [] =
      filter (\<lambda>x. older_in R vs x = []) ?nums" by simp
  have "topo_loop ?rank nodes ?indeg (filter (\<lambda>x. older_in R vs x = []) ?nums) [] = Some ([] @ ?nums)"
  proof (rule topo_loop_law [OF assms(1) sorted _ indeg])
    fix us v ws assume vs: "vs = us @ v # ws"
    then have "v \<in> set vs" by simp
    then show "\<exists>nd. nodes (pv_Number v) = Some nd \<and> pn_Succ nd = map pv_Number (filter (R v) ws)"
      using assms(3) newer_in_split [of us v ws R] assms(1) unfolding vs by metis
  qed
  moreover have "card (dom nodes) = length vs"
    unfolding assms(2) using distinct_card [OF assms(1)] by simp
  ultimately show ?thesis unfolding topoOrderStable_def Let_def seed by simp
qed

section \<open>The graph of the pull requests\<close>

definition pr_env_ok :: "pr_env \<Rightarrow> bool" where
  "pr_env_ok E \<longleftrightarrow> (\<forall>m. finite (dom m) \<longrightarrow> iteration_of m (pe_range E m)) \<and>
     (\<forall>a b. pe_equalFold E a b \<longrightarrow> pe_equalFold E b a)"

definition shares_mcm :: "pr_env \<Rightarrow> pr_view \<Rightarrow> pr_view \<Rightarrow> bool" where
  "shares_mcm E a b \<longleftrightarrow> (\<exists>sel x y. pv_ProposalData a sel = Some x \<and> pv_ProposalData b sel = Some y \<and>
     sameMCM (pe_equalFold E) (md_MCMAddress x) (md_MCMAddress y))"

lemma sameMCM_sym: "pr_env_ok E \<Longrightarrow> sameMCM (pe_equalFold E) a b \<longleftrightarrow> sameMCM (pe_equalFold E) b a"
  by (auto simp: pr_env_ok_def sameMCM_def)

lemma range_ex:
  assumes "pr_env_ok E" "finite (dom x)"
  shows "list_ex (\<lambda>selector. case (x selector, y selector) of
        (Some a, Some b) \<Rightarrow> sameMCM (pe_equalFold E) (md_MCMAddress a) (md_MCMAddress b) | _ \<Rightarrow> False) (pe_range E x) \<longleftrightarrow>
     (\<exists>sel a b. x sel = Some a \<and> y sel = Some b \<and> sameMCM (pe_equalFold E) (md_MCMAddress a) (md_MCMAddress b))"
proof -
  have "set (pe_range E x) = dom x" using assms by (simp add: pr_env_ok_def iteration_of_def)
  moreover have "(case (x s, y s) of (Some a, Some b) \<Rightarrow> sameMCM (pe_equalFold E) (md_MCMAddress a) (md_MCMAddress b) | _ \<Rightarrow> False) \<longleftrightarrow>
      (\<exists>a b. x s = Some a \<and> y s = Some b \<and> sameMCM (pe_equalFold E) (md_MCMAddress a) (md_MCMAddress b))" for s
    by (cases "x s"; cases "y s") simp_all
  ultimately show ?thesis unfolding list_ex_iff by blast
qed

lemma related_iff:
  assumes "pr_env_ok E" "finite (dom (pv_ProposalData a))" "finite (dom (pv_ProposalData b))"
  shows "related E a b \<longleftrightarrow> shares_mcm E a b"
proof (cases "card (dom (pv_ProposalData a)) > card (dom (pv_ProposalData b))")
  case True
  then show ?thesis
    using range_ex [OF assms(1,3), of "pv_ProposalData a"] sameMCM_sym [OF assms(1)]
    by (simp add: related_def relatedByMCMOnAnyChain_def shares_mcm_def) blast
next
  case False
  then show ?thesis
    using range_ex [OF assms(1,2), of "pv_ProposalData b"]
    by (simp add: related_def relatedByMCMOnAnyChain_def shares_mcm_def)
qed

lemma older_total: "pv_Number a \<noteq> pv_Number b \<Longrightarrow> \<not> older b a \<longleftrightarrow> older a b"
  by (auto simp: older_def)

lemma older_irrefl [simp]: "\<not> older a a"
  by (simp add: older_def)

lemma older_asym: "older a b \<Longrightarrow> \<not> older b a"
  by (auto simp: older_def split: if_splits)

lemma sorted_older:
  assumes "distinct (map pv_Number views)"
  shows "sorted_wrt older (stable_sort older views)"
proof -
  have mset: "mset (map pv_Number (stable_sort older views)) = mset (map pv_Number views)" by simp
  have "distinct (map pv_Number (stable_sort older views))"
    using assms mset_eq_imp_distinct_iff [OF mset] by simp
  moreover have "sorted_wrt (\<lambda>a b. \<not> older b a) (stable_sort older views)"
    by (rule sorted_stable_sort) (auto simp: older_def split: if_splits)
  ultimately show ?thesis
    unfolding sorted_wrt_iff_nth_less
  proof (intro allI impI)
    fix i j assume dist: "distinct (map pv_Number (stable_sort older views))"
      and sorted: "\<forall>i j. i < j \<longrightarrow> j < length (stable_sort older views) \<longrightarrow>
        \<not> older (stable_sort older views ! j) (stable_sort older views ! i)"
      and ij: "i < j" "j < length (stable_sort older views)"
    have "pv_Number (stable_sort older views ! i) \<noteq> pv_Number (stable_sort older views ! j)"
      using nth_eq_iff_index_eq [OF dist, of i j] ij by simp
    then show "older (stable_sort older views ! i) (stable_sort older views ! j)"
      using sorted ij older_total by blast
  qed
qed

lemma neighbours:
  assumes "distinct (map pv_Number vs)" "sorted_wrt older vs" "a \<in> set vs"
  shows "set (older_in R vs (pv_Number a)) = {pv_Number b | b. b \<in> set vs \<and> older b a \<and> R b a}"
    and "set (newer_in R vs (pv_Number a)) = {pv_Number b | b. b \<in> set vs \<and> older a b \<and> R a b}"
proof -
  show "set (older_in R vs (pv_Number a)) = {pv_Number b | b. b \<in> set vs \<and> older b a \<and> R b a}"
    using assms
  proof (induction vs)
    case (Cons v vs)
    have new: "pv_Number v \<notin> pv_Number ` set vs" and dist: "distinct (map pv_Number vs)"
      and before: "\<forall>w \<in> set vs. older v w" and rest: "sorted_wrt older vs" using Cons.prems by auto
    show ?case
    proof (cases "a = v")
      case True
      have "\<not> (\<exists>w \<in> set vs. pv_Number w = pv_Number a \<and> R v w)" using new True by (metis imageI)
      then have "older_in R (v # vs) (pv_Number a) = []" using new True by (simp add: older_in_absent)
      moreover have "\<not> older b a" if "b \<in> set (v # vs)" for b using that before older_asym True by auto
      ultimately show ?thesis by auto
    next
      case False
      then have a: "a \<in> set vs" using Cons.prems(3) by simp
      have "(\<exists>w \<in> set vs. pv_Number w = pv_Number a \<and> R v w) \<longleftrightarrow> R v a"
        using a dist by (metis distinct_map inj_on_contraD)
      then have "set (older_in R (v # vs) (pv_Number a)) =
          (if R v a then {pv_Number v} else {}) \<union> {pv_Number b | b. b \<in> set vs \<and> older b a \<and> R b a}"
        using Cons.IH [OF dist rest a] by simp
      then show ?thesis using before a by auto
    qed
  qed simp
  show "set (newer_in R vs (pv_Number a)) = {pv_Number b | b. b \<in> set vs \<and> older a b \<and> R a b}"
  proof -
    obtain us ws where vs: "vs = us @ a # ws" using split_list [OF assms(3)] by blast
    have "set (newer_in R vs (pv_Number a)) = pv_Number ` {b \<in> set ws. R a b}"
      using newer_in_split [of us a ws R] assms(1) unfolding vs by simp
    moreover have "b \<in> set ws \<longleftrightarrow> b \<in> set vs \<and> older a b" for b
      using assms(2) older_asym [of a b] unfolding vs sorted_wrt_append by auto
    ultimately show ?thesis by auto
  qed
qed

lemma fresh_nodes:
  assumes "distinct (map pv_Number vs)"
  defines "nodes \<equiv> fold (\<lambda>v nodes. nodes(pv_Number v \<mapsto> \<lparr>pn_PR = v, pn_Pred = [], pn_Succ = []\<rparr>)) vs Map.empty"
  shows "dom nodes = pv_Number ` set vs"
    and "v \<in> set vs \<Longrightarrow> nodes (pv_Number v) = Some \<lparr>pn_PR = v, pn_Pred = [], pn_Succ = []\<rparr>"
  using assms(1) unfolding nodes_def
proof (induction vs rule: rev_induct)
  case (snoc w vs)
  { case 1 then show ?case using snoc.IH(1) by (simp add: dom_fun_upd del: fun_upd_apply) }
  { case 2 then show ?case using snoc.IH(2) by (auto simp: image_iff) }
qed simp_all

text \<open>
  C13: the dependency graph of pull requests with distinct numbers. Building it always succeeds, so
  the error of a cycle cannot occur; the topological order is the time order, older first; and the
  neighbours of a pull request are exactly the older and the newer ones that share a contract with
  it on some chain.
\<close>

theorem BuildPRDependencyGraph_time_order:
  assumes "pr_env_ok E" "distinct (map pv_Number views)" "\<forall>v \<in> set views. finite (dom (pv_ProposalData v))"
  shows "\<exists>g. BuildPRDependencyGraph E views = Some (Inr g) \<and>
    pg_Topo g = map pv_Number (stable_sort older views) \<and> sorted_wrt older (stable_sort older views) \<and>
    (\<forall>a \<in> set views. \<exists>nd. pg_Nodes g (pv_Number a) = Some nd \<and> pn_PR nd = a \<and>
       set (pn_Pred nd) = {pv_Number b | b. b \<in> set views \<and> older b a \<and> shares_mcm E b a} \<and>
       set (pn_Succ nd) = {pv_Number b | b. b \<in> set views \<and> older a b \<and> shares_mcm E a b})"
proof (cases "views = []")
  case True
  then show ?thesis by (simp add: BuildPRDependencyGraph_def)
next
  case False
  let ?vs = "stable_sort older views"
  define nodes where "nodes = add_edges E ?vs
    (fold (\<lambda>v nodes. nodes(pv_Number v \<mapsto> \<lparr>pn_PR = v, pn_Pred = [], pn_Succ = []\<rparr>)) ?vs Map.empty)"
  have mset: "mset (map pv_Number ?vs) = mset (map pv_Number views)" by simp
  have dist: "distinct (map pv_Number ?vs)" using assms(2) mset_eq_imp_distinct_iff [OF mset] by simp
  have sorted: "sorted_wrt older ?vs" by (rule sorted_older [OF assms(2)])
  note fresh = fresh_nodes [OF dist]
  have node: "nodes (pv_Number v) = Some \<lparr>pn_PR = v, pn_Pred = older_in (related E) ?vs (pv_Number v),
      pn_Succ = newer_in (related E) ?vs (pv_Number v)\<rparr>" if "v \<in> set ?vs" for v
    unfolding nodes_def add_edges_law [OF dist] using fresh(2) [OF that] by (simp add: with_edges_def)
  have "nodes x = None \<longleftrightarrow> x \<notin> pv_Number ` set ?vs" for x
    unfolding nodes_def add_edges_law [OF dist] fresh(1) [symmetric] by auto
  then have dom: "dom nodes = pv_Number ` set ?vs" by (simp add: dom_def)
  have "topoOrderStable ?vs nodes = Some (Inr (map pv_Number ?vs))"
    by (rule topoOrderStable_law [OF dist dom, of "related E"]) (simp add: node)
  then have build: "BuildPRDependencyGraph E views = Some (Inr \<lparr>pg_Nodes = nodes, pg_Topo = map pv_Number ?vs\<rparr>)"
    using False by (simp add: BuildPRDependencyGraph_def nodes_def Let_def)
  have rel: "related E b a \<longleftrightarrow> shares_mcm E b a" if "a \<in> set views" "b \<in> set views" for a b
    using related_iff [OF assms(1)] assms(3) that by blast
  have "\<exists>nd. nodes (pv_Number a) = Some nd \<and> pn_PR nd = a \<and>
       set (pn_Pred nd) = {pv_Number b | b. b \<in> set views \<and> older b a \<and> shares_mcm E b a} \<and>
       set (pn_Succ nd) = {pv_Number b | b. b \<in> set views \<and> older a b \<and> shares_mcm E a b}" if a: "a \<in> set views" for a
  proof -
    have a': "a \<in> set ?vs" using a by simp
    show ?thesis
      unfolding node [OF a'] using neighbours [OF dist sorted a', of "related E"] rel [OF a] rel [OF _ a] by auto
  qed
  then show ?thesis using build sorted by simp
qed

text \<open>Two pull requests for the same contract, the second one older, and a third for another one.\<close>

definition example_pr_env :: pr_env where
  "example_pr_env = \<lparr>pe_equalFold = (=), pe_range = (\<lambda>m. if finite (dom m) then sorted_list_of_set (dom m) else [])\<rparr>"

definition example_views :: "pr_view list" where
  "example_views =
     [\<lparr>pv_Number = 7, pv_CreatedAt = 20, pv_ProposalData = [1 \<mapsto> \<lparr>md_MCMAddress = ''a'', md_StartingOpCount = 5, md_OpsCount = 2\<rparr>]\<rparr>,
      \<lparr>pv_Number = 9, pv_CreatedAt = 10, pv_ProposalData = [1 \<mapsto> \<lparr>md_MCMAddress = '' a'', md_StartingOpCount = 3, md_OpsCount = 2\<rparr>]\<rparr>,
      \<lparr>pv_Number = 8, pv_CreatedAt = 10, pv_ProposalData = [1 \<mapsto> \<lparr>md_MCMAddress = ''b'', md_StartingOpCount = 0, md_OpsCount = 1\<rparr>]\<rparr>]"

lemma example_pr_env_ok: "pr_env_ok example_pr_env"
  by (simp add: pr_env_ok_def example_pr_env_def iteration_of_def)

theorem BuildPRDependencyGraph_time_order_witness:
  "\<exists>g. BuildPRDependencyGraph example_pr_env example_views = Some (Inr g) \<and> pg_Topo g = [8, 9, 7]"
proof -
  have "distinct (map pv_Number example_views)" "\<forall>v \<in> set example_views. finite (dom (pv_ProposalData v))"
    by (simp_all add: example_views_def)
  then obtain g where g: "BuildPRDependencyGraph example_pr_env example_views = Some (Inr g)"
    "pg_Topo g = map pv_Number (stable_sort older example_views)"
    using BuildPRDependencyGraph_time_order [OF example_pr_env_ok] by blast
  have "map pv_Number (stable_sort older example_views) = [8, 9, 7]" by (simp add: example_views_def older_def)
  then show ?thesis using g by metis
qed

section \<open>The new starting operation counts\<close>

text \<open>
  The predecessors that count on a chain: those with data for the same contract there, addresses compared without
  the white space around them and up to case, that do not start below the proposal. Then the operations of these, as
  a number, and the data of the latest predecessor when it is for the same contract.
\<close>

definition counts_on :: "pr_env \<Rightarrow> u64 \<Rightarrow> mcm_op_data \<Rightarrow> pr_view \<Rightarrow> bool" where
  "counts_on E sel cur p \<longleftrightarrow>
     (\<exists>d. pv_ProposalData p sel = Some d \<and>
        pe_equalFold E (trim_space (md_MCMAddress cur)) (trim_space (md_MCMAddress d)) \<and>
        unat (md_StartingOpCount cur) \<le> unat (md_StartingOpCount d))"

definition counted_ops :: "pr_env \<Rightarrow> u64 \<Rightarrow> mcm_op_data \<Rightarrow> pr_view list \<Rightarrow> nat" where
  "counted_ops E sel cur preds =
     (\<Sum>p\<leftarrow>filter (counts_on E sel cur) preds. unat (md_OpsCount (the (pv_ProposalData p sel))))"

definition latest_data :: "pr_env \<Rightarrow> u64 \<Rightarrow> mcm_op_data \<Rightarrow> pr_view list \<Rightarrow> mcm_op_data option" where
  "latest_data E sel cur preds =
     (if preds = [] then None
      else case pv_ProposalData (last preds) sel of
        None \<Rightarrow> None
      | Some d \<Rightarrow>
          if pe_equalFold E (trim_space (md_MCMAddress cur)) (trim_space (md_MCMAddress d)) then Some d else None)"

lemma predecessor_counts_spec:
  "unat (predecessor_counts E sel cur p) =
     (if counts_on E sel cur p then unat (md_OpsCount (the (pv_ProposalData p sel))) else 0)"
  by (cases "pv_ProposalData p sel") (auto simp: predecessor_counts_def counts_on_def sameMCM_def word_less_nat_alt)

lemma counted_ops_Cons [simp]:
  "counted_ops E sel cur [] = 0"
  "counted_ops E sel cur (p # preds) = unat (predecessor_counts E sel cur p) + counted_ops E sel cur preds"
  by (simp_all add: counted_ops_def predecessor_counts_spec)

lemma fold_counts:
  "unat extra + counted_ops E sel cur preds < 2 ^ 64 \<Longrightarrow>
   unat (fold (\<lambda>pred extra. extra + predecessor_counts E sel cur pred) preds extra) = unat extra + counted_ops E sel cur preds"
proof (induction preds arbitrary: extra)
  case (Cons p preds)
  let ?c = "predecessor_counts E sel cur p"
  have sum: "unat extra + unat ?c + counted_ops E sel cur preds < 2 ^ 64" using Cons.prems by simp
  then have "unat (extra + ?c) = unat extra + unat ?c" by (simp add: unat_add_lem [THEN iffD1])
  then show ?case using Cons.IH [of "extra + ?c"] sum by simp
qed simp

text \<open>
  C36: the bounds of a new starting count. As long as the sums fit in 64 bits, the count is the
  starting count of the proposal plus the operations of the predecessors that count: of the same contract, and not
  stale, that is not starting below the proposal. When the latest predecessor is of the same contract, stale or not,
  and its ending count is larger, it is that one.
\<close>

theorem ComputeHighestOpCounts_bounds:
  assumes "newData sel = Some cur" "unat (md_StartingOpCount cur) + counted_ops E sel cur preds < 2 ^ 64"
    and "\<forall>d. latest_data E sel cur preds = Some d \<longrightarrow> unat (md_StartingOpCount d) + unat (md_OpsCount d) < 2 ^ 64"
  shows "\<exists>c. ComputeHighestOpCountsFromPredecessors E newData preds sel = Some c \<and>
    unat c = (case latest_data E sel cur preds of
        None \<Rightarrow> unat (md_StartingOpCount cur) + counted_ops E sel cur preds
      | Some d \<Rightarrow> max (unat (md_StartingOpCount cur) + counted_ops E sel cur preds)
          (unat (md_StartingOpCount d) + unat (md_OpsCount d)))"
proof -
  let ?fold = "fold (\<lambda>pred extra. extra + predecessor_counts E sel cur pred) preds 0"
  have "unat ?fold = counted_ops E sel cur preds" using fold_counts [of 0 E sel cur preds] assms(2) by simp
  then have sum: "unat (sum_of_predecessors E sel cur preds) = unat (md_StartingOpCount cur) + counted_ops E sel cur preds"
    unfolding sum_of_predecessors_def using assms(2) by (simp add: unat_add_lem [THEN iffD1])
  have "unat (adjust_to_latest E sel cur preds (sum_of_predecessors E sel cur preds)) =
      (case latest_data E sel cur preds of
        None \<Rightarrow> unat (md_StartingOpCount cur) + counted_ops E sel cur preds
      | Some d \<Rightarrow> max (unat (md_StartingOpCount cur) + counted_ops E sel cur preds)
          (unat (md_StartingOpCount d) + unat (md_OpsCount d)))"
  proof (cases "latest_data E sel cur preds")
    case None
    then have "adjust_to_latest E sel cur preds out = out" for out
      by (auto simp: latest_data_def adjust_to_latest_def sameMCM_def split: option.splits if_splits)
    then show ?thesis using None sum by simp
  next
    case (Some d)
    then have "adjust_to_latest E sel cur preds out =
        (if md_StartingOpCount d + md_OpsCount d > out then md_StartingOpCount d + md_OpsCount d else out)" for out
      by (auto simp: latest_data_def adjust_to_latest_def sameMCM_def Let_def split: option.splits if_splits)
    moreover have "unat (md_StartingOpCount d + md_OpsCount d) = unat (md_StartingOpCount d) + unat (md_OpsCount d)"
      using assms(3) Some by (simp add: unat_add_lem [THEN iffD1])
    ultimately show ?thesis using Some sum by (simp add: word_less_nat_alt)
  qed
  then show ?thesis using assms(1) by (simp add: ComputeHighestOpCountsFromPredecessors_def)
qed

text \<open>The first of these predecessors counts, the second is stale, the third is of another contract.\<close>

definition example_preds :: "pr_view list" where
  "example_preds = map (\<lambda>(n, data).
     \<lparr>pv_Number = n, pv_CreatedAt = n, pv_ProposalData = [1 \<mapsto> data]\<rparr>)
     [(1, \<lparr>md_MCMAddress = '' a'', md_StartingOpCount = 3, md_OpsCount = 4\<rparr>),
      (2, \<lparr>md_MCMAddress = ''a'', md_StartingOpCount = 2, md_OpsCount = 9\<rparr>),
      (3, \<lparr>md_MCMAddress = ''b'', md_StartingOpCount = 7, md_OpsCount = 1\<rparr>)]"

theorem ComputeHighestOpCounts_bounds_witness:
  "\<exists>c. ComputeHighestOpCountsFromPredecessors example_pr_env [1 \<mapsto> \<lparr>md_MCMAddress = ''a'', md_StartingOpCount = 3, md_OpsCount = 1\<rparr>]
       example_preds 1 = Some c \<and> unat c = 7"
proof -
  let ?cur = "\<lparr>md_MCMAddress = ''a'', md_StartingOpCount = 3, md_OpsCount = 1\<rparr>"
  have same: "pe_equalFold example_pr_env (trim_space ''a'') (trim_space '' a'')"
    "\<not> pe_equalFold example_pr_env (trim_space ''a'') (trim_space ''b'')"
    by (simp_all add: example_pr_env_def trim_space_def is_space_def)
  then have counts: "filter (counts_on example_pr_env 1 ?cur) example_preds = [hd example_preds]"
    by (simp add: counts_on_def example_preds_def)
  have counted: "counted_ops example_pr_env 1 ?cur example_preds = 4" "latest_data example_pr_env 1 ?cur example_preds = None"
    unfolding counted_ops_def counts using same by (simp_all add: latest_data_def example_preds_def)
  from ComputeHighestOpCounts_bounds [of "[1 \<mapsto> ?cur]" 1 ?cur example_pr_env example_preds] counted
  show ?thesis by simp
qed

text \<open>
  Predecessors that follow each other, each starting where the one before ends: the count is where
  the latest ends.
\<close>

fun consecutive :: "pr_env \<Rightarrow> u64 \<Rightarrow> mcm_op_data \<Rightarrow> u64 \<Rightarrow> pr_view list \<Rightarrow> bool" where
  "consecutive E sel cur start [] = True"
| "consecutive E sel cur start (p # ps) =
     (case pv_ProposalData p sel of
        None \<Rightarrow> False
      | Some d \<Rightarrow> sameMCM (pe_equalFold E) (md_MCMAddress cur) (md_MCMAddress d) \<and> md_StartingOpCount d = start \<and>
          start \<le> EndingOpCount d \<and> consecutive E sel cur (EndingOpCount d) ps)"

lemma consecutive_counts:
  "consecutive E sel cur start (p # ps) \<Longrightarrow> md_StartingOpCount cur \<le> start \<Longrightarrow>
   (\<exists>d. pv_ProposalData (last (p # ps)) sel = Some d \<and> sameMCM (pe_equalFold E) (md_MCMAddress cur) (md_MCMAddress d) \<and>
     start + fold (\<lambda>pred extra. extra + predecessor_counts E sel cur pred) (p # ps) 0 = EndingOpCount d)"
proof (induction ps arbitrary: p start)
  case Nil
  then show ?case by (auto simp: predecessor_counts_def EndingOpCount_def not_less split: option.splits)
next
  case (Cons q qs)
  obtain d where d: "pv_ProposalData p sel = Some d" "sameMCM (pe_equalFold E) (md_MCMAddress cur) (md_MCMAddress d)"
    "md_StartingOpCount d = start" "start \<le> EndingOpCount d" "consecutive E sel cur (EndingOpCount d) (q # qs)"
    using Cons.prems(1) by (auto split: option.splits)
  have count: "predecessor_counts E sel cur p = md_OpsCount d"
    using d(1-3) Cons.prems(2) by (simp add: predecessor_counts_def not_less [symmetric])
  have shift: "fold (\<lambda>pred extra. extra + predecessor_counts E sel cur pred) ps (a + b) =
      a + fold (\<lambda>pred extra. extra + predecessor_counts E sel cur pred) ps b" for ps a b
    by (induction ps arbitrary: b) (simp_all add: add.assoc)
  have "start + fold (\<lambda>pred extra. extra + predecessor_counts E sel cur pred) (p # q # qs) 0 =
      EndingOpCount d + fold (\<lambda>pred extra. extra + predecessor_counts E sel cur pred) (q # qs) 0"
    using shift [of "q # qs" "md_OpsCount d" 0] count d(3) by (simp add: EndingOpCount_def add.assoc)
  then show ?case using Cons.IH [OF d(5)] Cons.prems(2) d(4) by auto
qed

lemma Compute_consecutive:
  assumes "newData sel = Some cur" "consecutive E sel cur (md_StartingOpCount cur) preds" "preds \<noteq> []"
  shows "\<exists>d. pv_ProposalData (last preds) sel = Some d \<and>
    ComputeHighestOpCountsFromPredecessors E newData preds sel = Some (EndingOpCount d)"
proof -
  obtain p ps where preds: "preds = p # ps" using assms(3) by (cases preds) auto
  obtain d where d: "pv_ProposalData (last preds) sel = Some d" "sameMCM (pe_equalFold E) (md_MCMAddress cur) (md_MCMAddress d)"
    "sum_of_predecessors E sel cur preds = EndingOpCount d"
    using consecutive_counts [OF assms(2) [unfolded preds] order_refl] unfolding preds sum_of_predecessors_def by blast
  then have "adjust_to_latest E sel cur preds (EndingOpCount d) = EndingOpCount d"
    using assms(3) by (simp add: adjust_to_latest_def EndingOpCount_def Let_def)
  then show ?thesis using assms(1) d by (simp add: ComputeHighestOpCountsFromPredecessors_def)
qed

section \<open>Updating a proposal\<close>

text \<open>The entry of a chain after an update.\<close>

definition raised :: "u64 option \<Rightarrow> chain_meta option \<Rightarrow> chain_meta option" where
  "raised n m =
     (case (m, n) of
        (Some meta, Some start) \<Rightarrow> Some (meta\<lparr>cm_StartingOpCount := max (cm_StartingOpCount meta) start\<rparr>)
      | _ \<Rightarrow> m)"

definition raises :: "u64 option \<Rightarrow> chain_meta option \<Rightarrow> bool" where
  "raises n m \<longleftrightarrow> (case (m, n) of (Some meta, Some start) \<Rightarrow> cm_StartingOpCount meta < start | _ \<Rightarrow> False)"

lemma raised_same: "raised n m = m \<longleftrightarrow> \<not> raises n m"
proof -
  have "meta\<lparr>cm_StartingOpCount := x\<rparr> = meta \<longleftrightarrow> cm_StartingOpCount meta = x" for meta x
    by (cases meta) auto
  then show ?thesis by (cases m; cases n) (auto simp: raised_def raises_def max_def)
qed

lemma bump_counts_step:
  "bump_counts (s # sels) new metas changed =
     bump_counts sels new (metas(s := raised (new s) (metas s))) (changed \<or> raises (new s) (metas s))"
  by (cases "metas s"; cases "new s") (auto simp: raised_def raises_def max_def fun_upd_idem)

lemma bump_counts_law:
  "distinct sels \<Longrightarrow> bump_counts sels new metas changed =
     ((\<lambda>sel. if sel \<in> set sels then raised (new sel) (metas sel) else metas sel),
      changed \<or> (\<exists>sel \<in> set sels. raises (new sel) (metas sel)))"
proof (induction sels arbitrary: metas changed)
  case (Cons s sels)
  have "s \<notin> set sels" using Cons.prems by simp
  then have "(\<exists>sel \<in> set sels. raises (new sel) ((metas(s := raised (new s) (metas s))) sel)) \<longleftrightarrow>
      (\<exists>sel \<in> set sels. raises (new sel) (metas sel))" by auto
  then show ?case
    unfolding bump_counts_step using Cons by (auto simp: fun_eq_iff)
qed simp

text \<open>Applying new counts writes the maximum of the old and the new count, or nothing at all.\<close>

lemma ApplyHighestOpCounts_law:
  fixes metas :: "u64 \<rightharpoonup> chain_meta"
  assumes "iteration_of new sels"
  defines "metas' \<equiv> \<lambda>sel. raised (new sel) (metas sel)"
  shows "ApplyHighestOpCountsToProposal (Inr (Some (metas, rest))) (None, None) sels new =
    (None, if metas' = metas then None else Some (metas', rest))"
proof -
  have sels: "distinct sels" "set sels = dom new" using assms(1) by (simp_all add: iteration_of_def)
  have none: "raised (new sel) m = m" "\<not> raises (new sel) m" if "sel \<notin> dom new" for sel m
    using that by (cases m; auto simp: raised_def raises_def domIff)+
  have "(\<lambda>sel. if sel \<in> set sels then raised (new sel) (metas sel) else metas sel) = metas'"
    unfolding metas'_def sels(2) using none(1) by (auto simp: fun_eq_iff)
  moreover have "(\<exists>sel \<in> set sels. raises (new sel) (metas sel)) \<longleftrightarrow> metas' \<noteq> metas"
    unfolding metas'_def sels(2) fun_eq_iff raised_same using none(2) by blast
  ultimately have "bump_counts sels new metas False = (metas', metas' \<noteq> metas)"
    unfolding bump_counts_law [OF sels(1)] by simp
  then show ?thesis by (simp add: ApplyHighestOpCountsToProposal_def)
qed

end
