(* ===== verification/Timelock_Delay.thy ===== *)
theory Timelock_Delay
  imports Go_Prelude
begin

text \<open>
  The correction of the delay of timelock proposals
  (\<open>engine/cld/mcms/timelockdelay/correct.go\<close>, \<open>read.go\<close>): the minimum delays of the timelocks of a
  proposal are read from their chains, and a delay that is unset or too low is raised to the largest.

  A duration is a signed 64-bit count of nanoseconds, a word read by \<open>sint\<close>. What reads a chain is a
  parameter, and so is what the context reports when it is asked: by each reader and after all of
  them. The readers run in parallel, but each writes only its own slot of the results.
\<close>

section \<open>Durations\<close>

type_synonym duration = "64 word"

definition maxInt64 :: nat where
  "maxInt64 = 2 ^ 63 - 1"

definition second :: nat where
  "second = 1000000000"

datatype 'e lookup_error = ReadError 'e | ExceedsDuration u64 | ContextDone 'e

definition durationFromSeconds :: "u64 \<Rightarrow> 'e lookup_error + duration" where
  "durationFromSeconds seconds =
     (let maxSeconds = (word_of_nat (maxInt64 div second) :: u64) in
      if seconds > maxSeconds then Inl (ExceedsDuration seconds)
      else Inr (seconds * word_of_nat second))"

section \<open>Reading the minimum delays\<close>

datatype timelock_action = ActionSchedule | ActionOther string

record 'm tl_proposal =
  tl_Action :: timelock_action
  tl_Delay :: duration
  tl_TimelockAddresses :: "u64 \<rightharpoonup> string"
  tl_ChainMetadata :: "u64 \<rightharpoonup> 'm"

type_synonym ('m, 'e) min_delay_lookup = "'m tl_proposal \<Rightarrow> u64 \<Rightarrow> string \<Rightarrow> 'e lookup_error + duration"

definition chainMetadataForInspector :: "'m \<Rightarrow> 'm tl_proposal \<Rightarrow> u64 \<Rightarrow> 'm" where
  "chainMetadataForInspector zero proposal chainSelector =
     (case tl_ChainMetadata proposal chainSelector of None \<Rightarrow> zero | Some metadata \<Rightarrow> metadata)"

text \<open>\<open>inspector\<close> builds the reader of a chain; the reader returns seconds.\<close>

definition readTimelockMinDelay ::
  "(u64 \<Rightarrow> 'm \<Rightarrow> 'e + (string \<Rightarrow> 'e + u64)) \<Rightarrow> 'm \<Rightarrow> ('m, 'e) min_delay_lookup" where
  "readTimelockMinDelay inspector zero proposal chainSelector timelockAddress =
     (case inspector chainSelector (chainMetadataForInspector zero proposal chainSelector) of
        Inl e \<Rightarrow> Inl (ReadError e)
      | Inr getMinDelay \<Rightarrow>
          (case getMinDelay timelockAddress of
             Inl e \<Rightarrow> Inl (ReadError e)
           | Inr minDelaySec \<Rightarrow> durationFromSeconds minDelaySec))"

text \<open>The entries by ascending selector; \<open>ord\<close> is the order in which the addresses are ranged over.\<close>

definition sortedTimelockEntries :: "((u64 \<rightharpoonup> string) \<Rightarrow> u64 list) \<Rightarrow> 'm tl_proposal \<Rightarrow> (u64 \<times> string) list" where
  "sortedTimelockEntries ord proposal =
     map (\<lambda>selector. (selector, case tl_TimelockAddresses proposal selector of None \<Rightarrow> [] | Some a \<Rightarrow> a))
       (sort (ord (tl_TimelockAddresses proposal)))"

record 'e tl_context =
  ctx_reader :: "nat \<Rightarrow> 'e option"
  ctx_after :: "'e option"

definition read_entry ::
  "'e tl_context \<Rightarrow> ('m, 'e) min_delay_lookup \<Rightarrow> 'm tl_proposal \<Rightarrow> nat \<times> u64 \<times> string \<Rightarrow>
   (u64 \<times> string \<times> 'e lookup_error) + (u64 \<times> duration)" where
  "read_entry ctx lookup proposal = (\<lambda>(i, selector, address).
     case ctx_reader ctx i of
       Some e \<Rightarrow> Inl (selector, address, ContextDone e)
     | None \<Rightarrow>
         (case lookup proposal selector address of
            Inl e \<Rightarrow> Inl (selector, address, e)
          | Inr minDelay \<Rightarrow> Inr (selector, minDelay)))"

fun split_results :: "('a + 'b) list \<Rightarrow> 'b list \<times> 'a list" where
  "split_results [] = ([], [])"
| "split_results (r # rs) =
     (case split_results rs of
        (delays, errors) \<Rightarrow> (case r of Inl e \<Rightarrow> (delays, e # errors) | Inr d \<Rightarrow> (d # delays, errors)))"

definition readChainMinDelaysWithLookup ::
  "((u64 \<rightharpoonup> string) \<Rightarrow> u64 list) \<Rightarrow> 'e tl_context \<Rightarrow> ('m, 'e) min_delay_lookup \<Rightarrow> 'm tl_proposal \<Rightarrow>
   (u64 \<times> duration) list \<times> (u64 \<times> string \<times> 'e lookup_error) list" where
  "readChainMinDelaysWithLookup ord ctx lookup proposal =
     split_results (map (read_entry ctx lookup proposal) (enumerate 0 (sortedTimelockEntries ord proposal)))"

definition ReadChainMinDelays ::
  "((u64 \<rightharpoonup> string) \<Rightarrow> u64 list) \<Rightarrow> 'e tl_context \<Rightarrow> (u64 \<Rightarrow> 'm \<Rightarrow> 'e + (string \<Rightarrow> 'e + u64)) \<Rightarrow> 'm \<Rightarrow> 'm tl_proposal \<Rightarrow>
   (u64 \<times> duration) list \<times> (u64 \<times> string \<times> 'e lookup_error) list" where
  "ReadChainMinDelays ord ctx inspector zero proposal =
     readChainMinDelaysWithLookup ord ctx (readTimelockMinDelay inspector zero) proposal"

fun MaxMinDelay_from :: "duration \<Rightarrow> (u64 \<times> duration) list \<Rightarrow> duration" where
  "MaxMinDelay_from maxMinDelay [] = maxMinDelay"
| "MaxMinDelay_from maxMinDelay ((_, minDelay) # rest) =
     MaxMinDelay_from (if sint minDelay > sint maxMinDelay then minDelay else maxMinDelay) rest"

definition MaxMinDelay :: "(u64 \<times> duration) list \<Rightarrow> duration" where
  "MaxMinDelay chainDelays = MaxMinDelay_from 0 chainDelays"

section \<open>Correcting the delays\<close>

datatype 'e delay_error =
    DelayContext 'e
  | UnsetNoAddresses
  | UnsetUnverified "(u64 \<times> string \<times> 'e lookup_error) list"
  | UnsetZeroMinDelay

definition correctProposalDelay ::
  "((u64 \<rightharpoonup> string) \<Rightarrow> u64 list) \<Rightarrow> 'e tl_context \<Rightarrow> ('m, 'e) min_delay_lookup \<Rightarrow> 'm tl_proposal \<Rightarrow>
   ('e delay_error, 'm tl_proposal) eff" where
  "correctProposalDelay ord ctx lookup proposal =
     (if tl_Action proposal \<noteq> ActionSchedule then ret proposal
      else
        let unsetDelay = sint (tl_Delay proposal) \<le> 0 in
        if dom (tl_TimelockAddresses proposal) = {} then
          (if unsetDelay then fail UnsetNoAddresses proposal else ret proposal)
        else
          (case readChainMinDelaysWithLookup ord ctx lookup proposal of
             (chainDelays, verifyErrors) \<Rightarrow>
               (case ctx_after ctx of
                  Some e \<Rightarrow> fail (DelayContext e) proposal
                | None \<Rightarrow>
                    if length verifyErrors > 0 then
                      (if unsetDelay then fail (UnsetUnverified verifyErrors) proposal else ret proposal)
                    else
                      let maxMinDelay = MaxMinDelay chainDelays in
                      if sint maxMinDelay \<le> 0 then
                        (if unsetDelay then fail UnsetZeroMinDelay proposal else ret proposal)
                      else
                        let originalDelay = tl_Delay proposal in
                        if sint originalDelay > 0 \<and> sint originalDelay \<ge> sint maxMinDelay then ret proposal
                        else ret (proposal\<lparr>tl_Delay := maxMinDelay\<rparr>))))"

text \<open>One context per proposal: it may be done at any point of the loop.\<close>

fun CorrectTimelockDelaysWithLookup ::
  "((u64 \<rightharpoonup> string) \<Rightarrow> u64 list) \<Rightarrow> ('m, 'e) min_delay_lookup \<Rightarrow> ('e tl_context \<times> 'm tl_proposal) list \<Rightarrow>
   ('e delay_error, 'm tl_proposal list) eff" where
  "CorrectTimelockDelaysWithLookup ord lookup [] = ret []"
| "CorrectTimelockDelaysWithLookup ord lookup ((ctx, p) # ps) =
     (case correctProposalDelay ord ctx lookup p of
        (Some e, p) \<Rightarrow> (Some e, p # map snd ps)
      | (None, p) \<Rightarrow>
          (case CorrectTimelockDelaysWithLookup ord lookup ps of (err, ps) \<Rightarrow> (err, p # ps)))"

definition CorrectTimelockDelays ::
  "((u64 \<rightharpoonup> string) \<Rightarrow> u64 list) \<Rightarrow> (u64 \<Rightarrow> 'm \<Rightarrow> 'e + (string \<Rightarrow> 'e + u64)) \<Rightarrow> 'm \<Rightarrow> ('e tl_context \<times> 'm tl_proposal) list \<Rightarrow>
   ('e delay_error, 'm tl_proposal list) eff" where
  "CorrectTimelockDelays ord inspector zero proposals =
     CorrectTimelockDelaysWithLookup ord (readTimelockMinDelay inspector zero) proposals"

section \<open>Seconds fit or are refused\<close>

lemma durationFromSeconds_law:
  "durationFromSeconds s =
     (if unat s * second > maxInt64 then Inl (ExceedsDuration s) else Inr (s * word_of_nat second))"
proof -
  have "s > word_of_nat (maxInt64 div second) \<longleftrightarrow> unat s * second > maxInt64"
    by (simp add: word_less_nat_alt unat_of_nat maxInt64_def second_def) linarith
  then show ?thesis by (simp add: durationFromSeconds_def Let_def)
qed

lemma signed_nat: "n < 2 ^ 63 \<Longrightarrow> signed_take_bit 63 (int n) = int n"
  by (intro signed_take_bit_int_eq_self) auto

lemma durationFromSeconds_exact:
  assumes "durationFromSeconds s = Inr d"
  shows "sint d = int (unat s) * int second" and "0 \<le> sint d"
proof -
  have fits: "unat s * second \<le> maxInt64" and d: "d = s * word_of_nat second"
    using assms by (auto simp: durationFromSeconds_law split: if_splits)
  have "unat d = unat s * second"
    unfolding d using fits by (simp add: unat_word_ariths unat_of_nat maxInt64_def second_def)
  then have "uint d = int (unat s * second)" by (metis uint_nat)
  moreover from fits have "unat s * second < 2 ^ 63" by (simp add: maxInt64_def)
  then have "signed_take_bit 63 (int (unat s * second)) = int (unat s * second)"
    by (rule signed_nat)
  ultimately have "sint d = int (unat s * second)" by (simp add: sint_uint)
  then show "sint d = int (unat s) * int second" "0 \<le> sint d" by simp_all
qed

section \<open>The largest minimum delay\<close>

lemma MaxMinDelay_from_law:
  "sint (MaxMinDelay_from m ds) = Max (insert (sint m) (sint ` snd ` set ds))"
proof (induction ds arbitrary: m)
  case (Cons x ds)
  obtain s d where x: "x = (s, d)" by fastforce
  let ?m = "if sint d > sint m then d else m"
  have "sint (MaxMinDelay_from m (x # ds)) = Max (insert (sint ?m) (sint ` snd ` set ds))"
    using Cons.IH [of ?m] x by simp
  also have "\<dots> = Max (insert (sint m) (insert (sint d) (sint ` snd ` set ds)))"
  proof (cases "sint ` snd ` set ds = {}")
    case False
    then show ?thesis by (simp add: max_def)
  qed simp
  finally show ?case using x by simp
qed simp

lemma split_results_law:
  "split_results rs = (List.map_filter (\<lambda>r. case r of Inl _ \<Rightarrow> None | Inr d \<Rightarrow> Some d) rs,
     List.map_filter (\<lambda>r. case r of Inl e \<Rightarrow> Some e | Inr _ \<Rightarrow> None) rs)"
  by (induction rs) (auto simp: map_filter_simps split: sum.split)
section \<open>What a correction does\<close>

text \<open>The delays that can be read from the timelocks of a proposal.\<close>

definition readable :: "('m, 'e) min_delay_lookup \<Rightarrow> 'm tl_proposal \<Rightarrow> bool" where
  "readable lookup p \<longleftrightarrow> (\<forall>s a. tl_TimelockAddresses p s = Some a \<longrightarrow> (\<exists>d. lookup p s a = Inr d))"

definition min_delays :: "('m, 'e) min_delay_lookup \<Rightarrow> 'm tl_proposal \<Rightarrow> int set" where
  "min_delays lookup p = {sint d | s a d. tl_TimelockAddresses p s = Some a \<and> lookup p s a = Inr d}"

lemma set_map_filter: "set (List.map_filter f xs) = {y. \<exists>x \<in> set xs. f x = Some y}"
  by (induction xs) (auto simp: map_filter_simps split: option.splits)

lemma read_law:
  fixes lookup :: "('m, 'e) min_delay_lookup" and ctx :: "'e tl_context"
  assumes live: "\<And>i. ctx_reader ctx i = None" and iter: "iteration_of (tl_TimelockAddresses p) (ord (tl_TimelockAddresses p))"
  defines "r \<equiv> readChainMinDelaysWithLookup ord ctx lookup p"
  shows "snd r = [] \<longleftrightarrow> readable lookup p" and "sint ` snd ` set (fst r) = min_delays lookup p"
proof -
  let ?entries = "sortedTimelockEntries ord p"
  let ?read = "\<lambda>(s, a). case lookup p s a of Inl e \<Rightarrow> Inl (s, a, e) | Inr d \<Rightarrow> Inr (s, d)"
  have entries: "set ?entries = {(s, a). tl_TimelockAddresses p s = Some a}"
    using iter by (force simp: sortedTimelockEntries_def iteration_of_def)
  have "read_entry ctx lookup p x = ?read (snd x)" for x
    by (cases x) (simp add: read_entry_def live)
  then have "map (read_entry ctx lookup p) (enumerate 0 ?entries) = map ?read (map snd (enumerate 0 ?entries))"
    unfolding map_map comp_def by (intro map_cong refl)
  then have r: "r = split_results (map ?read ?entries)" by (simp add: r_def readChainMinDelaysWithLookup_def)
  have "snd r = [] \<longleftrightarrow> set (snd r) = {}" by simp
  also have "set (snd r) = {(s, a, e). tl_TimelockAddresses p s = Some a \<and> lookup p s a = Inl e}"
  proof -
    have "(case ?read (s, a) of Inl x \<Rightarrow> Some x | Inr _ \<Rightarrow> None) = Some y \<longleftrightarrow> (\<exists>e. lookup p s a = Inl e \<and> y = (s, a, e))" for s a y
      by (cases "lookup p s a") auto
    then show ?thesis unfolding r split_results_law snd_conv set_map_filter set_map entries by auto
  qed
  also have "{(s, a, e). tl_TimelockAddresses p s = Some a \<and> lookup p s a = Inl e} = {} \<longleftrightarrow>
      (\<forall>s a. tl_TimelockAddresses p s = Some a \<longrightarrow> (\<exists>d. lookup p s a = Inr d))"
  proof -
    have "(\<exists>d. lookup p s a = Inr d) \<longleftrightarrow> (\<forall>e. lookup p s a \<noteq> Inl e)" for s a by (cases "lookup p s a") auto
    then show ?thesis by auto
  qed
  finally show "snd r = [] \<longleftrightarrow> readable lookup p" by (simp add: readable_def)
  have "set (fst r) = {(s, d). \<exists>a. tl_TimelockAddresses p s = Some a \<and> lookup p s a = Inr d}"
  proof -
    have "(case ?read (s, a) of Inl _ \<Rightarrow> None | Inr x \<Rightarrow> Some x) = Some y \<longleftrightarrow> (\<exists>d. lookup p s a = Inr d \<and> y = (s, d))" for s a y
      by (cases "lookup p s a") auto
    then show ?thesis unfolding r split_results_law fst_conv set_map_filter set_map entries by auto
  qed
  then show "sint ` snd ` set (fst r) = min_delays lookup p" by (force simp: min_delays_def)
qed

lemma finite_min_delays: "finite (dom (tl_TimelockAddresses p)) \<Longrightarrow> finite (min_delays lookup p)"
proof -
  assume "finite (dom (tl_TimelockAddresses p))"
  moreover have "min_delays lookup p \<subseteq> (\<lambda>s. case lookup p s (the (tl_TimelockAddresses p s)) of Inr d \<Rightarrow> sint d | Inl _ \<Rightarrow> 0) ` dom (tl_TimelockAddresses p)"
    by (force simp: min_delays_def)
  ultimately show ?thesis by (meson finite_imageI finite_subset)
qed

text \<open>
  C35: the correction of a schedule proposal while the context lives. When every timelock can be read
  and some minimum delay is positive, it succeeds and the delay becomes the maximum of the old delay
  and of all minimum delays; else nothing changes, and it fails exactly when the delay was unset. So
  a delay is never lowered, and a success leaves it positive.
\<close>

theorem correctProposalDelay_raises:
  assumes "\<And>i. ctx_reader ctx i = None" "ctx_after ctx = None" "tl_Action p = ActionSchedule"
    and "iteration_of (tl_TimelockAddresses p) (ord (tl_TimelockAddresses p))"
  shows "case correctProposalDelay ord ctx lookup p of (err, p') \<Rightarrow>
    p' = p\<lparr>tl_Delay := tl_Delay p'\<rparr> \<and> sint (tl_Delay p) \<le> sint (tl_Delay p') \<and> (err = None \<longrightarrow> 0 < sint (tl_Delay p')) \<and>
    (if readable lookup p \<and> (\<exists>d \<in> min_delays lookup p. 0 < d)
     then err = None \<and> sint (tl_Delay p') = Max (insert (sint (tl_Delay p)) (min_delays lookup p))
     else p' = p \<and> (err \<noteq> None \<longleftrightarrow> sint (tl_Delay p) \<le> 0))"
proof -
  let ?r = "readChainMinDelaysWithLookup ord ctx lookup p" and ?old = "sint (tl_Delay p)"
  let ?m = "MaxMinDelay (fst ?r)" and ?D = "min_delays lookup p"
  note read = read_law [where ctx = ctx and p = p and ord = ord and lookup = lookup, OF assms(1,4)]
  have "finite (dom (tl_TimelockAddresses p))" using assms(4) by (metis List.finite_set iteration_of_def)
  then have fin: "finite ?D" by (rule finite_min_delays)
  have m: "sint ?m = Max (insert 0 ?D)" using MaxMinDelay_from_law [of 0 "fst ?r"] read(2) by (simp add: MaxMinDelay_def)
  then have positive: "0 < sint ?m \<longleftrightarrow> (\<exists>d \<in> ?D. 0 < d)" using fin by (simp add: Max_gr_iff)
  have max: "Max (insert ?old ?D) = max ?old (sint ?m)" if "0 < sint ?m"
  proof -
    have "?D \<noteq> {}" using that positive by blast
    then have "sint ?m = max 0 (Max ?D)" "Max (insert ?old ?D) = max ?old (Max ?D)" using m fin by simp_all
    then show ?thesis using that by auto
  qed
  have same: "p = p\<lparr>tl_Delay := tl_Delay p\<rparr>" by simp
  show ?thesis
  proof (cases "dom (tl_TimelockAddresses p) = {}")
    case True
    then have "?D = {}" by (auto simp: min_delays_def)
    then show ?thesis using assms(3) True by (simp add: correctProposalDelay_def ret_def fail_def)
  next
    case False
    then have step: "correctProposalDelay ord ctx lookup p =
       (if \<not> readable lookup p then (if ?old \<le> 0 then fail (UnsetUnverified (snd ?r)) p else ret p)
        else if sint ?m \<le> 0 then (if ?old \<le> 0 then fail UnsetZeroMinDelay p else ret p)
        else if ?old > 0 \<and> ?old \<ge> sint ?m then ret p else ret (p\<lparr>tl_Delay := ?m\<rparr>))"
      using assms(2,3) read(1) by (cases ?r) (simp add: correctProposalDelay_def Let_def)
    show ?thesis
    proof (cases "readable lookup p \<and> 0 < sint ?m")
      case True
      then show ?thesis using max positive unfolding step by (auto simp: ret_def)
    next
      case False
      then have "\<not> (readable lookup p \<and> (\<exists>d \<in> ?D. 0 < d))" using positive by blast
      then show ?thesis using False unfolding step by (auto simp: ret_def fail_def)
    qed
  qed
qed

text \<open>A delay of one second, and a timelock that asks for two.\<close>

definition example_proposal :: "unit tl_proposal" where
  "example_proposal = \<lparr>tl_Action = ActionSchedule, tl_Delay = word_of_nat second, tl_TimelockAddresses = [1 \<mapsto> ''t''],
     tl_ChainMetadata = Map.empty\<rparr>"

definition example_lookup :: "(unit, unit) min_delay_lookup" where
  "example_lookup = readTimelockMinDelay (\<lambda>_ _. Inr (\<lambda>_. Inr 2)) ()"

theorem correctProposalDelay_raises_witness:
  "fst (correctProposalDelay (\<lambda>m. if finite (dom m) then sorted_list_of_set (dom m) else []) \<lparr>ctx_reader = (\<lambda>_. None), ctx_after = None\<rparr> example_lookup example_proposal) = None"
proof -
  have two: "durationFromSeconds 2 = Inr (2 * word_of_nat second)"
    by (simp add: durationFromSeconds_law maxInt64_def second_def)
  have min: "readable example_lookup example_proposal" "sint (2 * word_of_nat second :: duration) \<in> min_delays example_lookup example_proposal"
    by (auto simp: readable_def min_delays_def example_lookup_def example_proposal_def readTimelockMinDelay_def two)
  have "0 < sint (2 * word_of_nat second :: duration)" using durationFromSeconds_exact(1) [OF two] by (simp add: second_def)
  then show ?thesis
    using correctProposalDelay_raises [of "\<lparr>ctx_reader = (\<lambda>_. None), ctx_after = None\<rparr>" example_proposal
      "\<lambda>m. if finite (dom m) then sorted_list_of_set (dom m) else []" example_lookup] min
    by (auto simp: iteration_of_def example_proposal_def split: prod.splits if_splits)
qed

text \<open>A loop that succeeds has corrected every proposal; one that fails has corrected those before.\<close>

lemma CorrectTimelockDelays_success:
  "CorrectTimelockDelaysWithLookup ord lookup ps = (None, qs) \<longleftrightarrow>
     list_all2 (\<lambda>(ctx, p) q. correctProposalDelay ord ctx lookup p = (None, q)) ps qs"
proof (induction ps arbitrary: qs)
  case Nil
  then show ?case by (auto simp: ret_def)
next
  case (Cons cp ps)
  then show ?case
    by (cases cp) (auto simp: list_all2_Cons1 Cons.IH [symmetric] simp del: Cons.IH split: prod.splits option.splits)
qed

end
