(* ===== verification/Evm_Client.thy ===== *)
theory Evm_Client
  imports Go_Prelude
begin

text \<open>
  The EVM client with failover (\<open>chain/evm/provider/rpcclient/\<close>: \<open>multiclient.go\<close>,
  \<open>retry_policy.go\<close>, \<open>rpc_config.go\<close>) and the gas settings of a transaction (\<open>chain/evm/gas/\<close>).

  A client of one endpoint is an abstract value \<open>'c\<close>; calling it acts on a world \<open>'w\<close>. The retry
  library, dialling, the health check and the context are parameters. A call takes a snapshot of the
  clients and reports its success later, under a lock: the calls of one goroutine are modelled by
  functions, the interleaving of several by a step relation on the same states.
\<close>

section \<open>Endpoints\<close>

datatype url_scheme = SchemeNone | SchemeWS | SchemeHTTP | SchemeOther int

definition to_lower :: "string \<Rightarrow> string" where
  "to_lower s = map (\<lambda>c. if CHR ''A'' \<le> c \<and> c \<le> CHR ''Z'' then char_of (of_char c + (32 :: nat)) else c) s"

datatype rpc_error = InvalidScheme string | UnknownScheme | NoRPCs | NoChainDetails | NoValidClients

definition URLSchemePreferenceFromString :: "string \<Rightarrow> rpc_error + url_scheme" where
  "URLSchemePreferenceFromString s =
     (if to_lower s = ''none'' then Inr SchemeNone
      else if to_lower s = ''ws'' then Inr SchemeWS
      else if to_lower s = ''http'' then Inr SchemeHTTP
      else Inl (InvalidScheme s))"

definition UnmarshalText :: "string \<Rightarrow> url_scheme \<Rightarrow> (rpc_error, url_scheme) eff" where
  "UnmarshalText text u =
     (case URLSchemePreferenceFromString text of Inl e \<Rightarrow> fail e u | Inr preference \<Rightarrow> ret preference)"

record rpc =
  rpc_Name :: string
  rpc_WSURL :: string
  rpc_HTTPURL :: string
  rpc_PreferredURLScheme :: url_scheme

definition ToEndpoint :: "rpc \<Rightarrow> rpc_error + string" where
  "ToEndpoint r =
     (case rpc_PreferredURLScheme r of
        SchemeNone \<Rightarrow> Inr (rpc_WSURL r)
      | SchemeWS \<Rightarrow> Inr (rpc_WSURL r)
      | SchemeHTTP \<Rightarrow> Inr (rpc_HTTPURL r)
      | SchemeOther _ \<Rightarrow> Inl UnknownScheme)"

section \<open>Retry configuration\<close>

text \<open>Durations are nanoseconds; a policy without a matcher never matches.\<close>

record 'e error_policy =
  ep_Match :: "('e \<Rightarrow> bool) option"
  ep_Delay :: int

record 'e rpc_retry_config =
  rt_Attempts :: u64
  rt_Delay :: int
  rt_Timeout :: int
  rt_DialAttempts :: u64
  rt_DialDelay :: int
  rt_DialTimeout :: int
  rt_HealthCheckTimeout :: int
  rt_ErrorPolicies :: "'e error_policy list"

definition RPCDefaultHealthCheckTimeout :: int where
  "RPCDefaultHealthCheckTimeout = 2000000000"

definition defaultRetryConfig :: "'e rpc_retry_config" where
  "defaultRetryConfig =
     \<lparr>rt_Attempts = 1, rt_Delay = 1000000000, rt_Timeout = 10000000000, rt_DialAttempts = 1,
      rt_DialDelay = 1000000000, rt_DialTimeout = 10000000000,
      rt_HealthCheckTimeout = RPCDefaultHealthCheckTimeout, rt_ErrorPolicies = []\<rparr>"

fun matchErrorPolicy :: "'e \<Rightarrow> 'e error_policy list \<Rightarrow> 'e error_policy option" where
  "matchErrorPolicy err [] = None"
| "matchErrorPolicy err (policy # policies) =
     (case ep_Match policy of
        Some m \<Rightarrow> if m err then Some policy else matchErrorPolicy err policies
      | None \<Rightarrow> matchErrorPolicy err policies)"

definition delayForError :: "(nat \<Rightarrow> 'e \<Rightarrow> int) \<Rightarrow> 'e rpc_retry_config \<Rightarrow> nat \<Rightarrow> 'e \<Rightarrow> int" where
  "delayForError fixedDelay rc n err =
     (case matchErrorPolicy err (rt_ErrorPolicies rc) of
        Some policy \<Rightarrow> ep_Delay policy
      | None \<Rightarrow> fixedDelay n err)"

datatype 'e retry_option = RetryAttempts u64 | RetryDelay int | RetryDelayType "nat \<Rightarrow> 'e \<Rightarrow> int"

definition rpcRetryOptions :: "(nat \<Rightarrow> 'e \<Rightarrow> int) \<Rightarrow> 'e rpc_retry_config \<Rightarrow> 'e retry_option list" where
  "rpcRetryOptions fixedDelay rc =
     [RetryAttempts (rt_Attempts rc), RetryDelay (rt_Delay rc)] @
     (if length (rt_ErrorPolicies rc) > 0 then [RetryDelayType (delayForError fixedDelay rc)] else [])"

section \<open>The client\<close>

record ('c, 'e) multi_client =
  mc_Client :: 'c
  mc_Backups :: "'c list"
  mc_RetryConfig :: "'e rpc_retry_config"
  mc_maxTxGasLimit :: u64

definition WithErrorRetryPolicies :: "'e error_policy list \<Rightarrow> ('c, 'e) multi_client \<Rightarrow> ('c, 'e) multi_client" where
  "WithErrorRetryPolicies policies mc =
     mc\<lparr>mc_RetryConfig := (mc_RetryConfig mc)\<lparr>rt_ErrorPolicies := policies\<rparr>\<rparr>"

definition WithMaxTxGasLimit :: "u64 \<Rightarrow> ('c, 'e) multi_client \<Rightarrow> ('c, 'e) multi_client" where
  "WithMaxTxGasLimit maxTxGasLimit mc = mc\<lparr>mc_maxTxGasLimit := maxTxGasLimit\<rparr>"

definition clients :: "('c, 'e) multi_client \<Rightarrow> 'c list" where
  "clients mc = mc_Client mc # mc_Backups mc"

definition healthCheckTimeout :: "('c, 'e) multi_client \<Rightarrow> int" where
  "healthCheckTimeout mc =
     (let timeout = rt_HealthCheckTimeout (mc_RetryConfig mc) in
      if timeout = 0 then RPCDefaultHealthCheckTimeout else timeout)"

text \<open>
  Dialling an endpoint and checking its client, with the retry configuration; clients that fail are
  left out. \<open>unset\<close> stands for the nil client of the struct under construction.
\<close>

definition usable_clients ::
  "('e rpc_retry_config \<Rightarrow> string \<Rightarrow> 'c option) \<Rightarrow> (int \<Rightarrow> 'c \<Rightarrow> bool) \<Rightarrow> ('c, 'e) multi_client \<Rightarrow> rpc list \<Rightarrow> 'c list" where
  "usable_clients dial healthy mc rpcs =
     List.map_filter (\<lambda>r.
       case ToEndpoint r of
         Inl _ \<Rightarrow> None
       | Inr endpoint \<Rightarrow>
           (case dial (mc_RetryConfig mc) endpoint of
              None \<Rightarrow> None
            | Some client \<Rightarrow> if healthy (healthCheckTimeout mc) client then Some client else None)) rpcs"

definition NewMultiClient ::
  "('e rpc_retry_config \<Rightarrow> string \<Rightarrow> 'c option) \<Rightarrow> (int \<Rightarrow> 'c \<Rightarrow> bool) \<Rightarrow> 'c \<Rightarrow> bool \<Rightarrow> rpc list \<Rightarrow>
   (('c, 'e) multi_client \<Rightarrow> ('c, 'e) multi_client) list \<Rightarrow> rpc_error + ('c, 'e) multi_client" where
  "NewMultiClient dial healthy unset knownChain rpcs opts =
     (if length rpcs = 0 then Inl NoRPCs
      else if \<not> knownChain then Inl NoChainDetails
      else
        let mc = fold (\<lambda>opt mc. opt mc) opts
              \<lparr>mc_Client = unset, mc_Backups = [], mc_RetryConfig = defaultRetryConfig, mc_maxTxGasLimit = 0\<rparr> in
        case usable_clients dial healthy mc rpcs of
          [] \<Rightarrow> Inl NoValidClients
        | client # backups \<Rightarrow> Inr (mc\<lparr>mc_Client := client, mc_Backups := backups\<rparr>))"

text \<open>The deadline of a call: the one of its context, or the timeout from now.\<close>

definition ensureTimeout :: "int option \<Rightarrow> int \<Rightarrow> int \<Rightarrow> int" where
  "ensureTimeout deadline now timeout = (case deadline of Some d \<Rightarrow> d | None \<Rightarrow> now + timeout)"

section \<open>Failover\<close>

text \<open>An index beyond the backups is a panic (\<open>None\<close>).\<close>

definition reorderRPCs :: "nat \<Rightarrow> ('c, 'e) multi_client \<Rightarrow> ('c, 'e) multi_client option" where
  "reorderRPCs rpcIndex mc =
     (if rpcIndex < 1 \<or> length (mc_Backups mc) = 0 then Some mc
      else
        let newDefaultRPCIndex = rpcIndex - 1 in
        if newDefaultRPCIndex \<ge> length (mc_Backups mc) then None
        else Some (mc\<lparr>mc_Client := mc_Backups mc ! newDefaultRPCIndex,
               mc_Backups := drop (newDefaultRPCIndex + 1) (mc_Backups mc) @
                 take newDefaultRPCIndex (mc_Backups mc) @ [mc_Client mc]\<rparr>))"

datatype 'e call_error = CallFailed 'e | AllBackupsFailed | PanicIndex

type_synonym ('c, 'e, 'w) call_state = "('c, 'e) multi_client \<times> 'w"

text \<open>
  One attempt: the call, and on success the reordering. \<open>PanicIndex\<close> ends the program in the code; a
  caller whose snapshot is the current list never gets there (\<open>reorderRPCs_law\<close>).
\<close>

definition attempt ::
  "('c \<Rightarrow> 'w \<Rightarrow> ('e, 'w) eff) \<Rightarrow> nat \<Rightarrow> 'c \<Rightarrow> ('c, 'e, 'w) call_state \<Rightarrow> ('e call_error, ('c, 'e, 'w) call_state) eff" where
  "attempt op rpcIndex client s =
     (case op client (snd s) of
        (Some e, w) \<Rightarrow> (Some (CallFailed e), (fst s, w))
      | (None, w) \<Rightarrow>
          (case reorderRPCs rpcIndex (fst s) of
             None \<Rightarrow> (Some PanicIndex, (fst s, w))
           | Some mc \<Rightarrow> (None, (mc, w))))"

type_synonym ('c, 'e, 'w) retry_lib =
  "'e rpc_retry_config \<Rightarrow> (('c, 'e, 'w) call_state \<Rightarrow> ('e call_error, ('c, 'e, 'w) call_state) eff) \<Rightarrow>
   ('c, 'e, 'w) call_state \<Rightarrow> ('e call_error, ('c, 'e, 'w) call_state) eff"

fun try_clients ::
  "('c, 'e, 'w) retry_lib \<Rightarrow> 'e rpc_retry_config \<Rightarrow> ('c \<Rightarrow> 'w \<Rightarrow> ('e, 'w) eff) \<Rightarrow> nat \<Rightarrow> 'c list \<Rightarrow>
   ('c, 'e, 'w) call_state \<Rightarrow> ('e call_error, ('c, 'e, 'w) call_state) eff" where
  "try_clients retry cfg op rpcIndex [] s = (Some AllBackupsFailed, s)"
| "try_clients retry cfg op rpcIndex (client # rest) s =
     (case retry cfg (attempt op rpcIndex client) s of
        (None, s) \<Rightarrow> (None, s)
      | (Some _, s) \<Rightarrow> try_clients retry cfg op (rpcIndex + 1) rest s)"

definition retryWithBackups ::
  "('c, 'e, 'w) retry_lib \<Rightarrow> ('c \<Rightarrow> 'w \<Rightarrow> ('e, 'w) eff) \<Rightarrow> ('c, 'e, 'w) call_state \<Rightarrow>
   ('e call_error, ('c, 'e, 'w) call_state) eff" where
  "retryWithBackups retry op s =
     try_clients retry (mc_RetryConfig (fst s)) op 0 (clients (fst s)) s"

section \<open>Gas\<close>

definition CapGasLimit :: "u64 \<Rightarrow> u64 \<Rightarrow> u64" where
  "CapGasLimit gas maxTxGas = (if maxTxGas = 0 \<or> gas \<le> maxTxGas then gas else maxTxGas)"

definition weiToBigInt :: "u64 \<Rightarrow> int option" where
  "weiToBigInt wei = (if wei = 0 then None else Some (uint wei))"

record gas_config =
  gc_DefaultGasLimit :: u64
  gc_DefaultGasPriceWei :: u64
  gc_DefaultGasTipCapWei :: u64
  gc_MaxTxGasLimit :: u64

record transact_opts =
  to_GasLimit :: u64
  to_GasPrice :: "int option"
  to_GasTipCap :: "int option"
  to_GasFeeCap :: "int option"

datatype 'e gas_error =
    NilOpts
  | NilGasClient
  | NoHeader 'e
  | NilHeader
  | NilFeeCap
  | NoTip 'e
  | NilTip
  | BelowBaseFee int int

text \<open>A header is its base fee; the client returns pointers, so a header or a tip may be nil.\<close>

record 'e gas_client =
  gcl_Header :: "'e + int option option"
  gcl_SuggestTip :: "'e + int option"

definition IsEIP1559Header :: "int option option \<Rightarrow> bool" where
  "IsEIP1559Header header \<longleftrightarrow> (case header of Some (Some _) \<Rightarrow> True | _ \<Rightarrow> False)"

definition applyLegacyGasPrice :: "int option \<Rightarrow> transact_opts \<Rightarrow> transact_opts" where
  "applyLegacyGasPrice gasPrice opts = opts\<lparr>to_GasPrice := gasPrice, to_GasFeeCap := None, to_GasTipCap := None\<rparr>"

definition applyGasPrice ::
  "'e gas_client \<Rightarrow> int option \<Rightarrow> int option \<Rightarrow> transact_opts \<Rightarrow> ('e gas_error, transact_opts) eff" where
  "applyGasPrice client gasPrice tipOverride opts =
     (case gcl_Header client of
        Inl e \<Rightarrow> fail (NoHeader e) opts
      | Inr None \<Rightarrow> fail NilHeader opts
      | Inr (Some None) \<Rightarrow> ret (applyLegacyGasPrice gasPrice opts)
      | Inr (Some (Some baseFee)) \<Rightarrow>
          (case gasPrice of
             None \<Rightarrow> fail NilFeeCap opts
           | Some price \<Rightarrow>
               (case (case tipOverride of Some t \<Rightarrow> Inr (Some t) | None \<Rightarrow> gcl_SuggestTip client) of
                  Inl e \<Rightarrow> fail (NoTip e) opts
                | Inr None \<Rightarrow> fail NilTip opts
                | Inr (Some tip) \<Rightarrow>
                    let maxTip = price - baseFee in
                    if maxTip < 0 then fail (BelowBaseFee price baseFee) opts
                    else
                      let tip = (if tip > maxTip then maxTip else tip) in
                      ret (opts\<lparr>to_GasPrice := None, to_GasTipCap := Some tip, to_GasFeeCap := Some price\<rparr>))))"

definition ApplyDefaults ::
  "'e gas_client option \<Rightarrow> gas_config \<Rightarrow> transact_opts option \<Rightarrow> ('e gas_error, transact_opts option) eff" where
  "ApplyDefaults client cfg opts =
     (case opts of
        None \<Rightarrow> fail NilOpts None
      | Some opts \<Rightarrow>
          let opts = (if gc_DefaultGasLimit cfg > 0
                then opts\<lparr>to_GasLimit := CapGasLimit (gc_DefaultGasLimit cfg) (gc_MaxTxGasLimit cfg)\<rparr> else opts) in
          if gc_DefaultGasPriceWei cfg = 0 then ret (Some opts)
          else
            (case client of
               None \<Rightarrow> fail NilGasClient (Some opts)
             | Some client \<Rightarrow>
                 (case applyGasPrice client (weiToBigInt (gc_DefaultGasPriceWei cfg)) (weiToBigInt (gc_DefaultGasTipCapWei cfg)) opts of
                    (err, opts) \<Rightarrow> (err, Some opts))))"

section \<open>The calls\<close>

text \<open>
  The wrapped calls hand out the result of the last attempt, also when it failed; \<open>result\<close> is the
  variable the closure writes. Only the estimation of gas drops it and caps it.
\<close>

definition call_with_result ::
  "('c, 'e, 'w \<times> 'r) retry_lib \<Rightarrow> 'r \<Rightarrow> ('c \<Rightarrow> 'w \<Rightarrow> ('r \<times> 'e option) \<times> 'w) \<Rightarrow> ('c, 'e, 'w) call_state \<Rightarrow>
   ('r \<times> 'e call_error option) \<times> ('c, 'e, 'w) call_state" where
  "call_with_result retry zero method s =
     (case retryWithBackups retry
         (\<lambda>client (w, _). case method client w of ((result, err), w) \<Rightarrow> (err, (w, result))) (fst s, (snd s, zero)) of
        (err, (mc, (w, result))) \<Rightarrow> ((result, err), (mc, w)))"

definition SendTransaction ::
  "('c, 'e, 'w) retry_lib \<Rightarrow> ('c \<Rightarrow> 't \<Rightarrow> 'w \<Rightarrow> ('e, 'w) eff) \<Rightarrow> 't \<Rightarrow> ('c, 'e, 'w) call_state \<Rightarrow>
   ('e call_error, ('c, 'e, 'w) call_state) eff" where
  "SendTransaction retry send tx s = retryWithBackups retry (\<lambda>client. send client tx) s"

definition CallContract ::
  "('c, 'e, 'w \<times> string) retry_lib \<Rightarrow> ('c \<Rightarrow> 'm \<Rightarrow> 'b \<Rightarrow> 'w \<Rightarrow> (string \<times> 'e option) \<times> 'w) \<Rightarrow> 'm \<Rightarrow> 'b \<Rightarrow>
   ('c, 'e, 'w) call_state \<Rightarrow> (string \<times> 'e call_error option) \<times> ('c, 'e, 'w) call_state" where
  "CallContract retry call msg block s = call_with_result retry [] (\<lambda>client. call client msg block) s"

definition CallContractAtHash ::
  "('c, 'e, 'w \<times> string) retry_lib \<Rightarrow> ('c \<Rightarrow> 'p \<Rightarrow> 'q \<Rightarrow> 'w \<Rightarrow> (string \<times> 'e option) \<times> 'w) \<Rightarrow> 'p \<Rightarrow> 'q \<Rightarrow> 
   ('c, 'e, 'w) call_state \<Rightarrow> (string \<times> 'e call_error option) \<times> ('c, 'e, 'w) call_state" where
  "CallContractAtHash retry method a b s = call_with_result retry [] (\<lambda>client. method client a b) s"

definition CodeAt ::
  "('c, 'e, 'w \<times> string) retry_lib \<Rightarrow> ('c \<Rightarrow> 'p \<Rightarrow> 'q \<Rightarrow> 'w \<Rightarrow> (string \<times> 'e option) \<times> 'w) \<Rightarrow> 'p \<Rightarrow> 'q \<Rightarrow> 
   ('c, 'e, 'w) call_state \<Rightarrow> (string \<times> 'e call_error option) \<times> ('c, 'e, 'w) call_state" where
  "CodeAt retry method a b s = call_with_result retry [] (\<lambda>client. method client a b) s"

definition CodeAtHash ::
  "('c, 'e, 'w \<times> string) retry_lib \<Rightarrow> ('c \<Rightarrow> 'p \<Rightarrow> 'q \<Rightarrow> 'w \<Rightarrow> (string \<times> 'e option) \<times> 'w) \<Rightarrow> 'p \<Rightarrow> 'q \<Rightarrow> 
   ('c, 'e, 'w) call_state \<Rightarrow> (string \<times> 'e call_error option) \<times> ('c, 'e, 'w) call_state" where
  "CodeAtHash retry method a b s = call_with_result retry [] (\<lambda>client. method client a b) s"

definition NonceAt ::
  "('c, 'e, 'w \<times> u64) retry_lib \<Rightarrow> ('c \<Rightarrow> 'p \<Rightarrow> 'q \<Rightarrow> 'w \<Rightarrow> (u64 \<times> 'e option) \<times> 'w) \<Rightarrow> 'p \<Rightarrow> 'q \<Rightarrow> 
   ('c, 'e, 'w) call_state \<Rightarrow> (u64 \<times> 'e call_error option) \<times> ('c, 'e, 'w) call_state" where
  "NonceAt retry method a b s = call_with_result retry 0 (\<lambda>client. method client a b) s"

definition NonceAtHash ::
  "('c, 'e, 'w \<times> u64) retry_lib \<Rightarrow> ('c \<Rightarrow> 'p \<Rightarrow> 'q \<Rightarrow> 'w \<Rightarrow> (u64 \<times> 'e option) \<times> 'w) \<Rightarrow> 'p \<Rightarrow> 'q \<Rightarrow> 
   ('c, 'e, 'w) call_state \<Rightarrow> (u64 \<times> 'e call_error option) \<times> ('c, 'e, 'w) call_state" where
  "NonceAtHash retry method a b s = call_with_result retry 0 (\<lambda>client. method client a b) s"

definition HeaderByNumber ::
  "('c, 'e, 'w \<times> 'h option) retry_lib \<Rightarrow> ('c \<Rightarrow> 'p \<Rightarrow> 'w \<Rightarrow> ('h option \<times> 'e option) \<times> 'w) \<Rightarrow> 'p \<Rightarrow> 
   ('c, 'e, 'w) call_state \<Rightarrow> ('h option \<times> 'e call_error option) \<times> ('c, 'e, 'w) call_state" where
  "HeaderByNumber retry method a s = call_with_result retry None (\<lambda>client. method client a) s"

definition SuggestGasPrice ::
  "('c, 'e, 'w \<times> int option) retry_lib \<Rightarrow> ('c \<Rightarrow> 'w \<Rightarrow> (int option \<times> 'e option) \<times> 'w) \<Rightarrow> 
   ('c, 'e, 'w) call_state \<Rightarrow> (int option \<times> 'e call_error option) \<times> ('c, 'e, 'w) call_state" where
  "SuggestGasPrice retry method s = call_with_result retry None (\<lambda>client. method client) s"

definition SuggestGasTipCap ::
  "('c, 'e, 'w \<times> int option) retry_lib \<Rightarrow> ('c \<Rightarrow> 'w \<Rightarrow> (int option \<times> 'e option) \<times> 'w) \<Rightarrow> 
   ('c, 'e, 'w) call_state \<Rightarrow> (int option \<times> 'e call_error option) \<times> ('c, 'e, 'w) call_state" where
  "SuggestGasTipCap retry method s = call_with_result retry None (\<lambda>client. method client) s"

definition PendingCodeAt ::
  "('c, 'e, 'w \<times> string) retry_lib \<Rightarrow> ('c \<Rightarrow> 'p \<Rightarrow> 'w \<Rightarrow> (string \<times> 'e option) \<times> 'w) \<Rightarrow> 'p \<Rightarrow> 
   ('c, 'e, 'w) call_state \<Rightarrow> (string \<times> 'e call_error option) \<times> ('c, 'e, 'w) call_state" where
  "PendingCodeAt retry method a s = call_with_result retry [] (\<lambda>client. method client a) s"

definition PendingNonceAt ::
  "('c, 'e, 'w \<times> u64) retry_lib \<Rightarrow> ('c \<Rightarrow> 'p \<Rightarrow> 'w \<Rightarrow> (u64 \<times> 'e option) \<times> 'w) \<Rightarrow> 'p \<Rightarrow> 
   ('c, 'e, 'w) call_state \<Rightarrow> (u64 \<times> 'e call_error option) \<times> ('c, 'e, 'w) call_state" where
  "PendingNonceAt retry method a s = call_with_result retry 0 (\<lambda>client. method client a) s"

definition BalanceAt ::
  "('c, 'e, 'w \<times> int option) retry_lib \<Rightarrow> ('c \<Rightarrow> 'p \<Rightarrow> 'q \<Rightarrow> 'w \<Rightarrow> (int option \<times> 'e option) \<times> 'w) \<Rightarrow> 'p \<Rightarrow> 'q \<Rightarrow> 
   ('c, 'e, 'w) call_state \<Rightarrow> (int option \<times> 'e call_error option) \<times> ('c, 'e, 'w) call_state" where
  "BalanceAt retry method a b s = call_with_result retry None (\<lambda>client. method client a b) s"

definition StorageAt ::
  "('c, 'e, 'w \<times> string) retry_lib \<Rightarrow> ('c \<Rightarrow> 'p \<Rightarrow> 'q \<Rightarrow> 'o \<Rightarrow> 'w \<Rightarrow> (string \<times> 'e option) \<times> 'w) \<Rightarrow> 'p \<Rightarrow> 'q \<Rightarrow> 'o \<Rightarrow> 
   ('c, 'e, 'w) call_state \<Rightarrow> (string \<times> 'e call_error option) \<times> ('c, 'e, 'w) call_state" where
  "StorageAt retry method a b d s = call_with_result retry [] (\<lambda>client. method client a b d) s"

definition FilterLogs ::
  "('c, 'e, 'w \<times> 'l list) retry_lib \<Rightarrow> ('c \<Rightarrow> 'p \<Rightarrow> 'w \<Rightarrow> ('l list \<times> 'e option) \<times> 'w) \<Rightarrow> 'p \<Rightarrow> 
   ('c, 'e, 'w) call_state \<Rightarrow> ('l list \<times> 'e call_error option) \<times> ('c, 'e, 'w) call_state" where
  "FilterLogs retry method a s = call_with_result retry [] (\<lambda>client. method client a) s"

definition SubscribeFilterLogs ::
  "('c, 'e, 'w \<times> 's option) retry_lib \<Rightarrow> ('c \<Rightarrow> 'p \<Rightarrow> 'q \<Rightarrow> 'w \<Rightarrow> ('s option \<times> 'e option) \<times> 'w) \<Rightarrow> 'p \<Rightarrow> 'q \<Rightarrow> 
   ('c, 'e, 'w) call_state \<Rightarrow> ('s option \<times> 'e call_error option) \<times> ('c, 'e, 'w) call_state" where
  "SubscribeFilterLogs retry method a b s = call_with_result retry None (\<lambda>client. method client a b) s"

definition EstimateGas ::
  "('c, 'e, 'w \<times> u64) retry_lib \<Rightarrow> ('c \<Rightarrow> 'm \<Rightarrow> 'w \<Rightarrow> (u64 \<times> 'e option) \<times> 'w) \<Rightarrow> 'm \<Rightarrow>
   ('c, 'e, 'w) call_state \<Rightarrow> (u64 \<times> 'e call_error option) \<times> ('c, 'e, 'w) call_state" where
  "EstimateGas retry estimate msg s =
     (case call_with_result retry 0 (\<lambda>client. estimate client msg) s of
        ((estimated, Some e), (mc, w)) \<Rightarrow> ((0, Some e), (mc, w))
      | ((estimated, None), (mc, w)) \<Rightarrow> ((CapGasLimit estimated (mc_maxTxGasLimit mc), None), (mc, w)))"

section \<open>Concurrent calls\<close>

text \<open>
  A call in progress holds its snapshot of the clients and the index of the client it tries. Calls
  begin, fail on a client, succeed on one (and reorder) or give up, in any order: \<open>None\<close> is an event
  that is not possible, or a panic of the reordering.
\<close>

datatype call_event = BeginCall nat | FailOn nat | SucceedOn nat | GiveUp nat

record ('c, 'e) pool =
  po_mc :: "('c, 'e) multi_client"
  po_calls :: "nat \<rightharpoonup> 'c list \<times> nat"

definition call_step :: "call_event \<Rightarrow> ('c, 'e) pool \<Rightarrow> ('c, 'e) pool option" where
  "call_step ev p =
     (case ev of
        BeginCall k \<Rightarrow>
          if po_calls p k = None then Some (p\<lparr>po_calls := (po_calls p)(k \<mapsto> (clients (po_mc p), 0))\<rparr>) else None
      | FailOn k \<Rightarrow>
          (case po_calls p k of
             None \<Rightarrow> None
           | Some (cs, i) \<Rightarrow> if i < length cs then Some (p\<lparr>po_calls := (po_calls p)(k \<mapsto> (cs, i + 1))\<rparr>) else None)
      | SucceedOn k \<Rightarrow>
          (case po_calls p k of
             None \<Rightarrow> None
           | Some (cs, i) \<Rightarrow>
               if i < length cs then
                 map_option (\<lambda>mc. p\<lparr>po_mc := mc, po_calls := (po_calls p)(k := None)\<rparr>) (reorderRPCs i (po_mc p))
               else None)
      | GiveUp k \<Rightarrow>
          (case po_calls p k of
             None \<Rightarrow> None
           | Some (cs, i) \<Rightarrow> if i < length cs then None else Some (p\<lparr>po_calls := (po_calls p)(k := None)\<rparr>)))"

fun call_run :: "call_event list \<Rightarrow> ('c, 'e) pool \<Rightarrow> ('c, 'e) pool option" where
  "call_run [] p = Some p"
| "call_run (ev # evs) p = (case call_step ev p of None \<Rightarrow> None | Some p \<Rightarrow> call_run evs p)"

definition idle :: "('c, 'e) multi_client \<Rightarrow> ('c, 'e) pool" where
  "idle mc = \<lparr>po_mc = mc, po_calls = Map.empty\<rparr>"

section \<open>Reordering\<close>

text \<open>The client at an index first, then those after it, the failed backups, and the failed primary.\<close>

definition promoted :: "nat \<Rightarrow> 'c list \<Rightarrow> 'c list" where
  "promoted i cs = (if i = 0 then cs else cs ! i # drop (i + 1) cs @ tl (take i cs) @ [hd cs])"

lemma reorderRPCs_law:
  assumes "i < length (clients mc)"
  shows "\<exists>mc'. reorderRPCs i mc = Some mc' \<and> clients mc' = promoted i (clients mc) \<and>
    mc' = mc\<lparr>mc_Client := mc_Client mc', mc_Backups := mc_Backups mc'\<rparr>"
proof (cases i)
  case 0
  then show ?thesis by (simp add: reorderRPCs_def promoted_def)
next
  case (Suc j)
  then have j: "j < length (mc_Backups mc)" using assms by (simp add: clients_def)
  then have "mc_Backups mc \<noteq> []" by auto
  then show ?thesis using j by (simp add: reorderRPCs_def promoted_def clients_def Suc Let_def)
qed

lemma mset_promoted: "i < length cs \<Longrightarrow> mset (promoted i cs) = mset cs"
proof (cases i)
  case (Suc j)
  assume i: "i < length cs"
  then obtain c ds where cs: "cs = c # ds" by (cases cs) auto
  then have j: "j < length ds" using i Suc by simp
  have "mset ds = mset (take j ds @ ds ! j # drop (Suc j) ds)" using j by (simp only: id_take_nth_drop [symmetric])
  then show ?thesis using Suc by (simp add: promoted_def cs)
qed (simp add: promoted_def)

section \<open>One caller\<close>

text \<open>
  What the code relies on of the retry library: it calls the function until it succeeds or it gives
  up after a failure, and returns no error exactly in the first case. Retrying forever, which the library does when
  it is configured with zero attempts, is outside this model.
\<close>

inductive tries :: "('s \<Rightarrow> ('e, 's) eff) \<Rightarrow> 's \<Rightarrow> 'e option \<Rightarrow> 's \<Rightarrow> bool" for f where
  tries_ok: "f s = (None, t) \<Longrightarrow> tries f s None t"
| tries_stop: "f s = (Some e, t) \<Longrightarrow> tries f s (Some e') t"
| tries_again: "f s = (Some e, t) \<Longrightarrow> tries f t r u \<Longrightarrow> tries f s r u"

definition retry_ok :: "('c, 'e, 'w) retry_lib \<Rightarrow> bool" where
  "retry_ok retry \<longleftrightarrow> (\<forall>cfg f s. tries f s (fst (retry cfg f s)) (snd (retry cfg f s)))"

text \<open>Retrying one client that is up, or down, whatever the world.\<close>

lemma tries_up:
  assumes "tries (attempt op i c) s r t" "\<And>w. fst (op c w) = None" "i < length (clients (fst s))"
  shows "r = None \<and> clients (fst t) = promoted i (clients (fst s)) \<and>
    fst t = (fst s)\<lparr>mc_Client := mc_Client (fst t), mc_Backups := mc_Backups (fst t)\<rparr>"
proof -
  obtain w where w: "op c (snd s) = (None, w)" using assms(2) [of "snd s"] by (cases "op c (snd s)") auto
  obtain mc' where mc: "reorderRPCs i (fst s) = Some mc'" "clients mc' = promoted i (clients (fst s))"
    "mc' = (fst s)\<lparr>mc_Client := mc_Client mc', mc_Backups := mc_Backups mc'\<rparr>"
    using reorderRPCs_law [OF assms(3)] by blast
  have att: "attempt op i c s = (None, (mc', w))" using w mc(1) by (simp add: attempt_def)
  have "r = None \<and> t = (mc', w)" using assms(1) att by (cases rule: tries.cases) auto
  then show ?thesis using mc(2,3) by simp
qed

lemma tries_down:
  assumes "tries (attempt op i c) s r t" "\<And>w. fst (op c w) \<noteq> None"
  shows "r \<noteq> None \<and> fst t = fst s"
  using assms(1)
proof induction
  case (tries_ok s t)
  then show ?case using assms(2) [of "snd s"] by (auto simp: attempt_def split: prod.splits option.splits)
next
  case (tries_stop s e t e')
  then show ?case using assms(2) [of "snd s"] by (auto simp: attempt_def split: prod.splits option.splits)
next
  case (tries_again s e t r u)
  then show ?case using assms(2) [of "snd s"] by (auto simp: attempt_def split: prod.splits option.splits)
qed

lemma try_clients_law:
  assumes retry: "retry_ok retry" and up: "\<And>c w. fst (op c w) = None \<longleftrightarrow> up c"
  shows "k + length cs \<le> length (clients (fst s)) \<Longrightarrow>
    (case index_where up cs of
       None \<Rightarrow> \<exists>w. try_clients retry cfg op k cs s = (Some AllBackupsFailed, (fst s, w))
     | Some i \<Rightarrow> \<exists>mc w. try_clients retry cfg op k cs s = (None, (mc, w)) \<and>
         clients mc = promoted (k + i) (clients (fst s)) \<and>
         mc = (fst s)\<lparr>mc_Client := mc_Client mc, mc_Backups := mc_Backups mc\<rparr>)"
proof (induction cs arbitrary: k s)
  case Nil
  then show ?case by (cases s) simp
next
  case (Cons c cs)
  obtain r t where rt: "retry cfg (attempt op k c) s = (r, t)" by (cases "retry cfg (attempt op k c) s")
  have tries: "tries (attempt op k c) s r t" using retry rt unfolding retry_ok_def by (metis fst_conv snd_conv)
  show ?case
  proof (cases "up c")
    case True
    then have "\<And>w. fst (op c w) = None" using up by blast
    from tries_up [OF tries this] Cons.prems
    have "r = None" "clients (fst t) = promoted k (clients (fst s))"
      "fst t = (fst s)\<lparr>mc_Client := mc_Client (fst t), mc_Backups := mc_Backups (fst t)\<rparr>" by simp_all
    then show ?thesis using True rt by (cases t) simp
  next
    case False
    then have "\<And>w. fst (op c w) \<noteq> None" using up by blast
    from tries_down [OF tries this] obtain e where r: "r = Some e" and t: "fst t = fst s" by blast
    have "try_clients retry cfg op k (c # cs) s = try_clients retry cfg op (k + 1) cs t" using rt r by simp
    moreover have "index_where up (c # cs) = map_option Suc (index_where up cs)" using False by simp
    ultimately show ?thesis
      using Cons.IH [of "k + 1" t] Cons.prems unfolding t by (cases "index_where up cs") auto
  qed
qed

text \<open>
  C33: the failover of a single caller, while each endpoint is either up or down. A call succeeds
  exactly when some endpoint is up; then the first that is up, in the order of the primary and the
  backups, becomes the primary, the untried backups move up and the failed ones go to the end, the
  failed primary last. A call that fails changes nothing but the world. The retries of one endpoint end, as they do
  with a bounded number of attempts.
\<close>

theorem retryWithBackups_failover:
  assumes "retry_ok retry" "\<And>c w. fst (op c w) = None \<longleftrightarrow> up c"
  shows "case index_where up (clients mc) of
      None \<Rightarrow> \<exists>w'. retryWithBackups retry op (mc, w) = (Some AllBackupsFailed, (mc, w'))
    | Some i \<Rightarrow> \<exists>mc' w'. retryWithBackups retry op (mc, w) = (None, (mc', w')) \<and>
        clients mc' = (if i = 0 then clients mc
          else clients mc ! i # drop (i + 1) (clients mc) @ tl (take i (clients mc)) @ [mc_Client mc]) \<and>
        mc_RetryConfig mc' = mc_RetryConfig mc \<and> mc_maxTxGasLimit mc' = mc_maxTxGasLimit mc"
proof -
  note law = try_clients_law [where op = op and up = up and retry = retry and k = 0 and cs = "clients mc"
      and s = "(mc, w)" and cfg = "mc_RetryConfig mc", OF assms]
  show ?thesis
  proof (cases "index_where up (clients mc)")
    case None
    then show ?thesis using law by (simp add: retryWithBackups_def)
  next
    case (Some i)
    then obtain mc' w' where r: "retryWithBackups retry op (mc, w) = (None, (mc', w'))"
      and order: "clients mc' = promoted i (clients mc)"
      and same: "mc' = mc\<lparr>mc_Client := mc_Client mc', mc_Backups := mc_Backups mc'\<rparr>"
      using law by (auto simp: retryWithBackups_def)
    have "mc_RetryConfig mc' = mc_RetryConfig mc" "mc_maxTxGasLimit mc' = mc_maxTxGasLimit mc"
      by (subst same, simp)+
    then show ?thesis using Some r order by (simp add: promoted_def clients_def)
  qed
qed

text \<open>Two endpoints, the first of which is down, and a retry library that never retries.\<close>

definition no_retry :: "('c, 'e, 'w) retry_lib" where
  "no_retry cfg f s = f s"

lemma tries_once: "tries f s (fst (f s)) (snd (f s))"
proof -
  obtain r t where "f s = (r, t)" by (cases "f s")
  then show ?thesis by (cases r) (auto intro: tries.tries_ok tries.tries_stop)
qed

lemma no_retry_ok: "retry_ok no_retry"
  unfolding retry_ok_def no_retry_def by (intro allI tries_once)

definition example_client :: "(nat, unit) multi_client" where
  "example_client = \<lparr>mc_Client = 0, mc_Backups = [1, 2], mc_RetryConfig = defaultRetryConfig, mc_maxTxGasLimit = 0\<rparr>"

theorem retryWithBackups_failover_witness:
  "\<exists>mc w. retryWithBackups no_retry (\<lambda>c w. (if c = 0 then Some () else None, w)) (example_client, ()) = (None, (mc, w)) \<and>
     clients mc = [1, 2, 0]"
proof -
  have up: "\<And>c w. fst ((if c = 0 then Some () else None, w)) = None \<longleftrightarrow> c \<noteq> (0 :: nat)" by simp
  show ?thesis
    using retryWithBackups_failover [where retry = no_retry and op = "\<lambda>c w. (if c = 0 then Some () else None, w)"
        and up = "\<lambda>c. c \<noteq> (0 :: nat)" and mc = example_client and w = "()", OF no_retry_ok up]
    by (auto simp: example_client_def clients_def)
qed

section \<open>Several callers\<close>

lemma call_step_inv:
  assumes "call_step ev p = Some q" "mset (clients (po_mc p)) = M"
    and "\<And>k cs i. po_calls p k = Some (cs, i) \<Longrightarrow> mset cs = M"
  shows "mset (clients (po_mc q)) = M \<and> (\<forall>k cs i. po_calls q k = Some (cs, i) \<longrightarrow> mset cs = M)"
proof (cases ev)
  case (SucceedOn k)
  then obtain cs i mc where k: "po_calls p k = Some (cs, i)" "i < length cs" "reorderRPCs i (po_mc p) = Some mc"
    "q = p\<lparr>po_mc := mc, po_calls := (po_calls p)(k := None)\<rparr>"
    using assms(1) by (auto simp: call_step_def split: option.splits if_splits)
  have "length cs = length (clients (po_mc p))" using assms(2,3) k(1) by (metis size_mset)
  then have "clients mc = promoted i (clients (po_mc p))" "i < length (clients (po_mc p))"
    using reorderRPCs_law [of i "po_mc p"] k(2,3) by auto
  then show ?thesis using assms(2,3) k(4) by (auto simp: mset_promoted split: if_splits)
qed (use assms in \<open>auto simp: call_step_def split: option.splits if_splits\<close>)

lemma call_run_inv:
  "call_run evs p = Some q \<Longrightarrow> mset (clients (po_mc p)) = M \<Longrightarrow>
   (\<And>k cs i. po_calls p k = Some (cs, i) \<Longrightarrow> mset cs = M) \<Longrightarrow>
   mset (clients (po_mc q)) = M \<and> (\<forall>k cs i. po_calls q k = Some (cs, i) \<longrightarrow> mset cs = M)"
proof (induction evs arbitrary: p)
  case (Cons ev evs)
  then obtain p' where p': "call_step ev p = Some p'" "call_run evs p' = Some q" by (auto split: option.splits)
  have "mset (clients (po_mc p')) = M \<and> (\<forall>k cs i. po_calls p' k = Some (cs, i) \<longrightarrow> mset cs = M)"
    by (rule call_step_inv [OF p'(1) Cons.prems(2,3)])
  then show ?case using Cons.IH [OF p'(2)] by blast
qed auto

text \<open>
  C34: any interleaving of concurrent calls keeps the clients, each as often as it was there, and the
  index a call reports is always one the reordering accepts: there is no panic, however the list
  changed since the snapshot was taken.
\<close>

theorem concurrent_calls_safe:
  assumes "call_run evs (idle mc) = Some p"
  shows "mset (clients (po_mc p)) = mset (clients mc) \<and>
    (\<forall>k cs i. po_calls p k = Some (cs, i) \<longrightarrow> i < length cs \<longrightarrow> reorderRPCs i (po_mc p) \<noteq> None)"
proof -
  have inv: "mset (clients (po_mc p)) = mset (clients mc) \<and>
      (\<forall>k cs i. po_calls p k = Some (cs, i) \<longrightarrow> mset cs = mset (clients mc))"
    by (rule call_run_inv [OF assms]) (auto simp: idle_def)
  have "reorderRPCs i (po_mc p) \<noteq> None" if "po_calls p k = Some (cs, i)" "i < length cs" for k cs i
  proof -
    have "length cs = length (clients (po_mc p))" using inv that(1) by (metis size_mset)
    then show ?thesis using reorderRPCs_law [of i "po_mc p"] that(2) by auto
  qed
  then show ?thesis using inv by blast
qed

theorem concurrent_calls_safe_witness:
  "\<exists>p. call_run [BeginCall 1, FailOn 1] (idle example_client) = Some p \<and> mset (clients (po_mc p)) = {#0, 1, 2#}"
proof -
  obtain p where p: "call_run [BeginCall 1, FailOn 1] (idle example_client) = Some p"
    by (simp add: call_step_def idle_def clients_def example_client_def)
  have "mset (clients example_client) = {#0, 1, 2#}" by (simp add: clients_def example_client_def)
  then show ?thesis using concurrent_calls_safe [OF p] p by auto
qed

text \<open>
  But the index is not the client it stood for. Of two calls in flight that both fail on a
  primary and succeed on its only backup, the second undoes the failover of the first: the endpoint
  that failed both times is the primary again.
\<close>

lemma concurrent_failover_undone:
  assumes "mc_Backups mc = [b]"
  shows "\<exists>p q. call_run [BeginCall 1, BeginCall 2, FailOn 1, FailOn 2, SucceedOn 1] (idle mc) = Some p \<and>
    clients (po_mc p) = [b, mc_Client mc] \<and> call_run [SucceedOn 2] p = Some q \<and> clients (po_mc q) = [mc_Client mc, b]"
  using assms by (simp add: call_step_def idle_def clients_def reorderRPCs_def Let_def)

lemma concurrent_failover_undone_witness:
  "\<exists>p q. call_run [BeginCall 1, BeginCall 2, FailOn 1, FailOn 2, SucceedOn 1]
       (idle (example_client\<lparr>mc_Backups := [1]\<rparr>)) = Some p \<and> call_run [SucceedOn 2] p = Some q \<and> clients (po_mc q) = [0, 1]"
  using concurrent_failover_undone [of "example_client\<lparr>mc_Backups := [1]\<rparr>" 1] by (auto simp: example_client_def)

section \<open>Fees\<close>

text \<open>
  The gas settings of a transaction, when they are applied without error. The gas limit is the
  configured one under the cap; with a gas price set, either the header has no base fee and the
  price is the legacy one, or the fee cap is the price and covers the base fee and the tip.
\<close>

lemma ApplyDefaults_fees:
  assumes "ApplyDefaults client cfg (Some opts) = (None, r)"
  shows "\<exists>o'. r = Some o' \<and>
    to_GasLimit o' = (if gc_DefaultGasLimit cfg > 0 then CapGasLimit (gc_DefaultGasLimit cfg) (gc_MaxTxGasLimit cfg) else to_GasLimit opts) \<and>
    (if gc_DefaultGasPriceWei cfg = 0 then o' = opts\<lparr>to_GasLimit := to_GasLimit o'\<rparr>
     else \<exists>c. client = Some c \<and>
       ((gcl_Header c = Inr (Some None) \<and> to_GasPrice o' = Some (uint (gc_DefaultGasPriceWei cfg)) \<and>
          to_GasFeeCap o' = None \<and> to_GasTipCap o' = None) \<or>
        (\<exists>baseFee tip. gcl_Header c = Inr (Some (Some baseFee)) \<and> to_GasPrice o' = None \<and>
          to_GasFeeCap o' = Some (uint (gc_DefaultGasPriceWei cfg)) \<and> to_GasTipCap o' = Some tip \<and>
          baseFee + tip \<le> uint (gc_DefaultGasPriceWei cfg))))"
  using assms
  by (cases client)
    (auto simp: ApplyDefaults_def applyGasPrice_def applyLegacyGasPrice_def weiToBigInt_def Let_def ret_def fail_def
      split: if_splits sum.splits option.splits prod.splits)

lemma ApplyDefaults_fees_witness:
  "\<exists>o'. ApplyDefaults (Some \<lparr>gcl_Header = Inr (Some (Some 30)), gcl_SuggestTip = (Inr (Some 50) :: unit + int option)\<rparr>)
      \<lparr>gc_DefaultGasLimit = 10, gc_DefaultGasPriceWei = 70, gc_DefaultGasTipCapWei = 0, gc_MaxTxGasLimit = 8\<rparr>
      (Some \<lparr>to_GasLimit = 0, to_GasPrice = None, to_GasTipCap = None, to_GasFeeCap = None\<rparr>) = (None, Some o') \<and>
    to_GasLimit o' = 8 \<and> to_GasFeeCap o' = Some 70"
proof -
  let ?c = "\<lparr>gcl_Header = Inr (Some (Some 30)), gcl_SuggestTip = (Inr (Some 50) :: unit + int option)\<rparr>"
  let ?cfg = "\<lparr>gc_DefaultGasLimit = 10, gc_DefaultGasPriceWei = 70, gc_DefaultGasTipCapWei = 0, gc_MaxTxGasLimit = 8\<rparr>"
  let ?opts = "\<lparr>to_GasLimit = 0, to_GasPrice = None, to_GasTipCap = None, to_GasFeeCap = None\<rparr>"
  obtain r where r: "ApplyDefaults (Some ?c) ?cfg (Some ?opts) = (None, r)"
    by (simp add: ApplyDefaults_def applyGasPrice_def weiToBigInt_def ret_def Let_def)
  from ApplyDefaults_fees [OF r] obtain o' where "r = Some o'" "to_GasLimit o' = 8" "to_GasFeeCap o' = Some 70"
    by (auto simp: CapGasLimit_def)
  then show ?thesis using r by blast
qed

end
