(* ===== verification/Changeset_Output.thy ===== *)
theory Changeset_Output
  imports Address_Book Data_Store Op_Report
begin

text \<open>
  What a changeset returns (\<open>deployment/changeset.go\<close>): the record \<open>ChangesetOutput\<close>, changesets
  made from two functions, and the merge of one output into another.

  An address book is a shared object: an output and the environment hold references to books, and
  the books themselves are a map from references. The other fields are values. A slice is an
  \<open>option\<close>, \<open>None\<close> for nil.
\<close>

section \<open>Changesets\<close>

text \<open>A changeset acts on a world; its output comes with an optional error.\<close>

record ('env, 'c, 'o, 'e, 'w) simpleChangeSet =
  scs_apply :: "'env \<Rightarrow> 'c \<Rightarrow> 'w \<Rightarrow> ('o \<times> 'e option) \<times> 'w"
  scs_verify :: "'env \<Rightarrow> 'c \<Rightarrow> 'w \<Rightarrow> 'e option \<times> 'w"

definition simpleChangeSet_Apply ::
  "('env, 'c, 'o, 'e, 'w) simpleChangeSet \<Rightarrow> 'env \<Rightarrow> 'c \<Rightarrow> 'w \<Rightarrow> ('o \<times> 'e option) \<times> 'w" where
  "simpleChangeSet_Apply scs e config w = scs_apply scs e config w"

definition simpleChangeSet_VerifyPreconditions ::
  "('env, 'c, 'o, 'e, 'w) simpleChangeSet \<Rightarrow> 'env \<Rightarrow> 'c \<Rightarrow> 'w \<Rightarrow> 'e option \<times> 'w" where
  "simpleChangeSet_VerifyPreconditions scs e config w = scs_verify scs e config w"

definition CreateChangeSet ::
  "('env \<Rightarrow> 'c \<Rightarrow> 'w \<Rightarrow> ('o \<times> 'e option) \<times> 'w) \<Rightarrow> ('env \<Rightarrow> 'c \<Rightarrow> 'w \<Rightarrow> 'e option \<times> 'w) \<Rightarrow>
   ('env, 'c, 'o, 'e, 'w) simpleChangeSet" where
  "CreateChangeSet applyFunc verifyFunc = \<lparr>scs_apply = applyFunc, scs_verify = verifyFunc\<rparr>"

definition CreateLegacyChangeSet ::
  "('env \<Rightarrow> 'c \<Rightarrow> 'w \<Rightarrow> ('o \<times> 'e option) \<times> 'w) \<Rightarrow> ('env, 'c, 'o, 'e, 'w) simpleChangeSet" where
  "CreateLegacyChangeSet changeset =
     \<lparr>scs_apply = (\<lambda>e config w. changeset e config w), scs_verify = (\<lambda>e config w. (None, w))\<rparr>"

section \<open>Outputs\<close>

record proposed_job =
  pj_JobID :: string
  pj_Node :: string
  pj_Spec :: string

record ('v, 'tp, 'mp) changeset_output =
  co_JobSpecs :: "(string \<rightharpoonup> string list) option"
  co_Jobs :: "proposed_job list option"
  co_MCMSTimelockProposals :: "'tp list option"
  co_DescribedTimelockProposals :: "string list option"
  co_MCMSProposals :: "'mp list option"
  co_AddressBook :: "nat option"
  co_DataStore :: "'v memory_data_store option"
  co_Reports :: "'v report list option"

definition zero_output :: "('v, 'tp, 'mp) changeset_output" where
  "zero_output =
     \<lparr>co_JobSpecs = None, co_Jobs = None, co_MCMSTimelockProposals = None, co_DescribedTimelockProposals = None,
      co_MCMSProposals = None, co_AddressBook = None, co_DataStore = None, co_Reports = None\<rparr>"

type_synonym 'v books = "nat \<Rightarrow> 'v address_book"

text \<open>\<open>Merge\<close> of the book at \<open>src\<close> into the book at \<open>dest\<close>, in an iteration order.\<close>

definition merge_book ::
  "chain_lib \<Rightarrow> book_order \<Rightarrow> nat \<Rightarrow> nat \<Rightarrow> 'v books \<Rightarrow> (book_error, 'v books) eff" where
  "merge_book L order dest src books =
     (case AddressBook_Merge L order (books src) (books dest) of (err, b) \<Rightarrow> (err, books(dest := b)))"

text \<open>The two appends of \<open>MergeChangesetOutput\<close> to a slice that may be nil.\<close>

definition append_slice :: "'a list option \<Rightarrow> 'a list option \<Rightarrow> 'a list option" where
  "append_slice dest src =
     (case dest of
        None \<Rightarrow> src
      | Some xs \<Rightarrow> (case src of None \<Rightarrow> dest | Some ys \<Rightarrow> Some (xs @ ys)))"

datatype merge_error = ErrMergeAddressBook book_error | ErrMergeExistingAddresses book_error

text \<open>
  \<open>existing\<close> is the book \<open>ExistingAddresses\<close> of the environment; \<open>order\<close> and \<open>order'\<close> are the iteration
  orders of the two merges.
\<close>

definition merge_address_books ::
  "chain_lib \<Rightarrow> book_order \<Rightarrow> book_order \<Rightarrow> nat \<Rightarrow> ('v, 'tp, 'mp) changeset_output \<Rightarrow>
   ('v, 'tp, 'mp) changeset_output \<times> 'v books \<Rightarrow> (merge_error, ('v, 'tp, 'mp) changeset_output \<times> 'v books) eff" where
  "merge_address_books L order order' existing src = (\<lambda>(dest, books).
     case co_AddressBook dest of
       None \<Rightarrow> ret (dest\<lparr>co_AddressBook := co_AddressBook src\<rparr>, books)
     | Some d \<Rightarrow>
         (case co_AddressBook src of
            None \<Rightarrow> ret (dest, books)
          | Some r \<Rightarrow>
              (case merge_book L order d r books of
                 (Some e, books) \<Rightarrow> fail (ErrMergeAddressBook e) (dest, books)
               | (None, books) \<Rightarrow>
                   (case merge_book L order' existing r books of
                      (Some e, books) \<Rightarrow> fail (ErrMergeExistingAddresses e) (dest, books)
                    | (None, books) \<Rightarrow> ret (dest, books)))))"

definition merge_slices ::
  "('v, 'tp, 'mp) changeset_output \<Rightarrow> ('v, 'tp, 'mp) changeset_output \<Rightarrow> ('v, 'tp, 'mp) changeset_output" where
  "merge_slices src dest =
     dest\<lparr>co_Jobs := append_slice (co_Jobs dest) (co_Jobs src),
       co_MCMSTimelockProposals := append_slice (co_MCMSTimelockProposals dest) (co_MCMSTimelockProposals src),
       co_DescribedTimelockProposals :=
         append_slice (co_DescribedTimelockProposals dest) (co_DescribedTimelockProposals src),
       co_MCMSProposals := append_slice (co_MCMSProposals dest) (co_MCMSProposals src)\<rparr>"

text \<open>The destination is a pointer, which may be nil.\<close>

definition MergeChangesetOutput ::
  "chain_lib \<Rightarrow> book_order \<Rightarrow> book_order \<Rightarrow> nat \<Rightarrow> ('v, 'tp, 'mp) changeset_output \<Rightarrow>
   ('v, 'tp, 'mp) changeset_output option \<times> 'v books \<Rightarrow>
   (merge_error, ('v, 'tp, 'mp) changeset_output option \<times> 'v books) eff" where
  "MergeChangesetOutput L order order' existing src = (\<lambda>(dest, books).
     case dest of
       None \<Rightarrow> ret (None, books)
     | Some dest \<Rightarrow>
         (case merge_address_books L order order' existing src (dest, books) of
            (Some e, (dest, books)) \<Rightarrow> (Some e, (Some dest, books))
          | (None, (dest, books)) \<Rightarrow> ret (Some (merge_slices src dest), books)))"

section \<open>What a merge keeps\<close>

definition slice :: "'a list option \<Rightarrow> 'a list" where
  "slice xs = (case xs of None \<Rightarrow> [] | Some ys \<Rightarrow> ys)"

lemma slice_append [simp]: "slice (append_slice xs ys) = slice xs @ slice ys"
  by (simp add: slice_def append_slice_def split: option.split)

lemma slice_simps [simp]: "slice None = []" "slice (Some xs) = xs"
  by (simp_all add: slice_def)

text \<open>Merging one book into another, as entries.\<close>

lemma merge_book_law:
  assumes "book_ok L (books r)" "orders_book (books r) order" "merge_book L order d r books = (err, books')"
  shows "err = None \<longleftrightarrow> (\<forall>c a. book_at (books r) c a = None \<or> book_at (books d) c a = None)"
    and "err = None \<or> err = Some ErrAddressExists"
    and "err = None \<Longrightarrow> book_at (books' d) c a = (if book_at (books r) c a \<noteq> None then book_at (books r) c a else book_at (books d) c a)"
    and "k \<noteq> d \<Longrightarrow> books' k = books k"
proof -
  obtain b where b: "AddressBook_Merge L order (books r) (books d) = (err, b)" and eq: "books' = books(d := b)"
    using assms(3) by (auto simp: merge_book_def split: prod.splits)
  note law = Merge_law [OF assms(1,2) b]
  show "err = None \<longleftrightarrow> (\<forall>c a. book_at (books r) c a = None \<or> book_at (books d) c a = None)"
    and "err = None \<or> err = Some ErrAddressExists"
    by (fact law(1), fact law(2))
  show "err = None \<Longrightarrow> book_at (books' d) c a = (if book_at (books r) c a \<noteq> None then book_at (books r) c a else book_at (books d) c a)"
    using law(3) eq by simp
  show "k \<noteq> d \<Longrightarrow> books' k = books k" using eq by simp
qed

text \<open>
  Merging an output into another one that has an address book, for different books that are
  well-formed. It fails exactly when an address of the source is already in the book of the destination
  or in the one of the environment. Otherwise both books gain exactly the addresses of the source, the
  jobs and proposals of the source follow those of the destination, and what the source has of the data
  store, the job specifications and the reports is lost.
\<close>

lemma MergeChangesetOutput_books:
  assumes "book_ok L (books r)" "orders_book (books r) order" "orders_book (books r) order'"
    and "co_AddressBook dest = Some d" "co_AddressBook src = Some r" "distinct [d, r, existing]"
  shows "case MergeChangesetOutput L order order' existing src (Some dest, books) of
      (Some e, _) \<Rightarrow> \<exists>c a. book_at (books r) c a \<noteq> None \<and> (book_at (books d) c a \<noteq> None \<or> book_at (books existing) c a \<noteq> None)
    | (None, out, books') \<Rightarrow>
        (\<forall>c a. book_at (books r) c a = None \<or> book_at (books d) c a = None \<and> book_at (books existing) c a = None) \<and>
        (\<forall>k. k \<in> {d, existing} \<longrightarrow> (\<forall>c a. book_at (books' k) c a =
            (if book_at (books r) c a \<noteq> None then book_at (books r) c a else book_at (books k) c a))) \<and>
        (\<forall>k. k \<notin> {d, existing} \<longrightarrow> books' k = books k) \<and>
        (\<exists>o'. out = Some o' \<and> slice (co_Jobs o') = slice (co_Jobs dest) @ slice (co_Jobs src) \<and>
          slice (co_MCMSTimelockProposals o') = slice (co_MCMSTimelockProposals dest) @ slice (co_MCMSTimelockProposals src) \<and>
          slice (co_DescribedTimelockProposals o') = slice (co_DescribedTimelockProposals dest) @ slice (co_DescribedTimelockProposals src) \<and>
          slice (co_MCMSProposals o') = slice (co_MCMSProposals dest) @ slice (co_MCMSProposals src) \<and>
          co_AddressBook o' = Some d \<and> co_DataStore o' = co_DataStore dest \<and> co_JobSpecs o' = co_JobSpecs dest \<and>
          co_Reports o' = co_Reports dest)"
proof -
  obtain e1 b1 where m1: "merge_book L order d r books = (e1, b1)" by fastforce
  note law1 = merge_book_law [OF assms(1,2) m1]
  have same: "b1 r = books r" "b1 existing = books existing" using law1(4) assms(6) by auto
  obtain e2 b2 where m2: "merge_book L order' existing r b1 = (e2, b2)" by fastforce
  have "book_ok L (b1 r)" "orders_book (b1 r) order'" using assms(1,3) same by simp_all
  note law2 = merge_book_law [OF this m2, unfolded same]
  show ?thesis
  proof (cases e1)
    case (Some e)
    then show ?thesis
      using law1(1) m1 assms(4,5) by (auto simp: MergeChangesetOutput_def merge_address_books_def fail_def)
  next
    case None
    show ?thesis
    proof (cases e2)
      case (Some e)
      then show ?thesis
        using law2(1) m1 m2 None assms(4,5) by (auto simp: MergeChangesetOutput_def merge_address_books_def fail_def)
    next
      case e2: None
      have eq: "MergeChangesetOutput L order order' existing src (Some dest, books) = (None, Some (merge_slices src dest), b2)"
        using m1 m2 None e2 assms(4,5) by (simp add: MergeChangesetOutput_def merge_address_books_def ret_def)
      have disj: "book_at (books r) c a = None \<or> book_at (books d) c a = None \<and> book_at (books existing) c a = None" for c a
        using law1(1) law2(1) None e2 by blast
      have d: "book_at (b2 d) c a = (if book_at (books r) c a \<noteq> None then book_at (books r) c a else book_at (books d) c a)" for c a
        using law1(3) [OF None] law2(4) [of d] assms(6) by auto
      have ex: "book_at (b2 existing) c a =
          (if book_at (books r) c a \<noteq> None then book_at (books r) c a else book_at (books existing) c a)" for c a
        using law2(3) [OF e2] by blast
      have rest: "b2 k = books k" if "k \<notin> {d, existing}" for k using law1(4) [of k] law2(4) [of k] that by simp
      show ?thesis
        unfolding eq prod.case option.case
        using disj d ex rest assms(4) by (auto simp: merge_slices_def)
    qed
  qed
qed

text \<open>Two outputs with one address each, and empty books elsewhere.\<close>

definition output_of :: "nat \<Rightarrow> (nat, unit, unit) changeset_output" where
  "output_of r = zero_output\<lparr>co_AddressBook := Some r, co_Jobs := Some [\<lparr>pj_JobID = ''j'', pj_Node = ''n'', pj_Spec = ''s''\<rparr>]\<rparr>"

definition example_books :: "nat books" where
  "example_books k = (if k = 1 then [1 \<mapsto> [''0xA'' \<mapsto> NewTypeAndVersion ''T'' 1]]
     else if k = 2 then [2 \<mapsto> [''S'' \<mapsto> NewTypeAndVersion ''T'' 1]] else Map.empty)"

lemma example_books_ok:
  "book_ok example_chains (example_books 1)" "orders_book (example_books 1) [(1, [''0xA''])]"
  "book_ok example_chains (example_books 2)" "orders_book (example_books 2) [(2, [''S''])]"
  by (auto simp: book_ok_def book_at_def example_books_def example_chains_def checked_address_def orders_book_def
      iteration_of_def NewTypeAndVersion_def split: option.splits if_splits)

lemma MergeChangesetOutput_books_witness:
  "\<exists>o' books'. MergeChangesetOutput example_chains [(2, [''S''])] [(2, [''S''])] 0 (output_of 2)
       (Some (output_of 1), example_books) = (None, Some o', books') \<and>
     book_at (books' 0) 2 ''S'' \<noteq> None \<and> book_at (books' 1) 2 ''S'' \<noteq> None \<and> length (slice (co_Jobs o')) = 2"
proof -
  let ?r = "MergeChangesetOutput example_chains [(2, [''S''])] [(2, [''S''])] 0 (output_of 2)
    (Some (output_of 1), example_books)"
  have out: "co_AddressBook (output_of k) = Some k" for k by (simp add: output_of_def)
  have d: "distinct [1, 2, 0 :: nat]" by simp
  have none: "\<not> (\<exists>c a. book_at (example_books 2) c a \<noteq> None \<and>
      (book_at (example_books 1) c a \<noteq> None \<or> book_at (example_books 0) c a \<noteq> None))"
    by (auto simp: book_at_def example_books_def split: option.splits if_splits)
  have entry: "book_at (example_books 2) 2 ''S'' = Some (NewTypeAndVersion ''T'' 1)"
    by (simp add: book_at_def example_books_def)
  obtain err out' books' where r: "?r = (err, out', books')" by (cases ?r)
  note law = MergeChangesetOutput_books [where books = example_books and r = 2 and d = 1 and existing = 0 and
      dest = "output_of 1" and src = "output_of 2", OF example_books_ok(3,4,4) out out d, unfolded r prod.case]
  have err: "err = None" using law none by (cases err) (simp_all only: option.case)
  note law = law [unfolded err option.case]
  then obtain o' where "out' = Some o'" "slice (co_Jobs o') = slice (co_Jobs (output_of 1)) @ slice (co_Jobs (output_of 2))"
    by blast
  moreover have "book_at (books' k) 2 ''S'' \<noteq> None" if "k \<in> {1, 0}" for k
    using law that by (simp only: entry) auto
  ultimately show ?thesis using r err by (simp add: output_of_def)
qed

text \<open>
  C40: the first output merged into an empty one. The result holds the very book of that output, and the
  environment does not get its addresses; when a second output is merged, its addresses are written
  into the book of the first output as well.
\<close>

theorem MergeChangesetOutput_shares_first_book:
  assumes "book_ok L (books r2)" "orders_book (books r2) order" "orders_book (books r2) order'"
    and "co_AddressBook o1 = Some r1" "co_AddressBook o2 = Some r2" "distinct [r1, r2, existing]"
    and "\<And>c a. book_at (books r2) c a = None \<or> book_at (books r1) c a = None \<and> book_at (books existing) c a = None"
  shows "\<exists>d books'. MergeChangesetOutput L order0 order0' existing o1 (Some zero_output, books) = (None, Some d, books) \<and>
    fst (MergeChangesetOutput L order order' existing o2 (Some d, books)) = None \<and>
    snd (snd (MergeChangesetOutput L order order' existing o2 (Some d, books))) = books' \<and>
    (\<forall>c a. book_at (books' r1) c a = (if book_at (books r2) c a \<noteq> None then book_at (books r2) c a else book_at (books r1) c a)) \<and>
    (\<forall>c a. book_at (books' existing) c a =
      (if book_at (books r2) c a \<noteq> None then book_at (books r2) c a else book_at (books existing) c a))"
proof -
  let ?d = "merge_slices o1 (zero_output\<lparr>co_AddressBook := co_AddressBook o1\<rparr>)"
  have first: "MergeChangesetOutput L order0 order0' existing o1 (Some zero_output, books) = (None, Some ?d, books)"
    by (simp add: MergeChangesetOutput_def merge_address_books_def zero_output_def ret_def)
  have d: "co_AddressBook ?d = Some r1" using assms(4) by (simp add: merge_slices_def)
  obtain e1 b1 where m1: "merge_book L order r1 r2 books = (e1, b1)" by fastforce
  note law1 = merge_book_law [OF assms(1,2) m1]
  have same: "b1 r2 = books r2" "b1 existing = books existing" using law1(4) assms(6) by auto
  obtain e2 b2 where m2: "merge_book L order' existing r2 b1 = (e2, b2)" by fastforce
  have "book_ok L (b1 r2)" "orders_book (b1 r2) order'" using assms(1,3) same by simp_all
  note law2 = merge_book_law [OF this m2, unfolded same]
  have "book_at (books r2) c a = None \<or> book_at (books r1) c a = None" for c a using assms(7) [of c a] by auto
  then have e1: "e1 = None" unfolding law1(1) by simp
  have "book_at (books r2) c a = None \<or> book_at (books existing) c a = None" for c a using assms(7) [of c a] by auto
  then have e2: "e2 = None" unfolding law2(1) by simp
  have second: "MergeChangesetOutput L order order' existing o2 (Some ?d, books) = (None, Some (merge_slices o2 ?d), b2)"
    using m1 m2 e1 e2 d assms(5) by (simp add: MergeChangesetOutput_def merge_address_books_def ret_def)
  have "b2 r1 = b1 r1" using law2(4) [of r1] assms(6) by auto
  then show ?thesis
    using first second law1(3) [OF e1] law2(3) [OF e2] by auto
qed

theorem MergeChangesetOutput_shares_first_book_witness:
  "\<exists>d books'. MergeChangesetOutput example_chains [] [] 0 (output_of 1) (Some zero_output, example_books) = (None, Some d, books') \<and>
     book_at (books' 0) 1 ''0xA'' = None \<and>
     book_at (snd (snd (MergeChangesetOutput example_chains [(2, [''S''])] [(2, [''S''])] 0 (output_of 2)
       (Some d, example_books))) 1) 2 ''S'' \<noteq> None"
proof -
  have out: "co_AddressBook (output_of k) = Some k" for k by (simp add: output_of_def)
  have d: "distinct [1, 2, 0 :: nat]" by simp
  have "book_at (example_books 2) c a = None \<or> book_at (example_books 1) c a = None \<and> book_at (example_books 0) c a = None" for c a
    by (auto simp: book_at_def example_books_def split: option.splits if_splits)
  from MergeChangesetOutput_shares_first_book [where books = example_books and ?r2.0 = 2 and ?r1.0 = 1 and existing = 0 and
      ?o1.0 = "output_of 1" and ?o2.0 = "output_of 2" and ?order0.0 = "[]" and order0' = "[]",
      OF example_books_ok(3,4,4) out out d this]
  obtain d where "MergeChangesetOutput example_chains [] [] 0 (output_of 1) (Some zero_output, example_books) = (None, Some d, example_books)"
    "\<forall>c a. book_at (snd (snd (MergeChangesetOutput example_chains [(2, [''S''])] [(2, [''S''])] 0 (output_of 2)
       (Some d, example_books))) 1) c a =
      (if book_at (example_books 2) c a \<noteq> None then book_at (example_books 2) c a else book_at (example_books 1) c a)"
    by blast
  moreover have "book_at (example_books 2) 2 ''S'' \<noteq> None" "book_at (example_books 0) 1 ''0xA'' = None"
    by (simp_all add: book_at_def example_books_def)
  ultimately show ?thesis by auto
qed

end
