(* ===== verification/Output_Builder.thy ===== *)
theory Output_Builder
  imports Changeset_Output
begin

text \<open>
  The builder of a changeset output with timelock proposals (\<open>deployment/output_builder.go\<close>) and the
  registry of the readers it asks for each chain (\<open>deployment/mcms_registry.go\<close>).

  The readers belong to the products and are functions of the environment; the builder of a proposal
  belongs to the mcms library and is a function of what is set on it. The clock is an argument, in
  nanoseconds since the epoch. A chain family comes from the library of chain selectors (\<open>chain_lib\<close>).
\<close>

section \<open>The input of a proposal\<close>

datatype proposal_action = TimelockActionSchedule | TimelockActionBypass | TimelockActionCancel | OtherAction string

record timelock_input =
  ti_OverridePreviousRoot :: bool
  ti_ValidUntil :: "32 word"
  ti_TimelockDelay :: "64 word"
  ti_TimelockAction :: proposal_action
  ti_Qualifier :: string
  ti_Description :: string

datatype input_error = InvalidAction | NegativeDelay | ValidUntilUnset | ValidUntilTooEarly

text \<open>\<open>Unix\<close> rounds down to seconds; the conversion to \<open>uint32\<close> drops the high bits.\<close>

definition minValidUntil :: "int \<Rightarrow> 32 word" where
  "minValidUntil now = word_of_int ((now + 10 * 60 * 1000000000) div 1000000000)"

definition validateAt :: "timelock_input \<Rightarrow> int \<Rightarrow> input_error option" where
  "validateAt c now =
     (if ti_TimelockAction c \<noteq> TimelockActionSchedule \<and> ti_TimelockAction c \<noteq> TimelockActionBypass \<and>
         ti_TimelockAction c \<noteq> TimelockActionCancel then Some InvalidAction
      else if sint (ti_TimelockDelay c) < 0 then Some NegativeDelay
      else if ti_ValidUntil c = 0 then Some ValidUntilUnset
      else if ti_ValidUntil c < minValidUntil now then Some ValidUntilTooEarly
      else None)"

section \<open>The registry of readers\<close>

record ('env, 'm, 'v, 'e) mcms_reader =
  rd_GetChainMetadata :: "'env \<Rightarrow> u64 \<Rightarrow> timelock_input \<Rightarrow> 'e + 'm"
  rd_GetTimelockRef :: "'env \<Rightarrow> u64 \<Rightarrow> timelock_input \<Rightarrow> 'e + 'v address_ref"
  rd_GetMCMSRef :: "'env \<Rightarrow> u64 \<Rightarrow> timelock_input \<Rightarrow> 'e + 'v address_ref"

datatype registry_error = ErrDuplicateMCMSReader string | ErrEmptyChainFamily | ErrNilMCMSReader

type_synonym ('env, 'm, 'v, 'e) reader_registry = "string \<rightharpoonup> ('env, 'm, 'v, 'e) mcms_reader"

definition newMCMSReaderRegistry :: "('env, 'm, 'v, 'e) reader_registry" where
  "newMCMSReaderRegistry = Map.empty"

text \<open>A nil reader is \<open>None\<close>.\<close>

definition Register ::
  "string \<Rightarrow> ('env, 'm, 'v, 'e) mcms_reader option \<Rightarrow> ('env, 'm, 'v, 'e) reader_registry \<Rightarrow>
   (registry_error, ('env, 'm, 'v, 'e) reader_registry) eff" where
  "Register chainFamily reader r =
     (let chainFamily = trim_space chainFamily in
      if chainFamily = [] then fail ErrEmptyChainFamily r
      else
        case reader of
          None \<Rightarrow> fail ErrNilMCMSReader r
        | Some reader \<Rightarrow>
            if r chainFamily \<noteq> None then fail (ErrDuplicateMCMSReader chainFamily) r
            else ret (r(chainFamily \<mapsto> reader)))"

definition Registry_Get :: "string \<Rightarrow> ('env, 'm, 'v, 'e) reader_registry \<Rightarrow> ('env, 'm, 'v, 'e) mcms_reader option" where
  "Registry_Get chainFamily r = (let chainFamily = trim_space chainFamily in r chainFamily)"

section \<open>Batch operations\<close>

record 'tx batch_operation =
  bo_ChainSelector :: u64
  bo_Transactions :: "'tx list"

definition filterNonEmptyBatchOps :: "'tx batch_operation list \<Rightarrow> 'tx batch_operation list" where
  "filterNonEmptyBatchOps ops = filter (\<lambda>op. length (bo_Transactions op) > 0) ops"

text \<open>The loop over the operations: the transactions of each chain, and the chains in the order first seen.\<close>

definition merge_op ::
  "'tx batch_operation \<Rightarrow> (u64 \<rightharpoonup> 'tx list) \<times> u64 list \<Rightarrow> (u64 \<rightharpoonup> 'tx list) \<times> u64 list" where
  "merge_op op = (\<lambda>(txPerChain, chainOrder).
     if length (bo_Transactions op) = 0 then (txPerChain, chainOrder)
     else
       let c = bo_ChainSelector op;
           chainOrder = (if txPerChain c = None then chainOrder @ [c] else chainOrder);
           txs = (case txPerChain c of None \<Rightarrow> [] | Some txs \<Rightarrow> txs)
       in (txPerChain(c \<mapsto> txs @ bo_Transactions op), chainOrder))"

definition mergeBatchOpsPerChain :: "'tx batch_operation list \<Rightarrow> 'tx batch_operation list" where
  "mergeBatchOpsPerChain ops =
     (case fold merge_op ops (Map.empty, []) of
        (txPerChain, chainOrder) \<Rightarrow>
          map (\<lambda>c. \<lparr>bo_ChainSelector = c, bo_Transactions = the (txPerChain c)\<rparr>) chainOrder)"

text \<open>The only field of \<open>batchOpsConfig\<close> is \<open>mergePerChain\<close>.\<close>

definition WithoutMergeBatchOpsPerChain :: "bool \<Rightarrow> bool" where
  "WithoutMergeBatchOpsPerChain mergePerChain = False"

definition processBatchOps :: "'tx batch_operation list \<Rightarrow> (bool \<Rightarrow> bool) list \<Rightarrow> 'tx batch_operation list" where
  "processBatchOps ops opts =
     (if fold (\<lambda>opt cfg. opt cfg) opts True then mergeBatchOpsPerChain ops else filterNonEmptyBatchOps ops)"

section \<open>The builder\<close>

record 'tx proposal_spec =
  ps_Input :: timelock_input
  ps_BatchOps :: "'tx batch_operation list"

record ('env, 'm, 'v, 'e, 'tx, 'tp, 'mp) output_builder =
  ob_registry :: "('env, 'm, 'v, 'e) reader_registry option"
  ob_environment :: 'env
  ob_proposalSpecs :: "'tx proposal_spec list"
  ob_changesetOutput :: "('v, 'tp, 'mp) changeset_output"

text \<open>What is set on the proposal builder of the mcms library.\<close>

record ('m, 'tx) proposal_fields =
  pf_Version :: string
  pf_Description :: string
  pf_OverridePreviousRoot :: bool
  pf_ValidUntil :: "32 word"
  pf_Delay :: "64 word"
  pf_Action :: proposal_action
  pf_Operations :: "'tx batch_operation list"
  pf_TimelockAddresses :: "u64 \<rightharpoonup> string"
  pf_ChainMetadata :: "u64 \<rightharpoonup> 'm"

datatype 'e build_error =
    ErrInvalidInput input_error
  | ErrChainFamily u64
  | ErrNoReader string
  | ErrGetTimelockRef u64 'e
  | ErrGetChainMetadata u64 'e
  | ErrBuildProposal 'e
  | ErrAtSpec nat "'e build_error"

definition NewOutputBuilder ::
  "'env \<Rightarrow> 'v memory_data_store option \<Rightarrow> ('env, 'm, 'v, 'e, 'tx, 'tp, 'mp) output_builder" where
  "NewOutputBuilder e newDS =
     \<lparr>ob_registry = None, ob_environment = e, ob_proposalSpecs = [],
      ob_changesetOutput = zero_output\<lparr>co_DataStore := newDS\<rparr>\<rparr>"

definition WithMCMSReaderRegistry ::
  "('env, 'm, 'v, 'e) reader_registry option \<Rightarrow> ('env, 'm, 'v, 'e, 'tx, 'tp, 'mp) output_builder \<Rightarrow>
   ('env, 'm, 'v, 'e, 'tx, 'tp, 'mp) output_builder" where
  "WithMCMSReaderRegistry registry b = b\<lparr>ob_registry := registry\<rparr>"

definition WithTimelockProposal ::
  "timelock_input \<Rightarrow> 'tx batch_operation list \<Rightarrow> (bool \<Rightarrow> bool) list \<Rightarrow>
   ('env, 'm, 'v, 'e, 'tx, 'tp, 'mp) output_builder \<Rightarrow> ('env, 'm, 'v, 'e, 'tx, 'tp, 'mp) output_builder" where
  "WithTimelockProposal input ops opts b =
     b\<lparr>ob_proposalSpecs := ob_proposalSpecs b @ [\<lparr>ps_Input = input, ps_BatchOps = processBatchOps ops opts\<rparr>]\<rparr>"

text \<open>The registry of the builder, or the global one.\<close>

definition mcmsRegistry ::
  "('env, 'm, 'v, 'e) reader_registry \<Rightarrow> ('env, 'm, 'v, 'e, 'tx, 'tp, 'mp) output_builder \<Rightarrow>
   ('env, 'm, 'v, 'e) reader_registry" where
  "mcmsRegistry global b = (case ob_registry b of Some r \<Rightarrow> r | None \<Rightarrow> global)"

text \<open>What one chain needs: the address of its timelock and its metadata.\<close>

definition resolve_chain ::
  "chain_lib \<Rightarrow> ('env, 'm, 'v, 'e) reader_registry \<Rightarrow> 'env \<Rightarrow> timelock_input \<Rightarrow> u64 \<Rightarrow> 'e build_error + string \<times> 'm" where
  "resolve_chain L registry env input chainSelector =
     (case cl_family L chainSelector of
        None \<Rightarrow> Inl (ErrChainFamily chainSelector)
      | Some family \<Rightarrow>
          (case Registry_Get family registry of
             None \<Rightarrow> Inl (ErrNoReader family)
           | Some reader \<Rightarrow>
               (case rd_GetTimelockRef reader env chainSelector input of
                  Inl e \<Rightarrow> Inl (ErrGetTimelockRef chainSelector e)
                | Inr timelockRef \<Rightarrow>
                    (case rd_GetChainMetadata reader env chainSelector input of
                       Inl e \<Rightarrow> Inl (ErrGetChainMetadata chainSelector e)
                     | Inr chainMetadata \<Rightarrow> Inr (ar_Address timelockRef, chainMetadata)))))"

fun resolve_ops ::
  "chain_lib \<Rightarrow> ('env, 'm, 'v, 'e) reader_registry \<Rightarrow> 'env \<Rightarrow> timelock_input \<Rightarrow> 'tx batch_operation list \<Rightarrow> u64 list \<Rightarrow>
   (u64 \<rightharpoonup> string) \<Rightarrow> (u64 \<rightharpoonup> 'm) \<Rightarrow> 'e build_error + (u64 \<rightharpoonup> string) \<times> (u64 \<rightharpoonup> 'm)" where
  "resolve_ops L registry env input [] seen timelocks metadata = Inr (timelocks, metadata)"
| "resolve_ops L registry env input (op # ops) seen timelocks metadata =
     (let c = bo_ChainSelector op in
      if c \<in> set seen then resolve_ops L registry env input ops seen timelocks metadata
      else
        case resolve_chain L registry env input c of
          Inl e \<Rightarrow> Inl e
        | Inr (timelock, m) \<Rightarrow>
            resolve_ops L registry env input ops (c # seen) (timelocks(c \<mapsto> timelock)) (metadata(c \<mapsto> m)))"

definition resolveMCMSPerChain ::
  "chain_lib \<Rightarrow> ('env, 'm, 'v, 'e) reader_registry \<Rightarrow> 'env \<Rightarrow> timelock_input \<Rightarrow> 'tx batch_operation list \<Rightarrow>
   'e build_error + (u64 \<rightharpoonup> string) \<times> (u64 \<rightharpoonup> 'm)" where
  "resolveMCMSPerChain L registry env input ops = resolve_ops L registry env input ops [] Map.empty Map.empty"

definition buildTimelockProposal ::
  "chain_lib \<Rightarrow> (('m, 'tx) proposal_fields \<Rightarrow> 'e + 'tp) \<Rightarrow> int \<Rightarrow> ('env, 'm, 'v, 'e) reader_registry \<Rightarrow> 'env \<Rightarrow>
   'tx proposal_spec \<Rightarrow> 'e build_error + 'tp" where
  "buildTimelockProposal L mcms now registry env spec =
     (case validateAt (ps_Input spec) now of
        Some e \<Rightarrow> Inl (ErrInvalidInput e)
      | None \<Rightarrow>
          (case resolveMCMSPerChain L registry env (ps_Input spec) (ps_BatchOps spec) of
             Inl e \<Rightarrow> Inl e
           | Inr (timelockAddresses, chainMetadata) \<Rightarrow>
               (case mcms \<lparr>pf_Version = ''v1'', pf_Description = ti_Description (ps_Input spec),
                    pf_OverridePreviousRoot = ti_OverridePreviousRoot (ps_Input spec),
                    pf_ValidUntil = ti_ValidUntil (ps_Input spec), pf_Delay = ti_TimelockDelay (ps_Input spec),
                    pf_Action = ti_TimelockAction (ps_Input spec), pf_Operations = ps_BatchOps spec,
                    pf_TimelockAddresses = timelockAddresses, pf_ChainMetadata = chainMetadata\<rparr> of
                  Inl e \<Rightarrow> Inl (ErrBuildProposal e)
                | Inr proposal \<Rightarrow> Inr proposal)))"

text \<open>The loop of \<open>Build\<close>; \<open>now i\<close> is the time when it reaches the specification at \<open>i\<close>.\<close>

fun build_specs ::
  "(nat \<Rightarrow> 'tx proposal_spec \<Rightarrow> 'e build_error + 'tp) \<Rightarrow> nat \<Rightarrow> 'tx proposal_spec list \<Rightarrow> 'tp list \<Rightarrow>
   'tp list \<times> 'e build_error option" where
  "build_specs build i [] proposals = (proposals, None)"
| "build_specs build i (spec # specs) proposals =
     (if length (ps_BatchOps spec) = 0 then build_specs build (i + 1) specs proposals
      else
        case build i spec of
          Inl e \<Rightarrow> (proposals, Some (ErrAtSpec i e))
        | Inr proposal \<Rightarrow> build_specs build (i + 1) specs (proposals @ [proposal]))"

text \<open>The result, and the builder with the output it keeps.\<close>

definition Build ::
  "chain_lib \<Rightarrow> (('m, 'tx) proposal_fields \<Rightarrow> 'e + 'tp) \<Rightarrow> (nat \<Rightarrow> int) \<Rightarrow> ('env, 'm, 'v, 'e) reader_registry \<Rightarrow>
   ('env, 'm, 'v, 'e, 'tx, 'tp, 'mp) output_builder \<Rightarrow>
   (('v, 'tp, 'mp) changeset_output \<times> 'e build_error option) \<times> ('env, 'm, 'v, 'e, 'tx, 'tp, 'mp) output_builder" where
  "Build L mcms now global b =
     (case build_specs (\<lambda>i. buildTimelockProposal L mcms (now i) (mcmsRegistry global b) (ob_environment b)) 0
        (ob_proposalSpecs b) [] of
        (proposals, err) \<Rightarrow>
          let out = (ob_changesetOutput b)\<lparr>co_MCMSTimelockProposals := Some proposals\<rparr>
          in ((out, err), b\<lparr>ob_changesetOutput := out\<rparr>))"

section \<open>Validation\<close>

lemma minValidUntil_seconds: "uint (minValidUntil now) = (now div 1000000000 + 600) mod 2 ^ 32"
proof -
  have "(now + 10 * 60 * 1000000000) div 1000000000 = now div 1000000000 + 600"
    using div_mult_self1 [of 1000000000 now 600] by (simp add: add.commute)
  then show ?thesis unfolding minValidUntil_def uint_word_of_int by simp
qed

text \<open>
  Until ten minutes before 2106-02-07 the check of a proposal input accepts exactly the three
  actions, a delay that is not negative, and an expiry at least ten minutes away.
\<close>

lemma validateAt_accepts:
  assumes "0 \<le> now" "now div 1000000000 + 600 < 2 ^ 32"
  shows "validateAt c now = None \<longleftrightarrow>
    ti_TimelockAction c \<in> {TimelockActionSchedule, TimelockActionBypass, TimelockActionCancel} \<and>
    0 \<le> sint (ti_TimelockDelay c) \<and> now div 1000000000 + 600 \<le> uint (ti_ValidUntil c)"
proof -
  have min: "uint (minValidUntil now) = now div 1000000000 + 600"
    using assms by (simp add: minValidUntil_seconds)
  then have "ti_ValidUntil c \<ge> minValidUntil now \<longleftrightarrow> now div 1000000000 + 600 \<le> uint (ti_ValidUntil c)"
    by (simp add: word_le_def)
  moreover have "ti_ValidUntil c \<noteq> 0" if "now div 1000000000 + 600 \<le> uint (ti_ValidUntil c)"
  proof
    assume "ti_ValidUntil c = 0"
    then have "now div 1000000000 + 600 \<le> 0" using that by simp
    moreover have "0 \<le> now div 1000000000" using assms(1) by simp
    ultimately show False by linarith
  qed
  ultimately show ?thesis by (auto simp: validateAt_def not_less)
qed

definition example_input :: timelock_input where
  "example_input =
     \<lparr>ti_OverridePreviousRoot = False, ti_ValidUntil = 1000, ti_TimelockDelay = 60,
      ti_TimelockAction = TimelockActionSchedule, ti_Qualifier = [], ti_Description = ''d''\<rparr>"

lemma validateAt_accepts_witness: "validateAt example_input 400000000000 = None"
  using validateAt_accepts [of 400000000000 example_input] by (simp add: example_input_def)

text \<open>Afterwards the conversion wraps around, and an expiry long past is accepted.\<close>

lemma validateAt_wraps: "validateAt example_input (2 ^ 32 * 1000000000) = None"
  by (simp add: validateAt_def example_input_def minValidUntil_def)

section \<open>Merging batch operations\<close>

text \<open>The chains with a transaction in the order first seen, and all transactions of a chain in order.\<close>

definition first_seen :: "'a list \<Rightarrow> 'a list" where
  "first_seen xs = rev (remdups (rev xs))"

definition chain_transactions :: "u64 \<Rightarrow> 'tx batch_operation list \<Rightarrow> 'tx list" where
  "chain_transactions c ops = concat (map bo_Transactions (filter (\<lambda>op. bo_ChainSelector op = c) ops))"

definition active_chains :: "'tx batch_operation list \<Rightarrow> u64 list" where
  "active_chains ops = map bo_ChainSelector (filter (\<lambda>op. bo_Transactions op \<noteq> []) ops)"

lemma first_seen_simps [simp]:
  "first_seen [] = []" "first_seen (xs @ [x]) = (if x \<in> set xs then first_seen xs else first_seen xs @ [x])"
  by (simp_all add: first_seen_def)

lemma first_seen_distinct [simp]: "distinct (first_seen xs)" "set (first_seen xs) = set xs"
  by (simp_all add: first_seen_def)

lemma first_seen_id: "distinct xs \<Longrightarrow> first_seen xs = xs"
  by (simp add: first_seen_def distinct_remdups_id)

lemma chain_transactions_simps [simp]:
  "chain_transactions c [] = []"
  "chain_transactions c (ops @ [op]) =
     chain_transactions c ops @ (if bo_ChainSelector op = c then bo_Transactions op else [])"
  by (simp_all add: chain_transactions_def)

lemma active_chains_simps [simp]:
  "active_chains [] = []"
  "active_chains (ops @ [op]) = active_chains ops @ (if bo_Transactions op = [] then [] else [bo_ChainSelector op])"
  by (simp_all add: active_chains_def)

lemma active_iff: "c \<in> set (active_chains ops) \<longleftrightarrow> chain_transactions c ops \<noteq> []"
  by (auto simp: active_chains_def chain_transactions_def)

lemma fold_merge_op:
  "fold merge_op ops (Map.empty, []) =
     ((\<lambda>c. if chain_transactions c ops = [] then None else Some (chain_transactions c ops)), first_seen (active_chains ops))"
proof (induction ops rule: rev_induct)
  case Nil
  then show ?case by simp
next
  case (snoc op ops)
  then show ?case by (auto simp: merge_op_def Let_def active_iff fun_eq_iff)
qed

lemma mergeBatchOps_law:
  "mergeBatchOpsPerChain ops =
     map (\<lambda>c. \<lparr>bo_ChainSelector = c, bo_Transactions = chain_transactions c ops\<rparr>) (first_seen (active_chains ops))"
  by (auto simp: mergeBatchOpsPerChain_def fold_merge_op active_iff)

lemma active_chains_grouped:
  "\<forall>c \<in> set cs. f c \<noteq> [] \<Longrightarrow> active_chains (map (\<lambda>c. \<lparr>bo_ChainSelector = c, bo_Transactions = f c\<rparr>) cs) = cs"
  by (induction cs) (auto simp: active_chains_def)

lemma chain_transactions_grouped:
  "distinct cs \<Longrightarrow> chain_transactions c (map (\<lambda>c. \<lparr>bo_ChainSelector = c, bo_Transactions = f c\<rparr>) cs) =
     (if c \<in> set cs then f c else [])"
  by (induction cs) (auto simp: chain_transactions_def)

text \<open>
  C16: merging the batch operations per chain is grouping: one operation for each chain with a
  transaction, in the order the chains first have one, with all transactions of the chain in their
  order; merging again changes nothing.
\<close>

theorem mergeBatchOpsPerChain_groups:
  "mergeBatchOpsPerChain ops =
     map (\<lambda>c. \<lparr>bo_ChainSelector = c, bo_Transactions = chain_transactions c ops\<rparr>) (first_seen (active_chains ops)) \<and>
   mergeBatchOpsPerChain (mergeBatchOpsPerChain ops) = mergeBatchOpsPerChain ops"
proof -
  have "\<forall>c \<in> set (first_seen (active_chains ops)). chain_transactions c ops \<noteq> []" by (simp add: active_iff)
  note act = active_chains_grouped [OF this]
  show ?thesis
    by (auto simp: mergeBatchOps_law act chain_transactions_grouped first_seen_id active_iff)
qed

section \<open>Building\<close>

text \<open>The chains of the operations, each resolved once.\<close>

lemma resolve_ops_law:
  assumes "\<forall>c. c \<notin> set seen \<longrightarrow> tls c = None \<and> md c = None"
  shows "resolve_ops L registry env input ops seen tls md = Inr (tls2, md') \<longleftrightarrow>
    (\<forall>c \<in> bo_ChainSelector ` set ops - set seen. \<exists>r. resolve_chain L registry env input c = Inr r) \<and>
    tls2 = (\<lambda>c. if c \<in> bo_ChainSelector ` set ops - set seen then Some (fst (projr (resolve_chain L registry env input c))) else tls c) \<and>
    md' = (\<lambda>c. if c \<in> bo_ChainSelector ` set ops - set seen then Some (snd (projr (resolve_chain L registry env input c))) else md c)"
  using assms
proof (induction ops arbitrary: seen tls md)
  case Nil
  then show ?case by auto
next
  case (Cons op ops)
  let ?c = "bo_ChainSelector op"
  show ?case
  proof (cases "?c \<in> set seen")
    case True
    then have "bo_ChainSelector ` set (op # ops) - set seen = bo_ChainSelector ` set ops - set seen" by auto
    then show ?thesis using True Cons.IH [OF Cons.prems] by (simp add: Let_def)
  next
    case False
    show ?thesis
    proof (cases "resolve_chain L registry env input ?c")
      case (Inl e)
      then have "\<not> (\<forall>c \<in> bo_ChainSelector ` set (op # ops) - set seen. \<exists>r. resolve_chain L registry env input c = Inr r)"
        using False by force
      moreover have "resolve_ops L registry env input (op # ops) seen tls md = Inl e"
        using Inl False by (simp add: Let_def)
      ultimately show ?thesis by simp
    next
      case (Inr r)
      obtain t m where r: "r = (t, m)" by (cases r)
      have eq: "bo_ChainSelector ` set (op # ops) - set seen = insert ?c (bo_ChainSelector ` set ops - set (?c # seen))"
        using False by auto
      have prem: "\<forall>c. c \<notin> set (?c # seen) \<longrightarrow> (tls(?c \<mapsto> t)) c = None \<and> (md(?c \<mapsto> m)) c = None"
        using Cons.prems by simp
      have maps:
        "(\<lambda>x. if x \<in> insert ?c B then Some (fst (projr (resolve_chain L registry env input x))) else tls x) =
         (\<lambda>x. if x \<in> B then Some (fst (projr (resolve_chain L registry env input x))) else (tls(?c \<mapsto> t)) x)"
        "(\<lambda>x. if x \<in> insert ?c B then Some (snd (projr (resolve_chain L registry env input x))) else md x) =
         (\<lambda>x. if x \<in> B then Some (snd (projr (resolve_chain L registry env input x))) else (md(?c \<mapsto> m)) x)" for B
        using Inr r by (auto simp: fun_eq_iff)
      have all: "(\<forall>c \<in> insert ?c B. \<exists>r. resolve_chain L registry env input c = Inr r) \<longleftrightarrow>
          (\<forall>c \<in> B. \<exists>r. resolve_chain L registry env input c = Inr r)" for B
        using Inr by blast
      have "resolve_ops L registry env input (op # ops) seen tls md =
          resolve_ops L registry env input ops (?c # seen) (tls(?c \<mapsto> t)) (md(?c \<mapsto> m))"
        using False Inr r by (simp add: Let_def)
      then show ?thesis unfolding eq maps all by (simp only: Cons.IH [OF prem])
    qed
  qed
qed

lemma resolveMCMSPerChain_law:
  "resolveMCMSPerChain L registry env input ops = Inr (tls, md) \<longleftrightarrow>
    (\<forall>c \<in> bo_ChainSelector ` set ops. \<exists>r. resolve_chain L registry env input c = Inr r) \<and>
    tls = (\<lambda>c. if c \<in> bo_ChainSelector ` set ops then Some (fst (projr (resolve_chain L registry env input c))) else None) \<and>
    md = (\<lambda>c. if c \<in> bo_ChainSelector ` set ops then Some (snd (projr (resolve_chain L registry env input c))) else None)"
  unfolding resolveMCMSPerChain_def using resolve_ops_law [of "[]" Map.empty Map.empty] by simp

lemma resolve_chain_Inr:
  "resolve_chain L registry env input c = Inr (t, m) \<longleftrightarrow>
   (\<exists>family reader ref. cl_family L c = Some family \<and> Registry_Get family registry = Some reader \<and>
      rd_GetTimelockRef reader env c input = Inr ref \<and> rd_GetChainMetadata reader env c input = Inr m \<and> t = ar_Address ref)"
  by (auto simp: resolve_chain_def split: option.splits sum.splits)

text \<open>
  C15: a proposal that is built. Its input is valid; the timelock addresses and the metadata it was built
  with are there for exactly the chains of its operations, each as the registered reader of the family
  of the chain gives it; the operations are those of the specification.
\<close>

theorem buildTimelockProposal_fields:
  assumes "buildTimelockProposal L mcms now registry env spec = Inr p"
  shows "validateAt (ps_Input spec) now = None \<and>
    (\<exists>fields. mcms fields = Inr p \<and> pf_Operations fields = ps_BatchOps spec \<and>
      pf_ValidUntil fields = ti_ValidUntil (ps_Input spec) \<and> pf_Delay fields = ti_TimelockDelay (ps_Input spec) \<and>
      pf_Action fields = ti_TimelockAction (ps_Input spec) \<and>
      dom (pf_TimelockAddresses fields) = bo_ChainSelector ` set (ps_BatchOps spec) \<and>
      dom (pf_ChainMetadata fields) = bo_ChainSelector ` set (ps_BatchOps spec) \<and>
      (\<forall>c \<in> bo_ChainSelector ` set (ps_BatchOps spec). \<exists>family reader ref m.
        cl_family L c = Some family \<and> Registry_Get family registry = Some reader \<and>
        rd_GetTimelockRef reader env c (ps_Input spec) = Inr ref \<and> pf_TimelockAddresses fields c = Some (ar_Address ref) \<and>
        rd_GetChainMetadata reader env c (ps_Input spec) = Inr m \<and> pf_ChainMetadata fields c = Some m))"
proof -
  have valid: "validateAt (ps_Input spec) now = None"
    using assms by (auto simp: buildTimelockProposal_def split: option.splits)
  obtain tls md where res: "resolveMCMSPerChain L registry env (ps_Input spec) (ps_BatchOps spec) = Inr (tls, md)"
    using assms valid by (auto simp: buildTimelockProposal_def split: sum.splits)
  define fields where "fields = \<lparr>pf_Version = ''v1'', pf_Description = ti_Description (ps_Input spec),
    pf_OverridePreviousRoot = ti_OverridePreviousRoot (ps_Input spec),
    pf_ValidUntil = ti_ValidUntil (ps_Input spec), pf_Delay = ti_TimelockDelay (ps_Input spec),
    pf_Action = ti_TimelockAction (ps_Input spec), pf_Operations = ps_BatchOps spec,
    pf_TimelockAddresses = tls, pf_ChainMetadata = md\<rparr>"
  have built: "mcms fields = Inr p"
    using assms valid res by (auto simp: buildTimelockProposal_def fields_def split: sum.splits)
  have law: "\<forall>c \<in> bo_ChainSelector ` set (ps_BatchOps spec). \<exists>r. resolve_chain L registry env (ps_Input spec) c = Inr r"
    "tls = (\<lambda>c. if c \<in> bo_ChainSelector ` set (ps_BatchOps spec) then Some (fst (projr (resolve_chain L registry env (ps_Input spec) c))) else None)"
    "md = (\<lambda>c. if c \<in> bo_ChainSelector ` set (ps_BatchOps spec) then Some (snd (projr (resolve_chain L registry env (ps_Input spec) c))) else None)"
    using res [unfolded resolveMCMSPerChain_law] by blast+
  have chain: "\<exists>family reader ref m. cl_family L c = Some family \<and> Registry_Get family registry = Some reader \<and>
      rd_GetTimelockRef reader env c (ps_Input spec) = Inr ref \<and> tls c = Some (ar_Address ref) \<and>
      rd_GetChainMetadata reader env c (ps_Input spec) = Inr m \<and> md c = Some m"
    if mem: "c \<in> bo_ChainSelector ` set (ps_BatchOps spec)" for c
  proof -
    obtain t m where r: "resolve_chain L registry env (ps_Input spec) c = Inr (t, m)"
      using law(1) mem by (metis surj_pair)
    have "tls c = Some t" "md c = Some m" unfolding law(2,3) using mem r by simp_all
    then show ?thesis using r [unfolded resolve_chain_Inr] by blast
  qed
  have doms: "dom tls = bo_ChainSelector ` set (ps_BatchOps spec)" "dom md = bo_ChainSelector ` set (ps_BatchOps spec)"
    unfolding law(2,3) by (simp_all add: dom_def)
  have chains: "\<forall>c \<in> bo_ChainSelector ` set (ps_BatchOps spec). \<exists>family reader ref m.
      cl_family L c = Some family \<and> Registry_Get family registry = Some reader \<and>
      rd_GetTimelockRef reader env c (ps_Input spec) = Inr ref \<and> tls c = Some (ar_Address ref) \<and>
      rd_GetChainMetadata reader env c (ps_Input spec) = Inr m \<and> md c = Some m"
    using chain by blast
  have "mcms fields = Inr p \<and> pf_Operations fields = ps_BatchOps spec \<and>
      pf_ValidUntil fields = ti_ValidUntil (ps_Input spec) \<and> pf_Delay fields = ti_TimelockDelay (ps_Input spec) \<and>
      pf_Action fields = ti_TimelockAction (ps_Input spec) \<and>
      dom (pf_TimelockAddresses fields) = bo_ChainSelector ` set (ps_BatchOps spec) \<and>
      dom (pf_ChainMetadata fields) = bo_ChainSelector ` set (ps_BatchOps spec) \<and>
      (\<forall>c \<in> bo_ChainSelector ` set (ps_BatchOps spec). \<exists>family reader ref m.
        cl_family L c = Some family \<and> Registry_Get family registry = Some reader \<and>
        rd_GetTimelockRef reader env c (ps_Input spec) = Inr ref \<and> pf_TimelockAddresses fields c = Some (ar_Address ref) \<and>
        rd_GetChainMetadata reader env c (ps_Input spec) = Inr m \<and> pf_ChainMetadata fields c = Some m)"
    using built doms chains by (simp add: fields_def)
  then show ?thesis by (intro conjI [OF valid] exI [of _ fields])
qed

text \<open>The specifications up to an index, and what they build.\<close>

definition built_before :: "(nat \<Rightarrow> 'tx proposal_spec \<Rightarrow> 'e build_error + 'tp) \<Rightarrow> 'tx proposal_spec list \<Rightarrow> nat \<Rightarrow> 'tp list" where
  "built_before build specs n =
     map (\<lambda>i. projr (build i (specs ! i))) (filter (\<lambda>i. ps_BatchOps (specs ! i) \<noteq> []) [0..<n])"

lemma build_specs_law:
  assumes "build_specs build k specs ps = (ps', err)"
  shows "case err of
      None \<Rightarrow> ps' = ps @ built_before (\<lambda>i. build (k + i)) specs (length specs) \<and>
        (\<forall>i < length specs. ps_BatchOps (specs ! i) \<noteq> [] \<longrightarrow> \<not> isl (build (k + i) (specs ! i)))
    | Some e \<Rightarrow> \<exists>n e'. n < length specs \<and> e = ErrAtSpec (k + n) e' \<and> ps_BatchOps (specs ! n) \<noteq> [] \<and>
        build (k + n) (specs ! n) = Inl e' \<and> ps' = ps @ built_before (\<lambda>i. build (k + i)) specs n \<and>
        (\<forall>i < n. ps_BatchOps (specs ! i) \<noteq> [] \<longrightarrow> \<not> isl (build (k + i) (specs ! i)))"
  using assms
proof (induction specs arbitrary: k ps)
  case Nil
  then show ?case by (simp add: built_before_def)
next
  case (Cons spec specs)
  have shift: "built_before (\<lambda>i. build (k + i)) (spec # specs) (Suc n) =
      (if ps_BatchOps spec = [] then [] else [projr (build k spec)]) @ built_before (\<lambda>i. build (Suc k + i)) specs n" for n
    by (simp add: built_before_def upt_conv_Cons map_Suc_upt [symmetric] filter_map comp_def del: upt_Suc)
  have all: "(\<forall>i < Suc n. P i) \<longleftrightarrow> P 0 \<and> (\<forall>i < n. P (Suc i))" for P n
    by (auto simp: less_Suc_eq_0_disj)
  consider (skip) "ps_BatchOps spec = []" | (err) e where "ps_BatchOps spec \<noteq> []" "build k spec = Inl e"
    | (ok) p where "ps_BatchOps spec \<noteq> []" "build k spec = Inr p" by (cases "build k spec") auto
  then show ?case
  proof cases
    case skip
    then have "build_specs build (Suc k) specs ps = (ps', err)" using Cons.prems by simp
    from Cons.IH [OF this] show ?thesis
    proof (cases err)
      case (Some e)
      then obtain n e' where "n < length specs" "e = ErrAtSpec (Suc k + n) e'" "ps_BatchOps (specs ! n) \<noteq> []"
        "build (Suc k + n) (specs ! n) = Inl e'" "ps' = ps @ built_before (\<lambda>i. build (Suc k + i)) specs n"
        "\<forall>i < n. ps_BatchOps (specs ! i) \<noteq> [] \<longrightarrow> \<not> isl (build (Suc k + i) (specs ! i))"
        using Cons.IH [OF \<open>build_specs build (Suc k) specs ps = (ps', err)\<close>] by auto
      then show ?thesis using Some skip by (auto simp: shift all intro!: exI [of _ "Suc n"])
    qed (use skip in \<open>simp add: shift all\<close>)
  next
    case err
    then show ?thesis using Cons.prems by (auto simp: built_before_def intro!: exI [of _ 0])
  next
    case ok
    then have run: "build_specs build (Suc k) specs (ps @ [p]) = (ps', err)" using Cons.prems by simp
    from Cons.IH [OF this] show ?thesis
    proof (cases err)
      case (Some e)
      then obtain n e' where "n < length specs" "e = ErrAtSpec (Suc k + n) e'" "ps_BatchOps (specs ! n) \<noteq> []"
        "build (Suc k + n) (specs ! n) = Inl e'" "ps' = ps @ [p] @ built_before (\<lambda>i. build (Suc k + i)) specs n"
        "\<forall>i < n. ps_BatchOps (specs ! i) \<noteq> [] \<longrightarrow> \<not> isl (build (Suc k + i) (specs ! i))"
        using Cons.IH [OF run] by auto
      then show ?thesis using Some ok by (auto simp: shift all intro!: exI [of _ "Suc n"])
    qed (use ok in \<open>simp add: shift all\<close>)
  qed
qed

text \<open>
  C14: the output of the builder. Specifications without operations are skipped, each other one is built
  by itself in order. Without an error the proposals are those of all of them; with one, the error names
  the position of the first that cannot be built, and the output has the proposals before it. Everything
  else of the output is what it was.
\<close>

theorem Build_outcome:
  assumes "build = (\<lambda>i. buildTimelockProposal L mcms (now i) (mcmsRegistry global b) (ob_environment b))"
    and "specs = ob_proposalSpecs b" "Build L mcms now global b = ((out, err), b')"
  shows "(\<exists>n. co_MCMSTimelockProposals out = Some (built_before build specs n) \<and>
      (\<forall>i < n. ps_BatchOps (specs ! i) \<noteq> [] \<longrightarrow> \<not> isl (build i (specs ! i))) \<and>
      (case err of
         None \<Rightarrow> n = length specs
       | Some e \<Rightarrow> \<exists>e'. e = ErrAtSpec n e' \<and> n < length specs \<and> ps_BatchOps (specs ! n) \<noteq> [] \<and>
           build n (specs ! n) = Inl e')) \<and>
    out\<lparr>co_MCMSTimelockProposals := x\<rparr> = (ob_changesetOutput b)\<lparr>co_MCMSTimelockProposals := x\<rparr> \<and>
    b' = b\<lparr>ob_changesetOutput := out\<rparr>"
proof -
  obtain ps where run: "build_specs build 0 specs [] = (ps, err)"
    and out: "out = (ob_changesetOutput b)\<lparr>co_MCMSTimelockProposals := Some ps\<rparr>" "b' = b\<lparr>ob_changesetOutput := out\<rparr>"
    using assms(3) unfolding Build_def assms(1,2) [symmetric] by (auto simp: Let_def split: prod.splits)
  have "\<exists>n. ps = built_before build specs n \<and>
      (\<forall>i < n. ps_BatchOps (specs ! i) \<noteq> [] \<longrightarrow> \<not> isl (build i (specs ! i))) \<and>
      (case err of None \<Rightarrow> n = length specs
       | Some e \<Rightarrow> \<exists>e'. e = ErrAtSpec n e' \<and> n < length specs \<and> ps_BatchOps (specs ! n) \<noteq> [] \<and> build n (specs ! n) = Inl e')"
    using build_specs_law [OF run] by (cases err) auto
  then show ?thesis using out by auto
qed

text \<open>Registering a reader and asking for it, with or without surrounding space.\<close>

lemma Register_Get:
  assumes "Register family (Some reader) r = (None, r')"
  shows "Registry_Get f r' = (if trim_space f = trim_space family then Some reader else Registry_Get f r)"
    and "Registry_Get family r = None"
  using assms by (auto simp: Register_def Registry_Get_def Let_def fail_def ret_def split: if_splits)

section \<open>Closed examples\<close>

definition example_reader :: "(unit, nat, nat, unit) mcms_reader" where
  "example_reader =
     \<lparr>rd_GetChainMetadata = (\<lambda>_ _ _. Inr 7), rd_GetTimelockRef = (\<lambda>_ _ _. Inr example_ref),
      rd_GetMCMSRef = (\<lambda>_ _ _. Inr example_ref)\<rparr>"

definition example_readers :: "(unit, nat, nat, unit) reader_registry" where
  "example_readers = [''evm'' \<mapsto> example_reader]"

definition example_spec :: "nat proposal_spec" where
  "example_spec =
     \<lparr>ps_Input = example_input, ps_BatchOps = [\<lparr>bo_ChainSelector = 1, bo_Transactions = [5]\<rparr>]\<rparr>"

definition example_mcms :: "(nat, nat) proposal_fields \<Rightarrow> unit + nat list" where
  "example_mcms pf = Inr (concat (map bo_Transactions (pf_Operations pf)))"

lemma trim_evm: "trim_space ''evm'' = ''evm''"
  by (rule trim_space_plain) (simp add: is_space_def)

lemma example_spec_builds:
  "buildTimelockProposal example_chains example_mcms 400000000000 example_readers () example_spec = Inr [5]"
  by (simp add: buildTimelockProposal_def validateAt_def example_spec_def example_input_def minValidUntil_def
      resolveMCMSPerChain_def resolve_chain_def example_chains_def Registry_Get_def trim_evm example_readers_def
      example_reader_def example_mcms_def)

theorem buildTimelockProposal_fields_witness:
  "\<exists>fields. example_mcms fields = Inr [5] \<and> dom (pf_TimelockAddresses fields) = {1}"
  using buildTimelockProposal_fields [OF example_spec_builds] by (auto simp: example_spec_def)

definition example_builder :: "(unit, nat, nat, unit, nat, nat list, unit) output_builder" where
  "example_builder =
     (NewOutputBuilder () None)\<lparr>ob_registry := Some example_readers,
       ob_proposalSpecs := [\<lparr>ps_Input = example_input, ps_BatchOps = []\<rparr>, example_spec]\<rparr>"

theorem Build_outcome_witness:
  "\<exists>out b'. Build example_chains example_mcms (\<lambda>_. 400000000000) Map.empty example_builder = ((out, None), b') \<and>
     co_MCMSTimelockProposals out = Some [[5]]"
proof -
  let ?build = "\<lambda>i. buildTimelockProposal example_chains example_mcms ((\<lambda>_. 400000000000) i)
    (mcmsRegistry Map.empty example_builder) (ob_environment example_builder)"
  obtain out err b' where run: "Build example_chains example_mcms (\<lambda>_. 400000000000) Map.empty example_builder = ((out, err), b')"
    by (metis surj_pair)
  have build: "?build i example_spec = Inr [5]" for i
    using example_spec_builds by (simp add: mcmsRegistry_def example_builder_def)
  have specs: "ob_proposalSpecs example_builder = [\<lparr>ps_Input = example_input, ps_BatchOps = []\<rparr>, example_spec]"
    by (simp add: example_builder_def)
  obtain n where n: "co_MCMSTimelockProposals out = Some (built_before ?build (ob_proposalSpecs example_builder) n)"
    "case err of None \<Rightarrow> n = length (ob_proposalSpecs example_builder)
     | Some e \<Rightarrow> \<exists>e'. e = ErrAtSpec n e' \<and> n < length (ob_proposalSpecs example_builder) \<and>
         ps_BatchOps (ob_proposalSpecs example_builder ! n) \<noteq> [] \<and> ?build n (ob_proposalSpecs example_builder ! n) = Inl e'"
    using Build_outcome [OF refl refl run] by blast
  have "err = None"
  proof (cases err)
    case (Some e)
    then obtain e' where "n < 2" "ps_BatchOps (ob_proposalSpecs example_builder ! n) \<noteq> []"
      "?build n (ob_proposalSpecs example_builder ! n) = Inl e'" using n(2) by (auto simp: specs)
    then show ?thesis using build by (auto simp: specs less_2_cases_iff)
  qed
  moreover have "built_before ?build (ob_proposalSpecs example_builder) 2 = [projr (?build 1 example_spec)]"
    by (simp add: built_before_def specs upt_rec example_spec_def)
  ultimately have "co_MCMSTimelockProposals out = Some [[5]]" using n by (simp only: build option.case) (simp add: specs numeral_2_eq_2)
  then show ?thesis using run \<open>err = None\<close> by blast
qed

end
