(* ===== verification/Sequence_Changeset.thy ===== *)
theory Sequence_Changeset
  imports Output_Builder Op_Execute
begin

text \<open>
  Changesets made from a sequence of operations (\<open>changeset/sequenceutils/\<close>): the composition of the
  execution of a sequence, the data store its metadata is written to, and the output builder.

  The output of a sequence is a Go value; \<open>onchain\<close> reads it as the \<open>OnChainOutput\<close> it is. What the
  products supply (the resolvers, the additional check) acts on the state of the executions. The clock
  is an argument. A call that does not return is \<open>None\<close>, as in \<open>Op_Execute\<close>.
\<close>

section \<open>Inputs and outputs\<close>

record ('v, 'tx) on_chain_output =
  oc_Metadata :: "'v metadata_bundle"
  oc_BatchOps :: "'tx batch_operation list"

record 'cfg with_mcms =
  wm_MCMS :: "timelock_input option"
  wm_Cfg :: 'cfg

text \<open>The fields of the environment that are checked not to be nil, and the rest of it.\<close>

record 'x seq_env =
  se_Logger :: bool
  se_GetContext :: bool
  se_BundleLogger :: bool
  se_BundleGetContext :: bool
  se_rest :: 'x

datatype 'e seq_error =
    ErrSequenceRequired
  | ErrResolveInputRequired
  | ErrResolveDepRequired
  | ErrLoggerRequired
  | ErrGetContextRequired
  | ErrBundleNotConfigured
  | ErrMCMSInput input_error
  | ErrVerify 'e
  | ErrResolveInput 'e
  | ErrResolveDep 'e
  | ErrExecute op_error
  | ErrWriteMetadata ds_error
  | ErrBatchOpsWithoutMCMSInput
  | ErrBuild "'e build_error"
  | ErrConflictingEnv
  | PanicNilParam

record ('v, 'd, 'w, 'cfg, 'x, 'e) seq_params =
  sp_Sequence :: "('v, 'd, 'w) operation option"
  sp_ResolveInput :: "('x seq_env \<Rightarrow> 'cfg \<Rightarrow> ('v, 'w) xstate \<Rightarrow> ('e + goval) \<times> ('v, 'w) xstate) option"
  sp_ResolveDep :: "('x seq_env \<Rightarrow> 'cfg \<Rightarrow> ('v, 'w) xstate \<Rightarrow> ('e + 'd) \<times> ('v, 'w) xstate) option"
  sp_Verify :: "('x seq_env \<Rightarrow> 'cfg with_mcms \<Rightarrow> ('v, 'w) xstate \<Rightarrow> 'e option \<times> ('v, 'w) xstate) option"

section \<open>Verifying\<close>

definition validateOnChainParams :: "('v, 'd, 'w, 'cfg, 'x, 'e) seq_params \<Rightarrow> 'e seq_error option" where
  "validateOnChainParams params =
     (if sp_Sequence params = None then Some ErrSequenceRequired
      else if sp_ResolveInput params = None then Some ErrResolveInputRequired
      else if sp_ResolveDep params = None then Some ErrResolveDepRequired
      else None)"

definition validateEnvironment :: "'x seq_env \<Rightarrow> 'e seq_error option" where
  "validateEnvironment e =
     (if \<not> se_Logger e then Some ErrLoggerRequired
      else if \<not> se_GetContext e then Some ErrGetContextRequired
      else if \<not> se_BundleLogger e \<or> \<not> se_BundleGetContext e then Some ErrBundleNotConfigured
      else None)"

text \<open>Calling a resolver that is nil is a panic.\<close>

definition resolveSeqInputAndDeps ::
  "('v, 'd, 'w, 'cfg, 'x, 'e) seq_params \<Rightarrow> 'x seq_env \<Rightarrow> 'cfg with_mcms \<Rightarrow> ('v, 'w) xstate \<Rightarrow>
   ('e seq_error + goval \<times> 'd) \<times> ('v, 'w) xstate" where
  "resolveSeqInputAndDeps params e wrapped s =
     (case sp_ResolveInput params of
        None \<Rightarrow> (Inl PanicNilParam, s)
      | Some resolveInput \<Rightarrow>
          (case resolveInput e (wm_Cfg wrapped) s of
             (Inl err, s) \<Rightarrow> (Inl (ErrResolveInput err), s)
           | (Inr input, s) \<Rightarrow>
               (case sp_ResolveDep params of
                  None \<Rightarrow> (Inl PanicNilParam, s)
                | Some resolveDep \<Rightarrow>
                    (case resolveDep e (wm_Cfg wrapped) s of
                       (Inl err, s) \<Rightarrow> (Inl (ErrResolveDep err), s)
                     | (Inr dep, s) \<Rightarrow> (Inr (input, dep), s)))))"

definition verifyMCMS :: "int \<Rightarrow> 'cfg with_mcms \<Rightarrow> 'e seq_error option" where
  "verifyMCMS now wrapped =
     (case wm_MCMS wrapped of
        None \<Rightarrow> None
      | Some m \<Rightarrow> (case validateAt m now of None \<Rightarrow> None | Some e \<Rightarrow> Some (ErrMCMSInput e)))"

definition seq_verify ::
  "('v, 'd, 'w, 'cfg, 'x, 'e) seq_params \<Rightarrow> int \<Rightarrow> 'x seq_env \<Rightarrow> 'cfg with_mcms \<Rightarrow> ('v, 'w) xstate \<Rightarrow>
   'e seq_error option \<times> ('v, 'w) xstate" where
  "seq_verify params now e wrapped s =
     (case verifyMCMS now wrapped of
        Some err \<Rightarrow> (Some err, s)
      | None \<Rightarrow>
          (case sp_Verify params of
             None \<Rightarrow> (None, s)
           | Some verify \<Rightarrow> (case verify e wrapped s of (err, s) \<Rightarrow> (map_option ErrVerify err, s))))"

text \<open>\<open>VerifyPreconditions\<close> of the changeset.\<close>

definition seq_validate ::
  "('v, 'd, 'w, 'cfg, 'x, 'e) seq_params \<Rightarrow> int \<Rightarrow> 'x seq_env \<Rightarrow> 'cfg with_mcms \<Rightarrow> ('v, 'w) xstate \<Rightarrow>
   'e seq_error option \<times> ('v, 'w) xstate" where
  "seq_validate params now e wrapped s =
     (case validateOnChainParams params of
        Some err \<Rightarrow> (Some err, s)
      | None \<Rightarrow>
          (case validateEnvironment e of
             Some err \<Rightarrow> (Some err, s)
           | None \<Rightarrow>
               (case seq_verify params now e wrapped s of
                  (Some err, s) \<Rightarrow> (Some err, s)
                | (None, s) \<Rightarrow>
                    (case resolveSeqInputAndDeps params e wrapped s of
                       (Inl err, s) \<Rightarrow> (Some err, s)
                     | (Inr _, s) \<Rightarrow> (None, s)))))"

section \<open>Applying\<close>

definition hasNonEmptyBatchOps :: "'tx batch_operation list \<Rightarrow> bool" where
  "hasNonEmptyBatchOps ops \<longleftrightarrow> list_ex (\<lambda>op. length (bo_Transactions op) > 0) ops"

text \<open>What lies outside: the libraries, the readers (global and overridden) and the clock.\<close>

record ('v, 'm, 'e, 'tx, 'tp, 'x) build_lib =
  bl_chains :: chain_lib
  bl_semver :: "'v semver"
  bl_mcms :: "('m, 'tx) proposal_fields \<Rightarrow> 'e + 'tp"
  bl_global :: "('x seq_env, 'm, 'v, 'e) reader_registry"
  bl_override :: "('x seq_env, 'm, 'v, 'e) reader_registry option"

definition buildOnChainChangesetOutput ::
  "('v, 'm, 'e, 'tx, 'tp, 'x) build_lib \<Rightarrow> int \<Rightarrow> 'x seq_env \<Rightarrow> timelock_input option \<Rightarrow> ('v, 'tx) on_chain_output \<Rightarrow>
   ('v, 'tp, 'mp) changeset_output \<times> 'e seq_error option" where
  "buildOnChainChangesetOutput B now e mcmsInput output =
     (case WriteMetadataToDataStore (bl_semver B) (oc_Metadata output) [] NewMemoryDataStore of
        (Some metaErr, ds) \<Rightarrow> (zero_output, Some (ErrWriteMetadata metaErr))
      | (None, ds) \<Rightarrow>
          let builder = NewOutputBuilder e (Some ds);
              builder = (if bl_override B \<noteq> None then WithMCMSReaderRegistry (bl_override B) builder else builder) in
          if hasNonEmptyBatchOps (oc_BatchOps output) then
            (case mcmsInput of
               None \<Rightarrow> (zero_output\<lparr>co_DataStore := Some ds\<rparr>, Some ErrBatchOpsWithoutMCMSInput)
             | Some input \<Rightarrow>
                 (case Build (bl_chains B) (bl_mcms B) (\<lambda>_. now) (bl_global B)
                     (WithTimelockProposal input (oc_BatchOps output) [] builder) of
                    ((out, err), _) \<Rightarrow> (out, map_option ErrBuild err)))
          else
            (case Build (bl_chains B) (bl_mcms B) (\<lambda>_. now) (bl_global B) builder of
               ((out, err), _) \<Rightarrow> (out, map_option ErrBuild err)))"

text \<open>\<open>Apply\<close> of the changeset; a zero report has the zero output.\<close>

definition changesetApply ::
  "('v, 'm, 'e, 'tx, 'tp, 'x) build_lib \<Rightarrow> ('v, 'w) op_lib \<Rightarrow> (goval \<Rightarrow> ('v, 'tx) on_chain_output) \<Rightarrow>
   ('v, 'd, 'w, 'cfg, 'x, 'e) seq_params \<Rightarrow> int \<Rightarrow> 'x seq_env \<Rightarrow> 'cfg with_mcms \<Rightarrow> ('v, 'w) xstate \<Rightarrow>
   ((('v, 'tp, 'mp) changeset_output \<times> 'e seq_error option) \<times> ('v, 'w) xstate) option" where
  "changesetApply B lib onchain params now e wrapped s =
     (case resolveSeqInputAndDeps params e wrapped s of
        (Inl err, s) \<Rightarrow> Some ((zero_output, Some err), s)
      | (Inr (input, deps), s) \<Rightarrow>
          (case sp_Sequence params of
             None \<Rightarrow> Some ((zero_output, Some PanicNilParam), s)
           | Some sequence \<Rightarrow>
               (case ExecuteSequence lib sequence (Some deps) input [] s of
                  None \<Rightarrow> None
                | Some ((_, Some err), s) \<Rightarrow> Some ((zero_output, Some (ErrExecute err)), s)
                | Some ((report, None), s) \<Rightarrow>
                    let output = rp_Output (case report of None \<Rightarrow> zero_report | Some (r, _) \<Rightarrow> r) in
                    Some (buildOnChainChangesetOutput B now e (wm_MCMS wrapped) (onchain output), s))))"

section \<open>Merging the outputs of sequences\<close>

text \<open>Pointers to the same record are equal records.\<close>

definition envMetadataConflicts :: "env_metadata option \<Rightarrow> env_metadata option \<Rightarrow> bool" where
  "envMetadataConflicts existing incoming =
     (case existing of
        None \<Rightarrow> False
      | Some x \<Rightarrow> (case incoming of None \<Rightarrow> False | Some y \<Rightarrow> em_Metadata x \<noteq> em_Metadata y))"

definition merge_output :: "('v, 'tx) on_chain_output \<Rightarrow> ('v, 'tx) on_chain_output \<Rightarrow> ('v, 'tx) on_chain_output" where
  "merge_output output agg =
     \<lparr>oc_Metadata = \<lparr>mb_Addresses = mb_Addresses (oc_Metadata agg) @ mb_Addresses (oc_Metadata output),
        mb_Contracts = mb_Contracts (oc_Metadata agg) @ mb_Contracts (oc_Metadata output),
        mb_Chains = mb_Chains (oc_Metadata agg) @ mb_Chains (oc_Metadata output),
        mb_Env = (if mb_Env (oc_Metadata output) \<noteq> None then mb_Env (oc_Metadata output) else mb_Env (oc_Metadata agg))\<rparr>,
      oc_BatchOps = oc_BatchOps agg @ oc_BatchOps output\<rparr>"

definition ExecuteOnChainSequenceAndMerge ::
  "('v, 'w) op_lib \<Rightarrow> (goval \<Rightarrow> ('v, 'tx) on_chain_output) \<Rightarrow> 'd option \<Rightarrow> ('v, 'd, 'w) operation option \<Rightarrow> goval \<Rightarrow>
   ('v, 'tx) on_chain_output \<Rightarrow> ('v, 'w) xstate \<Rightarrow>
   ((('v, 'tx) on_chain_output \<times> 'e seq_error option) \<times> ('v, 'w) xstate) option" where
  "ExecuteOnChainSequenceAndMerge lib onchain deps seq input agg s =
     (case seq of
        None \<Rightarrow> Some ((agg, Some ErrSequenceRequired), s)
      | Some sequence \<Rightarrow>
          (case ExecuteSequence lib sequence deps input [] s of
             None \<Rightarrow> None
           | Some ((_, Some err), s) \<Rightarrow> Some ((agg, Some (ErrExecute err)), s)
           | Some ((report, None), s) \<Rightarrow>
               let output = onchain (rp_Output (case report of None \<Rightarrow> zero_report | Some (r, _) \<Rightarrow> r)) in
               if envMetadataConflicts (mb_Env (oc_Metadata agg)) (mb_Env (oc_Metadata output))
               then Some ((agg, Some ErrConflictingEnv), s)
               else Some ((merge_output output agg, None), s)))"

section \<open>A sequence that succeeded is not run again\<close>

lemma ExecuteSequence_success:
  assumes "handler_extends lib sequence" "cache_good lib (xe_cache s)"
    and result: "ExecuteSequence lib sequence deps input opts s = Some ((Some (r, rs), None), t)"
  shows "IsSerializable input" (is ?ser)
    and "GetExecutionReports (length (xe_reports t)) (rp_ID r) (xe_reports t) = Some (Inr rs)" (is ?get)
    and "last_success lib sequence input (fold (\<lambda>opt c. opt c) opts []) (xe_reports s) = Some r \<and> xe_reports t = xe_reports s \<or>
      (\<exists>pre. xe_reports t = pre @ [r] \<and> rp_Def r = opn_def sequence \<and> rp_Input r = input \<and> rp_Err r = None \<and>
        rp_IdempotencyKey r = fold (\<lambda>opt c. opt c) opts [])" (is ?how)
proof -
  let ?idem = "fold (\<lambda>opt c. opt c) opts []"
  show ser: ?ser using result by (simp add: ExecuteSequence_def split: if_splits)
  obtain c where c: "loadPreviousSuccessfulReport lib sequence input ?idem s =
    (last_success lib sequence input ?idem (xe_reports s), s\<lparr>xe_cache := c\<rparr>)" "cache_good lib c"
    using loadPrevious_law [OF assms(2)] by blast
  have "?get \<and> ?how"
  proof (cases "last_success lib sequence input ?idem (xe_reports s)")
    case (Some prev)
    then show ?thesis
      using result ser c(1) by (auto simp: ExecuteSequence_def Let_def split: option.splits sum.splits)
  next
    case None
    obtain out err u where run: "opn_handler sequence deps input (NewRecentMemoryReporter (s\<lparr>xe_cache := c\<rparr>)) = ((out, err), u)"
      by (metis prod.collapse)
    show ?thesis
      using result ser c(1) None run
      by (auto simp: ExecuteSequence_def Let_def make_report_def NewReport_def RecentReporter_AddReport_def
          MemoryReporter_AddReport_def split: option.splits sum.splits if_splits op_error.splits)
  qed
  then show ?get ?how by blast+
qed

text \<open>
  Executing a sequence again after it succeeded does not run it, also in a store that meanwhile only
  changed its cache: the same report comes back with the same executed reports. Assumed, as for an
  operation: the report is read back as it is at the types of the sequence.
\<close>

lemma ExecuteSequence_twice:
  assumes "handler_extends lib sequence" "inj (ol_uuid lib)" "cache_good lib (xe_cache s)"
    and "ExecuteSequence lib sequence deps input opts s = Some ((Some (r, rs), None), t)"
    and "typeReport (opn_decode_in sequence) (opn_decode_out sequence) r = Some r"
    and "fold (\<lambda>opt c. opt c) opts' [] = fold (\<lambda>opt c. opt c) opts []"
  shows "\<exists>cache. ExecuteSequence lib sequence deps' input opts' t = Some ((Some (r, rs), None), t\<lparr>xe_cache := cache\<rparr>)"
proof -
  let ?idem = "fold (\<lambda>opt c. opt c) opts []"
  note law = ExecuteSequence_success [OF assms(1,3,4)]
  have good: "cache_good lib (xe_cache t)"
    using ExecuteSequence_extends [OF assms(1,2,4)] assms(3) by (auto simp: extends_def)
  obtain h where h: "lib_hash lib (opn_def sequence) input ?idem = Some h" using lib_hash_defined [OF law(1)] by blast
  have "last_success lib sequence input ?idem (xe_reports t) = Some r"
    using law(3)
  proof
    assume "\<exists>pre. xe_reports t = pre @ [r] \<and> rp_Def r = opn_def sequence \<and> rp_Input r = input \<and> rp_Err r = None \<and>
      rp_IdempotencyKey r = ?idem"
    then obtain pre where r: "xe_reports t = pre @ [r]" "rp_Def r = opn_def sequence" "rp_Input r = input"
      "rp_Err r = None" "rp_IdempotencyKey r = ?idem" by blast
    have "reusable lib sequence (lib_hash lib (opn_def sequence) input ?idem) r"
      using r h assms(5) by (simp add: reusable_def)
    from last_success_appended [OF this] show ?thesis unfolding r(1) assms(5) by simp
  qed simp
  moreover obtain c where "loadPreviousSuccessfulReport lib sequence input ?idem t =
    (last_success lib sequence input ?idem (xe_reports t), t\<lparr>xe_cache := c\<rparr>)"
    using loadPrevious_law [OF good] by blast
  ultimately show ?thesis
    using law(1,2) assms(6) by (auto simp: ExecuteSequence_def Let_def)
qed

section \<open>What an applied changeset returns\<close>

lemma data_store_inv_new: "data_store_inv sv NewMemoryDataStore"
  by (simp add: data_store_inv_def NewMemoryDataStore_def)

lemma find_rec_member:
  assumes "equivp eq" "unique_keys eq key rs" "r \<in> set rs"
  shows "find_rec eq key rs (key r) = Some r"
proof (cases "find_rec eq key rs (key r)")
  case None
  then show ?thesis using assms(1,3) by (auto simp: find_rec_None equivp_reflp)
next
  case (Some r')
  then have "r' = r" using find_rec_Some [OF Some] assms(2,3) by (auto simp: unique_keys_iff [OF assms(1)])
  then show ?thesis using Some by simp
qed

lemma WriteMetadata_new:
  assumes "semver_ok sv" "\<forall>r \<in> set (mb_Addresses b). ar_Version r \<noteq> None"
    and written: "WriteMetadataToDataStore sv b [] NewMemoryDataStore = (None, ds)"
  shows "data_store_inv sv ds"
    and "r \<in> set (mb_Addresses b) \<Longrightarrow> address_lookup sv (ds_Addresses ds) (AddressRef_Key r) = Some r"
proof -
  note inv = data_store_inv_new [of sv]
  have addr: "address_inv sv (ds_Addresses NewMemoryDataStore)" using inv by (simp add: data_store_inv_def)
  have uniq: "unique_keys (addressRefKey_Equals sv) AddressRef_Key (mb_Addresses b)"
    "\<forall>r \<in> set (mb_Addresses b). address_lookup sv (ds_Addresses NewMemoryDataStore) (AddressRef_Key r) = None"
    using WriteMetadata_add_iff [OF assms(1) inv assms(2)] written by simp_all
  obtain a where a: "for_each (AddressRefStore_Add sv) (mb_Addresses b) (ds_Addresses NewMemoryDataStore) = (None, a)"
    "address_inv sv a" "address_lookup sv a = (\<lambda>k. case find_rec (addressRefKey_Equals sv) AddressRef_Key (mb_Addresses b) k of
      Some r \<Rightarrow> Some r | None \<Rightarrow> address_lookup sv (ds_Addresses NewMemoryDataStore) k)"
    using address_refs.add_many [OF assms(1) addr assms(2) uniq] by blast
  have law: "data_store_inv sv ds \<and> ds_Addresses ds = a"
    using write_bundle_law [OF assms(1) inv, of "[]" b a] a(1,2) written by auto
  then show "data_store_inv sv ds" by blast
  assume "r \<in> set (mb_Addresses b)"
  from find_rec_member [OF addressRefKey_equivp [OF assms(1)] uniq(1) this] law a(3)
  show "address_lookup sv (ds_Addresses ds) (AddressRef_Key r) = Some r" by simp
qed

lemma hasNonEmptyBatchOps_active: "hasNonEmptyBatchOps ops \<longleftrightarrow> active_chains ops \<noteq> []"
  by (auto simp: hasNonEmptyBatchOps_def list_ex_iff active_chains_def filter_empty_conv)

definition readers_of :: "('v, 'm, 'e, 'tx, 'tp, 'x) build_lib \<Rightarrow> ('x seq_env, 'm, 'v, 'e) reader_registry" where
  "readers_of B = (case bl_override B of Some r \<Rightarrow> r | None \<Rightarrow> bl_global B)"

text \<open>The output of a sequence, as a changeset output.\<close>

definition output_ok ::
  "('v, 'm, 'e, 'tx, 'tp, 'x) build_lib \<Rightarrow> int \<Rightarrow> 'x seq_env \<Rightarrow> timelock_input option \<Rightarrow> ('v, 'tx) on_chain_output \<Rightarrow>
   ('v, 'tp, 'mp) changeset_output \<Rightarrow> bool" where
  "output_ok B now e mcmsInput output out \<longleftrightarrow>
     (\<exists>ds. co_DataStore out = Some ds \<and>
        WriteMetadataToDataStore (bl_semver B) (oc_Metadata output) [] NewMemoryDataStore = (None, ds) \<and>
        (\<forall>r \<in> set (mb_Addresses (oc_Metadata output)). address_lookup (bl_semver B) (ds_Addresses ds) (AddressRef_Key r) = Some r)) \<and>
     (if active_chains (oc_BatchOps output) = [] then co_MCMSTimelockProposals out = Some []
      else \<exists>input p. mcmsInput = Some input \<and> co_MCMSTimelockProposals out = Some [p] \<and>
        buildTimelockProposal (bl_chains B) (bl_mcms B) now (readers_of B) e
          \<lparr>ps_Input = input, ps_BatchOps = mergeBatchOpsPerChain (oc_BatchOps output)\<rparr> = Inr p)"

lemma merged_nonempty: "active_chains ops \<noteq> [] \<Longrightarrow> mergeBatchOpsPerChain ops \<noteq> []"
  using first_seen_distinct(2) [of "active_chains ops"] by (auto simp: mergeBatchOps_law simp del: first_seen_distinct)

lemma buildOnChain_law:
  fixes out :: "('v, 'tp, 'mp) changeset_output"
  assumes "buildOnChainChangesetOutput B now e mcmsInput output = (out, None)" "semver_ok (bl_semver B)"
    and "\<forall>r \<in> set (mb_Addresses (oc_Metadata output)). ar_Version r \<noteq> None"
  shows "output_ok B now e mcmsInput output out"
proof -
  obtain ds where ds: "WriteMetadataToDataStore (bl_semver B) (oc_Metadata output) [] NewMemoryDataStore = (None, ds)"
    using assms(1) by (auto simp: buildOnChainChangesetOutput_def split: prod.splits option.splits)
  note look = WriteMetadata_new(2) [OF assms(2,3) ds]
  show ?thesis
  proof (cases "active_chains (oc_BatchOps output) = []")
    case True
    then have "co_MCMSTimelockProposals out = Some [] \<and> co_DataStore out = Some ds"
      using assms(1) ds
      by (auto simp: buildOnChainChangesetOutput_def hasNonEmptyBatchOps_active Let_def Build_def NewOutputBuilder_def
          WithMCMSReaderRegistry_def split: if_splits)
    then show ?thesis using ds look True by (auto simp: output_ok_def)
  next
    case False
    then obtain input where input: "mcmsInput = Some input"
      using assms(1) ds by (auto simp: buildOnChainChangesetOutput_def hasNonEmptyBatchOps_active Let_def split: option.splits)
    let ?spec = "\<lparr>ps_Input = input, ps_BatchOps = mergeBatchOpsPerChain (oc_BatchOps output)\<rparr>"
    let ?r = "buildTimelockProposal (bl_chains B) (bl_mcms B) now (readers_of B) e ?spec"
    have "buildOnChainChangesetOutput B now e mcmsInput output =
        (case ?r of
           Inl err \<Rightarrow> (zero_output\<lparr>co_DataStore := Some ds, co_MCMSTimelockProposals := Some []\<rparr> :: ('v, 'tp, 'mp) changeset_output,
             Some (ErrBuild (ErrAtSpec 0 err)))
         | Inr p \<Rightarrow> (zero_output\<lparr>co_DataStore := Some ds, co_MCMSTimelockProposals := Some [p]\<rparr>, None))"
      using False ds input merged_nonempty [OF False]
      by (auto simp: buildOnChainChangesetOutput_def hasNonEmptyBatchOps_active Let_def Build_def NewOutputBuilder_def
          WithMCMSReaderRegistry_def WithTimelockProposal_def processBatchOps_def mcmsRegistry_def readers_of_def
          split: sum.split option.split)
    then show ?thesis
      using assms(1) ds look False input by (cases ?r) (auto simp: output_ok_def zero_output_def)
  qed
qed

lemma fst_of_case: "fst (case r of ((out, err), b) \<Rightarrow> (out, f err)) = fst (fst r)"
  by (simp add: case_prod_beta)

lemma buildOnChain_store:
  fixes out out' :: "('v, 'tp, 'mp) changeset_output"
  assumes "buildOnChainChangesetOutput B now e m output = (out, None)"
    and "buildOnChainChangesetOutput B now' e m output = (out', err)"
  shows "co_DataStore out' = co_DataStore out"
proof -
  have Build: "co_DataStore (fst (fst (Build L mcms clock global b))) = co_DataStore (ob_changesetOutput b)" for L mcms clock global b
    by (simp add: Build_def Let_def split: prod.split)
  have store: "co_DataStore (fst (buildOnChainChangesetOutput B n e m output :: ('v, 'tp, 'mp) changeset_output \<times> _)) = Some ds"
    if "WriteMetadataToDataStore (bl_semver B) (oc_Metadata output) [] NewMemoryDataStore = (None, ds)" for n ds
    unfolding buildOnChainChangesetOutput_def Let_def that
    by (cases m) (simp_all add: fst_of_case Build NewOutputBuilder_def WithMCMSReaderRegistry_def WithTimelockProposal_def)
  obtain ds where "WriteMetadataToDataStore (bl_semver B) (oc_Metadata output) [] NewMemoryDataStore = (None, ds)"
    using assms(1) by (auto simp: buildOnChainChangesetOutput_def split: prod.splits option.splits)
  from store [OF this, of now] store [OF this, of now'] show ?thesis using assms by simp
qed

lemma ExecuteSequence_no_empty: "ExecuteSequence lib sequence deps input opts s \<noteq> Some ((None, None), t)"
  by (auto simp: ExecuteSequence_def Let_def split: prod.splits option.splits sum.splits)

text \<open>The parts of an application without an error.\<close>

lemma changesetApply_success:
  assumes "changesetApply B lib onchain params now e wrapped s = Some ((out, None), t)"
  obtains sequence input dep u report rs where "sp_Sequence params = Some sequence"
    "resolveSeqInputAndDeps params e wrapped s = (Inr (input, dep), u)"
    "ExecuteSequence lib sequence (Some dep) input [] u = Some ((Some (report, rs), None), t)"
    "buildOnChainChangesetOutput B now e (wm_MCMS wrapped) (onchain (rp_Output report)) = (out, None)"
  using assms
  by (auto simp: changesetApply_def Let_def ExecuteSequence_no_empty split: prod.splits sum.splits option.splits)

text \<open>
  C8: a changeset that is applied without an error. Its sequence was executed on the resolved input and
  returned a report; the data store of the output is the metadata the report holds, every address
  reference under its key; and there is a proposal exactly when the sequence returned a transaction: one
  proposal, built from the operations of the report merged per chain and the input of the configuration.
\<close>

theorem changesetApply_outcome:
  assumes "changesetApply B lib onchain params now e wrapped s = Some ((out, None), t)" "semver_ok (bl_semver B)"
    and "\<And>v. \<forall>r \<in> set (mb_Addresses (oc_Metadata (onchain v))). ar_Version r \<noteq> None"
  shows "\<exists>sequence input dep u report rs. sp_Sequence params = Some sequence \<and>
    resolveSeqInputAndDeps params e wrapped s = (Inr (input, dep), u) \<and>
    ExecuteSequence lib sequence (Some dep) input [] u = Some ((Some (report, rs), None), t) \<and>
    (\<exists>ds. co_DataStore out = Some ds \<and>
      WriteMetadataToDataStore (bl_semver B) (oc_Metadata (onchain (rp_Output report))) [] NewMemoryDataStore = (None, ds) \<and>
      (\<forall>r \<in> set (mb_Addresses (oc_Metadata (onchain (rp_Output report)))).
        address_lookup (bl_semver B) (ds_Addresses ds) (AddressRef_Key r) = Some r)) \<and>
    (if active_chains (oc_BatchOps (onchain (rp_Output report))) = [] then co_MCMSTimelockProposals out = Some []
     else \<exists>m p. wm_MCMS wrapped = Some m \<and> co_MCMSTimelockProposals out = Some [p] \<and>
       buildTimelockProposal (bl_chains B) (bl_mcms B) now (readers_of B) e
         \<lparr>ps_Input = m, ps_BatchOps = mergeBatchOpsPerChain (oc_BatchOps (onchain (rp_Output report)))\<rparr> = Inr p)"
proof -
  obtain sequence input dep u report rs where run: "sp_Sequence params = Some sequence"
    "resolveSeqInputAndDeps params e wrapped s = (Inr (input, dep), u)"
    "ExecuteSequence lib sequence (Some dep) input [] u = Some ((Some (report, rs), None), t)"
    and built: "buildOnChainChangesetOutput B now e (wm_MCMS wrapped) (onchain (rp_Output report)) = (out, None)"
    using changesetApply_success [OF assms(1)] .
  note ok = buildOnChain_law [OF built assms(2,3), unfolded output_ok_def]
  show ?thesis
    by (rule exI [of _ sequence], rule exI [of _ input], rule exI [of _ dep], rule exI [of _ u], rule exI [of _ report],
        rule exI [of _ rs]) (intro conjI run conjunct1 [OF ok] conjunct2 [OF ok])
qed

text \<open>
  C9: applying the changeset again, at any later time, does not execute anything: the state only changes
  its cache, the new output has the same data store, and at the same time it is the same output. Assumed:
  resolvers that return the same and keep the state, and an output that is read back as it is.
\<close>

theorem changesetApply_twice:
  fixes out :: "('v, 'tp, 'mp) changeset_output"
  assumes "changesetApply B lib onchain params now e wrapped s = Some ((out, None), t)"
    and "sp_Sequence params = Some sequence" "handler_extends lib sequence" "inj (ol_uuid lib)" "cache_good lib (xe_cache s)"
    and "\<And>s. resolveSeqInputAndDeps params e wrapped s = (Inr (input, dep), s)"
    and "\<And>r rs. ExecuteSequence lib sequence (Some dep) input [] s = Some ((Some (r, rs), None), t) \<Longrightarrow>
      typeReport (opn_decode_in sequence) (opn_decode_out sequence) r = Some r"
  shows "\<exists>cache out' err. changesetApply B lib onchain params now' e wrapped t = Some ((out', err), t\<lparr>xe_cache := cache\<rparr>) \<and>
    co_DataStore out' = co_DataStore out \<and> (now' = now \<longrightarrow> out' = out \<and> err = None)"
proof -
  obtain report rs where run: "ExecuteSequence lib sequence (Some dep) input [] s = Some ((Some (report, rs), None), t)"
    and built: "buildOnChainChangesetOutput B now e (wm_MCMS wrapped) (onchain (rp_Output report)) = (out, None)"
    using changesetApply_success [OF assms(1)] assms(2,6) by (metis Pair_inject option.inject sum.inject(2))
  from ExecuteSequence_twice [OF assms(3,4,5) run assms(7) [OF run] refl]
  obtain c where again: "ExecuteSequence lib sequence (Some dep) input [] t = Some ((Some (report, rs), None), t\<lparr>xe_cache := c\<rparr>)"
    by blast
  obtain out' :: "('v, 'tp, 'mp) changeset_output" and err where new: "buildOnChainChangesetOutput B now' e (wm_MCMS wrapped) (onchain (rp_Output report)) = (out', err)"
    by fastforce
  have "changesetApply B lib onchain params now' e wrapped t = Some ((out', err), t\<lparr>xe_cache := c\<rparr>)"
    using assms(2,6) again new by (simp add: changesetApply_def Let_def)
  moreover have "co_DataStore out' = co_DataStore out" by (rule buildOnChain_store [OF built new])
  moreover have "now' = now \<longrightarrow> out' = out \<and> err = None" using built new by auto
  ultimately show ?thesis by blast
qed

section \<open>Merging outputs: properties\<close>

text \<open>
  C17: executing a sequence and merging its output. In a well-formed store the call returns, and leaves the state
  that the execution left. When the execution fails, its error is reported and the accumulated output is what it was.
  When it succeeds but the sequence and the accumulated output both have an environment record, with different
  metadata, that conflict is reported and the accumulated output is what it was. Otherwise there is no error: the
  batch operations, references, contract and chain metadata of the sequence's output come after those accumulated,
  none of which is lost, and the environment record is the sequence's, or the accumulated one when it has none.
\<close>

theorem ExecuteAndMerge_outcome:
  assumes "handler_extends lib sequence" "inj (ol_uuid lib)" "store_wf lib s" "cache_good lib (xe_cache s)"
  shows "\<exists>res failure agg' err t. ExecuteSequence lib sequence deps input [] s = Some ((res, failure), t) \<and>
    ExecuteOnChainSequenceAndMerge lib onchain deps (Some sequence) input agg s = Some ((agg', err), t) \<and>
    (case failure of
       Some e \<Rightarrow> err = Some (ErrExecute e) \<and> agg' = agg
     | None \<Rightarrow> \<exists>report rs out. res = Some (report, rs) \<and> out = onchain (rp_Output report) \<and>
         (if \<exists>x y. mb_Env (oc_Metadata agg) = Some x \<and> mb_Env (oc_Metadata out) = Some y \<and> em_Metadata x \<noteq> em_Metadata y
          then err = Some ErrConflictingEnv \<and> agg' = agg
          else err = None \<and> oc_BatchOps agg' = oc_BatchOps agg @ oc_BatchOps out \<and>
            mb_Addresses (oc_Metadata agg') = mb_Addresses (oc_Metadata agg) @ mb_Addresses (oc_Metadata out) \<and>
            mb_Contracts (oc_Metadata agg') = mb_Contracts (oc_Metadata agg) @ mb_Contracts (oc_Metadata out) \<and>
            mb_Chains (oc_Metadata agg') = mb_Chains (oc_Metadata agg) @ mb_Chains (oc_Metadata out) \<and>
            mb_Env (oc_Metadata agg') =
              (case mb_Env (oc_Metadata out) of None \<Rightarrow> mb_Env (oc_Metadata agg) | Some y \<Rightarrow> Some y)))"
proof -
  obtain res failure t where run: "ExecuteSequence lib sequence deps input [] s = Some ((res, failure), t)"
    using ExecuteSequence_complete [OF assms, of deps input "[]"] by blast
  have conflict: "(\<exists>x y. env = Some x \<and> env' = Some y \<and> em_Metadata x \<noteq> em_Metadata y) = envMetadataConflicts env env'"
    for env env' by (auto simp: envMetadataConflicts_def split: option.splits)
  show ?thesis
  proof (cases failure)
    case (Some e)
    then show ?thesis using run by (simp add: ExecuteOnChainSequenceAndMerge_def)
  next
    case None
    then obtain report rs where "res = Some (report, rs)" using run ExecuteSequence_no_empty by (cases res) fastforce+
    then show ?thesis
      using run None unfolding conflict
      by (cases "mb_Env (oc_Metadata (onchain (rp_Output report)))")
        (simp_all add: ExecuteOnChainSequenceAndMerge_def Let_def merge_output_def)
  qed
qed

section \<open>Closed examples\<close>

text \<open>A sequence that returns true, read as an output with one address and one transaction.\<close>

definition example_onchain :: "goval \<Rightarrow> (nat, nat) on_chain_output" where
  "example_onchain v =
     \<lparr>oc_Metadata = example_bundle [example_ref], oc_BatchOps = [\<lparr>bo_ChainSelector = 1, bo_Transactions = [5]\<rparr>]\<rparr>"

definition example_seq_reader :: "(unit seq_env, nat, nat, unit) mcms_reader" where
  "example_seq_reader =
     \<lparr>rd_GetChainMetadata = (\<lambda>_ _ _. Inr 7), rd_GetTimelockRef = (\<lambda>_ _ _. Inr example_ref),
      rd_GetMCMSRef = (\<lambda>_ _ _. Inr example_ref)\<rparr>"

definition example_build :: "(nat, nat, unit, nat, nat list, unit) build_lib" where
  "example_build =
     \<lparr>bl_chains = example_chains, bl_semver = nat_semver, bl_mcms = example_mcms,
      bl_global = [''evm'' \<mapsto> example_seq_reader], bl_override = None\<rparr>"

definition example_params :: "(nat, unit, nat, unit, unit, unit) seq_params" where
  "example_params =
     \<lparr>sp_Sequence = Some example_op, sp_ResolveInput = Some (\<lambda>e cfg s. (Inr VNil, s)),
      sp_ResolveDep = Some (\<lambda>e cfg s. (Inr (), s)), sp_Verify = None\<rparr>"

definition example_env :: "unit seq_env" where
  "example_env =
     \<lparr>se_Logger = True, se_GetContext = True, se_BundleLogger = True, se_BundleGetContext = True, se_rest = ()\<rparr>"

definition example_config :: "unit with_mcms" where
  "example_config = \<lparr>wm_MCMS = Some example_input, wm_Cfg = ()\<rparr>"

lemma example_resolves: "resolveSeqInputAndDeps example_params example_env example_config s = (Inr (VNil, ()), s)"
  by (simp add: resolveSeqInputAndDeps_def example_params_def)

lemma example_well_formed:
  "store_wf example_lib example_state" "cache_good example_lib (xe_cache example_state)"
  by (simp_all add: store_wf_def example_state_def backward_refs_def)

lemma example_sequence_runs:
  obtains rs t where "ExecuteSequence example_lib example_op (Some ()) VNil [] example_state =
    Some ((Some (NewReport (dec_string 0) 0 (opn_def example_op) VNil (VBool True) None [], rs), None), t)"
proof -
  obtain res err t where run: "ExecuteSequence example_lib example_op (Some ()) VNil [] example_state = Some ((res, err), t)"
    using ExecuteSequence_complete [OF example_lib_ok(3,2) example_well_formed, of "Some ()" VNil "[]"] by blast
  obtain c where c: "loadPreviousSuccessfulReport example_lib example_op VNil [] example_state =
    (None, example_state\<lparr>xe_cache := c\<rparr>)"
    using loadPrevious_law [OF example_well_formed(2), of example_op VNil "[]"]
    by (auto simp: last_success_def example_state_def)
  have "\<exists>rs. res = Some (NewReport (dec_string 0) 0 (opn_def example_op) VNil (VBool True) None [], rs) \<and> err = None"
    using run c
    by (auto simp: ExecuteSequence_def Let_def IsSerializable_def make_report_def example_op_def NewReport_def
        example_lib_def example_state_def NewRecentMemoryReporter_def GetRecentReports_def RecentReporter_AddReport_def
        MemoryReporter_AddReport_def GetExecutionReports_def
        split: option.splits sum.splits)
  then show ?thesis using that run by blast
qed

lemma example_report_typed:
  "typeReport (opn_decode_in example_op) (opn_decode_out example_op)
     (NewReport (dec_string 0) 0 (opn_def example_op) VNil (VBool True) None []) =
   Some (NewReport (dec_string 0) 0 (opn_def example_op) VNil (VBool True) None [] :: nat report)"
  by (simp add: typeReport_def NewReport_def example_op_def)

lemma ExecuteSequence_twice_witness:
  "\<exists>r rs t cache. ExecuteSequence example_lib example_op (Some ()) VNil [] example_state = Some ((Some (r, rs), None), t) \<and>
     ExecuteSequence example_lib example_op None VNil [] t = Some ((Some (r, rs), None), t\<lparr>xe_cache := cache\<rparr>)"
proof -
  obtain rs t where run: "ExecuteSequence example_lib example_op (Some ()) VNil [] example_state =
    Some ((Some (NewReport (dec_string 0) 0 (opn_def example_op) VNil (VBool True) None [], rs), None), t)"
    using example_sequence_runs .
  from ExecuteSequence_twice [OF example_lib_ok(3,2) example_well_formed(2) run example_report_typed, of "[]" None] run
  show ?thesis by auto
qed

lemma example_builds:
  fixes v :: goval
  obtains out :: "(nat, nat list, unit) changeset_output"
  where "buildOnChainChangesetOutput example_build 400000000000 example_env (Some example_input) (example_onchain v) = (out, None)"
proof -
  have "unique_keys (addressRefKey_Equals nat_semver) AddressRef_Key [example_ref]" by (simp add: unique_keys_def)
  then have "fst (WriteMetadataToDataStore nat_semver (example_bundle [example_ref]) [] NewMemoryDataStore) = None"
    using WriteMetadata_add_iff [OF nat_semver_ok data_store_inv_new, of "example_bundle [example_ref]"]
    by (simp add: example_bundle_def example_ref_def address_lookup_def NewMemoryDataStore_def NewMemoryAddressRefStore_def)
  then obtain ds where ds: "WriteMetadataToDataStore nat_semver (example_bundle [example_ref]) [] NewMemoryDataStore = (None, ds)"
    by (cases "WriteMetadataToDataStore nat_semver (example_bundle [example_ref]) [] NewMemoryDataStore") auto
  have ops: "hasNonEmptyBatchOps (oc_BatchOps (example_onchain v))"
    "processBatchOps (oc_BatchOps (example_onchain v)) [] = [\<lparr>bo_ChainSelector = 1, bo_Transactions = [5]\<rparr>]"
    by (simp_all add: hasNonEmptyBatchOps_def example_onchain_def processBatchOps_def mergeBatchOpsPerChain_def merge_op_def Let_def)
  have "buildTimelockProposal example_chains example_mcms 400000000000 [''evm'' \<mapsto> example_seq_reader] example_env
      \<lparr>ps_Input = example_input, ps_BatchOps = [\<lparr>bo_ChainSelector = 1, bo_Transactions = [5]\<rparr>]\<rparr> = Inr [5]"
    by (simp add: buildTimelockProposal_def validateAt_def example_input_def minValidUntil_def
        resolveMCMSPerChain_def resolve_chain_def example_chains_def Registry_Get_def trim_evm
        example_seq_reader_def example_mcms_def)
  then have "snd (buildOnChainChangesetOutput example_build 400000000000 example_env (Some example_input) (example_onchain v)
      :: (nat, nat list, unit) changeset_output \<times> _) = None"
    using ds ops
    by (simp add: buildOnChainChangesetOutput_def example_build_def Build_def NewOutputBuilder_def WithTimelockProposal_def
        mcmsRegistry_def example_onchain_def Let_def)
  then show ?thesis using that by (metis prod.collapse)
qed

lemma example_applies:
  obtains out :: "(nat, nat list, unit) changeset_output" and t where
    "changesetApply example_build example_lib example_onchain example_params 400000000000 example_env example_config example_state =
      Some ((out, None), t)"
proof -
  obtain rs t where run: "ExecuteSequence example_lib example_op (Some ()) VNil [] example_state =
    Some ((Some (NewReport (dec_string 0) 0 (opn_def example_op) VNil (VBool True) None [], rs), None), t)"
    using example_sequence_runs .
  obtain out :: "(nat, nat list, unit) changeset_output" where
    "buildOnChainChangesetOutput example_build 400000000000 example_env (Some example_input) (example_onchain (VBool True)) = (out, None)"
    using example_builds .
  then show ?thesis
    using run that example_resolves [of example_state]
    by (simp add: changesetApply_def example_params_def example_config_def NewReport_def)
qed

lemma example_versions: "\<forall>r \<in> set (mb_Addresses (oc_Metadata (example_onchain v))). ar_Version r \<noteq> None"
  by (simp add: example_onchain_def example_bundle_def example_ref_def)

theorem changesetApply_outcome_witness:
  "\<exists>(out :: (nat, nat list, unit) changeset_output) t p ds.
     changesetApply example_build example_lib example_onchain example_params 400000000000 example_env example_config example_state =
       Some ((out, None), t) \<and> co_MCMSTimelockProposals out = Some [p] \<and> co_DataStore out = Some ds \<and>
     address_lookup nat_semver (ds_Addresses ds) (AddressRef_Key example_ref) = Some example_ref"
proof -
  obtain out :: "(nat, nat list, unit) changeset_output" and t where run:
    "changesetApply example_build example_lib example_onchain example_params 400000000000 example_env example_config example_state =
      Some ((out, None), t)" using example_applies .
  have sv: "semver_ok (bl_semver example_build)" by (simp add: example_build_def nat_semver_ok)
  have act: "active_chains (oc_BatchOps (example_onchain v)) \<noteq> []" for v
    by (simp add: active_chains_def example_onchain_def)
  have addr: "mb_Addresses (oc_Metadata (example_onchain v)) = [example_ref]" for v
    by (simp add: example_onchain_def example_bundle_def)
  show ?thesis
    using changesetApply_outcome [OF run sv example_versions] run
    by (auto simp: act addr example_build_def)
qed

theorem changesetApply_twice_witness:
  "\<exists>(out :: (nat, nat list, unit) changeset_output) t cache.
     changesetApply example_build example_lib example_onchain example_params 400000000000 example_env example_config example_state =
       Some ((out, None), t) \<and>
     changesetApply example_build example_lib example_onchain example_params 400000000000 example_env example_config t =
       Some ((out, None), t\<lparr>xe_cache := cache\<rparr>)"
proof -
  obtain out :: "(nat, nat list, unit) changeset_output" and t where run:
    "changesetApply example_build example_lib example_onchain example_params 400000000000 example_env example_config example_state =
      Some ((out, None), t)" using example_applies .
  have seq: "sp_Sequence example_params = Some example_op" by (simp add: example_params_def)
  have typed: "typeReport (opn_decode_in example_op) (opn_decode_out example_op) r = Some r"
    if "ExecuteSequence example_lib example_op (Some ()) VNil [] example_state = Some ((Some (r, rs), None), t)" for r rs
    using example_sequence_runs that example_report_typed
    by (metis Pair_inject option.inject)
  have "\<exists>cache out' err. changesetApply example_build example_lib example_onchain example_params 400000000000 example_env
      example_config t = Some ((out', err), t\<lparr>xe_cache := cache\<rparr>) \<and> co_DataStore out' = co_DataStore out \<and>
      ((400000000000 :: int) = 400000000000 \<longrightarrow> out' = out \<and> err = None)"
    by (rule changesetApply_twice [OF run seq example_lib_ok(3,2) example_well_formed(2) example_resolves])
      (rule typed)
  then show ?thesis using run by blast
qed

theorem ExecuteAndMerge_outcome_witness:
  "\<exists>agg' t. ExecuteOnChainSequenceAndMerge example_lib example_onchain (Some ()) (Some example_op) VNil
     (example_onchain VNil) example_state = Some ((agg', None :: unit seq_error option), t) \<and>
     oc_BatchOps agg' = [\<lparr>bo_ChainSelector = 1, bo_Transactions = [5]\<rparr>, \<lparr>bo_ChainSelector = 1, bo_Transactions = [5]\<rparr>]"
proof -
  obtain rs t where "ExecuteSequence example_lib example_op (Some ()) VNil [] example_state =
    Some ((Some (NewReport (dec_string 0) 0 (opn_def example_op) VNil (VBool True) None [], rs), None), t)"
    using example_sequence_runs .
  then show ?thesis
    using ExecuteAndMerge_outcome [OF example_lib_ok(3,2) example_well_formed, where onchain = example_onchain and
      agg = "example_onchain VNil" and deps = "Some ()" and input = VNil and 'e = unit]
    by (auto simp: example_onchain_def example_bundle_def)
qed

end
