(* ===== verification/Chain_Types.thy ===== *)
theory Chain_Types
  imports Address_Book
begin

text \<open>
  The chains of the families the framework supports (\<open>chain/*/*_chain.go\<close>), the methods they share
  (\<open>chain/internal/common/chain_metadata.go\<close>), and the conversion of addresses to bytes
  (\<open>chain/utils/addrconv/\<close>, \<open>chain/*/addrconv.go\<close>).

  \<open>'cl\<close> are the clients of the third-party libraries, \<open>'k\<close> private keys, \<open>'p\<close> the participants of a Canton
  network. A function that signs is modelled by the key it signs with, and one that sends a transaction by
  the client it sends through and the key; a nil one is \<open>None\<close>. Functions that only wait for a
  transaction are a client as well. The tables of the chain selectors library are arguments.
\<close>

section \<open>Metadata\<close>

record chain_details =
  cd_ChainSelector :: u64
  cd_ChainName :: string

record selectors_lib =
  sl_ChainID :: "u64 \<Rightarrow> string option"
  sl_Family :: "u64 \<Rightarrow> string option"
  sl_Details :: "string \<Rightarrow> string \<Rightarrow> chain_details option"
  sl_NetworkType :: "u64 \<Rightarrow> string option"

definition ChainInfo :: "selectors_lib \<Rightarrow> u64 \<Rightarrow> chain_details option" where
  "ChainInfo L cs =
     (case sl_ChainID L cs of
        None \<Rightarrow> None
      | Some chainID \<Rightarrow>
          (case sl_Family L cs of
             None \<Rightarrow> None
           | Some family \<Rightarrow> sl_Details L chainID family))"

definition Metadata_String :: "selectors_lib \<Rightarrow> u64 \<Rightarrow> string" where
  "Metadata_String L selector =
     (case ChainInfo L selector of
        None \<Rightarrow> []
      | Some chainInfo \<Rightarrow> cd_ChainName chainInfo @ '' ('' @ format_uint (cd_ChainSelector chainInfo) @ '')'')"

definition Metadata_Name :: "selectors_lib \<Rightarrow> u64 \<Rightarrow> string" where
  "Metadata_Name L selector =
     (case ChainInfo L selector of
        None \<Rightarrow> []
      | Some chainInfo \<Rightarrow> if cd_ChainName chainInfo = [] then format_uint selector else cd_ChainName chainInfo)"

definition Metadata_Family :: "selectors_lib \<Rightarrow> u64 \<Rightarrow> string" where
  "Metadata_Family L selector = (case sl_Family L selector of None \<Rightarrow> [] | Some family \<Rightarrow> family)"

definition Metadata_IsNetworkType :: "selectors_lib \<Rightarrow> u64 \<Rightarrow> string \<Rightarrow> bool" where
  "Metadata_IsNetworkType L selector networkType =
     (case sl_NetworkType L selector of None \<Rightarrow> False | Some t \<Rightarrow> t = networkType)"

section \<open>The chains of each family\<close>

text \<open>\<open>bind.TransactOpts\<close>: the address and the key of its \<open>Signer\<close>.\<close>

record 'k transact_opts =
  to_From :: string
  to_Signer :: "'k option"

record ('cl, 'k) evm_chain =
  ec_Selector :: u64
  ec_Client :: "'cl option"
  ec_DeployerKey :: "'k transact_opts option"
  ec_Confirm :: "'cl option"
  ec_Users :: "'k transact_opts list"
  ec_SignHash :: "'k option"
  ec_IsZkSyncVM :: bool
  ec_ClientZkSyncVM :: "'cl option"
  ec_DeployerKeyZkSyncVM :: "'k option"

record ('cl, 'k) solana_chain =
  sc_Selector :: u64
  sc_Client :: "'cl option"
  sc_URL :: string
  sc_WSURL :: string
  sc_DeployerKey :: "'k option"
  sc_SendAndConfirm :: "('cl \<times> 'k) option"
  sc_Confirm :: "('cl \<times> 'k) option"
  sc_KeypairPath :: string
  sc_ProgramsPath :: string

record ('cl, 'k) aptos_chain =
  ac_Selector :: u64
  ac_Client :: "'cl option"
  ac_DeployerSigner :: "'k option"
  ac_URL :: string
  ac_Confirm :: "'cl option"

record ('cl, 'k) sui_chain =
  uc_Selector :: u64
  uc_Client :: "'cl option"
  uc_Signer :: "'k option"
  uc_URL :: string
  uc_FaucetURL :: string

record ('cl, 'k) ton_chain =
  tc_Selector :: u64
  tc_Client :: "'cl option"
  tc_Wallet :: "'k option"
  tc_WalletAddress :: string
  tc_WalletVersionConfig :: string
  tc_URL :: string
  tc_HTTPURL :: string
  tc_Confirm :: "'cl option"

text \<open>The RPC client of a Tron chain signs with a key of its own; the three functions send through one.\<close>

record ('cl, 'k) tron_chain =
  rc_Selector :: u64
  rc_Client :: "'cl option"
  rc_SignHash :: "'k option"
  rc_Address :: string
  rc_URL :: string
  rc_RPCClient :: "('cl \<times> 'k) option"
  rc_SendAndConfirm :: "('cl \<times> 'k) option"
  rc_DeployContractAndConfirm :: "('cl \<times> 'k) option"
  rc_TriggerContractAndConfirm :: "('cl \<times> 'k) option"

record 'p canton_chain =
  nc_Selector :: u64
  nc_Participants :: "'p list"

record ('cl, 'k) stellar_chain =
  lc_Selector :: u64
  lc_Client :: "'cl option"
  lc_Signer :: "'k option"
  lc_URL :: string
  lc_FriendbotURL :: string
  lc_NetworkPassphrase :: string

datatype ('cl, 'k, 'p) chain_value =
    EvmChain "('cl, 'k) evm_chain"
  | SolanaChain "('cl, 'k) solana_chain"
  | AptosChain "('cl, 'k) aptos_chain"
  | SuiChain "('cl, 'k) sui_chain"
  | TonChain "('cl, 'k) ton_chain"
  | TronChain "('cl, 'k) tron_chain"
  | CantonChain "'p canton_chain"
  | StellarChain "('cl, 'k) stellar_chain"

fun value_ChainSelector :: "('cl, 'k, 'p) chain_value \<Rightarrow> u64" where
  "value_ChainSelector (EvmChain c) = ec_Selector c"
| "value_ChainSelector (SolanaChain c) = sc_Selector c"
| "value_ChainSelector (AptosChain c) = ac_Selector c"
| "value_ChainSelector (SuiChain c) = uc_Selector c"
| "value_ChainSelector (TonChain c) = tc_Selector c"
| "value_ChainSelector (TronChain c) = rc_Selector c"
| "value_ChainSelector (CantonChain c) = nc_Selector c"
| "value_ChainSelector (StellarChain c) = lc_Selector c"

section \<open>Read-only chains\<close>

text \<open>
  What the libraries supply: new keys (from the random source of the world \<open>'w\<close>), the address of a key,
  the Solana client for a URL, and the failure of making a TON wallet.
\<close>

record ('cl, 'k, 'e, 'w) key_lib =
  kl_newKey :: "'w \<Rightarrow> ('e + 'k) \<times> 'w"
  kl_address :: "'k \<Rightarrow> string"
  kl_solanaClient :: "string \<Rightarrow> 'cl"
  kl_walletError :: "'cl option \<Rightarrow> 'k \<Rightarrow> string \<Rightarrow> 'e option"

datatype 'e read_only_error = ErrGenerateKey 'e | ErrGenerateWallet 'e | ErrRPCClientNil | PanicNilChain

definition evm_ReadOnly ::
  "('cl, 'k, 'e, 'w) key_lib \<Rightarrow> ('cl, 'k) evm_chain \<Rightarrow> 'w \<Rightarrow> ('e read_only_error + ('cl, 'k) evm_chain) \<times> 'w" where
  "evm_ReadOnly L c w =
     (case ec_DeployerKey c of
        None \<Rightarrow> (Inr c, w)
      | Some deployerKey \<Rightarrow>
          (case kl_newKey L w of
             (Inl e, w) \<Rightarrow> (Inl (ErrGenerateKey e), w)
           | (Inr privateKey, w) \<Rightarrow>
               (Inr (c\<lparr>ec_DeployerKey := Some (deployerKey\<lparr>to_From := kl_address L privateKey\<rparr>)\<rparr>), w)))"

definition solana_ReadOnly ::
  "('cl, 'k, 'e, 'w) key_lib \<Rightarrow> ('cl, 'k) solana_chain \<Rightarrow> 'w \<Rightarrow> ('e read_only_error + ('cl, 'k) solana_chain) \<times> 'w" where
  "solana_ReadOnly L c w =
     (case kl_newKey L w of
        (Inl e, w) \<Rightarrow> (Inl (ErrGenerateKey e), w)
      | (Inr privateKey, w) \<Rightarrow>
          let rpcClient = kl_solanaClient L (sc_URL c) in
          (Inr (c\<lparr>sc_DeployerKey := Some privateKey, sc_Client := Some rpcClient,
             sc_SendAndConfirm := Some (rpcClient, privateKey), sc_Confirm := Some (rpcClient, privateKey)\<rparr>), w))"

definition aptos_ReadOnly ::
  "('cl, 'k, 'e, 'w) key_lib \<Rightarrow> ('cl, 'k) aptos_chain \<Rightarrow> 'w \<Rightarrow> ('e read_only_error + ('cl, 'k) aptos_chain) \<times> 'w" where
  "aptos_ReadOnly L c w =
     (case kl_newKey L w of
        (Inl e, w) \<Rightarrow> (Inl (ErrGenerateKey e), w)
      | (Inr signer, w) \<Rightarrow> (Inr (c\<lparr>ac_DeployerSigner := Some signer\<rparr>), w))"

definition sui_ReadOnly ::
  "('cl, 'k, 'e, 'w) key_lib \<Rightarrow> ('cl, 'k) sui_chain \<Rightarrow> 'w \<Rightarrow> ('e read_only_error + ('cl, 'k) sui_chain) \<times> 'w" where
  "sui_ReadOnly L c w =
     (case kl_newKey L w of
        (Inl e, w) \<Rightarrow> (Inl (ErrGenerateKey e), w)
      | (Inr privateKey, w) \<Rightarrow> (Inr (c\<lparr>uc_Signer := Some privateKey\<rparr>), w))"

definition ton_ReadOnly ::
  "('cl, 'k, 'e, 'w) key_lib \<Rightarrow> ('cl, 'k) ton_chain \<Rightarrow> 'w \<Rightarrow> ('e read_only_error + ('cl, 'k) ton_chain) \<times> 'w" where
  "ton_ReadOnly L c w =
     (case kl_newKey L w of
        (Inl e, w) \<Rightarrow> (Inl (ErrGenerateKey e), w)
      | (Inr privateKey, w) \<Rightarrow>
          (case kl_walletError L (tc_Client c) privateKey (tc_WalletVersionConfig c) of
             Some e \<Rightarrow> (Inl (ErrGenerateWallet e), w)
           | None \<Rightarrow> (Inr (c\<lparr>tc_Wallet := Some privateKey\<rparr>), w)))"

definition tron_ReadOnly ::
  "('cl, 'k, 'e, 'w) key_lib \<Rightarrow> ('cl, 'k) tron_chain \<Rightarrow> 'w \<Rightarrow> ('e read_only_error + ('cl, 'k) tron_chain) \<times> 'w" where
  "tron_ReadOnly L c w =
     (case kl_newKey L w of
        (Inl e, w) \<Rightarrow> (Inl (ErrGenerateKey e), w)
      | (Inr privateKey, w) \<Rightarrow>
          (case rc_RPCClient c of
             None \<Rightarrow> (Inl ErrRPCClientNil, w)
           | Some (rpc, _) \<Rightarrow>
               let rpcClient = Some (rpc, privateKey) in
               (Inr (c\<lparr>rc_Address := kl_address L privateKey, rc_SignHash := Some privateKey,
                  rc_RPCClient := rpcClient, rc_SendAndConfirm := rpcClient,
                  rc_DeployContractAndConfirm := rpcClient, rc_TriggerContractAndConfirm := rpcClient\<rparr>), w)))"

definition canton_ReadOnly :: "'p canton_chain \<Rightarrow> 'w \<Rightarrow> ('e read_only_error + 'p canton_chain) \<times> 'w" where
  "canton_ReadOnly c w = (Inr c, w)"

definition stellar_ReadOnly ::
  "('cl, 'k, 'e, 'w) key_lib \<Rightarrow> ('cl, 'k) stellar_chain \<Rightarrow> 'w \<Rightarrow> ('e read_only_error + ('cl, 'k) stellar_chain) \<times> 'w" where
  "stellar_ReadOnly L c w =
     (case kl_newKey L w of
        (Inl e, w) \<Rightarrow> (Inl (ErrGenerateKey e), w)
      | (Inr keyPair, w) \<Rightarrow> (Inr (c\<lparr>lc_Signer := Some keyPair\<rparr>), w))"

definition as_value :: "('a \<Rightarrow> 'b) \<Rightarrow> ('e + 'a) \<times> 'w \<Rightarrow> ('e + 'b) \<times> 'w" where
  "as_value f r = (case r of (Inl e, w) \<Rightarrow> (Inl e, w) | (Inr c, w) \<Rightarrow> (Inr (f c), w))"

fun value_ReadOnly ::
  "('cl, 'k, 'e, 'w) key_lib \<Rightarrow> ('cl, 'k, 'p) chain_value \<Rightarrow> 'w \<Rightarrow>
   ('e read_only_error + ('cl, 'k, 'p) chain_value) \<times> 'w" where
  "value_ReadOnly L (EvmChain c) w = as_value EvmChain (evm_ReadOnly L c w)"
| "value_ReadOnly L (SolanaChain c) w = as_value SolanaChain (solana_ReadOnly L c w)"
| "value_ReadOnly L (AptosChain c) w = as_value AptosChain (aptos_ReadOnly L c w)"
| "value_ReadOnly L (SuiChain c) w = as_value SuiChain (sui_ReadOnly L c w)"
| "value_ReadOnly L (TonChain c) w = as_value TonChain (ton_ReadOnly L c w)"
| "value_ReadOnly L (TronChain c) w = as_value TronChain (tron_ReadOnly L c w)"
| "value_ReadOnly L (CantonChain c) w = as_value CantonChain (canton_ReadOnly c w)"
| "value_ReadOnly L (StellarChain c) w = as_value StellarChain (stellar_ReadOnly L c w)"

section \<open>Addresses as bytes\<close>

text \<open>The names of the families are constants of the chain selectors library.\<close>

record family_names =
  fam_EVM :: string
  fam_Solana :: string
  fam_Aptos :: string
  fam_Sui :: string
  fam_Ton :: string
  fam_Tron :: string

text \<open>
  The parsers of the chain libraries; a parser that fails is \<open>None\<close>. \<open>al_hexEvm\<close> is \<open>HexToAddress\<close>, which
  does not fail.
\<close>

record address_lib =
  al_isHex :: "string \<Rightarrow> bool"
  al_hexEvm :: "string \<Rightarrow> nat list"
  al_solana :: "string \<Rightarrow> nat list option"
  al_aptos :: "string \<Rightarrow> nat list option"
  al_ton :: "string \<Rightarrow> nat list option"
  al_tron :: "string \<Rightarrow> nat list option"

datatype address_error = ErrInvalidFormat | ErrSuiLength nat | ErrNoConverter string

definition hex_val :: "char \<Rightarrow> nat option" where
  "hex_val c =
     (let n = of_char c :: nat in
      if 48 \<le> n \<and> n \<le> 57 then Some (n - 48)
      else if 97 \<le> n \<and> n \<le> 102 then Some (n - 87)
      else if 65 \<le> n \<and> n \<le> 70 then Some (n - 55)
      else None)"

fun hex_decode :: "string \<Rightarrow> nat list option" where
  "hex_decode [] = Some []"
| "hex_decode [c] = None"
| "hex_decode (c # d # s) =
     (case hex_val c of
        None \<Rightarrow> None
      | Some h \<Rightarrow>
          (case hex_val d of
             None \<Rightarrow> None
           | Some l \<Rightarrow> (case hex_decode s of None \<Rightarrow> None | Some bs \<Rightarrow> Some ((16 * h + l) # bs))))"

definition trim_prefix :: "string \<Rightarrow> string \<Rightarrow> string" where
  "trim_prefix pre s = (if take (length pre) s = pre then drop (length pre) s else s)"

definition evm_AddressToBytes :: "address_lib \<Rightarrow> string \<Rightarrow> address_error + nat list" where
  "evm_AddressToBytes L address = (if \<not> al_isHex L address then Inl ErrInvalidFormat else Inr (al_hexEvm L address))"

definition parsed_address :: "nat list option \<Rightarrow> address_error + nat list" where
  "parsed_address r = (case r of None \<Rightarrow> Inl ErrInvalidFormat | Some bs \<Rightarrow> Inr bs)"

definition solana_AddressToBytes :: "address_lib \<Rightarrow> string \<Rightarrow> address_error + nat list" where
  "solana_AddressToBytes L address = parsed_address (al_solana L address)"

definition aptos_AddressToBytes :: "address_lib \<Rightarrow> string \<Rightarrow> address_error + nat list" where
  "aptos_AddressToBytes L address = parsed_address (al_aptos L address)"

definition ton_AddressToBytes :: "address_lib \<Rightarrow> string \<Rightarrow> address_error + nat list" where
  "ton_AddressToBytes L address = parsed_address (al_ton L address)"

definition tron_AddressToBytes :: "address_lib \<Rightarrow> string \<Rightarrow> address_error + nat list" where
  "tron_AddressToBytes L address = parsed_address (al_tron L address)"

definition sui_AddressToBytes :: "string \<Rightarrow> address_error + nat list" where
  "sui_AddressToBytes address =
     (let address = trim_prefix ''0x'' address in
      if length address \<noteq> 64 then Inl (ErrSuiLength (length address)) else parsed_address (hex_decode address))"

definition newAddressConverterRegistry ::
  "family_names \<Rightarrow> address_lib \<Rightarrow> string \<rightharpoonup> (string \<Rightarrow> address_error + nat list)" where
  "newAddressConverterRegistry F L =
     [fam_EVM F \<mapsto> evm_AddressToBytes L, fam_Solana F \<mapsto> solana_AddressToBytes L,
      fam_Aptos F \<mapsto> aptos_AddressToBytes L, fam_Sui F \<mapsto> sui_AddressToBytes,
      fam_Ton F \<mapsto> ton_AddressToBytes L, fam_Tron F \<mapsto> tron_AddressToBytes L]"

definition convertAddressByFamily ::
  "(string \<rightharpoonup> (string \<Rightarrow> address_error + nat list)) \<Rightarrow> string \<Rightarrow> string \<Rightarrow> address_error + nat list" where
  "convertAddressByFamily converters family address =
     (case converters family of None \<Rightarrow> Inl (ErrNoConverter family) | Some converter \<Rightarrow> converter address)"

text \<open>\<open>ToBytes\<close> through the default registry.\<close>

definition ToBytes :: "family_names \<Rightarrow> address_lib \<Rightarrow> string \<Rightarrow> string \<Rightarrow> address_error + nat list" where
  "ToBytes F L family address = convertAddressByFamily (newAddressConverterRegistry F L) family address"

text \<open>Printing in hexadecimal, and reading it back.\<close>

definition hex_digit :: "nat \<Rightarrow> char" where
  "hex_digit n = (if n < 10 then char_of (48 + n) else char_of (87 + n))"

definition hex_encode :: "nat list \<Rightarrow> string" where
  "hex_encode bs = concat (map (\<lambda>b. [hex_digit (b div 16), hex_digit (b mod 16)]) bs)"

lemma hex_val_digit [simp]: "n < 16 \<Longrightarrow> hex_val (hex_digit n) = Some n"
  by (auto simp: hex_val_def hex_digit_def Let_def)

lemma hex_encode_simps [simp]:
  "hex_encode [] = []" "hex_encode (b # bs) = hex_digit (b div 16) # hex_digit (b mod 16) # hex_encode bs"
  by (simp_all add: hex_encode_def)

lemma hex_decode_encode: "\<forall>b \<in> set bs. b < 256 \<Longrightarrow> hex_decode (hex_encode bs) = Some bs"
proof (induction bs)
  case (Cons b bs)
  then have "b div 16 < 16" "b mod 16 < 16" by auto
  with Cons show ?case by simp
qed simp

lemma length_hex_encode [simp]: "length (hex_encode bs) = 2 * length bs"
  by (induction bs) simp_all

lemma hex_digit_not_x: "n < 16 \<Longrightarrow> hex_digit n \<noteq> CHR ''x''"
proof
  assume "n < 16" "hex_digit n = CHR ''x''"
  then have "hex_val (CHR ''x'') = Some n" using hex_val_digit by metis
  then show False by (simp add: hex_val_def)
qed

lemma sui_AddressToBytes_hex:
  assumes "\<forall>b \<in> set bs. b < 256" "length bs = 32"
  shows "sui_AddressToBytes (''0x'' @ hex_encode bs) = Inr bs"
    and "sui_AddressToBytes (hex_encode bs) = Inr bs"
proof -
  show "sui_AddressToBytes (''0x'' @ hex_encode bs) = Inr bs"
    using assms by (simp add: sui_AddressToBytes_def trim_prefix_def parsed_address_def hex_decode_encode)
  obtain b bs' where bs: "bs = b # bs'" using assms(2) by (cases bs) auto
  then have "b mod 16 < 16" by simp
  then have "take 2 (hex_encode bs) \<noteq> ''0x''" using bs hex_digit_not_x [of "b mod 16"] by (simp add: numeral_2_eq_2)
  then have "trim_prefix ''0x'' (hex_encode bs) = hex_encode bs" by (simp add: trim_prefix_def numeral_2_eq_2)
  then show "sui_AddressToBytes (hex_encode bs) = Inr bs"
    using assms by (simp add: sui_AddressToBytes_def parsed_address_def hex_decode_encode)
qed

section \<open>The identifier printed by the Solana command line\<close>

text \<open>\<open>strings.Index\<close>: the first position of a substring.\<close>

fun index_of :: "string \<Rightarrow> string \<Rightarrow> nat option" where
  "index_of sub [] = (if sub = [] then Some 0 else None)"
| "index_of sub (c # s) =
     (if take (length sub) (c # s) = sub then Some 0 else map_option Suc (index_of sub s))"

text \<open>The slice expression \<open>s[i:j]\<close>, which panics when it is out of range.\<close>

datatype program_error = ErrNoProgramID | PanicSlice

definition slice_string :: "string \<Rightarrow> nat \<Rightarrow> nat \<Rightarrow> program_error + string" where
  "slice_string s i j = (if i \<le> j \<and> j \<le> length s then Inr (take (j - i) (drop i s)) else Inl PanicSlice)"

definition parseProgramID :: "string \<Rightarrow> string \<Rightarrow> program_error + string" where
  "parseProgramID out pre =
     (case index_of pre out of
        None \<Rightarrow> Inl ErrNoProgramID
      | Some i \<Rightarrow>
          let startIdx = i + length pre;
              endIdx = (case index_of [CHR 0x0A] (drop startIdx out) of None \<Rightarrow> length out | Some j \<Rightarrow> j)
          in slice_string out startIdx (startIdx + endIdx))"

lemma index_of_bound: "index_of sub s = Some i \<Longrightarrow> i + length sub \<le> length s \<and> take (length sub) (drop i s) = sub"
proof (induction s arbitrary: i)
  case (Cons c s)
  show ?case
  proof (cases "take (length sub) (c # s) = sub")
    case True
    then have "length sub \<le> length (c # s)" by (metis length_take min.absorb_iff2 nat_le_linear take_all_iff)
    then show ?thesis using True Cons.prems by (auto split: if_splits)
  next
    case False
    then show ?thesis using Cons.prems Cons.IH by auto
  qed
qed (auto split: if_splits)

text \<open>
  The identifier in the output of the Solana command line is the text between the prefix and the end of
  its line. The prefix must not be empty. An output without the prefix is an error, and an output whose last
  line is the one with the prefix, without a newline at its end, panics.
\<close>

lemma parseProgramID_cases:
  assumes "pre \<noteq> []"
  shows "case index_of pre out of
      None \<Rightarrow> parseProgramID out pre = Inl ErrNoProgramID
    | Some i \<Rightarrow> parseProgramID out pre =
        (let rest = drop (i + length pre) out in
         if CHR 0x0A \<in> set rest then Inr (takeWhile (\<lambda>c. c \<noteq> CHR 0x0A) rest) else Inl PanicSlice)"
proof (cases "index_of pre out")
  case None
  then show ?thesis by (simp add: parseProgramID_def)
next
  case (Some i)
  define rest where "rest = drop (i + length pre) out"
  have bound: "i + length pre \<le> length out" using index_of_bound [OF Some] by simp
  have newline: "index_of [CHR 0x0A] r = (if CHR 0x0A \<in> set r then Some (length (takeWhile (\<lambda>c. c \<noteq> CHR 0x0A) r)) else None)" for r
    by (induction r) auto
  show ?thesis
  proof (cases "CHR 0x0A \<in> set rest")
    case True
    define j where "j = length (takeWhile (\<lambda>c. c \<noteq> CHR 0x0A) rest)"
    have "j \<le> length rest" unfolding j_def by (rule length_takeWhile_le)
    then have "i + length pre + j \<le> length out" using bound by (simp add: rest_def)
    moreover have "take j rest = takeWhile (\<lambda>c. c \<noteq> CHR 0x0A) rest" unfolding j_def by (metis takeWhile_eq_take)
    ultimately show ?thesis
      using Some True by (simp add: parseProgramID_def newline rest_def [symmetric] slice_string_def Let_def j_def [symmetric])
  next
    case False
    have "\<not> i + length pre + length out \<le> length out" using assms by simp
    then show ?thesis
      using Some False by (simp add: parseProgramID_def newline rest_def [symmetric] slice_string_def Let_def)
  qed
qed

lemma parseProgramID_cases_witness:
  "parseProgramID ''Program Id: abc'' ''Program Id: '' = Inl PanicSlice \<and>
   parseProgramID (''ok'' @ [CHR 0x0A] @ ''Program Id: abc'' @ [CHR 0x0A]) ''Program Id: '' = Inr ''abc''"
  using parseProgramID_cases [of "''Program Id: ''" "''Program Id: abc''"]
    parseProgramID_cases [of "''Program Id: ''" "''ok'' @ [CHR 0x0A] @ ''Program Id: abc'' @ [CHR 0x0A]"]
  by simp

end
