(* ===== verification/Blockchains.thy ===== *)
theory Blockchains
  imports Chain_Types
begin

text \<open>
  The collection of the chains of an environment (\<open>chain/blockchain.go\<close>) and its view for the mcms
  library (\<open>chain/mcms/adapters/chain_access.go\<close>).

  A stored chain is an interface value: nil, one of the chain types by value, or a pointer to one, which
  may be nil. Calling a method on a nil interface or through a nil pointer panics. Go ranges over the map
  of chains in any order, given as an argument where the result depends on it.
\<close>

section \<open>Interface values\<close>

datatype ('cl, 'k, 'p) block_chain =
    NilInterface
  | ByValue "('cl, 'k, 'p) chain_value"
  | ByPointer "('cl, 'k, 'p) chain_value"
  | NilPointer

text \<open>A method call: the dynamic value, or \<open>None\<close> for a panic.\<close>

fun method_value :: "('cl, 'k, 'p) block_chain \<Rightarrow> ('cl, 'k, 'p) chain_value option" where
  "method_value (ByValue c) = Some c"
| "method_value (ByPointer c) = Some c"
| "method_value NilInterface = None"
| "method_value NilPointer = None"

definition ChainSelector :: "('cl, 'k, 'p) block_chain \<Rightarrow> u64 option" where
  "ChainSelector chain = map_option value_ChainSelector (method_value chain)"

definition Family :: "selectors_lib \<Rightarrow> ('cl, 'k, 'p) block_chain \<Rightarrow> string option" where
  "Family L chain = map_option (\<lambda>c. Metadata_Family L (value_ChainSelector c)) (method_value chain)"

definition chain_ReadOnly ::
  "('cl, 'k, 'e, 'w) key_lib \<Rightarrow> ('cl, 'k, 'p) block_chain \<Rightarrow> 'w \<Rightarrow>
   ('e read_only_error + ('cl, 'k, 'p) block_chain) \<times> 'w" where
  "chain_ReadOnly L chain w =
     (case method_value chain of
        None \<Rightarrow> (Inl PanicNilChain, w)
      | Some c \<Rightarrow> as_value ByValue (value_ReadOnly L c w))"

section \<open>The collection\<close>

type_synonym ('cl, 'k, 'p) block_chains = "u64 \<rightharpoonup> ('cl, 'k, 'p) block_chain"

datatype chains_error = ErrBlockChainNotFound

text \<open>A nil map is \<open>None\<close>; the map is copied.\<close>

definition NewBlockChains :: "('cl, 'k, 'p) block_chains option \<Rightarrow> ('cl, 'k, 'p) block_chains" where
  "NewBlockChains chs = (case chs of None \<Rightarrow> Map.empty | Some m \<Rightarrow> m)"

fun chains_from_slice ::
  "('cl, 'k, 'p) block_chain list \<Rightarrow> ('cl, 'k, 'p) block_chains \<Rightarrow> ('cl, 'k, 'p) block_chains option" where
  "chains_from_slice [] m = Some m"
| "chains_from_slice (chain # chs) m =
     (case ChainSelector chain of None \<Rightarrow> None | Some selector \<Rightarrow> chains_from_slice chs (m(selector \<mapsto> chain)))"

definition NewBlockChainsFromSlice :: "('cl, 'k, 'p) block_chain list \<Rightarrow> ('cl, 'k, 'p) block_chains option" where
  "NewBlockChainsFromSlice chs =
     (case chains_from_slice chs Map.empty of None \<Rightarrow> None | Some m \<Rightarrow> Some (NewBlockChains (Some m)))"

definition GetBySelector :: "('cl, 'k, 'p) block_chains \<Rightarrow> u64 \<Rightarrow> chains_error + ('cl, 'k, 'p) block_chain" where
  "GetBySelector b selector =
     (case b selector of Some chain \<Rightarrow> Inr chain | None \<Rightarrow> Inl ErrBlockChainNotFound)"

definition chains_Exists :: "('cl, 'k, 'p) block_chains \<Rightarrow> u64 \<Rightarrow> bool" where
  "chains_Exists b selector \<longleftrightarrow> b selector \<noteq> None"

definition ExistsN :: "('cl, 'k, 'p) block_chains \<Rightarrow> u64 list \<Rightarrow> bool" where
  "ExistsN b selectors \<longleftrightarrow> list_all (chains_Exists b) selectors"

text \<open>\<open>getChainsByType\<close>, with the constructor of the wanted type as a partial selector.\<close>

definition getChainsByType ::
  "(('cl, 'k, 'p) chain_value \<Rightarrow> 'c option) \<Rightarrow> ('cl, 'k, 'p) block_chains \<Rightarrow> (u64 \<rightharpoonup> 'c)" where
  "getChainsByType wanted b = (\<lambda>sel.
     case b sel of
       None \<Rightarrow> None
     | Some chain \<Rightarrow> (case method_value chain of None \<Rightarrow> None | Some c \<Rightarrow> wanted c))"

definition EVMChains :: "('cl, 'k, 'p) block_chains \<Rightarrow> (u64 \<rightharpoonup> ('cl, 'k) evm_chain)" where
  "EVMChains = getChainsByType (\<lambda>c. case c of EvmChain x \<Rightarrow> Some x | _ \<Rightarrow> None)"

definition SolanaChains :: "('cl, 'k, 'p) block_chains \<Rightarrow> (u64 \<rightharpoonup> ('cl, 'k) solana_chain)" where
  "SolanaChains = getChainsByType (\<lambda>c. case c of SolanaChain x \<Rightarrow> Some x | _ \<Rightarrow> None)"

definition AptosChains :: "('cl, 'k, 'p) block_chains \<Rightarrow> (u64 \<rightharpoonup> ('cl, 'k) aptos_chain)" where
  "AptosChains = getChainsByType (\<lambda>c. case c of AptosChain x \<Rightarrow> Some x | _ \<Rightarrow> None)"

definition SuiChains :: "('cl, 'k, 'p) block_chains \<Rightarrow> (u64 \<rightharpoonup> ('cl, 'k) sui_chain)" where
  "SuiChains = getChainsByType (\<lambda>c. case c of SuiChain x \<Rightarrow> Some x | _ \<Rightarrow> None)"

definition TonChains :: "('cl, 'k, 'p) block_chains \<Rightarrow> (u64 \<rightharpoonup> ('cl, 'k) ton_chain)" where
  "TonChains = getChainsByType (\<lambda>c. case c of TonChain x \<Rightarrow> Some x | _ \<Rightarrow> None)"

definition TronChains :: "('cl, 'k, 'p) block_chains \<Rightarrow> (u64 \<rightharpoonup> ('cl, 'k) tron_chain)" where
  "TronChains = getChainsByType (\<lambda>c. case c of TronChain x \<Rightarrow> Some x | _ \<Rightarrow> None)"

definition CantonChains :: "('cl, 'k, 'p) block_chains \<Rightarrow> (u64 \<rightharpoonup> 'p canton_chain)" where
  "CantonChains = getChainsByType (\<lambda>c. case c of CantonChain x \<Rightarrow> Some x | _ \<Rightarrow> None)"

definition StellarChains :: "('cl, 'k, 'p) block_chains \<Rightarrow> (u64 \<rightharpoonup> ('cl, 'k) stellar_chain)" where
  "StellarChains = getChainsByType (\<lambda>c. case c of StellarChain x \<Rightarrow> Some x | _ \<Rightarrow> None)"

text \<open>\<open>BlockChains.ReadOnly\<close> over the chains in the order of the range.\<close>

fun read_only_loop ::
  "('cl, 'k, 'e, 'w) key_lib \<Rightarrow> ('cl, 'k, 'p) block_chains \<Rightarrow> u64 list \<Rightarrow> ('cl, 'k, 'p) block_chains \<Rightarrow> 'w \<Rightarrow>
   (u64 \<times> 'e read_only_error + ('cl, 'k, 'p) block_chains) \<times> 'w" where
  "read_only_loop L b [] readOnlyChains w = (Inr (NewBlockChains (Some readOnlyChains)), w)"
| "read_only_loop L b (selector # order) readOnlyChains w =
     (case b selector of
        None \<Rightarrow> read_only_loop L b order readOnlyChains w
      | Some chain \<Rightarrow>
          (case chain_ReadOnly L chain w of
             (Inl e, w) \<Rightarrow> (Inl (selector, e), w)
           | (Inr roChain, w) \<Rightarrow> read_only_loop L b order (readOnlyChains(selector \<mapsto> roChain)) w))"

definition BlockChains_ReadOnly ::
  "('cl, 'k, 'e, 'w) key_lib \<Rightarrow> u64 list \<Rightarrow> ('cl, 'k, 'p) block_chains \<Rightarrow> 'w \<Rightarrow>
   (u64 \<times> 'e read_only_error + ('cl, 'k, 'p) block_chains) \<times> 'w" where
  "BlockChains_ReadOnly L order b w = read_only_loop L b order Map.empty w"

section \<open>Listing selectors\<close>

record selectors_options =
  so_includedFamilies :: "string set option"
  so_excludedChainSels :: "u64 set option"

definition WithFamily :: "string \<Rightarrow> selectors_options \<Rightarrow> selectors_options" where
  "WithFamily family o1 =
     o1\<lparr>so_includedFamilies := Some (insert family (case so_includedFamilies o1 of None \<Rightarrow> {} | Some s \<Rightarrow> s))\<rparr>"

definition WithChainSelectorsExclusion :: "u64 list \<Rightarrow> selectors_options \<Rightarrow> selectors_options" where
  "WithChainSelectorsExclusion chainSelectors o1 =
     o1\<lparr>so_excludedChainSels := Some (set chainSelectors \<union> (case so_excludedChainSels o1 of None \<Rightarrow> {} | Some s \<Rightarrow> s))\<rparr>"

text \<open>One pass over the map; \<open>None\<close> is the panic of \<open>Family\<close> on a nil chain.\<close>

fun list_loop ::
  "selectors_lib \<Rightarrow> selectors_options \<Rightarrow> ('cl, 'k, 'p) block_chains \<Rightarrow> u64 list \<Rightarrow> u64 list \<Rightarrow> u64 list option" where
  "list_loop L opts b [] selectors = Some selectors"
| "list_loop L opts b (selector # order) selectors =
     (if (case so_excludedChainSels opts of None \<Rightarrow> False | Some excluded \<Rightarrow> selector \<in> excluded)
      then list_loop L opts b order selectors
      else
        case so_includedFamilies opts of
          None \<Rightarrow> list_loop L opts b order (selectors @ [selector])
        | Some families \<Rightarrow>
            (case Family L (the (b selector)) of
               None \<Rightarrow> None
             | Some family \<Rightarrow>
                 if family \<in> families then list_loop L opts b order (selectors @ [selector])
                 else list_loop L opts b order selectors))"

definition selectors_options_of :: "(selectors_options \<Rightarrow> selectors_options) list \<Rightarrow> selectors_options" where
  "selectors_options_of options =
     fold (\<lambda>option opts. option opts) options \<lparr>so_includedFamilies = None, so_excludedChainSels = None\<rparr>"

definition ListChainSelectors ::
  "selectors_lib \<Rightarrow> u64 list \<Rightarrow> (selectors_options \<Rightarrow> selectors_options) list \<Rightarrow> ('cl, 'k, 'p) block_chains \<Rightarrow> u64 list option" where
  "ListChainSelectors L order options b =
     map_option (stable_sort (<)) (list_loop L (selectors_options_of options) b order [])"

section \<open>The view for the mcms library\<close>

text \<open>A missing chain is the zero chain for a signer, whose fields are nil.\<close>

definition client_of :: "(u64 \<rightharpoonup> 'c) \<Rightarrow> ('c \<Rightarrow> 'x option) \<Rightarrow> u64 \<Rightarrow> 'x option \<times> bool" where
  "client_of chs get selector = (case chs selector of None \<Rightarrow> (None, False) | Some ch \<Rightarrow> (get ch, True))"

definition EVMClient :: "('cl, 'k, 'p) block_chains \<Rightarrow> u64 \<Rightarrow> 'cl option \<times> bool" where
  "EVMClient a selector = client_of (EVMChains a) ec_Client selector"

definition EVMSigner :: "('cl, 'k, 'p) block_chains \<Rightarrow> u64 \<Rightarrow> 'k transact_opts option \<times> bool" where
  "EVMSigner a selector = client_of (EVMChains a) ec_DeployerKey selector"

definition SolanaClient :: "('cl, 'k, 'p) block_chains \<Rightarrow> u64 \<Rightarrow> 'cl option \<times> bool" where
  "SolanaClient a selector = client_of (SolanaChains a) sc_Client selector"

definition SolanaSigner :: "('cl, 'k, 'p) block_chains \<Rightarrow> u64 \<Rightarrow> 'k option \<times> bool" where
  "SolanaSigner a selector = client_of (SolanaChains a) sc_DeployerKey selector"

definition AptosClient :: "('cl, 'k, 'p) block_chains \<Rightarrow> u64 \<Rightarrow> 'cl option \<times> bool" where
  "AptosClient a selector = client_of (AptosChains a) ac_Client selector"

definition AptosSigner :: "('cl, 'k, 'p) block_chains \<Rightarrow> u64 \<Rightarrow> 'k option \<times> bool" where
  "AptosSigner a selector = client_of (AptosChains a) ac_DeployerSigner selector"

definition SuiClient :: "('cl, 'k, 'p) block_chains \<Rightarrow> u64 \<Rightarrow> 'cl option \<times> bool" where
  "SuiClient a selector = client_of (SuiChains a) uc_Client selector"

definition SuiSigner :: "('cl, 'k, 'p) block_chains \<Rightarrow> u64 \<Rightarrow> 'k option \<times> bool" where
  "SuiSigner a selector = client_of (SuiChains a) uc_Signer selector"

definition TonClient :: "('cl, 'k, 'p) block_chains \<Rightarrow> u64 \<Rightarrow> 'cl option \<times> bool" where
  "TonClient a selector = client_of (TonChains a) tc_Client selector"

definition TonSigner :: "('cl, 'k, 'p) block_chains \<Rightarrow> u64 \<Rightarrow> 'k option \<times> bool" where
  "TonSigner a selector = client_of (TonChains a) tc_Wallet selector"

definition StellarClient :: "('cl, 'k, 'p) block_chains \<Rightarrow> u64 \<Rightarrow> 'cl option \<times> bool" where
  "StellarClient a selector = client_of (StellarChains a) lc_Client selector"

definition StellarSigner :: "('cl, 'k, 'p) block_chains \<Rightarrow> u64 \<Rightarrow> 'k option \<times> bool" where
  "StellarSigner a selector = client_of (StellarChains a) lc_Signer selector"

section \<open>What is listed\<close>

definition passes :: "selectors_lib \<Rightarrow> selectors_options \<Rightarrow> ('cl, 'k, 'p) block_chains \<Rightarrow> u64 \<Rightarrow> bool" where
  "passes L opts b sel \<longleftrightarrow>
     (case so_excludedChainSels opts of None \<Rightarrow> True | Some excluded \<Rightarrow> sel \<notin> excluded) \<and>
     (case so_includedFamilies opts of None \<Rightarrow> True | Some families \<Rightarrow> Metadata_Family L sel \<in> families)"

text \<open>The chains are stored under their own selectors, and none is nil.\<close>

definition chains_ok :: "('cl, 'k, 'p) block_chains \<Rightarrow> bool" where
  "chains_ok b \<longleftrightarrow> (\<forall>sel chain. b sel = Some chain \<longrightarrow> ChainSelector chain = Some sel)"

lemma chains_okD:
  assumes "chains_ok b" "b sel = Some chain"
  obtains c where "method_value chain = Some c" "value_ChainSelector c = sel"
  using assms by (auto simp: chains_ok_def ChainSelector_def)

lemma list_loop_filter:
  assumes "chains_ok b" "set order \<subseteq> dom b"
  shows "list_loop L opts b order selectors = Some (selectors @ filter (passes L opts b) order)"
  using assms(2)
proof (induction order arbitrary: selectors)
  case (Cons sel order)
  then obtain chain where chain: "b sel = Some chain" by auto
  then obtain c where "method_value chain = Some c" "value_ChainSelector c = sel"
    using chains_okD [OF assms(1)] by blast
  then have "Family L chain = Some (Metadata_Family L sel)" by (simp add: Family_def)
  then show ?case using Cons chain by (auto simp: passes_def split: option.splits)
qed simp

lemma options_fold:
  "fold (\<lambda>option opts. option opts) (map WithFamily fams) o1 =
     o1\<lparr>so_includedFamilies := (if fams = [] then so_includedFamilies o1
        else Some (set fams \<union> (case so_includedFamilies o1 of None \<Rightarrow> {} | Some s \<Rightarrow> s)))\<rparr>"
  by (induction fams arbitrary: o1) (auto simp: WithFamily_def)

text \<open>
  Listing the selectors of a collection, with any number of wanted families and one exclusion. The
  result is sorted, has no duplicates, and holds exactly the selectors that are not excluded and, if a family
  is asked for, belong to one of those families, whatever the order of the range over the map. Every chain
  must be stored under its own selector.
\<close>

lemma ListChainSelectors_exact:
  assumes "chains_ok b" "iteration_of b order"
  shows "\<exists>sels. ListChainSelectors L order (map WithFamily fams @ [WithChainSelectorsExclusion excluded]) b = Some sels \<and>
    sorted sels \<and> distinct sels \<and>
    set sels = {sel. b sel \<noteq> None \<and> sel \<notin> set excluded \<and> (fams = [] \<or> Metadata_Family L sel \<in> set fams)} \<and>
    (\<forall>order'. iteration_of b order' \<longrightarrow>
       ListChainSelectors L order' (map WithFamily fams @ [WithChainSelectorsExclusion excluded]) b = Some sels)"
proof -
  define opts where "opts = selectors_options_of (map WithFamily fams @ [WithChainSelectorsExclusion excluded])"
  have opts: "so_excludedChainSels opts = Some (set excluded)"
    "so_includedFamilies opts = (if fams = [] then None else Some (set fams))"
    unfolding opts_def selectors_options_of_def fold_append o_apply options_fold
    by (simp_all add: WithChainSelectorsExclusion_def)
  have list: "ListChainSelectors L xs (map WithFamily fams @ [WithChainSelectorsExclusion excluded]) b =
      Some (stable_sort (<) (filter (passes L opts b) xs))" if "iteration_of b xs" for xs
  proof -
    have "set xs \<subseteq> dom b" using that by (simp add: iteration_of_def)
    from list_loop_filter [OF assms(1) this] show ?thesis by (simp add: ListChainSelectors_def opts_def)
  qed
  have sorts: "sorted (stable_sort (<) ys)" "distinct (stable_sort (<) ys) = distinct ys" for ys :: "u64 list"
  proof -
    have "sorted_wrt (\<lambda>a b. \<not> b < a) (stable_sort (<) ys)" by (rule sorted_stable_sort) auto
    then show "sorted (stable_sort (<) ys)" by (simp add: not_less)
    show "distinct (stable_sort (<) ys) = distinct ys" by (rule mset_eq_imp_distinct_iff) simp
  qed
  define sels where "sels = stable_sort (<) (filter (passes L opts b) order)"
  have "set sels = {sel. b sel \<noteq> None \<and> sel \<notin> set excluded \<and> (fams = [] \<or> Metadata_Family L sel \<in> set fams)}"
    using assms(2) by (auto simp: sels_def iteration_of_def passes_def opts split: if_splits)
  moreover have props: "sorted sels" "distinct sels" using sorts assms(2) by (auto simp: sels_def iteration_of_def)
  moreover have "stable_sort (<) (filter (passes L opts b) xs) = sels" if "iteration_of b xs" for xs
  proof (rule sorted_distinct_set_unique)
    show "set (stable_sort (<) (filter (passes L opts b) xs)) = set sels"
      using that assms(2) by (auto simp: sels_def iteration_of_def)
    show "sorted (stable_sort (<) (filter (passes L opts b) xs))" by (rule sorts(1))
    show "distinct (stable_sort (<) (filter (passes L opts b) xs))"
      using that by (simp add: sorts(2) iteration_of_def)
  qed (fact props)+
  ultimately show ?thesis using list list [OF assms(2)] sels_def by (intro exI [of _ sels] conjI) simp_all
qed

text \<open>The two chains of the examples: an EVM chain by value and a Sui chain through a pointer.\<close>

definition example_evm :: "(nat, nat) evm_chain" where
  "example_evm = \<lparr>ec_Selector = 7, ec_Client = Some 1, ec_DeployerKey = Some \<lparr>to_From = ''me'', to_Signer = Some 42\<rparr>,
     ec_Confirm = Some 1, ec_Users = [], ec_SignHash = Some 42, ec_IsZkSyncVM = False, ec_ClientZkSyncVM = None,
     ec_DeployerKeyZkSyncVM = None\<rparr>"

definition example_sui :: "(nat, nat) sui_chain" where
  "example_sui = \<lparr>uc_Selector = 3, uc_Client = Some 2, uc_Signer = Some 42, uc_URL = ''u'', uc_FaucetURL = []\<rparr>"

definition example_collection :: "(nat, nat, unit) block_chains" where
  "example_collection = [7 \<mapsto> ByValue (EvmChain example_evm), 3 \<mapsto> ByPointer (SuiChain example_sui)]"

definition example_selectors :: selectors_lib where
  "example_selectors = \<lparr>sl_ChainID = (\<lambda>_. None), sl_Family = (\<lambda>s. if s = 3 then Some ''sui'' else Some ''evm''),
     sl_Details = (\<lambda>_ _. None), sl_NetworkType = (\<lambda>_. None)\<rparr>"

lemma example_collection_ok: "chains_ok example_collection" "iteration_of example_collection [7, 3]"
  by (auto simp: chains_ok_def example_collection_def ChainSelector_def example_evm_def example_sui_def iteration_of_def
      split: if_splits)

lemma ListChainSelectors_exact_witness:
  "\<exists>sels. ListChainSelectors example_selectors [7, 3] (map WithFamily [''sui''] @ [WithChainSelectorsExclusion [7]])
     example_collection = Some sels \<and> sorted sels \<and> distinct sels \<and> set sels = {3}"
proof -
  have "{sel. example_collection sel \<noteq> None \<and> sel \<notin> set [7] \<and>
      ([''sui''] = [] \<or> Metadata_Family example_selectors sel \<in> set [''sui''])} = {3}"
    by (auto simp: example_collection_def example_selectors_def Metadata_Family_def split: if_splits)
  with ListChainSelectors_exact [OF example_collection_ok, of example_selectors "[''sui'']" "[7]"] show ?thesis by auto
qed

section \<open>What a read-only chain can still sign\<close>

definition chain_keys :: "('cl, 'k, 'p) chain_value \<Rightarrow> 'k set" where
  "chain_keys chain = (case chain of
       EvmChain c \<Rightarrow> set_option (case ec_DeployerKey c of None \<Rightarrow> None | Some o1 \<Rightarrow> to_Signer o1) \<union>
         (\<Union>o1 \<in> set (ec_Users c). set_option (to_Signer o1)) \<union> set_option (ec_SignHash c) \<union>
         set_option (ec_DeployerKeyZkSyncVM c)
     | SolanaChain c \<Rightarrow> set_option (sc_DeployerKey c) \<union> snd ` set_option (sc_SendAndConfirm c) \<union>
         snd ` set_option (sc_Confirm c)
     | AptosChain c \<Rightarrow> set_option (ac_DeployerSigner c)
     | SuiChain c \<Rightarrow> set_option (uc_Signer c)
     | TonChain c \<Rightarrow> set_option (tc_Wallet c)
     | TronChain c \<Rightarrow> set_option (rc_SignHash c) \<union> snd ` set_option (rc_RPCClient c) \<union>
         snd ` set_option (rc_SendAndConfirm c) \<union> snd ` set_option (rc_DeployContractAndConfirm c) \<union>
         snd ` set_option (rc_TriggerContractAndConfirm c)
     | CantonChain c \<Rightarrow> {}
     | StellarChain c \<Rightarrow> set_option (lc_Signer c))"

text \<open>What replaces a chain: of the key files and participants nothing, of an EVM chain the address only.\<close>

definition read_only_of :: "'k set \<Rightarrow> ('k \<Rightarrow> string) \<Rightarrow> ('cl, 'k, 'p) chain_value \<Rightarrow> ('cl, 'k, 'p) chain_value \<Rightarrow> bool" where
  "read_only_of N addr chain chain' \<longleftrightarrow>
     value_ChainSelector chain' = value_ChainSelector chain \<and>
     (case chain of
        EvmChain c \<Rightarrow> chain_keys chain' = chain_keys chain \<and>
          (\<forall>o1. ec_DeployerKey c = Some o1 \<longrightarrow>
             (\<exists>k \<in> N. chain' = EvmChain (c\<lparr>ec_DeployerKey := Some (o1\<lparr>to_From := addr k\<rparr>)\<rparr>)))
      | CantonChain c \<Rightarrow> chain' = chain
      | SolanaChain c \<Rightarrow> chain_keys chain' \<subseteq> N \<and> (\<exists>c'. chain' = SolanaChain c' \<and> sc_KeypairPath c' = sc_KeypairPath c)
      | _ \<Rightarrow> chain_keys chain' \<subseteq> N)"

definition makes_keys :: "('cl, 'k, 'e, 'w) key_lib \<Rightarrow> 'k set \<Rightarrow> bool" where
  "makes_keys L N \<longleftrightarrow> (\<forall>w k w'. kl_newKey L w = (Inr k, w') \<longrightarrow> k \<in> N)"

lemma makes_keysD: "\<lbrakk>makes_keys L N; kl_newKey L w = (Inr k, w')\<rbrakk> \<Longrightarrow> k \<in> N"
  by (auto simp: makes_keys_def)

lemma value_ReadOnly_law:
  assumes fresh: "makes_keys L N"
    and "value_ReadOnly L c w = (Inr c', w')"
  shows "read_only_of N (kl_address L) c c'"
  using assms(2)
  by (cases c) (auto simp: read_only_of_def chain_keys_def as_value_def evm_ReadOnly_def solana_ReadOnly_def aptos_ReadOnly_def
      sui_ReadOnly_def ton_ReadOnly_def tron_ReadOnly_def canton_ReadOnly_def stellar_ReadOnly_def Let_def
      split: option.splits prod.splits sum.splits dest: makes_keysD [OF fresh])

lemma chain_ReadOnly_law:
  assumes fresh: "makes_keys L N"
    and "chain_ReadOnly L chain w = (Inr ro, w')"
  shows "\<exists>c c'. method_value chain = Some c \<and> ro = ByValue c' \<and> read_only_of N (kl_address L) c c'"
  using assms(2) value_ReadOnly_law [OF fresh]
  by (fastforce simp: chain_ReadOnly_def as_value_def split: option.splits prod.splits sum.splits)

lemma read_only_loop_law:
  assumes fresh: "makes_keys L N"
    and "read_only_loop L b order done w = (Inr b', w')" "distinct order" "set order \<subseteq> dom b"
  shows "\<forall>sel. (sel \<notin> set order \<longrightarrow> b' sel = done sel) \<and>
    (sel \<in> set order \<longrightarrow> (\<exists>c c'. method_value (the (b sel)) = Some c \<and> b' sel = Some (ByValue c') \<and>
       read_only_of N (kl_address L) c c'))"
  using assms(2-4)
proof (induction order arbitrary: "done" w)
  case Nil
  then show ?case by (simp add: NewBlockChains_def)
next
  case (Cons s order)
  then obtain chain where chain: "b s = Some chain" by auto
  obtain r w1 where run: "chain_ReadOnly L chain w = (r, w1)" by fastforce
  then obtain ro where ro: "r = Inr ro" using Cons.prems(1) chain by (cases r) auto
  obtain c c' where c: "method_value chain = Some c" "ro = ByValue c'" "read_only_of N (kl_address L) c c'"
    using chain_ReadOnly_law [OF fresh run [unfolded ro]] by blast
  have "read_only_loop L b order (done(s \<mapsto> ro)) w1 = (Inr b', w')" using Cons.prems(1) chain run ro by simp
  from Cons.IH [OF this] Cons.prems(2,3)
  have IH: "(sel \<notin> set order \<longrightarrow> b' sel = (done(s \<mapsto> ro)) sel) \<and>
    (sel \<in> set order \<longrightarrow> (\<exists>c c'. method_value (the (b sel)) = Some c \<and> b' sel = Some (ByValue c') \<and>
       read_only_of N (kl_address L) c c'))" for sel by simp
  show ?case
  proof (intro allI conjI impI)
    fix sel
    assume "sel \<notin> set (s # order)"
    then show "b' sel = done sel" using IH by simp
  next
    fix sel
    assume "sel \<in> set (s # order)"
    then show "\<exists>c c'. method_value (the (b sel)) = Some c \<and> b' sel = Some (ByValue c') \<and> read_only_of N (kl_address L) c c'"
      using IH c chain Cons.prems(2) by (cases "sel = s") auto
  qed
qed

text \<open>
  C32: read-only chains. When \<open>ReadOnly\<close> succeeds, the collection has the same selectors, and every chain
  keeps its family and selector. A Solana, Aptos, Sui, TON, Tron or Stellar chain then signs with new keys
  only (of \<open>N\<close>, the keys the generator makes); a Solana chain still names the key file of the
  deployer. An EVM chain keeps every key it could sign with: only the address of its deployer key is
  replaced. A Canton chain is unchanged.
\<close>

theorem BlockChains_ReadOnly_keys:
  assumes "makes_keys L N" "iteration_of b order"
    and "BlockChains_ReadOnly L order b w = (Inr b', w')"
  shows "dom b' = dom b \<and> (\<forall>sel chain. b sel = Some chain \<longrightarrow>
    (\<exists>c c'. method_value chain = Some c \<and> b' sel = Some (ByValue c') \<and> read_only_of N (kl_address L) c c'))"
proof -
  have order: "distinct order" "set order = dom b" using assms(2) by (simp_all add: iteration_of_def)
  note law = read_only_loop_law [OF assms(1) assms(3) [unfolded BlockChains_ReadOnly_def] order(1), unfolded order(2)]
  have "b' sel \<noteq> None \<longleftrightarrow> b sel \<noteq> None" for sel
    using law [rule_format, of sel] by (cases "sel \<in> dom b") auto
  then have "dom b' = dom b" by (simp add: dom_def)
  moreover have "\<exists>c c'. method_value chain = Some c \<and> b' sel = Some (ByValue c') \<and> read_only_of N (kl_address L) c c'"
    if "b sel = Some chain" for sel chain
    using law [rule_format, of sel] that by auto
  ultimately show ?thesis by blast
qed

definition example_keys :: "(nat, nat, unit, nat) key_lib" where
  "example_keys = \<lparr>kl_newKey = (\<lambda>w. (Inr (100 + w), w + 1)), kl_address = (\<lambda>k. dec_string k),
     kl_solanaClient = (\<lambda>_. 9), kl_walletError = (\<lambda>_ _ _. None)\<rparr>"

theorem BlockChains_ReadOnly_keys_witness:
  "case BlockChains_ReadOnly example_keys [7, 3] example_collection 0 of
     (Inr b', _) \<Rightarrow> dom b' = {3, 7} \<and> (\<exists>c. b' 7 = Some (ByValue c) \<and> 42 \<in> chain_keys c)
   | (Inl _, _) \<Rightarrow> False"
proof -
  define N where "N = {k. 100 \<le> (k::nat)}"
  have fresh: "makes_keys example_keys N"
    by (auto simp: makes_keys_def example_keys_def N_def)
  define b' :: "(nat, nat, unit) block_chains" where "b' = [7 \<mapsto> ByValue (EvmChain (example_evm\<lparr>ec_DeployerKey := Some \<lparr>to_From = dec_string 100, to_Signer = Some 42\<rparr>\<rparr>)),
     3 \<mapsto> ByValue (SuiChain (example_sui\<lparr>uc_Signer := Some 101\<rparr>))]"
  have run: "BlockChains_ReadOnly example_keys [7, 3] example_collection 0 = (Inr b', Suc (Suc 0))"
    by (simp add: BlockChains_ReadOnly_def example_collection_def chain_ReadOnly_def as_value_def evm_ReadOnly_def
        sui_ReadOnly_def example_keys_def example_evm_def NewBlockChains_def b'_def del: dec_string.simps)
  have dom: "dom example_collection = {3, 7}" by (auto simp: example_collection_def)
  have at7: "example_collection 7 = Some (ByValue (EvmChain example_evm))" by (simp add: example_collection_def)
  have old: "42 \<in> chain_keys (EvmChain example_evm :: (nat, nat, unit) chain_value)"
    by (simp add: chain_keys_def example_evm_def)
  from BlockChains_ReadOnly_keys [OF fresh example_collection_ok(2) run] at7
  obtain c c' where "method_value (ByValue (EvmChain example_evm) :: (nat, nat, unit) block_chain) = Some c"
    "b' 7 = Some (ByValue c')" "read_only_of N (kl_address example_keys) c c'" "dom b' = {3, 7}"
    unfolding dom by blast
  then show ?thesis using old run by (auto simp: read_only_of_def)
qed

end
