(* ===== verification/Mcms_Executor.thy ===== *)
theory Mcms_Executor
  imports Blockchains Address_Query Output_Builder
begin

text \<open>
  Signing and executing proposals on the chains of a test environment
  (\<open>engine/test/internal/mcmsutils/\<close>): the signer, the executor, which sets the roots, executes the
  operations and then runs the operations of a scheduled proposal on its timelock, and the search for the
  call proxy of a timelock.

  The mcms library is an argument: its encoders, executors and executables are opaque objects \<open>'x\<close>, its
  signatures \<open>'sig\<close>, and the calls that reach a chain act on a world \<open>'w\<close>. So are the confirmation
  functions of the chain clients and the waiting between two attempts. A proposal is a pointer, which signing
  changes.
\<close>

section \<open>Proposals and the library\<close>

record ('m, 'op, 'sig) mcms_proposal =
  mp_ChainMetadata :: "u64 \<rightharpoonup> 'm"
  mp_Operations :: "(u64 \<times> 'op) list"
  mp_UseSimulatedBackend :: bool
  mp_Signatures :: "'sig list"

text \<open>A timelock proposal is what the output builder builds, with signatures and a salt.\<close>

record ('m, 'tx, 'sig) timelock_proposal = "('m, 'tx) proposal_fields" +
  tp_SaltOverride :: "string option"
  tp_Signatures :: "'sig list"

text \<open>The raw data of a transaction result, by its dynamic type.\<close>

datatype 'r raw_data = RawEvm 'r | RawAptos 'r | RawTon 'r | RawOther

record ('m, 'op, 'sig, 'tx, 'x, 'r, 'cl, 'k, 'p, 'e, 'w) mcms_lib =
  ml_Validate :: "('m, 'op, 'sig) mcms_proposal \<Rightarrow> 'e option"
  ml_ValidateTimelock :: "('m, 'tx, 'sig) timelock_proposal \<Rightarrow> 'e option"
  ml_GetEncoders :: "('m, 'op, 'sig) mcms_proposal \<Rightarrow> 'e + 'x"
  ml_BuildExecutors :: "('cl, 'k, 'p) block_chains \<Rightarrow> (u64 \<rightharpoonup> 'm) \<Rightarrow> 'x \<Rightarrow> proposal_action \<Rightarrow> 'e + 'x"
  ml_NewExecutable :: "('m, 'op, 'sig) mcms_proposal \<Rightarrow> 'x \<Rightarrow> 'e + 'x"
  ml_SetRoot :: "'x \<Rightarrow> u64 \<Rightarrow> 'w \<Rightarrow> ('e + 'r raw_data) \<times> 'w"
  ml_Execute :: "'x \<Rightarrow> nat \<Rightarrow> 'w \<Rightarrow> ('e + 'r raw_data) \<times> 'w"
  ml_BuildConverters :: "(u64 \<rightharpoonup> 'm) \<Rightarrow> 'e + 'x"
  ml_Convert :: "('m, 'tx, 'sig) timelock_proposal \<Rightarrow> 'x \<Rightarrow> 'e + ('m, 'op, 'sig) mcms_proposal"
  ml_BuildTimelockExecutors :: "('cl, 'k, 'p) block_chains \<Rightarrow> (u64 \<rightharpoonup> 'm) \<Rightarrow> proposal_action \<Rightarrow> 'e + 'x"
  ml_NewTimelockExecutable :: "('m, 'tx, 'sig) timelock_proposal \<Rightarrow> 'x \<Rightarrow> 'e + 'x"
  ml_IsReady :: "'x \<Rightarrow> 'w \<Rightarrow> 'e option \<times> 'w"
  ml_TimelockExecute :: "'x \<Rightarrow> nat \<Rightarrow> string option \<Rightarrow> 'w \<Rightarrow> ('e + 'r raw_data) \<times> 'w"
  ml_Confirm :: "'cl option \<Rightarrow> 'r \<Rightarrow> 'w \<Rightarrow> 'e option \<times> 'w"
  ml_Wait :: "nat \<Rightarrow> 'w \<Rightarrow> 'w"
  ml_SigningMessage :: "('m, 'op, 'sig) mcms_proposal \<Rightarrow> 'e + string"
  ml_Sign :: "'k \<Rightarrow> string \<Rightarrow> 'e + string"
  ml_NewSignatureFromBytes :: "string \<Rightarrow> 'e + 'sig"

datatype proxy_error = ErrTimelockNotFound | ErrMultipleTimelocks | ErrProxyNotFound string | ErrMultipleProxies string

datatype 'e confirm_error = ErrRawType | ErrConfirmTx 'e | ErrUnsupportedChain

datatype 'e mcms_error =
    ErrValidate 'e
  | ErrChainNotFound u64
  | ErrEncoders 'e
  | ErrExecutors 'e
  | ErrExecutable 'e
  | ErrSetRoot u64 'e
  | ErrConfirmRoot u64 "'e confirm_error"
  | ErrExecuteOp nat 'e
  | ErrConfirmOp nat "'e confirm_error"
  | ErrConverters 'e
  | ErrConvert 'e
  | ErrExecuteMCMS "'e mcms_error"
  | ErrTimelockAddress u64
  | ErrCallProxy proxy_error
  | ErrNotReady "'e list"
  | ErrSigningMessage 'e
  | ErrSign 'e
  | ErrSignature 'e
  | PanicChain

section \<open>Signing\<close>

definition convertTimelock ::
  "('m, 'op, 'sig, 'tx, 'x, 'r, 'cl, 'k, 'p, 'e, 'w) mcms_lib \<Rightarrow> ('m, 'tx, 'sig) timelock_proposal \<Rightarrow>
   'e mcms_error + ('m, 'op, 'sig) mcms_proposal" where
  "convertTimelock L proposal =
     (case ml_BuildConverters L (pf_ChainMetadata proposal) of
        Inl e \<Rightarrow> Inl (ErrConverters e)
      | Inr converters \<Rightarrow>
          (case ml_Convert L proposal converters of Inl e \<Rightarrow> Inl (ErrConvert e) | Inr p \<Rightarrow> Inr p))"

definition signer_signProposal ::
  "('m, 'op, 'sig, 'tx, 'x, 'r, 'cl, 'k, 'p, 'e, 'w) mcms_lib \<Rightarrow> 'k \<Rightarrow> ('m, 'op, 'sig) mcms_proposal \<Rightarrow>
   'e mcms_error + 'sig" where
  "signer_signProposal L privateKey proposal =
     (case ml_SigningMessage L proposal of
        Inl e \<Rightarrow> Inl (ErrSigningMessage e)
      | Inr payload \<Rightarrow>
          (case ml_Sign L privateKey payload of
             Inl e \<Rightarrow> Inl (ErrSign e)
           | Inr sig \<Rightarrow> (case ml_NewSignatureFromBytes L sig of Inl e \<Rightarrow> Inl (ErrSignature e) | Inr s \<Rightarrow> Inr s)))"

definition SignMCMS ::
  "('m, 'op, 'sig, 'tx, 'x, 'r, 'cl, 'k, 'p, 'e, 'w) mcms_lib \<Rightarrow> 'k \<Rightarrow> ('m, 'op, 'sig) mcms_proposal \<Rightarrow>
   ('e mcms_error, ('m, 'op, 'sig) mcms_proposal) eff" where
  "SignMCMS L privateKey proposal =
     (case ml_Validate L proposal of
        Some e \<Rightarrow> fail (ErrValidate e) proposal
      | None \<Rightarrow>
          let proposal = proposal\<lparr>mp_UseSimulatedBackend := True\<rparr> in
          (case signer_signProposal L privateKey proposal of
             Inl e \<Rightarrow> fail e proposal
           | Inr sig \<Rightarrow> ret (proposal\<lparr>mp_Signatures := mp_Signatures proposal @ [sig]\<rparr>)))"

definition SignTimelock ::
  "('m, 'op, 'sig, 'tx, 'x, 'r, 'cl, 'k, 'p, 'e, 'w) mcms_lib \<Rightarrow> 'k \<Rightarrow> ('m, 'tx, 'sig) timelock_proposal \<Rightarrow>
   ('e mcms_error, ('m, 'tx, 'sig) timelock_proposal) eff" where
  "SignTimelock L privateKey timelockProposal =
     (case ml_ValidateTimelock L timelockProposal of
        Some e \<Rightarrow> fail (ErrValidate e) timelockProposal
      | None \<Rightarrow>
          (case convertTimelock L timelockProposal of
             Inl e \<Rightarrow> fail e timelockProposal
           | Inr p \<Rightarrow>
               (case signer_signProposal L privateKey (p\<lparr>mp_UseSimulatedBackend := True\<rparr>) of
                  Inl e \<Rightarrow> fail e timelockProposal
                | Inr sig \<Rightarrow> ret (timelockProposal\<lparr>tp_Signatures := tp_Signatures timelockProposal @ [sig]\<rparr>))))"

section \<open>Chains and confirmations\<close>

text \<open>The chains of the metadata, ranged over in some order.\<close>

fun collect_chains ::
  "('cl, 'k, 'p) block_chains \<Rightarrow> u64 list \<Rightarrow> ('cl, 'k, 'p) block_chains \<Rightarrow> 'e mcms_error + ('cl, 'k, 'p) block_chains" where
  "collect_chains b [] blockchains = Inr blockchains"
| "collect_chains b (selector # order) blockchains =
     (if blockchains selector \<noteq> None then collect_chains b order blockchains
      else
        case GetBySelector b selector of
          Inl _ \<Rightarrow> Inl (ErrChainNotFound selector)
        | Inr chain \<Rightarrow> collect_chains b order (blockchains(selector \<mapsto> chain)))"

definition getBlockchainsForProposal ::
  "('cl, 'k, 'p) block_chains \<Rightarrow> u64 list \<Rightarrow> 'e mcms_error + ('cl, 'k, 'p) block_chains" where
  "getBlockchainsForProposal b order = collect_chains b order Map.empty"

definition getBlockchainsForTimelockProposal ::
  "('cl, 'k, 'p) block_chains \<Rightarrow> u64 list \<Rightarrow> 'e mcms_error + ('cl, 'k, 'p) block_chains" where
  "getBlockchainsForTimelockProposal b order = collect_chains b order Map.empty"

text \<open>\<open>blockchains[selector]\<close>: a missing chain is a nil interface.\<close>

definition chain_at :: "('cl, 'k, 'p) block_chains \<Rightarrow> u64 \<Rightarrow> ('cl, 'k, 'p) block_chain" where
  "chain_at blockchains selector = (case blockchains selector of None \<Rightarrow> NilInterface | Some b \<Rightarrow> b)"

definition confirm_result :: "'e option \<times> 'w \<Rightarrow> 'e confirm_error option \<times> 'w" where
  "confirm_result r = (case r of (err, w) \<Rightarrow> (map_option ErrConfirmTx err, w))"

text \<open>The type switch lists chains by value only.\<close>

definition confirmTransaction ::
  "('m, 'op, 'sig, 'tx, 'x, 'r, 'cl, 'k, 'p, 'e, 'w) mcms_lib \<Rightarrow> ('cl, 'k, 'p) block_chain \<Rightarrow> 'r raw_data \<Rightarrow> 'w \<Rightarrow>
   'e confirm_error option \<times> 'w" where
  "confirmTransaction L blockchain raw w =
     (case blockchain of
        ByValue (EvmChain chain) \<Rightarrow>
          (case raw of RawEvm tx \<Rightarrow> confirm_result (ml_Confirm L (ec_Confirm chain) tx w) | _ \<Rightarrow> (Some ErrRawType, w))
      | ByValue (AptosChain chain) \<Rightarrow>
          (case raw of RawAptos tx \<Rightarrow> confirm_result (ml_Confirm L (ac_Confirm chain) tx w) | _ \<Rightarrow> (Some ErrRawType, w))
      | ByValue (TonChain chain) \<Rightarrow>
          (case raw of RawTon tx \<Rightarrow> confirm_result (ml_Confirm L (tc_Confirm chain) tx w) | _ \<Rightarrow> (Some ErrRawType, w))
      | ByValue (SolanaChain chain) \<Rightarrow> (None, w)
      | _ \<Rightarrow> (Some ErrUnsupportedChain, w))"

text \<open>
  Confirming after a call. The message of the error names the chain, which panics for a nil chain.
\<close>

definition confirm_as ::
  "('m, 'op, 'sig, 'tx, 'x, 'r, 'cl, 'k, 'p, 'e, 'w) mcms_lib \<Rightarrow> ('e confirm_error \<Rightarrow> 'e mcms_error) \<Rightarrow>
   ('cl, 'k, 'p) block_chain \<Rightarrow> 'r raw_data \<Rightarrow> 'w \<Rightarrow> ('e mcms_error, 'w) eff" where
  "confirm_as L wrap b raw w =
     (case confirmTransaction L b raw w of
        (None, w) \<Rightarrow> ret w
      | (Some e, w) \<Rightarrow> if method_value b = None then fail PanicChain w else fail (wrap e) w)"

section \<open>Executing a proposal\<close>

definition set_root ::
  "('m, 'op, 'sig, 'tx, 'x, 'r, 'cl, 'k, 'p, 'e, 'w) mcms_lib \<Rightarrow> 'x \<Rightarrow> ('cl, 'k, 'p) block_chains \<Rightarrow> u64 \<Rightarrow> 'w \<Rightarrow>
   ('e mcms_error, 'w) eff" where
  "set_root L executable blockchains selector w =
     (case ml_SetRoot L executable selector w of
        (Inl e, w) \<Rightarrow> fail (ErrSetRoot selector e) w
      | (Inr txResult, w) \<Rightarrow> confirm_as L (ErrConfirmRoot selector) (chain_at blockchains selector) txResult w)"

definition execute_op ::
  "('m, 'op, 'sig, 'tx, 'x, 'r, 'cl, 'k, 'p, 'e, 'w) mcms_lib \<Rightarrow> 'x \<Rightarrow> ('cl, 'k, 'p) block_chains \<Rightarrow> nat \<times> u64 \<Rightarrow> 'w \<Rightarrow>
   ('e mcms_error, 'w) eff" where
  "execute_op L executable blockchains = (\<lambda>(i, selector) w.
     case ml_Execute L executable i w of
       (Inl e, w) \<Rightarrow> fail (ErrExecuteOp i e) w
     | (Inr txResult, w) \<Rightarrow> confirm_as L (ErrConfirmOp i) (chain_at blockchains selector) txResult w)"

text \<open>
  \<open>action\<close> is the option given by the caller, a schedule by default. The first order is the range of
  \<open>getBlockchainsForProposal\<close>, the second the one of the roots.
\<close>

definition ExecuteMCMS ::
  "('m, 'op, 'sig, 'tx, 'x, 'r, 'cl, 'k, 'p, 'e, 'w) mcms_lib \<Rightarrow> u64 list \<Rightarrow> u64 list \<Rightarrow> ('cl, 'k, 'p) block_chains \<Rightarrow>
   proposal_action option \<Rightarrow> ('m, 'op, 'sig) mcms_proposal \<Rightarrow> 'w \<Rightarrow> ('e mcms_error, 'w) eff" where
  "ExecuteMCMS L order roots b withAction proposal w =
     (let action = (case withAction of None \<Rightarrow> TimelockActionSchedule | Some a \<Rightarrow> a) in
      case ml_Validate L proposal of
        Some e \<Rightarrow> fail (ErrValidate e) w
      | None \<Rightarrow>
          let proposal = proposal\<lparr>mp_UseSimulatedBackend := True\<rparr> in
          (case getBlockchainsForProposal b order of
             Inl e \<Rightarrow> fail e w
           | Inr blockchains \<Rightarrow>
               (case ml_GetEncoders L proposal of
                  Inl e \<Rightarrow> fail (ErrEncoders e) w
                | Inr encoders \<Rightarrow>
                    (case ml_BuildExecutors L b (mp_ChainMetadata proposal) encoders action of
                       Inl e \<Rightarrow> fail (ErrExecutors e) w
                     | Inr executors \<Rightarrow>
                         (case ml_NewExecutable L proposal executors of
                            Inl e \<Rightarrow> fail (ErrExecutable e) w
                          | Inr executable \<Rightarrow>
                              and_then (for_each (set_root L executable blockchains) roots w)
                                (for_each (execute_op L executable blockchains)
                                   (enumerate 0 (map fst (mp_Operations proposal)))))))))"

section \<open>The call proxy of a timelock\<close>

definition findCallProxyAddressForTimelock ::
  "'v semver \<Rightarrow> 'v address_store \<Rightarrow> u64 \<Rightarrow> string \<Rightarrow> proxy_error + string" where
  "findCallProxyAddressForTimelock sv ds selector timelockAddress =
     (let timelockRefs = AddressRefStore_Filter
            [AddressRefByChainSelector selector, AddressRefByType ''RBACTimelock'', AddressRefByAddress timelockAddress] ds in
      if length timelockRefs = 0 then Inl ErrTimelockNotFound
      else if length timelockRefs > 1 then Inl ErrMultipleTimelocks
      else
        let qualifier = ar_Qualifier (timelockRefs ! 0);
            filters = [AddressRefByChainSelector selector, AddressRefByType ''CallProxy'',
              AddressRefByVersion sv (sv_NewVersion sv ''1.0.0'')] @
              (if qualifier \<noteq> [] then [AddressRefByQualifier qualifier] else []);
            callProxyRefs = AddressRefStore_Filter filters ds
        in
        if length callProxyRefs = 0 then Inl (ErrProxyNotFound qualifier)
        else if length callProxyRefs > 1 then Inl (ErrMultipleProxies qualifier)
        else Inr (ar_Address (callProxyRefs ! 0)))"

section \<open>Executing a timelock proposal\<close>

text \<open>
  \<open>retry.Do\<close>: at most as many calls as attempts, waiting between them; the errors of all calls when the
  last one fails.
\<close>

fun retry_do :: "(nat \<Rightarrow> 'w \<Rightarrow> 'w) \<Rightarrow> ('w \<Rightarrow> 'e option \<times> 'w) \<Rightarrow> nat \<Rightarrow> nat \<Rightarrow> 'e list \<Rightarrow> 'w \<Rightarrow> ('e list, 'w) eff" where
  "retry_do wait f n 0 errs w = (Some errs, w)"
| "retry_do wait f n (Suc left) errs w =
     (case f w of
        (None, w) \<Rightarrow> (None, w)
      | (Some e, w) \<Rightarrow> retry_do wait f (n + 1) left (errs @ [e]) (if left = 0 then w else wait n w))"

definition retryAttempts :: nat where
  "retryAttempts = 50"

text \<open>The call proxies of the operations; the empty string is the entry of a chain that is not EVM.\<close>

definition call_proxy ::
  "selectors_lib \<Rightarrow> string \<Rightarrow> 'v semver \<Rightarrow> 'v address_store \<Rightarrow> ('cl, 'k, 'p) block_chains \<Rightarrow> (u64 \<rightharpoonup> string) \<Rightarrow> u64 \<Rightarrow>
   'e mcms_error + string" where
  "call_proxy SL familyEVM sv ds blockchains timelocks selector =
     (case Family SL (chain_at blockchains selector) of
        None \<Rightarrow> Inl PanicChain
      | Some family \<Rightarrow>
          if family = familyEVM then
            (case timelocks selector of
               None \<Rightarrow> Inl (ErrTimelockAddress selector)
             | Some timelockAddress \<Rightarrow>
                 (case findCallProxyAddressForTimelock sv ds selector timelockAddress of
                    Inl e \<Rightarrow> Inl (ErrCallProxy e)
                  | Inr proxyAddr \<Rightarrow> Inr proxyAddr))
          else Inr [])"

fun call_proxies :: "(u64 \<Rightarrow> 'e mcms_error + string) \<Rightarrow> u64 list \<Rightarrow> 'e mcms_error + string list" where
  "call_proxies f [] = Inr []"
| "call_proxies f (selector # selectors) =
     (case f selector of
        Inl e \<Rightarrow> Inl e
      | Inr proxy \<Rightarrow> (case call_proxies f selectors of Inl e \<Rightarrow> Inl e | Inr proxies \<Rightarrow> Inr (proxy # proxies)))"

definition timelock_op ::
  "('m, 'op, 'sig, 'tx, 'x, 'r, 'cl, 'k, 'p, 'e, 'w) mcms_lib \<Rightarrow> 'x \<Rightarrow> ('cl, 'k, 'p) block_chains \<Rightarrow>
   nat \<times> u64 \<times> string \<Rightarrow> 'w \<Rightarrow> ('e mcms_error, 'w) eff" where
  "timelock_op L executable blockchains = (\<lambda>(i, selector, proxy) w.
     case ml_TimelockExecute L executable i (if proxy \<noteq> [] then Some proxy else None) w of
       (Inl e, w) \<Rightarrow> fail (ErrExecuteOp i e) w
     | (Inr tx, w) \<Rightarrow> confirm_as L (ErrConfirmOp i) (chain_at blockchains selector) tx w)"

text \<open>The part on the timelock contract, for a scheduled proposal.\<close>

definition run_timelock ::
  "('m, 'op, 'sig, 'tx, 'x, 'r, 'cl, 'k, 'p, 'e, 'w) mcms_lib \<Rightarrow> selectors_lib \<Rightarrow> string \<Rightarrow> 'v semver \<Rightarrow> 'v address_store \<Rightarrow>
   ('cl, 'k, 'p) block_chains \<Rightarrow> ('cl, 'k, 'p) block_chains \<Rightarrow> (u64 \<rightharpoonup> 'm) \<Rightarrow> ('m, 'tx, 'sig) timelock_proposal \<Rightarrow> 'w \<Rightarrow>
   ('e mcms_error, 'w) eff" where
  "run_timelock L SL familyEVM sv ds b blockchains metadata tp w =
     (case ml_BuildTimelockExecutors L b metadata (pf_Action tp) of
        Inl e \<Rightarrow> fail (ErrExecutors e) w
      | Inr executors \<Rightarrow>
          let selectors = map bo_ChainSelector (pf_Operations tp) in
          (case call_proxies (call_proxy SL familyEVM sv ds blockchains (pf_TimelockAddresses tp)) selectors of
             Inl e \<Rightarrow> fail e w
           | Inr callProxies \<Rightarrow>
               (case ml_NewTimelockExecutable L tp executors of
                  Inl e \<Rightarrow> fail (ErrExecutable e) w
                | Inr executable \<Rightarrow>
                    (case retry_do (ml_Wait L) (ml_IsReady L executable) 0 retryAttempts [] w of
                       (Some errs, w) \<Rightarrow> fail (ErrNotReady errs) w
                     | (None, w) \<Rightarrow>
                         for_each (timelock_op L executable blockchains) (enumerate 0 (zip selectors callProxies)) w))))"

definition ExecuteTimelock ::
  "('m, 'op, 'sig, 'tx, 'x, 'r, 'cl, 'k, 'p, 'e, 'w) mcms_lib \<Rightarrow> selectors_lib \<Rightarrow> string \<Rightarrow> 'v semver \<Rightarrow> 'v address_store \<Rightarrow>
   u64 list \<Rightarrow> u64 list \<Rightarrow> u64 list \<Rightarrow> ('cl, 'k, 'p) block_chains \<Rightarrow> ('m, 'tx, 'sig) timelock_proposal \<Rightarrow> 'w \<Rightarrow>
   ('e mcms_error, 'w) eff" where
  "ExecuteTimelock L SL familyEVM sv ds order order' roots b tp w =
     (case ml_ValidateTimelock L tp of
        Some e \<Rightarrow> fail (ErrValidate e) w
      | None \<Rightarrow>
          (case getBlockchainsForTimelockProposal b order of
             Inl e \<Rightarrow> fail e w
           | Inr blockchains \<Rightarrow>
               (case convertTimelock L tp of
                  Inl e \<Rightarrow> fail e w
                | Inr proposal \<Rightarrow>
                    (case ExecuteMCMS L order' roots b (Some (pf_Action tp)) proposal w of
                       (Some e, w) \<Rightarrow> fail (ErrExecuteMCMS e) w
                     | (None, w) \<Rightarrow>
                         if pf_Action tp \<noteq> TimelockActionSchedule then ret w
                         else run_timelock L SL familyEVM sv ds b blockchains (mp_ChainMetadata proposal) tp w))))"

section \<open>The order of the calls\<close>

text \<open>The calls that send a transaction, as a trace that the world keeps; the other calls leave it alone.\<close>

datatype mcms_event = EvRoot u64 | EvOp nat | EvTimelock nat "string option"

definition timelock_event :: "nat \<Rightarrow> string \<Rightarrow> mcms_event" where
  "timelock_event i proxy = EvTimelock i (if proxy \<noteq> [] then Some proxy else None)"

definition traced ::
  "('m, 'op, 'sig, 'tx, 'x, 'r, 'cl, 'k, 'p, 'e, 'w) mcms_lib \<Rightarrow> ('w \<Rightarrow> mcms_event list) \<Rightarrow> bool" where
  "traced L tr \<longleftrightarrow>
     (\<forall>x s w. tr (snd (ml_SetRoot L x s w)) = tr w @ [EvRoot s]) \<and>
     (\<forall>x i w. tr (snd (ml_Execute L x i w)) = tr w @ [EvOp i]) \<and>
     (\<forall>x i p w. tr (snd (ml_TimelockExecute L x i p w)) = tr w @ [EvTimelock i p]) \<and>
     (\<forall>x w. tr (snd (ml_IsReady L x w)) = tr w) \<and> (\<forall>n w. tr (ml_Wait L n w) = tr w) \<and>
     (\<forall>c r w. tr (snd (ml_Confirm L c r w)) = tr w)"

lemma tracedD:
  assumes "traced L tr"
  shows "ml_SetRoot L x s w = (a, w1) \<Longrightarrow> tr w1 = tr w @ [EvRoot s]"
    and "ml_Execute L x i w = (a, w1) \<Longrightarrow> tr w1 = tr w @ [EvOp i]"
    and "ml_TimelockExecute L x i p w = (a, w1) \<Longrightarrow> tr w1 = tr w @ [EvTimelock i p]"
    and "ml_IsReady L x w = (o1, w1) \<Longrightarrow> tr w1 = tr w" and "tr (ml_Wait L n w) = tr w"
    and "ml_Confirm L c r w = (o1, w1) \<Longrightarrow> tr w1 = tr w"
proof -
  show "ml_SetRoot L x s w = (a, w1) \<Longrightarrow> tr w1 = tr w @ [EvRoot s]"
    using assms unfolding traced_def by (metis snd_conv)
  show "ml_Execute L x i w = (a, w1) \<Longrightarrow> tr w1 = tr w @ [EvOp i]"
    using assms unfolding traced_def by (metis snd_conv)
  show "ml_TimelockExecute L x i p w = (a, w1) \<Longrightarrow> tr w1 = tr w @ [EvTimelock i p]"
    using assms unfolding traced_def by (metis snd_conv)
  show "ml_IsReady L x w = (o1, w1) \<Longrightarrow> tr w1 = tr w" using assms unfolding traced_def by (metis snd_conv)
  show "tr (ml_Wait L n w) = tr w" using assms unfolding traced_def by metis
  show "ml_Confirm L c r w = (o1, w1) \<Longrightarrow> tr w1 = tr w" using assms unfolding traced_def by (metis snd_conv)
qed

lemma for_each_trace:
  assumes "\<And>x w. tr (snd (f x w)) = tr w @ [ev x]"
  shows "\<exists>k. tr (snd (for_each f xs w)) = tr w @ map ev (take k xs) \<and>
    (fst (for_each f xs w) = None \<longrightarrow> tr (snd (for_each f xs w)) = tr w @ map ev xs)"
proof (induction xs arbitrary: w)
  case (Cons x xs)
  obtain eo w1 where step: "f x w = (eo, w1)" by fastforce
  then have tr1: "tr w1 = tr w @ [ev x]" using assms [of x w] by simp
  show ?case
  proof (cases eo)
    case None
    obtain k where "tr (snd (for_each f xs w1)) = tr w1 @ map ev (take k xs) \<and>
      (fst (for_each f xs w1) = None \<longrightarrow> tr (snd (for_each f xs w1)) = tr w1 @ map ev xs)"
      using Cons.IH by blast
    then show ?thesis using step None tr1 by (intro exI [of _ "Suc k"]) auto
  next
    case (Some e)
    then show ?thesis using step tr1 by (intro exI [of _ 1]) simp
  qed
qed simp

lemma confirm_trace:
  assumes "traced L tr"
  shows "tr (snd (confirm_as L wrap b raw w)) = tr w"
proof -
  obtain eo w1 where run: "confirmTransaction L b raw w = (eo, w1)" by fastforce
  have "tr w1 = tr w"
    using run tracedD(6) [OF assms]
    by (auto simp: confirmTransaction_def confirm_result_def split: block_chain.splits chain_value.splits raw_data.splits prod.splits)
  then show ?thesis using run by (simp add: confirm_as_def ret_def fail_def split: option.split)
qed

lemma step_traces:
  assumes "traced L tr"
  shows "tr (snd (set_root L x bc s w)) = tr w @ [EvRoot s]"
    and "tr (snd (execute_op L x bc op w)) = tr w @ [EvOp (fst op)]"
    and "tr (snd (timelock_op L x bc op2 w)) = tr w @ [timelock_event (fst op2) (snd (snd op2))]"
proof -
  show "tr (snd (set_root L x bc s w)) = tr w @ [EvRoot s]"
    using tracedD(1) [OF assms] confirm_trace [OF assms] by (simp add: set_root_def split: prod.split sum.split)
  show "tr (snd (execute_op L x bc op w)) = tr w @ [EvOp (fst op)]"
    using tracedD(2) [OF assms] confirm_trace [OF assms] by (simp add: execute_op_def split: prod.split sum.split)
  show "tr (snd (timelock_op L x bc op2 w)) = tr w @ [timelock_event (fst op2) (snd (snd op2))]"
    using tracedD(3) [OF assms] confirm_trace [OF assms] by (simp add: timelock_op_def timelock_event_def split: prod.split sum.split)
qed

lemma retry_trace:
  assumes "traced L tr"
  shows "tr (snd (retry_do (ml_Wait L) (ml_IsReady L x) n left errs w)) = tr w"
proof (induction left arbitrary: n errs w)
  case (Suc left)
  obtain eo w1 where "ml_IsReady L x w = (eo, w1)" by fastforce
  then show ?case using Suc tracedD(4,5) [OF assms] by (auto split: option.split)
qed simp

lemma collect_chains_law:
  assumes "collect_chains b order m = (Inr bc :: 'e mcms_error + ('cl, 'k, 'p) block_chains)"
  shows "\<forall>s. bc s = (if m s \<noteq> None then m s else if s \<in> set order then b s else None) \<and>
    (s \<in> set order \<longrightarrow> m s \<noteq> None \<or> b s \<noteq> None)"
  using assms
proof (induction order arbitrary: m)
  case (Cons a order)
  show ?case
  proof (cases "m a")
    case (Some c)
    then show ?thesis using Cons.IH [of m] Cons.prems by auto
  next
    case None
    then obtain c where c: "b a = Some c"
        "collect_chains b order (m(a \<mapsto> c)) = (Inr bc :: 'e mcms_error + ('cl, 'k, 'p) block_chains)"
      using Cons.prems by (auto simp: GetBySelector_def split: option.splits)
    show ?thesis
    proof
      fix s
      show "bc s = (if m s \<noteq> None then m s else if s \<in> set (a # order) then b s else None) \<and>
        (s \<in> set (a # order) \<longrightarrow> m s \<noteq> None \<or> b s \<noteq> None)"
        using spec [OF Cons.IH [OF c(2)], of s] None c(1) by (cases "s = a") auto
    qed
  qed
qed simp

text \<open>What a complete run calls: the roots, the operations, and for a schedule the timelock's operations.\<close>

definition timelock_events :: "string list \<Rightarrow> mcms_event list" where
  "timelock_events proxies = map (\<lambda>x. timelock_event (fst x) (snd x)) (enumerate 0 proxies)"

lemma timelock_events_zip:
  "length xs = length proxies \<Longrightarrow>
   map (\<lambda>x. timelock_event (fst x) (snd (snd x))) (enumerate n (zip xs proxies)) =
   map (\<lambda>x. timelock_event (fst x) (snd x)) (enumerate n proxies)"
  by (induction xs proxies arbitrary: n rule: list_induct2) simp_all

definition op_events :: "nat \<Rightarrow> mcms_event list" where
  "op_events n = map EvOp [0..<n]"

lemma op_events_enumerate: "map (\<lambda>op. EvOp (fst op)) (enumerate 0 xs) = op_events (length xs)"
proof -
  have "map (\<lambda>op. EvOp (fst op)) (zip [0..<length xs] xs) = map EvOp (map fst (zip [0..<length xs] xs))"
    by (simp only: map_map comp_def)
  then show ?thesis by (simp add: op_events_def enumerate_eq_zip)
qed

lemma call_proxies_law:
  "call_proxies f xs = Inr proxies \<Longrightarrow> length proxies = length xs \<and> (\<forall>i < length xs. f (xs ! i) = Inr (proxies ! i))"
proof (induction xs arbitrary: proxies)
  case (Cons x xs)
  then obtain a as where a: "f x = Inr a" "call_proxies f xs = Inr as" "proxies = a # as"
    by (auto split: sum.splits)
  then show ?case using Cons.IH [OF a(2)] by (auto simp: less_Suc_eq_0_disj)
qed simp

lemma take_map_prefix: "Sublist.prefix (map ev (take k xs)) (map ev xs)"
  by (metis take_is_prefix take_map)

lemma ExecuteMCMS_trace:
  assumes "traced L tr"
  shows "\<exists>evs. tr (snd (ExecuteMCMS L order roots b act proposal w)) = tr w @ evs \<and>
    Sublist.prefix evs (map EvRoot roots @ op_events (length (mp_Operations proposal))) \<and>
    (fst (ExecuteMCMS L order roots b act proposal w) = None \<longrightarrow>
       evs = map EvRoot roots @ op_events (length (mp_Operations proposal)))"
proof -
  have loops: "\<exists>evs. tr (snd (and_then (for_each (set_root L x bc) roots w) (for_each (execute_op L x bc) (enumerate 0 ops)))) = tr w @ evs \<and>
      Sublist.prefix evs (map EvRoot roots @ op_events (length ops)) \<and>
      (fst (and_then (for_each (set_root L x bc) roots w) (for_each (execute_op L x bc) (enumerate 0 ops))) = None \<longrightarrow>
        evs = map EvRoot roots @ op_events (length ops))" for x bc and ops :: "u64 list"
  proof -
    obtain eo w1 where r1: "for_each (set_root L x bc) roots w = (eo, w1)" by fastforce
    obtain k where k: "tr w1 = tr w @ map EvRoot (take k roots)" "eo = None \<longrightarrow> tr w1 = tr w @ map EvRoot roots"
      using for_each_trace [of tr "set_root L x bc" EvRoot roots w, OF step_traces(1) [OF assms]] r1 by auto
    show ?thesis
    proof (cases eo)
      case (Some e)
      then show ?thesis
        using r1 k(1) by (intro exI [of _ "map EvRoot (take k roots)"]) (simp add: take_map_prefix prefix_prefix)
    next
      case None
      obtain k2 where "tr (snd (for_each (execute_op L x bc) (enumerate 0 ops) w1)) = tr w1 @ map (\<lambda>op. EvOp (fst op)) (take k2 (enumerate 0 ops)) \<and>
        (fst (for_each (execute_op L x bc) (enumerate 0 ops) w1) = None \<longrightarrow>
          tr (snd (for_each (execute_op L x bc) (enumerate 0 ops) w1)) = tr w1 @ map (\<lambda>op. EvOp (fst op)) (enumerate 0 ops))"
        using for_each_trace [of tr "execute_op L x bc" "\<lambda>op. EvOp (fst op)" "enumerate 0 ops" w1, OF step_traces(2) [OF assms]] by (elim exE)
      moreover have "Sublist.prefix (map (\<lambda>op. EvOp (fst op)) (take k2 (enumerate 0 ops))) (op_events (length ops))"
        unfolding op_events_enumerate [symmetric] by (rule take_map_prefix)
      ultimately show ?thesis
        using r1 k(2) None
        by (intro exI [of _ "map EvRoot roots @ map (\<lambda>op. EvOp (fst op)) (take k2 (enumerate 0 ops))"])
          (auto simp: op_events_enumerate)
    qed
  qed
  show ?thesis
    using loops [where ops = "map fst (mp_Operations proposal)"]
    by (auto simp: ExecuteMCMS_def Let_def fail_def split: option.split sum.split)
qed

text \<open>
  The proxy of a timelock in the records of a data store: the timelock's record is the only one of its chain with its
  type and address; the proxy's is the only one of version 1.0.0 on the chain, with the timelock's qualifier if it has one.
\<close>

definition is_proxy_of :: "'v semver \<Rightarrow> 'v address_ref list \<Rightarrow> u64 \<Rightarrow> string \<Rightarrow> string \<Rightarrow> bool" where
  "is_proxy_of sv records selector timelockAddress a \<longleftrightarrow>
     (\<exists>t c. filter (\<lambda>r. ar_ChainSelector r = selector \<and> ar_Type r = ''RBACTimelock'' \<and> ar_Address r = timelockAddress) records = [t] \<and>
        filter (\<lambda>r. ar_ChainSelector r = selector \<and> ar_Type r = ''CallProxy'' \<and>
          sv_Equal sv (ar_Version r) (sv_NewVersion sv ''1.0.0'') \<and> (ar_Qualifier t \<noteq> [] \<longrightarrow> ar_Qualifier r = ar_Qualifier t)) records = [c] \<and>
        a = ar_Address c)"

lemma findCallProxy_unique:
  "findCallProxyAddressForTimelock sv ds selector timelockAddress = Inr a \<longleftrightarrow>
     is_proxy_of sv (as_Records ds) selector timelockAddress a"
proof -
  have single: "\<not> length xs = 0 \<and> \<not> length xs > 1 \<longleftrightarrow> (\<exists>t. xs = [t])" for xs :: "'a address_ref list"
    by (cases xs; cases "List.tl xs") auto
  define ts where "ts = filter (\<lambda>r. ar_ChainSelector r = selector \<and> ar_Type r = ''RBACTimelock'' \<and> ar_Address r = timelockAddress) (as_Records ds)"
  define cs where "cs q = filter (\<lambda>r. ar_ChainSelector r = selector \<and> ar_Type r = ''CallProxy'' \<and>
    sv_Equal sv (ar_Version r) (sv_NewVersion sv ''1.0.0'') \<and> (q \<noteq> [] \<longrightarrow> ar_Qualifier r = q)) (as_Records ds)" for q
  have t: "AddressRefStore_Filter [AddressRefByChainSelector selector, AddressRefByType ''RBACTimelock'', AddressRefByAddress timelockAddress] ds = ts"
    by (simp add: AddressRefStore_Filter_def AddressRefByChainSelector_def AddressRefByType_def AddressRefByAddress_def ts_def conj_ac)
  have c: "AddressRefStore_Filter ([AddressRefByChainSelector selector, AddressRefByType ''CallProxy'',
       AddressRefByVersion sv (sv_NewVersion sv ''1.0.0'')] @ (if q \<noteq> [] then [AddressRefByQualifier q] else [])) ds = cs q" for q
    by (simp add: AddressRefStore_Filter_def AddressRefByChainSelector_def AddressRefByType_def AddressRefByVersion_def
        AddressRefByQualifier_def cs_def conj_ac)
  have "findCallProxyAddressForTimelock sv ds selector timelockAddress =
     (if length ts = 0 then Inl ErrTimelockNotFound
      else if length ts > 1 then Inl ErrMultipleTimelocks
      else if length (cs (ar_Qualifier (ts ! 0))) = 0 then Inl (ErrProxyNotFound (ar_Qualifier (ts ! 0)))
      else if length (cs (ar_Qualifier (ts ! 0))) > 1 then Inl (ErrMultipleProxies (ar_Qualifier (ts ! 0)))
      else Inr (ar_Address (cs (ar_Qualifier (ts ! 0)) ! 0)))"
    unfolding findCallProxyAddressForTimelock_def Let_def t c ..
  then show ?thesis
    unfolding is_proxy_of_def ts_def [symmetric] cs_def [symmetric]
    using single [of ts] single [of "cs (ar_Qualifier (ts ! 0))"] by (auto split: if_splits)
qed

definition full_run ::
  "u64 list \<Rightarrow> ('m, 'tx, 'sig) timelock_proposal \<Rightarrow> ('m, 'op, 'sig) mcms_proposal \<Rightarrow> string list \<Rightarrow> mcms_event list" where
  "full_run roots tp p proxies =
     map EvRoot roots @ op_events (length (mp_Operations p)) @
     (if pf_Action tp = TimelockActionSchedule then timelock_events proxies else [])"

text \<open>Each operation with its proxy: found for an EVM chain, empty for another.\<close>

definition proxies_ok ::
  "selectors_lib \<Rightarrow> string \<Rightarrow> 'v semver \<Rightarrow> 'v address_store \<Rightarrow> ('cl, 'k, 'p) block_chains \<Rightarrow> ('m, 'tx, 'sig) timelock_proposal \<Rightarrow>
   string list \<Rightarrow> bool" where
  "proxies_ok SL familyEVM sv ds b tp proxies \<longleftrightarrow>
     length proxies = length (pf_Operations tp) \<and>
     (\<forall>i < length proxies. let s = bo_ChainSelector (pf_Operations tp ! i) in
        \<exists>chain family. b s = Some chain \<and> Family SL chain = Some family \<and>
          (if family = familyEVM
           then \<exists>t. pf_TimelockAddresses tp s = Some t \<and> is_proxy_of sv (as_Records ds) s t (proxies ! i)
           else proxies ! i = []))"

lemma call_proxy_Inr:
  assumes "call_proxy SL familyEVM sv ds bc timelocks s = Inr a" "bc s = None \<or> bc s = b s"
  shows "\<exists>chain family. b s = Some chain \<and> Family SL chain = Some family \<and>
    (if family = familyEVM then \<exists>t. timelocks s = Some t \<and> is_proxy_of sv (as_Records ds) s t a else a = [])"
proof -
  obtain family where family: "Family SL (chain_at bc s) = Some family"
    using assms(1) by (auto simp: call_proxy_def split: option.splits)
  then obtain chain where at: "bc s = Some chain" by (auto simp: chain_at_def Family_def split: option.splits)
  then have chain: "b s = Some chain" using assms(2) by auto
  have "Family SL chain = Some family" using at family by (simp add: chain_at_def)
  have "if family = familyEVM then \<exists>t. timelocks s = Some t \<and> is_proxy_of sv (as_Records ds) s t a else a = []"
    using assms(1) family
    by (auto simp: call_proxy_def findCallProxy_unique [symmetric] split: option.splits sum.splits if_splits)
  with chain \<open>Family SL chain = Some family\<close> show ?thesis by blast
qed

lemma run_timelock_cases:
  fixes L :: "('m, 'op, 'sig, 'tx, 'x, 'r, 'cl, 'k, 'p, 'e, 'w) mcms_lib"
  assumes "run_timelock L SL familyEVM sv ds b bc metadata tp w = (eo, w')"
  obtains (early) "eo \<noteq> None" "w' = w"
    | (not_ready) executable errs where "eo = Some (ErrNotReady errs)"
        "retry_do (ml_Wait L) (ml_IsReady L executable) 0 retryAttempts [] w = (Some errs, w')"
    | (ready) proxies executable w1 where
        "call_proxies (call_proxy SL familyEVM sv ds bc (pf_TimelockAddresses tp)) (map bo_ChainSelector (pf_Operations tp)) =
           (Inr proxies :: 'e mcms_error + string list)"
        "retry_do (ml_Wait L) (ml_IsReady L executable) 0 retryAttempts [] w = (None, w1)"
        "for_each (timelock_op L executable bc) (enumerate 0 (zip (map bo_ChainSelector (pf_Operations tp)) proxies)) w1 = (eo, w')"
proof (cases "ml_BuildTimelockExecutors L b metadata (pf_Action tp)")
  case (Inl e)
  then show ?thesis using assms early by (auto simp: run_timelock_def Let_def fail_def)
next
  case executors: (Inr executors)
  show ?thesis
  proof (cases "call_proxies (call_proxy SL familyEVM sv ds bc (pf_TimelockAddresses tp)) (map bo_ChainSelector (pf_Operations tp))
      :: 'e mcms_error + string list")
    case (Inl e)
    then show ?thesis using assms executors early by (auto simp: run_timelock_def Let_def fail_def)
  next
    case proxies: (Inr proxies)
    show ?thesis
    proof (cases "ml_NewTimelockExecutable L tp executors")
      case (Inl e)
      then show ?thesis using assms executors proxies early by (auto simp: run_timelock_def Let_def fail_def)
    next
      case (Inr executable)
      obtain r w1 where r: "retry_do (ml_Wait L) (ml_IsReady L executable) 0 retryAttempts [] w = (r, w1)" by fastforce
      show ?thesis
        using assms executors proxies Inr r not_ready [of "the r" executable] ready [OF proxies, of executable w1]
        by (cases r) (simp_all add: run_timelock_def Let_def fail_def)
    qed
  qed
qed

lemma run_timelock_trace:
  fixes L :: "('m, 'op, 'sig, 'tx, 'x, 'r, 'cl, 'k, 'p, 'e, 'w) mcms_lib"
  assumes "traced L tr" "\<And>s. bc s = None \<or> bc s = b s"
    and run: "run_timelock L SL familyEVM sv ds b bc metadata tp w = (eo, w')"
  shows "eo \<noteq> None \<and> tr w' = tr w \<or>
    (\<exists>proxies evs. proxies_ok SL familyEVM sv ds b tp proxies \<and> tr w' = tr w @ evs \<and>
       Sublist.prefix evs (timelock_events proxies) \<and> (eo = None \<longrightarrow> evs = timelock_events proxies))"
  using run
proof (cases rule: run_timelock_cases)
  case early
  then show ?thesis by simp
next
  case (not_ready executable errs)
  then have "tr w' = tr w" using retry_trace [OF assms(1)] by (metis snd_conv)
  then show ?thesis using not_ready by simp
next
  case (ready proxies executable w1)
  define selectors where "selectors = map bo_ChainSelector (pf_Operations tp)"
  note proxies = ready(1) [folded selectors_def] and ops = ready(3) [folded selectors_def]
  have tr1: "tr w1 = tr w" using ready(2) retry_trace [OF assms(1)] by (metis snd_conv)
  note law = call_proxies_law [OF proxies]
  have evs: "map (\<lambda>op. timelock_event (fst op) (snd (snd op))) (enumerate 0 (zip selectors proxies)) = timelock_events proxies"
    using law timelock_events_zip [of selectors proxies 0] by (simp add: timelock_events_def)
  have "\<exists>k. tr w' = tr w1 @ map (\<lambda>op. timelock_event (fst op) (snd (snd op))) (take k (enumerate 0 (zip selectors proxies))) \<and>
    (eo = None \<longrightarrow> tr w' = tr w1 @ map (\<lambda>op. timelock_event (fst op) (snd (snd op))) (enumerate 0 (zip selectors proxies)))"
    using for_each_trace [of tr "timelock_op L executable bc" "\<lambda>op. timelock_event (fst op) (snd (snd op))"
        "enumerate 0 (zip selectors proxies)" w1, OF step_traces(3) [OF assms(1)]]
    unfolding ops fst_conv snd_conv .
  then obtain k where "tr w' = tr w1 @ map (\<lambda>op. timelock_event (fst op) (snd (snd op))) (take k (enumerate 0 (zip selectors proxies))) \<and>
    (eo = None \<longrightarrow> tr w' = tr w1 @ map (\<lambda>op. timelock_event (fst op) (snd (snd op))) (enumerate 0 (zip selectors proxies)))"
    by (elim exE)
  moreover have "Sublist.prefix (map (\<lambda>op. timelock_event (fst op) (snd (snd op))) (take k (enumerate 0 (zip selectors proxies)))) (timelock_events proxies)"
    unfolding evs [symmetric] by (rule take_map_prefix)
  moreover have "proxies_ok SL familyEVM sv ds b tp proxies"
    unfolding proxies_ok_def Let_def
  proof (intro conjI allI impI)
    show "length proxies = length (pf_Operations tp)" using law by (simp add: selectors_def)
    fix i
    assume "i < length proxies"
    then have "call_proxy SL familyEVM sv ds bc (pf_TimelockAddresses tp) (bo_ChainSelector (pf_Operations tp ! i)) =
        (Inr (proxies ! i) :: 'e mcms_error + string)"
      using law by (simp add: selectors_def)
    from call_proxy_Inr [where b = b, OF this assms(2) [of "bo_ChainSelector (pf_Operations tp ! i)"]]
    show "\<exists>chain family. b (bo_ChainSelector (pf_Operations tp ! i)) = Some chain \<and> Family SL chain = Some family \<and>
      (if family = familyEVM then \<exists>t. pf_TimelockAddresses tp (bo_ChainSelector (pf_Operations tp ! i)) = Some t \<and>
         is_proxy_of sv (as_Records ds) (bo_ChainSelector (pf_Operations tp ! i)) t (proxies ! i)
       else proxies ! i = [])" .
  qed
  ultimately show ?thesis using tr1 evs by auto
qed

lemma confirmed_chains:
  assumes "getBlockchainsForTimelockProposal b order = (Inr bc :: 'e mcms_error + ('cl, 'k, 'p) block_chains)"
  shows "bc s = None \<or> bc s = b s"
  using spec [OF collect_chains_law [OF assms [unfolded getBlockchainsForTimelockProposal_def]], of s] by auto

text \<open>
  C21: the transactions of a timelock proposal, for a library that keeps a trace. A successful run sets the
  root of every chain, executes the operations of the converted proposal in order, and for a
  scheduled proposal runs each operation on its timelock in order, through the call proxy that belongs to the
  timelock of its chain where the chain is EVM. A run that fails has sent a prefix of this: nothing on a timelock when
  the proposal is not scheduled, or when not every operation has a chain and, on an EVM chain, its own proxy.
\<close>

theorem ExecuteTimelock_trace:
  fixes L :: "('m, 'op, 'sig, 'tx, 'x, 'r, 'cl, 'k, 'p, 'e, 'w) mcms_lib"
  assumes "traced L tr"
  shows "case ExecuteTimelock L SL familyEVM sv ds order order' roots b tp w of
      (None, w') \<Rightarrow> \<exists>p proxies. convertTimelock L tp = Inr p \<and> tr w' = tr w @ full_run roots tp p proxies \<and>
        (pf_Action tp = TimelockActionSchedule \<longrightarrow> proxies_ok SL familyEVM sv ds b tp proxies)
    | (Some e, w') \<Rightarrow> tr w' = tr w \<or>
        (\<exists>p evs. convertTimelock L tp = Inr p \<and> tr w' = tr w @ evs \<and>
          (Sublist.prefix evs (map EvRoot roots @ op_events (length (mp_Operations p))) \<or>
           pf_Action tp = TimelockActionSchedule \<and>
             (\<exists>proxies. proxies_ok SL familyEVM sv ds b tp proxies \<and> Sublist.prefix evs (full_run roots tp p proxies))))"
proof -
  obtain eo w' where run: "ExecuteTimelock L SL familyEVM sv ds order order' roots b tp w = (eo, w')" by fastforce
  show ?thesis
  proof (cases "w' = w \<and> eo \<noteq> None")
    case True
    then show ?thesis using run by (auto split: option.split)
  next
    case False
    obtain bc p where bc: "getBlockchainsForTimelockProposal b order = (Inr bc :: 'e mcms_error + ('cl, 'k, 'p) block_chains)"
      and p: "convertTimelock L tp = Inr p"
      using run False by (fastforce simp: ExecuteTimelock_def fail_def split: option.splits sum.splits)
    obtain e1 w1 where m: "ExecuteMCMS L order' roots b (Some (pf_Action tp)) p w = (e1, w1)" by fastforce
    obtain evs1 where evs1: "tr w1 = tr w @ evs1" "Sublist.prefix evs1 (map EvRoot roots @ op_events (length (mp_Operations p)))"
      "e1 = None \<longrightarrow> evs1 = map EvRoot roots @ op_events (length (mp_Operations p))"
      using ExecuteMCMS_trace [OF assms, of order' roots b "Some (pf_Action tp)" p w] m by auto
    have valid: "ml_ValidateTimelock L tp = None"
      using run False by (auto simp: ExecuteTimelock_def fail_def split: option.splits)
    show ?thesis
    proof (cases e1)
      case (Some e)
      then have "eo = Some (ErrExecuteMCMS e)" "w' = w1" using run bc p m valid by (auto simp: ExecuteTimelock_def fail_def)
      then show ?thesis using run p evs1(1,2) by auto
    next
      case None
      note evs1' = evs1(1) evs1(3) [rule_format, OF None]
      show ?thesis
      proof (cases "pf_Action tp = TimelockActionSchedule")
        case False
        then have "eo = None" "w' = w1" using run bc p m valid None by (auto simp: ExecuteTimelock_def ret_def)
        then show ?thesis using run p evs1' False by (auto simp: full_run_def)
      next
        case True
        then have "run_timelock L SL familyEVM sv ds b bc (mp_ChainMetadata p) tp w1 = (eo, w')"
          using run bc p m valid None by (simp add: ExecuteTimelock_def)
        from run_timelock_trace [OF assms confirmed_chains [OF bc] this]
        show ?thesis
        proof (elim disjE exE conjE)
          assume "eo \<noteq> None" "tr w' = tr w1"
          then show ?thesis using run p evs1(2) evs1'(1) by auto
        next
          fix proxies evs
          assume ok: "proxies_ok SL familyEVM sv ds b tp proxies" and evs: "tr w' = tr w1 @ evs"
            "Sublist.prefix evs (timelock_events proxies)" "eo = None \<longrightarrow> evs = timelock_events proxies"
          have sent: "tr w' = tr w @ evs1 @ evs" using evs(1) evs1'(1) by simp
          show ?thesis
          proof (cases eo)
            case None
            then show ?thesis using run p ok evs(3) sent evs1'(2) True by (auto simp: full_run_def)
          next
            case (Some e)
            have "Sublist.prefix (evs1 @ evs) (full_run roots tp p proxies)"
              using evs(2) evs1'(2) True by (simp add: full_run_def)
            then show ?thesis using run p Some ok sent True by auto
          qed
        qed
      qed
    qed
  qed
qed

section \<open>Examples\<close>

definition example_mcms :: "(unit, unit, nat, unit, unit, unit, nat, nat, unit, unit, mcms_event list) mcms_lib" where
  "example_mcms =
     \<lparr>ml_Validate = (\<lambda>_. None), ml_ValidateTimelock = (\<lambda>_. None), ml_GetEncoders = (\<lambda>_. Inr ()),
      ml_BuildExecutors = (\<lambda>_ _ _ _. Inr ()), ml_NewExecutable = (\<lambda>_ _. Inr ()),
      ml_SetRoot = (\<lambda>_ s w. (Inr (RawEvm ()), w @ [EvRoot s])), ml_Execute = (\<lambda>_ i w. (Inr (RawEvm ()), w @ [EvOp i])),
      ml_BuildConverters = (\<lambda>_. Inr ()),
      ml_Convert = (\<lambda>tp _. Inr \<lparr>mp_ChainMetadata = pf_ChainMetadata tp, mp_Operations = [(7, ())],
        mp_UseSimulatedBackend = False, mp_Signatures = tp_Signatures tp\<rparr>),
      ml_BuildTimelockExecutors = (\<lambda>_ _ _. Inr ()), ml_NewTimelockExecutable = (\<lambda>_ _. Inr ()),
      ml_IsReady = (\<lambda>_ w. (None, w)), ml_TimelockExecute = (\<lambda>_ i p w. (Inr (RawEvm ()), w @ [EvTimelock i p])),
      ml_Confirm = (\<lambda>_ _ w. (None, w)), ml_Wait = (\<lambda>_ w. w), ml_SigningMessage = (\<lambda>_. Inr ''m''),
      ml_Sign = (\<lambda>_ _. Inr ''s''), ml_NewSignatureFromBytes = (\<lambda>_. Inr 1)\<rparr>"

definition example_semver :: "nat semver" where
  "example_semver = nat_semver\<lparr>sv_NewVersion := (\<lambda>_. Some 1)\<rparr>"

definition example_refs :: "nat address_store" where
  "example_refs = \<lparr>as_Records =
     [\<lparr>ar_Address = ''0xT'', ar_ChainSelector = 7, ar_Labels = {}, ar_Qualifier = ''q'', ar_Type = ''RBACTimelock'', ar_Version = Some 1\<rparr>,
      \<lparr>ar_Address = ''0xQ'', ar_ChainSelector = 7, ar_Labels = {}, ar_Qualifier = ''r'', ar_Type = ''CallProxy'', ar_Version = Some 1\<rparr>,
      \<lparr>ar_Address = ''0xP'', ar_ChainSelector = 7, ar_Labels = {}, ar_Qualifier = ''q'', ar_Type = ''CallProxy'', ar_Version = Some 1\<rparr>],
     as_DeletedRemoteKeys = []\<rparr>"

definition example_timelock_proposal :: "proposal_action \<Rightarrow> (unit, unit, nat) timelock_proposal" where
  "example_timelock_proposal action =
     \<lparr>pf_Version = ''v1'', pf_Description = [], pf_OverridePreviousRoot = False, pf_ValidUntil = 0, pf_Delay = 0,
      pf_Action = action, pf_Operations = [\<lparr>bo_ChainSelector = 7, bo_Transactions = [()]\<rparr>],
      pf_TimelockAddresses = [7 \<mapsto> ''0xT''], pf_ChainMetadata = [7 \<mapsto> ()], tp_SaltOverride = None, tp_Signatures = []\<rparr>"

lemma example_mcms_traced: "traced example_mcms (\<lambda>w. w)"
  by (simp add: traced_def example_mcms_def)

lemma retry_ready: "retry_do wait (Pair None) n retryAttempts errs w = (None, w)"
proof -
  have attempts: "retryAttempts = Suc 49" by (simp add: retryAttempts_def)
  show ?thesis unfolding attempts retry_do.simps(2) by simp
qed

lemma example_call_proxy: "findCallProxyAddressForTimelock example_semver example_refs 7 ''0xT'' = Inr ''0xP''"
  by (simp add: findCallProxy_unique is_proxy_of_def example_semver_def nat_semver_def example_refs_def)

theorem ExecuteTimelock_trace_witness:
  "ExecuteTimelock example_mcms example_selectors ''evm'' example_semver example_refs [7] [7] [7] example_collection
     (example_timelock_proposal TimelockActionSchedule) [] = (None, [EvRoot 7, EvOp 0, EvTimelock 0 (Some ''0xP'')]) \<and>
   (\<exists>p proxies. convertTimelock example_mcms (example_timelock_proposal TimelockActionSchedule) = Inr p \<and>
     [EvRoot 7, EvOp 0, EvTimelock 0 (Some ''0xP'')] = full_run [7] (example_timelock_proposal TimelockActionSchedule) p proxies)"
proof -
  have run: "ExecuteTimelock example_mcms example_selectors ''evm'' example_semver example_refs [7] [7] [7] example_collection
     (example_timelock_proposal TimelockActionSchedule) [] = (None, [EvRoot 7, EvOp 0, EvTimelock 0 (Some ''0xP'')])"
    using example_call_proxy
    by (simp add: ExecuteTimelock_def getBlockchainsForTimelockProposal_def getBlockchainsForProposal_def GetBySelector_def
        example_collection_def convertTimelock_def ExecuteMCMS_def run_timelock_def call_proxy_def chain_at_def Family_def
        Metadata_Family_def example_selectors_def example_evm_def example_timelock_proposal_def example_mcms_def
        set_root_def execute_op_def timelock_op_def confirm_as_def confirmTransaction_def confirm_result_def retry_ready
        ret_def del: One_nat_def)
  from ExecuteTimelock_trace [OF example_mcms_traced, where tp = "example_timelock_proposal TimelockActionSchedule"
      and SL = example_selectors and familyEVM = "''evm''" and sv = example_semver and ds = example_refs and order = "[7]"
      and order' = "[7]" and roots = "[7]" and b = example_collection and w = "[]"]
  show ?thesis unfolding run by auto
qed

end
