(* ===== verification/Yaml_Input.thy ===== *)
theory Yaml_Input
  imports Go_Json
begin

text \<open>
  Reading the input of a pipeline (\<open>engine/cld/pipeline/input/yaml.go\<close>): from YAML nodes to values of
  type \<open>any\<close>, from values to the JSON input of a changeset, and the order of the changesets.

  The nodes are what the YAML library returns: a graph of nodes that refer to each other by address, in
  which an alias points to the node with its anchor. That node may be one the alias is inside of: the
  library checks this when it decodes a value, not when it only builds nodes. Floating point numbers are
  a type \<open>'f\<close> with the functions of the standard library on them. A Go map with string keys is the list
  of its entries in the order of the keys.
\<close>

section \<open>Values\<close>

datatype 'f any =
    ANil
  | ABool bool
  | AStr string
  | ANum string
  | AFloat 'f
  | AInt int
  | AInt64 int
  | AUint64 nat
  | AList "'f any list"
  | AMap "(string \<times> 'f any) list"
  | AAnyMap "('f any \<times> 'f any) list"

text \<open>
  \<open>ParseFloat\<close>, the test for a value without fraction of at least \<open>1e15\<close> in absolute value (which the infinities
  pass, as they are equal to their truncation), \<open>FormatFloat\<close> with format
  \<open>f\<close> and precision 0 or -1, the verb \<open>%v\<close>, and the JSON of a float (\<open>None\<close> for infinities and NaN).
\<close>

record 'f float_lib =
  fl_Parse :: "string \<Rightarrow> 'f option"
  fl_BigInteger :: "'f \<Rightarrow> bool"
  fl_Fixed :: "'f \<Rightarrow> string"
  fl_Shortest :: "'f \<Rightarrow> string"
  fl_Value :: "'f \<Rightarrow> string"
  fl_JSON :: "'f \<Rightarrow> string option"

text \<open>The regular expression \<open>^-?(0|[1-9][0-9]*)$\<close>.\<close>

definition decimal_digits :: "string \<Rightarrow> bool" where
  "decimal_digits s \<longleftrightarrow> s = ''0'' \<or> (s \<noteq> [] \<and> hd s \<noteq> CHR ''0'' \<and> list_all is_digit s)"

definition decimalInteger :: "string \<Rightarrow> bool" where
  "decimalInteger s \<longleftrightarrow> decimal_digits s \<or> (s \<noteq> [] \<and> hd s = CHR ''-'' \<and> decimal_digits (drop 1 s))"

text \<open>\<open>fmt.Sprintf\<close> with the verb \<open>%v\<close>.\<close>

primrec fmt_value :: "'f float_lib \<Rightarrow> 'f any \<Rightarrow> string" where
  "fmt_value F ANil = ''<nil>''"
| "fmt_value F (ABool b) = (if b then ''true'' else ''false'')"
| "fmt_value F (AStr s) = s"
| "fmt_value F (ANum s) = s"
| "fmt_value F (AFloat f) = fl_Value F f"
| "fmt_value F (AInt i) = int_string i"
| "fmt_value F (AInt64 i) = int_string i"
| "fmt_value F (AUint64 n) = dec_string n"
| "fmt_value F (AList xs) = ''['' @ join_with '' '' (map (fmt_value F) xs) @ '']''"
| "fmt_value F (AMap es) =
     ''map['' @ join_with '' '' (map (\<lambda>(k, v). k @ '':'' @ v) (map (map_prod (\<lambda>k. k) (fmt_value F)) es)) @ '']''"
| "fmt_value F (AAnyMap es) =
     ''map['' @ join_with '' '' (map (\<lambda>(k, v). k @ '':'' @ v) (map (map_prod (fmt_value F) (fmt_value F)) es)) @ '']''"

fun anyToJSONMapKey :: "'f float_lib \<Rightarrow> 'f any \<Rightarrow> string" where
  "anyToJSONMapKey F (AStr s) = s"
| "anyToJSONMapKey F (ANum s) = s"
| "anyToJSONMapKey F (AInt i) = int_string i"
| "anyToJSONMapKey F (AInt64 i) = int_string i"
| "anyToJSONMapKey F (AUint64 n) = dec_string n"
| "anyToJSONMapKey F (AFloat f) = (if fl_BigInteger F f then fl_Fixed F f else fl_Shortest F f)"
| "anyToJSONMapKey F v = fmt_value F v"

section \<open>Nodes\<close>

datatype node_kind = DocumentNode | SequenceNode | MappingNode | ScalarNode | AliasNode | OtherNode

text \<open>The style is a bit set, 0 for a plain scalar. An alias that points nowhere is nil.\<close>

record yaml_node =
  yn_Kind :: node_kind
  yn_Style :: nat
  yn_Tag :: string
  yn_Value :: string
  yn_Content :: "nat list"
  yn_Alias :: "nat option"

type_synonym yaml_nodes = "nat \<Rightarrow> yaml_node"

datatype yaml_error = ErrMergeEntry nat | ErrMergeValue

definition isYAMLMergeKey :: "yaml_nodes \<Rightarrow> nat \<Rightarrow> bool" where
  "isYAMLMergeKey h n \<longleftrightarrow>
     yn_Kind (h n) = ScalarNode \<and> (yn_Tag (h n) = ''!!merge'' \<or> (yn_Value (h n) = ''<<'' \<and> yn_Style (h n) = 0))"

text \<open>The range over \<open>src\<close>, whose keys are distinct, may have any order.\<close>

definition mergeMapInto :: "(string \<times> 'v) list \<Rightarrow> (string \<times> 'v) list \<Rightarrow> (string \<times> 'v) list" where
  "mergeMapInto dst src = fold (\<lambda>(mk, mv) d. if mk \<in> fst ` set d then d else put_entry mk mv d) src dst"

fun merge_items :: "nat \<Rightarrow> 'f any list \<Rightarrow> (string \<times> 'f any) list \<Rightarrow> yaml_error + (string \<times> 'f any) list" where
  "merge_items i [] es = Inr es"
| "merge_items i (v # vs) es =
     (case v of AMap m \<Rightarrow> merge_items (i + 1) vs (mergeMapInto es m) | _ \<Rightarrow> Inl (ErrMergeEntry i))"

definition applyYAMLMerge :: "(string \<times> 'f any) list \<Rightarrow> 'f any \<Rightarrow> yaml_error + (string \<times> 'f any) list" where
  "applyYAMLMerge es value =
     (case value of
        AMap v \<Rightarrow> Inr (mergeMapInto es v)
      | AList v \<Rightarrow> merge_items 0 v es
      | _ \<Rightarrow> Inl ErrMergeValue)"

section \<open>Scalars\<close>

text \<open>\<open>big.Int.SetString\<close> with base 0, on a string without underscores.\<close>

definition digit_of :: "char \<Rightarrow> nat option" where
  "digit_of c =
     (let n = of_char c :: nat in
      if 48 \<le> n \<and> n \<le> 57 then Some (n - 48)
      else if 97 \<le> n \<and> n \<le> 122 then Some (n - 87)
      else if 65 \<le> n \<and> n \<le> 90 then Some (n - 55)
      else None)"

fun digits_in :: "nat \<Rightarrow> nat \<Rightarrow> string \<Rightarrow> nat option" where
  "digits_in b acc [] = Some acc"
| "digits_in b acc (c # s) =
     (case digit_of c of None \<Rightarrow> None | Some d \<Rightarrow> if d < b then digits_in b (acc * b + d) s else None)"

definition nonempty_in :: "nat \<Rightarrow> string \<Rightarrow> nat option" where
  "nonempty_in b s = (if s = [] then None else digits_in b 0 s)"

definition unsigned_base0 :: "string \<Rightarrow> nat option" where
  "unsigned_base0 s =
     (case s of
        CHR ''0'' # c # r \<Rightarrow>
          if c = CHR ''b'' \<or> c = CHR ''B'' then nonempty_in 2 r
          else if c = CHR ''o'' \<or> c = CHR ''O'' then nonempty_in 8 r
          else if c = CHR ''x'' \<or> c = CHR ''X'' then nonempty_in 16 r
          else nonempty_in 8 (c # r)
      | _ \<Rightarrow> nonempty_in 10 s)"

definition SetString_base0 :: "string \<Rightarrow> int option" where
  "SetString_base0 s =
     (case s of
        [] \<Rightarrow> None
      | c # r \<Rightarrow>
          if c = CHR ''-'' then map_option (\<lambda>n. - int n) (unsigned_base0 r)
          else if c = CHR ''+'' then map_option int (unsigned_base0 r)
          else map_option int (unsigned_base0 s))"

text \<open>\<open>strings.EqualFold\<close> is used with a word whose letters fold to nothing outside ASCII.\<close>

definition scalar_to_any :: "'f float_lib \<Rightarrow> yaml_node \<Rightarrow> 'f any" where
  "scalar_to_any F node =
     (if yn_Style node = 0 \<and> decimalInteger (yn_Value node) then ANum (yn_Value node)
      else if yn_Tag node = ''!!int'' then
        (if decimalInteger (yn_Value node) then ANum (yn_Value node)
         else
           case SetString_base0 (filter (\<lambda>c. c \<noteq> CHR ''_'') (yn_Value node)) of
             Some n \<Rightarrow> ANum (int_string n)
           | None \<Rightarrow> AStr (yn_Value node))
      else if yn_Tag node = ''!!float'' then
        (case fl_Parse F (yn_Value node) of None \<Rightarrow> AStr (yn_Value node) | Some f \<Rightarrow> AFloat f)
      else if yn_Tag node = ''!!null'' then ANil
      else if yn_Tag node = ''!!bool'' then ABool (map ascii_lower (yn_Value node) = ''true'')
      else AStr (yn_Value node))"

section \<open>From nodes to values\<close>

text \<open>
  A call that does not return is \<open>None\<close> for every amount of fuel. \<open>sequence_to_any\<close> and \<open>mapping_to_any\<close>
  are the two loops, with the recursive call as an argument.
\<close>

fun sequence_to_any :: "(nat \<Rightarrow> (yaml_error + 'f any) option) \<Rightarrow> nat list \<Rightarrow> (yaml_error + 'f any list) option" where
  "sequence_to_any f [] = Some (Inr [])"
| "sequence_to_any f (n # ns) =
     (case f n of
        None \<Rightarrow> None
      | Some (Inl e) \<Rightarrow> Some (Inl e)
      | Some (Inr v) \<Rightarrow>
          (case sequence_to_any f ns of
             None \<Rightarrow> None
           | Some (Inl e) \<Rightarrow> Some (Inl e)
           | Some (Inr vs) \<Rightarrow> Some (Inr (v # vs))))"

fun mapping_to_any ::
  "'f float_lib \<Rightarrow> yaml_nodes \<Rightarrow> (nat \<Rightarrow> (yaml_error + 'f any) option) \<Rightarrow> nat list \<Rightarrow> (string \<times> 'f any) list \<Rightarrow>
   (yaml_error + (string \<times> 'f any) list) option" where
  "mapping_to_any F h f (key # value # rest) es =
     (if isYAMLMergeKey h key then
        (case f value of
           None \<Rightarrow> None
         | Some (Inl e) \<Rightarrow> Some (Inl e)
         | Some (Inr merged) \<Rightarrow>
             (case applyYAMLMerge es merged of
                Inl e \<Rightarrow> Some (Inl e)
              | Inr es \<Rightarrow> mapping_to_any F h f rest es))
      else
        (case f key of
           None \<Rightarrow> None
         | Some (Inl e) \<Rightarrow> Some (Inl e)
         | Some (Inr keyAny) \<Rightarrow>
             (case f value of
                None \<Rightarrow> None
              | Some (Inl e) \<Rightarrow> Some (Inl e)
              | Some (Inr valueAny) \<Rightarrow>
                  mapping_to_any F h f rest (put_entry (anyToJSONMapKey F keyAny) valueAny es))))"
| "mapping_to_any F h f _ es = Some (Inr es)"

fun yamlNodeToAny :: "'f float_lib \<Rightarrow> yaml_nodes \<Rightarrow> nat \<Rightarrow> nat option \<Rightarrow> (yaml_error + 'f any) option" where
  "yamlNodeToAny F h 0 node = None"
| "yamlNodeToAny F h (Suc fuel) None = Some (Inr ANil)"
| "yamlNodeToAny F h (Suc fuel) (Some n) =
     (case yn_Kind (h n) of
        DocumentNode \<Rightarrow>
          (case yn_Content (h n) of [] \<Rightarrow> Some (Inr ANil) | c # _ \<Rightarrow> yamlNodeToAny F h fuel (Some c))
      | MappingNode \<Rightarrow>
          map_option (map_sum id AMap) (mapping_to_any F h (\<lambda>m. yamlNodeToAny F h fuel (Some m)) (yn_Content (h n)) [])
      | SequenceNode \<Rightarrow>
          map_option (map_sum id AList) (sequence_to_any (\<lambda>m. yamlNodeToAny F h fuel (Some m)) (yn_Content (h n)))
      | ScalarNode \<Rightarrow> Some (Inr (scalar_to_any F (h n)))
      | AliasNode \<Rightarrow> yamlNodeToAny F h fuel (yn_Alias (h n))
      | OtherNode \<Rightarrow> Some (Inr ANil))"

text \<open>The exported version ignores errors.\<close>

definition YamlNodeToAny :: "'f float_lib \<Rightarrow> yaml_nodes \<Rightarrow> nat \<Rightarrow> nat option \<Rightarrow> 'f any option" where
  "YamlNodeToAny F h fuel node =
     map_option (\<lambda>r. case r of Inl _ \<Rightarrow> ANil | Inr v \<Rightarrow> v) (yamlNodeToAny F h fuel node)"

section \<open>The values that are read\<close>

text \<open>
  Values that JSON can carry as they are: no Go integers, no map with keys that are not strings, every number
  a decimal integer, and maps in the order of their keys.
\<close>

primrec json_safe :: "'f any \<Rightarrow> bool" where
  "json_safe ANil \<longleftrightarrow> True"
| "json_safe (ABool b) \<longleftrightarrow> True"
| "json_safe (AStr s) \<longleftrightarrow> True"
| "json_safe (ANum s) \<longleftrightarrow> decimalInteger s"
| "json_safe (AFloat f) \<longleftrightarrow> True"
| "json_safe (AInt i) \<longleftrightarrow> False"
| "json_safe (AInt64 i) \<longleftrightarrow> False"
| "json_safe (AUint64 n) \<longleftrightarrow> False"
| "json_safe (AList xs) \<longleftrightarrow> list_all (\<lambda>b. b) (map json_safe xs)"
| "json_safe (AMap es) \<longleftrightarrow> key_sorted es \<and> list_all snd (map (map_prod (\<lambda>k. k) json_safe) es)"
| "json_safe (AAnyMap es) \<longleftrightarrow> False"

definition safe_map :: "(string \<times> 'f any) list \<Rightarrow> bool" where
  "safe_map es \<longleftrightarrow> key_sorted es \<and> (\<forall>x \<in> set es. json_safe (snd x))"

lemma json_safe_containers [simp]:
  "json_safe (AList xs) \<longleftrightarrow> (\<forall>x \<in> set xs. json_safe x)"
  "json_safe (AMap es) \<longleftrightarrow> safe_map es"
  by (auto simp: list_all_iff safe_map_def)

declare json_safe.simps(9,10) [simp del]

lemma safe_map_Nil [simp]: "safe_map []"
  by (simp add: safe_map_def key_sorted_def)

lemma decimal_dec_string: "decimal_digits (dec_string n)"
proof (cases "n = 0")
  case True
  have "dec_string 0 = ''0''" by code_simp
  with True show ?thesis unfolding decimal_digits_def by simp
next
  case False
  have "hd (dec_string n) \<noteq> CHR ''0''" if "n \<noteq> 0" for n
    using that
  proof (induction n rule: dec_string.induct)
    case (1 n)
    show ?case
    proof (cases "n < 10")
      case True
      then have "digit_val (digit_char n) \<noteq> digit_val (CHR ''0'')"
        using 1(2) digit_char_props(2) [of n] by (simp add: digit_val_def)
      then show ?thesis using True by (subst dec_string.simps) auto
    next
      case False
      then show ?thesis using 1(1) by (subst dec_string.simps) simp
    qed
  qed
  with False show ?thesis by (simp add: decimal_digits_def dec_string_digits del: dec_string.simps)
qed

lemma decimalInteger_int_string: "decimalInteger (int_string i)"
  by (simp add: decimalInteger_def int_string_def decimal_dec_string del: dec_string.simps)

lemma scalar_json_safe: "json_safe (scalar_to_any F node)"
  by (auto simp: scalar_to_any_def decimalInteger_int_string split: option.split)

lemma put_entry_safe: "\<lbrakk>safe_map es; json_safe v\<rbrakk> \<Longrightarrow> safe_map (put_entry k v es)"
  using set_put_entry [of k v es] by (auto simp: safe_map_def key_sorted_put_entry)

lemma mergeMapInto_safe: "\<lbrakk>safe_map es; \<forall>x \<in> set m. json_safe (snd x)\<rbrakk> \<Longrightarrow> safe_map (mergeMapInto es m)"
proof (induction m arbitrary: es)
  case (Cons e m)
  obtain k v where e: "e = (k, v)" by (cases e)
  have "safe_map (if k \<in> fst ` set es then es else put_entry k v es)"
    using Cons.prems e put_entry_safe by auto
  from Cons.IH [OF this] Cons.prems(2) show ?case by (simp add: mergeMapInto_def e)
qed (simp add: mergeMapInto_def)

lemma merge_items_safe:
  "\<lbrakk>merge_items i vs es = Inr es'; \<forall>v \<in> set vs. json_safe v; safe_map es\<rbrakk> \<Longrightarrow> safe_map es'"
proof (induction i vs es rule: merge_items.induct)
  case (2 i v vs es)
  then obtain m where v: "v = AMap m" by (auto split: any.splits)
  then have "safe_map (mergeMapInto es m)" using 2(3,4) mergeMapInto_safe [of es m] by (auto simp: safe_map_def)
  then show ?case using 2 v by simp
qed simp

lemma applyYAMLMerge_safe:
  assumes "safe_map es" "json_safe v" "applyYAMLMerge es v = Inr es'"
  shows "safe_map es'"
proof (cases v)
  case (AList vs)
  then show ?thesis using assms merge_items_safe [of 0 vs es es'] by (simp add: applyYAMLMerge_def)
next
  case (AMap m)
  then have "\<forall>x \<in> set m. json_safe (snd x)" using assms(2) by (simp add: safe_map_def)
  then show ?thesis using AMap assms(1,3) mergeMapInto_safe [of es m] by (auto simp: applyYAMLMerge_def)
qed (use assms in \<open>simp_all add: applyYAMLMerge_def\<close>)

lemma sequence_json_safe:
  assumes "\<And>n v. f n = Some (Inr v) \<Longrightarrow> json_safe v"
  shows "sequence_to_any f ns = Some (Inr vs) \<Longrightarrow> \<forall>v \<in> set vs. json_safe v"
proof (induction ns arbitrary: vs)
  case (Cons n ns)
  then show ?case by (auto dest: assms split: option.splits sum.splits)
qed simp

lemma mapping_json_safe:
  assumes "\<And>n v. f n = Some (Inr v) \<Longrightarrow> json_safe v"
  shows "\<lbrakk>mapping_to_any F h f ns es = Some (Inr es'); safe_map es\<rbrakk> \<Longrightarrow> safe_map es'"
  using assms
proof (induction F h f ns es rule: mapping_to_any.induct)
  case (1 F h f key val rest es)
  show ?case
  proof (cases "isYAMLMergeKey h key")
    case True
    then obtain merged es1 where m: "f val = Some (Inr merged)" "applyYAMLMerge es merged = Inr es1"
      "mapping_to_any F h f rest es1 = Some (Inr es')"
      using 1(3) by (auto split: option.splits sum.splits)
    have "safe_map es1" using applyYAMLMerge_safe [OF 1(4) 1(5) [OF m(1)] m(2)] .
    then show ?thesis using 1(1) [OF True m(1) refl m(2) m(3)] 1(5) by simp
  next
    case False
    then obtain k v where m: "f key = Some (Inr k)" "f val = Some (Inr v)"
      "mapping_to_any F h f rest (put_entry (anyToJSONMapKey F k) v es) = Some (Inr es')"
      using 1(3) by (auto split: option.splits sum.splits)
    have "safe_map (put_entry (anyToJSONMapKey F k) v es)" using 1(4) 1(5) [OF m(2)] put_entry_safe by blast
    then show ?thesis using 1(2) False m 1(5) by simp
  qed
qed simp_all

lemma map_result_Inr: "map_option (map_sum id g) r = Some (Inr v) \<longleftrightarrow> (\<exists>x. r = Some (Inr x) \<and> v = g x)"
  by (cases r; cases "the r") auto

lemma yaml_json_safe: "yamlNodeToAny F h fuel node = Some (Inr v) \<Longrightarrow> json_safe v"
proof (induction fuel arbitrary: node v)
  case (Suc fuel)
  note step = Suc.IH
  show ?case
  proof (cases node)
    case (Some n)
    show ?thesis
    proof (cases "yn_Kind (h n)")
      case MappingNode
      then have "map_option (map_sum id AMap) (mapping_to_any F h (\<lambda>m. yamlNodeToAny F h fuel (Some m)) (yn_Content (h n)) []) =
          Some (Inr v)"
        using Suc.prems Some by (simp only: yamlNodeToAny.simps node_kind.case)
      then obtain es where es: "mapping_to_any F h (\<lambda>m. yamlNodeToAny F h fuel (Some m)) (yn_Content (h n)) [] = Some (Inr es)"
        "v = AMap es"
        unfolding map_result_Inr by blast
      have "safe_map es" by (rule mapping_json_safe [OF _ es(1)]) (use step in auto)
      then show ?thesis using es(2) by simp
    next
      case SequenceNode
      then have "map_option (map_sum id AList) (sequence_to_any (\<lambda>m. yamlNodeToAny F h fuel (Some m)) (yn_Content (h n))) =
          Some (Inr v)"
        using Suc.prems Some by (simp only: yamlNodeToAny.simps node_kind.case)
      then obtain vs where vs: "sequence_to_any (\<lambda>m. yamlNodeToAny F h fuel (Some m)) (yn_Content (h n)) = Some (Inr vs)"
        "v = AList vs"
        unfolding map_result_Inr by blast
      have "\<forall>v \<in> set vs. json_safe v" by (rule sequence_json_safe [OF _ vs(1)]) (use step in auto)
      then show ?thesis using vs(2) by simp
    qed (use Suc.prems Some step scalar_json_safe [of F "h n"] in \<open>auto split: list.splits\<close>)
  qed (use Suc.prems in auto)
qed simp

section \<open>Which documents can be read\<close>

text \<open>The nodes whose values the value of a node needs; the key of a merge is not read.\<close>

fun pair_demands :: "yaml_nodes \<Rightarrow> nat list \<Rightarrow> nat list" where
  "pair_demands h (key # value # rest) =
     (if isYAMLMergeKey h key then [value] else [key, value]) @ pair_demands h rest"
| "pair_demands h _ = []"

definition demands_of :: "yaml_nodes \<Rightarrow> nat \<Rightarrow> nat list" where
  "demands_of h n =
     (case yn_Kind (h n) of
        DocumentNode \<Rightarrow> take 1 (yn_Content (h n))
      | MappingNode \<Rightarrow> pair_demands h (yn_Content (h n))
      | SequenceNode \<Rightarrow> yn_Content (h n)
      | AliasNode \<Rightarrow> (case yn_Alias (h n) of None \<Rightarrow> [] | Some m \<Rightarrow> [m])
      | _ \<Rightarrow> [])"

definition demands :: "yaml_nodes \<Rightarrow> (nat \<times> nat) set" where
  "demands h = {(m, n). m \<in> set (demands_of h n)}"

text \<open>A result that no longer depends on the fuel.\<close>

definition settles :: "(nat \<Rightarrow> 'r option) \<Rightarrow> bool" where
  "settles g \<longleftrightarrow> (\<exists>r b. \<forall>fuel \<ge> b. g fuel = Some r)"

lemma settles_const [simp]: "settles (\<lambda>fuel. Some r)"
  by (auto simp: settles_def)

lemma settles_Suc:
  assumes "settles (\<lambda>fuel. g (Suc fuel))"
  shows "settles g"
proof -
  obtain r b where r: "g (Suc fuel) = Some r" if "b \<le> fuel" for fuel using assms by (auto simp: settles_def)
  have "g fuel = Some r" if "Suc b \<le> fuel" for fuel
    using r [of "fuel - 1"] that by (cases fuel) auto
  then show ?thesis by (auto simp: settles_def)
qed

lemma settles_bind:
  assumes "settles g" "\<And>r. settles (k r)"
  shows "settles (\<lambda>fuel. case g fuel of None \<Rightarrow> None | Some r \<Rightarrow> k r fuel)"
proof -
  obtain r b where r: "g fuel = Some r" if "b \<le> fuel" for fuel using assms(1) by (auto simp: settles_def)
  obtain r' b' where r': "k r fuel = Some r'" if "b' \<le> fuel" for fuel using assms(2) [of r] by (auto simp: settles_def)
  have "(case g fuel of None \<Rightarrow> None | Some r \<Rightarrow> k r fuel) = Some r'" if "max b b' \<le> fuel" for fuel
    using r [of fuel] r' [of fuel] that by simp
  then show ?thesis unfolding settles_def by blast
qed

lemma settles_map_option: "settles g \<Longrightarrow> settles (\<lambda>fuel. map_option f (g fuel))"
  unfolding settles_def by (elim exE) (metis option.simps(9))

lemma sequence_settles:
  "(\<And>n. n \<in> set ns \<Longrightarrow> settles (\<lambda>fuel. f fuel n)) \<Longrightarrow> settles (\<lambda>fuel. sequence_to_any (f fuel) ns)"
proof (induction ns)
  case (Cons n ns)
  have rest: "settles (\<lambda>fuel. sequence_to_any (f fuel) ns)" using Cons by simp
  have "settles (\<lambda>fuel. case r of Inl e \<Rightarrow> Some (Inl e) | Inr v \<Rightarrow>
      (case sequence_to_any (f fuel) ns of None \<Rightarrow> None
       | Some r' \<Rightarrow> (case r' of Inl e \<Rightarrow> Some (Inl e) | Inr vs \<Rightarrow> Some (Inr (v # vs)))))" for r
  proof (cases r)
    case (Inr v)
    have "settles (\<lambda>fuel. case r' of Inl e \<Rightarrow> Some (Inl e) | Inr vs \<Rightarrow> Some (Inr (v # vs)))" for r' :: "yaml_error + 'a any list"
      by (cases r') simp_all
    from settles_bind [OF rest this] Inr show ?thesis by simp
  qed simp
  from settles_bind [OF Cons.prems [of n], of "\<lambda>r fuel. case r of Inl e \<Rightarrow> Some (Inl e) | Inr v \<Rightarrow>
      (case sequence_to_any (f fuel) ns of None \<Rightarrow> None
       | Some r' \<Rightarrow> (case r' of Inl e \<Rightarrow> Some (Inl e) | Inr vs \<Rightarrow> Some (Inr (v # vs))))", OF _ this]
  show ?case by simp
qed simp

lemma mapping_settles:
  "(\<And>n. n \<in> set (pair_demands h ns) \<Longrightarrow> settles (\<lambda>fuel. f fuel n)) \<Longrightarrow>
   settles (\<lambda>fuel. mapping_to_any F h (f fuel) ns es)"
proof (induction h ns arbitrary: es rule: pair_demands.induct)
  case (1 h key val rest)
  have rest: "settles (\<lambda>fuel. mapping_to_any F h (f fuel) rest es)" for es using 1 by simp
  have val: "settles (\<lambda>fuel. f fuel val)" using 1(2) by simp
  show ?case
  proof (cases "isYAMLMergeKey h key")
    case True
    have "settles (\<lambda>fuel. case r of Inl e \<Rightarrow> Some (Inl e) | Inr merged \<Rightarrow>
        (case applyYAMLMerge es merged of Inl e \<Rightarrow> Some (Inl e) | Inr es \<Rightarrow> mapping_to_any F h (f fuel) rest es))" for r
      using rest by (cases r; cases "applyYAMLMerge es (projr r)") simp_all
    from settles_bind [OF val this] True show ?thesis by simp
  next
    case False
    then have key: "settles (\<lambda>fuel. f fuel key)" using 1(2) by simp
    have inner: "settles (\<lambda>fuel. case r of Inl e \<Rightarrow> Some (Inl e) | Inr v \<Rightarrow>
        mapping_to_any F h (f fuel) rest (put_entry k v es))" for r k
      using rest by (cases r) simp_all
    have "settles (\<lambda>fuel. case r of Inl e \<Rightarrow> Some (Inl e) | Inr k \<Rightarrow> (case f fuel val of None \<Rightarrow> None
        | Some r' \<Rightarrow> (case r' of Inl e \<Rightarrow> Some (Inl e) | Inr v \<Rightarrow>
            mapping_to_any F h (f fuel) rest (put_entry (anyToJSONMapKey F k) v es))))" for r
      using settles_bind [OF val inner] by (cases r) simp_all
    from settles_bind [OF key this] False show ?thesis by simp
  qed
qed simp_all

lemma node_settles:
  assumes "\<And>m. m \<in> set (demands_of h n) \<Longrightarrow> settles (\<lambda>fuel. yamlNodeToAny F h fuel (Some m))"
  shows "settles (\<lambda>fuel. yamlNodeToAny F h fuel (Some n))"
proof (rule settles_Suc, cases "yn_Kind (h n)")
  case DocumentNode
  then show "settles (\<lambda>fuel. yamlNodeToAny F h (Suc fuel) (Some n))"
    using assms by (cases "yn_Content (h n)") (simp_all add: demands_of_def)
next
  case SequenceNode
  then have "settles (\<lambda>fuel. sequence_to_any (\<lambda>m. yamlNodeToAny F h fuel (Some m)) (yn_Content (h n)))"
    using assms by (intro sequence_settles) (simp add: demands_of_def)
  then show "settles (\<lambda>fuel. yamlNodeToAny F h (Suc fuel) (Some n))"
    using SequenceNode settles_map_option by simp
next
  case MappingNode
  then have "settles (\<lambda>fuel. mapping_to_any F h (\<lambda>m. yamlNodeToAny F h fuel (Some m)) (yn_Content (h n)) [])"
    using assms by (intro mapping_settles) (simp add: demands_of_def)
  then show "settles (\<lambda>fuel. yamlNodeToAny F h (Suc fuel) (Some n))"
    using MappingNode settles_map_option by simp
next
  case AliasNode
  have "settles (\<lambda>fuel. yamlNodeToAny F h fuel None)" by (rule settles_Suc) simp
  then show "settles (\<lambda>fuel. yamlNodeToAny F h (Suc fuel) (Some n))"
    using AliasNode assms by (cases "yn_Alias (h n)") (simp_all add: demands_of_def)
qed simp_all

lemma sequence_demands:
  "\<lbrakk>sequence_to_any f ns = Some (Inr vs); m \<in> set ns\<rbrakk> \<Longrightarrow> \<exists>v. f m = Some (Inr v)"
proof (induction ns arbitrary: vs)
  case (Cons n ns)
  then show ?case by (auto split: option.splits sum.splits)
qed simp

lemma mapping_demands:
  "\<lbrakk>mapping_to_any F h f ns es = Some (Inr es'); m \<in> set (pair_demands h ns)\<rbrakk> \<Longrightarrow> \<exists>v. f m = Some (Inr v)"
proof (induction F h f ns es rule: mapping_to_any.induct)
  case (1 F h f key val rest es)
  show ?case
  proof (cases "isYAMLMergeKey h key")
    case True
    then obtain merged es1 where s: "f val = Some (Inr merged)" "applyYAMLMerge es merged = Inr es1"
      "mapping_to_any F h f rest es1 = Some (Inr es')"
      using 1(3) by (auto split: option.splits sum.splits)
    then show ?thesis using 1(1) [OF True s(1) refl s(2,3)] 1(4) True by auto
  next
    case False
    then obtain k v where s: "f key = Some (Inr k)" "f val = Some (Inr v)"
      "mapping_to_any F h f rest (put_entry (anyToJSONMapKey F k) v es) = Some (Inr es')"
      using 1(3) by (auto split: option.splits sum.splits)
    then show ?thesis using 1(2) [OF False s(1) refl s(2) refl s(3)] 1(4) False by auto
  qed
qed simp_all

lemma value_demands:
  assumes "yamlNodeToAny F h fuel (Some n) = Some (Inr v)" "(m, n) \<in> demands h"
  shows "\<exists>fuel' v'. fuel' < fuel \<and> yamlNodeToAny F h fuel' (Some m) = Some (Inr v')"
proof (cases fuel)
  case (Suc k)
  have m: "m \<in> set (demands_of h n)" using assms(2) by (simp add: demands_def)
  have "\<exists>v'. yamlNodeToAny F h k (Some m) = Some (Inr v')"
  proof (cases "yn_Kind (h n)")
    case DocumentNode
    then show ?thesis using assms(1) m Suc by (cases "yn_Content (h n)") (auto simp: demands_of_def)
  next
    case SequenceNode
    then have "map_option (map_sum id AList) (sequence_to_any (\<lambda>m. yamlNodeToAny F h k (Some m)) (yn_Content (h n))) = Some (Inr v)"
      using assms(1) Suc by (simp only: yamlNodeToAny.simps node_kind.case)
    then show ?thesis
      unfolding map_result_Inr using sequence_demands [of "\<lambda>m. yamlNodeToAny F h k (Some m)"] SequenceNode m
      by (auto simp: demands_of_def)
  next
    case MappingNode
    then have "map_option (map_sum id AMap) (mapping_to_any F h (\<lambda>m. yamlNodeToAny F h k (Some m)) (yn_Content (h n)) []) = Some (Inr v)"
      using assms(1) Suc by (simp only: yamlNodeToAny.simps node_kind.case)
    then show ?thesis
      unfolding map_result_Inr using mapping_demands [of F h "\<lambda>m. yamlNodeToAny F h k (Some m)"] MappingNode m
      by (auto simp: demands_of_def)
  qed (use assms(1) m Suc in \<open>auto simp: demands_of_def split: option.splits\<close>)
  then show ?thesis using Suc by blast
qed (use assms(1) in simp)

lemma value_demands_trancl:
  "(m, n) \<in> (demands h)\<^sup>+ \<Longrightarrow> yamlNodeToAny F h fuel (Some n) = Some (Inr v) \<Longrightarrow>
   \<exists>fuel' v'. fuel' < fuel \<and> yamlNodeToAny F h fuel' (Some m) = Some (Inr v')"
proof (induction arbitrary: fuel v rule: trancl_induct)
  case (base y)
  then show ?case using value_demands by blast
next
  case (step y z)
  then obtain fuel1 v1 where "fuel1 < fuel" "yamlNodeToAny F h fuel1 (Some y) = Some (Inr v1)"
    using value_demands by blast
  then show ?case using step.IH by (meson less_trans)
qed

lemma cyclic_no_value: "(n, n) \<in> (demands h)\<^sup>+ \<Longrightarrow> yamlNodeToAny F h fuel (Some n) \<noteq> Some (Inr v)"
proof (induction fuel arbitrary: v rule: less_induct)
  case (less fuel)
  then show ?case using value_demands_trancl [of n n h F fuel v] by blast
qed

text \<open>
  C26: reading a document of finitely many nodes. When no node is part of its own value, the conversion
  returns, and more fuel does not change what it returns. When some node that the document needs is part of
  its own value, as with an anchor that contains an alias of itself, the document has no value: the
  conversion does not end, unless it meets an error before it comes to that node.
\<close>

theorem yamlNodeToAny_returns:
  assumes "finite {m. (m, n) \<in> (demands h)\<^sup>*}"
  shows "if \<exists>m. (m, n) \<in> (demands h)\<^sup>* \<and> (m, m) \<in> (demands h)\<^sup>+
    then \<forall>fuel v. yamlNodeToAny F h fuel (Some n) \<noteq> Some (Inr v)
    else \<exists>r b. \<forall>fuel. b \<le> fuel \<longrightarrow> yamlNodeToAny F h fuel (Some n) = Some r"
proof (cases "\<exists>m. (m, n) \<in> (demands h)\<^sup>* \<and> (m, m) \<in> (demands h)\<^sup>+")
  case True
  then obtain m where m: "(m, n) \<in> (demands h)\<^sup>*" "(m, m) \<in> (demands h)\<^sup>+" by blast
  have "yamlNodeToAny F h fuel (Some n) \<noteq> Some (Inr v)" for fuel v
  proof (cases "m = n")
    case True
    then show ?thesis using m(2) cyclic_no_value by blast
  next
    case False
    then have "(m, n) \<in> (demands h)\<^sup>+" using m(1) by (simp add: rtrancl_eq_or_trancl)
    then show ?thesis using m(2) cyclic_no_value value_demands_trancl by blast
  qed
  then show ?thesis using True by simp
next
  case False
  define R where "R = {m. (m, n) \<in> (demands h)\<^sup>*}"
  define D where "D = demands h \<inter> R \<times> R"
  have "acyclic D"
  proof (rule acyclicI, intro allI notI)
    fix m
    assume m: "(m, m) \<in> D\<^sup>+"
    then have "(m, m) \<in> (demands h)\<^sup>+" by (rule trancl_mono) (simp add: D_def)
    moreover have "m \<in> R" using m by (induction rule: converse_trancl_induct) (auto simp: D_def)
    ultimately show False using False by (auto simp: R_def)
  qed
  moreover have "finite D" using assms by (auto simp: D_def R_def intro: finite_subset)
  ultimately have wf: "wf D" by (simp add: finite_acyclic_wf)
  have "m \<in> R \<longrightarrow> settles (\<lambda>fuel. yamlNodeToAny F h fuel (Some m))" for m
    using wf
  proof (induction m rule: wf_induct_rule)
    case (less m)
    show ?case
    proof
      assume m: "m \<in> R"
      show "settles (\<lambda>fuel. yamlNodeToAny F h fuel (Some m))"
      proof (rule node_settles)
        fix c
        assume "c \<in> set (demands_of h m)"
        then have c: "(c, m) \<in> demands h" by (simp add: demands_def)
        then have "c \<in> R" using m by (auto simp: R_def intro: converse_rtrancl_into_rtrancl)
        then show "settles (\<lambda>fuel. yamlNodeToAny F h fuel (Some c))" using less [of c] c m by (auto simp: D_def)
      qed
    qed
  qed
  then have "settles (\<lambda>fuel. yamlNodeToAny F h fuel (Some n))" by (simp add: R_def)
  then show ?thesis unfolding if_not_P [OF False] settles_def .
qed

text \<open>A sequence with an anchor whose only element is an alias of the sequence.\<close>

definition example_floats :: "unit float_lib" where
  "example_floats = \<lparr>fl_Parse = (\<lambda>_. None), fl_BigInteger = (\<lambda>_. False), fl_Fixed = (\<lambda>_. ''1''),
     fl_Shortest = (\<lambda>_. ''1''), fl_Value = (\<lambda>_. ''1''), fl_JSON = (\<lambda>_. Some ''1'')\<rparr>"

definition plain_node :: "node_kind \<Rightarrow> string \<Rightarrow> string \<Rightarrow> nat list \<Rightarrow> nat option \<Rightarrow> yaml_node" where
  "plain_node kind tag value content target =
     \<lparr>yn_Kind = kind, yn_Style = 0, yn_Tag = tag, yn_Value = value, yn_Content = content, yn_Alias = target\<rparr>"

definition example_loop :: yaml_nodes where
  "example_loop n =
     (if n = 0 then plain_node SequenceNode ''!!seq'' [] [1] None else plain_node AliasNode [] ''a'' [] (Some 0))"

lemma example_loop_demands: "demands example_loop = {(1, 0)} \<union> {(0, n) | n. n \<noteq> 0}"
  by (auto simp: demands_def demands_of_def example_loop_def plain_node_def split: if_splits)

theorem yamlNodeToAny_returns_witness:
  "\<forall>fuel v. yamlNodeToAny example_floats example_loop fuel (Some 0) \<noteq> Some (Inr v)"
proof -
  have "m \<in> {0, 1}" if "(m, 0) \<in> (demands example_loop)\<^sup>*" for m
    using that by (induction rule: converse_rtrancl_induct) (auto simp: example_loop_demands)
  then have "{m. (m, 0) \<in> (demands example_loop)\<^sup>*} \<subseteq> {0, 1}" by blast
  then have fin: "finite {m. (m, 0) \<in> (demands example_loop)\<^sup>*}" by (rule finite_subset) simp
  have "(1, 0) \<in> demands example_loop" "(0, 1) \<in> demands example_loop"
    unfolding example_loop_demands by auto
  then have "(0, 0) \<in> (demands example_loop)\<^sup>+" by (meson trancl.r_into_trancl trancl.trancl_into_trancl)
  then have cyc: "\<exists>m. (m, 0) \<in> (demands example_loop)\<^sup>* \<and> (m, m) \<in> (demands example_loop)\<^sup>+" by blast
  from yamlNodeToAny_returns [OF fin, of example_floats] show ?thesis unfolding if_P [OF cyc] .
qed

section \<open>What a merge means\<close>

text \<open>
  The entries of a mapping as they are written: a key with its value, or the maps that a merge brings in.
\<close>

datatype 'f map_item = Explicit string "'f any" | Merged "(string \<times> 'f any) list list"

definition merged_maps :: "'f any \<Rightarrow> (string \<times> 'f any) list list" where
  "merged_maps v = (case v of AMap m \<Rightarrow> [m] | AList vs \<Rightarrow> map (\<lambda>x. case x of AMap m \<Rightarrow> m | _ \<Rightarrow> []) vs | _ \<Rightarrow> [])"

definition value_of :: "(yaml_error + 'f any) option \<Rightarrow> 'f any" where
  "value_of r = (case r of Some (Inr v) \<Rightarrow> v | _ \<Rightarrow> ANil)"

fun items_of :: "'f float_lib \<Rightarrow> yaml_nodes \<Rightarrow> (nat \<Rightarrow> (yaml_error + 'f any) option) \<Rightarrow> nat list \<Rightarrow> 'f map_item list" where
  "items_of F h f (key # value # rest) =
     (if isYAMLMergeKey h key then Merged (merged_maps (value_of (f value)))
      else Explicit (anyToJSONMapKey F (value_of (f key))) (value_of (f value))) # items_of F h f rest"
| "items_of F h f _ = []"

text \<open>The last of the values written for a key, and the first of the merged maps that has it.\<close>

definition explicit_value :: "'f map_item list \<Rightarrow> string \<Rightarrow> 'f any option" where
  "explicit_value items k = map_of (rev (concat (map (\<lambda>i. case i of Explicit k v \<Rightarrow> [(k, v)] | Merged _ \<Rightarrow> []) items))) k"

definition merged_value :: "'f map_item list \<Rightarrow> string \<Rightarrow> 'f any option" where
  "merged_value items k = map_of (concat (concat (map (\<lambda>i. case i of Explicit _ _ \<Rightarrow> [] | Merged ms \<Rightarrow> ms) items))) k"

definition or_else :: "'a option \<Rightarrow> 'a option \<Rightarrow> 'a option" where
  "or_else a b = (if a = None then b else a)"

lemma or_else_simps [simp]: "or_else None b = b" "or_else (Some x) b = Some x" "or_else a None = a"
  "or_else (or_else a b) c = or_else a (or_else b c)"
  by (auto simp: or_else_def)

lemma map_add_or_else: "(f ++ g) k = or_else (g k) (f k)"
  by (cases "g k") (auto simp: map_add_def)

lemma mergeMapInto_lookup:
  "map_of (mergeMapInto dst src) k = or_else (map_of dst k) (map_of src k)"
proof (induction src arbitrary: dst)
  case (Cons e src)
  obtain a v where e: "e = (a, v)" by (cases e)
  have key: "(a \<in> fst ` set dst) = (map_of dst a \<noteq> None)" by (simp add: map_of_eq_None_iff)
  have "map_of (if a \<in> fst ` set dst then dst else put_entry a v dst) k =
      or_else (map_of dst k) (if k = a then Some v else None)"
    by (auto simp: key map_of_put_entry or_else_def)
  moreover have "mergeMapInto dst (e # src) = mergeMapInto (if a \<in> fst ` set dst then dst else put_entry a v dst) src"
    by (simp add: mergeMapInto_def e)
  ultimately show ?case using Cons.IH e by simp
qed (simp add: mergeMapInto_def)

lemma merge_items_lookup:
  "merge_items i vs es = Inr es' \<Longrightarrow>
   map_of es' k = or_else (map_of es k) (map_of (concat (map (\<lambda>x. case x of AMap m \<Rightarrow> m | _ \<Rightarrow> []) vs)) k)"
proof (induction i vs es rule: merge_items.induct)
  case (2 i v vs es)
  then obtain m where v: "v = AMap m" by (auto split: any.splits)
  show ?case using 2(1) [of m] 2(2) v by (simp add: mergeMapInto_lookup map_add_or_else)
qed simp

lemma applyYAMLMerge_lookup:
  assumes "applyYAMLMerge es v = Inr es'"
  shows "map_of es' k = or_else (map_of es k) (map_of (concat (merged_maps v)) k)"
proof (cases v)
  case (AList vs)
  then show ?thesis using assms merge_items_lookup [of 0 vs es es' k] by (simp add: applyYAMLMerge_def merged_maps_def)
qed (use assms in \<open>auto simp: applyYAMLMerge_def merged_maps_def mergeMapInto_lookup\<close>)

lemma explicit_value_Cons [simp]:
  "explicit_value (Explicit a v # items) k = or_else (explicit_value items k) (if k = a then Some v else None)"
  "explicit_value (Merged ms # items) k = explicit_value items k"
  by (simp_all add: explicit_value_def map_add_or_else)

lemma merged_value_Cons [simp]:
  "merged_value (Explicit a v # items) k = merged_value items k"
  "merged_value (Merged ms # items) k = or_else (map_of (concat ms) k) (merged_value items k)"
  by (simp_all add: merged_value_def map_add_or_else)

lemma mapping_lookup:
  "mapping_to_any F h f ns es = Some (Inr es') \<Longrightarrow>
   map_of es' k = or_else (explicit_value (items_of F h f ns) k) (or_else (map_of es k) (merged_value (items_of F h f ns) k))"
proof (induction F h f ns es rule: mapping_to_any.induct)
  case (1 F h f key val rest es)
  show ?case
  proof (cases "isYAMLMergeKey h key")
    case True
    then obtain merged es1 where s: "f val = Some (Inr merged)" "applyYAMLMerge es merged = Inr es1"
      "mapping_to_any F h f rest es1 = Some (Inr es')"
      using 1(3) by (auto split: option.splits sum.splits)
    show ?thesis
      using 1(1) [OF True s(1) refl s(2,3)] True s(1) applyYAMLMerge_lookup [OF s(2), of k] by (simp add: value_of_def)
  next
    case False
    then obtain a v where s: "f key = Some (Inr a)" "f val = Some (Inr v)"
      "mapping_to_any F h f rest (put_entry (anyToJSONMapKey F a) v es) = Some (Inr es')"
      using 1(3) by (auto split: option.splits sum.splits)
    show ?thesis
      using 1(2) [OF False s(1) refl s(2) refl s(3)] False s(1,2)
      by (auto simp: value_of_def map_of_put_entry or_else_def)
  qed
qed (simp_all add: explicit_value_def merged_value_def)

text \<open>
  C23: reading a mapping. A key that is written gets the last value written for it, whether it stands before or
  after a merge; any other key gets its value from the first map merged in that has it, in the order in
  which the merges and the maps inside them are written; and no other key is there.
\<close>

theorem mapping_merges:
  assumes "yn_Kind (h n) = MappingNode" "yamlNodeToAny F h (Suc fuel) (Some n) = Some (Inr v)"
  defines "items \<equiv> items_of F h (\<lambda>m. yamlNodeToAny F h fuel (Some m)) (yn_Content (h n))"
  shows "\<exists>es. v = AMap es \<and> key_sorted es \<and>
    (\<forall>k. map_of es k = (if explicit_value items k \<noteq> None then explicit_value items k else merged_value items k))"
proof -
  have "map_option (map_sum id AMap) (mapping_to_any F h (\<lambda>m. yamlNodeToAny F h fuel (Some m)) (yn_Content (h n)) []) = Some (Inr v)"
    using assms(1,2) by (simp only: yamlNodeToAny.simps node_kind.case)
  then obtain es where es: "mapping_to_any F h (\<lambda>m. yamlNodeToAny F h fuel (Some m)) (yn_Content (h n)) [] = Some (Inr es)"
    "v = AMap es"
    unfolding map_result_Inr by blast
  have "key_sorted es" using yaml_json_safe [OF assms(2)] es(2) by (simp add: safe_map_def)
  moreover have "map_of es k = or_else (explicit_value items k) (merged_value items k)" for k
    using mapping_lookup [OF es(1), of k] unfolding items_def by simp
  ultimately show ?thesis using es(2) by (auto simp: or_else_def)
qed

text \<open>A mapping with a key before a merge and one that only the merge has.\<close>

definition example_merge :: yaml_nodes where
  "example_merge n =
     [plain_node MappingNode [] [] [1, 2, 3, 4] None, plain_node ScalarNode ''!!str'' ''a'' [] None,
      plain_node ScalarNode ''!!str'' ''own'' [] None, plain_node ScalarNode ''!!merge'' ''<<'' [] None,
      plain_node MappingNode [] [] [1, 5, 6, 5] None, plain_node ScalarNode ''!!str'' ''base'' [] None,
      plain_node ScalarNode ''!!str'' ''b'' [] None] ! n"

theorem mapping_merges_witness:
  "yamlNodeToAny example_floats example_merge 3 (Some 0) = Some (Inr (AMap [(''a'', AStr ''own''), (''b'', AStr ''base'')])) \<and>
   (\<exists>es. map_of es ''a'' = Some (AStr ''own'') \<and> map_of es ''b'' = Some (AStr ''base'') \<and>
      AMap [(''a'', AStr ''own''), (''b'', AStr ''base'')] = AMap es)"
proof -
  have run: "yamlNodeToAny example_floats example_merge 3 (Some 0) = Some (Inr (AMap [(''a'', AStr ''own''), (''b'', AStr ''base'')]))"
    by code_simp
  then have run': "yamlNodeToAny example_floats example_merge (Suc 2) (Some 0) =
      Some (Inr (AMap [(''a'', AStr ''own''), (''b'', AStr ''base'')]))" by (simp add: numeral_3_eq_3 numeral_2_eq_2)
  have kind: "yn_Kind (example_merge 0) = MappingNode" by code_simp
  define items where "items = items_of example_floats example_merge (\<lambda>m. yamlNodeToAny example_floats example_merge 2 (Some m))
    (yn_Content (example_merge 0))"
  have "explicit_value items ''a'' = Some (AStr ''own'')" "explicit_value items ''b'' = None"
    "merged_value items ''b'' = Some (AStr ''base'')"
    unfolding items_def by code_simp+
  then show ?thesis using mapping_merges [OF kind run', folded items_def] run by auto
qed

end
