(* ===== verification/Go_Path.thy ===== *)
theory Go_Path
  imports Go_Prelude
begin

text \<open>
  The part of \<open>path/filepath\<close> the sources use, on a system whose separator is a slash: \<open>Clean\<close>, \<open>Join\<close>, \<open>Dir\<close>
  and \<open>Base\<close>. They work on the text of a path alone and never look at a file system.
\<close>

section \<open>The functions\<close>

definition path_parts :: "string \<Rightarrow> string list" where
  "path_parts path = split_on (CHR ''/'') path"

definition rooted :: "string \<Rightarrow> bool" where
  "rooted path \<longleftrightarrow> path \<noteq> [] \<and> hd path = CHR ''/''"

text \<open>
  One element of a path, on top of the elements kept so far with the last one first: an empty element and
  a dot are dropped, two dots take back the element before, unless there is none.
\<close>

definition clean_step :: "bool \<Rightarrow> string \<Rightarrow> string list \<Rightarrow> string list" where
  "clean_step r p acc =
     (if p = [] \<or> p = ''.'' then acc
      else if p = ''..'' then
        (case acc of
           [] \<Rightarrow> if r then [] else [p]
         | a # as \<Rightarrow> if a = ''..'' then p # acc else as)
      else p # acc)"

definition clean_parts :: "bool \<Rightarrow> string list \<Rightarrow> string list \<Rightarrow> string list" where
  "clean_parts r ps acc = fold (clean_step r) ps acc"

definition slash_join :: "string list \<Rightarrow> string" where
  "slash_join ps = join_with ''/'' ps"

definition Clean :: "string \<Rightarrow> string" where
  "Clean path =
     (if path = [] then ''.''
      else
        let r = rooted path; ps = rev (clean_parts r (path_parts path) []) in
        if r then CHR ''/'' # slash_join ps
        else if ps = [] then ''.'' else slash_join ps)"

text \<open>\<open>Join\<close> leaves out the empty elements at the front; the others are dropped by \<open>Clean\<close>.\<close>

definition Join :: "string list \<Rightarrow> string" where
  "Join elem =
     (let ps = dropWhile (\<lambda>e. e = []) elem in if ps = [] then [] else Clean (slash_join ps))"

text \<open>What stands behind the last slash, and \<open>Dir\<close>: what stands up to it, cleaned.\<close>

definition last_part :: "string \<Rightarrow> string" where
  "last_part path = last (path_parts path)"

definition Dir :: "string \<Rightarrow> string" where
  "Dir path = Clean (take (length path - length (last_part path)) path)"

section \<open>Laws\<close>

definition ordinary :: "string \<Rightarrow> bool" where
  "ordinary p \<longleftrightarrow> p \<noteq> [] \<and> p \<noteq> ''.'' \<and> p \<noteq> ''..'' \<and> CHR ''/'' \<notin> set p"

lemma clean_step_ordinary [simp]: "ordinary p \<Longrightarrow> clean_step r p acc = p # acc"
  by (auto simp: clean_step_def ordinary_def)

lemma clean_parts_append: "clean_parts r (ps @ qs) acc = clean_parts r qs (clean_parts r ps acc)"
  by (simp add: clean_parts_def)

lemma clean_parts_Nil [simp]: "clean_parts r [] acc = acc"
  by (simp add: clean_parts_def)

lemma clean_parts_Cons [simp]: "clean_parts r (p # ps) acc = clean_parts r ps (clean_step r p acc)"
  by (simp add: clean_parts_def)

lemma clean_parts_ordinary: "\<forall>p \<in> set ps. ordinary p \<Longrightarrow> clean_parts r ps acc = rev ps @ acc"
  by (induction ps arbitrary: acc) auto

lemma path_parts_append: "path_parts (a @ CHR ''/'' # b) = path_parts a @ path_parts b"
proof (induction a)
  case (Cons x a)
  then show ?case
    by (cases "split_on (CHR ''/'') a") (auto simp: path_parts_def)
qed (simp add: path_parts_def)

lemma path_parts_slash_join:
  "ps \<noteq> [] \<Longrightarrow> path_parts (slash_join ps) = concat (map path_parts ps)"
proof (induction ps rule: induct_list012)
  case (3 p q ps)
  have "slash_join (p # q # ps) = p @ CHR ''/'' # slash_join (q # ps)" by (simp add: slash_join_def)
  then show ?case using 3(2) by (simp add: path_parts_append)
qed (simp_all add: slash_join_def)

lemma path_parts_plain [simp]: "CHR ''/'' \<notin> set p \<Longrightarrow> path_parts p = [p]"
  by (simp add: path_parts_def)

lemma path_parts_no_slash: "p \<in> set (path_parts path) \<Longrightarrow> CHR ''/'' \<notin> set p"
  by (simp add: path_parts_def split_on_parts)


text \<open>What is kept: ordinary elements, on top of the dots that nothing could take back.\<close>

definition kept :: "bool \<Rightarrow> string list \<Rightarrow> bool" where
  "kept r acc \<longleftrightarrow> (\<exists>os n. acc = os @ replicate n ''..'' \<and> (\<forall>p \<in> set os. ordinary p) \<and> (r \<longrightarrow> n = 0))"

lemma keptE:
  assumes "kept r acc"
  obtains os n where "acc = os @ replicate n ''..''" "\<forall>p \<in> set os. ordinary p" "r \<Longrightarrow> n = 0"
  using assms unfolding kept_def by blast

lemma kept_Nil [simp]: "kept r []"
  unfolding kept_def by (intro exI [of _ "[]"] exI [of _ 0]) simp

lemma kept_step:
  assumes "kept r acc" "CHR ''/'' \<notin> set p"
  shows "kept r (clean_step r p acc)"
proof -
  obtain os n where acc: "acc = os @ replicate n ''..''" and os: "\<forall>p \<in> set os. ordinary p" and n: "r \<longrightarrow> n = 0"
    using assms(1) by (blast elim: keptE)
  consider "p = [] \<or> p = ''.''" | "p = ''..''" "os = []" | a as where "p = ''..''" "os = a # as" | "ordinary p"
    using assms(2) by (cases os) (auto simp: ordinary_def)
  then show ?thesis
  proof cases
    case 1
    then show ?thesis using assms(1) by (simp add: clean_step_def)
  next
    case 2
    show ?thesis
    proof (cases r)
      case True
      then show ?thesis using acc n 2 by (simp add: clean_step_def)
    next
      case False
      then have "clean_step r p acc = [] @ replicate (Suc n) ''..''"
        using acc 2 by (cases n) (auto simp: clean_step_def)
      then show ?thesis using False unfolding kept_def by (intro exI [of _ "[]"] exI [of _ "Suc n"]) simp
    qed
  next
    case 3
    then have "a \<noteq> ''..''" using os by (simp add: ordinary_def)
    then have "clean_step r p acc = as @ replicate n ''..''" using acc 3 by (simp add: clean_step_def)
    then show ?thesis using os n 3 unfolding kept_def by (intro exI [of _ as] exI [of _ n]) simp
  next
    case 4
    then have "clean_step r p acc = (p # os) @ replicate n ''..''" using acc by simp
    then show ?thesis using os n 4 unfolding kept_def by (intro exI [of _ "p # os"] exI [of _ n]) simp
  qed
qed

lemma kept_parts: "\<lbrakk>kept r acc; \<forall>p \<in> set ps. CHR ''/'' \<notin> set p\<rbrakk> \<Longrightarrow> kept r (clean_parts r ps acc)"
  by (induction ps arbitrary: acc) (auto intro: kept_step)

lemma kept_path: "kept r (clean_parts r (path_parts path) [])"
  by (rule kept_parts) (simp_all add: path_parts_no_slash)

lemma kept_elements: "\<lbrakk>kept r acc; p \<in> set acc\<rbrakk> \<Longrightarrow> p \<noteq> [] \<and> p \<noteq> ''.'' \<and> CHR ''/'' \<notin> set p"
  by (auto elim!: keptE simp: ordinary_def)

lemma clean_dots: "\<not> r \<Longrightarrow> clean_parts r (replicate n ''..'') (replicate m ''..'') = replicate (n + m) ''..''"
proof (induction n arbitrary: m)
  case (Suc n)
  have "clean_step r ''..'' (replicate m ''..'') = replicate (Suc m) ''..''"
    using Suc.prems by (cases m) (simp_all add: clean_step_def)
  then show ?case using Suc.IH [OF Suc.prems, of "Suc m"] by simp
qed simp

lemma clean_kept: "kept r acc \<Longrightarrow> clean_parts r (rev acc) [] = acc"
proof (elim keptE)
  fix os n
  assume a: "acc = os @ replicate n ''..''" "\<forall>p \<in> set os. ordinary p" "r \<Longrightarrow> n = 0"
  have "clean_parts r (replicate n ''..'') [] = replicate n ''..''"
    using a(3) clean_dots [of r n 0] by (cases r) simp_all
  then show "clean_parts r (rev acc) [] = acc"
    using a(1,2) clean_parts_ordinary [of "rev os" r "replicate n ''..''"] by (simp add: clean_parts_append)
qed

section \<open>Cleaned and joined paths\<close>

text \<open>A path as its elements.\<close>

definition cleaned :: "string \<Rightarrow> string list" where
  "cleaned path = rev (clean_parts (rooted path) (path_parts path) [])"

definition path_text :: "bool \<Rightarrow> string list \<Rightarrow> string" where
  "path_text r ps = (if r then CHR ''/'' # slash_join ps else if ps = [] then ''.'' else slash_join ps)"

lemma Clean_cleaned: "path \<noteq> [] \<Longrightarrow> Clean path = path_text (rooted path) (cleaned path)"
  by (simp add: Clean_def cleaned_def path_text_def Let_def)

lemma slash_join_parts:
  assumes "ps \<noteq> []" "\<forall>p \<in> set ps. CHR ''/'' \<notin> set p"
  shows "path_parts (slash_join ps) = ps"
  unfolding path_parts_def slash_join_def by (rule split_on_join [OF assms])

lemma slash_join_first:
  "\<lbrakk>ps \<noteq> []; hd ps \<noteq> []\<rbrakk> \<Longrightarrow> slash_join ps \<noteq> [] \<and> hd (slash_join ps) = hd (hd ps)"
  by (cases ps; cases "tl ps") (auto simp: slash_join_def hd_append neq_Nil_conv)

lemma hd_in_chars: "p \<noteq> [] \<Longrightarrow> c \<notin> set p \<Longrightarrow> hd p \<noteq> c"
  by (cases p) auto

lemma path_text_facts:
  assumes "kept r acc"
  shows "rooted (path_text r (rev acc)) = r" "path_text r (rev acc) \<noteq> []" "cleaned (path_text r (rev acc)) = rev acc"
proof -
  have el: "p \<noteq> [] \<and> p \<noteq> ''.'' \<and> CHR ''/'' \<notin> set p" if "p \<in> set (rev acc)" for p
    using kept_elements [OF assms] that by simp
  have sj: "slash_join (rev acc) \<noteq> []" "hd (slash_join (rev acc)) \<noteq> CHR ''/''" if "rev acc \<noteq> []"
  proof -
    have "hd (rev acc) \<in> set (rev acc)" using that by (rule hd_in_set)
    from el [OF this] slash_join_first [OF that] show "slash_join (rev acc) \<noteq> []" "hd (slash_join (rev acc)) \<noteq> CHR ''/''"
      using hd_in_chars [of "hd (rev acc)" "CHR ''/''"] by auto
  qed
  show ne: "path_text r (rev acc) \<noteq> []" using sj by (auto simp: path_text_def)
  show rt: "rooted (path_text r (rev acc)) = r"
    using sj by (cases "acc = []") (auto simp: path_text_def rooted_def)
  have parts: "path_parts (slash_join (rev acc)) = rev acc" if "acc \<noteq> []"
    using that el by (intro slash_join_parts) auto
  have "clean_parts r (path_parts (path_text r (rev acc))) [] = acc"
  proof (cases "acc = []")
    case True
    have dot: "path_parts ''.'' = [''.'']" "path_parts [] = [[]]" by (simp_all add: path_parts_def)
    have "path_parts [CHR ''/''] = [[], []]" by (simp add: path_parts_def)
    then show ?thesis using True dot by (simp add: path_text_def slash_join_def clean_step_def)
  next
    case False
    have "path_parts (path_text r (rev acc)) = (if r then [[]] else []) @ rev acc"
      using False parts path_parts_append [of "[]" "slash_join (rev acc)"] by (simp add: path_text_def path_parts_def)
    then show ?thesis using clean_kept [OF assms] by (cases r) (simp_all add: clean_step_def)
  qed
  then show "cleaned (path_text r (rev acc)) = rev acc" by (simp add: cleaned_def rt)
qed

lemma kept_cleaned: "kept (rooted path) (rev (cleaned path))"
  by (simp add: cleaned_def kept_path)

lemma Clean_facts:
  assumes "path \<noteq> []"
  shows "Clean path \<noteq> []" "rooted (Clean path) = rooted path" "cleaned (Clean path) = cleaned path"
  using path_text_facts [OF kept_cleaned, of path] assms by (simp_all add: Clean_cleaned)

lemma Clean_idem: "Clean (Clean path) = Clean path"
proof (cases "path = []")
  case True
  have "Clean ''.'' = ''.''" by code_simp
  then show ?thesis using True by (simp add: Clean_def)
next
  case False
  show ?thesis
    unfolding Clean_cleaned [OF Clean_facts(1) [OF False]] Clean_facts(2,3) [OF False]
    by (rule Clean_cleaned [OF False, symmetric])
qed

lemma cleaned_append:
  assumes "path \<noteq> []"
  shows "rooted (path @ CHR ''/'' # rest) = rooted path"
    "cleaned (path @ CHR ''/'' # rest) = rev (clean_parts (rooted path) (path_parts rest) (rev (cleaned path)))"
  using assms by (auto simp: rooted_def cleaned_def path_parts_append clean_parts_append)

text \<open>Joining: the elements after the first are cleaned on top of it.\<close>

lemma Join_path:
  assumes "root \<noteq> []"
  shows "Join (root # ps) \<noteq> []" "rooted (Join (root # ps)) = rooted root"
    "cleaned (Join (root # ps)) = rev (clean_parts (rooted root) (concat (map path_parts ps)) (rev (cleaned root)))"
proof -
  define path where "path = slash_join (root # ps)"
  have J: "Join (root # ps) = Clean path" using assms by (simp add: Join_def path_def)
  have parts: "path_parts path = path_parts root @ concat (map path_parts ps)"
    using path_parts_slash_join [of "root # ps"] by (simp add: path_def)
  have path: "path \<noteq> []" "rooted path = rooted root"
    using assms by (cases ps; simp add: path_def slash_join_def rooted_def)+
  from path(1) show "Join (root # ps) \<noteq> []" unfolding J by (rule Clean_facts)
  show "rooted (Join (root # ps)) = rooted root" unfolding J using path Clean_facts(2) by simp
  show "cleaned (Join (root # ps)) = rev (clean_parts (rooted root) (concat (map path_parts ps)) (rev (cleaned root)))"
    unfolding J Clean_facts(3) [OF path(1)] by (simp add: cleaned_def path(2) parts clean_parts_append)
qed

lemma Join_text: "root \<noteq> [] \<Longrightarrow> Join (root # ps) = path_text (rooted root) (cleaned (Join (root # ps)))"
proof -
  assume "root \<noteq> []"
  then have "Clean (Join (root # ps)) = Join (root # ps)"
    by (simp add: Join_def Clean_idem)
  moreover have "Clean (Join (root # ps)) = path_text (rooted root) (cleaned (Join (root # ps)))"
    unfolding Clean_cleaned [OF Join_path(1) [OF \<open>root \<noteq> []\<close>]] Join_path(2) [OF \<open>root \<noteq> []\<close>] ..
  ultimately show ?thesis by simp
qed

text \<open>Ordinary names are appended, so paths with ordinary names are equal only for equal names.\<close>

lemma concat_ordinary: "\<forall>p \<in> set ps. ordinary p \<Longrightarrow> concat (map path_parts ps) = ps"
  by (induction ps) (auto simp: ordinary_def)

lemma cleaned_Join_names:
  assumes "root \<noteq> []" "\<forall>p \<in> set ps. ordinary p"
  shows "cleaned (Join (root # ps)) = cleaned root @ ps"
  using assms by (simp add: Join_path concat_ordinary clean_parts_ordinary)

lemma Join_names_eq:
  assumes "root \<noteq> []" "\<forall>p \<in> set ps. ordinary p" "\<forall>p \<in> set qs. ordinary p"
  shows "Join (root # ps) = Join (root # qs) \<longleftrightarrow> ps = qs"
  using assms cleaned_Join_names by (metis append_same_eq same_append_eq)

lemma Join_Join:
  assumes "root \<noteq> []"
  shows "Join (Join (root # ps) # qs) = Join (root # ps @ qs)"
proof -
  have "cleaned (Join (Join (root # ps) # qs)) = cleaned (Join (root # ps @ qs))"
    using assms by (simp add: Join_path clean_parts_append)
  then show ?thesis
    using Join_text [of "Join (root # ps)" qs] Join_text [OF assms, of "ps @ qs"] Join_path(1,2) [OF assms] by simp
qed

section \<open>Bare names\<close>

lemma split_last: "\<exists>pre. path = pre @ last_part path \<and> (pre = [] \<or> (\<exists>d. pre = d @ ''/'')) \<and>
   path_parts path = butlast (path_parts pre) @ [last_part path]"
proof (cases "CHR ''/'' \<in> set path")
  case False
  then show ?thesis by (intro exI [of _ "[]"]) (simp add: last_part_def path_parts_def)
next
  case True
  then obtain d b where d: "path = d @ CHR ''/'' # b" "CHR ''/'' \<notin> set b" using split_list_last by fast
  have lp: "path_parts path = path_parts d @ [b]" using d by (simp add: path_parts_append)
  moreover have "path_parts (d @ ''/'') = path_parts d @ [[]]"
    using path_parts_append [of d "[]"] by (simp add: path_parts_def)
  ultimately show ?thesis using d(1) by (intro exI [of _ "d @ ''/''"]) (simp add: last_part_def)
qed

text \<open>Parts that clean to nothing leave what is below them alone.\<close>

lemma dots_stay: "\<not> r \<Longrightarrow> ''..'' \<in> set acc \<Longrightarrow> ''..'' \<in> set (clean_parts r ps acc)"
proof (induction ps arbitrary: acc)
  case (Cons p ps)
  have "''..'' \<in> set (clean_step r p acc)" using Cons.prems by (cases acc) (auto simp: clean_step_def)
  then show ?case using Cons by simp
qed simp

lemma clean_above:
  "\<lbrakk>clean_parts False ps top_acc = ys; ''..'' \<notin> set ys; ''..'' \<notin> set top_acc\<rbrakk> \<Longrightarrow>
   clean_parts r ps (top_acc @ acc) = ys @ acc"
proof (induction ps arbitrary: top_acc)
  case (Cons p ps)
  have no: "''..'' \<notin> set (clean_step False p top_acc)"
    using Cons.prems(1,2) dots_stay [of False "clean_step False p top_acc" ps] by auto
  have "clean_step r p (top_acc @ acc) = clean_step False p top_acc @ acc"
    using no Cons.prems(3) by (cases top_acc) (auto simp: clean_step_def)
  then show ?case using Cons.IH [OF _ Cons.prems(2) no] Cons.prems(1) by simp
qed simp

text \<open>
  A path whose \<open>Dir\<close> is a dot names, under any directory, what its last part names there.
\<close>

lemma Dir_dot_Join:
  assumes "Dir path = ''.''" "dir \<noteq> []"
  shows "Join [dir, path] = Join [dir, last_part path]" and "CHR ''/'' \<notin> set (last_part path)"
proof -
  obtain pre where pre: "path = pre @ last_part path" "pre = [] \<or> (\<exists>d. pre = d @ ''/'')"
    "path_parts path = butlast (path_parts pre) @ [last_part path]"
    using split_last by blast
  have "take (length path - length (last_part path)) path = pre" using pre(1) by (metis append_eq_conv_conj diff_add_inverse2 length_append)
  then have dot: "Clean pre = ''.''" using assms(1) by (simp add: Dir_def)
  have empty: "clean_parts False (butlast (path_parts pre)) [] = []"
  proof (cases "pre = []")
    case True
    then show ?thesis by (simp add: path_parts_def)
  next
    case False
    then obtain d where d: "pre = d @ ''/''" using pre(2) by blast
    have "cleaned (Clean pre) = []" "rooted (Clean pre) = False"
      unfolding dot by code_simp+
    then have c: "cleaned pre = []" "\<not> rooted pre" using Clean_facts [OF False] by simp_all
    have "path_parts pre = path_parts d @ [[]]"
      unfolding d using path_parts_append [of d "[]"] by (simp add: path_parts_def)
    then show ?thesis using c by (simp add: cleaned_def clean_parts_append clean_step_def)
  qed
  show slash: "CHR ''/'' \<notin> set (last_part path)"
    unfolding last_part_def by (rule path_parts_no_slash [of _ path]) (simp add: path_parts_def)
  have "clean_parts (rooted dir) (path_parts path) acc = clean_parts (rooted dir) [last_part path] acc" for acc
    unfolding pre(3) clean_parts_append using clean_above [OF empty, of "rooted dir" acc] by simp
  then have "cleaned (Join [dir, path]) = cleaned (Join [dir, last_part path])"
    using assms(2) slash by (simp add: Join_path)
  then show "Join [dir, path] = Join [dir, last_part path]"
    using Join_text [OF assms(2)] by metis
qed

end
