(* ===== verification/File_System.thy ===== *)
theory File_System
  imports Go_Path Go_Json
begin

text \<open>
  The part of package \<open>os\<close> the sources use: a tree of directories and files. The contents of a file are its
  bytes. The tree is the list of its entries, each with the names on the way from the root, in
  lexical order; that is the order in which \<open>filepath.Walk\<close> visits them. The root itself is not an
  entry, and relative paths start there. There are no links and no modes: a path may be denied, and
  then every operation on it fails.

  On top of it the helpers of \<open>engine/cld/internal/fileutils/\<close> and \<open>engine/cld/internal/jsonutils/\<close>.
\<close>

section \<open>The tree\<close>

datatype fs_entry = FDir | FFile string

datatype fs_error = NotExist | NotDirectory | IsDirectory | Denied

record file_system =
  fs_Entries :: "(string list \<times> fs_entry) list"
  fs_Denied :: "string list \<Rightarrow> bool"

definition elements :: "string \<Rightarrow> string list" where
  "elements path = rev (clean_parts True (path_parts path) [])"

definition node_at :: "file_system \<Rightarrow> string list \<Rightarrow> fs_entry option" where
  "node_at s ks = (if ks = [] then Some FDir else map_of (fs_Entries s) ks)"

definition put_node :: "string list \<Rightarrow> fs_entry \<Rightarrow> file_system \<Rightarrow> file_system" where
  "put_node ks e s = s\<lparr>fs_Entries := put_entry ks e (fs_Entries s)\<rparr>"

text \<open>Following a path: a missing element, or a file where a directory is needed, is an error.\<close>

fun follow :: "file_system \<Rightarrow> string list \<Rightarrow> string list \<Rightarrow> fs_error + fs_entry" where
  "follow s at [] = (case node_at s at of None \<Rightarrow> Inl NotExist | Some e \<Rightarrow> Inr e)"
| "follow s at (k # ks) =
     (case node_at s at of
        None \<Rightarrow> Inl NotExist
      | Some (FFile _) \<Rightarrow> Inl NotDirectory
      | Some FDir \<Rightarrow> follow s (at @ [k]) ks)"

section \<open>The operations\<close>

definition Stat :: "file_system \<Rightarrow> string \<Rightarrow> fs_error + fs_entry" where
  "Stat s path =
     (if path = [] then Inl NotExist
      else if fs_Denied s (elements path) then Inl Denied
      else follow s [] (elements path))"

definition ReadFile :: "file_system \<Rightarrow> string \<Rightarrow> fs_error + string" where
  "ReadFile s path =
     (case Stat s path of
        Inl e \<Rightarrow> Inl e
      | Inr FDir \<Rightarrow> Inl IsDirectory
      | Inr (FFile b) \<Rightarrow> Inr b)"

definition WriteFile :: "string \<Rightarrow> string \<Rightarrow> file_system \<Rightarrow> (fs_error, file_system) eff" where
  "WriteFile path b s =
     (let ks = elements path in
      if path = [] then fail NotExist s
      else if fs_Denied s ks then fail Denied s
      else if ks = [] then fail IsDirectory s
      else
        case follow s [] (butlast ks) of
          Inl e \<Rightarrow> fail e s
        | Inr (FFile _) \<Rightarrow> fail NotDirectory s
        | Inr FDir \<Rightarrow> (if node_at s ks = Some FDir then fail IsDirectory s else ret (put_node ks (FFile b) s)))"

text \<open>\<open>os.Create\<close> makes an empty file, or empties the file that is there.\<close>

definition Create :: "string \<Rightarrow> file_system \<Rightarrow> (fs_error, file_system) eff" where
  "Create path = WriteFile path []"

fun make_dirs :: "string list \<Rightarrow> string list \<Rightarrow> file_system \<Rightarrow> (fs_error, file_system) eff" where
  "make_dirs at [] s = ret s"
| "make_dirs at (k # ks) s =
     (let d = at @ [k] in
      case node_at s d of
        Some FDir \<Rightarrow> make_dirs d ks s
      | Some (FFile _) \<Rightarrow> fail NotDirectory s
      | None \<Rightarrow> (if fs_Denied s d then fail Denied s else make_dirs d ks (put_node d FDir s)))"

definition MkdirAll :: "string \<Rightarrow> file_system \<Rightarrow> (fs_error, file_system) eff" where
  "MkdirAll path s = (if path = [] then fail NotExist s else make_dirs [] (elements path) s)"

definition beneath :: "string list \<Rightarrow> string list \<Rightarrow> bool" where
  "beneath dir ks \<longleftrightarrow> take (length dir) ks = dir"

definition RemoveAll :: "string \<Rightarrow> file_system \<Rightarrow> (fs_error, file_system) eff" where
  "RemoveAll path s =
     (if path = [] then ret s
      else if fs_Denied s (elements path) then fail Denied s
      else ret (s\<lparr>fs_Entries := filter (\<lambda>e. \<not> beneath (elements path) (fst e)) (fs_Entries s)\<rparr>))"

text \<open>The names in a directory, in lexical order, with their entries.\<close>

definition ReadDir :: "file_system \<Rightarrow> string \<Rightarrow> fs_error + (string \<times> fs_entry) list" where
  "ReadDir s path =
     (case Stat s path of
        Inl e \<Rightarrow> Inl e
      | Inr (FFile _) \<Rightarrow> Inl NotDirectory
      | Inr FDir \<Rightarrow>
          Inr (map (\<lambda>(k, e). (last k, e)) (filter (\<lambda>(k, e). k \<noteq> [] \<and> butlast k = elements path) (fs_Entries s))))"

text \<open>What \<open>filepath.Walk\<close> visits; it ends with an error when a directory cannot be read.\<close>

definition Walk :: "file_system \<Rightarrow> string \<Rightarrow> fs_error + (string list \<times> fs_entry) list" where
  "Walk s path =
     (case Stat s path of
        Inl e \<Rightarrow> Inl e
      | Inr e \<Rightarrow>
          (let inside = filter (\<lambda>x. fst x \<noteq> elements path \<and> beneath (elements path) (fst x)) (fs_Entries s) in
           if list_ex (\<lambda>(k, e). e = FDir \<and> fs_Denied s k) inside then Inl Denied
           else Inr ((elements path, e) # inside)))"

section \<open>Helpers\<close>

definition WriteFileGitKeep :: "string \<Rightarrow> file_system \<Rightarrow> (fs_error, file_system) eff" where
  "WriteFileGitKeep path = Create (Join [path, ''.gitkeep''])"

definition MkdirAllGitKeep :: "string \<Rightarrow> file_system \<Rightarrow> (fs_error, file_system) eff" where
  "MkdirAllGitKeep path s = and_then (MkdirAll path s) (WriteFileGitKeep path)"

text \<open>
  Writing a value as JSON. The text that \<open>MarshalIndent\<close> makes of the value, \<open>None\<close> for an error, is an argument.
\<close>

datatype file_error = FileSystem fs_error | EncodeJSON | DecodeJSON

definition WriteJSON :: "string \<Rightarrow> string option \<Rightarrow> file_system \<Rightarrow> (file_error, file_system) eff" where
  "WriteJSON path marshalled s =
     (case marshalled of
        None \<Rightarrow> fail EncodeJSON s
      | Some b \<Rightarrow> (case WriteFile path b s of (err, s') \<Rightarrow> (map_option FileSystem err, s')))"

definition LoadFromFS :: "(string \<Rightarrow> 'a option) \<Rightarrow> file_system \<Rightarrow> string \<Rightarrow> file_error + 'a" where
  "LoadFromFS decode s path =
     (case ReadFile s path of
        Inl e \<Rightarrow> Inl (FileSystem e)
      | Inr b \<Rightarrow> (case decode b of None \<Rightarrow> Inl DecodeJSON | Some v \<Rightarrow> Inr v))"

section \<open>Laws\<close>

text \<open>
  The trees the operations build: entries in order and once each, with names that are single elements, every entry
  inside directories. There are at all times only such trees.
\<close>

definition fs_tree :: "file_system \<Rightarrow> bool" where
  "fs_tree s \<longleftrightarrow> key_sorted (fs_Entries s) \<and> [] \<notin> fst ` set (fs_Entries s) \<and>
     (\<forall>ks \<in> fst ` set (fs_Entries s). node_at s (butlast ks) = Some FDir \<and> (\<forall>k \<in> set ks. ordinary k))"

lemma node_at_put: "ks \<noteq> [] \<Longrightarrow> node_at (put_node ks e s) k = (if k = ks then Some e else node_at s k)"
  by (simp add: node_at_def put_node_def map_of_put_entry)

lemma denied_put [simp]: "fs_Denied (put_node ks e s) = fs_Denied s"
  by (simp add: put_node_def)

lemma node_at_keys: "ks \<noteq> [] \<Longrightarrow> (node_at s ks \<noteq> None) = (ks \<in> fst ` set (fs_Entries s))"
  by (simp add: node_at_def map_of_eq_None_iff)

lemma tree_parent: "\<lbrakk>fs_tree s; node_at s ks \<noteq> None\<rbrakk> \<Longrightarrow> node_at s (butlast ks) = Some FDir"
  using node_at_keys [of ks s] by (cases "ks = []") (auto simp: fs_tree_def node_at_def)

lemma tree_prefix: "\<lbrakk>fs_tree s; node_at s (at @ ks) \<noteq> None; ks \<noteq> []\<rbrakk> \<Longrightarrow> node_at s at = Some FDir"
proof (induction ks rule: rev_induct)
  case (snoc k ks)
  have "node_at s (at @ ks) = Some FDir" using tree_parent [OF snoc.prems(1,2)] by (simp add: butlast_append)
  then show ?case using snoc by (cases "ks = []") auto
qed simp

lemma follow_tree: "\<lbrakk>fs_tree s; node_at s (at @ ks) = Some e\<rbrakk> \<Longrightarrow> follow s at ks = Inr e"
proof (induction ks arbitrary: at)
  case (Cons k ks)
  have "node_at s at = Some FDir" using tree_prefix [of s at "k # ks"] Cons.prems by simp
  then show ?case using Cons by simp
qed simp

lemma follow_sound: "follow s at ks = Inr e \<Longrightarrow> node_at s (at @ ks) = Some e"
proof (induction ks arbitrary: at)
  case (Cons k ks)
  then have "follow s (at @ [k]) ks = Inr e" by (simp split: option.splits fs_entry.splits)
  from Cons.IH [OF this] show ?case by simp
qed (auto split: option.splits)

lemma follow_iff: "fs_tree s \<Longrightarrow> follow s [] ks = Inr e \<longleftrightarrow> node_at s ks = Some e"
  using follow_tree [of s "[]" ks e] follow_sound [of s "[]" ks e] by auto

lemma Stat_iff:
  "fs_tree s \<Longrightarrow> Stat s path = Inr e \<longleftrightarrow> path \<noteq> [] \<and> \<not> fs_Denied s (elements path) \<and> node_at s (elements path) = Some e"
  by (simp add: Stat_def follow_iff)

lemma ReadFile_iff:
  "fs_tree s \<Longrightarrow> ReadFile s path = Inr b \<longleftrightarrow> path \<noteq> [] \<and> \<not> fs_Denied s (elements path) \<and> node_at s (elements path) = Some (FFile b)"
  unfolding ReadFile_def Stat_iff [of s path "FFile b", symmetric] by (auto split: sum.splits fs_entry.splits)

lemma elements_ordinary: "k \<in> set (elements path) \<Longrightarrow> ordinary k"
  using kept_path [of True path] by (auto simp: elements_def elim!: keptE)

lemma tree_ordinary: "\<lbrakk>fs_tree s; node_at s ks \<noteq> None; k \<in> set ks\<rbrakk> \<Longrightarrow> ordinary k"
  using node_at_keys [of ks s] by (cases "ks = []") (auto simp: fs_tree_def)

lemma put_node_tree:
  assumes "fs_tree s" "ks \<noteq> []" "\<forall>k \<in> set ks. ordinary k" "node_at s (butlast ks) = Some FDir" "e = FDir \<or> node_at s ks \<noteq> Some FDir"
  shows "fs_tree (put_node ks e s)"
proof -
  have "node_at (put_node ks e s) (butlast k) = Some FDir \<and> (\<forall>n \<in> set k. ordinary n)"
    if "k \<in> fst ` set (fs_Entries (put_node ks e s))" for k
  proof -
    have k: "k = ks \<or> k \<in> fst ` set (fs_Entries s)" using that by (simp add: put_node_def keys_put_entry)
    then have "node_at s (butlast k) = Some FDir \<and> (\<forall>n \<in> set k. ordinary n)"
      using assms(1,3,4) by (auto simp: fs_tree_def)
    then show ?thesis using assms(2,5) by (auto simp: node_at_put)
  qed
  moreover have "key_sorted (fs_Entries (put_node ks e s))" "[] \<notin> fst ` set (fs_Entries (put_node ks e s))"
    using assms by (auto simp: fs_tree_def put_node_def key_sorted_put_entry keys_put_entry)
  ultimately show ?thesis by (simp add: fs_tree_def)
qed

text \<open>A file can be written when its directory is there and it is not itself a directory.\<close>

definition writable :: "file_system \<Rightarrow> string \<Rightarrow> bool" where
  "writable s path \<longleftrightarrow> path \<noteq> [] \<and> elements path \<noteq> [] \<and> \<not> fs_Denied s (elements path) \<and>
     node_at s (butlast (elements path)) = Some FDir \<and> node_at s (elements path) \<noteq> Some FDir"

lemma WriteFile_writable:
  "\<lbrakk>fs_tree s; writable s path\<rbrakk> \<Longrightarrow> WriteFile path b s = (None, put_node (elements path) (FFile b) s)"
  by (simp add: WriteFile_def writable_def follow_iff [THEN iffD2] ret_def)

lemma WriteFile_cases:
  assumes "fs_tree s"
  shows "WriteFile path b s = (if writable s path then (None, put_node (elements path) (FFile b) s) else (fst (WriteFile path b s), s)) \<and>
    (\<not> writable s path \<longrightarrow> fst (WriteFile path b s) \<noteq> None)"
proof (cases "writable s path")
  case False
  then show ?thesis using follow_iff [OF assms, of "butlast (elements path)" FDir]
    by (auto simp: WriteFile_def writable_def Let_def fail_def ret_def split: sum.split fs_entry.split)
qed (simp add: WriteFile_writable [OF assms])

lemma WriteFile_tree: "fs_tree s \<Longrightarrow> fs_tree (snd (WriteFile path b s))"
  using WriteFile_cases [of s path b] by (cases "writable s path") (auto simp: writable_def elements_ordinary intro!: put_node_tree split: if_splits)

end
