(* ===== verification/Domain_Paths.thy ===== *)
theory Domain_Paths
  imports File_System
begin

text \<open>
  Where the files of a domain and of its environments are (\<open>engine/cld/domain/domain.go\<close>, \<open>paths.go\<close>, and the
  paths of \<open>envdir.go\<close> and \<open>artifacts.go\<close>): a domain is a directory below the root of the domains, an environment a
  directory below its domain. All paths are made by \<open>filepath.Join\<close>, so names with dots or slashes can lead
  elsewhere; for ordinary names the paths of different environments never meet.
\<close>

section \<open>Domains\<close>

record Domain =
  dm_rootPath :: string
  dm_key :: string

record EnvDir =
  ed_rootPath :: string
  ed_domainKey :: string
  ed_key :: string

definition NewDomain :: "string \<Rightarrow> string \<Rightarrow> Domain" where
  "NewDomain rootPath key = \<lparr>dm_rootPath = rootPath, dm_key = key\<rparr>"

definition NewEnvDir :: "string \<Rightarrow> string \<Rightarrow> string \<Rightarrow> EnvDir" where
  "NewEnvDir rootPath domainKey key = \<lparr>ed_rootPath = rootPath, ed_domainKey = domainKey, ed_key = key\<rparr>"

text \<open>The root of the project, and the directory of the domains below it.\<close>

datatype domain_error = ReadDomains fs_error | DomainNotFound string

definition DomainsRoot :: "string \<Rightarrow> string" where
  "DomainsRoot ProjectRoot = Join [ProjectRoot, ''domains'']"

definition GetDomain :: "string \<Rightarrow> file_system \<Rightarrow> string \<Rightarrow> domain_error + Domain" where
  "GetDomain ProjectRoot s key =
     (case ReadDir s (Join [ProjectRoot, ''domains'']) of
        Inl e \<Rightarrow> Inl (ReadDomains e)
      | Inr entries \<Rightarrow>
          (if list_ex (\<lambda>(name, e). e = FDir \<and> name = key) entries
           then Inr (NewDomain (DomainsRoot ProjectRoot) key) else Inl (DomainNotFound key)))"

definition Domain_DirPath :: "Domain \<Rightarrow> string" where
  "Domain_DirPath d = Join [dm_rootPath d, dm_key d]"

definition Domain_EnvDir :: "Domain \<Rightarrow> string \<Rightarrow> EnvDir" where
  "Domain_EnvDir d env = NewEnvDir (dm_rootPath d) (dm_key d) env"

definition LibDirPath :: "Domain \<Rightarrow> string" where
  "LibDirPath d = Join [Domain_DirPath d, ''lib'']"

definition InternalDirPath :: "Domain \<Rightarrow> string" where
  "InternalDirPath d = Join [Domain_DirPath d, ''internal'']"

definition CmdDirPath :: "Domain \<Rightarrow> string" where
  "CmdDirPath d = Join [Domain_DirPath d, ''cmd'']"

definition ConfigDirPath :: "Domain \<Rightarrow> string" where
  "ConfigDirPath d = Join [Domain_DirPath d, ''.config'']"

definition ConfigLocalDirPath :: "Domain \<Rightarrow> string" where
  "ConfigLocalDirPath d = Join [ConfigDirPath d, ''local'']"

definition ConfigLocalFilePath :: "Domain \<Rightarrow> string \<Rightarrow> string" where
  "ConfigLocalFilePath d env = Join [ConfigLocalDirPath d, ''config.'' @ env @ ''.yaml'']"

definition ConfigNetworksDirPath :: "Domain \<Rightarrow> string" where
  "ConfigNetworksDirPath d = Join [ConfigDirPath d, ''networks'']"

definition ConfigNetworksFilePath :: "Domain \<Rightarrow> string \<Rightarrow> string" where
  "ConfigNetworksFilePath d filename = Join [ConfigNetworksDirPath d, filename]"

definition ConfigCIDirPath :: "Domain \<Rightarrow> string" where
  "ConfigCIDirPath d = Join [ConfigDirPath d, ''ci'']"

definition ConfigCICommonFilePath :: "Domain \<Rightarrow> string" where
  "ConfigCICommonFilePath d = Join [ConfigCIDirPath d, ''common.env'']"

definition ConfigCIEnvFilePath :: "Domain \<Rightarrow> string \<Rightarrow> string" where
  "ConfigCIEnvFilePath d env = Join [ConfigCIDirPath d, env @ ''.env'']"

definition ConfigDomainFilePath :: "Domain \<Rightarrow> string" where
  "ConfigDomainFilePath d = Join [ConfigDirPath d, ''domain.yaml'']"

section \<open>Environments\<close>

definition DirPath :: "EnvDir \<Rightarrow> string" where
  "DirPath d = Join [ed_rootPath d, ed_domainKey d, ed_key d]"

definition DomainDirPath :: "EnvDir \<Rightarrow> string" where
  "DomainDirPath d = Join [ed_rootPath d, ed_domainKey d]"

definition PipelinesFilePath :: "EnvDir \<Rightarrow> string" where
  "PipelinesFilePath d = Join [DirPath d, ''pipelines.go'']"

definition AddressBookFilePath :: "EnvDir \<Rightarrow> string" where
  "AddressBookFilePath d = Join [DirPath d, ''addresses.json'']"

definition AddressRefsFilePath :: "EnvDir \<Rightarrow> string" where
  "AddressRefsFilePath d = Join [DirPath d, ''datastore'', ''address_refs.json'']"

definition ChainMetadataFilePath :: "EnvDir \<Rightarrow> string" where
  "ChainMetadataFilePath d = Join [DirPath d, ''datastore'', ''chain_metadata.json'']"

definition ContractMetadataFilePath :: "EnvDir \<Rightarrow> string" where
  "ContractMetadataFilePath d = Join [DirPath d, ''datastore'', ''contract_metadata.json'']"

definition EnvMetadataFilePath :: "EnvDir \<Rightarrow> string" where
  "EnvMetadataFilePath d = Join [DirPath d, ''datastore'', ''env_metadata.json'']"

definition NodesFilePath :: "EnvDir \<Rightarrow> string" where
  "NodesFilePath d = Join [DirPath d, ''nodes.json'']"

definition ViewStateFilePath :: "EnvDir \<Rightarrow> string" where
  "ViewStateFilePath d = Join [DirPath d, ''state.json'']"

definition InputsDirPath :: "EnvDir \<Rightarrow> string" where
  "InputsDirPath d = Join [DirPath d, ''inputs'']"

definition DurablePipelinesDirPath :: "EnvDir \<Rightarrow> string" where
  "DurablePipelinesDirPath d = Join [DirPath d, ''durable_pipelines'']"

definition DurablePipelinesInputsDirPath :: "EnvDir \<Rightarrow> string" where
  "DurablePipelinesInputsDirPath d = Join [DurablePipelinesDirPath d, ''inputs'']"

definition DataStoreDirPath :: "EnvDir \<Rightarrow> string" where
  "DataStoreDirPath d = Join [DirPath d, ''datastore'']"

definition CreateDurablePipelinesDir :: "EnvDir \<Rightarrow> file_system \<Rightarrow> (fs_error, file_system) eff" where
  "CreateDurablePipelinesDir d s =
     and_then (MkdirAllGitKeep (DurablePipelinesDirPath d) s) (MkdirAllGitKeep (DurablePipelinesInputsDirPath d))"

section \<open>Artifacts\<close>

record ArtifactsDir =
  ad_rootPath :: string
  ad_domainKey :: string
  ad_envKey :: string
  ad_durablePipelineDir :: string
  ad_timestamp :: string

definition NewArtifactsDir :: "string \<Rightarrow> string \<Rightarrow> string \<Rightarrow> ArtifactsDir" where
  "NewArtifactsDir rootPath domainKey envKey =
     \<lparr>ad_rootPath = rootPath, ad_domainKey = domainKey, ad_envKey = envKey, ad_durablePipelineDir = [], ad_timestamp = []\<rparr>"

definition EnvDir_ArtifactsDir :: "EnvDir \<Rightarrow> ArtifactsDir" where
  "EnvDir_ArtifactsDir d = NewArtifactsDir (ed_rootPath d) (ed_domainKey d) (ed_key d)"

definition ArtifactsDirPath :: "ArtifactsDir \<Rightarrow> string" where
  "ArtifactsDirPath a =
     Join [ad_rootPath a, ad_domainKey a, ad_envKey a, ''artifacts'', ad_durablePipelineDir a]"

definition ProposalsDirPath :: "ArtifactsDir \<Rightarrow> string" where
  "ProposalsDirPath a = Join [ad_rootPath a, ad_domainKey a, ad_envKey a, ''proposals'']"

definition DecodedProposalsDirPath :: "ArtifactsDir \<Rightarrow> string" where
  "DecodedProposalsDirPath a = Join [ad_rootPath a, ad_domainKey a, ad_envKey a, ''decoded_proposals'']"

definition ArchivedProposalsDirPath :: "ArtifactsDir \<Rightarrow> string" where
  "ArchivedProposalsDirPath a = Join [ad_rootPath a, ad_domainKey a, ad_envKey a, ''archived_proposals'']"

definition OperationsReportsDirPath :: "ArtifactsDir \<Rightarrow> string" where
  "OperationsReportsDirPath a =
     Join [ad_rootPath a, ad_domainKey a, ad_envKey a, ''operations_reports'', ad_durablePipelineDir a]"

definition ChangesetDirPath :: "ArtifactsDir \<Rightarrow> string \<Rightarrow> string" where
  "ChangesetDirPath a csKey = Join [ArtifactsDirPath a, csKey, ad_timestamp a]"

definition OperationsReportsFilePath :: "ArtifactsDir \<Rightarrow> string \<Rightarrow> string" where
  "OperationsReportsFilePath a csKey = Join [OperationsReportsDirPath a, csKey @ ''-reports.'' @ ''json'']"

text \<open>\<open>strconv.ParseInt\<close> with base 10 and 64 bits.\<close>

definition ParseInt64 :: "string \<Rightarrow> int option" where
  "ParseInt64 t =
     (let neg = t \<noteq> [] \<and> hd t = CHR ''-'';
          ds = (if t \<noteq> [] \<and> (hd t = CHR ''-'' \<or> hd t = CHR ''+'') then drop 1 t else t);
          n = int (parse_dec ds); v = (if neg then - n else n) in
      if ds = [] \<or> \<not> list_all is_digit ds then None
      else if - (2 ^ 63) \<le> v \<and> v < 2 ^ 63 then Some v else None)"

datatype timestamp_error = InvalidTimestamp | TimestampNotPositive | TimestampLength

definition setDurablePipelinesTimestamp :: "string \<Rightarrow> ArtifactsDir \<Rightarrow> (timestamp_error, ArtifactsDir) eff" where
  "setDurablePipelinesTimestamp timestamp a =
     (case ParseInt64 timestamp of
        None \<Rightarrow> fail InvalidTimestamp a
      | Some ts \<Rightarrow>
          if ts \<le> 0 then fail TimestampNotPositive a
          else if length timestamp \<noteq> 19 then fail TimestampLength a
          else ret (a\<lparr>ad_timestamp := timestamp\<rparr>))"

text \<open>The directory is set even when the timestamp is refused.\<close>

definition SetDurablePipelines :: "string \<Rightarrow> ArtifactsDir \<Rightarrow> (timestamp_error, ArtifactsDir) eff" where
  "SetDurablePipelines timestamp a =
     setDurablePipelinesTimestamp timestamp (a\<lparr>ad_durablePipelineDir := Join [''durable_pipelines'']\<rparr>)"

section \<open>The root of the project\<close>

text \<open>
  \<open>project_root.go\<close>: from the environment variable, or upward from the executable, or upward from the working
  directory. \<open>None\<close> is a panic. \<open>filepath.Abs\<close> is an argument.
\<close>

definition isValidProjectRoot :: "file_system \<Rightarrow> string \<Rightarrow> bool" where
  "isValidProjectRoot s dir = (case Stat s (Join [dir, ''domains'']) of Inl _ \<Rightarrow> False | Inr _ \<Rightarrow> True)"

fun search_upward :: "nat \<Rightarrow> file_system \<Rightarrow> string \<Rightarrow> string" where
  "search_upward 0 s current = []"
| "search_upward (Suc n) s current =
     (if isValidProjectRoot s current then current
      else let parent = Dir current in if parent = current then [] else search_upward n s parent)"

definition searchUpwardForProjectRoot :: "file_system \<Rightarrow> string \<Rightarrow> string" where
  "searchUpwardForProjectRoot s startDir = search_upward 10 s startDir"

definition ResolveProjectRoot ::
  "(string \<Rightarrow> string option) \<Rightarrow> string option \<Rightarrow> string option \<Rightarrow> string option \<Rightarrow> file_system \<Rightarrow> string option" where
  "ResolveProjectRoot Abs env execPath cwd s =
     (case env of
        Some (c # v) \<Rightarrow>
          (case Abs (c # v) of
             None \<Rightarrow> None
           | Some a \<Rightarrow> (if isValidProjectRoot s a then Some a else None))
      | _ \<Rightarrow>
          (let from_exec = (case execPath of None \<Rightarrow> [] | Some p \<Rightarrow> searchUpwardForProjectRoot s (Dir p));
               from_cwd = (case cwd of None \<Rightarrow> [] | Some p \<Rightarrow> searchUpwardForProjectRoot s p) in
           if from_exec \<noteq> [] then Some from_exec
           else if from_cwd \<noteq> [] then Some from_cwd
           else Some (case cwd of None \<Rightarrow> [] | Some p \<Rightarrow> p)))"

lemma search_upward_valid: "search_upward n s d = r \<Longrightarrow> r \<noteq> [] \<Longrightarrow> isValidProjectRoot s r"
  by (induction n s d rule: search_upward.induct) (auto simp: Let_def split: if_splits)

lemma ResolveProjectRoot_valid:
  assumes "ResolveProjectRoot Abs env execPath cwd s = Some root"
  shows "isValidProjectRoot s root \<or> ((env = None \<or> env = Some []) \<and> root = (case cwd of None \<Rightarrow> [] | Some p \<Rightarrow> p))"
  using assms search_upward_valid [of 10 s]
  by (fastforce simp: ResolveProjectRoot_def searchUpwardForProjectRoot_def Let_def split: option.splits list.splits if_splits)

section \<open>Elements of the paths\<close>

lemma elements_rooted: "rooted path \<Longrightarrow> elements path = cleaned path"
  by (simp add: elements_def cleaned_def)

lemma elements_Join:
  assumes "rooted root"
  shows "elements (Join (root # ps)) = rev (clean_parts True (concat (map path_parts ps)) (rev (elements root)))"
proof -
  have "root \<noteq> []" using assms by (auto simp: rooted_def)
  from Join_path [OF this, of ps] show ?thesis using assms by (simp add: elements_rooted)
qed

lemma elements_Join_names:
  "\<lbrakk>rooted root; \<forall>p \<in> set ps. ordinary p\<rbrakk> \<Longrightarrow> elements (Join (root # ps)) = elements root @ ps"
  by (simp add: elements_Join concat_ordinary clean_parts_ordinary)

lemma rooted_Join: "rooted root \<Longrightarrow> rooted (Join (root # ps))"
  using Join_path(2) [of root ps] by (auto simp: rooted_def)

lemma Join_nonempty: "rooted root \<Longrightarrow> Join (root # ps) \<noteq> []"
  using Join_path(1) [of root ps] by (auto simp: rooted_def)

text \<open>An environment with an absolute root and ordinary names.\<close>

definition proper_env :: "EnvDir \<Rightarrow> bool" where
  "proper_env d \<longleftrightarrow> rooted (ed_rootPath d) \<and> ordinary (ed_domainKey d) \<and> ordinary (ed_key d)"

definition env_elements :: "EnvDir \<Rightarrow> string list" where
  "env_elements d = elements (ed_rootPath d) @ [ed_domainKey d, ed_key d]"

lemma ordinary_name: "\<lbrakk>p \<noteq> []; CHR ''/'' \<notin> set p; CHR ''.'' \<noteq> hd p\<rbrakk> \<Longrightarrow> ordinary p"
  by (auto simp: ordinary_def)

lemma env_paths:
  assumes "proper_env d"
  shows "elements (DirPath d) = env_elements d" "rooted (DirPath d)"
  using assms by (simp_all add: proper_env_def DirPath_def env_elements_def elements_Join_names rooted_Join)

lemma env_path_elements:
  assumes "proper_env d"
  shows "elements (AddressBookFilePath d) = env_elements d @ [''addresses.json'']"
    "elements (AddressRefsFilePath d) = env_elements d @ [''datastore'', ''address_refs.json'']"
    "elements (ChainMetadataFilePath d) = env_elements d @ [''datastore'', ''chain_metadata.json'']"
    "elements (ContractMetadataFilePath d) = env_elements d @ [''datastore'', ''contract_metadata.json'']"
    "elements (EnvMetadataFilePath d) = env_elements d @ [''datastore'', ''env_metadata.json'']"
    "elements (NodesFilePath d) = env_elements d @ [''nodes.json'']"
    "elements (ViewStateFilePath d) = env_elements d @ [''state.json'']"
    "elements (DurablePipelinesDirPath d) = env_elements d @ [''durable_pipelines'']"
    "elements (DataStoreDirPath d) = env_elements d @ [''datastore'']"
  unfolding AddressBookFilePath_def AddressRefsFilePath_def ChainMetadataFilePath_def ContractMetadataFilePath_def
    EnvMetadataFilePath_def NodesFilePath_def ViewStateFilePath_def DurablePipelinesDirPath_def DataStoreDirPath_def
  using env_paths [OF assms] by (simp_all add: elements_Join_names ordinary_name)

lemma inputs_elements:
  assumes "proper_env d"
  shows "elements (DurablePipelinesInputsDirPath d) = env_elements d @ [''durable_pipelines'', ''inputs'']"
    "rooted (DurablePipelinesInputsDirPath d)"
proof -
  have r: "rooted (DurablePipelinesDirPath d)"
    unfolding DurablePipelinesDirPath_def by (rule rooted_Join) (rule env_paths [OF assms])
  then show "rooted (DurablePipelinesInputsDirPath d)" unfolding DurablePipelinesInputsDirPath_def by (rule rooted_Join)
  show "elements (DurablePipelinesInputsDirPath d) = env_elements d @ [''durable_pipelines'', ''inputs'']"
    unfolding DurablePipelinesInputsDirPath_def
    using r env_path_elements(8) [OF assms] by (simp add: elements_Join_names ordinary_name)
qed

text \<open>No path of one environment is inside the directory of another one below the same root.\<close>

lemma env_apart:
  assumes "ed_rootPath d = ed_rootPath d'" "(ed_domainKey d, ed_key d) \<noteq> (ed_domainKey d', ed_key d')"
  shows "\<not> beneath (env_elements d) (env_elements d' @ rest)"
  using assms by (auto simp: beneath_def env_elements_def)

end
