(* ===== verification/Pipeline_Input.thy ===== *)
theory Pipeline_Input
  imports Yaml_Input Domain_Paths
begin

text \<open>
  The input of one changeset of a durable pipeline (\<open>engine/cld/pipeline/input/yaml.go\<close>, \<open>path.go\<close>): finding the
  file, parsing it, selecting a changeset by name, by index or because it is the only one, and handing
  its payload over as JSON in an environment variable. The YAML parser is an argument: the nodes of a
  text with the root, or an error.
\<close>

section \<open>The file\<close>

datatype path_error = ErrEmptyFileName | ErrOnlyFileNames string

definition validateInputFileName :: "string \<Rightarrow> path_error option" where
  "validateInputFileName inputFileName =
     (if trim_space inputFileName = [] then Some ErrEmptyFileName
      else if Dir inputFileName \<noteq> ''.'' then Some (ErrOnlyFileNames inputFileName)
      else None)"

definition ResolveDurablePipelineYamlPath :: "string \<Rightarrow> Domain \<Rightarrow> string \<Rightarrow> path_error + string" where
  "ResolveDurablePipelineYamlPath inputFileName dm envKey =
     (case validateInputFileName inputFileName of
        Some e \<Rightarrow> Inl e
      | None \<Rightarrow> Inr (Join [DurablePipelinesInputsDirPath (Domain_EnvDir dm envKey), inputFileName]))"

section \<open>JSON\<close>

text \<open>The check of \<open>encoding/json\<close> that a \<open>json.Number\<close> is a number; the empty one is written as 0.\<close>

definition valid_exponent :: "string \<Rightarrow> bool" where
  "valid_exponent s =
     (case s of
        [] \<Rightarrow> True
      | c # d # r \<Rightarrow>
          (c = CHR ''e'' \<or> c = CHR ''E'') \<and>
          (if d = CHR ''+'' \<or> d = CHR ''-'' then r \<noteq> [] \<and> list_all is_digit r else list_all is_digit (d # r))
      | _ \<Rightarrow> False)"

definition valid_fraction :: "string \<Rightarrow> bool" where
  "valid_fraction s =
     (case s of
        c # d # r \<Rightarrow> if c = CHR ''.'' \<and> is_digit d then valid_exponent (dropWhile is_digit r) else valid_exponent s
      | _ \<Rightarrow> valid_exponent s)"

definition isValidNumber :: "string \<Rightarrow> bool" where
  "isValidNumber s =
     (let t = (if s \<noteq> [] \<and> hd s = CHR ''-'' then drop 1 s else s) in
      case t of
        [] \<Rightarrow> False
      | c # r \<Rightarrow>
          if c = CHR ''0'' then valid_fraction r
          else is_digit c \<and> valid_fraction (dropWhile is_digit r))"

primrec marshal_any :: "'f float_lib \<Rightarrow> 'f any \<Rightarrow> json option" where
  "marshal_any F ANil = Some JNull"
| "marshal_any F (ABool b) = Some (JBool b)"
| "marshal_any F (AStr s) = Some (JStr s)"
| "marshal_any F (ANum s) = (if s = [] then Some (JNum ''0'') else if isValidNumber s then Some (JNum s) else None)"
| "marshal_any F (AFloat f) = map_option JNum (fl_JSON F f)"
| "marshal_any F (AInt i) = Some (JNum (int_string i))"
| "marshal_any F (AInt64 i) = Some (JNum (int_string i))"
| "marshal_any F (AUint64 n) = Some (JNum (dec_string n))"
| "marshal_any F (AList xs) =
     (let js = map (marshal_any F) xs in if None \<in> set js then None else Some (JArr (map the js)))"
| "marshal_any F (AMap es) =
     (let js = map (map_prod (\<lambda>k. k) (marshal_any F)) es in
      if None \<in> snd ` set js then None else Some (JObj (map (map_prod (\<lambda>k. k) the) js)))"
| "marshal_any F (AAnyMap es) = None"

text \<open>
  \<open>ConvertToJSONSafe\<close>. The only errors it can return are those of its own recursive calls, so it returns none. A
  map with keys of any type is listed in the order of the range over it.
\<close>

primrec ConvertToJSONSafe :: "'f float_lib \<Rightarrow> 'f any \<Rightarrow> 'f any" where
  "ConvertToJSONSafe F ANil = ANil"
| "ConvertToJSONSafe F (ABool b) = ABool b"
| "ConvertToJSONSafe F (AStr s) = AStr s"
| "ConvertToJSONSafe F (ANum s) = ANum s"
| "ConvertToJSONSafe F (AFloat f) = (if fl_BigInteger F f then ANum (fl_Fixed F f) else AFloat f)"
| "ConvertToJSONSafe F (AInt i) = AInt i"
| "ConvertToJSONSafe F (AInt64 i) = AInt64 i"
| "ConvertToJSONSafe F (AUint64 n) = AUint64 n"
| "ConvertToJSONSafe F (AList xs) = AList (map (ConvertToJSONSafe F) xs)"
| "ConvertToJSONSafe F (AMap es) = AMap (map (map_prod (\<lambda>k. k) (ConvertToJSONSafe F)) es)"
| "ConvertToJSONSafe F (AAnyMap es) =
     AMap (entries_of (map (map_prod (anyToJSONMapKey F) (\<lambda>v. v)) (map (map_prod (\<lambda>k. k) (ConvertToJSONSafe F)) es)))"

section \<open>The input of a changeset\<close>

datatype input_error =
    ErrNotObject string
  | ErrMissingPayload string
  | ErrOverrideNegative
  | ErrOverrideNotInteger
  | ErrMarshalInput
  | ErrNotArray
  | ErrEmptyArray
  | ErrChangesetNotFound string
  | ErrNotSingleKey nat
  | ErrIndexOutOfRange int nat
  | ErrNoChangesets
  | ErrSeveralChangesets nat

text \<open>\<open>big.Int.SetString\<close> with base 10.\<close>

definition SetString_base10 :: "string \<Rightarrow> int option" where
  "SetString_base10 s =
     (let neg = s \<noteq> [] \<and> hd s = CHR ''-'';
          ds = (if s \<noteq> [] \<and> (hd s = CHR ''-'' \<or> hd s = CHR ''+'') then drop 1 s else s) in
      if ds = [] \<or> \<not> list_all is_digit ds then None
      else Some (if neg then - int (parse_dec ds) else int (parse_dec ds)))"

definition check_override :: "'f any \<Rightarrow> input_error option" where
  "check_override override =
     (case override of
        AInt v \<Rightarrow> if v < 0 then Some ErrOverrideNegative else None
      | AInt64 v \<Rightarrow> if v < 0 then Some ErrOverrideNegative else None
      | AUint64 v \<Rightarrow> None
      | ANum v \<Rightarrow>
          (case SetString_base10 v of
             None \<Rightarrow> Some ErrOverrideNotInteger
           | Some n \<Rightarrow> if n < 0 then Some ErrOverrideNegative else None)
      | _ \<Rightarrow> Some ErrOverrideNotInteger)"

fun check_overrides :: "'f any list \<Rightarrow> input_error option" where
  "check_overrides [] = None"
| "check_overrides (v # vs) = (case check_override v of Some e \<Rightarrow> Some e | None \<Rightarrow> check_overrides vs)"

text \<open>Overrides that are no list are not checked.\<close>

definition BuildChangesetInputJSON :: "'f float_lib \<Rightarrow> string \<Rightarrow> 'f any \<Rightarrow> input_error + json" where
  "BuildChangesetInputJSON F changesetName changesetData =
     (case changesetData of
        AMap m \<Rightarrow>
          (case map_of m ''payload'' of
             None \<Rightarrow> Inl (ErrMissingPayload changesetName)
           | Some payload \<Rightarrow>
               (let safe = ConvertToJSONSafe F payload; overrides = map_of m ''chainOverrides'';
                    checked = (case overrides of Some (AList vs) \<Rightarrow> check_overrides vs | _ \<Rightarrow> None) in
                case checked of
                  Some e \<Rightarrow> Inl e
                | None \<Rightarrow>
                    (let inputJSON = (case overrides of
                           None \<Rightarrow> [(''payload'', safe)]
                         | Some raw \<Rightarrow> [(''chainOverrides'', raw), (''payload'', safe)]) in
                     case marshal_any F (AMap inputJSON) of None \<Rightarrow> Inl ErrMarshalInput | Some j \<Rightarrow> Inr j)))
      | _ \<Rightarrow> Inl (ErrNotObject changesetName))"

text \<open>The variable \<open>DURABLE_PIPELINE_INPUT\<close> is the state. Setting it to a JSON text does not fail.\<close>

definition SetChangesetEnvironmentVariable ::
  "'f float_lib \<Rightarrow> string \<Rightarrow> 'f any \<Rightarrow> json option \<Rightarrow> (input_error, json option) eff" where
  "SetChangesetEnvironmentVariable F changesetName changesetData var =
     (case BuildChangesetInputJSON F changesetName changesetData of
        Inl e \<Rightarrow> fail e var
      | Inr inputJSON \<Rightarrow> ret (Some inputJSON))"

section \<open>Selecting a changeset\<close>

fun find_in_items :: "'f any list \<Rightarrow> string \<Rightarrow> 'f any option" where
  "find_in_items [] name = None"
| "find_in_items (item # items) name =
     (case item of
        AMap m \<Rightarrow> (case map_of m name of Some v \<Rightarrow> Some v | None \<Rightarrow> find_in_items items name)
      | _ \<Rightarrow> find_in_items items name)"

definition FindChangesetInData :: "'f any \<Rightarrow> string \<Rightarrow> input_error + 'f any" where
  "FindChangesetInData changesets changesetName =
     (case changesets of
        AList data \<Rightarrow>
          if data = [] then Inl ErrEmptyArray
          else (case find_in_items data changesetName of
                  Some v \<Rightarrow> Inr v
                | None \<Rightarrow> Inl (ErrChangesetNotFound changesetName))
      | _ \<Rightarrow> Inl ErrNotArray)"

record 'f changeset_item =
  ci_Name :: string
  ci_Data :: "'f any"

fun items_in_order :: "nat \<Rightarrow> 'f any list \<Rightarrow> input_error + 'f changeset_item list" where
  "items_in_order i [] = Inr []"
| "items_in_order i (item # items) =
     (case item of
        AMap [(name, v)] \<Rightarrow> map_sum id ((#) \<lparr>ci_Name = name, ci_Data = v\<rparr>) (items_in_order (i + 1) items)
      | _ \<Rightarrow> Inl (ErrNotSingleKey i))"

definition GetAllChangesetsInOrder :: "'f any \<Rightarrow> input_error + 'f changeset_item list" where
  "GetAllChangesetsInOrder changesets =
     (case changesets of AList data \<Rightarrow> items_in_order 0 data | _ \<Rightarrow> Inl ErrNotArray)"

section \<open>The file as a whole\<close>

record 'f DurablePipelineYAML =
  dp_Environment :: string
  dp_Domain :: string
  dp_Changesets :: "'f any"

datatype parse_error =
    ErrResolvePath path_error
  | ErrReadInput fs_error
  | ErrParseYAML
  | ErrDecodeYAML yaml_error
  | ErrRootNotObject
  | ErrMissingEnvironment
  | ErrMissingDomain
  | ErrMissingChangesets
  | ErrInput input_error

definition string_field :: "(string \<times> 'f any) list \<Rightarrow> string \<Rightarrow> string" where
  "string_field m k = (case map_of m k of Some (AStr s) \<Rightarrow> s | _ \<Rightarrow> [])"

definition check_fields :: "(string \<times> 'f any) list \<Rightarrow> parse_error + 'f DurablePipelineYAML" where
  "check_fields rootMap =
     (let changesets = (case map_of rootMap ''changesets'' of None \<Rightarrow> ANil | Some v \<Rightarrow> v);
          dpYAML = \<lparr>dp_Environment = string_field rootMap ''environment'', dp_Domain = string_field rootMap ''domain'',
                    dp_Changesets = changesets\<rparr> in
      if dp_Environment dpYAML = [] then Inl ErrMissingEnvironment
      else if dp_Domain dpYAML = [] then Inl ErrMissingDomain
      else if changesets = ANil then Inl ErrMissingChangesets
      else Inr dpYAML)"

type_synonym yaml_parser = "string \<Rightarrow> (yaml_nodes \<times> nat) option"

text \<open>\<open>None\<close> when reading the nodes does not return within the fuel.\<close>

definition ParseYAMLBytes ::
  "yaml_parser \<Rightarrow> 'f float_lib \<Rightarrow> nat \<Rightarrow> string \<Rightarrow> (parse_error + 'f DurablePipelineYAML) option" where
  "ParseYAMLBytes parse F fuel yamlData =
     (case parse yamlData of
        None \<Rightarrow> Some (Inl ErrParseYAML)
      | Some (h, root) \<Rightarrow>
          (case yamlNodeToAny F h fuel (Some root) of
             None \<Rightarrow> None
           | Some (Inl e) \<Rightarrow> Some (Inl (ErrDecodeYAML e))
           | Some (Inr (AMap rootMap)) \<Rightarrow> Some (check_fields rootMap)
           | Some (Inr _) \<Rightarrow> Some (Inl ErrRootNotObject)))"

definition ParseDurablePipelineYAML ::
  "yaml_parser \<Rightarrow> 'f float_lib \<Rightarrow> nat \<Rightarrow> file_system \<Rightarrow> string \<Rightarrow> Domain \<Rightarrow> string \<Rightarrow>
   (parse_error + 'f DurablePipelineYAML) option" where
  "ParseDurablePipelineYAML parse F fuel s inputFileName dm envKey =
     (case ResolveDurablePipelineYamlPath inputFileName dm envKey of
        Inl e \<Rightarrow> Some (Inl (ErrResolvePath e))
      | Inr resolvedPath \<Rightarrow>
          (case ReadFile s resolvedPath of
             Inl e \<Rightarrow> Some (Inl (ErrReadInput e))
           | Inr yamlData \<Rightarrow> ParseYAMLBytes parse F fuel yamlData))"

text \<open>
  The three ways to select a changeset, on a parsed file. The result is the name of the changeset.
\<close>

definition select_by_name :: "'f any \<Rightarrow> string \<Rightarrow> input_error + 'f changeset_item" where
  "select_by_name changesets name = map_sum id (\<lambda>v. \<lparr>ci_Name = name, ci_Data = v\<rparr>) (FindChangesetInData changesets name)"

definition select_by_index :: "'f any \<Rightarrow> int \<Rightarrow> input_error + 'f changeset_item" where
  "select_by_index changesets index =
     (case GetAllChangesetsInOrder changesets of
        Inl e \<Rightarrow> Inl e
      | Inr items \<Rightarrow>
          if index < 0 \<or> index \<ge> int (length items) then Inl (ErrIndexOutOfRange index (length items))
          else Inr (items ! nat index))"

definition select_auto :: "'f any \<Rightarrow> input_error + 'f changeset_item" where
  "select_auto changesets =
     (case GetAllChangesetsInOrder changesets of
        Inl e \<Rightarrow> Inl e
      | Inr [] \<Rightarrow> Inl ErrNoChangesets
      | Inr [item] \<Rightarrow> Inr item
      | Inr items \<Rightarrow> Inl (ErrSeveralChangesets (length items)))"

definition prepare_input ::
  "('f any \<Rightarrow> input_error + 'f changeset_item) \<Rightarrow> yaml_parser \<Rightarrow> 'f float_lib \<Rightarrow> nat \<Rightarrow> file_system \<Rightarrow> string \<Rightarrow> Domain \<Rightarrow>
   string \<Rightarrow> json option \<Rightarrow> ((parse_error + string) \<times> json option) option" where
  "prepare_input select parse F fuel s inputFileName dm envKey var =
     (case ParseDurablePipelineYAML parse F fuel s inputFileName dm envKey of
        None \<Rightarrow> None
      | Some (Inl e) \<Rightarrow> Some (Inl e, var)
      | Some (Inr dpYAML) \<Rightarrow>
          (case select (dp_Changesets dpYAML) of
             Inl e \<Rightarrow> Some (Inl (ErrInput e), var)
           | Inr item \<Rightarrow>
               (case SetChangesetEnvironmentVariable F (ci_Name item) (ci_Data item) var of
                  (Some e, var') \<Rightarrow> Some (Inl (ErrInput e), var')
                | (None, var') \<Rightarrow> Some (Inr (ci_Name item), var'))))"

definition PrepareInputForRunByName where
  "PrepareInputForRunByName parse F fuel s inputFileName changesetName dm envKey var =
     prepare_input (\<lambda>cs. select_by_name cs changesetName) parse F fuel s inputFileName dm envKey var"

definition PrepareInputForRunByIndex where
  "PrepareInputForRunByIndex parse F fuel s inputFileName index dm envKey var =
     prepare_input (\<lambda>cs. select_by_index cs index) parse F fuel s inputFileName dm envKey var"

definition PrepareInputForRunAuto where
  "PrepareInputForRunAuto parse F fuel s inputFileName dm envKey var =
     prepare_input select_auto parse F fuel s inputFileName dm envKey var"

section \<open>Where the input file can be\<close>

lemma inputs_dir:
  "\<lbrakk>rooted (dm_rootPath dm); ordinary (dm_key dm); ordinary envKey\<rbrakk> \<Longrightarrow> proper_env (Domain_EnvDir dm envKey)"
  by (simp add: proper_env_def Domain_EnvDir_def NewEnvDir_def)

text \<open>
  C27: the file of an input is never outside: whatever name passes the check, the path resolved is the inputs
  directory of the environment, its parent directory, or an entry of the inputs directory. It is named by what
  stands behind the last slash, if there is one: names with a directory in them can pass, but the directory cancels out.
\<close>

theorem ResolveDurablePipelineYamlPath_place:
  assumes "rooted (dm_rootPath dm)" "ordinary (dm_key dm)" "ordinary envKey"
    and "ResolveDurablePipelineYamlPath name dm envKey = Inr path"
  defines "inputs \<equiv> elements (dm_rootPath dm) @ [dm_key dm, envKey, ''durable_pipelines'', ''inputs'']"
  shows "elements path \<in> {inputs, butlast inputs, inputs @ [last_part name]} \<and>
    (ordinary (last_part name) \<longrightarrow> elements path = inputs @ [last_part name])"
proof -
  define dir where "dir = DurablePipelinesInputsDirPath (Domain_EnvDir dm envKey)"
  have dir: "elements dir = inputs" "rooted dir"
    using inputs_elements [OF inputs_dir [OF assms(1,2,3)]]
    by (simp_all add: dir_def inputs_def env_elements_def Domain_EnvDir_def NewEnvDir_def)
  have dot: "Dir name = ''.''" and path: "path = Join [dir, name]"
    using assms(4) by (auto simp: ResolveDurablePipelineYamlPath_def validateInputFileName_def dir_def split: if_splits)
  have ne: "dir \<noteq> []" using dir(2) by (auto simp: rooted_def)
  note name = Dir_dot_Join [OF dot ne]
  have el: "elements path = rev (clean_step True (last_part name) (rev inputs))"
    unfolding path name(1) using name(2) elements_Join [OF dir(2), of "[last_part name]"] dir(1) by simp
  have "clean_step True (last_part name) (rev inputs) \<in> {rev inputs, tl (rev inputs), last_part name # rev inputs}"
    by (auto simp: clean_step_def inputs_def)
  moreover have "rev (tl (rev inputs)) = butlast inputs" by (simp add: inputs_def butlast_append)
  moreover have "ordinary (last_part name) \<longrightarrow> elements path = inputs @ [last_part name]" using el by simp
  ultimately show ?thesis using el by auto
qed

definition example_domain :: Domain where
  "example_domain = NewDomain ''/srv/domains'' ''ccip''"

theorem ResolveDurablePipelineYamlPath_place_witness:
  "ResolveDurablePipelineYamlPath ''other/../run.yaml'' example_domain ''testnet'' =
     Inr ''/srv/domains/ccip/testnet/durable_pipelines/inputs/run.yaml'' \<and>
   elements ''/srv/domains/ccip/testnet/durable_pipelines/inputs/run.yaml'' =
     [''srv'', ''domains'', ''ccip'', ''testnet'', ''durable_pipelines'', ''inputs'', ''run.yaml'']"
proof -
  have run: "ResolveDurablePipelineYamlPath ''other/../run.yaml'' example_domain ''testnet'' =
     Inr ''/srv/domains/ccip/testnet/durable_pipelines/inputs/run.yaml''" by code_simp
  have hyps: "rooted (dm_rootPath example_domain)" "ordinary (dm_key example_domain)" "ordinary ''testnet''"
    "ordinary (last_part ''other/../run.yaml'')" by code_simp+
  have parts: "elements (dm_rootPath example_domain) = [''srv'', ''domains'']" "dm_key example_domain = ''ccip''"
    "last_part ''other/../run.yaml'' = ''run.yaml''" by code_simp+
  from ResolveDurablePipelineYamlPath_place [OF hyps(1,2,3) run] hyps(4) parts run show ?thesis by simp
qed

text \<open>Two dots pass the check, and lead to the parent of the inputs directory.\<close>

lemma dots_pass_the_check:
  "ResolveDurablePipelineYamlPath ''..'' example_domain ''testnet'' = Inr ''/srv/domains/ccip/testnet/durable_pipelines''"
  by code_simp

section \<open>Which changesets have an input\<close>

text \<open>
  What is relied on of the formatting of floats: the test for big integers accepts finite floats without a fraction,
  printed as decimal integers, and the infinities, printed as such (it is false of NaN). Then the values without
  infinities and NaN.
\<close>

definition float_lib_ok :: "'f float_lib \<Rightarrow> bool" where
  "float_lib_ok F \<longleftrightarrow> (\<forall>f. fl_BigInteger F f \<longrightarrow>
     (if fl_JSON F f \<noteq> None then decimalInteger (fl_Fixed F f) else fl_Fixed F f \<in> {''+Inf'', ''-Inf''}))"

primrec finite_floats :: "'f float_lib \<Rightarrow> 'f any \<Rightarrow> bool" where
  "finite_floats F ANil \<longleftrightarrow> True"
| "finite_floats F (ABool b) \<longleftrightarrow> True"
| "finite_floats F (AStr s) \<longleftrightarrow> True"
| "finite_floats F (ANum s) \<longleftrightarrow> True"
| "finite_floats F (AFloat f) \<longleftrightarrow> fl_JSON F f \<noteq> None"
| "finite_floats F (AInt i) \<longleftrightarrow> True"
| "finite_floats F (AInt64 i) \<longleftrightarrow> True"
| "finite_floats F (AUint64 n) \<longleftrightarrow> True"
| "finite_floats F (AList xs) \<longleftrightarrow> list_all (\<lambda>b. b) (map (finite_floats F) xs)"
| "finite_floats F (AMap es) \<longleftrightarrow> list_all snd (map (map_prod (\<lambda>k. k) (finite_floats F)) es)"
| "finite_floats F (AAnyMap es) \<longleftrightarrow> list_all snd (map (map_prod (\<lambda>k. k) (finite_floats F)) es)"

lemma finite_floats_containers [simp]:
  "finite_floats F (AList xs) \<longleftrightarrow> (\<forall>x \<in> set xs. finite_floats F x)"
  "finite_floats F (AMap es) \<longleftrightarrow> (\<forall>x \<in> set es. finite_floats F (snd x))"
  by (auto simp: list_all_iff)

declare finite_floats.simps(9,10) [simp del]

lemma digits_valid_fraction: "list_all is_digit s \<Longrightarrow> valid_fraction (dropWhile is_digit s)"
proof -
  assume "list_all is_digit s"
  then have "dropWhile is_digit s = []" by (simp add: list_all_iff)
  then show ?thesis unfolding \<open>dropWhile is_digit s = []\<close> by (simp add: valid_fraction_def valid_exponent_def)
qed

lemma decimal_digits_valid: "decimal_digits s \<Longrightarrow> s \<noteq> [] \<and> hd s \<noteq> CHR ''-'' \<and>
  (case s of [] \<Rightarrow> False | c # r \<Rightarrow> if c = CHR ''0'' then valid_fraction r else is_digit c \<and> valid_fraction (dropWhile is_digit r))"
proof -
  have m: "\<not> is_digit (CHR ''-'')" by code_simp
  assume "decimal_digits s"
  then consider "s = ''0''" | c r where "s = c # r" "c \<noteq> CHR ''0''" "is_digit c" "list_all is_digit r"
    unfolding decimal_digits_def by (cases s) auto
  then show ?thesis
  proof cases
    case 1
    then show ?thesis by (simp add: valid_fraction_def valid_exponent_def)
  next
    case 2
    then show ?thesis using m digits_valid_fraction by auto
  qed
qed

lemma decimalInteger_valid:
  assumes "decimalInteger s"
  shows "s \<noteq> [] \<and> isValidNumber s"
proof (cases "decimal_digits s")
  case True
  from decimal_digits_valid [OF this] show ?thesis by (cases s) (simp_all add: isValidNumber_def)
next
  case False
  then have "s \<noteq> []" "hd s = CHR ''-''" "decimal_digits (drop 1 s)" using assms by (auto simp: decimalInteger_def)
  then show ?thesis using decimal_digits_valid [of "drop 1 s"] by (cases "drop 1 s") (simp_all add: isValidNumber_def)
qed

lemma infinities_invalid: "\<not> isValidNumber ''+Inf''" "\<not> isValidNumber ''-Inf''"
  by code_simp+

lemma marshal_containers:
  "marshal_any F (AList xs) \<noteq> None \<longleftrightarrow> (\<forall>x \<in> set xs. marshal_any F x \<noteq> None)"
  "marshal_any F (AMap es) \<noteq> None \<longleftrightarrow> (\<forall>e \<in> set es. marshal_any F (snd e) \<noteq> None)"
proof -
  have "None \<in> set (map (marshal_any F) xs) \<longleftrightarrow> (\<exists>x \<in> set xs. marshal_any F x = None)" by force
  then show "marshal_any F (AList xs) \<noteq> None \<longleftrightarrow> (\<forall>x \<in> set xs. marshal_any F x \<noteq> None)" by (simp add: Let_def)
  have "None \<in> snd ` set (map (map_prod (\<lambda>k. k) (marshal_any F)) es) \<longleftrightarrow> (\<exists>e \<in> set es. marshal_any F (snd e) = None)" by force
  then show "marshal_any F (AMap es) \<noteq> None \<longleftrightarrow> (\<forall>e \<in> set es. marshal_any F (snd e) \<noteq> None)" by (simp add: Let_def)
qed

lemma marshal_iff_finite: "json_safe v \<Longrightarrow> marshal_any F v \<noteq> None \<longleftrightarrow> finite_floats F v"
proof (induction v)
  case (ANum s)
  then show ?case using decimalInteger_valid [of s] by simp
next
  case (AList xs)
  then have "marshal_any F x \<noteq> None \<longleftrightarrow> finite_floats F x" if "x \<in> set xs" for x using that by simp
  then show ?case unfolding marshal_containers by simp
next
  case (AMap es)
  have "marshal_any F (snd e) \<noteq> None \<longleftrightarrow> finite_floats F (snd e)" if "e \<in> set es" for e
    using AMap.IH [of e "snd e"] AMap.prems that by (auto simp: safe_map_def snds.simps)
  then show ?case unfolding marshal_containers by simp
qed simp_all

lemma Convert_marshal_iff_finite:
  assumes "float_lib_ok F"
  shows "json_safe v \<Longrightarrow> marshal_any F (ConvertToJSONSafe F v) \<noteq> None \<longleftrightarrow> finite_floats F v"
proof (induction v)
  case (ANum s)
  then show ?case using decimalInteger_valid [of s] by simp
next
  case (AFloat f)
  show ?case
  proof (cases "fl_BigInteger F f")
    case True
    then have "if fl_JSON F f \<noteq> None then decimalInteger (fl_Fixed F f) else fl_Fixed F f \<in> {''+Inf'', ''-Inf''}"
      using assms unfolding float_lib_ok_def by blast
    then show ?thesis
      using True decimalInteger_valid [of "fl_Fixed F f"] infinities_invalid by (auto split: if_splits)
  qed simp
next
  case (AList xs)
  then have "marshal_any F (ConvertToJSONSafe F x) \<noteq> None \<longleftrightarrow> finite_floats F x" if "x \<in> set xs" for x using that by simp
  then show ?case unfolding ConvertToJSONSafe.simps marshal_containers by simp
next
  case (AMap es)
  have "marshal_any F (ConvertToJSONSafe F (snd e)) \<noteq> None \<longleftrightarrow> finite_floats F (snd e)" if "e \<in> set es" for e
    using AMap.IH [of e "snd e"] AMap.prems that by (auto simp: safe_map_def snds.simps)
  then show ?case unfolding ConvertToJSONSafe.simps marshal_containers by simp
qed simp_all

text \<open>
  C25: every value read from YAML is JSON-safe: its maps have string keys, once each and in order, its numbers are
  decimal integers, and none of the Go number types is in it. So it has a JSON form, before and after the conversion
  of its big floats to integers, exactly when it has no infinity and no NaN: an infinity passes the test for big
  integers and becomes a number that JSON refuses.
\<close>

theorem yaml_values_have_JSON:
  assumes "yamlNodeToAny F h fuel node = Some (Inr v)" "float_lib_ok F"
  shows "json_safe v \<and> (marshal_any F v \<noteq> None \<longleftrightarrow> finite_floats F v) \<and>
    (marshal_any F (ConvertToJSONSafe F v) \<noteq> None \<longleftrightarrow> finite_floats F v)"
proof -
  have safe: "json_safe v" by (rule yaml_json_safe [OF assms(1)])
  show ?thesis using safe marshal_iff_finite [OF safe, of F] Convert_marshal_iff_finite [OF assms(2) safe] by blast
qed

text \<open>Floats that are integers or the infinity, and a text with both.\<close>

definition integer_floats :: "int option float_lib" where
  "integer_floats =
     \<lparr>fl_Parse = (\<lambda>s. if s = ''.inf'' then Some None else if s = ''2e15'' then Some (Some 2000000000000000) else None),
      fl_BigInteger = (\<lambda>f. case f of None \<Rightarrow> True | Some i \<Rightarrow> \<bar>i\<bar> \<ge> 1000000000000000),
      fl_Fixed = (\<lambda>f. case f of None \<Rightarrow> ''+Inf'' | Some i \<Rightarrow> int_string i),
      fl_Shortest = (\<lambda>f. case f of None \<Rightarrow> ''+Inf'' | Some i \<Rightarrow> int_string i),
      fl_Value = (\<lambda>f. case f of None \<Rightarrow> ''+Inf'' | Some i \<Rightarrow> int_string i), fl_JSON = map_option int_string\<rparr>"

lemma integer_floats_ok: "float_lib_ok integer_floats"
  by (auto simp: float_lib_ok_def integer_floats_def decimalInteger_int_string split: option.split)

definition example_numbers :: yaml_nodes where
  "example_numbers n =
     (if n = 0 then plain_node SequenceNode ''!!seq'' [] [1, 2] None
      else plain_node ScalarNode ''!!float'' (if n = 1 then ''2e15'' else ''.inf'') [] None)"

lemma example_numbers_read:
  "yamlNodeToAny integer_floats example_numbers 2 (Some 0) =
     Some (Inr (AList [AFloat (Some 2000000000000000), AFloat None]))"
  "yamlNodeToAny integer_floats example_numbers 1 (Some 1) = Some (Inr (AFloat (Some 2000000000000000)))"
proof -
  have not_integer: "\<not> decimalInteger ''2e15''" "\<not> decimalInteger ''.inf''" by code_simp+
  show "yamlNodeToAny integer_floats example_numbers 1 (Some 1) = Some (Inr (AFloat (Some 2000000000000000)))"
    "yamlNodeToAny integer_floats example_numbers 2 (Some 0) =
       Some (Inr (AList [AFloat (Some 2000000000000000), AFloat None]))"
    using not_integer
    by (simp_all add: numeral_2_eq_2 example_numbers_def plain_node_def scalar_to_any_def integer_floats_def)
qed

theorem yaml_values_have_JSON_witness:
  "marshal_any integer_floats (ConvertToJSONSafe integer_floats (AFloat (Some 2000000000000000))) \<noteq> None \<and>
   marshal_any integer_floats (ConvertToJSONSafe integer_floats
     (AList [AFloat (Some 2000000000000000), AFloat None])) = None"
proof -
  have "finite_floats integer_floats (AFloat (Some 2000000000000000))"
    "\<not> finite_floats integer_floats (AList [AFloat (Some 2000000000000000), AFloat None])"
    by (simp_all add: integer_floats_def)
  then show ?thesis
    using yaml_values_have_JSON [OF example_numbers_read(1) integer_floats_ok]
      yaml_values_have_JSON [OF example_numbers_read(2) integer_floats_ok] by blast
qed

text \<open>
  An override that is accepted: a non-negative Go integer, or a number written with digits after an optional sign,
  where only zero may be negative.
\<close>

definition good_override :: "'f any \<Rightarrow> bool" where
  "good_override x \<longleftrightarrow>
     (case x of
        AInt i \<Rightarrow> 0 \<le> i
      | AInt64 i \<Rightarrow> 0 \<le> i
      | AUint64 n \<Rightarrow> True
      | ANum s \<Rightarrow>
          (\<exists>ds. ds \<noteq> [] \<and> list_all is_digit ds \<and>
             (s = ds \<or> s = CHR ''+'' # ds \<or> (s = CHR ''-'' # ds \<and> parse_dec ds = 0)))
      | _ \<Rightarrow> False)"

lemma SetString_base10_good: "(\<exists>n. SetString_base10 s = Some n \<and> 0 \<le> n) \<longleftrightarrow> good_override (ANum s)"
proof (cases "s \<noteq> [] \<and> (hd s = CHR ''-'' \<or> hd s = CHR ''+'')")
  case True
  have "\<not> is_digit (CHR ''-'')" "\<not> is_digit (CHR ''+'')" by code_simp+
  with True show ?thesis
    by (cases s) (auto simp: SetString_base10_def good_override_def Let_def)
next
  case False
  then show ?thesis by (cases s) (auto simp: SetString_base10_def good_override_def Let_def)
qed

lemma check_overrides_good: "check_overrides vs = None \<longleftrightarrow> (\<forall>x \<in> set vs. good_override x)"
proof (induction vs)
  case (Cons v vs)
  have "check_override v = None \<longleftrightarrow> good_override v"
  proof (cases v)
    case (ANum s)
    have "check_override v = None \<longleftrightarrow> (\<exists>n. SetString_base10 s = Some n \<and> 0 \<le> n)"
      by (auto simp: ANum check_override_def split: option.splits)
    then show ?thesis using SetString_base10_good [of s] ANum by simp
  qed (auto simp: check_override_def good_override_def)
  then show ?case using Cons by (auto split: option.splits)
qed simp

text \<open>What an input is built from, and the document it is.\<close>

definition builds_input :: "'f float_lib \<Rightarrow> 'f any \<Rightarrow> json \<Rightarrow> bool" where
  "builds_input F v j \<longleftrightarrow>
     (\<exists>m p jp. v = AMap m \<and> map_of m ''payload'' = Some p \<and> marshal_any F (ConvertToJSONSafe F p) = Some jp \<and>
        (case map_of m ''chainOverrides'' of
           None \<Rightarrow> j = JObj [(''payload'', jp)]
         | Some raw \<Rightarrow> (\<forall>vs. raw = AList vs \<longrightarrow> (\<forall>x \<in> set vs. good_override x)) \<and>
             (\<exists>jr. marshal_any F raw = Some jr \<and> j = JObj [(''chainOverrides'', jr), (''payload'', jp)])))"

lemma marshal_document:
  "marshal_any F (AMap [(''payload'', p)]) = map_option (\<lambda>jp. JObj [(''payload'', jp)]) (marshal_any F p)"
  "marshal_any F (AMap [(''chainOverrides'', raw), (''payload'', p)]) =
     (case (marshal_any F raw, marshal_any F p) of
        (Some jr, Some jp) \<Rightarrow> Some (JObj [(''chainOverrides'', jr), (''payload'', jp)])
      | _ \<Rightarrow> None)"
  by (cases "marshal_any F p"; cases "marshal_any F raw"; simp)+

lemma BuildChangesetInputJSON_iff: "BuildChangesetInputJSON F name v = Inr j \<longleftrightarrow> builds_input F v j"
proof (cases "\<exists>m p. v = AMap m \<and> map_of m ''payload'' = Some p")
  case False
  then show ?thesis by (auto simp: BuildChangesetInputJSON_def builds_input_def split: any.splits option.splits)
next
  case True
  then obtain m p where m: "v = AMap m" "map_of m ''payload'' = Some p" by blast
  define ov where "ov = map_of m ''chainOverrides''"
  have built: "BuildChangesetInputJSON F name v =
      (case (case ov of Some (AList vs) \<Rightarrow> check_overrides vs | _ \<Rightarrow> None) of
         Some e \<Rightarrow> Inl e
       | None \<Rightarrow> (case marshal_any F (AMap (case ov of
             None \<Rightarrow> [(''payload'', ConvertToJSONSafe F p)]
           | Some raw \<Rightarrow> [(''chainOverrides'', raw), (''payload'', ConvertToJSONSafe F p)])) of
             None \<Rightarrow> Inl ErrMarshalInput | Some j \<Rightarrow> Inr j))"
    by (simp only: BuildChangesetInputJSON_def any.case m option.case Let_def ov_def)
  have spec: "builds_input F v j \<longleftrightarrow> (\<exists>jp. marshal_any F (ConvertToJSONSafe F p) = Some jp \<and>
      (case ov of
         None \<Rightarrow> j = JObj [(''payload'', jp)]
       | Some raw \<Rightarrow> (\<forall>vs. raw = AList vs \<longrightarrow> check_overrides vs = None) \<and>
           (\<exists>jr. marshal_any F raw = Some jr \<and> j = JObj [(''chainOverrides'', jr), (''payload'', jp)])))"
    using m by (cases "map_of m ''chainOverrides''") (simp_all add: builds_input_def ov_def check_overrides_good)
  show ?thesis
  proof (cases ov)
    case None
    then show ?thesis unfolding built spec
      by (auto simp: marshal_document simp del: marshal_any.simps split: option.splits)
  next
    case (Some raw)
    show ?thesis
    proof (cases "\<exists>vs. raw = AList vs")
      case True
      then obtain vs where "raw = AList vs" by blast
      then show ?thesis unfolding built spec Some
        by (auto simp: marshal_document simp del: marshal_any.simps split: option.splits)
    next
      case False
      then have "(case raw of AList vs \<Rightarrow> check_overrides vs | _ \<Rightarrow> None) = None" by (cases raw) simp_all
      with False show ?thesis unfolding built spec Some
        by (auto simp: marshal_document simp del: marshal_any.simps split: option.splits)
    qed
  qed
qed

lemma safe_map_lookup: "\<lbrakk>json_safe (AMap m); map_of m k = Some v\<rbrakk> \<Longrightarrow> json_safe v"
  by (auto simp: safe_map_def dest!: map_of_SomeD)

text \<open>
  C24: the input of a changeset, for any value. It is built exactly from an object with a payload that has a JSON
  form after its conversion, in which the chain overrides, if any, have a JSON form and, if they are a list, are all
  non-negative integers, of any number type; it is the object of the overrides and the payload. For a JSON-safe value,
  such as those read from YAML, that is an object with a payload and good overrides, both without infinities and NaN.
\<close>

theorem BuildChangesetInputJSON_accepts:
  assumes "float_lib_ok F"
  shows "(BuildChangesetInputJSON F name v = Inr j \<longleftrightarrow> builds_input F v j) \<and>
    (json_safe v \<longrightarrow>
      ((\<exists>j. BuildChangesetInputJSON F name v = Inr j) \<longleftrightarrow>
       (\<exists>m p. v = AMap m \<and> map_of m ''payload'' = Some p \<and> finite_floats F p \<and>
          (\<forall>raw. map_of m ''chainOverrides'' = Some raw \<longrightarrow>
             finite_floats F raw \<and> (\<forall>vs. raw = AList vs \<longrightarrow> (\<forall>x \<in> set vs. good_override x))))))"
proof (intro conjI impI)
  show "BuildChangesetInputJSON F name v = Inr j \<longleftrightarrow> builds_input F v j" by (rule BuildChangesetInputJSON_iff)
  assume safe: "json_safe v"
  have forms: "marshal_any F x \<noteq> None \<longleftrightarrow> finite_floats F x"
    "marshal_any F (ConvertToJSONSafe F x) \<noteq> None \<longleftrightarrow> finite_floats F x"
    if "v = AMap m" "map_of m k = Some x" for m k x
    using safe_map_lookup [of m k x] safe that marshal_iff_finite [of x F] Convert_marshal_iff_finite [OF assms, of x] by auto
  show "(\<exists>j. BuildChangesetInputJSON F name v = Inr j) \<longleftrightarrow>
       (\<exists>m p. v = AMap m \<and> map_of m ''payload'' = Some p \<and> finite_floats F p \<and>
          (\<forall>raw. map_of m ''chainOverrides'' = Some raw \<longrightarrow>
             finite_floats F raw \<and> (\<forall>vs. raw = AList vs \<longrightarrow> (\<forall>x \<in> set vs. good_override x))))"
  proof (cases "\<exists>m p. v = AMap m \<and> map_of m ''payload'' = Some p")
    case True
    then obtain m p where m: "v = AMap m" "map_of m ''payload'' = Some p" by blast
    show ?thesis
    proof (cases "map_of m ''chainOverrides''")
      case None
      then show ?thesis using m forms(2) [OF m] by (auto simp: BuildChangesetInputJSON_iff builds_input_def)
    next
      case (Some raw)
      then show ?thesis using m forms(2) [OF m] forms(1) [OF m(1) Some]
        by (auto simp: BuildChangesetInputJSON_iff builds_input_def)
    qed
  qed (auto simp: BuildChangesetInputJSON_iff builds_input_def)
qed

definition example_input :: "int option any" where
  "example_input = AMap [(''chainOverrides'', AList [AUint64 7, ANum ''7'']), (''payload'', AFloat (Some 2000000000000000))]"

theorem BuildChangesetInputJSON_accepts_witness:
  "BuildChangesetInputJSON integer_floats ''deploy'' example_input =
     Inr (JObj [(''chainOverrides'', JArr [JNum ''7'', JNum ''7'']), (''payload'', JNum (int_string 2000000000000000))])"
proof -
  have "isValidNumber ''7''" "dec_string 7 = ''7''" by code_simp+
  moreover have "list_all is_digit ''7''" by code_simp
  then have "good_override (AUint64 7 :: int option any)" "good_override (ANum ''7'' :: int option any)"
    by (auto simp: good_override_def)
  moreover have "int_string 2000000000000000 \<noteq> [] \<and> isValidNumber (int_string 2000000000000000)"
    by (rule decimalInteger_valid [OF decimalInteger_int_string])
  ultimately have "builds_input integer_floats example_input
      (JObj [(''chainOverrides'', JArr [JNum ''7'', JNum ''7'']), (''payload'', JNum (int_string 2000000000000000))])"
    by (simp add: builds_input_def example_input_def integer_floats_def del: dec_string.simps)
  then show ?thesis using BuildChangesetInputJSON_accepts [OF integer_floats_ok] by blast
qed

section \<open>Selecting by name and by index\<close>

lemma map_sum_Inr: "map_sum f g x = Inr y \<longleftrightarrow> (\<exists>z. x = Inr z \<and> y = g z)"
  by (cases x) auto

lemma items_in_order_single:
  "items_in_order i vs = Inr items \<longleftrightarrow> vs = map (\<lambda>c. AMap [(ci_Name c, ci_Data c)]) items"
proof (induction i vs arbitrary: items rule: items_in_order.induct)
  case (1 i)
  then show ?case by auto
next
  case (2 i v vs)
  show ?case
  proof (cases "\<exists>name d. v = AMap [(name, d)]")
    case True
    then obtain name d where v: "v = AMap [(name, d)]" by blast
    have "(\<lparr>ci_Name = name, ci_Data = d\<rparr> = c) = (ci_Name c = name \<and> ci_Data c = d)" for c :: "'a changeset_item"
      by (cases c) auto
    then show ?thesis using 2 [OF v refl refl refl] v by (cases items) (auto simp: map_sum_Inr Cons_eq_map_conv)
  next
    case False
    then have "items_in_order i (v # vs) = Inl (ErrNotSingleKey i)"
      by (auto split: any.split list.split prod.split)
    then show ?thesis using False by (cases items) auto
  qed
qed

lemma find_in_single_items:
  "\<lbrakk>distinct (map ci_Name items); c \<in> set items\<rbrakk> \<Longrightarrow>
   find_in_items (map (\<lambda>c. AMap [(ci_Name c, ci_Data c)]) items) (ci_Name c) = Some (ci_Data c)"
proof (induction items)
  case (Cons a items)
  have "ci_Name c \<noteq> ci_Name a" if "c \<noteq> a"
  proof -
    have "ci_Name c \<in> ci_Name ` set items" using Cons.prems(2) that by simp
    then show ?thesis using Cons.prems(1) by fastforce
  qed
  then show ?case using Cons by (cases "c = a") auto
qed simp

lemma select_by_name_of_index:
  assumes "GetAllChangesetsInOrder cs = Inr items" "distinct (map ci_Name items)" "c \<in> set items"
  shows "select_by_name cs (ci_Name c) = Inr c"
proof -
  obtain vs where vs: "cs = AList vs" "items_in_order 0 vs = Inr items"
    using assms(1) by (auto simp: GetAllChangesetsInOrder_def split: any.splits)
  then have "vs = map (\<lambda>c. AMap [(ci_Name c, ci_Data c)]) items" by (simp add: items_in_order_single)
  moreover have "vs \<noteq> []" using calculation assms(3) by auto
  ultimately show ?thesis
    using vs(1) find_in_single_items [OF assms(2,3)] by (simp add: select_by_name_def FindChangesetInData_def)
qed

lemma prepare_input_select:
  assumes "ParseDurablePipelineYAML parse F fuel s file dm envKey = Some (Inr dp)"
    and "select (dp_Changesets dp) = select' (dp_Changesets dp)"
  shows "prepare_input select parse F fuel s file dm envKey var = prepare_input select' parse F fuel s file dm envKey var"
  by (simp add: prepare_input_def assms)

text \<open>
  C22: the three ways to select a changeset agree. In a file whose changesets have distinct names, selecting by
  the index of a changeset does the same as selecting by its name: the same error or the same
  input handed over. And the automatic selection is the selection of index 0 when there is one changeset, and an error
  that leaves the variable alone otherwise.
\<close>

theorem PrepareInputForRun_agree:
  assumes "ParseDurablePipelineYAML parse F fuel s file dm envKey = Some (Inr dp)"
    and "GetAllChangesetsInOrder (dp_Changesets dp) = Inr items" "distinct (map ci_Name items)"
  shows "(\<forall>i < length items.
      PrepareInputForRunByIndex parse F fuel s file (int i) dm envKey var =
      PrepareInputForRunByName parse F fuel s file (ci_Name (items ! i)) dm envKey var) \<and>
    (if length items = 1
     then PrepareInputForRunAuto parse F fuel s file dm envKey var = PrepareInputForRunByIndex parse F fuel s file 0 dm envKey var
     else \<exists>e. PrepareInputForRunAuto parse F fuel s file dm envKey var = Some (Inl e, var))"
proof (intro conjI allI impI)
  fix i
  assume i: "i < length items"
  then have "select_by_index (dp_Changesets dp) (int i) = Inr (items ! i)"
    by (simp add: select_by_index_def assms(2))
  moreover have "select_by_name (dp_Changesets dp) (ci_Name (items ! i)) = Inr (items ! i)"
    using i by (intro select_by_name_of_index [OF assms(2,3)]) simp
  ultimately show "PrepareInputForRunByIndex parse F fuel s file (int i) dm envKey var =
      PrepareInputForRunByName parse F fuel s file (ci_Name (items ! i)) dm envKey var"
    unfolding PrepareInputForRunByIndex_def PrepareInputForRunByName_def
    by (intro prepare_input_select [OF assms(1)]) simp
next
  show "if length items = 1
     then PrepareInputForRunAuto parse F fuel s file dm envKey var = PrepareInputForRunByIndex parse F fuel s file 0 dm envKey var
     else \<exists>e. PrepareInputForRunAuto parse F fuel s file dm envKey var = Some (Inl e, var)"
  proof (cases "length items = 1")
    case True
    then obtain c where "items = [c]" by (auto simp: length_Suc_conv)
    then have "select_auto (dp_Changesets dp) = select_by_index (dp_Changesets dp) 0"
      by (simp add: select_auto_def select_by_index_def assms(2))
    from prepare_input_select [where select = select_auto and select' = "\<lambda>cs. select_by_index cs 0", OF assms(1) this]
    show ?thesis unfolding PrepareInputForRunAuto_def PrepareInputForRunByIndex_def if_P [OF True] .
  next
    case False
    have "select_auto (dp_Changesets dp) = (if items = [] then Inl ErrNoChangesets else Inl (ErrSeveralChangesets (length items)))"
      using False by (cases items; cases "tl items") (simp_all add: select_auto_def assms(2))
    then obtain e where "select_auto (dp_Changesets dp) = Inl e" by (simp split: if_splits)
    then show ?thesis using False by (simp add: PrepareInputForRunAuto_def prepare_input_def assms(1))
  qed
qed

text \<open>A file with two changesets, as its nodes.\<close>

definition example_nodes :: yaml_nodes where
  "example_nodes n =
     [plain_node MappingNode [] [] [1, 2, 3, 4, 5, 6] None, plain_node ScalarNode ''!!str'' ''environment'' [] None,
      plain_node ScalarNode ''!!str'' ''testnet'' [] None, plain_node ScalarNode ''!!str'' ''domain'' [] None,
      plain_node ScalarNode ''!!str'' ''ccip'' [] None, plain_node ScalarNode ''!!str'' ''changesets'' [] None,
      plain_node SequenceNode [] [] [7, 11] None, plain_node MappingNode [] [] [8, 9] None,
      plain_node ScalarNode ''!!str'' ''first'' [] None, plain_node MappingNode [] [] [10, 12] None,
      plain_node ScalarNode ''!!str'' ''payload'' [] None, plain_node MappingNode [] [] [13, 9] None,
      plain_node ScalarNode ''!!int'' ''1'' [] None, plain_node ScalarNode ''!!str'' ''second'' [] None] ! n"

definition example_parser :: yaml_parser where
  "example_parser b = Some (example_nodes, 0)"

definition example_disk :: file_system where
  "example_disk = \<lparr>fs_Entries = [([''d''], FDir), ([''d'', ''ccip''], FDir), ([''d'', ''ccip'', ''testnet''], FDir),
     ([''d'', ''ccip'', ''testnet'', ''durable_pipelines''], FDir),
     ([''d'', ''ccip'', ''testnet'', ''durable_pipelines'', ''inputs''], FDir),
     ([''d'', ''ccip'', ''testnet'', ''durable_pipelines'', ''inputs'', ''in.yaml''], FFile [])],
   fs_Denied = (\<lambda>_. False)\<rparr>"

definition example_items :: "unit changeset_item list" where
  "example_items = [\<lparr>ci_Name = ''first'', ci_Data = AMap [(''payload'', ANum ''1'')]\<rparr>,
     \<lparr>ci_Name = ''second'', ci_Data = AMap [(''payload'', ANum ''1'')]\<rparr>]"

theorem PrepareInputForRun_agree_witness:
  "PrepareInputForRunByIndex example_parser example_floats 9 example_disk ''in.yaml'' 1 (NewDomain ''/d'' ''ccip'') ''testnet'' None =
   PrepareInputForRunByName example_parser example_floats 9 example_disk ''in.yaml'' ''second'' (NewDomain ''/d'' ''ccip'') ''testnet'' None"
proof -
  define dp :: "unit DurablePipelineYAML" where "dp = \<lparr>dp_Environment = ''testnet'', dp_Domain = ''ccip'',
      dp_Changesets = AList (map (\<lambda>c. AMap [(ci_Name c, ci_Data c)]) example_items)\<rparr>"
  have parse: "ParseDurablePipelineYAML example_parser example_floats 9 example_disk ''in.yaml'' (NewDomain ''/d'' ''ccip'') ''testnet'' =
      Some (Inr dp)"
    unfolding dp_def by code_simp
  have items: "GetAllChangesetsInOrder (dp_Changesets dp) = Inr example_items" unfolding dp_def by code_simp
  have distinct: "distinct (map ci_Name example_items)" by code_simp
  have second: "1 < length example_items" "ci_Name (example_items ! 1) = ''second''" by (simp_all add: example_items_def)
  from PrepareInputForRun_agree [OF parse items distinct, of None, THEN conjunct1, rule_format, OF second(1)] second(2)
  show ?thesis by simp
qed

end
