(* ===== verification/Env_Dir.thy ===== *)
theory Env_Dir
  imports Catalog_Sync Address_Book Domain_Paths
begin

text \<open>
  The files in which an environment keeps its state (\<open>engine/cld/domain/envdir.go\<close>, \<open>datastore.go\<close>,
  \<open>addressbook.go\<close>, and the search for artifacts and the printing of an address book in \<open>artifacts.go\<close>): the
  address book in one file, the data store in four. Merging what a changeset left behind reads the artifact of the
  changeset and the files of the environment, merges in memory, and writes the files of the environment again.

  The JSON of the records is the argument \<open>file_codec\<close>; \<open>codec_ok\<close> says that reading a text back gives what was
  written, with metadata as the copy through JSON. Strings are taken to be valid UTF-8, which JSON keeps.
\<close>

section \<open>Codecs and errors\<close>

record 'v file_codec =
  fc_Refs :: "'v address_ref list \<Rightarrow> string option"
  fc_RefsOf :: "string \<Rightarrow> 'v address_ref list option"
  fc_Chains :: "chain_metadata list \<Rightarrow> string option"
  fc_ChainsOf :: "string \<Rightarrow> chain_metadata list option"
  fc_Contracts :: "contract_metadata list \<Rightarrow> string option"
  fc_ContractsOf :: "string \<Rightarrow> contract_metadata list option"
  fc_Env :: "env_metadata option \<Rightarrow> string option"
  fc_EnvOf :: "string \<Rightarrow> env_metadata option option"
  fc_StoreOf :: "string \<Rightarrow> 'v memory_data_store option"
  fc_BookOf :: "string \<Rightarrow> 'v address_book option"
  fc_TypeVersion :: "'v type_and_version \<Rightarrow> string option"

definition codec_ok :: "'v file_codec \<Rightarrow> bool" where
  "codec_ok C \<longleftrightarrow>
     (\<forall>rs t. fc_Refs C rs = Some t \<longrightarrow> t \<noteq> [] \<and> fc_RefsOf C t = Some rs) \<and>
     (\<forall>rs t. fc_Chains C rs = Some t \<longrightarrow> t \<noteq> [] \<and> fc_ChainsOf C t = Some (map chain_copy rs)) \<and>
     (\<forall>rs t. fc_Contracts C rs = Some t \<longrightarrow> t \<noteq> [] \<and> fc_ContractsOf C t = Some (map contract_copy rs)) \<and>
     (\<forall>r t. fc_Env C r = Some t \<longrightarrow> t \<noteq> [] \<and> fc_EnvOf C t = Some (map_option env_copy r))"

datatype env_error =
    ErrReadFile fs_error
  | ErrUnmarshal
  | ErrTimestamp timestamp_error
  | ErrFindingFiles fs_error
  | ErrArtifactNotFound string
  | ErrStore ds_error
  | ErrBook book_error
  | ErrMarshal
  | ErrWriteFile

section \<open>Reading\<close>

definition EnvDir_AddressBook :: "'v file_codec \<Rightarrow> EnvDir \<Rightarrow> file_system \<Rightarrow> env_error + 'v address_book" where
  "EnvDir_AddressBook C d s =
     (case ReadFile s (AddressBookFilePath d) of
        Inl e \<Rightarrow> Inl (ErrReadFile e)
      | Inr b \<Rightarrow>
          (case fc_BookOf C b of
             None \<Rightarrow> Inl ErrUnmarshal
           | Some addrsByChain \<Rightarrow> Inr (NewMemoryAddressBookFromMap addrsByChain)))"

text \<open>An empty file leaves the records of the new store.\<close>

definition decode_part :: "(string \<Rightarrow> 'a option) \<Rightarrow> 'a \<Rightarrow> string \<Rightarrow> env_error + 'a" where
  "decode_part decode initial b =
     (if b = [] then Inr initial else case decode b of None \<Rightarrow> Inl ErrUnmarshal | Some v \<Rightarrow> Inr v)"

definition read_file :: "file_system \<Rightarrow> string \<Rightarrow> env_error + string" where
  "read_file s path = (case ReadFile s path of Inl e \<Rightarrow> Inl (ErrReadFile e) | Inr b \<Rightarrow> Inr b)"

definition bind_sum :: "'e + 'a \<Rightarrow> ('a \<Rightarrow> 'e + 'b) \<Rightarrow> 'e + 'b" where
  "bind_sum r k = (case r of Inl e \<Rightarrow> Inl e | Inr v \<Rightarrow> k v)"

definition EnvDir_loadDataStore :: "'v file_codec \<Rightarrow> EnvDir \<Rightarrow> file_system \<Rightarrow> env_error + 'v memory_data_store" where
  "EnvDir_loadDataStore C d s =
     bind_sum (read_file s (AddressRefsFilePath d)) (\<lambda>refs.
     bind_sum (read_file s (ChainMetadataFilePath d)) (\<lambda>chainMeta.
     bind_sum (read_file s (ContractMetadataFilePath d)) (\<lambda>ctrMeta.
     bind_sum (read_file s (EnvMetadataFilePath d)) (\<lambda>envMeta.
     bind_sum (decode_part (fc_RefsOf C) [] refs) (\<lambda>rs.
     bind_sum (decode_part (fc_ChainsOf C) [] chainMeta) (\<lambda>hs.
     bind_sum (decode_part (fc_ContractsOf C) [] ctrMeta) (\<lambda>cs.
     bind_sum (decode_part (fc_EnvOf C) None envMeta) (\<lambda>e.
     Inr \<lparr>ds_Addresses = NewMemoryAddressRefStore\<lparr>as_Records := rs\<rparr>,
          ds_Chains = NewMemoryChainMetadataStore\<lparr>hms_Records := hs\<rparr>,
          ds_Contracts = NewMemoryContractMetadataStore\<lparr>cms_Records := cs\<rparr>,
          ds_Env = NewMemoryEnvMetadataStore\<lparr>es_Record := e\<rparr>\<rparr>))))))))"

definition EnvDir_DataStore :: "'v file_codec \<Rightarrow> EnvDir \<Rightarrow> file_system \<Rightarrow> env_error + 'v memory_data_store" where
  "EnvDir_DataStore C d s = map_sum id Seal (EnvDir_loadDataStore C d s)"

definition EnvDir_MutableDataStore :: "'v file_codec \<Rightarrow> EnvDir \<Rightarrow> file_system \<Rightarrow> env_error + 'v memory_data_store" where
  "EnvDir_MutableDataStore C d s = EnvDir_loadDataStore C d s"

section \<open>Patterns\<close>

text \<open>
  \<open>filepath.Match\<close> on one name: a star stands for any characters but a slash, a question mark for one, brackets
  for one of a class; a backslash takes the next character as it is. A malformed pattern matches nothing.
\<close>

datatype glob_item = GStar | GAny | GLit char | GClass bool "(char \<times> char) list"

fun get_esc :: "string \<Rightarrow> (char \<times> string) option" where
  "get_esc [] = None"
| "get_esc (c # r) =
     (if c = CHR ''-'' \<or> c = CHR '']'' then None
      else if c = CHR 0x5C then (case r of [] \<Rightarrow> None | d # r' \<Rightarrow> if r' = [] then None else Some (d, r'))
      else if r = [] then None else Some (c, r))"

fun class_ranges :: "nat \<Rightarrow> string \<Rightarrow> (char \<times> char) list \<Rightarrow> ((char \<times> char) list \<times> string) option" where
  "class_ranges 0 p rs = None"
| "class_ranges (Suc n) p rs =
     (if p \<noteq> [] \<and> hd p = CHR '']'' \<and> rs \<noteq> [] then Some (rs, drop 1 p)
      else
        case get_esc p of
          None \<Rightarrow> None
        | Some (lo, p') \<Rightarrow>
            if hd p' = CHR ''-'' then
              (case get_esc (drop 1 p') of None \<Rightarrow> None | Some (hi, p'') \<Rightarrow> class_ranges n p'' (rs @ [(lo, hi)]))
            else class_ranges n p' (rs @ [(lo, lo)]))"

fun parse_glob :: "nat \<Rightarrow> string \<Rightarrow> glob_item list option" where
  "parse_glob n [] = Some []"
| "parse_glob 0 p = None"
| "parse_glob (Suc n) (c # p) =
     (if c = CHR ''*'' then map_option ((#) GStar) (parse_glob n p)
      else if c = CHR ''?'' then map_option ((#) GAny) (parse_glob n p)
      else if c = CHR ''['' then
        (let neg = p \<noteq> [] \<and> hd p = CHR ''^'' in
         case class_ranges (length p) (if neg then drop 1 p else p) [] of
           None \<Rightarrow> None
         | Some (rs, q) \<Rightarrow> map_option ((#) (GClass neg rs)) (parse_glob n q))
      else if c = CHR 0x5C then (case p of [] \<Rightarrow> None | d # q \<Rightarrow> map_option ((#) (GLit d)) (parse_glob n q))
      else map_option ((#) (GLit c)) (parse_glob n p))"

fun match_glob :: "glob_item list \<Rightarrow> string \<Rightarrow> bool" where
  "match_glob [] s \<longleftrightarrow> s = []"
| "match_glob (GStar # gs) [] \<longleftrightarrow> match_glob gs []"
| "match_glob (GStar # gs) (c # s) \<longleftrightarrow> match_glob gs (c # s) \<or> (c \<noteq> CHR ''/'' \<and> match_glob (GStar # gs) s)"
| "match_glob (g # gs) [] \<longleftrightarrow> False"
| "match_glob (GAny # gs) (c # s) \<longleftrightarrow> c \<noteq> CHR ''/'' \<and> match_glob gs s"
| "match_glob (GLit d # gs) (c # s) \<longleftrightarrow> c = d \<and> match_glob gs s"
| "match_glob (GClass neg rs # gs) (c # s) \<longleftrightarrow>
     (list_ex (\<lambda>(lo, hi). (of_char lo :: nat) \<le> of_char c \<and> (of_char c :: nat) \<le> of_char hi) rs \<noteq> neg) \<and> match_glob gs s"

definition Match :: "string \<Rightarrow> string \<Rightarrow> bool" where
  "Match pattern name = (case parse_glob (length pattern) pattern of None \<Rightarrow> False | Some gs \<Rightarrow> match_glob gs name)"

section \<open>The artifacts of a changeset\<close>

text \<open>The path under which \<open>Walk\<close> reports a file. The walk is not stopped at the first file that matches.\<close>

definition walk_path :: "string \<Rightarrow> string list \<Rightarrow> string" where
  "walk_path dirPath ks =
     (let rest = drop (length (elements dirPath)) ks in if rest = [] then dirPath else Join (dirPath # rest))"

fun last_match :: "string \<Rightarrow> string \<Rightarrow> (string list \<times> fs_entry) list \<Rightarrow> string \<Rightarrow> string" where
  "last_match dirPath pattern [] artifactPath = artifactPath"
| "last_match dirPath pattern ((ks, e) # visited) artifactPath =
     last_match dirPath pattern visited
       (if e \<noteq> FDir \<and> Match pattern (last ks) then walk_path dirPath ks else artifactPath)"

definition findArtifactPath :: "file_system \<Rightarrow> string \<Rightarrow> string \<Rightarrow> env_error + string" where
  "findArtifactPath s dirPath pattern =
     (case Walk s dirPath of
        Inl e \<Rightarrow> Inl (ErrFindingFiles e)
      | Inr visited \<Rightarrow>
          (let artifactPath = last_match dirPath pattern visited [] in
           if artifactPath = [] then Inl (ErrArtifactNotFound pattern) else Inr artifactPath))"

definition artifact_pattern :: "ArtifactsDir \<Rightarrow> string \<Rightarrow> string \<Rightarrow> string" where
  "artifact_pattern a csKey fileName = ''*-'' @ ad_domainKey a @ ''-'' @ ad_envKey a @ ''-'' @ csKey @ ''_'' @ fileName"

definition load_with :: "(string \<Rightarrow> 'a option) \<Rightarrow> file_system \<Rightarrow> string \<Rightarrow> env_error + 'a" where
  "load_with decode s path =
     bind_sum (read_file s path) (\<lambda>b. case decode b of None \<Rightarrow> Inl ErrUnmarshal | Some v \<Rightarrow> Inr v)"

definition loadAddressBook :: "'v file_codec \<Rightarrow> file_system \<Rightarrow> string \<Rightarrow> env_error + 'v address_book" where
  "loadAddressBook C s addrBookPath = map_sum id NewMemoryAddressBookFromMap (load_with (fc_BookOf C) s addrBookPath)"

definition loadDataStore :: "'v file_codec \<Rightarrow> file_system \<Rightarrow> string \<Rightarrow> env_error + 'v memory_data_store" where
  "loadDataStore C s dataStorePath = map_sum id Seal (load_with (fc_StoreOf C) s dataStorePath)"

definition LoadAddressBookByChangesetKey ::
  "'v file_codec \<Rightarrow> ArtifactsDir \<Rightarrow> file_system \<Rightarrow> string \<Rightarrow> env_error + 'v address_book" where
  "LoadAddressBookByChangesetKey C a s csKey =
     bind_sum (findArtifactPath s (ChangesetDirPath a csKey) (artifact_pattern a csKey ''addresses.json'')) (loadAddressBook C s)"

definition LoadDataStoreByChangesetKey ::
  "'v file_codec \<Rightarrow> ArtifactsDir \<Rightarrow> file_system \<Rightarrow> string \<Rightarrow> env_error + 'v memory_data_store" where
  "LoadDataStoreByChangesetKey C a s csKey =
     bind_sum (findArtifactPath s (ChangesetDirPath a csKey) (artifact_pattern a csKey ''datastore.json'')) (loadDataStore C s)"

text \<open>A changeset without an artifact has an empty one.\<close>

definition at_timestamp :: "string \<Rightarrow> ArtifactsDir \<Rightarrow> env_error + ArtifactsDir" where
  "at_timestamp timestamp a =
     (if timestamp = [] then Inr a
      else case SetDurablePipelines timestamp a of
        (Some e, a') \<Rightarrow> Inl (ErrTimestamp e)
      | (None, a') \<Rightarrow> Inr a')"

definition or_empty :: "'a \<Rightarrow> env_error + 'a \<Rightarrow> env_error + 'a" where
  "or_empty blank r = (case r of Inl (ErrArtifactNotFound p) \<Rightarrow> Inr blank | _ \<Rightarrow> r)"

definition changeset_data_store ::
  "'v file_codec \<Rightarrow> EnvDir \<Rightarrow> file_system \<Rightarrow> string \<Rightarrow> string \<Rightarrow> env_error + 'v memory_data_store" where
  "changeset_data_store C d s csKey timestamp =
     bind_sum (at_timestamp timestamp (EnvDir_ArtifactsDir d)) (\<lambda>a.
     or_empty (Seal NewMemoryDataStore) (LoadDataStoreByChangesetKey C a s csKey))"

definition changeset_address_book ::
  "'v file_codec \<Rightarrow> EnvDir \<Rightarrow> file_system \<Rightarrow> string \<Rightarrow> string \<Rightarrow> env_error + 'v address_book" where
  "changeset_address_book C d s csKey timestamp =
     bind_sum (at_timestamp timestamp (EnvDir_ArtifactsDir d)) (\<lambda>a.
     or_empty (\<lambda>_. None) (LoadAddressBookByChangesetKey C a s csKey))"

section \<open>Writing\<close>

definition write_json :: "string \<Rightarrow> string option \<Rightarrow> file_system \<Rightarrow> (env_error, file_system) eff" where
  "write_json path text s = (case WriteJSON path text s of (err, s') \<Rightarrow> (map_option (\<lambda>_. ErrWriteFile) err, s'))"

definition write_store :: "'v file_codec \<Rightarrow> 'v semver \<Rightarrow> EnvDir \<Rightarrow> 'v memory_data_store \<Rightarrow> file_system \<Rightarrow> (env_error, file_system) eff" where
  "write_store C sv d ds s =
     (let addressRefs = SortAddressRefs sv (AddressRefStore_Fetch (ds_Addresses ds)) in
      and_then (write_json (AddressRefsFilePath d) (fc_Refs C addressRefs) s) (\<lambda>s.
      and_then (write_json (ChainMetadataFilePath d) (fc_Chains C (hms_Records (ds_Chains ds))) s) (\<lambda>s.
      and_then (write_json (ContractMetadataFilePath d) (fc_Contracts C (cms_Records (ds_Contracts ds))) s) (\<lambda>s.
      write_json (EnvMetadataFilePath d) (fc_Env C (es_Record (ds_Env ds))) s))))"

definition MergeChangesetDataStore ::
  "'v file_codec \<Rightarrow> 'v semver \<Rightarrow> EnvDir \<Rightarrow> string \<Rightarrow> string \<Rightarrow> file_system \<Rightarrow> (env_error, file_system) eff" where
  "MergeChangesetDataStore C sv d csKey timestamp s =
     (case changeset_data_store C d s csKey timestamp of
        Inl e \<Rightarrow> fail e s
      | Inr csDataStore \<Rightarrow>
          (case EnvDir_MutableDataStore C d s of
             Inl e \<Rightarrow> fail e s
           | Inr dataStore \<Rightarrow>
               (case MemoryDataStore_Merge sv csDataStore dataStore of
                  (Some e, _) \<Rightarrow> fail (ErrStore e) s
                | (None, dataStore) \<Rightarrow> write_store C sv d dataStore s)))"

text \<open>With a catalog, whose state comes back; the files are only read.\<close>

definition MergeChangesetDataStoreCatalog ::
  "'v file_codec \<Rightarrow> 'v semver \<Rightarrow> tx_ctx \<Rightarrow> EnvDir \<Rightarrow> string \<Rightarrow> string \<Rightarrow> file_system \<Rightarrow>
   'v memoryStorage \<Rightarrow> (env_error, 'v memoryStorage) eff" where
  "MergeChangesetDataStoreCatalog C sv ctx d csKey timestamp s catalog =
     (case changeset_data_store C d s csKey timestamp of
        Inl e \<Rightarrow> fail e catalog
      | Inr csDataStore \<Rightarrow>
          (case MergeDataStoreToCatalog sv ctx csDataStore catalog of (err, catalog) \<Rightarrow> (map_option ErrStore err, catalog)))"

definition SyncDataStoreToCatalog ::
  "'v file_codec \<Rightarrow> 'v semver \<Rightarrow> tx_ctx \<Rightarrow> EnvDir \<Rightarrow> file_system \<Rightarrow> 'v memoryStorage \<Rightarrow> (env_error, 'v memoryStorage) eff" where
  "SyncDataStoreToCatalog C sv ctx d s catalog =
     (case EnvDir_DataStore C d s of
        Inl e \<Rightarrow> fail e catalog
      | Inr dataStore \<Rightarrow>
          (case MergeDataStoreToCatalog sv ctx dataStore catalog of (err, catalog) \<Rightarrow> (map_option ErrStore err, catalog)))"

section \<open>Address books\<close>

text \<open>\<open>strconv.Quote\<close>; bytes outside ASCII are taken as printable.\<close>

definition hex_digit :: "nat \<Rightarrow> char" where
  "hex_digit n = char_of (if n < 10 then 48 + n else 87 + n)"

definition quote_char :: "char \<Rightarrow> string" where
  "quote_char c =
     (let n = of_char c :: nat in
      if n = 0x22 \<or> n = 0x5C then [CHR 0x5C, c]
      else if n = 7 then [CHR 0x5C, CHR ''a''] else if n = 8 then [CHR 0x5C, CHR ''b'']
      else if n = 9 then [CHR 0x5C, CHR ''t''] else if n = 10 then [CHR 0x5C, CHR ''n'']
      else if n = 11 then [CHR 0x5C, CHR ''v''] else if n = 12 then [CHR 0x5C, CHR ''f'']
      else if n = 13 then [CHR 0x5C, CHR ''r'']
      else if n < 32 \<or> n = 127 then [CHR 0x5C, CHR ''x'', hex_digit (n div 16), hex_digit (n mod 16)]
      else [c])"

definition Quote :: "string \<Rightarrow> string" where
  "Quote s = CHR 0x22 # concat (map quote_char s) @ [CHR 0x22]"

definition newline :: string where
  "newline = [CHR 0x0A]"

text \<open>Entries one under the other, with a comma after all but the last.\<close>

fun comma_lines :: "string list \<Rightarrow> string" where
  "comma_lines [] = []"
| "comma_lines [e] = e @ newline"
| "comma_lines (e # es) = e @ '','' @ newline @ comma_lines es"

fun all_some :: "'a option list \<Rightarrow> 'a list option" where
  "all_some [] = Some []"
| "all_some (x # xs) = (case x of None \<Rightarrow> None | Some v \<Rightarrow> map_option ((#) v) (all_some xs))"

definition print_chain :: "'v file_codec \<Rightarrow> u64 \<Rightarrow> (string \<rightharpoonup> 'v type_and_version) \<Rightarrow> string list \<Rightarrow> string option" where
  "print_chain C chainSelector innerMap addresses =
     map_option (\<lambda>es. ''  '' @ Quote (format_uint chainSelector) @ '': {'' @ newline @ comma_lines es @ ''  }'')
       (all_some (map (\<lambda>addr. map_option (\<lambda>v. ''    '' @ Quote addr @ '': '' @ v) (fc_TypeVersion C (the (innerMap addr)))) addresses))"

text \<open>\<open>order\<close> is the order in which the ranges over the maps list the keys, before they are sorted.\<close>

definition marshalIndentAndSort :: "'v file_codec \<Rightarrow> book_order \<Rightarrow> 'v address_book \<Rightarrow> string option" where
  "marshalIndentAndSort C order addrMap =
     map_option (\<lambda>es. ''{'' @ newline @ comma_lines es @ ''}'')
       (all_some (map (\<lambda>c. print_chain C c (the (addrMap c)) (sort (the (map_of order c)))) (sort (map fst order))))"

definition write_book :: "'v file_codec \<Rightarrow> book_order \<Rightarrow> EnvDir \<Rightarrow> 'v address_book \<Rightarrow> file_system \<Rightarrow> (env_error, file_system) eff" where
  "write_book C order d addrs s =
     (case marshalIndentAndSort C order addrs of
        None \<Rightarrow> fail ErrMarshal s
      | Some sortedBytes \<Rightarrow>
          (case WriteFile (AddressBookFilePath d) sortedBytes s of (err, s') \<Rightarrow> (map_option (\<lambda>_. ErrWriteFile) err, s')))"

text \<open>\<open>order\<close> is the order of the merge over the other book, \<open>order'\<close> that of the printing, which depends on the result.\<close>

definition MergeChangesetAddressBook ::
  "'v file_codec \<Rightarrow> chain_lib \<Rightarrow> ('v address_book \<Rightarrow> book_order) \<Rightarrow> EnvDir \<Rightarrow> string \<Rightarrow> string \<Rightarrow> file_system \<Rightarrow>
   (env_error, file_system) eff" where
  "MergeChangesetAddressBook C L order d csKey timestamp s =
     (case EnvDir_AddressBook C d s of
        Inl e \<Rightarrow> fail e s
      | Inr addrBook \<Rightarrow>
          (case changeset_address_book C d s csKey timestamp of
             Inl e \<Rightarrow> fail e s
           | Inr csAddrBook \<Rightarrow>
               (case AddressBook_Merge L (order csAddrBook) csAddrBook addrBook of
                  (Some e, _) \<Rightarrow> fail (ErrBook e) s
                | (None, addrBook) \<Rightarrow>
                    (let addrs = AddressBook_Addresses addrBook in write_book C (order addrs) d addrs s))))"

definition RemoveChangesetAddressBook ::
  "'v file_codec \<Rightarrow> ('v address_book \<Rightarrow> book_order) \<Rightarrow> EnvDir \<Rightarrow> string \<Rightarrow> string \<Rightarrow> file_system \<Rightarrow>
   (env_error, file_system) eff" where
  "RemoveChangesetAddressBook C order d csKey timestamp s =
     (case EnvDir_AddressBook C d s of
        Inl e \<Rightarrow> fail e s
      | Inr addrBook \<Rightarrow>
          (case changeset_address_book C d s csKey timestamp of
             Inl e \<Rightarrow> fail e s
           | Inr csAddrBook \<Rightarrow>
               (case AddressBook_Remove (order csAddrBook) (order csAddrBook) addrBook of
                  (Some e, _) \<Rightarrow> fail (ErrBook e) s
                | (None, addrBook) \<Rightarrow>
                    (let addrs = AddressBook_Addresses addrBook in write_book C (order addrs) d addrs s))))"

section \<open>View state and nodes\<close>

text \<open>The view state is kept as it is, and read back as it is.\<close>

definition LoadState :: "EnvDir \<Rightarrow> file_system \<Rightarrow> string \<times> fs_error option" where
  "LoadState d s = (case ReadFile s (ViewStateFilePath d) of Inl e \<Rightarrow> (''{}'', Some e) | Inr b \<Rightarrow> (b, None))"

definition SaveViewState :: "string \<Rightarrow> string option \<Rightarrow> file_system \<Rightarrow> (file_error, file_system) eff" where
  "SaveViewState filePath marshalled s =
     (case Stat s (Dir filePath) of
        Inl e \<Rightarrow> fail (FileSystem e) s
      | Inr _ \<Rightarrow> WriteJSON filePath marshalled s)"

definition EnvDir_SaveViewState :: "EnvDir \<Rightarrow> string option \<Rightarrow> file_system \<Rightarrow> (file_error, file_system) eff" where
  "EnvDir_SaveViewState d marshalled s = SaveViewState (ViewStateFilePath d) marshalled s"

text \<open>The nodes of a domain (\<open>engine/cld/nodes/nodes.go\<close>): a set of ids, kept in a file.\<close>

definition NewNodes :: "string list \<Rightarrow> string set" where
  "NewNodes nodeIDs = fold insert nodeIDs {}"

definition LoadNodesFromFile :: "(string \<Rightarrow> string set option) \<Rightarrow> file_system \<Rightarrow> string \<Rightarrow> file_error + string set" where
  "LoadNodesFromFile decode s filePath =
     (case ReadFile s filePath of
        Inl e \<Rightarrow> Inl (FileSystem e)
      | Inr b \<Rightarrow> (case decode b of None \<Rightarrow> Inl DecodeJSON | Some v \<Rightarrow> Inr v))"

definition SaveToFile ::
  "(string set \<Rightarrow> string) \<Rightarrow> (string \<Rightarrow> string set option) \<Rightarrow> string \<Rightarrow> string set \<Rightarrow> file_system \<Rightarrow> (file_error, file_system) eff" where
  "SaveToFile encode decode filePath n s =
     (case (case Stat s filePath of Inl _ \<Rightarrow> Inr n | Inr _ \<Rightarrow> map_sum id (\<lambda>existing. n \<union> existing) (LoadNodesFromFile decode s filePath)) of
        Inl e \<Rightarrow> fail e s
      | Inr n \<Rightarrow> (case WriteFile filePath (encode n) s of (err, s') \<Rightarrow> (map_option FileSystem err, s')))"

definition SaveNodeIDsToFile ::
  "(string set \<Rightarrow> string) \<Rightarrow> (string \<Rightarrow> string set option) \<Rightarrow> string \<Rightarrow> string list \<Rightarrow> file_system \<Rightarrow> (file_error, file_system) eff" where
  "SaveNodeIDsToFile encode decode filePath nodeIDs s = SaveToFile encode decode filePath (NewNodes nodeIDs) s"

definition LoadNodes :: "(string \<Rightarrow> string set option) \<Rightarrow> EnvDir \<Rightarrow> file_system \<Rightarrow> file_error + string set" where
  "LoadNodes decode d s = LoadNodesFromFile decode s (NodesFilePath d)"

definition SaveNodes ::
  "(string set \<Rightarrow> string) \<Rightarrow> (string \<Rightarrow> string set option) \<Rightarrow> EnvDir \<Rightarrow> string list \<Rightarrow> file_system \<Rightarrow> (file_error, file_system) eff" where
  "SaveNodes encode decode d nodeIDs s = SaveNodeIDsToFile encode decode (NodesFilePath d) nodeIDs s"

section \<open>What is written is read back\<close>

lemma write_json_ok:
  assumes "fs_tree s" "write_json path text s = (None, s')"
  obtains b where "text = Some b" "writable s path" "s' = put_node (elements path) (FFile b) s" "fs_tree s'"
proof -
  from assms(2) obtain b where b: "text = Some b" "WriteFile path b s = (None, s')"
    by (auto simp: write_json_def WriteJSON_def fail_def split: option.splits prod.splits)
  then have w: "writable s path" "s' = put_node (elements path) (FFile b) s"
    using WriteFile_cases [OF assms(1), of path b] by (auto split: if_splits)
  then show ?thesis using that b(1) put_node_tree [of s "elements path" "FFile b"] assms(1) by (simp add: writable_def elements_ordinary)
qed

definition store_files :: "EnvDir \<Rightarrow> string list set" where
  "store_files d = {elements (AddressRefsFilePath d), elements (ChainMetadataFilePath d),
     elements (ContractMetadataFilePath d), elements (EnvMetadataFilePath d)}"

lemma write_store_files:
  assumes "fs_tree s" "proper_env d" "write_store C sv d ds s = (None, s')"
  obtains r h c e where
    "fc_Refs C (SortAddressRefs sv (as_Records (ds_Addresses ds))) = Some r" "fc_Chains C (hms_Records (ds_Chains ds)) = Some h"
    "fc_Contracts C (cms_Records (ds_Contracts ds)) = Some c" "fc_Env C (es_Record (ds_Env ds)) = Some e"
    "ReadFile s' (AddressRefsFilePath d) = Inr r" "ReadFile s' (ChainMetadataFilePath d) = Inr h"
    "ReadFile s' (ContractMetadataFilePath d) = Inr c" "ReadFile s' (EnvMetadataFilePath d) = Inr e"
    "fs_tree s'" "fs_Denied s' = fs_Denied s" "\<And>ks. ks \<notin> store_files d \<Longrightarrow> node_at s' ks = node_at s ks"
proof -
  let ?rs = "SortAddressRefs sv (as_Records (ds_Addresses ds))"
  from assms(3) obtain s1 s2 s3 where run: "write_json (AddressRefsFilePath d) (fc_Refs C ?rs) s = (None, s1)"
    "write_json (ChainMetadataFilePath d) (fc_Chains C (hms_Records (ds_Chains ds))) s1 = (None, s2)"
    "write_json (ContractMetadataFilePath d) (fc_Contracts C (cms_Records (ds_Contracts ds))) s2 = (None, s3)"
    "write_json (EnvMetadataFilePath d) (fc_Env C (es_Record (ds_Env ds))) s3 = (None, s')"
    by (auto simp: write_store_def Let_def and_then_None)
  from write_json_ok [OF assms(1) run(1)] obtain r where r: "fc_Refs C ?rs = Some r" "writable s (AddressRefsFilePath d)"
    "s1 = put_node (elements (AddressRefsFilePath d)) (FFile r) s" "fs_tree s1" .
  from write_json_ok [OF r(4) run(2)] obtain h where h: "fc_Chains C (hms_Records (ds_Chains ds)) = Some h"
    "writable s1 (ChainMetadataFilePath d)" "s2 = put_node (elements (ChainMetadataFilePath d)) (FFile h) s1" "fs_tree s2" .
  from write_json_ok [OF h(4) run(3)] obtain c where c: "fc_Contracts C (cms_Records (ds_Contracts ds)) = Some c"
    "writable s2 (ContractMetadataFilePath d)" "s3 = put_node (elements (ContractMetadataFilePath d)) (FFile c) s2" "fs_tree s3" .
  from write_json_ok [OF c(4) run(4)] obtain e where e: "fc_Env C (es_Record (ds_Env ds)) = Some e"
    "writable s3 (EnvMetadataFilePath d)" "s' = put_node (elements (EnvMetadataFilePath d)) (FFile e) s3" "fs_tree s'" .
  note paths = env_path_elements [OF assms(2)]
  have ne: "elements (AddressRefsFilePath d) \<noteq> []" "elements (ChainMetadataFilePath d) \<noteq> []"
    "elements (ContractMetadataFilePath d) \<noteq> []" "elements (EnvMetadataFilePath d) \<noteq> []"
    by (simp_all add: paths)
  have at: "node_at s' ks = (if ks = elements (EnvMetadataFilePath d) then Some (FFile e)
      else if ks = elements (ContractMetadataFilePath d) then Some (FFile c)
      else if ks = elements (ChainMetadataFilePath d) then Some (FFile h)
      else if ks = elements (AddressRefsFilePath d) then Some (FFile r) else node_at s ks)" for ks
    unfolding e(3) c(3) h(3) r(3) using ne by (simp add: node_at_put)
  have denied: "fs_Denied s' = fs_Denied s" by (simp add: e(3) c(3) h(3) r(3))
  show ?thesis
  proof (rule that [OF r(1) h(1) c(1) e(1) _ _ _ _ e(4) denied])
    show "ReadFile s' (AddressRefsFilePath d) = Inr r" "ReadFile s' (ChainMetadataFilePath d) = Inr h"
      "ReadFile s' (ContractMetadataFilePath d) = Inr c" "ReadFile s' (EnvMetadataFilePath d) = Inr e"
      unfolding ReadFile_iff [OF e(4)] denied at paths
      using r(2) h(2) c(2) e(2) by (simp_all add: writable_def h(3) c(3) r(3) paths)
    show "node_at s' ks = node_at s ks" if "ks \<notin> store_files d" for ks
      using that by (simp add: at store_files_def)
  qed
qed

lemma write_store_load:
  assumes "fs_tree s" "proper_env d" "codec_ok C" "write_store C sv d ds s = (None, s')"
  shows "EnvDir_loadDataStore C d s' = Inr
    \<lparr>ds_Addresses = NewMemoryAddressRefStore\<lparr>as_Records := SortAddressRefs sv (as_Records (ds_Addresses ds))\<rparr>,
     ds_Chains = NewMemoryChainMetadataStore\<lparr>hms_Records := map chain_copy (hms_Records (ds_Chains ds))\<rparr>,
     ds_Contracts = NewMemoryContractMetadataStore\<lparr>cms_Records := map contract_copy (cms_Records (ds_Contracts ds))\<rparr>,
     ds_Env = NewMemoryEnvMetadataStore\<lparr>es_Record := map_option env_copy (es_Record (ds_Env ds))\<rparr>\<rparr>"
proof -
  obtain r h c e where t:
    "fc_Refs C (SortAddressRefs sv (as_Records (ds_Addresses ds))) = Some r" "fc_Chains C (hms_Records (ds_Chains ds)) = Some h"
    "fc_Contracts C (cms_Records (ds_Contracts ds)) = Some c" "fc_Env C (es_Record (ds_Env ds)) = Some e"
    "ReadFile s' (AddressRefsFilePath d) = Inr r" "ReadFile s' (ChainMetadataFilePath d) = Inr h"
    "ReadFile s' (ContractMetadataFilePath d) = Inr c" "ReadFile s' (EnvMetadataFilePath d) = Inr e"
    by (rule write_store_files [OF assms(1,2,4)]) (rule that; assumption)
  have "r \<noteq> [] \<and> fc_RefsOf C r = Some (SortAddressRefs sv (as_Records (ds_Addresses ds)))"
    "h \<noteq> [] \<and> fc_ChainsOf C h = Some (map chain_copy (hms_Records (ds_Chains ds)))"
    "c \<noteq> [] \<and> fc_ContractsOf C c = Some (map contract_copy (cms_Records (ds_Contracts ds)))"
    "e \<noteq> [] \<and> fc_EnvOf C e = Some (map_option env_copy (es_Record (ds_Env ds)))"
    using assms(3) t(1-4) unfolding codec_ok_def by blast+
  then show ?thesis
    by (simp add: EnvDir_loadDataStore_def bind_sum_def read_file_def decode_part_def t(5-8))
qed

section \<open>Merging a changeset into the files\<close>

lemma SortAddressRefs_lookup:
  assumes "semver_ok sv" "address_inv sv a"
  shows "address_lookup sv (NewMemoryAddressRefStore\<lparr>as_Records := SortAddressRefs sv (as_Records a)\<rparr>) = address_lookup sv a"
proof -
  have mset: "mset (SortAddressRefs sv (as_Records a)) = mset (as_Records a)" by (simp add: SortAddressRefs_def)
  have set: "set (SortAddressRefs sv (as_Records a)) = set (as_Records a)" by (simp add: SortAddressRefs_def)
  have u: "unique_keys (addressRefKey_Equals sv) AddressRef_Key (as_Records a)" using assms(2) by (simp add: address_inv_def)
  then have "unique_keys (addressRefKey_Equals sv) AddressRef_Key (SortAddressRefs sv (as_Records a))"
    unfolding unique_keys_iff [OF addressRefKey_equivp [OF assms(1)]] set
    using mset_eq_imp_distinct_iff [OF mset] by simp
  from find_rec_same_set [OF addressRefKey_equivp [OF assms(1)] this u set]
  show ?thesis by (simp add: address_lookup_def)
qed

text \<open>
  C29: merging the data store of a changeset into the files of its environment. When it succeeds, loading the
  environment again gives, at every key: nothing where the changeset staged a deletion, else the record of the
  changeset, else the record the environment had, with metadata as copies; the metadata of the environment is that of the changeset
  if it has some. No other file of the file system has changed.
\<close>

theorem MergeChangesetDataStore_persists:
  assumes "fs_tree s" "proper_env d" "codec_ok C" "semver_ok sv"
    and "changeset_data_store C d s csKey timestamp = Inr cs" "EnvDir_loadDataStore C d s = Inr ds"
    and "data_store_inv sv cs" "data_store_inv sv ds" "data_store_readable sv cs" "metadata_copyable cs"
    and "MergeChangesetDataStore C sv d csKey timestamp s = (None, s')"
  shows "\<exists>ds'. EnvDir_DataStore C d s' = Inr ds' \<and>
    address_lookup sv (ds_Addresses ds') = (\<lambda>k.
      if \<exists>x \<in> set (staged_address_keys sv (ds_Addresses cs)). addressRefKey_Equals sv x k then None
      else case address_lookup sv (ds_Addresses cs) k of
        Some r \<Rightarrow> Some r | None \<Rightarrow> address_lookup sv (ds_Addresses ds) k) \<and>
    chain_lookup (ds_Chains ds') = (\<lambda>k. map_option chain_copy
      (if k \<in> set (staged_chain_keys (ds_Chains cs)) then None
       else case chain_lookup (ds_Chains cs) k of
         Some r \<Rightarrow> Some (chain_copy r) | None \<Rightarrow> chain_lookup (ds_Chains ds) k)) \<and>
    contract_lookup (ds_Contracts ds') = (\<lambda>k. map_option contract_copy
      (if k \<in> set (staged_contract_keys (ds_Contracts cs)) then None
       else case contract_lookup (ds_Contracts cs) k of
         Some r \<Rightarrow> Some (contract_copy r) | None \<Rightarrow> contract_lookup (ds_Contracts ds) k)) \<and>
    es_Record (ds_Env ds') = map_option env_copy
      (case es_Record (ds_Env cs) of None \<Rightarrow> es_Record (ds_Env ds) | Some r \<Rightarrow> Some (env_copy r)) \<and>
    (\<forall>ks. ks \<notin> store_files d \<longrightarrow> node_at s' ks = node_at s ks)"
proof -
  obtain m where m: "MemoryDataStore_Merge sv cs ds = (None, m)" "data_store_inv sv m"
    "address_lookup sv (ds_Addresses m) =
      overlay (\<lambda>k. \<exists>d \<in> set (staged_address_keys sv (ds_Addresses cs)). addressRefKey_Equals sv d k)
        id (address_lookup sv (ds_Addresses cs)) (address_lookup sv (ds_Addresses ds))"
    "chain_lookup (ds_Chains m) = overlay (\<lambda>k. k \<in> set (staged_chain_keys (ds_Chains cs)))
        chain_copy (chain_lookup (ds_Chains cs)) (chain_lookup (ds_Chains ds))"
    "contract_lookup (ds_Contracts m) = overlay (\<lambda>k. k \<in> set (staged_contract_keys (ds_Contracts cs)))
        contract_copy (contract_lookup (ds_Contracts cs)) (contract_lookup (ds_Contracts ds))"
    "es_Record (ds_Env m) = (case es_Record (ds_Env cs) of None \<Rightarrow> es_Record (ds_Env ds) | Some r \<Rightarrow> Some (env_copy r))"
    using merge_law [OF assms(4,7,8,9,10)] by (elim exE conjE) (rule that; assumption)
  have written: "write_store C sv d m s = (None, s')"
    using assms(11) by (simp add: MergeChangesetDataStore_def assms(5,6) EnvDir_MutableDataStore_def m(1))
  have frame: "\<forall>ks. ks \<notin> store_files d \<longrightarrow> node_at s' ks = node_at s ks"
    by (rule write_store_files [OF assms(1,2) written]) blast
  define ds' where "ds' = Seal
    \<lparr>ds_Addresses = NewMemoryAddressRefStore\<lparr>as_Records := SortAddressRefs sv (as_Records (ds_Addresses m))\<rparr>,
     ds_Chains = NewMemoryChainMetadataStore\<lparr>hms_Records := map chain_copy (hms_Records (ds_Chains m))\<rparr>,
     ds_Contracts = NewMemoryContractMetadataStore\<lparr>cms_Records := map contract_copy (cms_Records (ds_Contracts m))\<rparr>,
     ds_Env = NewMemoryEnvMetadataStore\<lparr>es_Record := map_option env_copy (es_Record (ds_Env m))\<rparr>\<rparr>"
  have load: "EnvDir_DataStore C d s' = Inr ds'"
    unfolding EnvDir_DataStore_def write_store_load [OF assms(1,2,3) written] ds'_def by simp
  have inv: "address_inv sv (ds_Addresses m)" using m(2) by (simp add: data_store_inv_def)
  have "address_lookup sv (ds_Addresses ds') = address_lookup sv (ds_Addresses m)"
    unfolding ds'_def Seal_def using SortAddressRefs_lookup [OF assms(4) inv] by simp
  moreover have "chain_lookup (ds_Chains ds') = (\<lambda>k. map_option chain_copy (chain_lookup (ds_Chains m) k))"
    by (simp add: ds'_def Seal_def chain_lookup_def find_rec_chain_copy fun_eq_iff)
  moreover have "contract_lookup (ds_Contracts ds') = (\<lambda>k. map_option contract_copy (contract_lookup (ds_Contracts m) k))"
    by (simp add: ds'_def Seal_def contract_lookup_def find_rec_contract_copy fun_eq_iff)
  moreover have "es_Record (ds_Env ds') = map_option env_copy (es_Record (ds_Env m))" by (simp add: ds'_def Seal_def)
  ultimately show ?thesis unfolding m(3-6) overlay_def id_apply using load frame by blast
qed

text \<open>A file system with an environment whose data store is empty, and the artifact of a changeset with one reference.\<close>

definition example_codec :: "nat file_codec" where
  "example_codec =
     \<lparr>fc_Refs = (\<lambda>rs. if rs = [] then Some ''[]'' else if rs = [example_ref] then Some ''[ref]'' else None),
      fc_RefsOf = (\<lambda>t. if t = ''[]'' then Some [] else if t = ''[ref]'' then Some [example_ref] else None),
      fc_Chains = (\<lambda>rs. if rs = [] then Some ''[]'' else None), fc_ChainsOf = (\<lambda>t. if t = ''[]'' then Some [] else None),
      fc_Contracts = (\<lambda>rs. if rs = [] then Some ''[]'' else None), fc_ContractsOf = (\<lambda>t. if t = ''[]'' then Some [] else None),
      fc_Env = (\<lambda>r. if r = None then Some ''null'' else None), fc_EnvOf = (\<lambda>t. if t = ''null'' then Some None else None),
      fc_StoreOf = (\<lambda>t. if t = ''store'' then Some (NewMemoryDataStore\<lparr>ds_Addresses := \<lparr>as_Records = [example_ref], as_DeletedRemoteKeys = []\<rparr>\<rparr>) else None),
      fc_BookOf = (\<lambda>t. None), fc_TypeVersion = (\<lambda>_. Some ''{}'')\<rparr>"

lemma example_codec_ok: "codec_ok example_codec"
  by (auto simp: codec_ok_def example_codec_def split: if_splits)

definition example_env :: EnvDir where
  "example_env = NewEnvDir ''/d'' ''ccip'' ''test''"

definition example_files :: file_system where
  "example_files = \<lparr>fs_Entries = [([''d''], FDir), ([''d'', ''ccip''], FDir), ([''d'', ''ccip'', ''test''], FDir),
     ([''d'', ''ccip'', ''test'', ''artifacts''], FDir), ([''d'', ''ccip'', ''test'', ''artifacts'', ''cs''], FDir),
     ([''d'', ''ccip'', ''test'', ''artifacts'', ''cs'', ''x-ccip-test-cs_datastore.json''], FFile ''store''),
     ([''d'', ''ccip'', ''test'', ''datastore''], FDir),
     ([''d'', ''ccip'', ''test'', ''datastore'', ''address_refs.json''], FFile ''[]''),
     ([''d'', ''ccip'', ''test'', ''datastore'', ''chain_metadata.json''], FFile ''[]''),
     ([''d'', ''ccip'', ''test'', ''datastore'', ''contract_metadata.json''], FFile ''[]''),
     ([''d'', ''ccip'', ''test'', ''datastore'', ''env_metadata.json''], FFile ''null'')],
   fs_Denied = (\<lambda>_. False)\<rparr>"

lemma example_files_tree: "fs_tree example_files"
  by code_simp

lemma example_changeset_store:
  "changeset_data_store example_codec example_env example_files ''cs'' [] =
     Inr (NewMemoryDataStore\<lparr>ds_Addresses := \<lparr>as_Records = [example_ref], as_DeletedRemoteKeys = []\<rparr>\<rparr>)"
  by code_simp

lemma example_env_store: "EnvDir_loadDataStore example_codec example_env example_files = Inr NewMemoryDataStore"
  by code_simp

lemma example_merge_succeeds: "fst (MergeChangesetDataStore example_codec nat_semver example_env ''cs'' [] example_files) = None"
  by code_simp

theorem MergeChangesetDataStore_persists_witness:
  "\<exists>ds'. EnvDir_DataStore example_codec example_env (snd (MergeChangesetDataStore example_codec nat_semver example_env ''cs'' [] example_files)) = Inr ds' \<and>
     address_lookup nat_semver (ds_Addresses ds') (AddressRef_Key example_ref) = Some example_ref"
proof -
  define cs :: "nat memory_data_store" where
    "cs = NewMemoryDataStore\<lparr>ds_Addresses := \<lparr>as_Records = [example_ref], as_DeletedRemoteKeys = []\<rparr>\<rparr>"
  have proper: "proper_env example_env" by code_simp
  have inv: "data_store_inv nat_semver cs"
    using example_stores_ok(1) by (simp add: cs_def data_store_inv_def address_inv_def unique_keys_def example_ref_def)
  have readable: "data_store_readable nat_semver cs"
    by (simp add: cs_def data_store_readable_def addresses_readable_def chains_readable_def contracts_readable_def
        NewMemoryDataStore_def NewMemoryChainMetadataStore_def NewMemoryContractMetadataStore_def)
  have copyable: "metadata_copyable cs"
    by (simp add: metadata_copyable_def cs_def NewMemoryDataStore_def NewMemoryChainMetadataStore_def
        NewMemoryContractMetadataStore_def NewMemoryEnvMetadataStore_def)
  have run: "MergeChangesetDataStore example_codec nat_semver example_env ''cs'' [] example_files =
      (None, snd (MergeChangesetDataStore example_codec nat_semver example_env ''cs'' [] example_files))"
    using example_merge_succeeds by (simp add: prod_eq_iff)
  have entry: "address_lookup nat_semver (ds_Addresses cs) (AddressRef_Key example_ref) = Some example_ref"
    "staged_address_keys nat_semver (ds_Addresses cs) = []"
    by (simp_all add: cs_def address_lookup_def staged_address_keys_def nat_semver_def addressRefKey_Equals_def)
  from MergeChangesetDataStore_persists [OF example_files_tree proper example_codec_ok nat_semver_ok
      example_changeset_store [folded cs_def] example_env_store inv example_stores_ok(1) readable copyable run]
  show ?thesis using entry by auto
qed

section \<open>Artifacts are not touched\<close>

lemma beneath_self: "beneath ks ks"
  by (simp add: beneath_def)

lemma beneath_split: "beneath dir ks \<Longrightarrow> ks = dir @ drop (length dir) ks"
  by (metis append_take_drop_id beneath_def)

lemma filter_put_entry: "\<not> q k \<Longrightarrow> filter (\<lambda>x. q (fst x)) (put_entry k v es) = filter (\<lambda>x. q (fst x)) es"
  by (induction es) auto

lemma ReadFile_put:
  assumes "fs_tree s" "fs_tree (put_node ks (FFile b) s)" "ks \<noteq> []" "elements path \<noteq> ks" "ReadFile s path = Inr t"
  shows "ReadFile (put_node ks (FFile b) s) path = Inr t"
  using assms(4,5) unfolding ReadFile_iff [OF assms(1)] ReadFile_iff [OF assms(2)] by (simp add: node_at_put [OF assms(3)])

lemma Walk_put:
  assumes "fs_tree s" "fs_tree (put_node ks (FFile b) s)" "ks \<noteq> []" "\<not> beneath (elements dir) ks" "Walk s dir = Inr v"
  shows "Walk (put_node ks (FFile b) s) dir = Inr v"
proof -
  let ?s = "put_node ks (FFile b) s"
  obtain e where e: "Stat s dir = Inr e" using assms(5) by (auto simp: Walk_def split: sum.splits)
  have "elements dir \<noteq> ks" using assms(4) beneath_self by metis
  then have e': "Stat ?s dir = Inr e"
    using e unfolding Stat_iff [OF assms(1)] Stat_iff [OF assms(2)] by (simp add: node_at_put [OF assms(3)])
  have "filter (\<lambda>x. fst x \<noteq> elements dir \<and> beneath (elements dir) (fst x)) (fs_Entries ?s) =
      filter (\<lambda>x. fst x \<noteq> elements dir \<and> beneath (elements dir) (fst x)) (fs_Entries s)"
    unfolding put_node_def using filter_put_entry [of "\<lambda>k. k \<noteq> elements dir \<and> beneath (elements dir) k" ks] assms(4) by simp
  then show ?thesis using assms(5) e e' by (simp add: Walk_def)
qed

lemma Walk_elements:
  assumes "fs_tree s" "rooted dir" "Walk s dir = Inr v" "(ks, e) \<in> set v"
  shows "elements (walk_path dir ks) = ks" "beneath (elements dir) ks"
proof -
  have ks: "ks = elements dir \<or> (ks \<in> fst ` set (fs_Entries s) \<and> beneath (elements dir) ks)"
    using assms(3,4) by (force simp: Walk_def Let_def split: sum.splits if_splits)
  then show b: "beneath (elements dir) ks" by (auto simp: beneath_self)
  have "\<forall>k \<in> set ks. ordinary k" using ks assms(1) elements_ordinary by (auto simp: fs_tree_def)
  then have "\<forall>k \<in> set (drop (length (elements dir)) ks). ordinary k" by (auto dest: in_set_dropD)
  from elements_Join_names [OF assms(2) this] beneath_split [OF b]
  show "elements (walk_path dir ks) = ks" by (auto simp: walk_path_def Let_def)
qed

lemma last_match_cases:
  "last_match dir pattern visited p0 = p \<Longrightarrow> p = p0 \<or> (\<exists>ks e. (ks, e) \<in> set visited \<and> p = walk_path dir ks)"
  by (induction dir pattern visited p0 rule: last_match.induct) (auto split: if_splits)

lemma at_timestamp_cases:
  assumes "at_timestamp timestamp a = Inr a'"
  shows "a' = a \<or> (ordinary timestamp \<and> a' = a\<lparr>ad_durablePipelineDir := ''durable_pipelines'', ad_timestamp := timestamp\<rparr>)"
proof (cases "timestamp = []")
  case False
  have dir: "Join [''durable_pipelines''] = ''durable_pipelines''" by code_simp
  have "fst (SetDurablePipelines timestamp a) = None" "a' = snd (SetDurablePipelines timestamp a)"
    using assms False by (auto simp: at_timestamp_def split: prod.splits option.splits)
  then have a': "a' = a\<lparr>ad_durablePipelineDir := ''durable_pipelines'', ad_timestamp := timestamp\<rparr>"
    "length timestamp = 19" "ParseInt64 timestamp \<noteq> None"
    by (auto simp: SetDurablePipelines_def setDurablePipelinesTimestamp_def dir fail_def ret_def split: option.splits if_splits)
  define ds where "ds = (if timestamp \<noteq> [] \<and> (hd timestamp = CHR ''-'' \<or> hd timestamp = CHR ''+'') then drop 1 timestamp else timestamp)"
  have digits: "list_all is_digit ds" using a'(3) by (auto simp: ParseInt64_def Let_def ds_def split: if_splits)
  have sl: "\<not> is_digit (CHR ''/'')" by code_simp
  have "CHR ''/'' \<notin> set ds" using digits sl by (auto simp: list_all_iff)
  then have "CHR ''/'' \<notin> set timestamp" by (cases timestamp) (auto simp: ds_def split: if_splits)
  moreover have "timestamp \<noteq> ''.''" "timestamp \<noteq> ''..''" using a'(2) by auto
  ultimately show ?thesis using a'(1) False by (simp add: ordinary_def)
qed (use assms in \<open>simp add: at_timestamp_def\<close>)

lemma changeset_dir_elements:
  assumes "proper_env d" "ordinary csKey" "at_timestamp timestamp (EnvDir_ArtifactsDir d) = Inr a"
  shows "rooted (ChangesetDirPath a csKey)" "\<exists>more. elements (ChangesetDirPath a csKey) = env_elements d @ ''artifacts'' # more"
proof -
  have ar: "ordinary ''artifacts''" "ordinary ''durable_pipelines''" by code_simp+
  have blank: "path_parts [] = [[]]" "clean_step True [] acc = acc" for acc by (simp_all add: path_parts_def clean_step_def)
  have names: "path_parts p = [p]" if "ordinary p" for p using that by (simp add: ordinary_def)
  note pe = assms(1) [unfolded proper_env_def]
  have base: "ad_rootPath a = ed_rootPath d" "ad_domainKey a = ed_domainKey d" "ad_envKey a = ed_key d"
    and ts: "ad_timestamp a = [] \<and> ad_durablePipelineDir a = [] \<or>
      ordinary (ad_timestamp a) \<and> ad_durablePipelineDir a = ''durable_pipelines''"
    using at_timestamp_cases [OF assms(3)] by (auto simp: EnvDir_ArtifactsDir_def NewArtifactsDir_def)
  have r: "rooted (ArtifactsDirPath a)" unfolding ArtifactsDirPath_def base by (rule rooted_Join) (use pe in simp)
  then show "rooted (ChangesetDirPath a csKey)" unfolding ChangesetDirPath_def by (rule rooted_Join)
  have "\<exists>m. elements (ArtifactsDirPath a) = env_elements d @ ''artifacts'' # m"
    unfolding ArtifactsDirPath_def base using pe ts ar
    by (auto simp: elements_Join names blank env_elements_def)
  then show "\<exists>more. elements (ChangesetDirPath a csKey) = env_elements d @ ''artifacts'' # more"
    unfolding ChangesetDirPath_def using r ts assms(2) by (auto simp: elements_Join names blank)
qed

lemma changeset_address_book_frame:
  assumes "fs_tree s" "proper_env d" "ordinary csKey" "s' = put_node (elements (AddressBookFilePath d)) (FFile b) s" "fs_tree s'"
    and "changeset_address_book C d s csKey timestamp = Inr cs"
  shows "changeset_address_book C d s' csKey timestamp = Inr cs"
proof -
  obtain a where a: "at_timestamp timestamp (EnvDir_ArtifactsDir d) = Inr a"
    using assms(6) by (auto simp: changeset_address_book_def bind_sum_def split: sum.splits)
  let ?dir = "ChangesetDirPath a csKey" and ?pat = "artifact_pattern a csKey ''addresses.json''"
  note dir = changeset_dir_elements [OF assms(2,3) a]
  obtain more where more: "elements ?dir = env_elements d @ ''artifacts'' # more" using dir(2) by blast
  have book: "elements (AddressBookFilePath d) = env_elements d @ [''addresses.json'']"
    by (rule env_path_elements [OF assms(2)])
  then have out: "\<not> beneath (elements ?dir) (elements (AddressBookFilePath d))" "elements (AddressBookFilePath d) \<noteq> []"
    by (simp_all add: beneath_def more)
  note frame = assms(1) assms(5) [unfolded assms(4)] out(2)
  have run: "or_empty (\<lambda>_. None) (LoadAddressBookByChangesetKey C a s csKey) = Inr cs"
    using assms(6) a by (simp add: changeset_address_book_def bind_sum_def)
  then obtain v where v: "Walk s ?dir = Inr v"
    by (auto simp: LoadAddressBookByChangesetKey_def findArtifactPath_def bind_sum_def or_empty_def split: sum.splits)
  have v': "Walk s' ?dir = Inr v" unfolding assms(4) by (rule Walk_put [OF frame out(1) v])
  have find: "findArtifactPath s' ?dir ?pat = findArtifactPath s ?dir ?pat" by (simp add: findArtifactPath_def v v')
  show ?thesis
  proof (cases "findArtifactPath s ?dir ?pat")
    case (Inl e)
    then show ?thesis using run a find by (simp add: changeset_address_book_def LoadAddressBookByChangesetKey_def bind_sum_def)
  next
    case (Inr p)
    then have "last_match ?dir ?pat v [] = p" "p \<noteq> []" by (auto simp: findArtifactPath_def v Let_def split: if_splits)
    then obtain ks e where ks: "(ks, e) \<in> set v" "p = walk_path ?dir ks" using last_match_cases by blast
    have "elements p = ks" "beneath (elements ?dir) ks" using Walk_elements [OF assms(1) dir(1) v ks(1)] ks(2) by simp_all
    then have other: "elements p \<noteq> elements (AddressBookFilePath d)" using out(1) by auto
    have loaded: "loadAddressBook C s p = Inr cs"
      using run Inr by (cases "loadAddressBook C s p")
        (auto simp: LoadAddressBookByChangesetKey_def bind_sum_def or_empty_def loadAddressBook_def load_with_def read_file_def
          split: sum.splits env_error.splits option.splits)
    then obtain t where t: "ReadFile s p = Inr t"
      by (auto simp: loadAddressBook_def load_with_def read_file_def bind_sum_def split: sum.splits)
    have "ReadFile s' p = Inr t" unfolding assms(4) by (rule ReadFile_put [OF frame other t])
    then have "loadAddressBook C s' p = Inr cs"
      using loaded t by (simp add: loadAddressBook_def load_with_def read_file_def)
    then show ?thesis using a find Inr
      by (simp add: changeset_address_book_def LoadAddressBookByChangesetKey_def bind_sum_def or_empty_def)
  qed
qed

section \<open>Merging an address book and taking it back\<close>

text \<open>A book that is listed as it is, and whose text, if it has one, is read as the book.\<close>

definition printable :: "'v file_codec \<Rightarrow> ('v address_book \<Rightarrow> book_order) \<Rightarrow> 'v address_book \<Rightarrow> bool" where
  "printable C order m \<longleftrightarrow> orders_book m (order m) \<and>
     (\<forall>t. marshalIndentAndSort C (order m) m = Some t \<longrightarrow> fc_BookOf C t = Some m)"

lemma write_book_ok:
  assumes "fs_tree s" "write_book C order d m s = (None, s')"
  obtains t where "marshalIndentAndSort C order m = Some t" "writable s (AddressBookFilePath d)"
    "s' = put_node (elements (AddressBookFilePath d)) (FFile t) s" "fs_tree s'"
proof -
  from assms(2) obtain t where t: "marshalIndentAndSort C order m = Some t" "WriteFile (AddressBookFilePath d) t s = (None, s')"
    by (auto simp: write_book_def fail_def split: option.splits prod.splits)
  have "writable s (AddressBookFilePath d)" "s' = put_node (elements (AddressBookFilePath d)) (FFile t) s"
    using WriteFile_cases [OF assms(1), of "AddressBookFilePath d" t] t(2) by (auto split: if_splits)
  then show ?thesis using that t(1) WriteFile_tree [OF assms(1), of "AddressBookFilePath d" t] t(2) by simp
qed

lemma written_book:
  assumes "fs_tree s" "writable s (AddressBookFilePath d)" "s' = put_node (elements (AddressBookFilePath d)) (FFile t) s"
    "fs_tree s'" "fc_BookOf C t = Some m"
  shows "EnvDir_AddressBook C d s' = Inr m" "writable s' (AddressBookFilePath d)"
proof -
  have ne: "elements (AddressBookFilePath d) \<noteq> []" using assms(2) by (simp add: writable_def)
  have other: "butlast (elements (AddressBookFilePath d)) \<noteq> elements (AddressBookFilePath d)"
    using ne by (metis append_butlast_last_id append_self_conv not_Cons_self2)
  have "ReadFile s' (AddressBookFilePath d) = Inr t"
    unfolding ReadFile_iff [OF assms(4)] using assms(2) by (simp add: assms(3) writable_def node_at_put [OF ne])
  then show "EnvDir_AddressBook C d s' = Inr m" by (simp add: EnvDir_AddressBook_def assms(5) NewMemoryAddressBookFromMap_def)
  show "writable s' (AddressBookFilePath d)"
    using assms(2) other by (simp add: writable_def assms(3) node_at_put [OF ne])
qed

text \<open>
  C30: merging the address book of a changeset into the file of its environment, and taking it back. When the merge
  succeeds, the file has the entries of both books, which had none in common, and no other file has changed; the
  removal that follows finds the same artifact and, if the remaining book can be printed, succeeds and leaves a file with
  exactly the entries from before the merge.
\<close>

theorem ChangesetAddressBook_rollback:
  assumes "fs_tree s" "proper_env d" "ordinary csKey"
    and "EnvDir_AddressBook C d s = Inr ab" "changeset_address_book C d s csKey timestamp = Inr cs"
    and "book_ok L cs" "orders_book cs (order cs)"
    and "AddressBook_Merge L (order cs) cs ab = (err, m1)" "AddressBook_Remove (order cs) (order cs) m1 = (err2, m2)"
    and "printable C order m1" "printable C order m2"
    and "MergeChangesetAddressBook C L order d csKey timestamp s = (None, s1)"
  shows "EnvDir_AddressBook C d s1 = Inr m1 \<and>
    (\<forall>c a. (book_at cs c a = None \<or> book_at ab c a = None) \<and>
       book_at m1 c a = (if book_at cs c a \<noteq> None then book_at cs c a else book_at ab c a)) \<and>
    (\<forall>ks. ks \<noteq> elements (AddressBookFilePath d) \<longrightarrow> node_at s1 ks = node_at s ks) \<and>
    (marshalIndentAndSort C (order m2) m2 \<noteq> None \<longrightarrow>
       (\<exists>s2. RemoveChangesetAddressBook C order d csKey timestamp s1 = (None, s2) \<and>
          EnvDir_AddressBook C d s2 = Inr m2 \<and> (\<forall>c a. book_at m2 c a = book_at ab c a) \<and>
          (\<forall>ks. ks \<noteq> elements (AddressBookFilePath d) \<longrightarrow> node_at s2 ks = node_at s ks)))"
proof -
  let ?p = "AddressBookFilePath d"
  have ok: "err = None" and put: "write_book C (order m1) d m1 s = (None, s1)"
    using assms(12) by (auto simp: MergeChangesetAddressBook_def assms(4,5,8) AddressBook_Addresses_def cloneAddresses_def
        fail_def Let_def split: option.splits)
  note law = Merge_law [OF assms(6,7,8)]
  note law2 = Remove_law [OF assms(7,7,9)]
  have ok2: "err2 = None" unfolding law2(1) using law(3) [OF ok] by auto
  from write_book_ok [OF assms(1) put] obtain t where t: "marshalIndentAndSort C (order m1) m1 = Some t"
    "writable s ?p" "s1 = put_node (elements ?p) (FFile t) s" "fs_tree s1" .
  have read: "fc_BookOf C t = Some m1" using assms(10) t(1) by (simp add: printable_def)
  note book1 = written_book [OF assms(1) t(2-4) read]
  have ne: "elements ?p \<noteq> []" using t(2) by (simp add: writable_def)
  have cs1: "changeset_address_book C d s1 csKey timestamp = Inr cs"
    by (rule changeset_address_book_frame [OF assms(1,2,3) t(3,4) assms(5)])
  have gone: "book_at m2 c a = book_at ab c a" for c a
    using law2(3) [OF ok2, of c a] law(1) law(3) [OF ok, of c a] ok by metis
  have frame1: "node_at s1 ks = node_at s ks" if "ks \<noteq> elements ?p" for ks
    using that by (simp add: t(3) node_at_put [OF ne])
  have "\<exists>s2. RemoveChangesetAddressBook C order d csKey timestamp s1 = (None, s2) \<and>
      EnvDir_AddressBook C d s2 = Inr m2 \<and> (\<forall>c a. book_at m2 c a = book_at ab c a) \<and>
      (\<forall>ks. ks \<noteq> elements ?p \<longrightarrow> node_at s2 ks = node_at s ks)"
    if "marshalIndentAndSort C (order m2) m2 = Some t2" for t2
  proof -
    let ?s2 = "put_node (elements ?p) (FFile t2) s1"
    have w: "WriteFile ?p t2 s1 = (None, ?s2)" by (rule WriteFile_writable [OF t(4) book1(2)])
    have tree: "fs_tree ?s2" using WriteFile_tree [OF t(4), of ?p t2] w by simp
    have "fc_BookOf C t2 = Some m2" using assms(11) that by (simp add: printable_def)
    note book2 = written_book [OF t(4) book1(2) refl tree this]
    have "RemoveChangesetAddressBook C order d csKey timestamp s1 = (None, ?s2)"
      by (simp add: RemoveChangesetAddressBook_def book1(1) cs1 assms(9) ok2 write_book_def AddressBook_Addresses_def
          cloneAddresses_def that w)
    then show ?thesis using book2(1) gone frame1 by (auto simp: node_at_put [OF ne])
  qed
  then have undone: "marshalIndentAndSort C (order m2) m2 \<noteq> None \<longrightarrow>
      (\<exists>s2. RemoveChangesetAddressBook C order d csKey timestamp s1 = (None, s2) \<and>
        EnvDir_AddressBook C d s2 = Inr m2 \<and> (\<forall>c a. book_at m2 c a = book_at ab c a) \<and>
        (\<forall>ks. ks \<noteq> elements ?p \<longrightarrow> node_at s2 ks = node_at s ks))"
    by (cases "marshalIndentAndSort C (order m2) m2") simp_all
  have disjoint: "book_at cs c a = None \<or> book_at ab c a = None" for c a using law(1) ok by simp
  show ?thesis by (intro conjI allI impI book1(1) disjoint law(3) [OF ok] frame1 undone [rule_format]) assumption+
qed

text \<open>An environment with one address, and a changeset with another.\<close>

definition example_own_book :: "nat address_book" where
  "example_own_book = [2 \<mapsto> [''B'' \<mapsto> NewTypeAndVersion ''T'' 1]]"

definition example_merged_book :: "nat address_book" where
  "example_merged_book = [1 \<mapsto> [''0xA'' \<mapsto> NewTypeAndVersion ''T'' 1], 2 \<mapsto> [''B'' \<mapsto> NewTypeAndVersion ''T'' 1]]"

definition example_left_book :: "nat address_book" where
  "example_left_book = [1 \<mapsto> Map.empty, 2 \<mapsto> [''B'' \<mapsto> NewTypeAndVersion ''T'' 1]]"

definition example_order :: "nat address_book \<Rightarrow> book_order" where
  "example_order m =
     (case m 2 of None \<Rightarrow> [] | Some as \<Rightarrow> [(2, if as ''B'' = None then [] else [''B''])]) @
     (case m 1 of None \<Rightarrow> [] | Some as \<Rightarrow> [(1, if as ''0xA'' = None then [] else [''0xA''])])"

definition example_text :: "nat address_book \<Rightarrow> string" where
  "example_text m = the (marshalIndentAndSort example_codec (example_order m) m)"

definition example_book_codec :: "nat file_codec" where
  "example_book_codec = example_codec\<lparr>fc_BookOf := (\<lambda>t.
     if t = example_text example_own_book then Some example_own_book
     else if t = example_text example_book then Some example_book
     else if t = example_text example_merged_book then Some example_merged_book
     else if t = example_text example_left_book then Some example_left_book else None)\<rparr>"

definition example_book_files :: file_system where
  "example_book_files = \<lparr>fs_Entries = [([''d''], FDir), ([''d'', ''ccip''], FDir), ([''d'', ''ccip'', ''test''], FDir),
     ([''d'', ''ccip'', ''test'', ''addresses.json''], FFile (example_text example_own_book)),
     ([''d'', ''ccip'', ''test'', ''artifacts''], FDir), ([''d'', ''ccip'', ''test'', ''artifacts'', ''cs''], FDir),
     ([''d'', ''ccip'', ''test'', ''artifacts'', ''cs'', ''x-ccip-test-cs_addresses.json''], FFile (example_text example_book))],
   fs_Denied = (\<lambda>_. False)\<rparr>"

lemma example_texts:
  "distinct (map example_text [example_own_book, example_book, example_merged_book, example_left_book])"
  by code_simp

lemma example_marshal:
  "marshalIndentAndSort example_book_codec order m = marshalIndentAndSort example_codec order m"
  by (simp add: marshalIndentAndSort_def print_chain_def example_book_codec_def)

lemma example_reads:
  "fc_BookOf example_book_codec (example_text example_own_book) = Some example_own_book"
  "fc_BookOf example_book_codec (example_text example_book) = Some example_book"
  "fc_BookOf example_book_codec (example_text example_merged_book) = Some example_merged_book"
  "fc_BookOf example_book_codec (example_text example_left_book) = Some example_left_book"
  using example_texts by (auto simp: example_book_codec_def)

lemma example_orders:
  "example_order example_book = [(1, [''0xA''])]"
  "orders_book example_merged_book (example_order example_merged_book)"
  "orders_book example_left_book (example_order example_left_book)"
  by (auto simp: example_order_def example_book_def example_merged_book_def example_left_book_def orders_book_def
      iteration_of_def split: if_splits)

lemma example_printable:
  "printable example_book_codec example_order example_merged_book"
  "printable example_book_codec example_order example_left_book"
  using example_reads(3,4) example_orders(2,3)
  by (auto simp: printable_def example_marshal example_text_def)

lemma example_book_steps:
  "AddressBook_Merge example_chains (example_order example_book) example_book example_own_book = (None, example_merged_book)"
  "AddressBook_Remove (example_order example_book) (example_order example_book) example_merged_book = (None, example_left_book)"
  unfolding example_orders(1)
  by (auto simp: AddressBook_Merge_def AddressBook_Addresses_def cloneAddresses_def book_save_law checked_address_def book_at_def
      example_chains_def example_book_def example_own_book_def example_merged_book_def example_left_book_def
      NewTypeAndVersion_def AddressBook_Remove_def delete_address_def ret_def fun_eq_iff split: option.splits)

lemma example_book_reads:
  "fs_tree example_book_files"
  "EnvDir_AddressBook example_book_codec example_env example_book_files = Inr example_own_book"
  "changeset_address_book example_book_codec example_env example_book_files ''cs'' [] = Inr example_book"
proof -
  show "fs_tree example_book_files" by code_simp
  have own: "ReadFile example_book_files (AddressBookFilePath example_env) = Inr (example_text example_own_book)" by code_simp
  then show "EnvDir_AddressBook example_book_codec example_env example_book_files = Inr example_own_book"
    by (simp add: EnvDir_AddressBook_def example_reads NewMemoryAddressBookFromMap_def)
  define a where "a = EnvDir_ArtifactsDir example_env"
  define p where "p = ''/d/ccip/test/artifacts/cs/x-ccip-test-cs_addresses.json''"
  have find: "findArtifactPath example_book_files (ChangesetDirPath a ''cs'') (artifact_pattern a ''cs'' ''addresses.json'') = Inr p"
    unfolding a_def p_def by code_simp
  have other: "ReadFile example_book_files p = Inr (example_text example_book)" unfolding p_def by code_simp
  show "changeset_address_book example_book_codec example_env example_book_files ''cs'' [] = Inr example_book"
    by (simp add: changeset_address_book_def at_timestamp_def a_def [symmetric] LoadAddressBookByChangesetKey_def find
        bind_sum_def or_empty_def loadAddressBook_def load_with_def read_file_def other example_reads NewMemoryAddressBookFromMap_def)
qed

theorem ChangesetAddressBook_rollback_witness:
  "\<exists>s1 s2. MergeChangesetAddressBook example_book_codec example_chains example_order example_env ''cs'' [] example_book_files = (None, s1) \<and>
     EnvDir_AddressBook example_book_codec example_env s1 = Inr example_merged_book \<and>
     RemoveChangesetAddressBook example_book_codec example_order example_env ''cs'' [] s1 = (None, s2) \<and>
     EnvDir_AddressBook example_book_codec example_env s2 = Inr example_left_book \<and>
     book_at example_left_book 2 ''B'' = book_at example_own_book 2 ''B''"
proof -
  have proper: "proper_env example_env" and key: "ordinary ''cs''" by code_simp+
  have order: "orders_book example_book (example_order example_book)"
    unfolding example_orders(1) by (rule example_book_ok(2))
  obtain s1 where run: "MergeChangesetAddressBook example_book_codec example_chains example_order example_env ''cs'' [] example_book_files = (None, s1)"
  proof -
    have w: "writable example_book_files (AddressBookFilePath example_env)" by code_simp
    have "marshalIndentAndSort example_codec (example_order example_merged_book) example_merged_book \<noteq> None" by code_simp
    then show ?thesis using that
      by (auto simp: MergeChangesetAddressBook_def example_book_reads example_book_steps(1) write_book_def AddressBook_Addresses_def
          cloneAddresses_def example_marshal WriteFile_writable [OF example_book_reads(1) w])
  qed
  have printed: "marshalIndentAndSort example_book_codec (example_order example_left_book) example_left_book \<noteq> None"
    unfolding example_marshal by code_simp
  from ChangesetAddressBook_rollback [OF example_book_reads(1) proper key example_book_reads(2,3) example_book_ok(1) order
      example_book_steps example_printable run] printed run
  show ?thesis by blast
qed

section \<open>Printing a book\<close>

text \<open>The text of a book does not depend on the order in which the maps are ranged over.\<close>

lemma marshalIndentAndSort_deterministic:
  assumes "orders_book m order" "orders_book m order'"
  shows "marshalIndentAndSort C order m = marshalIndentAndSort C order' m"
proof -
  have d: "distinct (map fst order)" "distinct (map fst order')" "set (map fst order) = set (map fst order')"
    using assms by (simp_all add: orders_book_def)
  then have keys: "sort (map fst order) = sort (map fst order')"
    by (intro sorted_distinct_set_unique) simp_all
  have inner: "sort (the (map_of order c)) = sort (the (map_of order' c))" if c: "c \<in> set (map fst order)" for c
  proof -
    obtain as as' where as: "map_of order c = Some as" "map_of order' c = Some as'"
      using c d(3) by (metis map_of_eq_None_iff not_None_eq set_map)
    then have "iteration_of (the (m c)) as" "iteration_of (the (m c)) as'"
      using assms by (auto simp: orders_book_def dest!: map_of_SomeD)
    then have "sort as = sort as'" by (intro sorted_distinct_set_unique) (simp_all add: iteration_of_def)
    then show ?thesis using as by simp
  qed
  have "map (\<lambda>c. print_chain C c (the (m c)) (sort (the (map_of order c)))) (sort (map fst order)) =
      map (\<lambda>c. print_chain C c (the (m c)) (sort (the (map_of order' c)))) (sort (map fst order'))"
    unfolding keys [symmetric] using inner by (intro map_cong refl) auto
  then show ?thesis by (simp add: marshalIndentAndSort_def)
qed

end
