(* ===== verification/Env_Migration.thy ===== *)
theory Env_Migration
  imports Env_Dir
begin

text \<open>
  Migrating the address book of an environment to address references (\<open>engine/cld/domain/addressbook.go\<close>): all of it
  into a new data store, or only what is missing, or only one chain.
\<close>

section \<open>The migration\<close>

record migrate_options =
  mo_PreserveExisting :: bool
  mo_ChainSelector :: u64

record address_ref_identity =
  ai_chainSelector :: u64
  ai_address :: string
  ai_contractType :: string
  ai_version :: string

definition addressRefIdentityFromRef :: "'v semver \<Rightarrow> 'v address_ref \<Rightarrow> address_ref_identity" where
  "addressRefIdentityFromRef sv ref =
     \<lparr>ai_chainSelector = ar_ChainSelector ref, ai_address = map ascii_lower (ar_Address ref), ai_contractType = ar_Type ref,
      ai_version = (case ar_Version ref of None \<Rightarrow> [] | Some v \<Rightarrow> sv_String sv v)\<rparr>"

definition addressRefIdentityFromAddressBook ::
  "'v semver \<Rightarrow> u64 \<Rightarrow> string \<Rightarrow> 'v type_and_version \<Rightarrow> address_ref_identity" where
  "addressRefIdentityFromAddressBook sv chainSelector addr typever =
     \<lparr>ai_chainSelector = chainSelector, ai_address = map ascii_lower addr, ai_contractType = tv_Type typever,
      ai_version = sv_String sv (tv_Version typever)\<rparr>"

definition migrated_ref :: "u64 \<Rightarrow> string \<Rightarrow> 'v type_and_version \<Rightarrow> 'v address_ref" where
  "migrated_ref chainselector addr typever =
     \<lparr>ar_Address = addr, ar_ChainSelector = chainselector,
      ar_Labels = (if \<not> BookLabels_IsEmpty (tv_Labels typever) then NewLabelSet (BookLabels_List (tv_Labels typever)) else {}),
      ar_Qualifier = addr @ ''-'' @ tv_Type typever, ar_Type = tv_Type typever, ar_Version = Some (tv_Version typever)\<rparr>"

definition drop_chain :: "'v semver \<Rightarrow> u64 \<Rightarrow> 'v address_store \<Rightarrow> (ds_error, 'v address_store) eff" where
  "drop_chain sv chainSelector a =
     for_each (\<lambda>ref a. if ar_ChainSelector ref \<noteq> chainSelector then ret a else AddressRefStore_Delete sv (AddressRef_Key ref) a)
       (AddressRefStore_Fetch a) a"

definition migrate_entries ::
  "'v semver \<Rightarrow> migrate_options \<Rightarrow> address_ref_identity set \<Rightarrow> 'v address_book \<Rightarrow> book_order \<Rightarrow> 'v address_store \<Rightarrow>
   (ds_error, 'v address_store) eff" where
  "migrate_entries sv opts existing addrs order =
     for_each (\<lambda>(chainselector, as) a.
       if mo_ChainSelector opts \<noteq> 0 \<and> chainselector \<noteq> mo_ChainSelector opts then ret a
       else for_each (\<lambda>addr a.
         let typever = the (the (addrs chainselector) addr) in
         if mo_PreserveExisting opts \<and> addressRefIdentityFromAddressBook sv chainselector addr typever \<in> existing then ret a
         else AddressRefStore_Add sv (migrated_ref chainselector addr typever) a) as a) order"

definition writeAddressRefs :: "'v file_codec \<Rightarrow> 'v semver \<Rightarrow> EnvDir \<Rightarrow> 'v address_store \<Rightarrow> file_system \<Rightarrow> (env_error, file_system) eff" where
  "writeAddressRefs C sv d a s = write_json (AddressRefsFilePath d) (fc_Refs C (SortAddressRefs sv (AddressRefStore_Fetch a))) s"

definition MigrateAddressBook ::
  "'v file_codec \<Rightarrow> 'v semver \<Rightarrow> ('v address_book \<Rightarrow> book_order) \<Rightarrow> EnvDir \<Rightarrow> migrate_options \<Rightarrow> file_system \<Rightarrow>
   (env_error, file_system) eff" where
  "MigrateAddressBook C sv order d opts s =
     (case EnvDir_AddressBook C d s of
        Inl e \<Rightarrow> fail e s
      | Inr addrBook \<Rightarrow>
          (let addrs = AddressBook_Addresses addrBook; chainScoped = mo_ChainSelector opts \<noteq> 0;
               addressRefsOnly = mo_PreserveExisting opts \<or> chainScoped in
           case (if addressRefsOnly then EnvDir_MutableDataStore C d s else Inr NewMemoryDataStore) of
             Inl e \<Rightarrow> fail e s
           | Inr ds \<Rightarrow>
               (let refs = AddressRefStore_Fetch (ds_Addresses ds);
                    existing = (if mo_PreserveExisting opts then addressRefIdentityFromRef sv ` set refs else {}) in
                case (if chainScoped \<and> \<not> mo_PreserveExisting opts then drop_chain sv (mo_ChainSelector opts) (ds_Addresses ds)
                      else ret (ds_Addresses ds)) of
                  (Some e, _) \<Rightarrow> fail (ErrStore e) s
                | (None, a) \<Rightarrow>
                    (case migrate_entries sv opts existing addrs (order addrs) a of
                       (Some e, _) \<Rightarrow> fail (ErrStore e) s
                     | (None, a) \<Rightarrow>
                         if addressRefsOnly then writeAddressRefs C sv d a s
                         else write_store C sv d (ds\<lparr>ds_Addresses := a\<rparr>) s))))"

section \<open>The references that are left\<close>

text \<open>Deleting by the keys of records with unique keys leaves exactly the other records.\<close>

lemma delete_unique:
  assumes "equivp eq" "unique_keys eq key xs" "index_where (\<lambda>x. eq (key x) k) xs = Some i"
  shows "delete_at i xs = filter (\<lambda>x. \<not> eq (key x) k) xs"
proof -
  have split: "xs = take i xs @ xs ! i # drop (Suc i) xs" and x: "eq (key (xs ! i)) k"
    and before: "\<forall>x \<in> set (take i xs). \<not> eq (key x) k"
    using index_where_split [OF assms(3)] by simp_all
  have "find_rec eq key (drop (Suc i) xs) k = None"
    using find_rec_split(2) [where as = "take i xs" and x = "xs ! i" and bs = "drop (Suc i) xs" and key = key and k = k, OF assms(1)]
      assms(2) split x by metis
  then have after: "\<forall>x \<in> set (drop (Suc i) xs). \<not> eq (key x) k" by (simp add: find_rec_None)
  have "filter (\<lambda>x. \<not> eq (key x) k) xs = filter (\<lambda>x. \<not> eq (key x) k) (take i xs @ xs ! i # drop (Suc i) xs)"
    using split by simp
  also have "\<dots> = delete_at i xs" using before after x by (simp add: delete_at_def)
  finally show ?thesis ..
qed

lemma unique_keys_filter: "unique_keys eq key xs \<Longrightarrow> unique_keys eq key (filter q xs)"
  by (simp add: unique_keys_def sorted_wrt_filter)

lemma Delete_unique:
  assumes "semver_ok sv" "unique_keys (addressRefKey_Equals sv) AddressRef_Key (as_Records a)"
    "AddressRefStore_Delete sv k a = (None, a')"
  shows "as_Records a' = filter (\<lambda>x. \<not> addressRefKey_Equals sv (AddressRef_Key x) k) (as_Records a)"
  using assms(3) delete_unique [OF addressRefKey_equivp [OF assms(1)] assms(2), of k]
  by (auto simp: AddressRefStore_Delete_def AddressRefStore_indexOf_def fail_def ret_def split: option.splits)

lemma delete_loop:
  assumes "semver_ok sv"
  shows "\<lbrakk>for_each (\<lambda>ref a. if ar_ChainSelector ref \<noteq> c then ret a else AddressRefStore_Delete sv (AddressRef_Key ref) a) rs a = (None, a');
    unique_keys (addressRefKey_Equals sv) AddressRef_Key (as_Records a)\<rbrakk> \<Longrightarrow>
   as_Records a' = filter (\<lambda>x. \<not> (\<exists>r \<in> set rs. ar_ChainSelector r = c \<and> addressRefKey_Equals sv (AddressRef_Key x) (AddressRef_Key r)))
     (as_Records a)"
proof (induction rs arbitrary: a)
  case (Cons r rs)
  show ?case
  proof (cases "ar_ChainSelector r = c")
    case False
    then show ?thesis using Cons by (simp add: ret_def)
  next
    case True
    then obtain a1 where a1: "AddressRefStore_Delete sv (AddressRef_Key r) a = (None, a1)"
      "for_each (\<lambda>ref a. if ar_ChainSelector ref \<noteq> c then ret a else AddressRefStore_Delete sv (AddressRef_Key ref) a) rs a1 = (None, a')"
      using Cons.prems(1) by (auto split: prod.splits option.splits)
    note recs = Delete_unique [OF assms Cons.prems(2) a1(1)]
    have "unique_keys (addressRefKey_Equals sv) AddressRef_Key (as_Records a1)"
      unfolding recs by (rule unique_keys_filter) (rule Cons.prems(2))
    from Cons.IH [OF a1(2) this] recs True show ?thesis by (simp add: conj_commute cong: conj_cong)
  qed
qed (simp add: filter_id_conv)

lemma drop_chain_records:
  assumes "semver_ok sv" "unique_keys (addressRefKey_Equals sv) AddressRef_Key (as_Records a)"
    "drop_chain sv c a = (None, a')"
  shows "as_Records a' = filter (\<lambda>r. ar_ChainSelector r \<noteq> c) (as_Records a)"
proof -
  have "as_Records a' = filter (\<lambda>x. \<not> (\<exists>r \<in> set (as_Records a). ar_ChainSelector r = c \<and>
      addressRefKey_Equals sv (AddressRef_Key x) (AddressRef_Key r))) (as_Records a)"
    using delete_loop [OF assms(1) _ assms(2)] assms(3) by (simp add: drop_chain_def)
  also have "\<dots> = filter (\<lambda>r. ar_ChainSelector r \<noteq> c) (as_Records a)"
  proof (rule filter_cong [OF refl])
    fix x assume x: "x \<in> set (as_Records a)"
    have same: "addressRefKey_Equals sv (AddressRef_Key x) (AddressRef_Key x)"
      using addressRefKey_equivp [OF assms(1)] by (simp add: equivp_reflp)
    show "(\<not> (\<exists>r \<in> set (as_Records a). ar_ChainSelector r = c \<and> addressRefKey_Equals sv (AddressRef_Key x) (AddressRef_Key r))) =
        (ar_ChainSelector x \<noteq> c)"
      using x same by (auto simp: addressRefKey_Equals_def AddressRef_Key_def NewAddressRefKey_def)
  qed
  finally show ?thesis .
qed

text \<open>Every reference that is added stands at the end.\<close>

definition in_scope :: "migrate_options \<Rightarrow> u64 \<Rightarrow> bool" where
  "in_scope opts c \<longleftrightarrow> mo_ChainSelector opts = 0 \<or> c = mo_ChainSelector opts"

definition wanted :: "'v semver \<Rightarrow> migrate_options \<Rightarrow> address_ref_identity set \<Rightarrow> 'v address_book \<Rightarrow> u64 \<times> string \<Rightarrow> bool" where
  "wanted sv opts existing m = (\<lambda>(c, a). in_scope opts c \<and>
     \<not> (mo_PreserveExisting opts \<and> addressRefIdentityFromAddressBook sv c a (the (the (m c) a)) \<in> existing))"

lemma Add_records: "AddressRefStore_Add sv r a = (None, a') \<Longrightarrow> as_Records a' = as_Records a @ [r]"
  by (auto simp: AddressRefStore_Add_def fail_def ret_def split: if_splits option.splits)

lemma migrate_entries_pairs:
  "migrate_entries sv opts existing m order a =
   for_each (\<lambda>(c, addr) a. if wanted sv opts existing m (c, addr) then AddressRefStore_Add sv (migrated_ref c addr (the (the (m c) addr))) a else ret a)
     (pairs_of order) a"
proof -
  have skip: "for_each (\<lambda>addr. ret) as a = ret a" for as :: "string list" and a :: "'a address_store"
    by (induction as) (simp_all add: ret_def)
  have "(\<lambda>(c, as). (\<lambda>a. if mo_ChainSelector opts \<noteq> 0 \<and> c \<noteq> mo_ChainSelector opts then ret a
      else for_each (\<lambda>addr a. let typever = the (the (m c) addr) in
         if mo_PreserveExisting opts \<and> addressRefIdentityFromAddressBook sv c addr typever \<in> existing then ret a
         else AddressRefStore_Add sv (migrated_ref c addr typever) a) as a)) =
    (\<lambda>(c, as). for_each (\<lambda>addr a. if wanted sv opts existing m (c, addr)
       then AddressRefStore_Add sv (migrated_ref c addr (the (the (m c) addr))) a else ret a) as)"
    by (auto simp: fun_eq_iff wanted_def in_scope_def Let_def skip [unfolded fun_eq_iff]
        intro!: arg_cong2 [where f = "\<lambda>f as. for_each f as _"])
  then show ?thesis unfolding migrate_entries_def by (simp add: for_each_pairs)
qed

lemma add_loop:
  "for_each (\<lambda>(c, addr) a. if w (c, addr) then AddressRefStore_Add sv (g c addr) a else ret a) ps a = (None, a') \<Longrightarrow>
   as_Records a' = as_Records a @ map (\<lambda>(c, addr). g c addr) (filter w ps)"
proof (induction ps arbitrary: a)
  case (Cons p ps)
  obtain c addr where p: "p = (c, addr)" by (cases p)
  obtain a1 where a1: "(if w p then AddressRefStore_Add sv (g c addr) a else ret a) = (None, a1)"
    "for_each (\<lambda>(c, addr) a. if w (c, addr) then AddressRefStore_Add sv (g c addr) a else ret a) ps a1 = (None, a')"
    using Cons.prems p by (auto split: prod.splits option.splits)
  show ?case using Cons.IH [OF a1(2)] a1(1) Add_records [of sv "g c addr" a a1] by (auto simp: p split: if_splits)
qed simp

text \<open>The stores a migration starts from.\<close>

definition migration_start :: "'v file_codec \<Rightarrow> EnvDir \<Rightarrow> migrate_options \<Rightarrow> file_system \<Rightarrow> env_error + 'v memory_data_store" where
  "migration_start C d opts s =
     (if mo_PreserveExisting opts \<or> mo_ChainSelector opts \<noteq> 0 then EnvDir_loadDataStore C d s else Inr NewMemoryDataStore)"

text \<open>The references and files a migration leaves, in terms of the entries it makes.\<close>

lemma migration_law:
  assumes "fs_tree s" "proper_env d" "codec_ok C" "semver_ok sv"
    and "EnvDir_AddressBook C d s = Inr m" "orders_book m (order m)"
    and "migration_start C d opts s = Inr ds" "address_inv sv (ds_Addresses ds)"
    and "MigrateAddressBook C sv order d opts s = (None, s')"
  defines "old \<equiv> set (as_Records (ds_Addresses ds))"
    and "existing \<equiv> (if mo_PreserveExisting opts then addressRefIdentityFromRef sv ` set (as_Records (ds_Addresses ds)) else {})"
  shows "\<exists>refs. (case ReadFile s' (AddressRefsFilePath d) of Inl e \<Rightarrow> None | Inr b \<Rightarrow> fc_RefsOf C b) = Some refs \<and>
    set refs =
      {r \<in> old. mo_PreserveExisting opts \<or> ar_ChainSelector r \<noteq> mo_ChainSelector opts} \<union>
      {migrated_ref c a tv | c a tv. book_at m c a = Some tv \<and> in_scope opts c \<and>
         \<not> (mo_PreserveExisting opts \<and> addressRefIdentityFromAddressBook sv c a tv \<in> existing)} \<and>
    (if mo_PreserveExisting opts \<or> mo_ChainSelector opts \<noteq> 0
     then \<forall>ks. ks \<noteq> elements (AddressRefsFilePath d) \<longrightarrow> node_at s' ks = node_at s ks
     else EnvDir_loadDataStore C d s' = Inr (NewMemoryDataStore\<lparr>ds_Addresses := \<lparr>as_Records = refs, as_DeletedRemoteKeys = []\<rparr>\<rparr>))"
proof -
  let ?only = "mo_PreserveExisting opts \<or> mo_ChainSelector opts \<noteq> 0" and ?w = "wanted sv opts existing m"
  let ?start = "if mo_ChainSelector opts \<noteq> 0 \<and> \<not> mo_PreserveExisting opts
    then drop_chain sv (mo_ChainSelector opts) (ds_Addresses ds) else ret (ds_Addresses ds)"
  have start: "(if ?only then EnvDir_MutableDataStore C d s else Inr NewMemoryDataStore) = Inr ds"
    using assms(7) by (auto simp: migration_start_def EnvDir_MutableDataStore_def split: if_splits)
  obtain a0 a1 where run: "?start = (None, a0)" "migrate_entries sv opts existing m (order m) a0 = (None, a1)"
    and written: "(if ?only then writeAddressRefs C sv d a1 s else write_store C sv d (ds\<lparr>ds_Addresses := a1\<rparr>) s) = (None, s')"
    using assms(9) unfolding MigrateAddressBook_def assms(5) sum.case Let_def AddressBook_Addresses_def cloneAddresses_def start
      AddressRefStore_Fetch_records existing_def [symmetric]
    by (auto simp: fail_def split: prod.splits option.splits)
  have u: "unique_keys (addressRefKey_Equals sv) AddressRef_Key (as_Records (ds_Addresses ds))"
    using assms(8) by (simp add: address_inv_def)
  have empty: "old = {}" if "\<not> ?only"
    using assms(7) that by (auto simp: migration_start_def old_def NewMemoryDataStore_def NewMemoryAddressRefStore_def)
  have a0: "set (as_Records a0) = {r \<in> old. mo_PreserveExisting opts \<or> ar_ChainSelector r \<noteq> mo_ChainSelector opts}"
    using run(1) drop_chain_records [OF assms(4) u, of "mo_ChainSelector opts" a0] empty
    by (auto simp: old_def ret_def split: if_splits)
  have "for_each (\<lambda>(c, addr) a. if ?w (c, addr) then AddressRefStore_Add sv (migrated_ref c addr (the (the (m c) addr))) a else ret a)
      (pairs_of (order m)) a0 = (None, a1)"
    using run(2) unfolding migrate_entries_pairs .
  from add_loop [OF this]
  have a1: "as_Records a1 = as_Records a0 @ map (\<lambda>(c, addr). migrated_ref c addr (the (the (m c) addr))) (filter ?w (pairs_of (order m)))" .
  have entry: "book_at m c a = Some tv \<longleftrightarrow> (c, a) \<in> set (pairs_of (order m)) \<and> tv = the (the (m c) a)" for c a tv
    using orders_pairs(2) [OF assms(6), of c a] by (auto simp: book_at_def split: option.splits)
  have new: "set (map (\<lambda>(c, addr). migrated_ref c addr (the (the (m c) addr))) (filter ?w (pairs_of (order m)))) =
      {migrated_ref c a tv | c a tv. book_at m c a = Some tv \<and> in_scope opts c \<and>
         \<not> (mo_PreserveExisting opts \<and> addressRefIdentityFromAddressBook sv c a tv \<in> existing)}"
    unfolding entry by (auto simp: wanted_def image_iff)
  define refs where "refs = SortAddressRefs sv (as_Records a1)"
  have refs: "set refs = set (as_Records a0) \<union> {migrated_ref c a tv | c a tv. book_at m c a = Some tv \<and> in_scope opts c \<and>
         \<not> (mo_PreserveExisting opts \<and> addressRefIdentityFromAddressBook sv c a tv \<in> existing)}"
    unfolding refs_def SortAddressRefs_def set_stable_sort a1 set_append new ..
  have stored: "(case ReadFile s' (AddressRefsFilePath d) of Inl e \<Rightarrow> None | Inr b \<Rightarrow> fc_RefsOf C b) = Some refs \<and>
    (if ?only then \<forall>ks. ks \<noteq> elements (AddressRefsFilePath d) \<longrightarrow> node_at s' ks = node_at s ks
     else EnvDir_loadDataStore C d s' = Inr (NewMemoryDataStore\<lparr>ds_Addresses := \<lparr>as_Records = refs, as_DeletedRemoteKeys = []\<rparr>\<rparr>))"
  proof (cases ?only)
    case True
    then have "write_json (AddressRefsFilePath d) (fc_Refs C refs) s = (None, s')"
      using written by (simp add: writeAddressRefs_def refs_def)
    from write_json_ok [OF assms(1) this] obtain b where b: "fc_Refs C refs = Some b" "writable s (AddressRefsFilePath d)"
      "s' = put_node (elements (AddressRefsFilePath d)) (FFile b) s" "fs_tree s'" .
    have ne: "elements (AddressRefsFilePath d) \<noteq> []" using b(2) by (simp add: writable_def)
    have "ReadFile s' (AddressRefsFilePath d) = Inr b"
      unfolding ReadFile_iff [OF b(4)] using b(2) by (simp add: b(3) writable_def node_at_put [OF ne])
    moreover have "fc_RefsOf C b = Some refs" using assms(3) b(1) by (simp add: codec_ok_def)
    ultimately show ?thesis using True by (simp add: b(3) node_at_put [OF ne])
  next
    case False
    then have ds: "ds = NewMemoryDataStore" using assms(7) by (simp add: migration_start_def)
    have w: "write_store C sv d (ds\<lparr>ds_Addresses := a1\<rparr>) s = (None, s')" using written unfolding if_not_P [OF False] .
    obtain r where r: "fc_Refs C refs = Some r" "ReadFile s' (AddressRefsFilePath d) = Inr r"
      by (rule write_store_files [OF assms(1,2) w]) (rule that; simp add: refs_def)
    have "fc_RefsOf C r = Some refs" using assms(3) r(1) by (simp add: codec_ok_def)
    moreover have "EnvDir_loadDataStore C d s' =
        Inr (NewMemoryDataStore\<lparr>ds_Addresses := \<lparr>as_Records = refs, as_DeletedRemoteKeys = []\<rparr>\<rparr>)"
      unfolding write_store_load [OF assms(1-3) w] ds
      by (simp add: refs_def NewMemoryDataStore_def NewMemoryAddressRefStore_def NewMemoryChainMetadataStore_def
          NewMemoryContractMetadataStore_def NewMemoryEnvMetadataStore_def)
    ultimately show ?thesis using False r(2) by simp
  qed
  show ?thesis by (intro exI [of _ refs] conjI stored [THEN conjunct1] stored [THEN conjunct2] refs [unfolded a0])
qed

lemma migrated_ref_record:
  "migrated_ref c a tv =
     \<lparr>ar_Address = a, ar_ChainSelector = c, ar_Labels = (if finite (tv_Labels tv) then tv_Labels tv else {}),
      ar_Qualifier = a @ ''-'' @ tv_Type tv, ar_Type = tv_Type tv, ar_Version = Some (tv_Version tv)\<rparr>"
  by (auto simp: migrated_ref_def BookLabels_IsEmpty_def BookLabels_List_def)

text \<open>An entry of the address book for which the records have a reference: up to the case of the address.\<close>

definition has_ref :: "'v semver \<Rightarrow> 'v address_ref set \<Rightarrow> u64 \<Rightarrow> string \<Rightarrow> 'v type_and_version \<Rightarrow> bool" where
  "has_ref sv old c a tv \<longleftrightarrow>
     (\<exists>r \<in> old. ar_ChainSelector r = c \<and> map ascii_lower (ar_Address r) = map ascii_lower a \<and> ar_Type r = tv_Type tv \<and>
        (\<exists>v. ar_Version r = Some v \<and> sv_String sv v = sv_String sv (tv_Version tv)))"

lemma identity_has_ref:
  assumes "\<forall>r \<in> old. ar_Version r \<noteq> None"
  shows "addressRefIdentityFromAddressBook sv c a tv \<in> addressRefIdentityFromRef sv ` old \<longleftrightarrow> has_ref sv old c a tv"
proof -
  have "addressRefIdentityFromAddressBook sv c a tv = addressRefIdentityFromRef sv r \<longleftrightarrow>
      ar_ChainSelector r = c \<and> map ascii_lower (ar_Address r) = map ascii_lower a \<and> ar_Type r = tv_Type tv \<and>
      (\<exists>v. ar_Version r = Some v \<and> sv_String sv v = sv_String sv (tv_Version tv))" if r: "r \<in> old" for r
  proof -
    obtain v where "ar_Version r = Some v" using assms r by blast
    then show ?thesis by (auto simp: addressRefIdentityFromAddressBook_def addressRefIdentityFromRef_def)
  qed
  then show ?thesis unfolding has_ref_def image_iff by blast
qed

text \<open>
  C31: what a migration leaves. Its entries are those of the address book on the chain asked for, or on all chains;
  when existing references are preserved, those for which there is no reference with the same chain, type, printed
  version and address up to case. When the migration succeeds, the references of the environment are the old ones, all
  of them when they are preserved, else those on other chains than the one asked for, else none, and one for each of its
  entries, with the address, type, version and labels of the entry and with address and type as the qualifier. The
  metadata of the environment is as before when a chain or preservation was asked for, and none otherwise.
\<close>

theorem MigrateAddressBook_refs:
  assumes "fs_tree s" "proper_env d" "codec_ok C" "semver_ok sv"
    and "EnvDir_AddressBook C d s = Inr m" "orders_book m (order m)"
    and "migration_start C d opts s = Inr ds" "address_inv sv (ds_Addresses ds)"
    and "MigrateAddressBook C sv order d opts s = (None, s')"
  defines "old \<equiv> set (as_Records (ds_Addresses ds))"
  shows "\<exists>refs. (case ReadFile s' (AddressRefsFilePath d) of Inl e \<Rightarrow> None | Inr b \<Rightarrow> fc_RefsOf C b) = Some refs \<and>
    set refs =
      {r \<in> old. mo_PreserveExisting opts \<or> ar_ChainSelector r \<noteq> mo_ChainSelector opts} \<union>
      {\<lparr>ar_Address = a, ar_ChainSelector = c, ar_Labels = (if finite (tv_Labels tv) then tv_Labels tv else {}),
        ar_Qualifier = a @ ''-'' @ tv_Type tv, ar_Type = tv_Type tv, ar_Version = Some (tv_Version tv)\<rparr> | c a tv.
         book_at m c a = Some tv \<and> (mo_ChainSelector opts = 0 \<or> c = mo_ChainSelector opts) \<and>
         \<not> (mo_PreserveExisting opts \<and> has_ref sv old c a tv)} \<and>
    (if mo_PreserveExisting opts \<or> mo_ChainSelector opts \<noteq> 0
     then \<forall>ks. ks \<noteq> elements (AddressRefsFilePath d) \<longrightarrow> node_at s' ks = node_at s ks
     else EnvDir_loadDataStore C d s' = Inr (NewMemoryDataStore\<lparr>ds_Addresses := \<lparr>as_Records = refs, as_DeletedRemoteKeys = []\<rparr>\<rparr>))"
proof -
  have "\<forall>r \<in> old. ar_Version r \<noteq> None" using assms(8) by (simp add: old_def address_inv_def)
  note present = identity_has_ref [OF this, of sv]
  have skip: "(mo_PreserveExisting opts \<and> addressRefIdentityFromAddressBook sv c a tv \<in>
      (if mo_PreserveExisting opts then addressRefIdentityFromRef sv ` old else {})) =
    (mo_PreserveExisting opts \<and> has_ref sv old c a tv)" for c a tv
    using present by simp
  show ?thesis
    using migration_law [OF assms(1-9)]
    unfolding old_def [symmetric] migrated_ref_record in_scope_def skip .
qed

text \<open>An environment with an address book and an empty directory for its data store.\<close>

definition example_migrated :: "nat address_ref" where
  "example_migrated =
     \<lparr>ar_Address = ''B'', ar_ChainSelector = 2, ar_Labels = {}, ar_Qualifier = ''B-T'', ar_Type = ''T'', ar_Version = Some 1\<rparr>"

definition example_migration_codec :: "nat file_codec" where
  "example_migration_codec = example_codec
     \<lparr>fc_Refs := (\<lambda>rs. if rs = [] then Some ''[]'' else if rs = [example_migrated] then Some ''[ref]'' else None),
      fc_RefsOf := (\<lambda>t. if t = ''[]'' then Some [] else if t = ''[ref]'' then Some [example_migrated] else None),
      fc_BookOf := (\<lambda>t. if t = ''book'' then Some example_own_book else None)\<rparr>"

definition example_migration_files :: file_system where
  "example_migration_files = \<lparr>fs_Entries = [([''d''], FDir), ([''d'', ''ccip''], FDir), ([''d'', ''ccip'', ''test''], FDir),
     ([''d'', ''ccip'', ''test'', ''addresses.json''], FFile ''book''), ([''d'', ''ccip'', ''test'', ''datastore''], FDir)],
   fs_Denied = (\<lambda>_. False)\<rparr>"

theorem MigrateAddressBook_refs_witness:
  "\<exists>s' refs. MigrateAddressBook example_migration_codec nat_semver (\<lambda>_. [(2, [''B''])]) example_env
       \<lparr>mo_PreserveExisting = False, mo_ChainSelector = 0\<rparr> example_migration_files = (None, s') \<and>
     (case ReadFile s' (AddressRefsFilePath example_env) of Inl e \<Rightarrow> None | Inr b \<Rightarrow> fc_RefsOf example_migration_codec b) = Some refs \<and>
     example_migrated \<in> set refs"
proof -
  let ?opts = "\<lparr>mo_PreserveExisting = False, mo_ChainSelector = 0\<rparr>"
  have tree: "fs_tree example_migration_files" and proper: "proper_env example_env" by code_simp+
  have codec: "codec_ok example_migration_codec"
    by (auto simp: codec_ok_def example_migration_codec_def example_codec_def split: if_splits)
  have read: "ReadFile example_migration_files (AddressBookFilePath example_env) = Inr ''book''" by code_simp
  have book: "EnvDir_AddressBook example_migration_codec example_env example_migration_files = Inr example_own_book"
    by (simp add: EnvDir_AddressBook_def read example_migration_codec_def NewMemoryAddressBookFromMap_def)
  have order: "orders_book example_own_book [(2, [''B''])]"
    by (auto simp: orders_book_def example_own_book_def iteration_of_def split: if_splits)
  have start: "migration_start example_migration_codec example_env ?opts example_migration_files = Inr NewMemoryDataStore"
    by (simp add: migration_start_def)
  have inv: "address_inv nat_semver (ds_Addresses (NewMemoryDataStore :: nat memory_data_store))"
    using example_stores_ok(1) by (simp add: data_store_inv_def)
  obtain s' where run: "MigrateAddressBook example_migration_codec nat_semver (\<lambda>_. [(2, [''B''])]) example_env ?opts
      example_migration_files = (None, s')"
  proof -
    have "fst (MigrateAddressBook example_migration_codec nat_semver (\<lambda>_. [(2, [''B''])]) example_env ?opts
      example_migration_files) = None" by code_simp
    then show ?thesis using that by (metis prod.collapse)
  qed
  have "book_at example_own_book 2 ''B'' = Some (NewTypeAndVersion ''T'' 1)" by (simp add: book_at_def example_own_book_def)
  then have "example_migrated \<in>
      {\<lparr>ar_Address = a, ar_ChainSelector = c, ar_Labels = (if finite (tv_Labels tv) then tv_Labels tv else {}),
        ar_Qualifier = a @ ''-'' @ tv_Type tv, ar_Type = tv_Type tv, ar_Version = Some (tv_Version tv)\<rparr> | c a tv.
       book_at example_own_book c a = Some tv \<and> (mo_ChainSelector ?opts = 0 \<or> c = mo_ChainSelector ?opts) \<and>
       \<not> (mo_PreserveExisting ?opts \<and> has_ref nat_semver {} c a tv)}"
    by (auto simp: example_migrated_def NewTypeAndVersion_def intro!: exI [of _ "NewTypeAndVersion ''T'' 1"])
  with MigrateAddressBook_refs [OF tree proper codec nat_semver_ok book order start inv run] run
  show ?thesis by auto
qed

end
