(* ===== verification/Artifacts.thy ===== *)
theory Artifacts
  imports Env_Dir Changeset_Output
begin

text \<open>
  What a changeset leaves on disk (\<open>engine/cld/domain/artifacts.go\<close>, \<open>jobs.go\<close>): its output is written as artifacts
  below the directory of the changeset, its proposals next to those of all other changesets, its reports in a
  directory of their own; and they are read again by the names of the files. The JSON of the values that the library
  mcms and the operations define is an argument (\<open>output_codec\<close>, with the names in a map of job specs), as is the identifier of the run, which the file names begin with.
\<close>

section \<open>Codecs\<close>

record ('v, 'tp, 'mp) output_codec =
  oc_JobNames :: "(string \<rightharpoonup> string list) \<Rightarrow> string list"
  oc_JobSpecs :: "(string \<rightharpoonup> string list) \<Rightarrow> string option"
  oc_JobSpecsOf :: "string \<Rightarrow> (string \<rightharpoonup> string list) option"
  oc_Jobs :: "proposed_job list \<Rightarrow> string option"
  oc_JobsOf :: "string \<Rightarrow> proposed_job list option"
  oc_MCMS :: "'mp \<Rightarrow> string option"
  oc_MCMSOf :: "string \<Rightarrow> 'mp option"
  oc_Timelock :: "'tp \<Rightarrow> string option"
  oc_TimelockOf :: "string \<Rightarrow> 'tp option"
  oc_Raw :: "string \<Rightarrow> string option"
  oc_Store :: "'v memory_data_store \<Rightarrow> string option"
  oc_Reports :: "'v report list \<Rightarrow> string option"
  oc_ReportsOf :: "string \<Rightarrow> 'v report list option"

section \<open>Directories\<close>

definition lift_fs :: "(fs_error, file_system) eff \<Rightarrow> (file_error, file_system) eff" where
  "lift_fs r = (case r of (err, s) \<Rightarrow> (map_option FileSystem err, s))"

definition create_with_keep :: "string \<Rightarrow> file_system \<Rightarrow> (file_error, file_system) eff" where
  "create_with_keep dirPath s =
     and_then (lift_fs (MkdirAll dirPath s)) (\<lambda>s. lift_fs (Create (Join [dirPath, ''.gitkeep'']) s))"

definition CreateProposalsDir :: "ArtifactsDir \<Rightarrow> file_system \<Rightarrow> (file_error, file_system) eff" where
  "CreateProposalsDir a = create_with_keep (ProposalsDirPath a)"

definition CreateDecodedProposalsDir :: "ArtifactsDir \<Rightarrow> file_system \<Rightarrow> (file_error, file_system) eff" where
  "CreateDecodedProposalsDir a = create_with_keep (DecodedProposalsDirPath a)"

definition CreateArchivedProposalsDir :: "ArtifactsDir \<Rightarrow> file_system \<Rightarrow> (file_error, file_system) eff" where
  "CreateArchivedProposalsDir a = create_with_keep (ArchivedProposalsDirPath a)"

definition CreateOperationsReportsDir :: "ArtifactsDir \<Rightarrow> file_system \<Rightarrow> (file_error, file_system) eff" where
  "CreateOperationsReportsDir a s = lift_fs (MkdirAllGitKeep (OperationsReportsDirPath a) s)"

definition CreateChangesetDir :: "ArtifactsDir \<Rightarrow> string \<Rightarrow> file_system \<Rightarrow> (file_error, file_system) eff" where
  "CreateChangesetDir a csKey = create_with_keep (ChangesetDirPath a csKey)"

definition RemoveChangesetDir :: "ArtifactsDir \<Rightarrow> string \<Rightarrow> file_system \<Rightarrow> (fs_error, file_system) eff" where
  "RemoveChangesetDir a csKey = RemoveAll (ChangesetDirPath a csKey)"

datatype exists_error = ErrStat fs_error | ErrExpectedDirectory | ErrExpectedFile

definition dir_exists :: "file_system \<Rightarrow> string \<Rightarrow> exists_error + bool" where
  "dir_exists s path =
     (case Stat s path of
        Inl e \<Rightarrow> if e = NotExist then Inr False else Inl (ErrStat e)
      | Inr FDir \<Rightarrow> Inr True
      | Inr (FFile _) \<Rightarrow> Inl ErrExpectedDirectory)"

definition ChangesetDirExists :: "ArtifactsDir \<Rightarrow> file_system \<Rightarrow> string \<Rightarrow> exists_error + bool" where
  "ChangesetDirExists a s csKey = dir_exists s (ChangesetDirPath a csKey)"

definition OperationsReportsDirExists :: "ArtifactsDir \<Rightarrow> file_system \<Rightarrow> exists_error + bool" where
  "OperationsReportsDirExists a s = dir_exists s (OperationsReportsDirPath a)"

definition ProposalsDirExists :: "ArtifactsDir \<Rightarrow> file_system \<Rightarrow> exists_error + bool" where
  "ProposalsDirExists a s = dir_exists s (ProposalsDirPath a)"

definition ArchiveProposalsDirExists :: "ArtifactsDir \<Rightarrow> file_system \<Rightarrow> exists_error + bool" where
  "ArchiveProposalsDirExists a s = dir_exists s (ArchivedProposalsDirPath a)"

definition ChangesetOperationsReportsFileExists :: "ArtifactsDir \<Rightarrow> file_system \<Rightarrow> string \<Rightarrow> exists_error + bool" where
  "ChangesetOperationsReportsFileExists a s csKey =
     (case Stat s (OperationsReportsFilePath a csKey) of
        Inl e \<Rightarrow> if e = NotExist then Inr False else Inl (ErrStat e)
      | Inr FDir \<Rightarrow> Inl ErrExpectedFile
      | Inr (FFile _) \<Rightarrow> Inr True)"

section \<open>Saving an output\<close>

definition names_of :: "ArtifactsDir \<Rightarrow> string \<Rightarrow> string" where
  "names_of a csKey = ad_domainKey a @ ''-'' @ ad_envKey a @ ''-'' @ csKey"

definition saveArtifact :: "string \<Rightarrow> ArtifactsDir \<Rightarrow> string \<Rightarrow> string \<Rightarrow> string option \<Rightarrow> file_system \<Rightarrow> (file_error, file_system) eff" where
  "saveArtifact k a csKey name v =
     WriteJSON (Join [ChangesetDirPath a csKey, k @ ''-'' @ names_of a csKey @ ''_'' @ name @ ''.json'']) v"

definition with_timestamp :: "ArtifactsDir \<Rightarrow> string \<Rightarrow> string" where
  "with_timestamp a filename = (if ad_timestamp a \<noteq> [] then ad_timestamp a @ ''-'' @ filename else filename)"

definition proposal_path :: "ArtifactsDir \<Rightarrow> string \<Rightarrow> string \<Rightarrow> nat \<Rightarrow> string" where
  "proposal_path a csKey name i =
     Join [ProposalsDirPath a, with_timestamp a (names_of a csKey @ ''_'' @ name @ ''_'' @ dec_string i @ ''.json'')]"

definition saveProposalArtifact :: "ArtifactsDir \<Rightarrow> string \<Rightarrow> string \<Rightarrow> nat \<Rightarrow> string option \<Rightarrow> file_system \<Rightarrow> (file_error, file_system) eff" where
  "saveProposalArtifact a csKey name i v = WriteJSON (proposal_path a csKey name i) v"

definition saveDecodedProposalArtifact :: "ArtifactsDir \<Rightarrow> string \<Rightarrow> string \<Rightarrow> nat \<Rightarrow> string \<Rightarrow> file_system \<Rightarrow> (file_error, file_system) eff" where
  "saveDecodedProposalArtifact a csKey name i data s =
     lift_fs (WriteFile (Join [DecodedProposalsDirPath a,
       with_timestamp a (names_of a csKey @ ''_'' @ name @ ''_'' @ dec_string i @ ''_decoded.txt'')]) data s)"

fun save_mcms :: "('mp \<Rightarrow> string option) \<Rightarrow> ArtifactsDir \<Rightarrow> string \<Rightarrow> nat \<Rightarrow> 'mp list \<Rightarrow> file_system \<Rightarrow> (file_error, file_system) eff" where
  "save_mcms enc a csKey i [] s = ret s"
| "save_mcms enc a csKey i (p # ps) s =
     and_then (saveProposalArtifact a csKey ''mcms_proposal'' i (enc p) s) (save_mcms enc a csKey (i + 1) ps)"

fun save_timelock ::
  "('tp \<Rightarrow> string option) \<Rightarrow> ArtifactsDir \<Rightarrow> string \<Rightarrow> string list \<Rightarrow> nat \<Rightarrow> 'tp list \<Rightarrow> file_system \<Rightarrow> (file_error, file_system) eff" where
  "save_timelock enc a csKey described i [] s = ret s"
| "save_timelock enc a csKey described i (p # ps) s =
     (let hasDecoded = length described > i \<and> described ! i \<noteq> [] in
      and_then (saveProposalArtifact a csKey ''mcms_timelock_proposal'' i (enc p) s) (\<lambda>s.
      and_then (if hasDecoded then saveDecodedProposalArtifact a csKey ''mcms_timelock_proposal'' i (described ! i) s else ret s)
        (save_timelock enc a csKey described (i + 1) ps)))"

text \<open>
  \<open>k\<close> is the new KSUID, \<open>books\<close> the address books that outputs refer to, \<open>order\<close> the iteration order over a book.
\<close>

definition save_book ::
  "('v, 'tp, 'mp) output_codec \<Rightarrow> 'v file_codec \<Rightarrow> ('v address_book \<Rightarrow> book_order) \<Rightarrow> string \<Rightarrow> ArtifactsDir \<Rightarrow> string \<Rightarrow>
   'v address_book \<Rightarrow> file_system \<Rightarrow> (file_error, file_system) eff" where
  "save_book Q C order k a csKey book s =
     (let addressBook = AddressBook_Addresses book in
      if order addressBook = [] then ret s
      else case marshalIndentAndSort C (order addressBook) addressBook of
        None \<Rightarrow> fail EncodeJSON s
      | Some sortedBytes \<Rightarrow> saveArtifact k a csKey ''addresses'' (oc_Raw Q sortedBytes) s)"

definition SaveChangesetOutput ::
  "('v, 'tp, 'mp) output_codec \<Rightarrow> 'v file_codec \<Rightarrow> ('v address_book \<Rightarrow> book_order) \<Rightarrow> string \<Rightarrow> ArtifactsDir \<Rightarrow> 'v books \<Rightarrow>
   string \<Rightarrow> ('v, 'tp, 'mp) changeset_output \<Rightarrow> file_system \<Rightarrow> (file_error, file_system) eff" where
  "SaveChangesetOutput Q C order k a books csKey out s =
     and_then (CreateChangesetDir a csKey s) (\<lambda>s.
     and_then (CreateProposalsDir a s) (\<lambda>s.
     and_then (CreateDecodedProposalsDir a s) (\<lambda>s.
     and_then (CreateArchivedProposalsDir a s) (\<lambda>s.
     and_then (case co_JobSpecs out of
         None \<Rightarrow> ret s
       | Some specs \<Rightarrow> if oc_JobNames Q specs = [] then ret s else saveArtifact k a csKey ''jobspecs'' (oc_JobSpecs Q specs) s) (\<lambda>s.
     and_then (case co_Jobs out of
         Some (j # js) \<Rightarrow> saveArtifact k a csKey ''jobs'' (oc_Jobs Q (j # js)) s
       | _ \<Rightarrow> ret s) (\<lambda>s.
     and_then (save_mcms (oc_MCMS Q) a csKey 0 (slice (co_MCMSProposals out)) s) (\<lambda>s.
     and_then (save_timelock (oc_Timelock Q) a csKey (slice (co_DescribedTimelockProposals out)) 0
         (slice (co_MCMSTimelockProposals out)) s) (\<lambda>s.
     and_then (case co_AddressBook out of None \<Rightarrow> ret s | Some r \<Rightarrow> save_book Q C order k a csKey (books r) s) (\<lambda>s.
     (case co_DataStore out of
        None \<Rightarrow> ret s
      | Some ds \<Rightarrow> saveArtifact k a csKey ''datastore'' (oc_Store Q ds) s))))))))))"

section \<open>Loading an output\<close>

text \<open>
  The regular expressions: a word, an underscore and the kind of the artifact, for a proposal with its index.
\<close>

definition word_char :: "char \<Rightarrow> bool" where
  "word_char c \<longleftrightarrow> is_digit c \<or> (let n = of_char c :: nat in (65 \<le> n \<and> n \<le> 90) \<or> (97 \<le> n \<and> n \<le> 122)) \<or> c = CHR ''_'' \<or> c = CHR ''-''"

definition word_before :: "string \<Rightarrow> string \<Rightarrow> bool" where
  "word_before ending name \<longleftrightarrow>
     (let n = length name - length ending in
      length ending < length name \<and> drop n name = ending \<and> list_all word_char (take n name))"

definition artifact_rgx :: "string \<Rightarrow> string \<Rightarrow> bool" where
  "artifact_rgx kind name \<longleftrightarrow> word_before (CHR ''_'' # kind @ ''.json'') name"

definition proposal_rgx :: "string \<Rightarrow> string \<Rightarrow> bool" where
  "proposal_rgx kind name \<longleftrightarrow>
     (let n = length name - 5; stem = take n name; digits = takeWhile is_digit (rev stem) in
      drop n name = ''.json'' \<and> digits \<noteq> [] \<and>
      word_before (CHR ''_'' # kind @ ''_'') (rev (drop (length digits) (rev stem))))"

definition load_file :: "(string \<Rightarrow> 'a option) \<Rightarrow> file_system \<Rightarrow> string \<Rightarrow> file_error + 'a" where
  "load_file decode s path =
     (case ReadFile s path of
        Inl e \<Rightarrow> Inl (FileSystem e)
      | Inr b \<Rightarrow> (case decode b of None \<Rightarrow> Inl DecodeJSON | Some v \<Rightarrow> Inr v))"

definition LoadJobSpecs :: "('v, 'tp, 'mp) output_codec \<Rightarrow> file_system \<Rightarrow> string \<Rightarrow> file_error + (string \<rightharpoonup> string list)" where
  "LoadJobSpecs Q = load_file (oc_JobSpecsOf Q)"

definition LoadJobs :: "('v, 'tp, 'mp) output_codec \<Rightarrow> file_system \<Rightarrow> string \<Rightarrow> file_error + proposed_job list" where
  "LoadJobs Q = load_file (oc_JobsOf Q)"

text \<open>\<open>fresh\<close> is the reference of the address book that is made.\<close>

definition load_artifact ::
  "('v, 'tp, 'mp) output_codec \<Rightarrow> 'v file_codec \<Rightarrow> nat \<Rightarrow> file_system \<Rightarrow> string \<Rightarrow> string \<times> fs_entry \<Rightarrow>
   ('v, 'tp, 'mp) changeset_output \<times> 'v books \<Rightarrow> file_error + ('v, 'tp, 'mp) changeset_output \<times> 'v books" where
  "load_artifact Q C fresh s changesetDir = (\<lambda>(name, e) (out, books).
     let entryPath = Join [changesetDir, name] in
     if e = FDir \<or> name = ''.gitkeep'' then Inr (out, books)
     else if artifact_rgx ''jobspecs'' name then
       map_sum id (\<lambda>jss. (out\<lparr>co_JobSpecs := Some jss\<rparr>, books)) (LoadJobSpecs Q s entryPath)
     else if artifact_rgx ''jobs'' name then
       map_sum id (\<lambda>js. (out\<lparr>co_Jobs := Some js\<rparr>, books)) (LoadJobs Q s entryPath)
     else if artifact_rgx ''addresses'' name then
       map_sum id (\<lambda>ab. (out\<lparr>co_AddressBook := Some fresh\<rparr>, books(fresh := NewMemoryAddressBookFromMap ab)))
         (load_file (fc_BookOf C) s entryPath)
     else if artifact_rgx ''datastore'' name then
       map_sum id (\<lambda>ds. (out\<lparr>co_DataStore := Some ds\<rparr>, books)) (load_file (fc_StoreOf C) s entryPath)
     else Inr (out, books))"

definition load_proposal ::
  "('v, 'tp, 'mp) output_codec \<Rightarrow> file_system \<Rightarrow> string \<Rightarrow> string \<times> fs_entry \<Rightarrow>
   ('v, 'tp, 'mp) changeset_output \<times> 'v books \<Rightarrow> file_error + ('v, 'tp, 'mp) changeset_output \<times> 'v books" where
  "load_proposal Q s proposalsDir = (\<lambda>(name, e) (out, books).
     let entryPath = Join [proposalsDir, name] in
     if e = FDir \<or> name = ''.gitkeep'' then Inr (out, books)
     else if proposal_rgx ''mcms_timelock_proposal'' name then
       map_sum id (\<lambda>p. (out\<lparr>co_MCMSTimelockProposals := Some (slice (co_MCMSTimelockProposals out) @ [p])\<rparr>, books))
         (load_file (oc_TimelockOf Q) s entryPath)
     else if proposal_rgx ''mcms_proposal'' name then
       map_sum id (\<lambda>p. (out\<lparr>co_MCMSProposals := Some (slice (co_MCMSProposals out) @ [p])\<rparr>, books))
         (load_file (oc_MCMSOf Q) s entryPath)
     else Inr (out, books))"

fun load_each :: "('x \<Rightarrow> 's \<Rightarrow> file_error + 's) \<Rightarrow> 'x list \<Rightarrow> 's \<Rightarrow> file_error + 's" where
  "load_each f [] st = Inr st"
| "load_each f (x # xs) st = (case f x st of Inl e \<Rightarrow> Inl e | Inr st' \<Rightarrow> load_each f xs st')"

definition LoadChangesetOutput ::
  "('v, 'tp, 'mp) output_codec \<Rightarrow> 'v file_codec \<Rightarrow> nat \<Rightarrow> ArtifactsDir \<Rightarrow> 'v books \<Rightarrow> string \<Rightarrow> file_system \<Rightarrow>
   file_error + ('v, 'tp, 'mp) changeset_output \<times> 'v books" where
  "LoadChangesetOutput Q C fresh a books csKey s =
     (let changesetDir = ChangesetDirPath a csKey; proposalsDir = ProposalsDirPath a in
      case ReadDir s changesetDir of
        Inl e \<Rightarrow> Inl (FileSystem e)
      | Inr artifactEntries \<Rightarrow>
          (case ReadDir s proposalsDir of
             Inl e \<Rightarrow> Inl (FileSystem e)
           | Inr proposalEntries \<Rightarrow>
               (case load_each (load_artifact Q C fresh s changesetDir) artifactEntries (zero_output, books) of
                  Inl e \<Rightarrow> Inl e
                | Inr st \<Rightarrow> load_each (load_proposal Q s proposalsDir) proposalEntries st)))"

section \<open>Reports\<close>

datatype reports_error = ErrExists exists_error | ErrReports file_error

definition LoadOperationsReports ::
  "('v, 'tp, 'mp) output_codec \<Rightarrow> ArtifactsDir \<Rightarrow> file_system \<Rightarrow> string \<Rightarrow> reports_error + 'v report list" where
  "LoadOperationsReports Q a s csKey =
     (case ChangesetOperationsReportsFileExists a s csKey of
        Inl e \<Rightarrow> Inl (ErrExists e)
      | Inr found \<Rightarrow>
          if \<not> found then Inr []
          else map_sum ErrReports id (load_file (oc_ReportsOf Q) s (OperationsReportsFilePath a csKey)))"

definition SaveOperationsReports ::
  "('v, 'tp, 'mp) output_codec \<Rightarrow> ArtifactsDir \<Rightarrow> string \<Rightarrow> 'v report list \<Rightarrow> file_system \<Rightarrow> (reports_error, file_system) eff" where
  "SaveOperationsReports Q a csKey reports s =
     (case OperationsReportsDirExists a s of
        Inl e \<Rightarrow> fail (ErrExists e) s
      | Inr found \<Rightarrow>
          (case and_then (if found then ret s else CreateOperationsReportsDir a s)
                  (WriteJSON (Join [OperationsReportsFilePath a csKey]) (oc_Reports Q reports)) of
             (err, s') \<Rightarrow> (map_option ErrReports err, s')))"

section \<open>What is written\<close>

text \<open>
  Steps on trees that change files only where \<open>P\<close> holds, make directories where nothing was, and refuse the same paths.
\<close>

definition changed_within :: "(string list \<Rightarrow> bool) \<Rightarrow> file_system \<Rightarrow> file_system \<Rightarrow> bool" where
  "changed_within P s t \<longleftrightarrow> fs_Denied t = fs_Denied s \<and>
     (\<forall>ks. P ks \<or> node_at t ks = node_at s ks \<or> node_at s ks = None \<and> node_at t ks = Some FDir)"

definition keeps_tree :: "(string list \<Rightarrow> bool) \<Rightarrow> (file_system \<Rightarrow> ('e, file_system) eff) \<Rightarrow> bool" where
  "keeps_tree P f \<longleftrightarrow> (\<forall>s. fs_tree s \<longrightarrow> fs_tree (snd (f s)) \<and> changed_within P s (snd (f s)))"

lemma changed_within_refl: "changed_within P s s"
  by (simp add: changed_within_def)

lemma changed_within_trans: "\<lbrakk>changed_within P s t; changed_within P t u\<rbrakk> \<Longrightarrow> changed_within P s u"
  unfolding changed_within_def by (metis option.distinct(1))

lemma keeps_treeD: "\<lbrakk>keeps_tree P f; fs_tree s; f s = (err, s')\<rbrakk> \<Longrightarrow> fs_tree s' \<and> changed_within P s s'"
  unfolding keeps_tree_def by (metis snd_conv)

lemma make_dirs_tree:
  "\<lbrakk>fs_tree s; node_at s at = Some FDir; \<forall>k \<in> set at \<union> set ks. ordinary k\<rbrakk> \<Longrightarrow>
   fs_tree (snd (make_dirs at ks s)) \<and> changed_within P s (snd (make_dirs at ks s))"
proof (induction at ks s rule: make_dirs.induct)
  case (2 at k ks s)
  show ?case
  proof (cases "node_at s (at @ [k])")
    case None
    have tree: "fs_tree (put_node (at @ [k]) FDir s)" using 2(3-5) by (intro put_node_tree) auto
    have dir: "node_at (put_node (at @ [k]) FDir s) (at @ [k]) = Some FDir" by (simp add: node_at_put)
    have made: "changed_within P s (put_node (at @ [k]) FDir s)" using None by (simp add: changed_within_def node_at_put)
    show ?thesis
    proof (cases "fs_Denied s (at @ [k])")
      case True
      then show ?thesis using None 2(3) by (simp add: changed_within_refl)
    next
      case False
      then show ?thesis
        using 2(1) [OF refl None False tree dir] 2(5) None changed_within_trans [OF made] by (simp add: Let_def)
    qed
  next
    case (Some e)
    then show ?thesis using 2(2) [OF refl Some] 2(3,5) by (cases e) (auto simp: changed_within_refl)
  qed
qed (simp add: changed_within_refl)

lemma keeps_tree_then:
  assumes "keeps_tree P f" "keeps_tree P g"
  shows "keeps_tree P (\<lambda>s. and_then (f s) g)"
  unfolding keeps_tree_def
proof (intro allI impI)
  fix s :: file_system
  assume s: "fs_tree s"
  obtain err t where f: "f s = (err, t)" by (cases "f s")
  have t: "fs_tree t \<and> changed_within P s t" by (rule keeps_treeD [OF assms(1) s f])
  then show "fs_tree (snd (and_then (f s) g)) \<and> changed_within P s (snd (and_then (f s) g))"
    using assms(2) by (cases err) (auto simp: and_then_def f keeps_tree_def intro: changed_within_trans)
qed

lemma keeps_tree_ret: "keeps_tree P ret" "keeps_tree P (fail e)"
  by (simp_all add: keeps_tree_def changed_within_refl)

lemma keeps_tree_if: "\<lbrakk>keeps_tree P f; keeps_tree P g\<rbrakk> \<Longrightarrow> keeps_tree P (\<lambda>s. if b then f s else g s)"
  by (simp add: keeps_tree_def)

lemma keeps_tree_case: "\<lbrakk>keeps_tree P f; \<And>x. keeps_tree P (g x)\<rbrakk> \<Longrightarrow> keeps_tree P (\<lambda>s. case v of None \<Rightarrow> f s | Some x \<Rightarrow> g x s)"
  by (cases v) simp_all

lemma keeps_tree_lift: "keeps_tree P f \<Longrightarrow> keeps_tree P (\<lambda>s. lift_fs (f s))"
  by (auto simp: keeps_tree_def lift_fs_def split: prod.splits)

lemma keeps_tree_write:
  assumes "P (elements path)"
  shows "keeps_tree P (WriteFile path b)" "keeps_tree P (WriteJSON path doc)"
proof -
  have "changed_within P s (snd (WriteFile path b s))" if "fs_tree s" for s b
    using WriteFile_cases [OF that, of path b] assms
    by (cases "writable s path") (auto simp: changed_within_def writable_def node_at_put split: if_splits)
  then show w: "keeps_tree P (WriteFile path b)" for b by (simp add: keeps_tree_def WriteFile_tree)
  show "keeps_tree P (WriteJSON path doc)"
  proof (cases doc)
    case (Some t)
    then show ?thesis using w [of t] by (auto simp: keeps_tree_def WriteJSON_def split: prod.splits)
  qed (simp add: keeps_tree_def WriteJSON_def changed_within_refl)
qed

lemma keeps_tree_MkdirAll: "keeps_tree P (MkdirAll path)"
  unfolding keeps_tree_def
  using make_dirs_tree [of _ "[]" "elements path" P] elements_ordinary [of _ path]
  by (simp add: MkdirAll_def node_at_def changed_within_refl)

lemmas keeps_tree_steps = keeps_tree_then keeps_tree_ret keeps_tree_if keeps_tree_case keeps_tree_lift keeps_tree_MkdirAll

lemma keeps_tree_create: "P (elements (Join [dirPath, ''.gitkeep''])) \<Longrightarrow> keeps_tree P (create_with_keep dirPath)"
  unfolding create_with_keep_def [abs_def] Create_def by (intro keeps_tree_steps keeps_tree_write)

section \<open>Names and patterns\<close>

text \<open>Text that a pattern takes as it is.\<close>

definition plain_pattern :: "string \<Rightarrow> bool" where
  "plain_pattern p \<longleftrightarrow> set p \<inter> {CHR ''*'', CHR ''?'', CHR ''['', CHR 0x5C} = {}"

lemma parse_glob_plain: "\<lbrakk>plain_pattern p; length p \<le> n\<rbrakk> \<Longrightarrow> parse_glob n p = Some (map GLit p)"
proof (induction p arbitrary: n)
  case (Cons c p)
  then obtain m where n: "n = Suc m" "length p \<le> m" by (cases n) auto
  have c: "c \<noteq> CHR ''*''" "c \<noteq> CHR ''?''" "c \<noteq> CHR ''[''" "c \<noteq> CHR 0x5C" "plain_pattern p"
    using Cons.prems(1) by (auto simp: plain_pattern_def)
  show ?case using Cons.IH [OF c(5) n(2)] c by (simp add: n(1))
qed simp

lemma match_plain: "match_glob (map GLit p) s \<longleftrightarrow> s = p"
proof (induction p arbitrary: s)
  case (Cons c p)
  then show ?case by (cases s) auto
qed simp

lemma match_star: "match_glob (GStar # map GLit p) s \<longleftrightarrow> (\<exists>pre. s = pre @ p \<and> CHR ''/'' \<notin> set pre)"
proof (induction s)
  case Nil
  then show ?case by (auto simp: match_plain)
next
  case (Cons c s)
  have "match_glob (GStar # map GLit p) (c # s) \<longleftrightarrow> c # s = p \<or> c \<noteq> CHR ''/'' \<and> (\<exists>pre. s = pre @ p \<and> CHR ''/'' \<notin> set pre)"
    using Cons.IH by (simp add: match_plain)
  also have "\<dots> \<longleftrightarrow> (\<exists>pre. c # s = pre @ p \<and> CHR ''/'' \<notin> set pre)"
  proof
    assume "c # s = p \<or> c \<noteq> CHR ''/'' \<and> (\<exists>pre. s = pre @ p \<and> CHR ''/'' \<notin> set pre)"
    then show "\<exists>pre. c # s = pre @ p \<and> CHR ''/'' \<notin> set pre"
    proof
      assume "c # s = p"
      then show ?thesis by (intro exI [of _ "[]"]) simp
    next
      assume "c \<noteq> CHR ''/'' \<and> (\<exists>pre. s = pre @ p \<and> CHR ''/'' \<notin> set pre)"
      then obtain pre where "c \<noteq> CHR ''/''" "s = pre @ p" "CHR ''/'' \<notin> set pre" by blast
      then show ?thesis by (intro exI [of _ "c # pre"]) simp
    qed
  qed (auto simp: Cons_eq_append_conv)
  finally show ?case .
qed

lemma Match_star: "plain_pattern p \<Longrightarrow> Match (CHR ''*'' # p) s \<longleftrightarrow> (\<exists>pre. s = pre @ p \<and> CHR ''/'' \<notin> set pre)"
  by (simp add: Match_def parse_glob_plain match_star del: match_glob.simps)

text \<open>Names with an ending are ordinary.\<close>

lemma ordinary_long: "\<lbrakk>length p > 2; CHR ''/'' \<notin> set p\<rbrakk> \<Longrightarrow> ordinary p"
  by (auto simp: ordinary_def)

lemma ordinary_slash: "ordinary p \<Longrightarrow> CHR ''/'' \<notin> set p"
  by (simp add: ordinary_def)

lemma dec_string_slash: "CHR ''/'' \<notin> set (dec_string n)"
proof -
  have "\<not> is_digit (CHR ''/'')" by code_simp
  then show ?thesis using dec_string_digits [of n] by (auto simp: list_all_iff)
qed

text \<open>The artifacts directory of an environment, possibly that of a durable pipeline.\<close>

lemma artifacts_at:
  assumes "proper_env d" "at_timestamp timestamp (EnvDir_ArtifactsDir d) = Inr a"
  shows "ad_rootPath a = ed_rootPath d" "ad_domainKey a = ed_domainKey d" "ad_envKey a = ed_key d"
    and "ad_timestamp a = [] \<or> ordinary (ad_timestamp a)"
    and "names_of a csKey = ed_domainKey d @ ''-'' @ ed_key d @ ''-'' @ csKey"
    and "rooted (ProposalsDirPath a)" "elements (ProposalsDirPath a) = env_elements d @ [''proposals'']"
    and "rooted (DecodedProposalsDirPath a)" "elements (DecodedProposalsDirPath a) = env_elements d @ [''decoded_proposals'']"
    and "rooted (ArchivedProposalsDirPath a)" "elements (ArchivedProposalsDirPath a) = env_elements d @ [''archived_proposals'']"
proof -
  show base: "ad_rootPath a = ed_rootPath d" "ad_domainKey a = ed_domainKey d" "ad_envKey a = ed_key d"
    "ad_timestamp a = [] \<or> ordinary (ad_timestamp a)"
    using at_timestamp_cases [OF assms(2)] by (auto simp: EnvDir_ArtifactsDir_def NewArtifactsDir_def)
  then show "names_of a csKey = ed_domainKey d @ ''-'' @ ed_key d @ ''-'' @ csKey" by (simp add: names_of_def)
  note pe = assms(1) [unfolded proper_env_def]
  show "rooted (ProposalsDirPath a)" "rooted (DecodedProposalsDirPath a)" "rooted (ArchivedProposalsDirPath a)"
    unfolding ProposalsDirPath_def DecodedProposalsDirPath_def ArchivedProposalsDirPath_def base(1)
    by (rule rooted_Join, use pe in simp)+
  show "elements (ProposalsDirPath a) = env_elements d @ [''proposals'']"
    "elements (DecodedProposalsDirPath a) = env_elements d @ [''decoded_proposals'']"
    "elements (ArchivedProposalsDirPath a) = env_elements d @ [''archived_proposals'']"
    unfolding ProposalsDirPath_def DecodedProposalsDirPath_def ArchivedProposalsDirPath_def base(1-3)
    using pe by (simp_all add: elements_Join_names env_elements_def ordinary_name)
qed

section \<open>A saved data store is found again\<close>

lemma and_then_assoc: "and_then (and_then r f) g = and_then r (\<lambda>s. and_then (f s) g)"
  by (simp add: and_then_def split: prod.split option.split)

text \<open>Saving an output up to its data store.\<close>

definition save_but_store ::
  "('v, 'tp, 'mp) output_codec \<Rightarrow> 'v file_codec \<Rightarrow> ('v address_book \<Rightarrow> book_order) \<Rightarrow> string \<Rightarrow> ArtifactsDir \<Rightarrow> 'v books \<Rightarrow>
   string \<Rightarrow> ('v, 'tp, 'mp) changeset_output \<Rightarrow> file_system \<Rightarrow> (file_error, file_system) eff" where
  "save_but_store Q C order k a books csKey out s =
     and_then (CreateChangesetDir a csKey s) (\<lambda>s.
     and_then (CreateProposalsDir a s) (\<lambda>s.
     and_then (CreateDecodedProposalsDir a s) (\<lambda>s.
     and_then (CreateArchivedProposalsDir a s) (\<lambda>s.
     and_then (case co_JobSpecs out of
         None \<Rightarrow> ret s
       | Some specs \<Rightarrow> if oc_JobNames Q specs = [] then ret s else saveArtifact k a csKey ''jobspecs'' (oc_JobSpecs Q specs) s) (\<lambda>s.
     and_then (case co_Jobs out of
         Some (j # js) \<Rightarrow> saveArtifact k a csKey ''jobs'' (oc_Jobs Q (j # js)) s
       | _ \<Rightarrow> ret s) (\<lambda>s.
     and_then (save_mcms (oc_MCMS Q) a csKey 0 (slice (co_MCMSProposals out)) s) (\<lambda>s.
     and_then (save_timelock (oc_Timelock Q) a csKey (slice (co_DescribedTimelockProposals out)) 0
         (slice (co_MCMSTimelockProposals out)) s) (\<lambda>s.
     (case co_AddressBook out of None \<Rightarrow> ret s | Some r \<Rightarrow> save_book Q C order k a csKey (books r) s)))))))))"

lemma SaveChangesetOutput_split:
  "SaveChangesetOutput Q C order k a books csKey out s =
   and_then (save_but_store Q C order k a books csKey out s)
     (\<lambda>s. case co_DataStore out of None \<Rightarrow> ret s | Some ds \<Rightarrow> saveArtifact k a csKey ''datastore'' (oc_Store Q ds) s)"
  by (simp only: SaveChangesetOutput_def save_but_store_def and_then_assoc)

definition artifact_name :: "string \<Rightarrow> ArtifactsDir \<Rightarrow> string \<Rightarrow> string \<Rightarrow> string" where
  "artifact_name k a csKey name = k @ ''-'' @ names_of a csKey @ ''_'' @ name @ ''.json''"

lemma keeps_tree_save_mcms:
  assumes "\<And>i. P (elements (proposal_path a csKey ''mcms_proposal'' i))"
  shows "keeps_tree P (save_mcms enc a csKey i ps)"
proof (induction ps arbitrary: i)
  case (Cons p ps)
  show ?case unfolding save_mcms.simps saveProposalArtifact_def
    by (intro keeps_tree_steps keeps_tree_write assms Cons.IH)
qed (simp add: keeps_tree_def changed_within_refl)

lemma keeps_tree_save_timelock:
  assumes "\<And>i. P (elements (proposal_path a csKey ''mcms_timelock_proposal'' i))"
    and "\<And>i. P (elements (Join [DecodedProposalsDirPath a,
       with_timestamp a (names_of a csKey @ ''_mcms_timelock_proposal_'' @ dec_string i @ ''_decoded.txt'')]))"
  shows "keeps_tree P (save_timelock enc a csKey described i ps)"
proof (induction ps arbitrary: i)
  case (Cons p ps)
  have decoded: "keeps_tree P (saveDecodedProposalArtifact a csKey ''mcms_timelock_proposal'' i t)" for t
    using assms(2) [of i] unfolding saveDecodedProposalArtifact_def [abs_def] by (intro keeps_tree_steps keeps_tree_write) simp
  show ?case unfolding save_timelock.simps Let_def saveProposalArtifact_def
    by (intro keeps_tree_steps keeps_tree_write assms(1) decoded Cons.IH)
qed (simp add: keeps_tree_def changed_within_refl)

text \<open>Where saving writes before the data store: files of the changeset that no data store is, and proposals.\<close>

definition beside_store :: "EnvDir \<Rightarrow> ArtifactsDir \<Rightarrow> string \<Rightarrow> string list \<Rightarrow> bool" where
  "beside_store d a csKey ks \<longleftrightarrow>
     (\<exists>name. ks = elements (ChangesetDirPath a csKey) @ [name] \<and> \<not> Match (artifact_pattern a csKey ''datastore.json'') name) \<or>
     (\<exists>dir \<in> {''proposals'', ''decoded_proposals'', ''archived_proposals''}. beneath (env_elements d @ [dir]) ks)"

lemma store_pattern:
  assumes "plain_pattern (names_of a csKey)"
  shows "Match (artifact_pattern a csKey ''datastore.json'') name \<longleftrightarrow>
    (\<exists>pre. name = pre @ ''-'' @ names_of a csKey @ ''_datastore.json'' \<and> CHR ''/'' \<notin> set pre)"
proof -
  have p: "artifact_pattern a csKey ''datastore.json'' = CHR ''*'' # (''-'' @ names_of a csKey @ ''_datastore.json'')"
    by (simp add: artifact_pattern_def names_of_def)
  have "plain_pattern (''-'' @ names_of a csKey @ ''_datastore.json'')" using assms by (auto simp: plain_pattern_def)
  then show ?thesis unfolding p by (rule Match_star)
qed

lemma other_endings:
  assumes "plain_pattern (names_of a csKey)" "name \<in> {''jobspecs'', ''jobs'', ''addresses''}"
  shows "\<not> Match (artifact_pattern a csKey ''datastore.json'') (artifact_name k a csKey name)"
    and "\<not> Match (artifact_pattern a csKey ''datastore.json'') ''.gitkeep''"
proof -
  have "rev (pre @ ''-'' @ names_of a csKey @ ''_datastore.json'') \<noteq> rev (artifact_name k a csKey name)"
    "rev (pre @ ''-'' @ names_of a csKey @ ''_datastore.json'') \<noteq> rev ''.gitkeep''" for pre
    using assms(2) by (auto simp: artifact_name_def)
  then show "\<not> Match (artifact_pattern a csKey ''datastore.json'') (artifact_name k a csKey name)"
    "\<not> Match (artifact_pattern a csKey ''datastore.json'') ''.gitkeep''"
    unfolding store_pattern [OF assms(1)] by metis+
qed

lemma names_of_slash: "\<lbrakk>ordinary (ad_domainKey a); ordinary (ad_envKey a); ordinary csKey\<rbrakk> \<Longrightarrow> CHR ''/'' \<notin> set (names_of a csKey)"
  by (auto simp: names_of_def ordinary_def)

lemma artifact_name_elements:
  assumes "proper_env d" "ordinary csKey" "at_timestamp timestamp (EnvDir_ArtifactsDir d) = Inr a" "ordinary k" "CHR ''/'' \<notin> set name"
  shows "elements (Join [ChangesetDirPath a csKey, artifact_name k a csKey name]) =
    elements (ChangesetDirPath a csKey) @ [artifact_name k a csKey name]"
proof -
  have "CHR ''/'' \<notin> set (names_of a csKey)"
    using artifacts_at(2,3) [OF assms(1,3)] assms(1,2) by (intro names_of_slash) (simp_all add: proper_env_def)
  then have "ordinary (artifact_name k a csKey name)"
    using assms(4,5) by (intro ordinary_long) (auto simp: artifact_name_def ordinary_def)
  then show ?thesis using changeset_dir_elements(1) [OF assms(1-3)] by (simp add: elements_Join_names)
qed

lemma proposal_file_elements:
  assumes "proper_env d" "ordinary csKey" "at_timestamp timestamp (EnvDir_ArtifactsDir d) = Inr a"
    and "CHR ''/'' \<notin> set rest" "length rest > 2"
  shows "elements (Join [ProposalsDirPath a, with_timestamp a (names_of a csKey @ rest)]) =
      env_elements d @ [''proposals'', with_timestamp a (names_of a csKey @ rest)]"
    and "elements (Join [DecodedProposalsDirPath a, with_timestamp a (names_of a csKey @ rest)]) =
      env_elements d @ [''decoded_proposals'', with_timestamp a (names_of a csKey @ rest)]"
proof -
  note at = artifacts_at [OF assms(1,3)]
  have "CHR ''/'' \<notin> set (names_of a csKey)"
    using at(2,3) assms(1,2) by (intro names_of_slash) (simp_all add: proper_env_def)
  then have "ordinary (with_timestamp a (names_of a csKey @ rest))"
    using at(4) assms(4,5) by (intro ordinary_long) (auto simp: with_timestamp_def ordinary_def)
  then show "elements (Join [ProposalsDirPath a, with_timestamp a (names_of a csKey @ rest)]) =
      env_elements d @ [''proposals'', with_timestamp a (names_of a csKey @ rest)]"
    "elements (Join [DecodedProposalsDirPath a, with_timestamp a (names_of a csKey @ rest)]) =
      env_elements d @ [''decoded_proposals'', with_timestamp a (names_of a csKey @ rest)]"
    using at(6-9) by (simp_all add: elements_Join_names)
qed

lemma keeps_tree_save_but_store:
  assumes "proper_env d" "ordinary csKey" "at_timestamp timestamp (EnvDir_ArtifactsDir d) = Inr a"
    and "ordinary k" "plain_pattern (names_of a csKey)"
  shows "keeps_tree (beside_store d a csKey) (save_but_store Q C order k a books csKey out)"
proof -
  let ?P = "beside_store d a csKey"
  note at = artifacts_at [OF assms(1,3)] and cs_dir = changeset_dir_elements(1) [OF assms(1-3)]
  have keep: "ordinary ''.gitkeep''" by code_simp
  have slash: "CHR ''/'' \<notin> set (''_'' @ nm @ ''_'' @ dec_string i @ ending)" if "CHR ''/'' \<notin> set nm" "CHR ''/'' \<notin> set ending" for nm i ending
    using that dec_string_slash by simp
  have artifact: "keeps_tree ?P (saveArtifact k a csKey name v)" if "name \<in> {''jobspecs'', ''jobs'', ''addresses''}" for name v
  proof -
    have "CHR ''/'' \<notin> set name" using that by auto
    from artifact_name_elements [OF assms(1-4) this] other_endings(1) [OF assms(5) that]
    have "?P (elements (Join [ChangesetDirPath a csKey, artifact_name k a csKey name]))" by (simp add: beside_store_def)
    then show ?thesis unfolding saveArtifact_def artifact_name_def by (rule keeps_tree_write)
  qed
  have "elements (Join [ChangesetDirPath a csKey, ''.gitkeep'']) = elements (ChangesetDirPath a csKey) @ [''.gitkeep'']"
    using cs_dir keep by (simp add: elements_Join_names)
  then have "?P (elements (Join [ChangesetDirPath a csKey, ''.gitkeep'']))"
    using other_endings(2) [OF assms(5), of "''jobs''"] by (simp add: beside_store_def)
  then have cs: "keeps_tree ?P (CreateChangesetDir a csKey)" unfolding CreateChangesetDir_def by (rule keeps_tree_create)
  have dirs: "keeps_tree ?P (CreateProposalsDir a)" "keeps_tree ?P (CreateDecodedProposalsDir a)" "keeps_tree ?P (CreateArchivedProposalsDir a)"
    unfolding CreateProposalsDir_def CreateDecodedProposalsDir_def CreateArchivedProposalsDir_def
    by (rule keeps_tree_create, use at(6-11) keep in \<open>simp add: elements_Join_names beside_store_def beneath_def\<close>)+
  have props: "?P (elements (proposal_path a csKey nm i))" if "CHR ''/'' \<notin> set nm" for nm i
    unfolding proposal_path_def using proposal_file_elements(1) [OF assms(1-3) slash [OF that, of "''.json''" i]]
    by (simp add: beside_store_def beneath_def)
  have decoded: "?P (elements (Join [DecodedProposalsDirPath a,
       with_timestamp a (names_of a csKey @ ''_mcms_timelock_proposal_'' @ dec_string i @ ''_decoded.txt'')]))" for i
    using proposal_file_elements(2) [OF assms(1-3) slash [of "''mcms_timelock_proposal''" "''_decoded.txt''" i]]
    by (simp add: beside_store_def beneath_def)
  have jobs: "keeps_tree ?P (\<lambda>s. case co_Jobs out of Some (j # js) \<Rightarrow> saveArtifact k a csKey ''jobs'' (oc_Jobs Q (j # js)) s | _ \<Rightarrow> ret s)"
  proof (cases "co_Jobs out")
    case (Some js)
    then show ?thesis by (cases js) (simp_all add: keeps_tree_ret artifact)
  qed (simp add: keeps_tree_ret)
  have book: "keeps_tree ?P (save_book Q C order k a csKey b)" for b
    unfolding save_book_def Let_def by (intro keeps_tree_if keeps_tree_case keeps_tree_ret artifact) simp
  have specs: "keeps_tree ?P (\<lambda>s. if oc_JobNames Q specs = [] then ret s else saveArtifact k a csKey ''jobspecs'' (oc_JobSpecs Q specs) s)" for specs
    by (intro keeps_tree_if keeps_tree_ret artifact) simp
  show ?thesis unfolding save_but_store_def [abs_def]
    by (intro keeps_tree_then keeps_tree_ret keeps_tree_case cs dirs jobs book specs keeps_tree_save_mcms keeps_tree_save_timelock props decoded) simp_all
qed

text \<open>What the search finds when a file comes after all others that match.\<close>

lemma last_match_append: "last_match dir pat (xs @ ys) p = last_match dir pat ys (last_match dir pat xs p)"
  by (induction dir pat xs p rule: last_match.induct) simp_all

lemma last_match_none: "\<forall>(ks, e) \<in> set xs. e \<noteq> FDir \<longrightarrow> \<not> Match pat (last ks) \<Longrightarrow> last_match dir pat xs p = p"
  by (induction dir pat xs p rule: last_match.induct) auto

lemma key_sorted_filter: "key_sorted es \<Longrightarrow> key_sorted (filter q es)"
  by (auto simp: key_sorted_def sorted_wrt_map sorted_wrt_filter)

lemma findArtifactPath_newest:
  assumes "fs_tree s" "rooted dir" "node_at s (elements dir) \<noteq> None" "ordinary name"
    and "\<And>ks. beneath (elements dir) ks \<Longrightarrow> \<not> fs_Denied s ks"
    and "node_at s (elements dir @ [name]) = Some (FFile b)" "Match pat name"
    and "\<And>ks c. \<lbrakk>node_at s ks = Some (FFile c); beneath (elements dir) ks; Match pat (last ks)\<rbrakk> \<Longrightarrow> ks \<le> elements dir @ [name]"
  shows "findArtifactPath s dir pat = Inr (Join [dir, name])"
proof -
  let ?K = "elements dir @ [name]"
  let ?inside = "filter (\<lambda>x. fst x \<noteq> elements dir \<and> beneath (elements dir) (fst x)) (fs_Entries s)"
  have dir: "dir \<noteq> []" using assms(2) by (auto simp: rooted_def)
  have root: "node_at s (elements dir) = Some FDir" using tree_parent [OF assms(1), of ?K] assms(6) by simp
  then have stat: "Stat s dir = Inr FDir" using Stat_iff [OF assms(1)] dir assms(5) beneath_self by blast
  have "\<not> list_ex (\<lambda>(k, e). e = FDir \<and> fs_Denied s k) ?inside" using assms(5) by (auto simp: list_ex_iff)
  then have walk: "Walk s dir = Inr ((elements dir, FDir) # ?inside)" by (simp add: Walk_def stat)
  have sorted: "key_sorted (fs_Entries s)" using assms(1) by (simp add: fs_tree_def)
  have "(?K, FFile b) \<in> set ?inside"
    using assms(6) by (auto simp: node_at_def beneath_def dest: map_of_SomeD)
  then obtain xs ys where split: "?inside = xs @ (?K, FFile b) # ys" by (meson split_list)
  have "\<forall>(ks, e) \<in> set ys. e \<noteq> FDir \<longrightarrow> \<not> Match pat (last ks)"
  proof (intro ballI, clarify)
    fix ks e
    assume y: "(ks, e) \<in> set ys" "e \<noteq> FDir" "Match pat (last ks)"
    have "key_sorted (xs @ (?K, FFile b) # ys)" unfolding split [symmetric] by (rule key_sorted_filter) (rule sorted)
    then have below: "?K < ks" using y(1) by (auto simp: key_sorted_def sorted_wrt_append)
    have "(ks, e) \<in> set ?inside" unfolding split using y(1) by simp
    then have at: "(ks, e) \<in> set (fs_Entries s)" "beneath (elements dir) ks" by auto
    have "distinct (map fst (fs_Entries s))" using sorted by (auto simp: key_sorted_def strict_sorted_iff)
    then have "node_at s ks = Some e" using at(1) assms(1) by (force simp: node_at_def fs_tree_def)
    moreover obtain c where "e = FFile c" using y(2) by (cases e) auto
    ultimately have "ks \<le> ?K" using assms(8) at(2) y(3) by blast
    then show False using below by simp
  qed
  then have "last_match dir pat ((elements dir, FDir) # ?inside) [] = walk_path dir ?K"
    using assms(7) by (simp add: split last_match_append last_match_none)
  moreover have "walk_path dir ?K = Join [dir, name]" by (simp add: walk_path_def)
  moreover have "Join [dir, name] \<noteq> []" by (rule Join_nonempty [OF assms(2)])
  ultimately show ?thesis by (simp add: findArtifactPath_def walk)
qed

lemma beneath_apart: "\<lbrakk>beneath (env @ x # rest) ks; beneath (env @ [y]) ks\<rbrakk> \<Longrightarrow> x = y"
  using beneath_split [of "env @ x # rest" ks] beneath_split [of "env @ [y]" ks] by (metis append.assoc append_Cons list.inject same_append_eq)

lemma saveArtifact_ok:
  assumes "fs_tree s" "saveArtifact k a csKey name v s = (None, s')"
  obtains t where "v = Some t" "fs_tree s'" "fs_Denied s' = fs_Denied s"
    "writable s (Join [ChangesetDirPath a csKey, artifact_name k a csKey name])"
    "s' = put_node (elements (Join [ChangesetDirPath a csKey, artifact_name k a csKey name])) (FFile t) s"
proof -
  let ?p = "Join [ChangesetDirPath a csKey, artifact_name k a csKey name]"
  obtain t where t: "v = Some t" "WriteFile ?p t s = (None, s')"
    using assms(2) by (auto simp: saveArtifact_def artifact_name_def WriteJSON_def fail_def split: option.splits prod.splits)
  then have "writable s ?p" "s' = put_node (elements ?p) (FFile t) s"
    using WriteFile_cases [OF assms(1), of ?p t] by (auto split: if_splits)
  then show ?thesis using that t WriteFile_tree [OF assms(1), of ?p t] by simp
qed

text \<open>
  C28: the data store that a changeset leaves is the one that is merged for it. When the output of a changeset has
  been saved, under a run identifier after those of its earlier data stores, the search for the data store of the
  changeset finds the saved file and gives the saved store, sealed, as its text is read. (Run identifiers are ordered by their
  time.) Saving changes files nowhere but in the directory of the changeset and in the three directories of proposals.
\<close>

theorem SaveChangesetOutput_found:
  assumes "fs_tree s" "proper_env d" "ordinary csKey" "at_timestamp timestamp (EnvDir_ArtifactsDir d) = Inr a"
    and "ordinary k" "plain_pattern (names_of a csKey)"
    and "co_DataStore out = Some ds" "\<And>t. oc_Store Q ds = Some t \<Longrightarrow> fc_StoreOf C t = Some ds'"
    and "\<And>ks. beneath (elements (ChangesetDirPath a csKey)) ks \<Longrightarrow> \<not> fs_Denied s ks"
    and "\<And>ks b. \<lbrakk>node_at s ks = Some (FFile b); beneath (elements (ChangesetDirPath a csKey)) ks;
        Match (artifact_pattern a csKey ''datastore.json'') (last ks)\<rbrakk> \<Longrightarrow>
      ks \<le> elements (ChangesetDirPath a csKey) @ [artifact_name k a csKey ''datastore'']"
    and "SaveChangesetOutput Q C order k a books csKey out s = (None, s')"
  shows "changeset_data_store C d s' csKey timestamp = Inr (Seal ds') \<and>
    (\<forall>ks. node_at s' ks = node_at s ks \<or> node_at s ks = None \<and> node_at s' ks = Some FDir \<or>
       beneath (elements (ChangesetDirPath a csKey)) ks \<or>
       (\<exists>dir \<in> {''proposals'', ''decoded_proposals'', ''archived_proposals''}. beneath (env_elements d @ [dir]) ks))"
proof -
  let ?dir = "ChangesetDirPath a csKey" and ?name = "artifact_name k a csKey ''datastore''"
  let ?K = "elements ?dir @ [?name]" and ?pat = "artifact_pattern a csKey ''datastore.json''" and ?P = "beside_store d a csKey"
  note dir = changeset_dir_elements [OF assms(2-4)]
  obtain more where more: "elements ?dir = env_elements d @ ''artifacts'' # more" using dir(2) by blast
  obtain s1 where run: "save_but_store Q C order k a books csKey out s = (None, s1)"
    "saveArtifact k a csKey ''datastore'' (oc_Store Q ds) s1 = (None, s')"
    using assms(11) unfolding SaveChangesetOutput_split assms(7) and_then_None by auto
  note kept = keeps_treeD [OF keeps_tree_save_but_store [OF assms(2-6)] assms(1) run(1)]
  have s1: "fs_tree s1" "fs_Denied s1 = fs_Denied s" using kept by (simp_all add: changed_within_def)
  have K: "elements (Join [?dir, ?name]) = ?K" by (rule artifact_name_elements [OF assms(2-5)]) simp
  from saveArtifact_ok [OF s1(1) run(2)] obtain t where t: "oc_Store Q ds = Some t" "fs_tree s'" "fs_Denied s' = fs_Denied s1"
    "writable s1 (Join [?dir, ?name])" "s' = put_node ?K (FFile t) s1" unfolding K .
  have at: "node_at s' ks = (if ks = ?K then Some (FFile t) else node_at s1 ks)" for ks by (simp add: t(5) node_at_put)
  have slash: "CHR ''/'' \<notin> set k" using assms(5) by (rule ordinary_slash)
  have match: "Match ?pat ?name"
    unfolding store_pattern [OF assms(6)] using slash by (intro exI [of _ k]) (simp add: artifact_name_def)
  have earlier: "ks \<le> ?K" if "node_at s' ks = Some (FFile c)" "beneath (elements ?dir) ks" "Match ?pat (last ks)" for ks c
  proof (cases "ks = ?K")
    case False
    then have "node_at s1 ks = Some (FFile c)" using that(1) at by simp
    moreover have "\<not> ?P ks" using that(2,3) beneath_apart [of "env_elements d" "''artifacts''" more ks] by (auto simp: beside_store_def more)
    ultimately have "node_at s ks = Some (FFile c)" using kept by (auto simp: changed_within_def)
    then show ?thesis using assms(10) that by blast
  qed simp
  have present: "node_at s' (elements ?dir) \<noteq> None" using tree_parent [OF t(2), of ?K] at by simp
  have "ordinary ?name" using elements_ordinary [of ?name "Join [?dir, ?name]"] by (simp add: K)
  moreover have "node_at s' ?K = Some (FFile t)" by (simp add: at)
  moreover have "\<not> fs_Denied s' ks" if "beneath (elements ?dir) ks" for ks using assms(9) that s1(2) t(3) by simp
  ultimately have found: "findArtifactPath s' ?dir ?pat = Inr (Join [?dir, ?name])"
    using match earlier by (intro findArtifactPath_newest [OF t(2) dir(1) present]) simp_all
  have "ReadFile s' (Join [?dir, ?name]) = Inr t"
    unfolding ReadFile_iff [OF t(2)] using t(3,4) at by (simp add: K writable_def)
  then have "LoadDataStoreByChangesetKey C a s' csKey = Inr (Seal ds')"
    using found assms(8) [OF t(1)]
    by (simp add: LoadDataStoreByChangesetKey_def bind_sum_def loadDataStore_def load_with_def read_file_def)
  then have load: "changeset_data_store C d s' csKey timestamp = Inr (Seal ds')"
    by (simp add: changeset_data_store_def assms(4) bind_sum_def or_empty_def)
  have frame: "node_at s' ks = node_at s ks \<or> node_at s ks = None \<and> node_at s' ks = Some FDir \<or> beneath (elements ?dir) ks \<or>
      (\<exists>dir \<in> {''proposals'', ''decoded_proposals'', ''archived_proposals''}. beneath (env_elements d @ [dir]) ks)" for ks
  proof (cases "ks = ?K")
    case False
    have "\<not> ?P ks" if "\<not> beneath (elements ?dir) ks"
      "\<not> (\<exists>dir \<in> {''proposals'', ''decoded_proposals'', ''archived_proposals''}. beneath (env_elements d @ [dir]) ks)"
      using that by (auto simp: beside_store_def beneath_def)
    then show ?thesis using kept False at by (auto simp: changed_within_def)
  qed (simp add: beneath_def)
  show ?thesis using load frame by blast
qed

text \<open>A new environment, and the output of its first changeset.\<close>

definition example_output_codec :: "(nat, nat, nat) output_codec" where
  "example_output_codec =
     \<lparr>oc_JobNames = (\<lambda>_. []), oc_JobSpecs = (\<lambda>_. None), oc_JobSpecsOf = (\<lambda>_. None), oc_Jobs = (\<lambda>_. None), oc_JobsOf = (\<lambda>_. None),
      oc_MCMS = (\<lambda>p. Some (dec_string p)), oc_MCMSOf = (\<lambda>_. None), oc_Timelock = (\<lambda>p. Some (dec_string p)), oc_TimelockOf = (\<lambda>_. None),
      oc_Raw = Some, oc_Store = (\<lambda>ds. Some ''store''), oc_Reports = (\<lambda>_. None), oc_ReportsOf = (\<lambda>_. None)\<rparr>"

definition example_store :: "nat memory_data_store" where
  "example_store = NewMemoryDataStore\<lparr>ds_Addresses := \<lparr>as_Records = [example_ref], as_DeletedRemoteKeys = []\<rparr>\<rparr>"

definition example_saved_output :: "(nat, nat, nat) changeset_output" where
  "example_saved_output = zero_output\<lparr>co_MCMSTimelockProposals := Some [7], co_DescribedTimelockProposals := Some [''x''],
     co_DataStore := Some example_store\<rparr>"

definition example_new_files :: file_system where
  "example_new_files = \<lparr>fs_Entries = [([''d''], FDir), ([''d'', ''ccip''], FDir), ([''d'', ''ccip'', ''test''], FDir)],
     fs_Denied = (\<lambda>_. False)\<rparr>"

theorem SaveChangesetOutput_found_witness:
  "\<exists>s'. SaveChangesetOutput example_output_codec example_codec (\<lambda>_. []) ''2b'' (EnvDir_ArtifactsDir example_env) (\<lambda>_ _. None) ''cs''
       example_saved_output example_new_files = (None, s') \<and>
     changeset_data_store example_codec example_env s' ''cs'' [] = Inr (Seal example_store)"
proof -
  let ?a = "EnvDir_ArtifactsDir example_env"
  obtain s' where run: "SaveChangesetOutput example_output_codec example_codec (\<lambda>_. []) ''2b'' ?a (\<lambda>_ _. None) ''cs''
       example_saved_output example_new_files = (None, s')"
  proof -
    have "fst (SaveChangesetOutput example_output_codec example_codec (\<lambda>_. []) ''2b'' ?a (\<lambda>_ _. None) ''cs''
       example_saved_output example_new_files) = None" by code_simp
    then show ?thesis using that by (metis prod.collapse)
  qed
  have tree: "fs_tree example_new_files" and proper: "proper_env example_env" and names: "ordinary ''cs''" "ordinary ''2b''"
    and plain: "plain_pattern (names_of ?a ''cs'')" by code_simp+
  have at: "at_timestamp [] ?a = Inr ?a" by (simp add: at_timestamp_def)
  have store: "co_DataStore example_saved_output = Some example_store" by (simp add: example_saved_output_def)
  have codec: "fc_StoreOf example_codec t = Some example_store" if "oc_Store example_output_codec example_store = Some t" for t
    using that by (simp add: example_output_codec_def example_codec_def example_store_def)
  have open_dir: "\<not> fs_Denied example_new_files ks" for ks by (simp add: example_new_files_def)
  have no_file: "node_at example_new_files ks \<noteq> Some (FFile b)" for ks b by (simp add: node_at_def example_new_files_def)
  from SaveChangesetOutput_found [OF tree proper names(1) at names(2) plain store codec open_dir _ run] no_file run
  show ?thesis by blast
qed

end
