(* ===== verification/Spec2Isabelle.thy ===== *)
theory Spec2Isabelle
  imports Catalog_Sync Op_Series Address_Book Changeset_Registry Job_Distributor Analyzer_Graph Predecessors Timelock_Delay Evm_Client Sequence_Changeset Mcms_Executor Pipeline_Input Env_Migration Artifacts
begin

text \<open>
  A verification library for the Chainlink deployments framework.

  The framework is a Go library for deploying and operating contracts on many chains. A deployment
  is written as \<^emph>\<open>changesets\<close>, run one by one by an engine. A changeset calls \<^emph>\<open>operations\<close>, whose
  reports make a rerun skip what was done; it records what it deployed in a \<^emph>\<open>data store\<close> (or an older
  \<^emph>\<open>address book\<close>), which is merged into the store of the environment or into a \<^emph>\<open>catalog\<close>; it proposes
  jobs to nodes through a \<^emph>\<open>job distributor\<close>; and it may leave \<^emph>\<open>timelock proposals\<close>, which are analysed,
  ordered behind older proposals and given delays before they are executed. The theories follow these
  parts; paths are relative to \<open>src/\<close>.

  \<^bold>\<open>Conventions\<close> (\<open>Go_Prelude\<close>). A method that mutates its receiver and returns an error is a function
  from the state to an optional error and the new state (\<open>eff\<close>), so what is left behind when it fails is
  part of the model. A \<open>uint64\<close> is a 64-bit word, a \<open>time.Duration\<close> of a proposal a 64-bit word read with
  its sign. A Go map is a partial function; the order in which the language ranges over it is a parameter
  (\<open>iteration_of\<close>), and theorems hold for every order. An interface value or a third-party library (semantic
  versions, JSON of user types, gRPC services, the mcms library, the clock) is a parameter, with what the
  code relies on as named hypotheses. A panic is an error value of its own. A call that may not return is
  an \<open>option\<close> whose \<open>None\<close> is excluded by a theorem. Locks are left out where a method holds its lock for its
  whole body, which makes it atomic.

  \<^bold>\<open>Data store\<close> (\<open>datastore/\<close>). \<open>Datastore_Base\<close> has the error values, \<open>deleteFromSlice\<close> and the cloning of
  metadata; \<open>Go_Json\<close> the values that cross the \<open>any\<close> interface and their JSON. \<open>Store_Spec\<close> states the
  contract of a keyed store as the locale \<open>keyed_store\<close> (upsert, add, update, delete, the staging of
  deletions for a later merge) and proves once, from the laws of a provider, what sequences of operations
  do: a simulation by a finite map. \<open>Address_Ref\<close> (\<open>address_ref.go\<close>, \<open>memory_address_ref_store.go\<close>) and
  \<open>Metadata_Stores\<close> (chain, contract and environment metadata) model the records, their printed keys and
  every store operation, and interpret the locale on them. \<open>Address_Query\<close> has the filters, the query for a
  unique reference and the sort order. \<open>Data_Store\<close> (\<open>memory_datastore.go\<close>) bundles the stores,
  seals and merges them: what a merge leaves at every key, that merging twice changes nothing more, and
  that a key whose address has an underscore cannot be merged away. \<open>Catalog_Memory\<close>
  (\<open>catalog/memory/\<close>) models the in-memory catalog with its open transactions, whose changes
  overlay the base maps; a transaction refines one atomic step. \<open>Catalog_Sync\<close> (\<open>catalog_syncer.go\<close>,
  \<open>catalog_loader.go\<close>) composes the two: a data store is stored when nothing in it is staged for deletion and its
  metadata can be copied, and loading it back gives copies of the metadata and those of its references that do not
  share a composite key with a later one.

  \<^bold>\<open>Operations\<close> (\<open>operations/\<close>). \<open>Op_Report\<close> models reports, reporters, what may be serialised and the cache
  key of an execution; \<open>Op_Execute\<close> operations, the retry loop, the execution of operations and sequences on
  a state of reports, recent reports and hash cache; \<open>Op_Series\<close> the series of executions and the registry.
  Reports are only ever appended; an execution runs its handler exactly when no reusable report exists; a
  rerun is skipped; a sequence returns the reports of all it executed.
  The retry library, UUIDs and SHA-256 are arguments (record \<open>op_lib\<close>).

  \<^bold>\<open>Address book\<close> (\<open>deployment/address_book.go\<close>, \<open>address_book_labels.go\<close>). \<open>Address_Book\<close>: versions with labels, their
  printed form, saving with checksum and zero address checks, merging and removing, and the check for
  duplicate contracts. The locale \<open>book_reader\<close> states what searching needs of a book.

  \<^bold>\<open>Changesets\<close> (\<open>engine/cld/changeset/\<close>). \<open>Changeset_Registry\<close>: how a changeset gets its configuration, hooks
  with their failure policies, the registry and \<open>Apply\<close>. User code acts on an abstract world; the
  trace of its calls is what the theorems order. The reachable registries are an inductive set.

  \<^bold>\<open>Job distributor\<close> (\<open>offchain/jd/memory/\<close>). \<open>Job_Distributor\<close>: every method of the in-memory client. The
  reachable states satisfy an invariant linking jobs, proposals and revisions.

  \<^bold>\<open>Proposals\<close>. \<open>Analyzer_Graph\<close> (\<open>engine/cld/mcms/proposalanalysis/scheduler/\<close>): layering of the dependency
  graph of analyzers with detection of cycles, against the specification \<open>layered\<close>; and the parallel
  best-effort run as an inductive step relation over all interleavings, with safety, outcome and a bound
  on the number of steps. \<open>Predecessors\<close> (\<open>experimental/proposalutils/predecessors/\<close>): the graph of open pull
  requests, whose priority queue with binary search yields the time order, and starting operation counts
  on 64-bit words. \<open>Timelock_Delay\<close> (\<open>engine/cld/mcms/timelockdelay/\<close>): minimum delays read in parallel, the
  bound on seconds that fit a duration, and the correction of delays.

  \<^bold>\<open>EVM client.\<close> \<open>Evm_Client\<close> (\<open>chain/evm/provider/rpcclient/\<close>, \<open>chain/evm/gas/\<close>): the client that fails over between
  endpoints, for one caller and for interleavings of several, and the gas settings of a transaction.

  \<^bold>\<open>Outputs and sequences\<close> (\<open>deployment/\<close>, \<open>changeset/\<close>). \<open>Changeset_Output\<close> has the output of a changeset and the merge of
  two outputs, on books that are shared by reference; \<open>Output_Builder\<close> the builder that turns specifications of
  proposals into timelock proposals; \<open>Sequence_Changeset\<close> the changesets that execute a sequence of operations, with
  the merge of its outputs and metadata. An applied changeset is shown to refine the execution of its sequence.

  \<^bold>\<open>Chains\<close> (\<open>chain/\<close>). \<open>Chain_Types\<close> models the records of the eight chain families, their read-only copies and
  the conversion of addresses; \<open>Blockchains\<close> the collection of the chains of an environment; \<open>Mcms_Executor\<close>
  (\<open>engine/test/internal/mcmsutils/\<close>) the signing and execution of proposals, as a trace of what is sent.

  \<^bold>\<open>Inputs and files\<close> (\<open>engine/cld/pipeline/input/\<close>, \<open>engine/cld/domain/\<close>). \<open>Go_Path\<close> and \<open>File_System\<close> have the parts of
  \<open>path/filepath\<close> and \<open>os\<close> that are used, with their laws. \<open>Yaml_Input\<close> reads YAML nodes, a graph in which an alias
  may lead back to where it came from; \<open>Pipeline_Input\<close> finds the input file and selects the changeset.
  \<open>Domain_Paths\<close> has the layout of the files of a domain. \<open>Env_Dir\<close> (\<open>envdir.go\<close>, \<open>datastore.go\<close>,
  \<open>addressbook.go\<close>, \<open>nodes.go\<close>) reads and writes the files in which an environment keeps its state: merging
  what a changeset left into them, and taking an address book back. \<open>Env_Migration\<close> turns the address book of
  an environment into address references. \<open>Artifacts\<close> (\<open>artifacts.go\<close>, \<open>jobs.go\<close>) saves and
  loads the outputs and reports of changesets; \<open>SaveChangesetOutput_found\<close> says that the data
  store saved last is the one that merging finds. How a record is printed as JSON is left to arguments (\<open>file_codec\<close>, \<open>output_codec\<close>).

  \<^bold>\<open>Loops.\<close> The layering and the topological order are \<open>partial_function (option)\<close>; \<open>NewGraph_iff_acyclic\<close>
  and \<open>BuildPRDependencyGraph_time_order\<close> show that they return on every input they state. The walk over
  nested reports (\<open>GetExecutionReports_total\<close>) takes fuel, and as much as there are reports is shown to be
  enough where the reports refer to earlier ones only, as an execution stores them. Reading YAML nodes takes fuel
  too: \<open>yamlNodeToAny_returns\<close> shows when some fuel is enough, and that otherwise none is. All
  other loops are structural recursions or have a measure.

  \<^bold>\<open>Not modelled\<close>. The remote catalog, chain providers, command lines, configuration
  loading, rendering and annotation of proposals, contract verification, test environments, Jira
  and CRE clients and the code generator: input and output around third-party libraries. Texts of
  errors and logs are left out everywhere, as are cancellation and deadlines of contexts except where a
  component reads them (hooks, the scheduler, delay correction).
\<close>

end
